(* ===== verification/Prelude.thy ===== *)
theory Prelude
  imports Main "HOL-Library.AList" "HOL-Library.Char_ord" "HOL-Library.List_Lexorder" "HOL-Library.Sublist"
begin

text \<open>
  What every component of the model shares: insertion-ordered maps (a JavaScript \<open>Map\<close>),
  results that are an error or a value, de-duplication and comparator sorting of arrays, and the
  \<open>keyed\<close> tables a repository keeps its rows in.

  A \<open>Map\<close> iterates in insertion order, \<open>set\<close> on a present key keeps its place and \<open>delete\<close>
  removes the entry: exactly the association lists of \<^theory_text>\<open>HOL-Library.AList\<close>.
\<close>

named_theorems table_simps \<open>lookups after table updates\<close>
named_theorems op_defs \<open>definitions of the repository operations\<close>

section \<open>Maps\<close>

type_synonym ('k, 'v) jsmap = "('k \<times> 'v) list"

abbreviation mget :: "('k, 'v) jsmap \<Rightarrow> 'k \<Rightarrow> 'v option" where
  "mget m k \<equiv> map_of m k"

abbreviation mset_at :: "'k \<Rightarrow> 'v \<Rightarrow> ('k, 'v) jsmap \<Rightarrow> ('k, 'v) jsmap" where
  "mset_at k v m \<equiv> AList.update k v m"

abbreviation mdel :: "'k \<Rightarrow> ('k, 'v) jsmap \<Rightarrow> ('k, 'v) jsmap" where
  "mdel k m \<equiv> AList.delete k m"

definition mhas :: "('k, 'v) jsmap \<Rightarrow> 'k \<Rightarrow> bool" where
  "mhas m k \<longleftrightarrow> map_of m k \<noteq> None"

definition mvals :: "('k, 'v) jsmap \<Rightarrow> 'v list" where
  "mvals m = map snd m"

definition mkeys :: "('k, 'v) jsmap \<Rightarrow> 'k list" where
  "mkeys m = map fst m"

text \<open>Rewriting every value in place (a loop that assigns to fields of the stored rows).\<close>

definition mmap :: "('v \<Rightarrow> 'v) \<Rightarrow> ('k, 'v) jsmap \<Rightarrow> ('k, 'v) jsmap" where
  "mmap f m = map (\<lambda>(k, v). (k, f v)) m"

definition mfilter :: "('v \<Rightarrow> bool) \<Rightarrow> ('k, 'v) jsmap \<Rightarrow> ('k, 'v) jsmap" where
  "mfilter P m = filter (\<lambda>(k, v). P v) m"

lemma mhas_update [simp]: "mhas (mset_at k v m) k' \<longleftrightarrow> k' = k \<or> mhas m k'"
  by (simp add: mhas_def update_conv')

lemma mget_update [simp, table_simps]:
  "mget (mset_at k v m) k' = (if k' = k then Some v else mget m k')"
  by (simp add: update_conv')

lemma mget_delete [simp, table_simps]:
  "mget (mdel k m) k' = (if k' = k then None else mget m k')"
  by (simp add: delete_conv')

lemma mget_mmap [simp, table_simps]: "mget (mmap f m) k = map_option f (mget m k)"
  by (induction m) (auto simp: mmap_def)

lemma mvals_mmap [simp]: "mvals (mmap f m) = map f (mvals m)"
  by (simp add: mvals_def mmap_def comp_def case_prod_unfold)

lemma mkeys_mmap [simp]: "mkeys (mmap f m) = mkeys m"
  by (simp add: mkeys_def mmap_def comp_def case_prod_unfold)

lemma mvals_Nil [simp]: "mvals [] = []" and mkeys_Nil [simp]: "mkeys [] = []"
  by (simp_all add: mvals_def mkeys_def)

lemma mget_in_mvals: "mget m k = Some v \<Longrightarrow> v \<in> set (mvals m)"
  by (force simp: mvals_def dest: map_of_SomeD)

text \<open>\<open>new Map(entries)\<close> and \<open>Object.fromEntries(entries)\<close>: a later entry overwrites an earlier one.\<close>

definition of_entries :: "('k \<times> 'v) list \<Rightarrow> ('k, 'v) jsmap" where
  "of_entries kvs = fold (\<lambda>(k, v) m. mset_at k v m) kvs []"

lemma mget_of_entries: "mget (of_entries kvs) k = map_of (rev kvs) k"
proof -
  have "mget (fold (\<lambda>(k, v) m. mset_at k v m) kvs m) k = (case map_of (rev kvs) k of None \<Rightarrow> mget m k | Some v \<Rightarrow> Some v)" for m
    by (induction kvs arbitrary: m) (auto simp: map_add_def split: option.split)
  then show ?thesis by (simp add: of_entries_def split: option.split)
qed

lemma map_of_rev_distinct: "distinct (map fst kvs) \<Longrightarrow> map_of (rev kvs) = map_of kvs"
  by (rule map_of_inject_set[THEN iffD2]) (auto simp: rev_map[symmetric])

lemma mget_of_entries_distinct: "distinct (map fst kvs) \<Longrightarrow> mget (of_entries kvs) k = map_of kvs k"
  by (metis mget_of_entries map_of_rev_distinct)

section \<open>Tables keyed by a field of their rows\<close>

text \<open>
  A repository stores a row under the value of one of its fields; \<open>keyed f m\<close> says the keys are
  distinct and agree with that field.
\<close>

definition keyed :: "('v \<Rightarrow> 'k) \<Rightarrow> ('k, 'v) jsmap \<Rightarrow> bool" where
  "keyed f m \<longleftrightarrow> distinct (map fst m) \<and> (\<forall>p \<in> set m. f (snd p) = fst p)"

lemma keyed_Nil [simp]: "keyed f []"
  by (simp add: keyed_def)

lemma keyed_get: "keyed f m \<Longrightarrow> mget m k = Some v \<Longrightarrow> f v = k"
  by (auto simp: keyed_def dest!: map_of_SomeD)

lemma keyed_vals: "keyed f m \<Longrightarrow> v \<in> set (mvals m) \<longleftrightarrow> mget m (f v) = Some v"
  by (force simp: keyed_def mvals_def dest: map_of_SomeD)

lemma keyed_vals_get: "keyed f m \<Longrightarrow> v \<in> set (mvals m) \<longleftrightarrow> (\<exists>k. mget m k = Some v)"
  by (metis keyed_get keyed_vals)

lemma set_update_sub: "set (mset_at k v m) \<subseteq> insert (k, v) (set m)"
  by (induction m) auto

lemma set_delete_sub: "set (mdel k m) \<subseteq> set m"
  by (induction m) auto

lemma keyed_update: "keyed f m \<Longrightarrow> f v = k \<Longrightarrow> keyed f (mset_at k v m)"
  by (auto simp: keyed_def distinct_update dest: set_update_sub[THEN subsetD])

lemma keyed_delete: "keyed f m \<Longrightarrow> keyed f (mdel k m)"
  using set_delete_sub [of k m] by (auto simp: keyed_def distinct_delete)

lemma keyed_mmap: "keyed f m \<Longrightarrow> (\<And>v. v \<in> set (mvals m) \<Longrightarrow> f (g v) = f v) \<Longrightarrow> keyed f (mmap g m)"
  by (force simp: keyed_def mmap_def mvals_def comp_def case_prod_unfold)

lemma keyed_mfilter: "keyed f m \<Longrightarrow> keyed f (mfilter P m)"
  by (auto simp: keyed_def mfilter_def distinct_map inj_on_def)

lemma keyed_vals_update:
  assumes "keyed f m" and "f v = k"
  shows "w \<in> set (mvals (mset_at k v m)) \<longleftrightarrow> w = v \<or> (w \<in> set (mvals m) \<and> f w \<noteq> k)"
proof -
  have "w \<in> set (mvals (mset_at k v m)) \<longleftrightarrow> mget (mset_at k v m) (f w) = Some w"
    using keyed_update[OF assms] by (rule keyed_vals)
  then show ?thesis using assms by (auto simp: keyed_vals)
qed

lemma keyed_vals_delete:
  assumes "keyed f m"
  shows "w \<in> set (mvals (mdel k m)) \<longleftrightarrow> w \<in> set (mvals m) \<and> f w \<noteq> k"
proof -
  have "w \<in> set (mvals (mdel k m)) \<longleftrightarrow> mget (mdel k m) (f w) = Some w"
    using keyed_delete[OF assms] by (rule keyed_vals)
  then show ?thesis using assms by (auto simp: keyed_vals)
qed

lemma mget_mfilter:
  "distinct (map fst m) \<Longrightarrow> mget (mfilter P m) k = (case mget m k of Some v \<Rightarrow> if P v then Some v else None | None \<Rightarrow> None)"
  by (induction m) (auto simp: mfilter_def split: option.splits intro!: map_of_eq_None_iff[THEN iffD2] dest: map_of_SomeD)

lemma mvals_mfilter: "mvals (mfilter P m) = filter P (mvals m)"
  by (induction m) (auto simp: mfilter_def mvals_def)

lemma distinct_mvals_ident: "keyed f m \<Longrightarrow> distinct (map f (mvals m))"
  by (simp add: keyed_def mvals_def comp_def cong: map_cong)

section \<open>Results\<close>

text \<open>
  \<open>Inl\<close> is a thrown error, \<open>Inr\<close> a returned value. \<open>bindr\<close> is the sequencing a \<open>throw\<close> cuts short.
\<close>

fun bindr :: "'e + 'a \<Rightarrow> ('a \<Rightarrow> 'e + 'b) \<Rightarrow> 'e + 'b" where
  "bindr (Inl e) f = Inl e"
| "bindr (Inr x) f = f x"

lemma bindr_split: "P (bindr r f) \<longleftrightarrow> (\<forall>e. r = Inl e \<longrightarrow> P (Inl e)) \<and> (\<forall>x. r = Inr x \<longrightarrow> P (f x))"
  by (cases r) auto

lemma bindr_Inr_iff [simp]: "bindr r f = Inr y \<longleftrightarrow> (\<exists>x. r = Inr x \<and> f x = Inr y)"
  by (cases r) auto

lemma bindr_Inl_iff: "bindr r f = Inl e \<longleftrightarrow> r = Inl e \<or> (\<exists>x. r = Inr x \<and> f x = Inl e)"
  by (cases r) auto

fun is_ok :: "'e + 'a \<Rightarrow> bool" where
  "is_ok (Inl e) = False"
| "is_ok (Inr x) = True"

text \<open>An optional field: checked when present, passed on when absent.\<close>

fun opt_check :: "('a \<Rightarrow> 'e + 'b) \<Rightarrow> 'a option \<Rightarrow> 'e + 'b option" where
  "opt_check f None = Inr None"
| "opt_check f (Some x) = bindr (f x) (\<lambda>y. Inr (Some y))"

text \<open>A search filter: an absent option matches everything.\<close>

definition opt_match :: "('a \<Rightarrow> bool) \<Rightarrow> 'a option \<Rightarrow> bool" where
  "opt_match P x \<longleftrightarrow> (case x of None \<Rightarrow> True | Some a \<Rightarrow> P a)"

text \<open>A loop over a list that stops at the first throw.\<close>

fun mapr :: "('a \<Rightarrow> 'e + 'b) \<Rightarrow> 'a list \<Rightarrow> 'e + 'b list" where
  "mapr f [] = Inr []"
| "mapr f (x # xs) = bindr (f x) (\<lambda>y. bindr (mapr f xs) (\<lambda>ys. Inr (y # ys)))"

fun checkr :: "('a \<Rightarrow> 'e option) \<Rightarrow> 'a list \<Rightarrow> 'e option" where
  "checkr f [] = None"
| "checkr f (x # xs) = (case f x of Some e \<Rightarrow> Some e | None \<Rightarrow> checkr f xs)"

lemma checkr_None: "checkr f xs = None \<longleftrightarrow> (\<forall>x \<in> set xs. f x = None)"
  by (induction xs) (auto split: option.splits)

lemma mapr_Inr_set: "mapr f xs = Inr ys \<Longrightarrow> y \<in> set ys \<Longrightarrow> \<exists>x \<in> set xs. f x = Inr y"
  by (induction xs arbitrary: ys) auto

lemma mapr_Inr_length: "mapr f xs = Inr ys \<Longrightarrow> length ys = length xs"
  by (induction xs arbitrary: ys) auto

lemma opt_check_Inr:
  "opt_check f x = Inr y \<longleftrightarrow> (x = None \<and> y = None) \<or> (\<exists>a b. x = Some a \<and> f a = Inr b \<and> y = Some b)"
  by (cases x) auto

section \<open>Arrays: \<open>[...new Set(xs)]\<close>, \<open>sort\<close>, \<open>splice\<close>\<close>

text \<open>A \<open>Set\<close> keeps the first occurrence of each element.\<close>

definition uniq :: "'a list \<Rightarrow> 'a list" where
  "uniq xs = rev (remdups (rev xs))"

lemma set_uniq [simp]: "set (uniq xs) = set xs"
  and distinct_uniq [simp]: "distinct (uniq xs)"
  by (simp_all add: uniq_def)

text \<open>\<open>new Set\<close>'s \<open>add\<close>: at the end, unless present.\<close>

definition set_add :: "'a \<Rightarrow> 'a list \<Rightarrow> 'a list" where
  "set_add x xs = (if x \<in> set xs then xs else xs @ [x])"

lemma set_set_add [simp]: "set (set_add x xs) = insert x (set xs)"
  by (auto simp: set_add_def)

lemma distinct_set_add: "distinct xs \<Longrightarrow> distinct (set_add x xs)"
  by (auto simp: set_add_def)

text \<open>
  \<open>sort(cmp)\<close> is stable; \<open>lt a b\<close> stands for \<open>cmp(a, b) < 0\<close>.
\<close>

fun insert_by :: "('a \<Rightarrow> 'a \<Rightarrow> bool) \<Rightarrow> 'a \<Rightarrow> 'a list \<Rightarrow> 'a list" where
  "insert_by lt x [] = [x]"
| "insert_by lt x (y # ys) = (if lt y x then y # insert_by lt x ys else x # y # ys)"

definition sort_by :: "('a \<Rightarrow> 'a \<Rightarrow> bool) \<Rightarrow> 'a list \<Rightarrow> 'a list" where
  "sort_by lt xs = foldr (insert_by lt) xs []"

lemma set_insert_by [simp]: "set (insert_by lt x ys) = insert x (set ys)"
  by (induction ys) auto

lemma set_sort_by [simp]: "set (sort_by lt xs) = set xs"
  by (induction xs) (auto simp: sort_by_def)

lemma length_insert_by [simp]: "length (insert_by lt x ys) = Suc (length ys)"
  by (induction ys) auto

lemma length_sort_by [simp]: "length (sort_by lt xs) = length xs"
  by (induction xs) (auto simp: sort_by_def)

lemma distinct_map_sort_by: "distinct (map f (sort_by lt xs)) \<longleftrightarrow> distinct (map f xs)"
proof -
  have "distinct (map f (insert_by lt x ys)) \<longleftrightarrow> distinct (map f (x # ys))" for x ys
    by (induction ys) auto
  moreover have "set (foldr (insert_by lt) xs []) = set xs" for xs using set_sort_by[of lt xs] by (simp add: sort_by_def)
  ultimately show ?thesis by (induction xs) (simp_all add: sort_by_def)
qed

text \<open>\<open>xs.splice(xs.indexOf(x), 1)\<close>: only the first occurrence goes (\<open>remove1\<close>).\<close>

abbreviation splice_out :: "'a \<Rightarrow> 'a list \<Rightarrow> 'a list" where
  "splice_out x xs \<equiv> remove1 x xs"

text \<open>\<open>page.slice(0, limit)\<close> with an optional limit.\<close>

fun slice_to :: "nat option \<Rightarrow> 'a list \<Rightarrow> 'a list" where
  "slice_to None xs = xs"
| "slice_to (Some n) xs = take n xs"

lemma set_slice_to: "set (slice_to n xs) \<subseteq> set xs"
  by (cases n) (auto dest: in_set_takeD)

fun cap_at :: "nat option \<Rightarrow> nat \<Rightarrow> nat" where
  "cap_at None n = n"
| "cap_at (Some l) n = min n l"

text \<open>The clamp \<open>Math.min(Math.max(limit ?? d, 1), m)\<close> of a page size.\<close>

definition clamp_limit :: "int \<Rightarrow> int \<Rightarrow> int option \<Rightarrow> nat" where
  "clamp_limit d m l = nat (min (max (case l of None \<Rightarrow> d | Some n \<Rightarrow> n) 1) m)"

lemma clamp_limit_bounds: "1 \<le> m \<Longrightarrow> 1 \<le> clamp_limit d m l \<and> int (clamp_limit d m l) \<le> m"
  by (auto simp: clamp_limit_def split: option.splits)

lemma length_filter_le_mono: "(\<And>x. x \<in> set xs \<Longrightarrow> P x \<Longrightarrow> Q x) \<Longrightarrow> length (filter P xs) \<le> length (filter Q xs)"
proof (induction xs)
  case (Cons x xs)
  have "P x \<Longrightarrow> Q x" using Cons.prems by simp
  moreover have "length (filter P xs) \<le> length (filter Q xs)" using Cons by simp
  ultimately show ?case by auto
qed simp

lemma length_filter_less_mono:
  assumes "\<And>x. x \<in> set xs \<Longrightarrow> P x \<Longrightarrow> Q x" "y \<in> set xs" "Q y" "\<not> P y"
  shows "length (filter P xs) < length (filter Q xs)"
  using assms
proof (induction xs)
  case (Cons x xs)
  have le: "length (filter P xs) \<le> length (filter Q xs)" using Cons.prems(1) by (intro length_filter_le_mono) simp
  show ?case
  proof (cases "y = x")
    case True
    then show ?thesis using Cons.prems le by simp
  next
    case False
    then have "length (filter P xs) < length (filter Q xs)" using Cons by simp
    moreover have "P x \<Longrightarrow> Q x" using Cons.prems by simp
    ultimately show ?thesis by auto
  qed
qed simp

text \<open>The maximum a loop of \<open>Math.max(deepest, ...)\<close> from 0 finds.\<close>

fun maxl :: "nat list \<Rightarrow> nat" where
  "maxl [] = 0"
| "maxl (x # xs) = max x (maxl xs)"

lemma maxl_ge: "x \<in> set xs \<Longrightarrow> x \<le> maxl xs"
  by (induction xs) auto

section \<open>Worklists\<close>

text \<open>
  One round of a search: the successors that were not found yet are found and pushed on the stack.
\<close>

fun visit :: "'a list \<Rightarrow> 'a list \<times> 'a list \<Rightarrow> 'a list \<times> 'a list" where
  "visit [] fs = fs"
| "visit (c # cs) (found, stack) =
     (if c \<in> set found then visit cs (found, stack) else visit cs (found @ [c], stack @ [c]))"

lemma visit_found: "set (fst (visit cs (f, s))) = set f \<union> set cs"
  by (induction cs arbitrary: f s) auto

lemma visit_stack: "set (snd (visit cs (f, s))) = set s \<union> (set cs - set f)"
  by (induction cs arbitrary: f s) auto

lemma visit_distinct: "distinct f \<Longrightarrow> distinct (fst (visit cs (f, s)))"
  by (induction cs arbitrary: f s) auto

lemma visit_same: "set cs \<subseteq> set f \<Longrightarrow> visit cs (f, s) = (f, s)"
  by (induction cs) auto

lemma visit_measure:
  assumes "finite U" "set cs \<subseteq> U" "visit cs (f, s) = (f', s')"
  shows "card (U - set f') < card (U - set f) \<or> (card (U - set f') = card (U - set f) \<and> s' = s)"
proof (cases "set cs \<subseteq> set f")
  case True
  then show ?thesis using visit_same[OF True, of s] assms(3) by simp
next
  case False
  have f': "set f' = set f \<union> set cs" using visit_found[of cs f s] assms(3) by simp
  obtain c where "c \<in> set cs" "c \<notin> set f" using False by blast
  then have "U - set f' \<subset> U - set f" using f' assms(2) by blast
  then show ?thesis using psubset_card_mono[of "U - set f"] assms(1) by blast
qed

lemma visit_decreases:
  assumes "(f', s') = visit cs (f, butlast stack)" "stack \<noteq> []" "finite U" "set cs \<subseteq> U"
  shows "card (U - set f') < card (U - set f) \<or> (card (U - set f') = card (U - set f) \<and> length s' < length stack)"
  using visit_measure[OF assms(3,4) assms(1)[symmetric]] assms(2) by auto

text \<open>
  The invariant of such a search for the nodes reachable from a set: everything found is reachable,
  and the successors of what was found are found unless it is still on the stack.
\<close>

definition search_inv :: "('a \<times> 'a) set \<Rightarrow> 'a set \<Rightarrow> 'a list \<Rightarrow> 'a list \<Rightarrow> bool" where
  "search_inv E S found stack \<longleftrightarrow> set found \<subseteq> E\<^sup>* `` S \<and> set stack \<subseteq> set found \<and>
     (\<forall>x \<in> set found - set stack. E `` {x} \<subseteq> set found)"

lemma search_inv_done:
  assumes "search_inv E S found []" "S \<subseteq> set found"
  shows "set found = E\<^sup>* `` S"
proof -
  have "E `` set found \<subseteq> set found" using assms(1) by (auto simp: search_inv_def)
  then have "E\<^sup>* `` set found \<subseteq> set found" by (simp add: Image_closed_trancl)
  then show ?thesis using assms by (auto simp: search_inv_def)
qed

lemma search_inv_visit:
  assumes "search_inv E S found stack" "stack \<noteq> []" "set cs = E `` {last stack}"
    and "visit cs (found, butlast stack) = (found', stack')"
  shows "search_inv E S found' stack'"
proof -
  have f': "set found' = set found \<union> set cs" and s': "set stack' = set (butlast stack) \<union> (set cs - set found)"
    using visit_found[of cs found "butlast stack"] visit_stack[of cs found "butlast stack"] assms(4) by simp_all
  have st: "set stack = insert (last stack) (set (butlast stack))"
    using assms(2) by (metis append_butlast_last_id list.simps(15) rotate1.simps(2) set_rotate1)
  have l: "last stack \<in> E\<^sup>* `` S" using assms(1,2) last_in_set by (fastforce simp: search_inv_def)
  have "set cs \<subseteq> E\<^sup>* `` S" using l unfolding assms(3) by (auto intro: rtrancl.rtrancl_into_rtrancl)
  moreover have "E `` {x} \<subseteq> set found'" if "x \<in> set found' - set stack'" for x
    using that assms(1,3) f' s' st by (auto simp: search_inv_def)
  moreover have "set stack' \<subseteq> set found'" using assms(1) f' s' st by (auto simp: search_inv_def)
  ultimately show ?thesis using assms(1) f' by (auto simp: search_inv_def)
qed

end
