(* ===== verification/Text.thy ===== *)
theory Text
  imports Prelude
begin

text \<open>
  The text handling of \<open>packages/core/src/shared/slug.ts\<close> and of the name and key validators that
  share its shape.  A \<open>string\<close> here is a JavaScript string whose code units are below 256
  (Latin-1): case conversion, white space and NFKD decomposition are written out for that range, and
  what NFKD maps outside of it (the fraction slash, the Greek mu) is shown by a Latin-1 character of
  the same class, neither letter nor digit.
\<close>

section \<open>Characters\<close>

definition code :: "char \<Rightarrow> nat" where
  "code c = of_char c"

text \<open>\<open>\\s\<close> and \<open>trim\<close>: tab, line feed, vertical tab, form feed, return, space, no-break space.\<close>

definition is_ws :: "char \<Rightarrow> bool" where
  "is_ws c \<longleftrightarrow> code c \<in> {9, 10, 11, 12, 13, 32, 160}"

definition is_lower_az :: "char \<Rightarrow> bool" where
  "is_lower_az c \<longleftrightarrow> 97 \<le> code c \<and> code c \<le> 122"

definition is_upper_az :: "char \<Rightarrow> bool" where
  "is_upper_az c \<longleftrightarrow> 65 \<le> code c \<and> code c \<le> 90"

definition is_digit09 :: "char \<Rightarrow> bool" where
  "is_digit09 c \<longleftrightarrow> 48 \<le> code c \<and> code c \<le> 57"

text \<open>The class \<open>[a-z0-9]\<close>.\<close>

definition is_alnum :: "char \<Rightarrow> bool" where
  "is_alnum c \<longleftrightarrow> is_lower_az c \<or> is_digit09 c"

definition lower_char :: "char \<Rightarrow> char" where
  "lower_char c = (if is_upper_az c \<or> (192 \<le> code c \<and> code c \<le> 222 \<and> code c \<noteq> 215)
                   then char_of (code c + 32) else c)"

definition lower :: "string \<Rightarrow> string" where
  "lower s = map lower_char s"

section \<open>Trimming and collapsing\<close>

definition trim :: "string \<Rightarrow> string" where
  "trim s = rev (dropWhile is_ws (rev (dropWhile is_ws s)))"

text \<open>\<open>s.replace(/C+/g, r)\<close> for a character class \<open>C\<close>: every maximal run becomes one \<open>r\<close>.\<close>

function replace_runs :: "(char \<Rightarrow> bool) \<Rightarrow> char \<Rightarrow> string \<Rightarrow> string" where
  "replace_runs C r [] = []"
| "replace_runs C r (c # cs) =
     (if C c then r # replace_runs C r (dropWhile C cs) else c # replace_runs C r cs)"
  by pat_completeness auto
termination
  by (relation "measure (\<lambda>(C, r, s). length s)") (auto simp: le_imp_less_Suc length_dropWhile_le)

definition clean_name :: "string \<Rightarrow> string" where
  "clean_name s = replace_runs is_ws (CHR '' '') (trim s)"

definition str_includes :: "string \<Rightarrow> string \<Rightarrow> bool" where
  "str_includes s t \<longleftrightarrow> list_ex (\<lambda>u. prefix t u) (suffixes s)"

text \<open>The optional search text: trimmed, lower case; empty is no filter.\<close>

definition search_query :: "string option \<Rightarrow> string option" where
  "search_query q = (case q of None \<Rightarrow> None | Some s \<Rightarrow>
     (let t = lower (trim s) in if t = [] then None else Some t))"

definition query_hits :: "string option \<Rightarrow> string list \<Rightarrow> bool" where
  "query_hits q fields = (case q of None \<Rightarrow> True | Some t \<Rightarrow> list_ex (\<lambda>f. str_includes (lower f) t) fields)"

text \<open>A quoted piece of an error message.\<close>

definition quoted :: "string \<Rightarrow> string" where
  "quoted s = CHR 0x22 # s @ [CHR 0x22]"

section \<open>Segmented identifiers\<close>

text \<open>
  The patterns \<open>^C+(S C+)*$\<close>: runs of \<open>C\<close> separated by single separators \<open>S\<close>.  \<open>seg_start\<close> is
  before the first character of a segment, \<open>seg_in\<close> inside one.
\<close>

fun seg_start :: "(char \<Rightarrow> bool) \<Rightarrow> (char \<Rightarrow> bool) \<Rightarrow> string \<Rightarrow> bool"
and seg_in :: "(char \<Rightarrow> bool) \<Rightarrow> (char \<Rightarrow> bool) \<Rightarrow> string \<Rightarrow> bool" where
  "seg_start C S [] = False"
| "seg_start C S (c # cs) = (C c \<and> seg_in C S cs)"
| "seg_in C S [] = True"
| "seg_in C S (c # cs) = (if C c then seg_in C S cs else S c \<and> seg_start C S cs)"

definition MAX_SLUG_LENGTH :: nat where
  "MAX_SLUG_LENGTH = 63"

definition is_hyphen :: "char \<Rightarrow> bool" where
  "is_hyphen c \<longleftrightarrow> c = CHR ''-''"

definition is_underscore :: "char \<Rightarrow> bool" where
  "is_underscore c \<longleftrightarrow> c = CHR ''_''"

definition matchesSlugPattern :: "string \<Rightarrow> bool" where
  "matchesSlugPattern s = seg_start is_alnum is_hyphen s"

section \<open>Deriving a key from a name\<close>

text \<open>
  \<open>normalize("NFKD")\<close> followed by removing U+0300 to U+036F, one code unit at a time.
\<close>

definition nfkd_base :: "char \<Rightarrow> string" where
  "nfkd_base c =
     (let n = code c in
      if n \<in> {160, 168, 175, 180, 184} then '' ''
      else if n = 170 then ''a'' else if n = 186 then ''o''
      else if n = 178 then ''2'' else if n = 179 then ''3'' else if n = 185 then ''1''
      else if n = 188 then ''1/4'' else if n = 189 then ''1/2'' else if n = 190 then ''3/4''
      else if n \<in> {192..197} then ''A'' else if n = 199 then ''C''
      else if n \<in> {200..203} then ''E'' else if n \<in> {204..207} then ''I''
      else if n = 209 then ''N'' else if n \<in> {210..214} then ''O''
      else if n \<in> {217..220} then ''U'' else if n = 221 then ''Y''
      else if n \<in> {224..229} then ''a'' else if n = 231 then ''c''
      else if n \<in> {232..235} then ''e'' else if n \<in> {236..239} then ''i''
      else if n = 241 then ''n'' else if n \<in> {242..246} then ''o''
      else if n \<in> {249..252} then ''u'' else if n \<in> {253, 255} then ''y''
      else [c])"

definition strip_ends :: "(char \<Rightarrow> bool) \<Rightarrow> string \<Rightarrow> string" where
  "strip_ends C s = rev (dropWhile C (rev (dropWhile C s)))"

definition strip_tail :: "(char \<Rightarrow> bool) \<Rightarrow> string \<Rightarrow> string" where
  "strip_tail C s = rev (dropWhile C (rev s))"

text \<open>The pipeline of \<open>deriveSlug\<close> and \<open>deriveFeatureKey\<close>, for a separator.\<close>

definition derive_with :: "char \<Rightarrow> nat \<Rightarrow> string \<Rightarrow> string" where
  "derive_with sep maxLength input =
     strip_tail (\<lambda>c. c = sep) (take maxLength (strip_ends (\<lambda>c. c = sep)
       (replace_runs (\<lambda>c. \<not> is_alnum c) sep (lower (concat (map nfkd_base input))))))"

definition deriveSlug :: "string \<Rightarrow> nat \<Rightarrow> string" where
  "deriveSlug input maxLength = derive_with (CHR ''-'') maxLength input"

subsection \<open>Lemmas\<close>

lemma is_alnum_sep [simp]: "\<not> is_alnum (CHR ''-'')" "\<not> is_alnum (CHR ''_'')"
  by (simp_all add: is_alnum_def is_lower_az_def is_digit09_def code_def)

text \<open>
  What the pipeline keeps true of the text between its stages: only the class and the separator, and
  never two separators in a row.
\<close>

fun spaced :: "(char \<Rightarrow> bool) \<Rightarrow> char \<Rightarrow> string \<Rightarrow> bool" where
  "spaced C sep [] = True"
| "spaced C sep [c] = (C c \<or> c = sep)"
| "spaced C sep (c # d # cs) = ((C c \<or> c = sep \<and> C d) \<and> spaced C sep (d # cs))"

lemma spaced_Cons_alnum: "C c \<Longrightarrow> spaced C sep cs \<Longrightarrow> spaced C sep (c # cs)"
  by (cases cs) auto

lemma spaced_Cons_sep: "spaced C sep cs \<Longrightarrow> cs = [] \<or> C (hd cs) \<Longrightarrow> spaced C sep (sep # cs)"
  by (cases cs) auto

lemma replace_runs_hd:
  "cs = [] \<or> \<not> C (hd cs) \<Longrightarrow> replace_runs C r cs = [] \<or> \<not> C (hd (replace_runs C r cs))"
  by (cases cs) auto

lemma hd_dropWhile_not: "dropWhile C cs = [] \<or> \<not> C (hd (dropWhile C cs))"
  by (metis hd_dropWhile)

lemma spaced_replace_runs: "spaced (\<lambda>c. \<not> C c) r (replace_runs C r s)"
proof (induction C r s rule: replace_runs.induct)
  case (1 C r)
  then show ?case by simp
next
  case (2 C r c cs)
  then show ?case
    using replace_runs_hd[of "dropWhile C cs" C r, OF hd_dropWhile_not]
    by (auto intro: spaced_Cons_alnum spaced_Cons_sep)
qed

lemma spaced_tl: "spaced C sep (c # cs) \<Longrightarrow> spaced C sep cs"
  by (cases cs) auto

lemma spaced_dropWhile: "spaced C sep s \<Longrightarrow> spaced C sep (dropWhile P s)"
  by (induction s) (auto dest: spaced_tl)

lemma spaced_take: "spaced C sep s \<Longrightarrow> spaced C sep (take n s)"
proof (induction C sep s arbitrary: n rule: spaced.induct)
  case (1 C sep)
  then show ?case by simp
next
  case (2 C sep c)
  then show ?case by (cases n) auto
next
  case (3 C sep c d cs)
  then show ?case
    by (cases n; cases "n - 1") (auto dest: "3.IH"[of "n - 1"])
qed

lemma spaced_prefix: "spaced C sep (xs @ ys) \<Longrightarrow> spaced C sep xs"
  using spaced_take[of C sep "xs @ ys" "length xs"] by simp

lemma strip_tail_prefix: "\<exists>ys. s = strip_tail P s @ ys"
proof -
  have "rev s = takeWhile P (rev s) @ dropWhile P (rev s)" by simp
  then have "s = rev (dropWhile P (rev s)) @ rev (takeWhile P (rev s))"
    by (metis rev_append rev_rev_ident)
  then show ?thesis by (auto simp: strip_tail_def)
qed

lemma spaced_strip_tail: "spaced C sep s \<Longrightarrow> spaced C sep (strip_tail P s)"
  using strip_tail_prefix[of s P] by (metis spaced_prefix)

lemma strip_ends_conv: "strip_ends P s = strip_tail P (dropWhile P s)"
  by (simp add: strip_ends_def strip_tail_def)

lemma strip_tail_last: "strip_tail P s \<noteq> [] \<Longrightarrow> \<not> P (last (strip_tail P s))"
  by (simp add: strip_tail_def last_rev hd_dropWhile)

lemma hd_prefix: "s = t @ ys \<Longrightarrow> t \<noteq> [] \<Longrightarrow> hd t = hd s"
  by simp

lemma spaced_segments:
  assumes "spaced C sep s" "\<not> C sep" "S sep"
  shows "(s \<noteq> [] \<and> hd s \<noteq> sep \<and> last s \<noteq> sep \<longrightarrow> seg_start C S s) \<and>
         (s \<noteq> [] \<and> last s \<noteq> sep \<longrightarrow> seg_in C S s)"
  using assms by (induction C sep s rule: spaced.induct) auto

lemma length_strip_tail: "length (strip_tail P s) \<le> length s"
  by (simp add: strip_tail_def length_dropWhile_le[of P "rev s", simplified])

lemma derive_with_valid:
  assumes sep: "\<not> is_alnum sep" and S: "S sep"
    and ne: "derive_with sep n input \<noteq> []"
  shows "seg_start is_alnum S (derive_with sep n input) \<and> length (derive_with sep n input) \<le> n"
proof -
  define r where "r = replace_runs (\<lambda>c. \<not> is_alnum c) sep (lower (concat (map nfkd_base input)))"
  define e where "e = strip_ends (\<lambda>c. c = sep) r"
  define d where "d = strip_tail (\<lambda>c. c = sep) (take n e)"
  have d: "derive_with sep n input = d"
    by (simp add: derive_with_def d_def e_def r_def)
  have sp: "spaced is_alnum sep r"
    using spaced_replace_runs[of "\<lambda>c. \<not> is_alnum c" sep] by (simp add: r_def)
  then have spd: "spaced is_alnum sep d"
    unfolding d_def e_def strip_ends_conv
    by (intro spaced_strip_tail spaced_take spaced_dropWhile)
  have dne: "d \<noteq> []" using ne d by simp
  obtain ys where ys: "take n e = d @ ys" using strip_tail_prefix d_def by blast
  have ene: "e \<noteq> []" "n \<noteq> 0" using ys dne by (auto intro: ccontr)
  have "hd d = hd (take n e)" using ys dne by simp
  also have "\<dots> = hd e" using ene by (cases e; cases n) auto
  also have "hd e \<noteq> sep"
  proof -
    obtain zs where zs: "dropWhile (\<lambda>c. c = sep) r = e @ zs"
      unfolding e_def strip_ends_conv using strip_tail_prefix by blast
    then have "hd e = hd (dropWhile (\<lambda>c. c = sep) r)" using ene by simp
    moreover have "dropWhile (\<lambda>c. c = sep) r \<noteq> []" using zs ene by simp
    ultimately show ?thesis using hd_dropWhile[of "\<lambda>c. c = sep" r] by simp
  qed
  finally have "hd d \<noteq> sep" .
  moreover have "last d \<noteq> sep" using dne strip_tail_last[of "\<lambda>c. c = sep" "take n e"] by (simp add: d_def)
  moreover have "length d \<le> n"
    unfolding d_def using length_strip_tail[of "\<lambda>c. c = sep" "take n e"] by simp
  ultimately show ?thesis
    using spaced_segments[of is_alnum sep d S] spd sep S dne d by simp
qed

section \<open>Composite keys\<close>

text \<open>
  Several maps are keyed by a template literal that joins two parts with a separator.  The contract a
  client relies on: on the parts that occur (\<open>ok\<close>), the joined key determines the parts.
\<close>

locale composite_key =
  fixes enc :: "'a \<Rightarrow> 'b \<Rightarrow> string" and ok :: "'a \<Rightarrow> 'b \<Rightarrow> bool"
  assumes enc_inj: "ok a b \<Longrightarrow> ok c d \<Longrightarrow> enc a b = enc c d \<Longrightarrow> a = c \<and> b = d"
begin

lemma enc_eq_iff: "ok a b \<Longrightarrow> ok c d \<Longrightarrow> enc a b = enc c d \<longleftrightarrow> a = c \<and> b = d"
  using enc_inj by blast

lemma get_after_set:
  "ok a b \<Longrightarrow> ok c d \<Longrightarrow> mget (mset_at (enc a b) v m) (enc c d) = (if a = c \<and> b = d then Some v else mget m (enc c d))"
  using enc_inj by auto

lemma get_after_del:
  "ok a b \<Longrightarrow> ok c d \<Longrightarrow> mget (mdel (enc a b) m) (enc c d) = (if a = c \<and> b = d then None else mget m (enc c d))"
  using enc_inj by auto

end

lemma split_at_first:
  "x \<notin> set a \<Longrightarrow> x \<notin> set c \<Longrightarrow> a @ x # b = c @ x # d \<Longrightarrow> a = c \<and> b = d"
proof (induction a arbitrary: c)
  case Nil
  then show ?case by (cases c) auto
next
  case (Cons y a)
  then show ?case by (cases c) auto
qed

lemma split_at_last:
  assumes "x \<notin> set b" "x \<notin> set d" "a @ x # b = c @ x # d"
  shows "a = c \<and> b = d"
proof -
  have "rev b @ x # rev a = rev d @ x # rev c" using assms(3) by (metis append.assoc append_Cons append_Nil rev.simps(2) rev_append)
  then show ?thesis using split_at_first[of x "rev b" "rev d" "rev a" "rev c"] assms(1,2) by simp
qed

end
