(* ===== verification/Errors.thy ===== *)
theory Errors
  imports Text
begin

text \<open>
  Thrown errors (\<open>packages/core/src/shared/errors.ts\<close>, \<open>shared/version.ts\<close>).

  An error is a \<open>TypeError\<close> or a \<open>UnioraError\<close>: the class that was thrown and its stable \<open>code\<close>.
  Throw sites that pass no code get it from their English message: \<open>inferErrorCode\<close> tries a table of
  regular expressions.  The few regular-expression forms that table uses are a datatype here, with a
  matcher.  A dash or quote outside Latin-1 in a message is written as a hyphen: no rule mentions one.
\<close>

section \<open>Error values\<close>

datatype err_class = EOrganization | EMembership | ERole | EPermission | EFeature | EIdentityLink
  | EInvitation | EEntitlement | ESupportGrant | ETeam | EOutbox | EPolicy | EAudit | EAccess

datatype uerror = TypeErr | UError err_class string

section \<open>The regular expressions of the rule table\<close>

text \<open>
  \<open>Lit l\<close> is literal text, \<open>Run C\<close> is \<open>C*\<close> for a character class (\<open>.*\<close> and \<open>[^"]*\<close>), \<open>One C\<close> a
  single character of it.
\<close>

datatype piece = Lit string | Run "char \<Rightarrow> bool" | One "char \<Rightarrow> bool"

datatype pattern = AtStart "piece list" | Anywhere "piece list"

definition dot :: "char \<Rightarrow> bool" where
  "dot c \<longleftrightarrow> code c \<noteq> 10 \<and> code c \<noteq> 13"

definition not_quote :: "char \<Rightarrow> bool" where
  "not_quote c \<longleftrightarrow> c \<noteq> CHR 0x22"

text \<open>All the texts that can follow a maximal or shorter run of \<open>C\<close>.\<close>

fun run_rests :: "(char \<Rightarrow> bool) \<Rightarrow> string \<Rightarrow> string list" where
  "run_rests C [] = [[]]"
| "run_rests C (c # cs) = (c # cs) # (if C c then run_rests C cs else [])"

fun match_here :: "piece list \<Rightarrow> string \<Rightarrow> bool" where
  "match_here [] s = True"
| "match_here (Lit l # ps) s = (prefix l s \<and> match_here ps (drop (length l) s))"
| "match_here (Run C # ps) s = list_ex (match_here ps) (run_rests C s)"
| "match_here (One C # ps) s = (case s of [] \<Rightarrow> False | c # cs \<Rightarrow> C c \<and> match_here ps cs)"

fun pattern_test :: "pattern \<Rightarrow> string \<Rightarrow> bool" where
  "pattern_test (AtStart ps) s = match_here ps s"
| "pattern_test (Anywhere ps) s = list_ex (match_here ps) (suffixes s)"

text \<open>A rule: the alternatives of its regular expression and the code.\<close>

type_synonym rule = "pattern list \<times> string"

definition contains :: "string \<Rightarrow> pattern" where
  "contains l = Anywhere [Lit l]"

definition starts :: "string \<Rightarrow> pattern" where
  "starts l = AtStart [Lit l]"

definition around :: "string \<Rightarrow> string \<Rightarrow> pattern" where
  "around l r = Anywhere [Lit l, Run dot, Lit r]"

definition membership_rules :: "rule list" where
  "membership_rules =
    [([starts ''Membership not found''], ''membership_not_found''),
     ([contains ''already has a membership in organization'',
       around ''A membership with id '' '' already exists''], ''membership_exists''),
     ([starts ''Role not found''], ''role_not_found''),
     ([contains ''belongs to a different organization'',
       contains ''does not exist or belongs to a different''], ''role_wrong_organization''),
     ([Anywhere [Lit (''protected Owner role '' @ [CHR 0x22]), Run not_quote, Lit (CHR 0x22 # '' via assignRole'')],
       Anywhere [Lit (''protected Owner role '' @ [CHR 0x22]), Run not_quote, Lit (CHR 0x22 # '' via unassignRole'')]],
      ''owner_role_protected''),
     ([contains ''is not the protected Owner role''], ''not_owner_role''),
     ([contains ''last Owner''], ''last_owner''),
     ([contains ''linked as an alias of another identity''], ''identity_aliased''),
     ([contains ''too much concurrent identity-linking''], ''identity_link_busy''),
     ([contains ''is blocked''], ''membership_blocked'')]"

definition role_rules :: "rule list" where
  "role_rules =
    [([starts ''Role not found''], ''role_not_found''),
     ([around ''A role with key '' '' already exists'', contains ''unique key from this role name''],
      ''role_key_exists''),
     ([around ''A role named '' '' already exists'', around ''A role with id '' '' already exists''], ''role_exists''),
     ([contains ''Role name''], ''role_name_invalid''),
     ([contains ''is reserved for the protected Owner role''], ''role_key_reserved''),
     ([contains ''Role key'', contains ''derive a key from this role''], ''role_key_invalid''),
     ([contains ''Permission key must be a non-empty''], ''role_permission_invalid''),
     ([contains ''protected Owner role''], ''owner_role_protected''),
     ([contains ''already has an Owner role''], ''owner_role_exists'')]"

definition permission_rules :: "rule list" where
  "permission_rules =
    [([starts ''Permission not found''], ''permission_not_found''),
     ([contains ''still granted to at least one role''], ''permission_in_use''),
     ([contains ''Permission name''], ''permission_name_invalid''),
     ([contains ''Permission key''], ''permission_key_invalid'')]"

definition feature_rules :: "rule list" where
  "feature_rules =
    [([contains ''is not registered''], ''feature_unknown''),
     ([contains ''still enabled for at least one organization''], ''feature_in_use''),
     ([contains ''Feature name''], ''feature_name_invalid''),
     ([contains ''Feature key'', contains ''derive a key from this feature''], ''feature_key_invalid'')]"

definition organization_rules :: "rule list" where
  "organization_rules =
    [([around ''An organization with slug '' '' already exists'',
       contains ''unique slug from this organization name''], ''organization_slug_taken''),
     ([around ''An organization with id '' '' already exists''], ''organization_exists''),
     ([contains ''Organization name''], ''organization_name_invalid''),
     ([contains ''Organization slug'', contains ''URL-safe slug''], ''organization_slug_invalid'')]"

definition identity_link_rules :: "rule list" where
  "identity_link_rules =
    [([contains ''to itself''], ''identity_link_self''),
     ([contains ''too much concurrent'', contains ''concurrently''], ''identity_link_busy''),
     ([Anywhere [One dot]], ''identity_link_conflict'')]"

definition RULES :: "string \<Rightarrow> rule list" where
  "RULES domain =
     (if domain = ''membership'' then membership_rules
      else if domain = ''role'' then role_rules
      else if domain = ''permission'' then permission_rules
      else if domain = ''feature'' then feature_rules
      else if domain = ''organization'' then organization_rules
      else if domain = ''identity_link'' then identity_link_rules
      else [])"

fun first_rule :: "rule list \<Rightarrow> string \<Rightarrow> string option" where
  "first_rule [] msg = None"
| "first_rule ((alts, c) # rs) msg =
     (if list_ex (\<lambda>p. pattern_test p msg) alts then Some c else first_rule rs msg)"

definition inferErrorCode :: "string \<Rightarrow> string \<Rightarrow> string" where
  "inferErrorCode domain msg =
     (case first_rule (RULES domain) msg of Some c \<Rightarrow> c | None \<Rightarrow> domain @ ''_invalid'')"

text \<open>The constructors of the error classes called without a code.\<close>

definition memErr :: "string \<Rightarrow> uerror" where
  "memErr msg = UError EMembership (inferErrorCode ''membership'' msg)"

definition roleErr :: "string \<Rightarrow> uerror" where
  "roleErr msg = UError ERole (inferErrorCode ''role'' msg)"

definition permErr :: "string \<Rightarrow> uerror" where
  "permErr msg = UError EPermission (inferErrorCode ''permission'' msg)"

definition featErr :: "string \<Rightarrow> uerror" where
  "featErr msg = UError EFeature (inferErrorCode ''feature'' msg)"

definition orgErr :: "string \<Rightarrow> uerror" where
  "orgErr msg = UError EOrganization (inferErrorCode ''organization'' msg)"

definition linkErr :: "string \<Rightarrow> uerror" where
  "linkErr msg = UError EIdentityLink (inferErrorCode ''identity_link'' msg)"

section \<open>Versions\<close>

text \<open>
  \<open>assertExpectedVersion(value, minimum)\<close>: absent means no check, otherwise a safe integer not below
  the minimum.
\<close>

definition assertExpectedVersion :: "int option \<Rightarrow> int \<Rightarrow> uerror + int option" where
  "assertExpectedVersion value minimum =
     (case value of None \<Rightarrow> Inr None
      | Some v \<Rightarrow> if \<bar>v\<bar> > 2 ^ 53 - 1 \<or> v < minimum then Inl TypeErr else Inr (Some v))"

definition version_ok :: "int option \<Rightarrow> int \<Rightarrow> bool" where
  "version_ok expected current \<longleftrightarrow> (case expected of None \<Rightarrow> True | Some v \<Rightarrow> current = v)"

lemma assertExpectedVersion_Inr:
  "assertExpectedVersion v m = Inr w \<Longrightarrow> w = v \<and> (case v of None \<Rightarrow> True | Some n \<Rightarrow> m \<le> n \<and> n \<le> 2 ^ 53 - 1)"
  by (auto simp: assertExpectedVersion_def split: option.splits if_splits)

lemma assertExpectedVersion_Inl: "assertExpectedVersion v m = Inl e \<Longrightarrow> e = TypeErr"
  by (auto simp: assertExpectedVersion_def split: option.splits if_splits)

lemma assertExpectedVersion_None [simp]: "assertExpectedVersion None m = Inr None"
  by (simp add: assertExpectedVersion_def)

section \<open>Lemmas on the rule table\<close>

lemma suffixes_list_ex: "list_ex P (suffixes s) \<longleftrightarrow> (\<exists>u. suffix u s \<and> P u)"
  by (auto simp: list_ex_iff)

lemma pattern_contains: "pattern_test (contains l) s \<longleftrightarrow> sublist l s"
  by (auto simp: contains_def suffixes_list_ex sublist_altdef[of l s] suffix_def prefix_def sublist_def)

lemma pattern_starts: "pattern_test (starts l) s \<longleftrightarrow> prefix l s"
  by (simp add: starts_def)

lemma sublist_mid [simp]: "sublist l (a @ l @ b)"
  by (auto simp: sublist_def)

lemma run_rests_append: "list_all C u \<Longrightarrow> v \<in> set (run_rests C (u @ v))"
  by (induction u) (auto, cases v, auto)

lemma pattern_around:
  assumes "list_all dot u"
  shows "pattern_test (around l r) (a @ l @ u @ r @ b)"
proof -
  have "list_ex (match_here [Lit r]) (run_rests dot (u @ r @ b))"
    using run_rests_append[OF assms, of "r @ b"] by (auto simp: list_ex_iff intro!: bexI[of _ "r @ b"])
  then have "match_here [Lit l, Run dot, Lit r] (l @ u @ r @ b)" by simp
  then show ?thesis
    unfolding around_def pattern_test.simps suffixes_list_ex by (blast intro: suffix_appendI suffix_order.refl)
qed

lemma inferErrorCode_total:
  "inferErrorCode d m = d @ ''_invalid'' \<or> (\<exists>alts. (alts, inferErrorCode d m) \<in> set (RULES d))"
proof -
  have "first_rule rs m = Some c \<Longrightarrow> \<exists>alts. (alts, c) \<in> set rs" for rs c
    by (induction rs m rule: first_rule.induct) (auto split: if_splits)
  then show ?thesis by (auto simp: inferErrorCode_def split: option.split)
qed

end
