(* ===== verification/Json.thy ===== *)
theory Json
  imports Text "HOL-Library.Multiset"
begin

text \<open>
  JSON values and their text: \<open>JSON.stringify\<close> and \<open>packages/core/src/shared/canonical-json.ts\<close>.

  Numbers are integers; an object is the list of its defined own properties in enumeration order.
  The lemmas show that the text of an array of strings and nulls determines the array (what the audit
  chain hashes) and that \<open>canonicalJson\<close> does not depend on the order of an object's keys.
\<close>

datatype json = JNull | JBool bool | JNum int | JStr string | JArr "json list" | JObj "(string \<times> json) list"

section \<open>Decimal and hexadecimal text\<close>

definition digit_char :: "nat \<Rightarrow> char" where
  "digit_char n = char_of (if n < 10 then 48 + n else 87 + n)"

fun nat_text :: "nat \<Rightarrow> string" where
  "nat_text n = (if n < 10 then [digit_char n] else nat_text (n div 10) @ [digit_char (n mod 10)])"

declare nat_text.simps [simp del]

definition int_text :: "int \<Rightarrow> string" where
  "int_text i = (if i < 0 then CHR ''-'' # nat_text (nat (- i)) else nat_text (nat i))"

definition pad_left :: "nat \<Rightarrow> char \<Rightarrow> string \<Rightarrow> string" where
  "pad_left w c s = replicate (w - length s) c @ s"

section \<open>\<open>JSON.stringify\<close>\<close>

definition esc_char :: "char \<Rightarrow> string" where
  "esc_char c =
     (let n = code c in
      if n = 34 then [CHR 0x5C, CHR 0x22] else if n = 92 then [CHR 0x5C, CHR 0x5C]
      else if n = 8 then [CHR 0x5C, CHR ''b''] else if n = 9 then [CHR 0x5C, CHR ''t'']
      else if n = 10 then [CHR 0x5C, CHR ''n''] else if n = 12 then [CHR 0x5C, CHR ''f'']
      else if n = 13 then [CHR 0x5C, CHR ''r'']
      else if n < 32 then [CHR 0x5C, CHR ''u'', CHR ''0'', CHR ''0'', digit_char (n div 16), digit_char (n mod 16)]
      else [c])"

definition str_text :: "string \<Rightarrow> string" where
  "str_text s = CHR 0x22 # concat (map esc_char s) @ [CHR 0x22]"

fun join_with :: "string \<Rightarrow> string list \<Rightarrow> string" where
  "join_with sep [] = []"
| "join_with sep [x] = x"
| "join_with sep (x # y # ys) = x @ sep @ join_with sep (y # ys)"

fun stringify :: "json \<Rightarrow> string" where
  "stringify JNull = ''null''"
| "stringify (JBool b) = (if b then ''true'' else ''false'')"
| "stringify (JNum n) = int_text n"
| "stringify (JStr s) = str_text s"
| "stringify (JArr xs) = ''['' @ join_with '','' (map stringify xs) @ '']''"
| "stringify (JObj kvs) = ''{'' @ join_with '','' (map (\<lambda>(k, v). str_text k @ '':'' @ stringify v) kvs) @ ''}''"

text \<open>\<open>Buffer.byteLength(text, "utf8")\<close>: two bytes from U+0080 on.\<close>

definition utf8_length :: "string \<Rightarrow> nat" where
  "utf8_length s = sum_list (map (\<lambda>c. if code c < 128 then 1 else 2) s)"

section \<open>\<open>canonicalJson\<close>\<close>

function canonicalJson :: "json \<Rightarrow> string" where
  "canonicalJson (JArr xs) = ''['' @ join_with '','' (map canonicalJson xs) @ '']''"
| "canonicalJson (JObj kvs) =
     ''{'' @ join_with '','' (map (\<lambda>(k, t). str_text k @ '':'' @ t)
       (sort_by (\<lambda>a b. fst a < fst b) (map (\<lambda>(k, v). (k, canonicalJson v)) kvs))) @ ''}''"
| "canonicalJson JNull = stringify JNull"
| "canonicalJson (JBool b) = stringify (JBool b)"
| "canonicalJson (JNum n) = stringify (JNum n)"
| "canonicalJson (JStr s) = stringify (JStr s)"
  by pat_completeness auto
termination
proof (relation "measure size")
  fix kvs :: "(string \<times> json) list" and z and x y
  assume "z \<in> set kvs" "(x, y) = z"
  then have "size_prod (\<lambda>_. 0) size (x, y) \<le> size_list (size_prod (\<lambda>_. 0) size) kvs"
    by (auto intro: size_list_estimation')
  then show "(y, JObj kvs) \<in> measure size" by simp
qed (auto simp: less_Suc_eq_le intro: size_list_estimation' order.trans)

subsection \<open>Lemmas\<close>

lemma sort_by_key: "sort_by (\<lambda>a b. f a < f b) xs = sort_key (f :: 'a \<Rightarrow> 'b::linorder) xs"
proof -
  have "insert_by (\<lambda>a b. f a < f b) x ys = insort_key f x ys" for x ys
    by (induction ys) (auto simp: not_less)
  then show ?thesis by (induction xs) (auto simp: sort_by_def)
qed

lemma sort_key_mset:
  "mset xs = mset ys \<Longrightarrow> distinct (map f xs) \<Longrightarrow> sort_key f xs = sort_key f ys"
  by (rule sort_key_inj_key_eq) (auto simp: distinct_map)

lemma canonicalJson_key_order:
  assumes "mset kvs = mset kvs'" and "distinct (map fst kvs)"
  shows "canonicalJson (JObj kvs) = canonicalJson (JObj kvs')"
proof -
  let ?f = "\<lambda>(k, v). (k :: string, canonicalJson v)"
  have "sort_key fst (map ?f kvs) = sort_key fst (map ?f kvs')"
    using assms by (intro sort_key_mset) (auto simp: comp_def case_prod_unfold)
  then show ?thesis by (simp add: sort_by_key[of fst])
qed

lemma code_eq_iff: "c = d \<longleftrightarrow> code c = code d"
  by (simp add: code_def)

lemma digit_char_inj: "n < 16 \<Longrightarrow> m < 16 \<Longrightarrow> digit_char n = digit_char m \<Longrightarrow> n = m"
  by (auto simp: digit_char_def take_bit_eq_mod split: if_splits dest!: arg_cong[where f = "of_char :: char \<Rightarrow> nat"])

definition short_escapes :: "(nat \<times> char) set" where
  "short_escapes = {(34, CHR 0x22), (92, CHR 0x5C), (8, CHR ''b''), (9, CHR ''t''),
     (10, CHR ''n''), (12, CHR ''f''), (13, CHR ''r'')}"

lemma short_escapes_inj: "(a, e) \<in> short_escapes \<Longrightarrow> (b, e) \<in> short_escapes \<Longrightarrow> a = b"
  by (auto simp: short_escapes_def)

lemma esc_char_cases:
  obtains (plain) "esc_char c = [c]" "code c \<noteq> 34" "code c \<noteq> 92"
  | (short) e where "esc_char c = [CHR 0x5C, e]" "e \<noteq> CHR ''u''"
      "(code c, e) \<in> short_escapes"
  | (hex) "esc_char c = [CHR 0x5C, CHR ''u'', CHR ''0'', CHR ''0'', digit_char (code c div 16), digit_char (code c mod 16)]"
      "code c < 32"
proof (cases "code c = 34 \<or> code c = 92 \<or> code c = 8 \<or> code c = 9 \<or> code c = 10 \<or> code c = 12 \<or> code c = 13")
  case True
  then have "\<exists>e. esc_char c = [CHR 0x5C, e] \<and> e \<noteq> CHR ''u'' \<and>
      (code c, e) \<in> short_escapes"
    by (elim disjE) (simp_all add: esc_char_def short_escapes_def)
  then show ?thesis using short by blast
next
  case False
  then show ?thesis using plain hex by (cases "code c < 32") (simp_all add: esc_char_def Let_def)
qed

lemma esc_char_prefix_free:
  assumes "esc_char c @ r = esc_char d @ r'"
  shows "c = d \<and> r = r'"
proof (cases c rule: esc_char_cases)
  case plain
  then show ?thesis using assms
    by (cases d rule: esc_char_cases) (auto simp: code_def)
next
  case (short e)
  show ?thesis
  proof (cases d rule: esc_char_cases)
    case short': (short e')
    have "e = e'" "r = r'" using assms short(1) short'(1) by simp_all
    then have "code c = code d" using short(3) short'(3) short_escapes_inj by blast
    then show ?thesis using \<open>r = r'\<close> by (simp add: code_eq_iff)
  qed (use assms short in \<open>auto simp: code_def\<close>)
next
  case hex
  show ?thesis
  proof (cases d rule: esc_char_cases)
    case hex': hex
    have "digit_char (code c div 16) = digit_char (code d div 16)"
      and "digit_char (code c mod 16) = digit_char (code d mod 16)" and "r = r'"
      using assms hex hex' by auto
    then have "code c div 16 = code d div 16 \<and> code c mod 16 = code d mod 16"
      using hex(2) hex'(2) by (auto intro!: digit_char_inj)
    then show ?thesis using \<open>r = r'\<close> by (metis code_eq_iff div_mult_mod_eq)
  qed (use assms hex in \<open>auto simp: code_def\<close>)
qed

lemma esc_char_quote: "esc_char c @ r \<noteq> CHR 0x22 # r'"
  by (cases c rule: esc_char_cases) (auto simp: code_def)

lemma esc_string_inj:
  "concat (map esc_char s) @ CHR 0x22 # r = concat (map esc_char t) @ CHR 0x22 # r' \<Longrightarrow> s = t \<and> r = r'"
proof (induction s arbitrary: t)
  case Nil
  then show ?case using esc_char_quote[symmetric] by (cases t) auto
next
  case (Cons c s)
  show ?case
  proof (cases t)
    case Nil
    then show ?thesis using Cons.prems by (simp add: esc_char_quote)
  next
    case (Cons d t')
    then have "c = d \<and> concat (map esc_char s) @ CHR 0x22 # r = concat (map esc_char t') @ CHR 0x22 # r'"
      using Cons.prems esc_char_prefix_free[of c _ d] by simp
    then show ?thesis using Cons Cons.IH by blast
  qed
qed

text \<open>A string or \<open>null\<close>.\<close>

definition nullable :: "string option \<Rightarrow> json" where
  "nullable x = (case x of None \<Rightarrow> JNull | Some s \<Rightarrow> JStr s)"

lemma nullable_text_inj:
  "stringify (nullable x) @ r = stringify (nullable y) @ r' \<Longrightarrow> x = y \<and> r = r'"
  by (cases x; cases y) (auto simp: nullable_def str_text_def dest: esc_string_inj)

lemma array_text_inj:
  assumes "stringify (JArr (map nullable xs)) = stringify (JArr (map nullable ys))" and "length xs = length ys"
  shows "xs = ys"
proof -
  have "length xs = length ys \<Longrightarrow>
      join_with '','' (map (stringify \<circ> nullable) xs) @ r = join_with '','' (map (stringify \<circ> nullable) ys) @ r' \<Longrightarrow>
      xs = ys" for r r'
  proof (induction xs arbitrary: ys)
    case (Cons x xs)
    then obtain y ys' where ys: "ys = y # ys'" by (cases ys) auto
    show ?case
    proof (cases xs)
      case Nil
      then show ?thesis using Cons.prems ys nullable_text_inj[of x r y r'] by simp
    next
      case (Cons x' xs')
      with Cons.prems ys obtain y' ys'' where "ys' = y' # ys''" by (cases ys') auto
      with Cons.prems ys \<open>xs = x' # xs'\<close> show ?thesis
        using nullable_text_inj[of x _ y] Cons.IH[of ys'] by (auto dest!: nullable_text_inj)
    qed
  qed simp
  from this[OF assms(2), of "'']''" "'']''"] assms(1) show ?thesis by simp
qed

end
