(* ===== verification/State.thy ===== *)
theory State
  imports Errors Json
begin

text \<open>
  The data model: the row types of \<open>packages/core/src/*/types.ts\<close> and the maps that
  \<open>createMemoryStorage\<close> (\<open>packages/core/src/storage/memory.ts\<close>) closes over, as one record \<open>store\<close>.

  A \<open>Date\<close> is its time value in milliseconds; an argument that may be an invalid date is a
  \<open>date_in\<close>.  The clock is an argument \<open>now\<close> of the operations that read it.  A record that leaves
  or enters the store is a copy (\<open>structuredClone\<close>), which values of HOL are by nature.
\<close>

type_synonym timestamp = int

datatype date_in = InvalidDate | At timestamp

record identity =
  provider :: string
  subject :: string

text \<open>\<open>sameIdentity\<close> of \<open>identity/types.ts\<close>.\<close>

definition sameIdentity :: "identity \<Rightarrow> identity \<Rightarrow> bool" where
  "sameIdentity a b \<longleftrightarrow> provider a = provider b \<and> subject a = subject b"

lemma sameIdentity_eq [simp]: "sameIdentity a b \<longleftrightarrow> a = (b :: identity)"
  by (cases a; cases b) (simp add: sameIdentity_def)

section \<open>Rows\<close>

datatype org_status = OActive | OSuspended | OArchived

text \<open>Who changed or blocked something, when and why.\<close>

record status_change =
  ch_at :: timestamp
  ch_by :: identity
  ch_reason :: "string option"

record organization =
  o_id :: string
  o_slug :: string
  o_name :: string
  o_createdAt :: timestamp
  o_status :: org_status
  o_version :: int
  o_statusChange :: "status_change option"

record role =
  r_id :: string
  r_organizationId :: string
  r_isOwnerRole :: bool
  r_key :: string
  r_name :: string
  r_description :: "string option"
  r_isSystem :: bool
  r_permissionKeys :: "string list"
  r_version :: int

datatype mem_status = MActive | MSuspended | MBlocked

record block =
  b_at :: timestamp
  b_by :: identity
  b_reason :: "string option"
  b_until :: "timestamp option"

record membership =
  m_id :: string
  m_organizationId :: string
  m_identity :: identity
  m_roleIds :: "string list"
  m_status :: mem_status
  m_createdAt :: timestamp
  m_updatedAt :: timestamp
  m_invitedBy :: "identity option"
  m_lastActiveAt :: "timestamp option"
  m_blocked :: "block option"
  m_version :: int

record permission =
  p_key :: string
  p_name :: "string option"
  p_description :: "string option"
  p_group :: "string option"
  p_implies :: "string list option"

text \<open>A per-organization override of a feature, and the catalog entry of a feature.\<close>

record feature =
  f_organizationId :: string
  f_key :: string
  f_enabled :: bool
  f_updatedAt :: "timestamp option"
  f_updatedBy :: "identity option"
  f_reason :: "string option"
  f_version :: int

record feature_def =
  fd_key :: string
  fd_name :: string
  fd_description :: "string option"
  fd_defaultEnabled :: bool
  fd_parentKey :: "string option"
  fd_reason :: "string option"
  fd_updatedAt :: "timestamp option"

record audit_target =
  at_type :: string
  at_id :: string

record audit_entry =
  al_id :: string
  al_organizationId :: "string option"
  al_actor :: identity
  al_action :: string
  al_target :: "audit_target option"
  al_metadata :: "json option"
  al_createdAt :: timestamp

record chain_link =
  cl_prev :: "string option"
  cl_hash :: string

record identity_link =
  il_from :: identity
  il_to :: identity
  il_linkedAt :: timestamp

datatype inv_status = IPending | IAccepted | IRevoked | IExpired

datatype delivery_status = DPending | DSent | DFailed

record delivery =
  d_status :: delivery_status
  d_attempts :: int
  d_sends :: int
  d_lastAttemptAt :: "timestamp option"
  d_sentAt :: "timestamp option"
  d_lastError :: "string option"

record invitation =
  i_id :: string
  i_organizationId :: string
  i_email :: string
  i_roleIds :: "string list"
  i_teamIds :: "string list"
  i_invitedBy :: identity
  i_status :: inv_status
  i_createdAt :: timestamp
  i_expiresAt :: timestamp
  i_acceptedAt :: "timestamp option"
  i_acceptedBy :: "identity option"
  i_revokedAt :: "timestamp option"
  i_delivery :: delivery

datatype period = Lifetime | Daily | Monthly

record entitlement_def =
  e_key :: string
  e_name :: string
  e_description :: "string option"
  e_period :: period
  e_defaultLimit :: "int option"

record support_grant =
  g_id :: string
  g_organizationId :: string
  g_operator :: identity
  g_grantedBy :: identity
  g_reason :: string
  g_permissions :: "string list"
  g_createdAt :: timestamp
  g_expiresAt :: timestamp
  g_revokedAt :: "timestamp option"
  g_revokedBy :: "identity option"

datatype team_status = TActive | TArchived

record team =
  t_id :: string
  t_organizationId :: string
  t_slug :: string
  t_name :: string
  t_status :: team_status
  t_parentId :: "string option"
  t_externalId :: "string option"
  t_metadata :: json
  t_settings :: json
  t_createdAt :: timestamp
  t_updatedAt :: timestamp
  t_archived :: "status_change option"
  t_version :: int

datatype tm_status = TMPending | TMActive | TMSuspended | TMRemoved

datatype responsibility = ROwner | RManager | RMember

record team_membership =
  tm_id :: string
  tm_organizationId :: string
  tm_teamId :: string
  tm_membershipId :: string
  tm_status :: tm_status
  tm_responsibility :: responsibility
  tm_roleIds :: "string list"
  tm_createdAt :: timestamp
  tm_updatedAt :: timestamp
  tm_joinedAt :: "timestamp option"
  tm_invitedBy :: "identity option"
  tm_statusChange :: "status_change option"
  tm_version :: int

datatype outbox_status = OBPending | OBDelivered | OBDead

record outbox_event =
  ob_id :: string
  ob_seq :: int
  ob_organizationId :: "string option"
  ob_type :: string
  ob_payload :: "json option"
  ob_status :: outbox_status
  ob_attempts :: int
  ob_createdAt :: timestamp
  ob_availableAt :: timestamp
  ob_deliveredAt :: "timestamp option"
  ob_lastError :: "string option"

section \<open>The store\<close>

record store =
  organizations :: "(string, organization) jsmap"
  memberships :: "(string, membership) jsmap"
  roles :: "(string, role) jsmap"
  permissions :: "(string, permission) jsmap"
  features :: "(string, feature) jsmap"
  featureDefinitions :: "(string, feature_def) jsmap"
  auditLogs :: "audit_entry list"
  auditChain :: "chain_link list"
  auditPruned :: nat
  auditCheckpointHash :: "string option"
  identityLinksByFromKey :: "(string, identity_link) jsmap"
  invitations :: "(string, invitation) jsmap"
  invitationIdempotency :: "(string, string \<times> string) jsmap"
  invitationTokenHashes :: "(string, string) jsmap"
  entitlementDefinitions :: "(string, entitlement_def) jsmap"
  entitlementLimits :: "(string, int option) jsmap"
  entitlementUsage :: "(string, int) jsmap"
  supportGrants :: "(string, support_grant) jsmap"
  teams :: "(string, team) jsmap"
  teamMemberships :: "(string, team_membership) jsmap"
  outboxEvents :: "(string, outbox_event) jsmap"
  outboxLeases :: "(string, timestamp) jsmap"
  outboxSeq :: int

definition empty_store :: store where
  "empty_store = \<lparr> organizations = [], memberships = [], roles = [], permissions = [], features = [],
     featureDefinitions = [], auditLogs = [], auditChain = [], auditPruned = 0, auditCheckpointHash = None,
     identityLinksByFromKey = [], invitations = [], invitationIdempotency = [], invitationTokenHashes = [],
     entitlementDefinitions = [], entitlementLimits = [], entitlementUsage = [], supportGrants = [],
     teams = [], teamMemberships = [], outboxEvents = [], outboxLeases = [], outboxSeq = 0 \<rparr>"

lemma empty_store_simps [simp]:
  "organizations empty_store = []"
  "memberships empty_store = []"
  "roles empty_store = []"
  "permissions empty_store = []"
  "features empty_store = []"
  "featureDefinitions empty_store = []"
  "auditLogs empty_store = []"
  "auditChain empty_store = []"
  "auditPruned empty_store = 0"
  "auditCheckpointHash empty_store = None"
  "identityLinksByFromKey empty_store = []"
  "invitations empty_store = []"
  "invitationIdempotency empty_store = []"
  "invitationTokenHashes empty_store = []"
  "entitlementDefinitions empty_store = []"
  "entitlementLimits empty_store = []"
  "entitlementUsage empty_store = []"
  "supportGrants empty_store = []"
  "teams empty_store = []"
  "teamMemberships empty_store = []"
  "outboxEvents empty_store = []"
  "outboxLeases empty_store = []"
  "outboxSeq empty_store = 0"
  by (simp_all add: empty_store_def)

text \<open>An operation returns its result, or the error it threw, and the store it left behind.\<close>

type_synonym 'a op = "store \<Rightarrow> (uerror + 'a) \<times> store"

definition fails :: "uerror \<Rightarrow> store \<Rightarrow> (uerror + 'a) \<times> store" where
  "fails e s = (Inl e, s)"

definition returns :: "'a \<Rightarrow> store \<Rightarrow> (uerror + 'a) \<times> store" where
  "returns x s = (Inr x, s)"

lemma fails_simps [simp]: "fst (fails e s) = Inl e" "snd (fails e s) = s"
  by (simp_all add: fails_def)

lemma returns_simps [simp]: "fst (returns x s) = Inr x" "snd (returns x s) = s"
  by (simp_all add: returns_def)

text \<open>
  A check that throws before anything is written: the rest of the operation runs on its value.
\<close>

definition guard :: "(uerror + 'a) \<Rightarrow> ('a \<Rightarrow> 'b op) \<Rightarrow> 'b op" where
  "guard r k s = (case r of Inl e \<Rightarrow> fails e s | Inr x \<Rightarrow> k x s)"

lemma guard_Inl [simp]: "guard (Inl e) k s = fails e s" and guard_Inr [simp]: "guard (Inr x) k s = k x s"
  by (simp_all add: guard_def)

lemma guard_split:
  "P (guard r k s) \<longleftrightarrow> (\<forall>e. r = Inl e \<longrightarrow> P (fails e s)) \<and> (\<forall>x. r = Inr x \<longrightarrow> P (k x s))"
  by (cases r) auto

lemma guard_ok: "fst (guard r k s) = Inr y \<longleftrightarrow> (\<exists>x. r = Inr x \<and> fst (k x s) = Inr y)"
  by (cases r) auto

text \<open>One operation after another; a throw of the first ends the sequence.\<close>

definition and_then :: "'a op \<Rightarrow> ('a \<Rightarrow> 'b op) \<Rightarrow> 'b op" where
  "and_then p k s = (case p s of (Inl e, s') \<Rightarrow> (Inl e, s') | (Inr x, s') \<Rightarrow> k x s')"

lemma and_then_split:
  "P (and_then p k s) \<longleftrightarrow>
     (\<forall>e s'. p s = (Inl e, s') \<longrightarrow> P (Inl e, s')) \<and> (\<forall>x s'. p s = (Inr x, s') \<longrightarrow> P (k x s'))"
  by (auto simp: and_then_def split: prod.splits sum.splits)

text \<open>A \<open>for\<close> loop that awaits an operation per element.\<close>

fun foreach :: "('a \<Rightarrow> unit op) \<Rightarrow> 'a list \<Rightarrow> unit op" where
  "foreach f [] s = returns () s"
| "foreach f (x # xs) s = and_then (f x) (\<lambda>_. foreach f xs) s"

lemma foreach_invariant:
  assumes "\<And>x s. I s \<Longrightarrow> I (snd (f x s))" and "I s"
  shows "I (snd (foreach f xs s))"
  using assms(2)
proof (induction xs arbitrary: s)
  case (Cons x xs)
  obtain r s' where r: "f x s = (r, s')" by fastforce
  then have "I s'" using assms(1)[of s x] Cons.prems by simp
  then show ?case using r Cons.IH[of s'] by (cases r) (simp_all add: and_then_def)
qed simp

end
