(* ===== verification/Calendar.thy ===== *)
theory Calendar
  imports Json
begin

text \<open>
  The UTC calendar of JavaScript's \<open>Date\<close> that the program uses: \<open>getUTCFullYear\<close>, \<open>getUTCMonth\<close>,
  \<open>getUTCDate\<close>, \<open>Date.UTC\<close> and \<open>toISOString\<close>, following ECMA-262 (sections "Time Values and Time
  Range" and "Date.prototype.toISOString").  The limit of the time range (8.64e15 ms) is not modelled.
\<close>

definition msPerDay :: int where
  "msPerDay = 86400000"

definition Day :: "int \<Rightarrow> int" where
  "Day t = t div msPerDay"

definition DayFromYear :: "int \<Rightarrow> int" where
  "DayFromYear y = 365 * (y - 1970) + (y - 1969) div 4 - (y - 1901) div 100 + (y - 1601) div 400"

text \<open>
  The year whose days include day \<open>d\<close>: an estimate from the mean length of a year, off by at most one.
\<close>

definition YearFromDay :: "int \<Rightarrow> int" where
  "YearFromDay d =
     (let y = 1970 + (400 * d) div 146097 in
      if DayFromYear (y + 1) \<le> d then y + 1 else if d < DayFromYear y then y - 1 else y)"

definition leap :: "int \<Rightarrow> int" where
  "leap y = DayFromYear (y + 1) - DayFromYear y - 365"

definition month_starts :: "int \<Rightarrow> int list" where
  "month_starts l = [0, 31, 59 + l, 90 + l, 120 + l, 151 + l, 181 + l, 212 + l, 243 + l, 273 + l, 304 + l, 334 + l]"

definition getUTCFullYear :: "int \<Rightarrow> int" where
  "getUTCFullYear t = YearFromDay (Day t)"

definition DayWithinYear :: "int \<Rightarrow> int" where
  "DayWithinYear t = Day t - DayFromYear (getUTCFullYear t)"

definition getUTCMonth :: "int \<Rightarrow> nat" where
  "getUTCMonth t = length (filter (\<lambda>d. d \<le> DayWithinYear t) (tl (month_starts (leap (getUTCFullYear t)))))"

definition getUTCDate :: "int \<Rightarrow> int" where
  "getUTCDate t = DayWithinYear t - month_starts (leap (getUTCFullYear t)) ! getUTCMonth t + 1"

text \<open>\<open>Date.UTC(year, month, day)\<close>: months past December carry; years 0 to 99 mean 1900 to 1999.\<close>

definition Date_UTC :: "int \<Rightarrow> int \<Rightarrow> int \<Rightarrow> int" where
  "Date_UTC year month dt =
     (let y = (if 0 \<le> year \<and> year \<le> 99 then 1900 + year else year); ym = y + month div 12 in
      (DayFromYear ym + month_starts (leap ym) ! nat (month mod 12) + dt - 1) * msPerDay)"

definition iso_year :: "int \<Rightarrow> string" where
  "iso_year y = (if 0 \<le> y \<and> y \<le> 9999 then pad_left 4 (CHR ''0'') (int_text y)
                 else (if y < 0 then CHR ''-'' else CHR ''+'') # pad_left 6 (CHR ''0'') (int_text \<bar>y\<bar>))"

definition two :: "int \<Rightarrow> string" where
  "two n = pad_left 2 (CHR ''0'') (int_text n)"

definition toISOString :: "int \<Rightarrow> string" where
  "toISOString t =
     (let ms = t mod msPerDay in
      iso_year (getUTCFullYear t) @ ''-'' @ two (int (getUTCMonth t) + 1) @ ''-'' @ two (getUTCDate t) @ ''T'' @
      two (ms div 3600000) @ '':'' @ two (ms div 60000 mod 60) @ '':'' @ two (ms div 1000 mod 60) @ ''.'' @
      pad_left 3 (CHR ''0'') (int_text (ms mod 1000)) @ ''Z'')"

section \<open>Lemmas\<close>

lemma div_bounds: "0 < k \<Longrightarrow> k * (x div k) \<le> x \<and> x < k * (x div k) + (k :: int)"
  using mult_div_mod_eq[of k x] pos_mod_sign[of k x] pos_mod_bound[of k x] by linarith

lemma YearFromDay: "DayFromYear (YearFromDay d) \<le> d \<and> d < DayFromYear (YearFromDay d + 1)"
proof -
  define q where "q = (400 * d) div 146097"
  have q: "146097 * q \<le> 400 * d \<and> 400 * d < 146097 * q + 146097"
    unfolding q_def by (rule div_bounds) simp
  have "DayFromYear (1970 + q - 1) \<le> d"
    using q div_bounds[of 4 q] div_bounds[of 100 "q + 68"] div_bounds[of 400 "q + 368"]
    by (simp add: DayFromYear_def algebra_simps)
  moreover have "d < DayFromYear (1970 + q + 2)"
    using q div_bounds[of 4 "q + 3"] div_bounds[of 100 "q + 71"] div_bounds[of 400 "q + 371"]
    by (simp add: DayFromYear_def algebra_simps)
  ultimately show ?thesis by (simp add: YearFromDay_def q_def[symmetric] Let_def)
qed

lemma div_step:
  assumes "0 < k"
  shows "(x + 1) div k - x div k = (if k dvd x + 1 then 1 else (0 :: int))"
proof (cases "x mod k = k - 1")
  case True
  have "x = k * (x div k) + (k - 1)" using mult_div_mod_eq[of k x] True by simp
  then have "x + 1 = k * (x div k + 1)" by (simp only: distrib_left mult_1_right)
  then show ?thesis using assms by simp
next
  case False
  then have "x mod k + 1 < k" using pos_mod_bound[OF assms, of x] by linarith
  moreover have "0 \<le> x mod k" using assms by simp
  ultimately have "(x + 1) div k = x div k" "(x + 1) mod k = x mod k + 1"
    using mult_div_mod_eq[of k x]
    by (auto intro!: int_div_pos_eq[where r = "x mod k + 1"] int_mod_pos_eq[where q = "x div k"])
  then show ?thesis using pos_mod_sign[OF assms, of x] by (simp add: dvd_eq_mod_eq_0)
qed

lemma leap_sum:
  "p - p' = a \<Longrightarrow> q - q' = b \<Longrightarrow> r - r' = c \<Longrightarrow>
   365 * (y + 1 - 1970) + p - q + r - (365 * (y - 1970) + p' - q' + r') - 365 = a - b + (c :: int)"
  by simp

lemma leap_01: "leap y = 0 \<or> leap y = 1"
proof -
  have "leap y = (if 4 dvd y - 1968 then 1 else 0) - (if 100 dvd y - 1900 then 1 else 0) + (if 400 dvd y - 1600 then 1 else 0)"
  proof -
    have "(y - 1968) div 4 - (y - 1969) div 4 = (if 4 dvd y - 1968 then 1 else 0)"
      and "(y - 1900) div 100 - (y - 1901) div 100 = (if 100 dvd y - 1900 then 1 else 0)"
      and "(y - 1600) div 400 - (y - 1601) div 400 = (if 400 dvd y - 1600 then 1 else 0)"
      using div_step[of 4 "y - 1969"] div_step[of 100 "y - 1901"] div_step[of 400 "y - 1601"] by simp_all
    moreover have "y + 1 - 1969 = y - 1968" "y + 1 - 1901 = y - 1900" "y + 1 - 1601 = y - 1600" by simp_all
    ultimately show ?thesis unfolding leap_def DayFromYear_def by (simp only: leap_sum)
  qed
  moreover have "4 dvd y - 1968" if h: "100 dvd y - 1900"
    using dvd_diff[of 4 "y - 1900" 68] dvd_trans[OF _ h, of 4] by simp
  moreover have "100 dvd y - 1900" if h: "400 dvd y - 1600"
    using dvd_diff[of 100 "y - 1600" 300] dvd_trans[OF _ h, of 100] by simp
  ultimately show ?thesis by auto
qed

lemma DayFromYear_Suc: "DayFromYear (y + 1) = DayFromYear y + 365 + leap y"
  by (simp add: leap_def)

text \<open>The start of month \<open>m\<close> of a year, \<open>m = 12\<close> being the end of the year.\<close>

definition month_edge :: "int \<Rightarrow> nat \<Rightarrow> int" where
  "month_edge l m = (month_starts l @ [365 + l]) ! m"

lemma sorted_filter_takeWhile: "sorted xs \<Longrightarrow> filter (\<lambda>s. s \<le> d) xs = takeWhile (\<lambda>s. s \<le> (d :: int)) xs"
  by (induction xs) (auto simp: filter_empty_conv takeWhile_eq_Nil_iff dest!: bspec[OF _ hd_in_set])

lemma takeWhile_le_edges:
  assumes "m = length (takeWhile (\<lambda>s. s \<le> (d :: int)) xs)" and "a \<le> d" and "d < b"
  shows "m \<le> length xs \<and> (a # xs @ [b]) ! m \<le> d \<and> d < (a # xs @ [b]) ! Suc m"
proof (intro conjI)
  show "m \<le> length xs" by (simp add: assms(1) length_takeWhile_le)
  show "(a # xs @ [b]) ! m \<le> d"
  proof (cases m)
    case (Suc i)
    then have "i < length (takeWhile (\<lambda>s. s \<le> d) xs)" using assms(1) by simp
    then have "takeWhile (\<lambda>s. s \<le> d) xs ! i \<le> d" by (metis nth_mem set_takeWhileD)
    then show ?thesis using Suc \<open>i < _\<close> length_takeWhile_le[of "\<lambda>s. s \<le> d" xs]
      by (simp add: nth_append takeWhile_nth)
  qed (use assms in simp)
  show "d < (a # xs @ [b]) ! Suc m"
    using assms(3) nth_length_takeWhile[of "\<lambda>s. s \<le> d" xs] length_takeWhile_le[of "\<lambda>s. s \<le> d" xs]
    by (auto simp: assms(1) nth_append not_le)
qed

lemma month_of_day:
  assumes "l = 0 \<or> l = 1" "0 \<le> d" "d < 365 + l"
    and m: "m = length (filter (\<lambda>s. s \<le> d) (tl (month_starts l)))"
  shows "m < 12 \<and> month_edge l m \<le> d \<and> d < month_edge l (Suc m)"
proof -
  have "sorted (tl (month_starts l))" using assms(1) by (auto simp: month_starts_def)
  then have "m = length (takeWhile (\<lambda>s. s \<le> d) (tl (month_starts l)))"
    by (simp add: m sorted_filter_takeWhile)
  from takeWhile_le_edges[OF this assms(2,3)] show ?thesis
    by (simp add: month_edge_def month_starts_def)
qed

lemma month_edge_last: "month_edge l 12 = 365 + l"
  by (simp add: month_edge_def month_starts_def)

lemma month_edge_starts: "m < 12 \<Longrightarrow> month_edge l m = month_starts l ! m"
  unfolding month_edge_def by (rule nth_append_left) (simp add: month_starts_def)

text \<open>The month a time falls in, in days since the epoch.\<close>

lemma day_in_month:
  fixes t defines "y \<equiv> getUTCFullYear t" and "m \<equiv> getUTCMonth t"
  shows "m < 12 \<and> DayFromYear y + month_edge (leap y) m \<le> Day t \<and> Day t < DayFromYear y + month_edge (leap y) (Suc m)"
proof -
  have "0 \<le> DayWithinYear t" "DayWithinYear t < 365 + leap y"
    using YearFromDay[of "Day t"] by (auto simp: DayWithinYear_def y_def getUTCFullYear_def DayFromYear_Suc)
  from month_of_day[OF leap_01 this refl] show ?thesis
    by (simp add: m_def getUTCMonth_def y_def DayWithinYear_def)
qed

lemma Date_UTC_month:
  assumes "100 \<le> y" "m \<le> 12"
  shows "Date_UTC y (int m) dt = (DayFromYear y + month_edge (leap y) m + dt - 1) * msPerDay"
proof (cases "m = 12")
  case True
  then show ?thesis using assms
    by (simp add: Date_UTC_def month_edge_last DayFromYear_Suc) (simp add: month_starts_def)
next
  case False
  then have "int m div 12 = 0" "nat (int m mod 12) = m" using assms by auto
  then show ?thesis using assms False by (simp add: Date_UTC_def month_edge_starts)
qed

lemma Day_bounds: "Day t * msPerDay \<le> t \<and> t < (Day t + 1) * msPerDay"
  using div_bounds[of msPerDay t] by (simp add: Day_def msPerDay_def)

text \<open>From the epoch on, the first day of the month and of the next one enclose the time.\<close>

lemma month_window:
  assumes "100 \<le> getUTCFullYear t"
  shows "Date_UTC (getUTCFullYear t) (int (getUTCMonth t)) 1 \<le> t \<and>
         t < Date_UTC (getUTCFullYear t) (int (getUTCMonth t) + 1) 1"
  using day_in_month[of t] Day_bounds[of t] Date_UTC_month[OF assms, of "getUTCMonth t" 1]
    Date_UTC_month[OF assms, of "Suc (getUTCMonth t)" 1]
  by (auto simp: msPerDay_def add.commute)

lemma day_window:
  assumes "100 \<le> getUTCFullYear t"
  shows "Date_UTC (getUTCFullYear t) (int (getUTCMonth t)) (getUTCDate t) = Day t * msPerDay"
    and "Date_UTC (getUTCFullYear t) (int (getUTCMonth t)) (getUTCDate t + 1) = (Day t + 1) * msPerDay"
  using day_in_month[of t] Date_UTC_month[OF assms, of "getUTCMonth t"]
  by (simp_all add: getUTCDate_def DayWithinYear_def month_edge_starts)

lemma DayFromYear_mono: "DayFromYear y \<le> DayFromYear (y + int n)"
proof (induction n)
  case (Suc n)
  have "DayFromYear (y + int n) \<le> DayFromYear (y + int n + 1)"
    using leap_01[of "y + int n"] DayFromYear_Suc[of "y + int n"] by linarith
  then show ?case using Suc by (simp add: add.assoc add.commute[of 1])
qed simp

lemma year_mono: assumes "DayFromYear y \<le> d" shows "y \<le> YearFromDay d"
proof (rule ccontr)
  assume "\<not> y \<le> YearFromDay d"
  then have "DayFromYear (YearFromDay d + 1) \<le> DayFromYear y"
    using DayFromYear_mono[of "YearFromDay d + 1" "nat (y - (YearFromDay d + 1))"] by simp
  then show False using assms YearFromDay[of d] by linarith
qed

lemma year_from_epoch: "0 \<le> t \<Longrightarrow> 1970 \<le> getUTCFullYear t"
  unfolding getUTCFullYear_def
  by (rule year_mono) (simp add: DayFromYear_def Day_def msPerDay_def)

end
