(* ===== verification/Entitlements.thy ===== *)
theory Entitlements
  imports State Calendar
begin

text \<open>
  Entitlements: \<open>packages/core/src/entitlement/repository.ts\<close> and \<open>entitlementRepository\<close> of
  \<open>storage/memory.ts\<close>.

  The limits and the usage counters are maps keyed by texts joined with U+0000.  Counters are whole
  numbers; the precision of a double beyond 2^53 is not modelled.  The lemmas show that a moment lies in
  its own usage window, that \<open>consume\<close> never passes a limit and that consuming and releasing reach one
  counter only.
\<close>

section \<open>Validation\<close>

definition NUL :: char where
  "NUL = CHR 0x00"

definition assertValidEntitlementKey :: "string \<Rightarrow> uerror + string" where
  "assertValidEntitlementKey key =
     (if key = [] then Inl (UError EEntitlement ''entitlement_key_invalid'')
      else if length key > 63 \<or> \<not> seg_start is_alnum is_underscore key
      then Inl (UError EEntitlement ''entitlement_key_invalid'')
      else Inr key)"

definition assertValidEntitlementLimit :: "int option \<Rightarrow> uerror + int option" where
  "assertValidEntitlementLimit limit =
     (case limit of None \<Rightarrow> Inr None
      | Some l \<Rightarrow> if \<bar>l\<bar> > 2 ^ 53 - 1 \<or> l < 0 then Inl (UError EEntitlement ''entitlement_limit_invalid'') else Inr (Some l))"

definition assertValidEntitlementAmount :: "int \<Rightarrow> uerror + int" where
  "assertValidEntitlementAmount amount =
     (if amount < 1 \<or> amount > 1000000000 then Inl (UError EEntitlement ''entitlement_amount_invalid'') else Inr amount)"

definition sanitizeEntitlementName :: "string option \<Rightarrow> string \<Rightarrow> uerror + string" where
  "sanitizeEntitlementName name key =
     (case name of None \<Rightarrow> Inr key
      | Some n \<Rightarrow>
          let trimmed = clean_name n in
          if trimmed = [] \<or> length trimmed > 100 then Inl (UError EEntitlement ''entitlement_name_invalid'')
          else Inr trimmed)"

definition assertValidEntitlementPeriod :: "string \<Rightarrow> uerror + period" where
  "assertValidEntitlementPeriod p =
     (if p = ''lifetime'' then Inr Lifetime
      else if p = ''daily'' then Inr Daily
      else if p = ''monthly'' then Inr Monthly
      else Inl (UError EEntitlement ''entitlement_invalid''))"

section \<open>Windows and statuses\<close>

definition entitlementWindow :: "period \<Rightarrow> timestamp \<Rightarrow> timestamp \<times> timestamp option" where
  "entitlementWindow p now =
     (case p of
        Lifetime \<Rightarrow> (0, None)
      | Monthly \<Rightarrow> (Date_UTC (getUTCFullYear now) (int (getUTCMonth now)) 1,
                   Some (Date_UTC (getUTCFullYear now) (int (getUTCMonth now) + 1) 1))
      | Daily \<Rightarrow> (Date_UTC (getUTCFullYear now) (int (getUTCMonth now)) (getUTCDate now),
                 Some (Date_UTC (getUTCFullYear now) (int (getUTCMonth now)) (getUTCDate now + 1))))"

datatype limit_source = Override | Default

record entitlement_status =
  es_organizationId :: string
  es_key :: string
  es_period :: period
  es_limit :: "int option"
  es_source :: limit_source
  es_used :: int
  es_remaining :: "int option"
  es_windowStart :: timestamp
  es_windowEnd :: "timestamp option"

definition buildEntitlementStatus ::
  "string \<Rightarrow> entitlement_def \<Rightarrow> int option option \<Rightarrow> int \<Rightarrow> timestamp \<Rightarrow> entitlement_status" where
  "buildEntitlementStatus organizationId d override used now =
     (let limit = (case override of Some l \<Rightarrow> l | None \<Rightarrow> e_defaultLimit d);
          window = entitlementWindow (e_period d) now
      in \<lparr> es_organizationId = organizationId, es_key = e_key d, es_period = e_period d, es_limit = limit,
           es_source = (case override of Some _ \<Rightarrow> Override | None \<Rightarrow> Default), es_used = used,
           es_remaining = map_option (\<lambda>l. max (l - used) 0) limit,
           es_windowStart = fst window, es_windowEnd = snd window \<rparr>)"

record consume_result =
  cs_allowed :: bool
  cs_used :: int
  cs_limit :: "int option"
  cs_remaining :: "int option"

definition toConsumeResult :: "entitlement_status \<Rightarrow> bool \<Rightarrow> consume_result" where
  "toConsumeResult st allowed =
     \<lparr> cs_allowed = allowed, cs_used = es_used st, cs_limit = es_limit st, cs_remaining = es_remaining st \<rparr>"

section \<open>Operations\<close>

definition entitlementId :: "string \<Rightarrow> string \<Rightarrow> string" where
  "entitlementId organizationId key = organizationId @ NUL # key"

definition usage_slot :: "string \<Rightarrow> string \<Rightarrow> timestamp \<Rightarrow> string" where
  "usage_slot organizationId key start = entitlementId organizationId key @ NUL # int_text start"

definition entitlementDefinition :: "store \<Rightarrow> string \<Rightarrow> uerror + entitlement_def" where
  "entitlementDefinition s key =
     (case mget (entitlementDefinitions s) key of
        None \<Rightarrow> Inl (UError EEntitlement ''entitlement_unknown'') | Some d \<Rightarrow> Inr d)"

definition entitlementOrganization :: "store \<Rightarrow> string \<Rightarrow> uerror + unit" where
  "entitlementOrganization s organizationId =
     (if mhas (organizations s) organizationId then Inr ()
      else Inl (UError EEntitlement ''entitlement_organization_unknown''))"

definition entitlementStatus :: "store \<Rightarrow> string \<Rightarrow> string \<Rightarrow> timestamp \<Rightarrow> uerror + entitlement_status" where
  "entitlementStatus s organizationId key now =
     bindr (entitlementDefinition s key) (\<lambda>d.
       let start = fst (entitlementWindow (e_period d) now);
           used = (case mget (entitlementUsage s) (usage_slot organizationId key start) of None \<Rightarrow> 0 | Some n \<Rightarrow> n)
       in Inr (buildEntitlementStatus organizationId d (mget (entitlementLimits s) (entitlementId organizationId key)) used now))"

record define_entitlement =
  de_key :: string
  de_name :: "string option"
  de_description :: "string option"
  de_period :: "string option"
  de_defaultLimit :: "int option option"

definition ent_define :: "define_entitlement \<Rightarrow> entitlement_def op" where
  "ent_define input =
     guard (assertValidEntitlementKey (de_key input)) (\<lambda>key.
     guard (sanitizeEntitlementName (de_name input) key) (\<lambda>name.
     guard (case de_period input of None \<Rightarrow> Inr Lifetime | Some p \<Rightarrow> assertValidEntitlementPeriod p) (\<lambda>period.
     guard (case de_defaultLimit input of None \<Rightarrow> Inr None | Some l \<Rightarrow> assertValidEntitlementLimit l) (\<lambda>limit s.
       let d = \<lparr> e_key = key, e_name = name,
                 e_description = (case de_description input of None \<Rightarrow> None | Some t \<Rightarrow> if trim t = [] then None else Some (trim t)),
                 e_period = period, e_defaultLimit = limit \<rparr>
       in returns d (s \<lparr> entitlementDefinitions := mset_at key d (entitlementDefinitions s) \<rparr>)))))"

definition ent_findDefinition :: "store \<Rightarrow> string \<Rightarrow> entitlement_def option" where
  "ent_findDefinition s key = mget (entitlementDefinitions s) key"

text \<open>The list is ordered by \<open>localeCompare\<close>, a parameter: it depends on the environment's locale.\<close>

definition ent_listDefinitions :: "(string \<Rightarrow> string \<Rightarrow> bool) \<Rightarrow> store \<Rightarrow> entitlement_def list" where
  "ent_listDefinitions lt s = sort_by (\<lambda>a b. lt (e_key a) (e_key b)) (mvals (entitlementDefinitions s))"

text \<open>\<open>id.split("\u0000")[1]\<close>\<close>

definition second_part :: "string \<Rightarrow> string option" where
  "second_part i = (case dropWhile (\<lambda>c. c \<noteq> NUL) i of [] \<Rightarrow> None | _ # rest \<Rightarrow> Some (takeWhile (\<lambda>c. c \<noteq> NUL) rest))"

definition drop_key :: "string \<Rightarrow> (string, 'v) jsmap \<Rightarrow> (string, 'v) jsmap" where
  "drop_key key m = fold mdel (filter (\<lambda>i. second_part i = Some key) (mkeys m)) m"

definition ent_undefine :: "string \<Rightarrow> unit op" where
  "ent_undefine key s =
     guard (entitlementDefinition s key) (\<lambda>_ s.
       returns () (s \<lparr> entitlementDefinitions := mdel key (entitlementDefinitions s),
         entitlementLimits := drop_key key (entitlementLimits s),
         entitlementUsage := drop_key key (entitlementUsage s) \<rparr>)) s"

text \<open>An operation that ends by reading the status.\<close>

definition then_status :: "string \<Rightarrow> string \<Rightarrow> timestamp \<Rightarrow> store \<Rightarrow> (uerror + entitlement_status) \<times> store" where
  "then_status organizationId key now s = (entitlementStatus s organizationId key now, s)"

definition ent_setLimit :: "timestamp \<Rightarrow> string \<Rightarrow> string \<Rightarrow> int option \<Rightarrow> entitlement_status op" where
  "ent_setLimit now organizationId key limit s =
     guard (entitlementDefinition s key) (\<lambda>_.
     guard (entitlementOrganization s organizationId) (\<lambda>_.
     guard (assertValidEntitlementLimit limit) (\<lambda>l s.
       then_status organizationId key now
         (s \<lparr> entitlementLimits := mset_at (entitlementId organizationId key) l (entitlementLimits s) \<rparr>)))) s"

definition ent_clearLimit :: "timestamp \<Rightarrow> string \<Rightarrow> string \<Rightarrow> entitlement_status op" where
  "ent_clearLimit now organizationId key s =
     guard (entitlementDefinition s key) (\<lambda>_.
     guard (entitlementOrganization s organizationId) (\<lambda>_ s.
       then_status organizationId key now
         (s \<lparr> entitlementLimits := mdel (entitlementId organizationId key) (entitlementLimits s) \<rparr>))) s"

definition ent_get :: "timestamp \<Rightarrow> string \<Rightarrow> string \<Rightarrow> store \<Rightarrow> uerror + entitlement_status" where
  "ent_get now organizationId key s =
     bindr (entitlementOrganization s organizationId) (\<lambda>_. entitlementStatus s organizationId key now)"

definition ent_list :: "timestamp \<Rightarrow> string \<Rightarrow> store \<Rightarrow> uerror + entitlement_status list" where
  "ent_list now organizationId s =
     bindr (entitlementOrganization s organizationId) (\<lambda>_.
       mapr (\<lambda>key. entitlementStatus s organizationId key now) (sort (mkeys (entitlementDefinitions s))))"

definition set_usage :: "string \<Rightarrow> int \<Rightarrow> store \<Rightarrow> store" where
  "set_usage slot n s = s \<lparr> entitlementUsage := mset_at slot n (entitlementUsage s) \<rparr>"

definition ent_consume :: "timestamp \<Rightarrow> string \<Rightarrow> string \<Rightarrow> int \<Rightarrow> consume_result op" where
  "ent_consume now organizationId key amount s =
     guard (assertValidEntitlementAmount amount) (\<lambda>_.
     guard (entitlementOrganization s organizationId) (\<lambda>_.
     guard (entitlementStatus s organizationId key now) (\<lambda>before s.
       if (case es_limit before of None \<Rightarrow> False | Some l \<Rightarrow> es_used before + amount > l)
       then returns (toConsumeResult before False) s
       else
         let s1 = set_usage (usage_slot organizationId key (es_windowStart before)) (es_used before + amount) s
         in guard (entitlementStatus s1 organizationId key now) (\<lambda>after. returns (toConsumeResult after True)) s1))) s"

definition ent_release :: "timestamp \<Rightarrow> string \<Rightarrow> string \<Rightarrow> int \<Rightarrow> consume_result op" where
  "ent_release now organizationId key amount s =
     guard (assertValidEntitlementAmount amount) (\<lambda>_.
     guard (entitlementOrganization s organizationId) (\<lambda>_.
     guard (entitlementStatus s organizationId key now) (\<lambda>before s.
       let s1 = set_usage (usage_slot organizationId key (es_windowStart before)) (max (es_used before - amount) 0) s
       in guard (entitlementStatus s1 organizationId key now) (\<lambda>after. returns (toConsumeResult after True)) s1))) s"

section \<open>Keys of the maps\<close>

text \<open>The decimal text of a number determines it.\<close>

definition digits_value :: "string \<Rightarrow> nat" where
  "digits_value s = foldl (\<lambda>v c. 10 * v + (of_char c - 48)) 0 s"

lemma of_digit_char: "d < 10 \<Longrightarrow> of_char (digit_char d) = 48 + d"
  by (simp add: digit_char_def)

lemma digits_value_nat_text: "digits_value (nat_text n) = n"
proof (induction n rule: nat_text.induct)
  case (1 n)
  show ?case
  proof (cases "n < 10")
    case True
    then show ?thesis by (simp add: nat_text.simps[of n] digits_value_def of_digit_char)
  next
    case False
    then show ?thesis using "1.IH"
      by (simp add: nat_text.simps[of n] digits_value_def of_digit_char)
  qed
qed

lemma nat_text_chars: "c \<in> set (nat_text n) \<Longrightarrow> \<exists>d < 10. c = digit_char d"
proof (induction n rule: nat_text.induct)
  case (1 n)
  show ?case
  proof (cases "n < 10")
    case False
    then have "c \<in> set (nat_text (n div 10)) \<or> c = digit_char (n mod 10)" using 1(2) by (auto simp: nat_text.simps[of n])
    then show ?thesis using "1.IH"[OF False] by (metis mod_less_divisor zero_less_numeral)
  qed (use 1(2) in \<open>auto simp: nat_text.simps[of n]\<close>)
qed

lemma nat_text_no_dash: "CHR ''-'' \<notin> set (nat_text n)" "NUL \<notin> set (nat_text n)"
proof -
  have "of_char c \<ge> (48 :: nat)" if "c \<in> set (nat_text n)" for c
    using nat_text_chars[OF that] of_digit_char by force
  from this[of "CHR ''-''"] this[of NUL] show "CHR ''-'' \<notin> set (nat_text n)" "NUL \<notin> set (nat_text n)"
    by (auto simp: NUL_def)
qed

lemma nat_text_inj: "nat_text m = nat_text n \<longleftrightarrow> m = n"
  by (metis digits_value_nat_text)

lemma int_text_inj: "int_text i = int_text j \<longleftrightarrow> i = j"
  using nat_text_no_dash(1)[of "nat i"] nat_text_no_dash(1)[of "nat j"]
  by (auto simp: int_text_def nat_text_inj split: if_splits) (metis list.set_intros(1))+

lemma int_text_no_NUL: "NUL \<notin> set (int_text i)"
  using nat_text_no_dash(2) by (auto simp: int_text_def NUL_def)

lemma entitlement_seg_chars:
  "seg_start C S s \<Longrightarrow> c \<in> set s \<Longrightarrow> C c \<or> S c" "seg_in C S s \<Longrightarrow> c \<in> set s \<Longrightarrow> C c \<or> S c"
  by (induction C S s and C S s rule: seg_start_seg_in.induct) (auto split: if_splits)

definition ent_key_ok :: "string \<Rightarrow> bool" where
  "ent_key_ok key \<longleftrightarrow> NUL \<notin> set key"

lemma valid_key_ok: "assertValidEntitlementKey key = Inr k \<Longrightarrow> ent_key_ok k"
proof -
  assume "assertValidEntitlementKey key = Inr k"
  then have "seg_start is_alnum is_underscore k" by (auto simp: assertValidEntitlementKey_def split: if_splits)
  moreover have "\<not> is_alnum NUL" "\<not> is_underscore NUL"
    by (simp_all add: NUL_def is_alnum_def is_lower_az_def is_digit09_def is_underscore_def code_def)
  ultimately show ?thesis using entitlement_seg_chars(1) by (auto simp: ent_key_ok_def)
qed

interpretation limits: composite_key entitlementId "\<lambda>og k. ent_key_ok k"
proof unfold_locales
  fix a b c d assume "ent_key_ok b" "ent_key_ok d" "entitlementId a b = entitlementId c d"
  then show "a = c \<and> b = d" using split_at_last[of NUL b d a c] by (simp add: entitlementId_def ent_key_ok_def)
qed

interpretation slots: composite_key "\<lambda>(og, k) start. usage_slot og k start" "\<lambda>(og, k) start. ent_key_ok k"
proof unfold_locales
  fix x y :: "string \<times> string" and b d
  assume "(case x of (og, k) \<Rightarrow> \<lambda>start. ent_key_ok k) b" "(case y of (og, k) \<Rightarrow> \<lambda>start. ent_key_ok k) d"
    and "(case x of (og, k) \<Rightarrow> usage_slot og k) b = (case y of (og, k) \<Rightarrow> usage_slot og k) d"
  then show "x = y \<and> b = d"
    using split_at_last[of NUL "int_text b" "int_text d" "entitlementId (fst x) (snd x)" "entitlementId (fst y) (snd y)"]
      int_text_no_NUL limits.enc_eq_iff[of "snd x" "snd y" "fst x" "fst y"]
    by (cases x; cases y) (auto simp: usage_slot_def int_text_inj)
qed

section \<open>Windows\<close>

lemma window_contains:
  assumes "0 \<le> now"
  shows "fst (entitlementWindow p now) \<le> now \<and> (case snd (entitlementWindow p now) of None \<Rightarrow> True | Some e \<Rightarrow> now < e)"
  using month_window[of now] day_window[of now] Day_bounds[of now] year_from_epoch[OF assms] assms
  by (cases p) (auto simp: entitlementWindow_def)

lemma DayFromYear_strict: "y < z \<Longrightarrow> DayFromYear (y + 1) \<le> DayFromYear z"
  using DayFromYear_mono[of "y + 1" "nat (z - (y + 1))"] by simp

lemma year_unique:
  assumes "DayFromYear y \<le> d" "d < DayFromYear (y + 1)"
  shows "YearFromDay d = y"
proof (rule antisym)
  show "YearFromDay d \<le> y"
  proof (rule ccontr)
    assume "\<not> YearFromDay d \<le> y"
    then show False using DayFromYear_strict[of y "YearFromDay d"] YearFromDay[of d] assms(2) by simp
  qed
qed (rule year_mono[OF assms(1)])

lemma month_edge_mono: "l = 0 \<or> l = 1 \<Longrightarrow> m < m' \<Longrightarrow> m' \<le> 12 \<Longrightarrow> month_edge l m < month_edge l m'"
proof (induction m')
  case (Suc m')
  have "month_edge l m' < month_edge l (Suc m')"
  proof -
    have "m' \<in> {0, 1, 2, 3, 4, 5, 6, 7, 8, 9, 10, 11}" using Suc.prems(3) by (simp only: insert_iff empty_iff) presburger
    then show ?thesis using Suc.prems(1) by (auto simp: month_edge_def month_starts_def)
  qed
  then show ?case using Suc by (cases "m = m'") auto
qed simp

lemma month_unique:
  assumes l: "l = 0 \<or> l = 1" and m: "month_edge l m \<le> d" "d < month_edge l (Suc m)" "m < 12"
    and k: "month_edge l k \<le> d" "d < month_edge l (Suc k)" "k < 12"
  shows "m = k"
proof (rule ccontr)
  assume "m \<noteq> k"
  then consider "Suc m \<le> k" | "Suc k \<le> m" by linarith
  then show False
  proof cases
    case 1
    then have "month_edge l (Suc m) \<le> month_edge l k" using month_edge_mono[OF l, of "Suc m" k] k(3) by (cases "Suc m = k") auto
    then show False using m(2) k(1) by simp
  next
    case 2
    then have "month_edge l (Suc k) \<le> month_edge l m" using month_edge_mono[OF l, of "Suc k" m] m(3) by (cases "Suc k = m") auto
    then show False using k(2) m(1) by simp
  qed
qed

text \<open>Two moments of one year and month by their days.\<close>

lemma same_month:
  assumes d: "DayFromYear y + month_edge (leap y) m \<le> Day t" "Day t < DayFromYear y + month_edge (leap y) (Suc m)" and m: "m < 12"
  shows "getUTCFullYear t = y \<and> getUTCMonth t = m"
proof -
  have "0 \<le> month_edge (leap y) m"
    using month_edge_mono[OF leap_01, of 0 m y] m by (cases "m = 0") (auto simp: month_edge_def month_starts_def)
  moreover have "month_edge (leap y) (Suc m) \<le> 365 + leap y"
    using month_edge_mono[OF leap_01, of "Suc m" 12 y] m month_edge_last[of "leap y"] by (cases "Suc m = 12") auto
  ultimately have y: "getUTCFullYear t = y"
    unfolding getUTCFullYear_def using d DayFromYear_Suc[of y] by (intro year_unique) simp_all
  have "m = getUTCMonth t"
    by (rule month_unique[OF leap_01[of y], of _ "Day t - DayFromYear y"]) (use d m day_in_month[of t] y in simp_all)
  then show ?thesis using y by simp
qed

lemma window_stable:
  assumes now: "0 \<le> now" and w: "entitlementWindow p now = (a, Some b)" and t: "a \<le> t" "t < b"
  shows "entitlementWindow p t = (a, Some b)"
proof (cases p)
  case Daily
  have y: "100 \<le> getUTCFullYear now" using year_from_epoch[OF now] by simp
  have ab: "a = Day now * msPerDay" "b = (Day now + 1) * msPerDay"
    using w Daily day_window[OF y] by (simp_all add: entitlementWindow_def)
  have "Day t = Day now" using t unfolding ab Day_def
    by (intro int_div_pos_eq[where r = "t - Day now * msPerDay"]) (simp_all add: msPerDay_def Day_def)
  then have "getUTCFullYear t = getUTCFullYear now" "getUTCMonth t = getUTCMonth now" "getUTCDate t = getUTCDate now"
    by (simp_all add: getUTCFullYear_def getUTCMonth_def getUTCDate_def DayWithinYear_def)
  then show ?thesis using w Daily by (simp add: entitlementWindow_def)
next
  case Monthly
  let ?y = "getUTCFullYear now" and ?m = "getUTCMonth now"
  have y: "100 \<le> ?y" using year_from_epoch[OF now] by simp
  have m: "?m < 12" using day_in_month[of now] by simp
  have a: "a = (DayFromYear ?y + month_edge (leap ?y) ?m) * msPerDay"
    using w Monthly Date_UTC_month[OF y, of ?m 1] m by (simp add: entitlementWindow_def)
  have b: "b = (DayFromYear ?y + month_edge (leap ?y) (Suc ?m)) * msPerDay"
    using w Monthly Date_UTC_month[OF y, of "Suc ?m" 1] m by (simp add: entitlementWindow_def add.commute)
  have "DayFromYear ?y + month_edge (leap ?y) ?m \<le> Day t"
    using le_less_trans[OF t(1)[unfolded a] Day_bounds[of t, THEN conjunct2]] by (simp add: msPerDay_def)
  moreover have "Day t < DayFromYear ?y + month_edge (leap ?y) (Suc ?m)"
    using le_less_trans[OF Day_bounds[of t, THEN conjunct1] t(2)[unfolded b]] by (simp add: msPerDay_def)
  ultimately have "getUTCFullYear t = ?y \<and> getUTCMonth t = ?m" using same_month m by blast
  then show ?thesis using w Monthly by (simp add: entitlementWindow_def)
qed (use w in \<open>simp add: entitlementWindow_def\<close>)

section \<open>Properties\<close>

text \<open>The keys of the catalog are the keys of its definitions, and valid.\<close>

definition ent_ok :: "store \<Rightarrow> bool" where
  "ent_ok s \<longleftrightarrow> keyed e_key (entitlementDefinitions s) \<and> list_all ent_key_ok (mkeys (entitlementDefinitions s))"

lemma ent_ok_key: "ent_ok s \<Longrightarrow> mget (entitlementDefinitions s) k = Some d \<Longrightarrow> ent_key_ok k \<and> e_key d = k"
proof -
  assume ok: "ent_ok s" and d: "mget (entitlementDefinitions s) k = Some d"
  have "k \<in> set (mkeys (entitlementDefinitions s))"
    unfolding mkeys_def using imageI[OF map_of_SomeD[OF d], of fst] by simp
  then show ?thesis using ok keyed_get[OF _ d, of e_key] by (simp add: ent_ok_def list_all_iff)
qed

lemma ent_define_ok:
  assumes ok: "ent_ok s"
  shows "ent_ok (snd (ent_define input s))"
proof (cases "snd (ent_define input s) = s")
  case False
  then obtain k0 name p l where r: "assertValidEntitlementKey (de_key input) = Inr k0" "sanitizeEntitlementName (de_name input) k0 = Inr name"
      "(case de_period input of None \<Rightarrow> Inr Lifetime | Some p \<Rightarrow> assertValidEntitlementPeriod p) = Inr p"
      "(case de_defaultLimit input of None \<Rightarrow> Inr None | Some l \<Rightarrow> assertValidEntitlementLimit l) = Inr l"
    by (auto simp: ent_define_def guard_def split: sum.splits)
  have "\<exists>d. e_key d = k0 \<and> snd (ent_define input s) = s \<lparr> entitlementDefinitions := mset_at k0 d (entitlementDefinitions s) \<rparr>"
    unfolding ent_define_def r guard_Inr Let_def returns_simps
    by (rule exI[of _ "\<lparr> e_key = k0, e_name = name, e_description = (case de_description input of None \<Rightarrow> None | Some t \<Rightarrow> if trim t = [] then None else Some (trim t)), e_period = p, e_defaultLimit = l \<rparr>"]) simp
  then obtain d where k: "assertValidEntitlementKey (de_key input) = Inr k0" "e_key d = k0"
    and s': "snd (ent_define input s) = s \<lparr> entitlementDefinitions := mset_at k0 d (entitlementDefinitions s) \<rparr>" using r(1) by blast
  have "set (mkeys (mset_at k0 d (entitlementDefinitions s))) \<subseteq> insert k0 (set (mkeys (entitlementDefinitions s)))"
    using set_update_sub[of k0 d "entitlementDefinitions s"] by (force simp: mkeys_def)
  then show ?thesis using ok keyed_update[of e_key "entitlementDefinitions s" d k0] k(2) valid_key_ok[OF k(1)]
    unfolding s' by (auto simp: ent_ok_def list_all_iff)
qed (use ok in simp)

definition counted :: "int \<Rightarrow> entitlement_status \<Rightarrow> entitlement_status" where
  "counted n st = st \<lparr> es_used := n, es_remaining := map_option (\<lambda>l. max (l - n) 0) (es_limit st) \<rparr>"

text \<open>Writing one counter changes the statuses of that organization, key and window only.\<close>

lemma status_set_usage:
  assumes ok: "ent_ok s" and st: "entitlementStatus s og k now = Inr st"
  shows "entitlementStatus (set_usage (usage_slot og k (es_windowStart st)) n s) og' k' t =
    map_sum id (\<lambda>x. if og' = og \<and> k' = k \<and> es_windowStart x = es_windowStart st then counted n x else x) (entitlementStatus s og' k' t)"
proof (cases "mget (entitlementDefinitions s) k'")
  case None
  then show ?thesis by (simp add: entitlementStatus_def entitlementDefinition_def set_usage_def)
next
  case (Some d')
  obtain d where d: "mget (entitlementDefinitions s) k = Some d"
    using st by (auto simp: entitlementStatus_def entitlementDefinition_def split: option.splits)
  have keys: "ent_key_ok k" "ent_key_ok k'" using ent_ok_key[OF ok d] ent_ok_key[OF ok Some] by auto
  have slot: "usage_slot og' k' b = usage_slot og k a \<longleftrightarrow> og' = og \<and> k' = k \<and> b = a" for a b
    using slots.enc_eq_iff[of "(og', k')" b "(og, k)" a] keys by simp
  have start: "es_windowStart st = fst (entitlementWindow (e_period d) now)"
    using st d by (auto simp: entitlementStatus_def entitlementDefinition_def buildEntitlementStatus_def Let_def)
  show ?thesis using Some slot d unfolding start
    by (auto simp: entitlementStatus_def entitlementDefinition_def set_usage_def buildEntitlementStatus_def Let_def counted_def
        split: option.splits)
qed

lemma consume_cases:
  assumes st: "entitlementStatus s og k now = Inr st" and og: "mhas (organizations s) og" and n: "1 \<le> n" "n \<le> 1000000000"
  shows "ent_consume now og k n s =
    (if (case es_limit st of None \<Rightarrow> False | Some l \<Rightarrow> es_used st + n > l) then (Inr (toConsumeResult st False), s)
     else let s1 = set_usage (usage_slot og k (es_windowStart st)) (es_used st + n) s
       in guard (entitlementStatus s1 og k now) (\<lambda>after. returns (toConsumeResult after True)) s1)"
  using assms by (simp add: ent_consume_def assertValidEntitlementAmount_def entitlementOrganization_def returns_def)

text \<open>
  C33: \<open>consume\<close> is allowed exactly when the amount fits in what the limit leaves.  Then the counter of that
  organization, entitlement and window grows by the amount; otherwise nothing changes.  No other
  organization, entitlement or window is touched.
\<close>

theorem consume_exact:
  assumes "ent_ok s" "entitlementStatus s og k now = Inr st" "mhas (organizations s) og" "1 \<le> n" "n \<le> 1000000000"
    and "fits = (case es_limit st of None \<Rightarrow> True | Some l \<Rightarrow> es_used st + n \<le> l)"
  shows "map_sum id cs_allowed (fst (ent_consume now og k n s)) = Inr fits \<and>
    entitlementStatus (snd (ent_consume now og k n s)) og' k' t =
      map_sum id (\<lambda>x. if fits \<and> og' = og \<and> k' = k \<and> es_windowStart x = es_windowStart st then counted (es_used st + n) x else x)
        (entitlementStatus s og' k' t)"
proof (cases fits)
  case False
  have "map_sum id (\<lambda>x. x) y = y" for y :: "uerror + entitlement_status" by (cases y) simp_all
  then show ?thesis using assms False consume_cases[OF assms(2-5)]
    by (auto simp: toConsumeResult_def split: option.splits)
next
  case True
  let ?s1 = "set_usage (usage_slot og k (es_windowStart st)) (es_used st + n) s"
  have after: "entitlementStatus ?s1 og k now = Inr (counted (es_used st + n) st)"
    using status_set_usage[OF assms(1,2), of "es_used st + n" og k now] assms(2) by simp
  have "ent_consume now og k n s = (Inr (toConsumeResult (counted (es_used st + n) st) True), ?s1)"
    using True assms(6) consume_cases[OF assms(2-5)] by (auto simp: Let_def after returns_def split: option.splits)
  then show ?thesis using status_set_usage[OF assms(1,2)] True by (simp add: toConsumeResult_def)
qed

text \<open>
  Usage windows partition time.  From the epoch on, a moment lies in its own window, and every moment
  of that window gets the same one: consumption is counted once, and starts over exactly at its end.
\<close>

theorem windows_partition:
  assumes "0 \<le> now" "entitlementWindow p now = (a, Some b)"
  shows "a \<le> now \<and> now < b \<and> {t. entitlementWindow p t = (a, Some b)} \<inter> {0..} = {a..<b} \<inter> {0..}"
proof -
  have "entitlementWindow p t = (a, Some b) \<longleftrightarrow> t \<in> {a..<b}" if "0 \<le> t" for t
    using window_stable[OF assms] window_contains[OF that, of p] by auto
  then show ?thesis using window_contains[OF assms(1), of p] assms(2) by auto
qed

definition demo_seats :: entitlement_def where
  "demo_seats = \<lparr> e_key = ''seats'', e_name = ''Seats'', e_description = None, e_period = Lifetime, e_defaultLimit = Some 5 \<rparr>"

definition demo_ent_store :: store where
  "demo_ent_store = empty_store \<lparr> entitlementDefinitions := [(''seats'', demo_seats)],
     organizations := [(''o1'', \<lparr> o_id = ''o1'', o_slug = ''acme'', o_name = ''Acme'', o_createdAt = 0, o_status = OActive,
       o_version = 1, o_statusChange = None \<rparr>)] \<rparr>"

theorem consume_exact_witness:
  "map_sum id cs_allowed (fst (ent_consume 7 ''o1'' ''seats'' 6 demo_ent_store)) = Inr False"
proof -
  have ok: "ent_ok demo_ent_store"
    by (simp add: ent_ok_def demo_ent_store_def keyed_def demo_seats_def mkeys_def ent_key_ok_def NUL_def)
  obtain st where st: "entitlementStatus demo_ent_store ''o1'' ''seats'' 7 = Inr st" "es_limit st = Some 5" "es_used st = 0"
    by (simp add: entitlementStatus_def entitlementDefinition_def demo_ent_store_def demo_seats_def buildEntitlementStatus_def Let_def)
  have "mhas (organizations demo_ent_store) ''o1''" by (simp add: demo_ent_store_def mhas_def)
  from consume_exact[OF ok st(1) this, of 6 False] st(2,3) show ?thesis by simp
qed

theorem windows_partition_witness:
  "{t. entitlementWindow Daily t = (0, Some 86400000)} \<inter> {0..} = {0..<86400000} \<inter> {0..}"
proof -
  have "entitlementWindow Daily 0 = (0, Some 86400000)" by (simp add: entitlementWindow_def) (code_simp)
  from windows_partition[OF _ this] show ?thesis by simp
qed

end
