(* ===== verification/Invitations.thy ===== *)
theory Invitations
  imports State
begin

text \<open>
  Invitations: \<open>packages/core/src/invitation/types.ts\<close>, \<open>invitation/repository.ts\<close> and
  \<open>invitationRepository\<close> of \<open>storage/memory.ts\<close>.

  Besides the invitations the store has the hash of each accept token and the idempotency key of the
  creation, both by invitation id.  The lemmas show that an e-mail has one pending invitation per organization,
  that a status other than pending is final, and that one token is accepted at most once.
\<close>

section \<open>Helpers\<close>

definition invErr :: "string \<Rightarrow> uerror" where
  "invErr reason = UError EInvitation (''invitation_'' @ reason)"

record create_invitation =
  ci_id :: string
  ci_organizationId :: string
  ci_email :: string
  ci_roleIds :: "string list"
  ci_teamIds :: "string list option"
  ci_tokenHash :: string
  ci_invitedBy :: identity
  ci_createdAt :: timestamp
  ci_expiresAt :: timestamp
  ci_idempotency :: "(string \<times> string) option"

definition isInvitationUsable :: "invitation \<Rightarrow> timestamp \<Rightarrow> bool" where
  "isInvitationUsable i now \<longleftrightarrow> i_status i = IPending \<and> i_expiresAt i > now"

record invitation_filter =
  if_status :: "inv_status option"
  if_query :: "string option"

definition matchesInvitationFilter :: "invitation \<Rightarrow> string \<Rightarrow> invitation_filter \<Rightarrow> bool" where
  "matchesInvitationFilter i organizationId f \<longleftrightarrow>
     i_organizationId i = organizationId \<and> opt_match (\<lambda>st. i_status i = st) (if_status f) \<and>
     query_hits (search_query (if_query f)) [i_email i]"

text \<open>What leaves the store: an offer for a team that was deleted since disappears with it.\<close>

definition team_in :: "store \<Rightarrow> string \<Rightarrow> string \<Rightarrow> bool" where
  "team_in s organizationId i \<longleftrightarrow> (case mget (teams s) i of None \<Rightarrow> False | Some t \<Rightarrow> t_organizationId t = organizationId)"

definition inv_clone :: "store \<Rightarrow> invitation \<Rightarrow> invitation" where
  "inv_clone s i = i \<lparr> i_teamIds := filter (team_in s (i_organizationId i)) (i_teamIds i) \<rparr>"

definition put_invitation :: "invitation \<Rightarrow> store \<Rightarrow> store" where
  "put_invitation i s = s \<lparr> invitations := mset_at (i_id i) i (invitations s) \<rparr>"

section \<open>Operations\<close>

definition new_invitation :: "create_invitation \<Rightarrow> invitation" where
  "new_invitation input =
     \<lparr> i_id = ci_id input, i_organizationId = ci_organizationId input, i_email = ci_email input,
       i_roleIds = ci_roleIds input, i_teamIds = uniq (case ci_teamIds input of None \<Rightarrow> [] | Some ts \<Rightarrow> ts),
       i_invitedBy = ci_invitedBy input, i_status = IPending, i_createdAt = ci_createdAt input,
       i_expiresAt = ci_expiresAt input, i_acceptedAt = None, i_acceptedBy = None, i_revokedAt = None,
       i_delivery = \<lparr> d_status = DPending, d_attempts = 0, d_sends = 0, d_lastAttemptAt = None, d_sentAt = None, d_lastError = None \<rparr> \<rparr>"

text \<open>The idempotency key is taken in its organization.\<close>

definition idempotency_taken :: "store \<Rightarrow> string \<Rightarrow> string \<Rightarrow> bool" where
  "idempotency_taken s organizationId key \<longleftrightarrow>
     list_ex (\<lambda>i. i_organizationId i = organizationId \<and> map_option fst (mget (invitationIdempotency s) (i_id i)) = Some key)
       (mvals (invitations s))"

definition same_pending :: "string \<Rightarrow> string \<Rightarrow> invitation \<Rightarrow> bool" where
  "same_pending organizationId email i \<longleftrightarrow> i_organizationId i = organizationId \<and> i_email i = email \<and> i_status i = IPending"

definition inv_create :: "create_invitation \<Rightarrow> invitation op" where
  "inv_create input s =
     (if list_ex (same_pending (ci_organizationId input) (ci_email input)) (mvals (invitations s))
      then fails (invErr ''duplicate_pending'') s
      else if \<not> mhas (organizations s) (ci_organizationId input) then fails (invErr ''bad_request'') s
      else if list_ex (\<lambda>t. \<not> team_in s (ci_organizationId input) t) (case ci_teamIds input of None \<Rightarrow> [] | Some ts \<Rightarrow> ts)
      then fails (invErr ''bad_request'') s
      else
        let i = new_invitation input;
            stored = (\<lambda>s. let s1 = put_invitation i s
                          in s1 \<lparr> invitationTokenHashes := mset_at (i_id i) (ci_tokenHash input) (invitationTokenHashes s1) \<rparr>)
        in case ci_idempotency input of
             None \<Rightarrow> returns (inv_clone s i) (stored s)
           | Some ik \<Rightarrow>
               if idempotency_taken s (ci_organizationId input) (fst ik) then fails (invErr ''idempotency_conflict'') s
               else returns (inv_clone s i) (stored (s \<lparr> invitationIdempotency := mset_at (i_id i) ik (invitationIdempotency s) \<rparr>)))"

definition inv_findByIdempotencyKey :: "store \<Rightarrow> string \<Rightarrow> string \<Rightarrow> (invitation \<times> string) option" where
  "inv_findByIdempotencyKey s organizationId key =
     (case find (\<lambda>i. i_organizationId i = organizationId \<and> map_option fst (mget (invitationIdempotency s) (i_id i)) = Some key)
             (mvals (invitations s)) of
        None \<Rightarrow> None
      | Some i \<Rightarrow> map_option (\<lambda>(k, h). (inv_clone s i, h)) (mget (invitationIdempotency s) (i_id i)))"

definition inv_findById :: "store \<Rightarrow> string \<Rightarrow> invitation option" where
  "inv_findById s i = map_option (inv_clone s) (mget (invitations s) i)"

text \<open>The first id, in the order the tokens were stored, that has the hash.\<close>

definition id_of_token :: "store \<Rightarrow> string \<Rightarrow> string option" where
  "id_of_token s tokenHash = map_option fst (find (\<lambda>(i, h). h = tokenHash) (invitationTokenHashes s))"

definition invitation_of_token :: "store \<Rightarrow> string \<Rightarrow> invitation option" where
  "invitation_of_token s tokenHash = Option.bind (id_of_token s tokenHash) (mget (invitations s))"

definition inv_findByTokenHash :: "store \<Rightarrow> string \<Rightarrow> invitation option" where
  "inv_findByTokenHash s tokenHash = map_option (inv_clone s) (invitation_of_token s tokenHash)"

definition inv_count :: "store \<Rightarrow> string \<Rightarrow> invitation_filter \<Rightarrow> nat option \<Rightarrow> nat" where
  "inv_count s organizationId f limit =
     cap_at limit (length (filter (\<lambda>i. matchesInvitationFilter i organizationId f) (mvals (invitations s))))"

definition invitations_newest_first :: "invitation \<Rightarrow> invitation \<Rightarrow> bool" where
  "invitations_newest_first a b \<longleftrightarrow> i_createdAt b < i_createdAt a \<or> (i_createdAt b = i_createdAt a \<and> i_id b < i_id a)"

definition inv_search :: "store \<Rightarrow> string \<Rightarrow> invitation_filter \<Rightarrow> string option \<Rightarrow> nat option \<Rightarrow> invitation list" where
  "inv_search s organizationId f after limit =
     (let matches = sort_by invitations_newest_first (filter (\<lambda>i. matchesInvitationFilter i organizationId f) (mvals (invitations s)));
          page = (case after of None \<Rightarrow> matches | Some a \<Rightarrow> tl (dropWhile (\<lambda>i. i_id i \<noteq> a) matches))
      in map (inv_clone s) (slice_to limit page))"

definition stale :: "string \<Rightarrow> string \<Rightarrow> timestamp \<Rightarrow> invitation \<Rightarrow> bool" where
  "stale organizationId email now i \<longleftrightarrow> same_pending organizationId email i \<and> i_expiresAt i \<le> now"

definition inv_expireStale :: "string \<Rightarrow> string \<Rightarrow> timestamp \<Rightarrow> store \<Rightarrow> nat \<times> store" where
  "inv_expireStale organizationId email now s =
     (length (filter (stale organizationId email now) (mvals (invitations s))),
      s \<lparr> invitations := mmap (\<lambda>i. if stale organizationId email now i then i \<lparr> i_status := IExpired \<rparr> else i) (invitations s) \<rparr>)"

text \<open>The operations that need a pending invitation return nothing for any other.\<close>

definition on_pending :: "string \<Rightarrow> (invitation \<Rightarrow> invitation) \<Rightarrow> (store \<Rightarrow> store) \<Rightarrow> store \<Rightarrow> invitation option \<times> store" where
  "on_pending id0 f g s =
     (case mget (invitations s) id0 of
        None \<Rightarrow> (None, s)
      | Some i \<Rightarrow>
          if i_status i \<noteq> IPending then (None, s)
          else (Some (inv_clone s (f i)), g (s \<lparr> invitations := mset_at id0 (f i) (invitations s) \<rparr>)))"

definition inv_rotateToken :: "string \<Rightarrow> string \<Rightarrow> timestamp \<Rightarrow> store \<Rightarrow> invitation option \<times> store" where
  "inv_rotateToken id0 tokenHash expiresAt =
     on_pending id0
       (\<lambda>i. i \<lparr> i_expiresAt := expiresAt, i_delivery := (i_delivery i) \<lparr> d_status := DPending, d_lastError := None \<rparr> \<rparr>)
       (\<lambda>s. s \<lparr> invitationTokenHashes := mset_at id0 tokenHash (invitationTokenHashes s) \<rparr>)"

definition inv_revoke :: "string \<Rightarrow> timestamp \<Rightarrow> store \<Rightarrow> invitation option \<times> store" where
  "inv_revoke id0 now = on_pending id0 (\<lambda>i. i \<lparr> i_status := IRevoked, i_revokedAt := Some now \<rparr>) (\<lambda>s. s)"

definition inv_markAccepted :: "string \<Rightarrow> identity \<Rightarrow> timestamp \<Rightarrow> store \<Rightarrow> invitation option \<times> store" where
  "inv_markAccepted tokenHash who now s =
     (case id_of_token s tokenHash of
        None \<Rightarrow> (None, s)
      | Some id0 \<Rightarrow>
          case mget (invitations s) id0 of
            None \<Rightarrow> (None, s)
          | Some i \<Rightarrow>
              if i_status i \<noteq> IPending \<or> i_expiresAt i \<le> now then (None, s)
              else
                let j = i \<lparr> i_status := IAccepted, i_acceptedAt := Some now, i_acceptedBy := Some who \<rparr>
                in (Some (inv_clone s j), s \<lparr> invitations := mset_at id0 j (invitations s) \<rparr>))"

record record_delivery =
  rd_sent :: bool
  rd_attempts :: int
  rd_error :: "string option"
  rd_at :: timestamp

definition delivered_with :: "record_delivery \<Rightarrow> delivery \<Rightarrow> delivery" where
  "delivered_with input d =
     \<lparr> d_status = (if rd_sent input then DSent else DFailed), d_attempts = d_attempts d + rd_attempts input,
       d_sends = d_sends d + 1, d_lastAttemptAt = Some (rd_at input),
       d_sentAt = (if rd_sent input then Some (rd_at input) else d_sentAt d),
       d_lastError = (if rd_sent input then None else rd_error input) \<rparr>"

definition inv_recordDelivery :: "string \<Rightarrow> record_delivery \<Rightarrow> store \<Rightarrow> store" where
  "inv_recordDelivery id0 input s =
     (case mget (invitations s) id0 of
        None \<Rightarrow> s
      | Some i \<Rightarrow> s \<lparr> invitations := mset_at id0 (i \<lparr> i_delivery := delivered_with input (i_delivery i) \<rparr>) (invitations s) \<rparr>)"

definition inv_countCreatedSince :: "store \<Rightarrow> string option \<Rightarrow> string option \<Rightarrow> timestamp \<Rightarrow> nat" where
  "inv_countCreatedSince s organizationId email since =
     length (filter (\<lambda>i. i_createdAt i \<ge> since \<and> opt_match (\<lambda>og. i_organizationId i = og) organizationId \<and>
       opt_match (\<lambda>e. i_email i = e) email) (mvals (invitations s)))"

section \<open>Runs\<close>

datatype inv_cmd = ICreate create_invitation | IExpireStale string string timestamp | IRotate string string timestamp
  | IRevoke string timestamp | IAccept string identity timestamp | IDelivery string record_delivery

fun inv_exec :: "inv_cmd \<Rightarrow> store \<Rightarrow> store" where
  "inv_exec (ICreate input) s = snd (inv_create input s)"
| "inv_exec (IExpireStale og email now) s = snd (inv_expireStale og email now s)"
| "inv_exec (IRotate i h e) s = snd (inv_rotateToken i h e s)"
| "inv_exec (IRevoke i now) s = snd (inv_revoke i now s)"
| "inv_exec (IAccept h who now) s = snd (inv_markAccepted h who now s)"
| "inv_exec (IDelivery i input) s = inv_recordDelivery i input s"

fun creates :: "string \<Rightarrow> inv_cmd \<Rightarrow> bool" where
  "creates i (ICreate input) = (ci_id input = i)"
| "creates i _ = False"

text \<open>Invitations are stored under their id, and an e-mail has one pending invitation per organization.\<close>

definition inv_wf :: "store \<Rightarrow> bool" where
  "inv_wf s \<longleftrightarrow> keyed i_id (invitations s) \<and>
     (\<forall>j k a b. mget (invitations s) j = Some a \<longrightarrow> mget (invitations s) k = Some b \<longrightarrow> i_status a = IPending \<longrightarrow> i_status b = IPending \<longrightarrow>
        i_organizationId a = i_organizationId b \<longrightarrow> i_email a = i_email b \<longrightarrow> j = k)"

section \<open>What a step does to an invitation\<close>

text \<open>An edit keeps whom the invitation is for, and its outcome once it has one.\<close>

definition edit_of :: "invitation \<Rightarrow> invitation \<Rightarrow> bool" where
  "edit_of a b \<longleftrightarrow> i_id b = i_id a \<and> i_organizationId b = i_organizationId a \<and> i_email b = i_email a \<and>
     (i_status a \<noteq> IPending \<longrightarrow> i_status b = i_status a \<and> i_acceptedBy b = i_acceptedBy a)"

lemma edit_of_refl [simp]: "edit_of a a"
  by (simp add: edit_of_def)

text \<open>All the operations but \<open>create\<close> edit rows in place.\<close>

definition edits_rows :: "store \<Rightarrow> store \<Rightarrow> bool" where
  "edits_rows s s' \<longleftrightarrow> (keyed i_id (invitations s) \<longrightarrow> keyed i_id (invitations s')) \<and>
     (\<forall>k. rel_option edit_of (mget (invitations s) k) (mget (invitations s') k))"

lemma rel_edit_refl [simp]: "rel_option edit_of x x"
  by (cases x) simp_all

lemma edits_rows_refl [simp]: "edits_rows s s"
  by (simp add: edits_rows_def)

lemma edits_rows_put:
  assumes "mget (invitations s) k = Some a" "edit_of a b"
  shows "edits_rows s (s \<lparr> invitations := mset_at k b (invitations s) \<rparr>)"
  using assms keyed_update[of i_id "invitations s" b k] keyed_get[of i_id "invitations s" k a] by (simp add: edits_rows_def edit_of_def)

lemma on_pending_edits:
  assumes "\<And>i. i_status i = IPending \<Longrightarrow> edit_of i (f i)" "\<And>s. invitations (g s) = invitations s"
  shows "edits_rows s (snd (on_pending k f g s))"
proof (cases "mget (invitations s) k")
  case (Some i)
  have "edits_rows s (g (s \<lparr> invitations := mset_at k (f i) (invitations s) \<rparr>))" if "i_status i = IPending"
    using edits_rows_put[OF Some assms(1)[OF that]] assms(2) by (simp add: edits_rows_def)
  then show ?thesis using Some by (simp add: on_pending_def)
qed (simp add: on_pending_def)

lemma inv_step_edits:
  assumes "\<nexists>input. c = ICreate input"
  shows "edits_rows s (inv_exec c s)"
proof (cases c)
  case (IExpireStale og email now)
  let ?f = "\<lambda>i. if stale og email now i then i \<lparr> i_status := IExpired \<rparr> else i"
  have "edit_of i (?f i)" for i by (simp add: edit_of_def stale_def same_pending_def)
  then have "rel_option edit_of x (map_option ?f x)" for x by (cases x) simp_all
  then show ?thesis by (simp add: IExpireStale inv_expireStale_def edits_rows_def keyed_mmap)
next
  case (IRotate i h e)
  then show ?thesis by (simp add: inv_rotateToken_def) (rule on_pending_edits, simp_all add: edit_of_def)
next
  case (IRevoke i now)
  then show ?thesis by (simp add: inv_revoke_def) (rule on_pending_edits, simp_all add: edit_of_def)
next
  case (IAccept h who now)
  then show ?thesis by (auto simp: inv_markAccepted_def Let_def edit_of_def intro!: edits_rows_put split: option.splits)
next
  case (IDelivery i input)
  then show ?thesis by (auto simp: inv_recordDelivery_def edit_of_def intro: edits_rows_put split: option.splits)
qed (use assms in simp)

lemma inv_create_cases:
  obtains (refused) "snd (inv_create input s) = s"
  | (created) "invitations (snd (inv_create input s)) = mset_at (ci_id input) (new_invitation input) (invitations s)"
      "\<not> list_ex (same_pending (ci_organizationId input) (ci_email input)) (mvals (invitations s))"
proof (cases "snd (inv_create input s) = s")
  case False
  let ?A = "list_ex (same_pending (ci_organizationId input) (ci_email input)) (mvals (invitations s))"
  have "\<not> ?A" using False by (cases ?A) (simp_all add: inv_create_def)
  moreover have "invitations (snd (inv_create input s)) = mset_at (ci_id input) (new_invitation input) (invitations s)"
    using False unfolding inv_create_def
    by (auto simp: Let_def put_invitation_def new_invitation_def split: option.splits if_split_asm)
  ultimately show ?thesis by (rule created[rotated])
qed (rule refused)

lemma inv_step_wf:
  assumes wf: "inv_wf s"
  shows "inv_wf (inv_exec c s)"
proof (cases "\<exists>input. c = ICreate input")
  case True
  then obtain input where c: "c = ICreate input" by blast
  show ?thesis
  proof (cases rule: inv_create_cases[of input s])
    case refused
    then show ?thesis using wf c by simp
  next
    case created
    have k: "keyed i_id (invitations s)" using wf by (simp add: inv_wf_def)
    have none: "i_status a \<noteq> IPending \<or> i_organizationId a \<noteq> ci_organizationId input \<or> i_email a \<noteq> ci_email input"
      if "mget (invitations s) j = Some a" for j a
      using created(2) mget_in_mvals[OF that] by (auto simp: list_ex_iff same_pending_def)
    have new: "i_organizationId (new_invitation input) = ci_organizationId input" "i_email (new_invitation input) = ci_email input" "i_id (new_invitation input) = ci_id input"
      by (simp_all add: new_invitation_def)
    show ?thesis unfolding inv_wf_def c inv_exec.simps created(1)
    proof (intro conjI allI impI)
      show "keyed i_id (mset_at (ci_id input) (new_invitation input) (invitations s))" by (rule keyed_update[OF k new(3)])
      fix j l a b assume p: "mget (mset_at (ci_id input) (new_invitation input) (invitations s)) j = Some a"
        "mget (mset_at (ci_id input) (new_invitation input) (invitations s)) l = Some b" "i_status a = IPending" "i_status b = IPending"
        "i_organizationId a = i_organizationId b" "i_email a = i_email b"
      show "j = l"
      proof (cases "j = ci_id input \<or> l = ci_id input")
        case True
        then show ?thesis using p none[of j a] none[of l b] new by (auto split: if_splits)
      next
        case False
        then show ?thesis using p wf unfolding inv_wf_def by simp
      qed
    qed
  qed
next
  case False
  then have e: "edits_rows s (inv_exec c s)" using inv_step_edits by blast
  have was: "\<exists>a. mget (invitations s) j = Some a \<and> i_status a = IPending \<and> i_organizationId a = i_organizationId b \<and> i_email a = i_email b"
    if "mget (invitations (inv_exec c s)) j = Some b" "i_status b = IPending" for j b
  proof -
    have "rel_option edit_of (mget (invitations s) j) (Some b)" using e that(1) unfolding edits_rows_def by metis
    then show ?thesis using that(2) by (cases "mget (invitations s) j") (auto simp: edit_of_def)
  qed
  show ?thesis unfolding inv_wf_def
  proof (intro conjI allI impI)
    show "keyed i_id (invitations (inv_exec c s))" using e wf by (simp add: edits_rows_def inv_wf_def)
    fix j l a b assume "mget (invitations (inv_exec c s)) j = Some a" "mget (invitations (inv_exec c s)) l = Some b"
      "i_status a = IPending" "i_status b = IPending" "i_organizationId a = i_organizationId b" "i_email a = i_email b"
    then show "j = l" using was[of j a] was[of l b] wf unfolding inv_wf_def by metis
  qed
qed

lemma inv_run_wf: "inv_wf s \<Longrightarrow> inv_wf (fold inv_exec cmds s)"
  by (induction cmds arbitrary: s) (simp_all add: inv_step_wf)

text \<open>A settled invitation stays as it is.\<close>

lemma inv_step_settled:
  assumes "mget (invitations s) k = Some a" "i_status a \<noteq> IPending" "\<not> creates k c"
  shows "\<exists>b. mget (invitations (inv_exec c s)) k = Some b \<and> i_status b = i_status a \<and> i_acceptedBy b = i_acceptedBy a"
proof (cases "\<exists>input. c = ICreate input")
  case True
  then obtain input where c: "c = ICreate input" by blast
  then show ?thesis using assms by (cases rule: inv_create_cases[of input s]) auto
next
  case False
  then have "rel_option edit_of (mget (invitations s) k) (mget (invitations (inv_exec c s)) k)"
    using inv_step_edits unfolding edits_rows_def by blast
  then show ?thesis using assms(1,2) by (cases "mget (invitations (inv_exec c s)) k") (auto simp: edit_of_def)
qed

lemma inv_run_settled:
  "mget (invitations s) k = Some a \<Longrightarrow> i_status a \<noteq> IPending \<Longrightarrow> list_all (\<lambda>c. \<not> creates k c) cmds \<Longrightarrow>
    \<exists>b. mget (invitations (fold inv_exec cmds s)) k = Some b \<and> i_status b = i_status a \<and> i_acceptedBy b = i_acceptedBy a"
proof (induction cmds arbitrary: s a)
  case (Cons c cmds)
  then obtain b where "mget (invitations (inv_exec c s)) k = Some b" "i_status b = i_status a" "i_acceptedBy b = i_acceptedBy a"
    using inv_step_settled[of s k a c] by auto
  then show ?case using Cons.IH[of "inv_exec c s" b] Cons.prems by simp
qed simp

lemma accept_iff:
  "fst (inv_markAccepted h who now s) = Some j \<longleftrightarrow>
    (\<exists>k i. id_of_token s h = Some k \<and> mget (invitations s) k = Some i \<and> isInvitationUsable i now \<and>
      j = inv_clone s (i \<lparr> i_status := IAccepted, i_acceptedAt := Some now, i_acceptedBy := Some who \<rparr>))"
  by (auto simp: inv_markAccepted_def isInvitationUsable_def Let_def split: option.splits)

lemma accept_store:
  assumes "inv_wf s" "fst (inv_markAccepted h who now s) = Some j"
  obtains i where "mget (invitations (snd (inv_markAccepted h who now s))) (i_id j) = Some i" "i_status i = IAccepted" "i_acceptedBy i = Some who"
proof -
  obtain k i where k: "id_of_token s h = Some k" "mget (invitations s) k = Some i" "isInvitationUsable i now"
    "j = inv_clone s (i \<lparr> i_status := IAccepted, i_acceptedAt := Some now, i_acceptedBy := Some who \<rparr>)"
    using assms(2) unfolding accept_iff by blast
  have "i_id j = k" using k(4) keyed_get[OF _ k(2), of i_id] assms(1) by (simp add: inv_wf_def inv_clone_def)
  then show ?thesis using k that by (simp add: inv_markAccepted_def isInvitationUsable_def Let_def)
qed

section \<open>Properties\<close>

text \<open>
  After any sequence of operations an e-mail has at most one pending invitation per organization.
\<close>

theorem one_pending_invitation:
  assumes "invitations s = []"
    and "mget (invitations (fold inv_exec cmds s)) j = Some a" "mget (invitations (fold inv_exec cmds s)) k = Some b"
    and "i_status a = IPending" "i_status b = IPending" "i_organizationId a = i_organizationId b" "i_email a = i_email b"
  shows "j = k"
proof -
  have "inv_wf s" using assms(1) by (simp add: inv_wf_def)
  from inv_run_wf[OF this, of cmds] show ?thesis using assms(2-7) unfolding inv_wf_def by blast
qed

text \<open>
  An invitation is accepted at most once.  After one acceptance succeeded, whatever operations follow that
  do not create an invitation under its id, it stays accepted by the same person and nobody accepts it again.
\<close>

theorem accepted_at_most_once:
  assumes "inv_wf s" "fst (inv_markAccepted h who now s) = Some j" "list_all (\<lambda>c. \<not> creates (i_id j) c) cmds"
    and "s' = fold inv_exec cmds (snd (inv_markAccepted h who now s))"
  shows "map_option (\<lambda>i. (i_status i, i_acceptedBy i)) (mget (invitations s') (i_id j)) = Some (IAccepted, Some who) \<and>
    map_option i_id (fst (inv_markAccepted h' who' now' s')) \<noteq> Some (i_id j)"
proof -
  let ?s1 = "snd (inv_markAccepted h who now s)"
  obtain i where i: "mget (invitations ?s1) (i_id j) = Some i" "i_status i = IAccepted" "i_acceptedBy i = Some who"
    by (rule accept_store[OF assms(1,2)])
  then obtain b where b: "mget (invitations s') (i_id j) = Some b" "i_status b = IAccepted" "i_acceptedBy b = Some who"
    using inv_run_settled[OF i(1) _ assms(3)] unfolding assms(4) by auto
  have "inv_wf ?s1" using inv_step_wf[OF assms(1), of "IAccept h who now"] by simp
  then have wf: "inv_wf s'" unfolding assms(4) by (rule inv_run_wf)
  have "i_id j' \<noteq> i_id j" if acc: "fst (inv_markAccepted h' who' now' s') = Some j'" for j'
  proof -
    obtain k x where "mget (invitations s') k = Some x" "isInvitationUsable x now'" "i_id j' = i_id x"
      using acc unfolding accept_iff by (auto simp: inv_clone_def)
    moreover have "i_id x = k" using calculation(1) wf keyed_get by (auto simp: inv_wf_def)
    ultimately show ?thesis using b(1,2) by (auto simp: isInvitationUsable_def)
  qed
  then show ?thesis using b by auto
qed

text \<open>
  C38: \<open>markAccepted\<close> succeeds exactly when the token belongs to an invitation that is pending and has not
  expired, and rotating a token retires the old link: afterwards no other token finds the invitation.
\<close>

theorem token_controls_acceptance:
  "((fst (inv_markAccepted h who now s) \<noteq> None) = (\<exists>i. invitation_of_token s h = Some i \<and> isInvitationUsable i now)) \<and>
   (keyed i_id (invitations s) \<and> distinct (map fst (invitationTokenHashes s)) \<and> fst (inv_rotateToken k new e s) \<noteq> None \<and> h \<noteq> new \<longrightarrow>
     map_option i_id (invitation_of_token (snd (inv_rotateToken k new e s)) h) \<noteq> Some k)"
proof (intro conjI impI)
  show "(fst (inv_markAccepted h who now s) \<noteq> None) = (\<exists>i. invitation_of_token s h = Some i \<and> isInvitationUsable i now)"
  proof -
    have "(fst (inv_markAccepted h who now s) \<noteq> None) = (\<exists>j. fst (inv_markAccepted h who now s) = Some j)" by auto
    then show ?thesis unfolding accept_iff by (auto simp: invitation_of_token_def bind_eq_Some_conv)
  qed
  assume a: "keyed i_id (invitations s) \<and> distinct (map fst (invitationTokenHashes s)) \<and> fst (inv_rotateToken k new e s) \<noteq> None \<and> h \<noteq> new"
  let ?s' = "snd (inv_rotateToken k new e s)"
  have hashes: "invitationTokenHashes ?s' = mset_at k new (invitationTokenHashes s)"
    using a by (auto simp: inv_rotateToken_def on_pending_def split: option.splits if_splits)
  have keyed: "keyed i_id (invitations ?s')"
    using inv_step_edits[of "IRotate k new e" s] a by (simp add: edits_rows_def)
  have "id_of_token ?s' h \<noteq> Some k"
  proof
    assume "id_of_token ?s' h = Some k"
    then have "(k, h) \<in> set (mset_at k new (invitationTokenHashes s))"
      unfolding id_of_token_def hashes by (auto simp: find_Some_iff in_set_conv_nth)
    moreover have "distinct (map fst (mset_at k new (invitationTokenHashes s)))" using a by (simp add: distinct_update)
    ultimately have "mget (mset_at k new (invitationTokenHashes s)) k = Some h" by (rule map_of_is_SomeI[rotated])
    then show False using a by simp
  qed
  then show "map_option i_id (invitation_of_token ?s' h) \<noteq> Some k"
    using keyed by (auto simp: invitation_of_token_def bind_eq_Some_conv dest: keyed_get)
qed

definition demo_invite :: create_invitation where
  "demo_invite = \<lparr> ci_id = ''i1'', ci_organizationId = ''o1'', ci_email = ''a@b.c'', ci_roleIds = [''r1''], ci_teamIds = None,
     ci_tokenHash = ''h1'', ci_invitedBy = \<lparr> provider = ''p'', subject = ''boss'' \<rparr>, ci_createdAt = 0, ci_expiresAt = 100, ci_idempotency = None \<rparr>"

definition demo_inv_base :: store where
  "demo_inv_base = empty_store \<lparr> organizations := [(''o1'', \<lparr> o_id = ''o1'', o_slug = ''acme'', o_name = ''Acme'', o_createdAt = 0,
     o_status = OActive, o_version = 1, o_statusChange = None \<rparr>)] \<rparr>"

definition demo_inv_store :: store where
  "demo_inv_store = inv_exec (ICreate demo_invite) demo_inv_base"

lemma demo_inv_wf: "inv_wf demo_inv_store"
proof -
  have "inv_wf demo_inv_base" by (simp add: inv_wf_def demo_inv_base_def)
  then show ?thesis unfolding demo_inv_store_def by (rule inv_step_wf)
qed

lemma demo_inv_found: "map_option i_status (mget (invitations demo_inv_store) ''i1'') = Some IPending"
  by code_simp

theorem one_pending_invitation_witness:
  "\<exists>a. mget (invitations (fold inv_exec [ICreate demo_invite, ICreate (demo_invite \<lparr> ci_id := ''i2'' \<rparr>)] demo_inv_base)) ''i1'' = Some a \<and>
     ''i1'' = ''i1'' \<and> i_status a = IPending"
proof -
  let ?s = "fold inv_exec [ICreate demo_invite, ICreate (demo_invite \<lparr> ci_id := ''i2'' \<rparr>)] demo_inv_base"
  have none: "invitations demo_inv_base = []" by (simp add: demo_inv_base_def)
  have "map_option i_status (mget (invitations ?s) ''i1'') = Some IPending" by code_simp
  then obtain a where a: "mget (invitations ?s) ''i1'' = Some a" "i_status a = IPending" by auto
  from one_pending_invitation[OF none a(1) a(1) a(2) a(2) refl refl] show ?thesis using a by blast
qed

theorem accepted_at_most_once_witness:
  "let who = \<lparr> provider = ''p'', subject = ''guest'' \<rparr>; s1 = snd (inv_markAccepted ''h1'' who 5 demo_inv_store);
       s2 = fold inv_exec [IRotate ''i1'' ''h2'' 200, IRevoke ''i1'' 6] s1
   in map_option (\<lambda>i. (i_status i, i_acceptedBy i)) (mget (invitations s2) ''i1'') = Some (IAccepted, Some who)"
proof -
  let ?who = "\<lparr> provider = ''p'', subject = ''guest'' \<rparr>"
  have "map_option i_id (fst (inv_markAccepted ''h1'' ?who 5 demo_inv_store)) = Some ''i1''" by code_simp
  then obtain j where j: "fst (inv_markAccepted ''h1'' ?who 5 demo_inv_store) = Some j" "i_id j = ''i1''" by auto
  have "list_all (\<lambda>c. \<not> creates (i_id j) c) [IRotate ''i1'' ''h2'' 200, IRevoke ''i1'' 6]" by simp
  from accepted_at_most_once[OF demo_inv_wf j(1) this refl, of "''h1''" ?who 7] j(2) show ?thesis by (simp add: Let_def)
qed

theorem token_controls_acceptance_witness:
  "map_option i_id (invitation_of_token (snd (inv_rotateToken ''i1'' ''h2'' 200 demo_inv_store)) ''h1'') \<noteq> Some ''i1''"
proof -
  have "keyed i_id (invitations demo_inv_store)" using demo_inv_wf by (simp add: inv_wf_def)
  moreover have "distinct (map fst (invitationTokenHashes demo_inv_store))" by code_simp
  moreover have "fst (inv_rotateToken ''i1'' ''h2'' 200 demo_inv_store) \<noteq> None"
    using demo_inv_found by (auto simp: inv_rotateToken_def on_pending_def split: option.splits)
  moreover have "''h1'' \<noteq> ''h2''" by simp
  ultimately show ?thesis
    using token_controls_acceptance[of "''h1''" "\<lparr> provider = [], subject = [] \<rparr>" 0 demo_inv_store "''i1''" "''h2''" 200] by blast
qed

end
