(* ===== verification/Outbox.thy ===== *)
theory Outbox
  imports State
begin

text \<open>
  The transactional outbox: \<open>packages/core/src/outbox/repository.ts\<close>, \<open>outboxRepository\<close> of
  \<open>storage/memory.ts\<close>.

  An event is pending, delivered or dead; a claim leases pending events to a worker.  The clock of a call is
  its argument \<open>now\<close>.  The lemmas show that sequence numbers identify events, that a claim returns due
  events in their order, and that a lease keeps other workers away.
\<close>

section \<open>Validation\<close>

definition MAX_OUTBOX_TYPE_LENGTH :: nat where
  "MAX_OUTBOX_TYPE_LENGTH = 120"

definition MAX_OUTBOX_PAYLOAD_BYTES :: nat where
  "MAX_OUTBOX_PAYLOAD_BYTES = 16 * 1024"

definition MAX_OUTBOX_CLAIM :: int where
  "MAX_OUTBOX_CLAIM = 100"

definition MAX_OUTBOX_LEASE_SECONDS :: int where
  "MAX_OUTBOX_LEASE_SECONDS = 3600"

record enqueue_outbox =
  eo_id :: string
  eo_type :: string
  eo_organizationId :: "string option"
  eo_payload :: "json option"

definition outErr :: "string \<Rightarrow> uerror" where
  "outErr c = UError EOutbox c"

definition assertValidOutboxEvent :: "enqueue_outbox \<Rightarrow> uerror + unit" where
  "assertValidOutboxEvent input =
     (if trim (eo_id input) = [] \<or> length (eo_id input) > 200 then Inl (outErr ''outbox_event_invalid'')
      else if trim (eo_type input) = [] \<or> length (eo_type input) > MAX_OUTBOX_TYPE_LENGTH
      then Inl (outErr ''outbox_event_invalid'')
      else case eo_payload input of
        None \<Rightarrow> Inr ()
      | Some (JObj kvs) \<Rightarrow>
          if utf8_length (stringify (JObj kvs)) > MAX_OUTBOX_PAYLOAD_BYTES
          then Inl (outErr ''outbox_payload_invalid'') else Inr ()
      | Some _ \<Rightarrow> Inl (outErr ''outbox_payload_invalid''))"

record claim_options =
  co_limit :: "int option"
  co_leaseSeconds :: "int option"
  co_type :: "string option"
  co_organizationId :: "string option"

text \<open>The limit and the lease.\<close>

definition resolveClaimOptions :: "claim_options \<Rightarrow> uerror + int \<times> int" where
  "resolveClaimOptions options =
     (let limit = (case co_limit options of None \<Rightarrow> 20 | Some n \<Rightarrow> n);
          lease = (case co_leaseSeconds options of None \<Rightarrow> 60 | Some n \<Rightarrow> n) in
      if limit < 1 \<or> limit > MAX_OUTBOX_CLAIM then Inl (outErr ''outbox_claim_invalid'')
      else if lease < 1 \<or> lease > MAX_OUTBOX_LEASE_SECONDS then Inl (outErr ''outbox_claim_invalid'')
      else Inr (limit, lease))"

section \<open>Operations\<close>

record outbox_filter =
  of_status :: "outbox_status option"
  of_organizationId :: "string option"
  of_type :: "string option"

definition outboxMatches :: "outbox_event \<Rightarrow> outbox_filter \<Rightarrow> bool" where
  "outboxMatches event f \<longleftrightarrow>
     opt_match (\<lambda>st. ob_status event = st) (of_status f) \<and>
     opt_match (\<lambda>og. ob_organizationId event = Some og) (of_organizationId f) \<and>
     opt_match (\<lambda>ty. ob_type event = ty) (of_type f)"

definition ob_enqueue :: "timestamp \<Rightarrow> enqueue_outbox \<Rightarrow> outbox_event op" where
  "ob_enqueue now input s =
     guard (assertValidOutboxEvent input) (\<lambda>_ s.
       if mhas (outboxEvents s) (eo_id input) then fails (outErr ''outbox_event_exists'') s
       else
         let event = \<lparr> ob_id = eo_id input, ob_seq = outboxSeq s + 1, ob_organizationId = eo_organizationId input,
                       ob_type = eo_type input, ob_payload = eo_payload input, ob_status = OBPending,
                       ob_attempts = 0, ob_createdAt = now, ob_availableAt = now, ob_deliveredAt = None, ob_lastError = None \<rparr>
         in returns event (s \<lparr> outboxSeq := outboxSeq s + 1, outboxEvents := mset_at (ob_id event) event (outboxEvents s) \<rparr>)) s"

text \<open>What a claim may take, in the order of \<open>seq\<close>.\<close>

definition claimable :: "store \<Rightarrow> timestamp \<Rightarrow> claim_options \<Rightarrow> outbox_event \<Rightarrow> bool" where
  "claimable s now options event \<longleftrightarrow>
     ob_status event = OBPending \<and> ob_availableAt event \<le> now \<and>
     (case mget (outboxLeases s) (ob_id event) of None \<Rightarrow> 0 | Some e \<Rightarrow> e) \<le> now \<and>
     outboxMatches event \<lparr> of_status = None, of_organizationId = co_organizationId options, of_type = co_type options \<rparr>"

definition due_events :: "store \<Rightarrow> timestamp \<Rightarrow> claim_options \<Rightarrow> nat \<Rightarrow> outbox_event list" where
  "due_events s now options n =
     take n (sort_by (\<lambda>a b. ob_seq a < ob_seq b) (filter (claimable s now options) (mvals (outboxEvents s))))"

definition claimed :: "outbox_event \<Rightarrow> outbox_event" where
  "claimed event = event \<lparr> ob_attempts := ob_attempts event + 1 \<rparr>"

definition lease_event :: "timestamp \<Rightarrow> outbox_event \<Rightarrow> store \<Rightarrow> store" where
  "lease_event e event s =
     s \<lparr> outboxEvents := mset_at (ob_id event) (claimed event) (outboxEvents s),
         outboxLeases := mset_at (ob_id event) e (outboxLeases s) \<rparr>"

definition ob_claim :: "timestamp \<Rightarrow> claim_options \<Rightarrow> outbox_event list op" where
  "ob_claim now options s =
     guard (resolveClaimOptions options) (\<lambda>(limit, leaseSeconds) s.
       let due = due_events s now options (nat limit)
       in returns (map claimed due) (fold (lease_event (now + leaseSeconds * 1000)) due s)) s"

definition complete_one :: "timestamp \<Rightarrow> string \<Rightarrow> nat \<times> store \<Rightarrow> nat \<times> store" where
  "complete_one now i ns =
     (case ns of (n, s) \<Rightarrow>
       case mget (outboxEvents s) i of
         None \<Rightarrow> (n, s)
       | Some event \<Rightarrow>
           if ob_status event \<noteq> OBPending then (n, s)
           else (n + 1, s \<lparr> outboxEvents := mset_at i (event \<lparr> ob_status := OBDelivered, ob_deliveredAt := Some now \<rparr>) (outboxEvents s),
                            outboxLeases := mdel i (outboxLeases s) \<rparr>))"

definition ob_complete :: "timestamp \<Rightarrow> string list \<Rightarrow> store \<Rightarrow> nat \<times> store" where
  "ob_complete now ids s = fold (complete_one now) (uniq ids) (0, s)"

definition ob_fail :: "string \<Rightarrow> string \<Rightarrow> timestamp \<Rightarrow> int \<Rightarrow> store \<Rightarrow> outbox_status option \<times> store" where
  "ob_fail i err retryAt maxAttempts s =
     (case mget (outboxEvents s) i of
        None \<Rightarrow> (None, s)
      | Some event \<Rightarrow>
          if ob_status event \<noteq> OBPending then (None, s)
          else
            let st = (if ob_attempts event \<ge> maxAttempts then OBDead else OBPending)
            in (Some st, s \<lparr> outboxEvents := mset_at i (event \<lparr> ob_status := st, ob_availableAt := retryAt, ob_lastError := Some err \<rparr>) (outboxEvents s),
                             outboxLeases := mdel i (outboxLeases s) \<rparr>))"

definition ob_requeue :: "timestamp \<Rightarrow> string \<Rightarrow> store \<Rightarrow> bool \<times> store" where
  "ob_requeue now i s =
     (case mget (outboxEvents s) i of
        None \<Rightarrow> (False, s)
      | Some event \<Rightarrow>
          if ob_status event \<noteq> OBDead then (False, s)
          else (True, s \<lparr> outboxEvents := mset_at i (event \<lparr> ob_status := OBPending, ob_attempts := 0,
                            ob_availableAt := now, ob_lastError := None \<rparr>) (outboxEvents s) \<rparr>))"

definition ob_findById :: "store \<Rightarrow> string \<Rightarrow> outbox_event option" where
  "ob_findById s i = mget (outboxEvents s) i"

definition ob_search :: "store \<Rightarrow> outbox_filter \<Rightarrow> int option \<Rightarrow> int option \<Rightarrow> outbox_event list" where
  "ob_search s f limit afterSeq =
     take (clamp_limit 50 200 limit)
       (sort_by (\<lambda>a b. ob_seq a < ob_seq b)
         (filter (\<lambda>e. outboxMatches e f \<and> ob_seq e > (case afterSeq of None \<Rightarrow> 0 | Some n \<Rightarrow> n)) (mvals (outboxEvents s))))"

definition ob_count :: "store \<Rightarrow> outbox_filter \<Rightarrow> nat" where
  "ob_count s f = length (filter (\<lambda>e. outboxMatches e f) (mvals (outboxEvents s)))"

definition delivered_before :: "timestamp \<Rightarrow> outbox_event \<Rightarrow> bool" where
  "delivered_before before event \<longleftrightarrow>
     ob_status event = OBDelivered \<and> (case ob_deliveredAt event of None \<Rightarrow> False | Some d \<Rightarrow> d < before)"

definition prune_one :: "timestamp \<Rightarrow> outbox_event \<Rightarrow> nat \<times> store \<Rightarrow> nat \<times> store" where
  "prune_one before event ns =
     (case ns of (n, s) \<Rightarrow>
       if delivered_before before event
       then (n + 1, s \<lparr> outboxEvents := mdel (ob_id event) (outboxEvents s) \<rparr>) else (n, s))"

definition ob_pruneDelivered :: "timestamp \<Rightarrow> store \<Rightarrow> nat \<times> store" where
  "ob_pruneDelivered before s =
     fold (prune_one before) (mvals (outboxEvents s)) (0, s)"

section \<open>Runs\<close>

datatype ob_cmd = ObEnqueue timestamp enqueue_outbox | ObClaim timestamp claim_options
  | ObComplete timestamp "string list" | ObFail string string timestamp int
  | ObRequeue timestamp string | ObPrune timestamp

fun ob_exec :: "ob_cmd \<Rightarrow> store \<Rightarrow> store" where
  "ob_exec (ObEnqueue now input) s = snd (ob_enqueue now input s)"
| "ob_exec (ObClaim now options) s = snd (ob_claim now options s)"
| "ob_exec (ObComplete now ids) s = snd (ob_complete now ids s)"
| "ob_exec (ObFail i err retryAt maxAttempts) s = snd (ob_fail i err retryAt maxAttempts s)"
| "ob_exec (ObRequeue now i) s = snd (ob_requeue now i s)"
| "ob_exec (ObPrune before) s = snd (ob_pruneDelivered before s)"

text \<open>Events are stored under their id, and a sequence number is given once.\<close>

definition outbox_wf :: "store \<Rightarrow> bool" where
  "outbox_wf s \<longleftrightarrow> keyed ob_id (outboxEvents s) \<and>
     (\<forall>i e. mget (outboxEvents s) i = Some e \<longrightarrow> ob_seq e \<le> outboxSeq s) \<and>
     (\<forall>i j e f. mget (outboxEvents s) i = Some e \<longrightarrow> mget (outboxEvents s) j = Some f \<longrightarrow> ob_seq e = ob_seq f \<longrightarrow> i = j)"

section \<open>What a step does to an event\<close>

lemma fold_lease_get:
  "(\<exists>d \<in> set due. ob_id d = i \<and> mget (outboxEvents (fold (lease_event x) due s)) i = Some (claimed d) \<and>
      mget (outboxLeases (fold (lease_event x) due s)) i = Some x) \<or>
   (i \<notin> ob_id ` set due \<and> mget (outboxEvents (fold (lease_event x) due s)) i = mget (outboxEvents s) i \<and>
      mget (outboxLeases (fold (lease_event x) due s)) i = mget (outboxLeases s) i)"
proof (induction due rule: rev_induct)
  case (snoc d due)
  then show ?case by (cases "ob_id d = i") (auto simp: lease_event_def[of x d])
qed simp

lemma fold_lease_other [simp]:
  "outboxSeq (fold (lease_event x) due s) = outboxSeq s"
  by (induction due arbitrary: s) (simp_all add: lease_event_def)

lemma fold_lease_keyed: "keyed ob_id (outboxEvents s) \<Longrightarrow> keyed ob_id (outboxEvents (fold (lease_event x) due s))"
  by (induction due arbitrary: s) (simp_all add: lease_event_def keyed_update claimed_def)

lemma due_events_sub: "set (due_events s now options n) \<subseteq> {e \<in> set (mvals (outboxEvents s)). claimable s now options e}"
  by (auto simp: due_events_def dest: in_set_takeD)

definition delivered_at :: "timestamp \<Rightarrow> outbox_event \<Rightarrow> outbox_event" where
  "delivered_at now e = e \<lparr> ob_status := OBDelivered, ob_deliveredAt := Some now \<rparr>"

lemma delivered_at_simps [simp]: "ob_status (delivered_at now e) = OBDelivered" "ob_seq (delivered_at now e) = ob_seq e" "ob_id (delivered_at now e) = ob_id e"
  by (simp_all add: delivered_at_def)

lemma complete_one_get:
  assumes "mget (outboxEvents (snd (complete_one now k ns))) i = Some e'"
  shows "(mget (outboxEvents (snd ns)) i = Some e' \<and> mget (outboxLeases (snd (complete_one now k ns))) i = mget (outboxLeases (snd ns)) i) \<or>
    (\<exists>e. mget (outboxEvents (snd ns)) i = Some e \<and> ob_status e = OBPending \<and> e' = delivered_at now e)"
proof (cases "complete_one now k ns = ns")
  case False
  then obtain e where "mget (outboxEvents (snd ns)) k = Some e" "ob_status e = OBPending"
    "outboxEvents (snd (complete_one now k ns)) = mset_at k (delivered_at now e) (outboxEvents (snd ns))"
    "outboxLeases (snd (complete_one now k ns)) = mdel k (outboxLeases (snd ns))"
    by (cases ns) (auto simp: complete_one_def delivered_at_def split: option.splits if_splits)
  then show ?thesis using assms by (cases "i = k") simp_all
qed (use assms in simp)

lemma complete_one_seq [simp]: "outboxSeq (snd (complete_one now k ns)) = outboxSeq (snd ns)"
  by (cases ns) (auto simp: complete_one_def split: option.splits)

lemma prune_fold:
  "outboxSeq (snd (fold (prune_one before) es ns)) = outboxSeq (snd ns) \<and>
   outboxLeases (snd (fold (prune_one before) es ns)) = outboxLeases (snd ns) \<and>
    (keyed ob_id (outboxEvents (snd ns)) \<longrightarrow> keyed ob_id (outboxEvents (snd (fold (prune_one before) es ns)))) \<and>
    (mget (outboxEvents (snd (fold (prune_one before) es ns))) i = Some e \<longrightarrow> mget (outboxEvents (snd ns)) i = Some e)"
  by (induction es rule: rev_induct) (auto simp: prune_one_def keyed_delete split: prod.splits if_splits)

lemma complete_one_keyed: "keyed ob_id (outboxEvents (snd ns)) \<Longrightarrow> keyed ob_id (outboxEvents (snd (complete_one now k ns)))"
  by (cases ns) (auto simp: complete_one_def intro!: keyed_update dest: keyed_get split: option.splits)

lemma complete_fold_keyed: "keyed ob_id (outboxEvents s) \<Longrightarrow> keyed ob_id (outboxEvents (snd (fold (complete_one now) ks (n, s))))"
  by (induction ks rule: rev_induct) (simp_all add: complete_one_keyed)

lemma complete_fold_seq [simp]: "outboxSeq (snd (fold (complete_one now) ks (n, s))) = outboxSeq s"
  by (induction ks rule: rev_induct) simp_all

lemma complete_fold_get:
  assumes "mget (outboxEvents (snd (fold (complete_one now) ks (n, s)))) i = Some e'"
  shows "(mget (outboxEvents s) i = Some e' \<and> mget (outboxLeases (snd (fold (complete_one now) ks (n, s)))) i = mget (outboxLeases s) i) \<or>
    (\<exists>e. mget (outboxEvents s) i = Some e \<and> ob_status e = OBPending \<and> e' = delivered_at now e)"
  using assms
proof (induction ks arbitrary: e' rule: rev_induct)
  case (snoc k ks)
  let ?m = "fold (complete_one now) ks (n, s)"
  have "mget (outboxEvents (snd (complete_one now k ?m))) i = Some e'" using snoc.prems by simp
  from complete_one_get[OF this] show ?case
  proof (elim disjE exE conjE)
    fix e assume "mget (outboxEvents (snd ?m)) i = Some e" "ob_status e = OBPending" "e' = delivered_at now e"
    then show ?thesis using snoc.IH[of e] by auto
  qed (use snoc.IH[of e'] in simp)
qed simp

text \<open>Every way an event can be in the store after a command.\<close>

lemma ob_step_event:
  assumes wf: "outbox_wf s" and e': "mget (outboxEvents (ob_exec c s)) i = Some e'"
  obtains (same) "mget (outboxEvents s) i = Some e'" "mget (outboxLeases (ob_exec c s)) i = mget (outboxLeases s) i"
  | (enqueued) now input where "c = ObEnqueue now input" "i = eo_id input" "ob_seq e' = outboxSeq s + 1" "outboxSeq (ob_exec c s) = outboxSeq s + 1"
      "mget (outboxEvents s) i = None" "ob_status e' = OBPending"
  | (taken) now options limit lease e where "c = ObClaim now options" "resolveClaimOptions options = Inr (limit, lease)"
      "mget (outboxEvents s) i = Some e" "e \<in> set (due_events s now options (nat limit))" "e' = claimed e"
      "mget (outboxLeases (ob_exec c s)) i = Some (now + lease * 1000)"
  | (delivered) now ids e where "c = ObComplete now ids" "mget (outboxEvents s) i = Some e" "ob_status e = OBPending" "e' = delivered_at now e"
  | (failed) err retryAt maxAttempts e where "c = ObFail i err retryAt maxAttempts" "mget (outboxEvents s) i = Some e" "ob_status e = OBPending"
      "ob_status e' \<noteq> OBDelivered" "ob_seq e' = ob_seq e"
  | (requeued) now e where "c = ObRequeue now i" "mget (outboxEvents s) i = Some e" "ob_status e = OBDead" "ob_seq e' = ob_seq e" "ob_status e' = OBPending"
proof (cases c)
  case (ObEnqueue now input)
  then show ?thesis using e' same enqueued[of now input]
    by (cases "assertValidOutboxEvent input") (auto simp: ob_enqueue_def mhas_def Let_def split: if_splits)
next
  case (ObClaim now options)
  have k: "keyed ob_id (outboxEvents s)" using wf by (simp add: outbox_wf_def)
  show ?thesis
  proof (cases "resolveClaimOptions options")
    case (Inr r)
    obtain limit lease where r: "r = (limit, lease)" by fastforce
    have x: "ob_exec c s = fold (lease_event (now + lease * 1000)) (due_events s now options (nat limit)) s"
      by (simp add: ObClaim ob_claim_def Inr r Let_def)
    have "mget (outboxEvents s) i = Some d" if "d \<in> set (due_events s now options (nat limit))" "ob_id d = i" for d
      using that due_events_sub keyed_vals[OF k] by fastforce
    then show ?thesis using fold_lease_get[of "due_events s now options (nat limit)" i "now + lease * 1000" s] e'
      unfolding x using same taken[OF ObClaim Inr[unfolded r]] unfolding x by auto
  qed (use e' same ObClaim in \<open>simp add: ob_claim_def\<close>)
next
  case (ObComplete now ids)
  have x: "ob_exec c s = snd (fold (complete_one now) (uniq ids) (0, s))" by (simp add: ObComplete ob_complete_def)
  show ?thesis using complete_fold_get[of now "uniq ids" 0 s i e'] e' same delivered[OF ObComplete] unfolding x by blast
next
  case (ObFail j err retryAt maxAttempts)
  show ?thesis
  proof (cases "j = i")
    case True
    then show ?thesis using e' same failed[of err retryAt maxAttempts] ObFail
      by (auto simp: ob_fail_def Let_def split: option.splits if_splits)
  next
    case False
    then show ?thesis using e' by (intro same) (auto simp: ObFail ob_fail_def Let_def split: option.splits if_splits)
  qed
next
  case (ObRequeue now j)
  then show ?thesis using e' same requeued[of now]
    by (auto simp: ob_requeue_def split: option.splits if_splits)
next
  case (ObPrune before)
  show ?thesis using e' same
      prune_fold[of before "mvals (outboxEvents s)" "(0, s)" i e'] unfolding ObPrune ob_exec.simps ob_pruneDelivered_def by simp
qed

lemma ob_step_keyed:
  assumes "keyed ob_id (outboxEvents s)"
  shows "keyed ob_id (outboxEvents (ob_exec c s))"
proof (cases c)
  case (ObEnqueue now input)
  then show ?thesis using assms
    by (cases "assertValidOutboxEvent input") (auto simp: ob_enqueue_def Let_def intro!: keyed_update)
next
  case (ObClaim now options)
  then show ?thesis using assms
    by (cases "resolveClaimOptions options") (auto simp: ob_claim_def Let_def fold_lease_keyed)
next
  case (ObComplete now ids)
  then show ?thesis using assms by (simp add: ob_complete_def complete_fold_keyed)
next
  case (ObFail i err retryAt maxAttempts)
  then show ?thesis using assms
    by (auto simp: ob_fail_def Let_def intro!: keyed_update dest: keyed_get split: option.splits)
next
  case (ObRequeue now i)
  then show ?thesis using assms by (auto simp: ob_requeue_def intro!: keyed_update dest: keyed_get split: option.splits)
next
  case (ObPrune before)
  then show ?thesis using assms prune_fold[of before _ "(0, s)"] by (simp add: ob_pruneDelivered_def)
qed

lemma ob_step_seq: "outboxSeq s \<le> outboxSeq (ob_exec c s)"
proof (cases c)
  case (ObEnqueue now input)
  then show ?thesis by (cases "assertValidOutboxEvent input") (auto simp: ob_enqueue_def Let_def)
next
  case (ObClaim now options)
  then show ?thesis by (cases "resolveClaimOptions options") (auto simp: ob_claim_def Let_def)
qed (auto simp: ob_complete_def ob_fail_def ob_requeue_def ob_pruneDelivered_def prune_fold Let_def split: option.splits)

text \<open>An event keeps its id and its number; only \<open>enqueue\<close> makes a new one, with the next number.\<close>

lemma ob_step_old:
  assumes "outbox_wf s" "mget (outboxEvents (ob_exec c s)) i = Some e'"
  shows "(\<exists>e. mget (outboxEvents s) i = Some e \<and> ob_seq e = ob_seq e') \<or>
    (ob_seq e' = outboxSeq s + 1 \<and> outboxSeq (ob_exec c s) = outboxSeq s + 1 \<and> (\<exists>now input. c = ObEnqueue now input \<and> i = eo_id input))"
  by (cases rule: ob_step_event[OF assms]) (auto simp: claimed_def)

lemma ob_step_wf:
  assumes wf: "outbox_wf s"
  shows "outbox_wf (ob_exec c s)"
  unfolding outbox_wf_def
proof (intro conjI allI impI)
  show "keyed ob_id (outboxEvents (ob_exec c s))" using ob_step_keyed wf by (simp add: outbox_wf_def)
next
  fix i e assume "mget (outboxEvents (ob_exec c s)) i = Some e"
  from ob_step_old[OF wf this] show "ob_seq e \<le> outboxSeq (ob_exec c s)"
    using wf ob_step_seq[of s c] unfolding outbox_wf_def by (metis order.trans order.refl)
next
  fix i j e f assume e: "mget (outboxEvents (ob_exec c s)) i = Some e" and f: "mget (outboxEvents (ob_exec c s)) j = Some f"
    and eq: "ob_seq e = ob_seq f"
  have le: "ob_seq x \<le> outboxSeq s" if "mget (outboxEvents s) k = Some x" for k x using wf that by (auto simp: outbox_wf_def)
  from ob_step_old[OF wf e] ob_step_old[OF wf f] show "i = j"
  proof (elim disjE exE conjE)
    fix x y assume "mget (outboxEvents s) i = Some x" "ob_seq x = ob_seq e" "mget (outboxEvents s) j = Some y" "ob_seq y = ob_seq f"
    then show ?thesis using wf eq unfolding outbox_wf_def by metis
  qed (use le eq in force)+
qed

lemma ob_run_wf: "outbox_wf s \<Longrightarrow> outbox_wf (fold ob_exec cmds s)"
  by (induction cmds arbitrary: s) (simp_all add: ob_step_wf)

section \<open>Leases\<close>

text \<open>
  The event with number \<open>n\<close>, whose id is \<open>i\<close>, is leased until \<open>T\<close> or delivered.
\<close>

definition held :: "string \<Rightarrow> int \<Rightarrow> timestamp \<Rightarrow> store \<Rightarrow> bool" where
  "held i n T s \<longleftrightarrow> n \<le> outboxSeq s \<and>
     (\<forall>j e. mget (outboxEvents s) j = Some e \<longrightarrow> ob_seq e = n \<longrightarrow> j = i \<and>
        (ob_status e = OBDelivered \<or> (ob_status e = OBPending \<and> (\<exists>l. mget (outboxLeases s) i = Some l \<and> T \<le> l))))"

lemma heldD: "held i n T s \<Longrightarrow> mget (outboxEvents s) j = Some e \<Longrightarrow> ob_seq e = n \<Longrightarrow>
  j = i \<and> (ob_status e = OBDelivered \<or> (ob_status e = OBPending \<and> (\<exists>l. mget (outboxLeases s) i = Some l \<and> T \<le> l)))"
  unfolding held_def by blast

text \<open>A command that neither records a failure of that event nor comes from a claim after \<open>T\<close>.\<close>

fun undisturbed :: "string \<Rightarrow> timestamp \<Rightarrow> ob_cmd \<Rightarrow> bool" where
  "undisturbed i T (ObFail j err retryAt maxAttempts) = (j \<noteq> i)"
| "undisturbed i T (ObClaim now options) = (now < T)"
| "undisturbed i T _ = True"

lemma held_not_due:
  assumes "held i n T s" "outbox_wf s" "e \<in> set (due_events s now options k)" "now < T"
  shows "ob_seq e \<noteq> n"
proof
  assume n: "ob_seq e = n"
  have e: "mget (outboxEvents s) (ob_id e) = Some e" "claimable s now options e"
    using assms(2,3) due_events_sub by (fastforce simp: outbox_wf_def keyed_vals)+
  have "ob_id e = i \<and> (ob_status e = OBDelivered \<or> (ob_status e = OBPending \<and> (\<exists>l. mget (outboxLeases s) i = Some l \<and> T \<le> l)))"
    by (rule heldD[OF assms(1) e(1) n])
  then show False using e(2) assms(4) by (auto simp: claimable_def)
qed

lemma held_step:
  assumes held: "held i n T s" and wf: "outbox_wf s" and c: "undisturbed i T c"
  shows "held i n T (ob_exec c s)"
  unfolding held_def
proof (intro conjI allI impI)
  show "n \<le> outboxSeq (ob_exec c s)" using held ob_step_seq[of s c] by (simp add: held_def)
next
  fix j e' assume e': "mget (outboxEvents (ob_exec c s)) j = Some e'" and n: "ob_seq e' = n"
  have old: "j = i \<and> (ob_status e = OBDelivered \<or> (ob_status e = OBPending \<and> (\<exists>l. mget (outboxLeases s) i = Some l \<and> T \<le> l)))"
    if "mget (outboxEvents s) j = Some e" "ob_seq e = n" for e by (rule heldD[OF held that])
  from wf e' have "j = i \<and> (ob_status e' = OBDelivered \<or> (ob_status e' = OBPending \<and> (\<exists>l. mget (outboxLeases (ob_exec c s)) i = Some l \<and> T \<le> l)))"
  proof (cases rule: ob_step_event)
    case same
    then show ?thesis using old[of e'] n by auto
  next
    case (enqueued now input)
    then show ?thesis using held n by (simp add: held_def)
  next
    case (taken now options limit lease e)
    then show ?thesis using held_not_due[OF held wf taken(4)] c n by (simp add: claimed_def)
  next
    case (delivered now ids e)
    then show ?thesis using old[of e] n by auto
  next
    case (failed err retryAt maxAttempts e)
    then show ?thesis using old[of e] n c by auto
  next
    case (requeued now e)
    then show ?thesis using old[of e] n by auto
  qed
  then show "j = i" and "ob_status e' = OBDelivered \<or> (ob_status e' = OBPending \<and> (\<exists>l. mget (outboxLeases (ob_exec c s)) i = Some l \<and> T \<le> l))"
    by simp_all
qed

lemma held_run:
  "held i n T s \<Longrightarrow> outbox_wf s \<Longrightarrow> list_all (undisturbed i T) cmds \<Longrightarrow> held i n T (fold ob_exec cmds s)"
  by (induction cmds arbitrary: s) (simp_all add: held_step ob_step_wf)

lemma claim_holds:
  assumes wf: "outbox_wf s" and r: "resolveClaimOptions options = Inr (limit, lease)"
    and e: "e \<in> set (due_events s now options (nat limit))"
  shows "held (ob_id e) (ob_seq e) (now + lease * 1000) (ob_exec (ObClaim now options) s)"
  unfolding held_def
proof (intro conjI allI impI)
  let ?due = "due_events s now options (nat limit)" and ?s' = "ob_exec (ObClaim now options) s"
  have x: "?s' = fold (lease_event (now + lease * 1000)) ?due s" by (simp add: ob_claim_def r Let_def)
  have in_s: "mget (outboxEvents s) (ob_id e) = Some e" "claimable s now options e"
    using wf e due_events_sub by (fastforce simp: outbox_wf_def keyed_vals)+
  show "ob_seq e \<le> outboxSeq ?s'" using wf in_s(1) ob_step_seq[of s "ObClaim now options"] unfolding outbox_wf_def by (metis order.trans)
  fix j f assume f: "mget (outboxEvents ?s') j = Some f" "ob_seq f = ob_seq e"
  from ob_step_old[OF wf f(1)] f(2) obtain f0 where "mget (outboxEvents s) j = Some f0" "ob_seq f0 = ob_seq e" by auto
  then have j: "j = ob_id e" using wf in_s(1) unfolding outbox_wf_def by metis
  have "j \<in> ob_id ` set ?due" using e j by simp
  then obtain d where d: "d \<in> set ?due" "mget (outboxEvents ?s') j = Some (claimed d)" "mget (outboxLeases ?s') j = Some (now + lease * 1000)"
    using fold_lease_get[of ?due j "now + lease * 1000" s] unfolding x by blast
  have "ob_status d = OBPending" using d(1) due_events_sub by (fastforce simp: claimable_def)
  then show "j = ob_id e" and "ob_status f = OBDelivered \<or> (ob_status f = OBPending \<and>
      (\<exists>l. mget (outboxLeases ?s') (ob_id e) = Some l \<and> now + lease * 1000 \<le> l))"
    using j f(1) d by (simp_all add: claimed_def)
qed

lemma claim_result: "fst (ob_claim now options s) = Inr es \<Longrightarrow>
  \<exists>limit lease. resolveClaimOptions options = Inr (limit, lease) \<and> es = map claimed (due_events s now options (nat limit))"
  by (cases "resolveClaimOptions options") (auto simp: ob_claim_def Let_def)

lemma claim_seqs:
  assumes "fst (ob_claim now options s) = Inr es" "n \<in> ob_seq ` set es"
  obtains k f where "f \<in> set (due_events s now options k)" "ob_seq f = n"
  using claim_result[OF assms(1)] assms(2) by (auto simp: claimed_def)

text \<open>The event with number \<open>n\<close> is delivered, or gone.\<close>

definition finished :: "int \<Rightarrow> store \<Rightarrow> bool" where
  "finished n s \<longleftrightarrow> n \<le> outboxSeq s \<and> (\<forall>j f. mget (outboxEvents s) j = Some f \<longrightarrow> ob_seq f = n \<longrightarrow> ob_status f = OBDelivered)"

lemma finishedD: "finished n s \<Longrightarrow> mget (outboxEvents s) j = Some f \<Longrightarrow> ob_seq f = n \<Longrightarrow> ob_status f = OBDelivered"
  unfolding finished_def by blast

lemma due_in: "outbox_wf s \<Longrightarrow> f \<in> set (due_events s now options k) \<Longrightarrow> mget (outboxEvents s) (ob_id f) = Some f \<and> ob_status f = OBPending"
  using due_events_sub by (fastforce simp: outbox_wf_def keyed_vals claimable_def)

lemma finished_step:
  assumes fin: "finished n s" and wf: "outbox_wf s"
  shows "finished n (ob_exec c s)"
  unfolding finished_def
proof (intro conjI allI impI)
  show "n \<le> outboxSeq (ob_exec c s)" using fin ob_step_seq[of s c] by (simp add: finished_def)
  fix j f assume f: "mget (outboxEvents (ob_exec c s)) j = Some f" and n: "ob_seq f = n"
  from wf f show "ob_status f = OBDelivered"
  proof (cases rule: ob_step_event)
    case (enqueued now input)
    then show ?thesis using fin n by (simp add: finished_def)
  next
    case (taken now options limit lease g)
    then show ?thesis using finishedD[OF fin taken(3)] due_in[OF wf taken(4)] n by (simp add: claimed_def)
  qed (use finishedD[OF fin] n in auto)
qed

lemma finished_run: "finished n s \<Longrightarrow> outbox_wf s \<Longrightarrow> finished n (fold ob_exec cmds s)"
  by (induction cmds arbitrary: s) (simp_all add: finished_step ob_step_wf)

section \<open>Properties\<close>

text \<open>
  C35: a claim is exclusive while its lease holds.  Whatever other workers enqueue, claim, complete, prune or
  requeue in between, and whatever failures of other events they record, a claim made before the lease ends
  never returns an event the first claim returned.
\<close>

theorem outbox_lease_exclusive:
  assumes "outbox_wf s" "fst (ob_claim t options s) = Inr es" "e \<in> set es"
    and "resolveClaimOptions options = Inr (limit, lease)"
    and "list_all (undisturbed (ob_id e) (t + lease * 1000)) cmds"
    and "now < t + lease * 1000" "fst (ob_claim now options' (fold ob_exec cmds (ob_exec (ObClaim t options) s))) = Inr es'"
  shows "ob_seq e \<notin> ob_seq ` set es'"
proof -
  let ?s1 = "ob_exec (ObClaim t options) s"
  obtain d where d: "d \<in> set (due_events s t options (nat limit))" "e = claimed d"
    using claim_result[OF assms(2)] assms(3,4) by auto
  then have "held (ob_id e) (ob_seq e) (t + lease * 1000) ?s1"
    using claim_holds[OF assms(1,4) d(1)] by (simp add: claimed_def)
  from held_run[OF this ob_step_wf[OF assms(1)] assms(5)]
  have held: "held (ob_id e) (ob_seq e) (t + lease * 1000) (fold ob_exec cmds ?s1)" .
  show ?thesis
  proof
    assume "ob_seq e \<in> ob_seq ` set es'"
    from claim_seqs[OF assms(7) this] obtain k f where f: "f \<in> set (due_events (fold ob_exec cmds ?s1) now options' k)" "ob_seq f = ob_seq e" .
    show False using held_not_due[OF held ob_run_wf[OF ob_step_wf[OF assms(1)]] f(1) assms(6)] f(2) by simp
  qed
qed

text \<open>
  Delivery is final.  Once an event is delivered no claim ever returns it again, whatever calls follow.
\<close>

theorem outbox_delivered_final:
  assumes "outbox_wf s" "mget (outboxEvents s) i = Some e" "ob_status e = OBDelivered"
    and "fst (ob_claim now options (fold ob_exec cmds s)) = Inr es"
  shows "ob_seq e \<notin> ob_seq ` set es"
proof -
  have "finished (ob_seq e) s" using assms(1-3) unfolding finished_def outbox_wf_def by (metis option.inject)
  from finished_run[OF this assms(1)] have fin: "finished (ob_seq e) (fold ob_exec cmds s)" .
  show ?thesis
  proof
    assume "ob_seq e \<in> ob_seq ` set es"
    from claim_seqs[OF assms(4) this] obtain k f where f: "f \<in> set (due_events (fold ob_exec cmds s) now options k)" "ob_seq f = ob_seq e" .
    from due_in[OF ob_run_wf[OF assms(1)] f(1)] finishedD[OF fin _ f(2), of "ob_id f"] show False by simp
  qed
qed

text \<open>
  The lease is lost to a late failure report.  A worker whose lease has ended may still record a failure;
  that removes the lease of the worker that holds the event now, and a third one gets it while the second's
  lease should hold.
\<close>

theorem outbox_stale_fail_breaks_lease:
  "let input = \<lparr> eo_id = ''e'', eo_type = ''t'', eo_organizationId = None, eo_payload = None \<rparr>;
       opt = \<lparr> co_limit = None, co_leaseSeconds = Some 60, co_type = None, co_organizationId = None \<rparr>;
       s1 = fold ob_exec [ObEnqueue 0 input, ObClaim 0 opt] empty_store;
       second = ob_claim 60000 opt s1;
       third = ob_claim 60002 opt (snd (ob_fail ''e'' ''slow'' 60001 8 (snd second)))
   in map_sum id (map ob_id) (fst second) = Inr [''e''] \<and> map_sum id (map ob_id) (fst third) = Inr [''e'']"
  by code_simp

definition demo_claim_options :: claim_options where
  "demo_claim_options = \<lparr> co_limit = None, co_leaseSeconds = Some 60, co_type = None, co_organizationId = None \<rparr>"

definition demo_event :: enqueue_outbox where
  "demo_event = \<lparr> eo_id = ''e'', eo_type = ''t'', eo_organizationId = None, eo_payload = None \<rparr>"

definition demo_outbox :: store where
  "demo_outbox = ob_exec (ObEnqueue 0 demo_event) empty_store"

definition demo_sent :: store where
  "demo_sent = fold ob_exec [ObClaim 1 demo_claim_options, ObComplete 2 [''e'']] demo_outbox"

lemma demo_outbox_wf: "outbox_wf demo_outbox" "outbox_wf demo_sent"
proof -
  have "outbox_wf empty_store" by (simp add: outbox_wf_def)
  then show "outbox_wf demo_outbox" unfolding demo_outbox_def by (rule ob_step_wf)
  then show "outbox_wf demo_sent" unfolding demo_sent_def by (rule ob_run_wf)
qed

theorem outbox_lease_exclusive_witness:
  "\<exists>es. fst (ob_claim 30000 demo_claim_options (ob_exec (ObClaim 0 demo_claim_options) demo_outbox)) = Inr es \<and> 1 \<notin> ob_seq ` set es"
proof -
  obtain es e where es: "fst (ob_claim 0 demo_claim_options demo_outbox) = Inr es" "e \<in> set es" "ob_seq e = 1" "ob_id e = ''e''"
  proof -
    have "(case fst (ob_claim 0 demo_claim_options demo_outbox) of Inr [e] \<Rightarrow> ob_seq e = 1 \<and> ob_id e = ''e'' | _ \<Rightarrow> False)" by code_simp
    then show ?thesis using that by (auto split: sum.splits list.splits)
  qed
  have r: "resolveClaimOptions demo_claim_options = Inr (20, 60)" by code_simp
  obtain es' where es': "fst (ob_claim 30000 demo_claim_options (ob_exec (ObClaim 0 demo_claim_options) demo_outbox)) = Inr es'"
    by (simp add: ob_claim_def r Let_def)
  show ?thesis using outbox_lease_exclusive[OF demo_outbox_wf(1) es(1,2) r, of "[]" 30000 demo_claim_options es'] es' es(3) by simp
qed

theorem outbox_delivered_final_witness:
  "\<exists>es. fst (ob_claim 3 demo_claim_options (ob_exec (ObRequeue 3 ''e'') demo_sent)) = Inr es \<and> 1 \<notin> ob_seq ` set es"
proof -
  obtain e where e: "mget (outboxEvents demo_sent) ''e'' = Some e" "ob_status e = OBDelivered" "ob_seq e = 1"
  proof -
    have "(case mget (outboxEvents demo_sent) ''e'' of Some e \<Rightarrow> ob_status e = OBDelivered \<and> ob_seq e = 1 | _ \<Rightarrow> False)" by code_simp
    then show ?thesis using that by (auto split: option.splits)
  qed
  have r: "resolveClaimOptions demo_claim_options = Inr (20, 60)" by code_simp
  obtain es where es: "fst (ob_claim 3 demo_claim_options (ob_exec (ObRequeue 3 ''e'') demo_sent)) = Inr es"
    by (simp add: ob_claim_def r Let_def)
  show ?thesis using outbox_delivered_final[OF demo_outbox_wf(2) e(1,2), of 3 demo_claim_options "[ObRequeue 3 ''e'']" es] es e(3) by simp
qed

end

