(* ===== verification/Delivery.thy ===== *)
theory Delivery
  imports State
begin

text \<open>
  Sending an e-mail with retries: \<open>packages/core/src/invitation/delivery.ts\<close>.

  The provider behind \<open>InvitationSender\<close> and the race against the per-attempt timeout are a parameter:
  what attempt \<open>k\<close> ends in.  Sleeping between attempts has no effect on the result.  The lemmas show that
  an error text that is kept never holds an invitation token, and what a send reports.
\<close>

section \<open>Replacing text\<close>

text \<open>\<open>text.split(v).join(r)\<close> for a non-empty \<open>v\<close>.\<close>

function replace_all :: "string \<Rightarrow> string \<Rightarrow> string \<Rightarrow> string" where
  "replace_all v r [] = []"
| "replace_all v r (c # cs) =
     (if v \<noteq> [] \<and> prefix v (c # cs) then r @ replace_all v r (drop (length v) (c # cs))
      else c # replace_all v r cs)"
  by pat_completeness auto
termination
  by (relation "measure (\<lambda>(v, r, s). length s)") auto

definition REDACTED :: string where
  "REDACTED = ''[redacted]''"

text \<open>\<open>Buffer.from(text, "utf8")\<close>, and its texts.\<close>

definition utf8_bytes :: "string \<Rightarrow> nat list" where
  "utf8_bytes s = concat (map (\<lambda>c. let n = code c in if n < 128 then [n] else [192 + n div 64, 128 + n mod 64]) s)"

definition hex_text :: "nat list \<Rightarrow> string" where
  "hex_text bs = concat (map (\<lambda>b. [digit_char (b div 16), digit_char (b mod 16)]) bs)"

definition upper_hex :: "nat \<Rightarrow> char" where
  "upper_hex n = char_of (if n < 10 then 48 + n else 55 + n)"

text \<open>What \<open>encodeURIComponent\<close> leaves alone: letters, digits and \<open>- _ . ! ~ * ' ( )\<close>.\<close>

definition uri_plain :: "nat \<Rightarrow> bool" where
  "uri_plain n \<longleftrightarrow> (48 \<le> n \<and> n \<le> 57) \<or> (65 \<le> n \<and> n \<le> 90) \<or> (97 \<le> n \<and> n \<le> 122) \<or>
     n \<in> {45, 95, 46, 33, 126, 42, 39, 40, 41}"

definition encodeURIComponent :: "string \<Rightarrow> string" where
  "encodeURIComponent s =
     concat (map (\<lambda>b. if uri_plain b then [char_of b] else [CHR ''%'', upper_hex (b div 16), upper_hex (b mod 16)]) (utf8_bytes s))"

definition b64_char :: "nat \<Rightarrow> char" where
  "b64_char n = char_of (if n < 26 then 65 + n else if n < 52 then 71 + n else if n < 62 then n - 4 else if n = 62 then 43 else 47)"

fun base64_text :: "nat list \<Rightarrow> string" where
  "base64_text [] = []"
| "base64_text [a] = [b64_char (a div 4), b64_char (a mod 4 * 16), CHR ''='', CHR ''='']"
| "base64_text [a, b] = [b64_char (a div 4), b64_char (a mod 4 * 16 + b div 16), b64_char (b mod 16 * 4), CHR ''='']"
| "base64_text (a # b # c # rest) =
     [b64_char (a div 4), b64_char (a mod 4 * 16 + b div 16), b64_char (b mod 16 * 4 + c div 64), b64_char (c mod 64)] @ base64_text rest"

definition unpadded :: "string \<Rightarrow> string" where
  "unpadded s = strip_tail (\<lambda>c. c = CHR ''='') s"

definition base64url_text :: "nat list \<Rightarrow> string" where
  "base64url_text bs =
     map (\<lambda>c. if c = CHR ''+'' then CHR ''-'' else if c = CHR ''/'' then CHR ''_'' else c) (unpadded (base64_text bs))"

section \<open>\<open>sanitizeDeliveryError\<close>\<close>

text \<open>What was thrown: an \<open>Error\<close> with its name and message, or anything else as text.\<close>

datatype thrown = ErrorValue string string | OtherValue string

fun thrown_text :: "thrown \<Rightarrow> string" where
  "thrown_text (ErrorValue name message) = name @ '': '' @ message"
| "thrown_text (OtherValue text) = text"

definition secret_variants :: "string \<Rightarrow> string list" where
  "secret_variants secret =
     (let bytes = utf8_bytes secret in
      uniq [secret, encodeURIComponent secret, base64_text bytes, base64url_text bytes, hex_text bytes, unpadded (base64_text bytes)])"

text \<open>Every run of 12 characters of a long secret that is not a link.\<close>

definition secret_pieces :: "string \<Rightarrow> string list" where
  "secret_pieces secret =
     (if length secret \<ge> 24 \<and> CHR ''/'' \<notin> set secret
      then map (\<lambda>i. take 12 (drop i secret)) [0..<length secret - 11] else [])"

definition redact_secret :: "string \<Rightarrow> string \<Rightarrow> string" where
  "redact_secret secret text =
     (if secret = [] then text
      else fold (\<lambda>v t. replace_all v REDACTED t) (secret_variants secret @ secret_pieces secret) text)"

text \<open>\<open>/https?:\/\/\S*uinv_\S*/g\<close>: a link runs to the next white space and holds a token somewhere.\<close>

definition link_rest :: "string \<Rightarrow> string option" where
  "link_rest s =
     (if prefix ''https://'' s then Some (drop 8 s) else if prefix ''http://'' s then Some (drop 7 s) else None)"

definition token_link :: "string \<Rightarrow> bool" where
  "token_link s \<longleftrightarrow>
     (case link_rest s of None \<Rightarrow> False | Some rest \<Rightarrow> str_includes (takeWhile (\<lambda>c. \<not> is_ws c) rest) ''uinv_'')"

function redact_links :: "string \<Rightarrow> string" where
  "redact_links [] = []"
| "redact_links (c # cs) =
     (if token_link (c # cs) then REDACTED @ redact_links (dropWhile (\<lambda>c. \<not> is_ws c) cs)
      else c # redact_links cs)"
  by pat_completeness auto
termination
  by (relation "measure length") (auto simp: le_imp_less_Suc length_dropWhile_le)

text \<open>\<open>/uinv_[A-Za-z0-9_-]+/g\<close>\<close>

definition is_token_char :: "char \<Rightarrow> bool" where
  "is_token_char c \<longleftrightarrow> is_lower_az c \<or> is_upper_az c \<or> is_digit09 c \<or> is_underscore c \<or> is_hyphen c"

definition token_here :: "string \<Rightarrow> bool" where
  "token_here s \<longleftrightarrow> prefix ''uinv_'' s \<and> (case drop 5 s of [] \<Rightarrow> False | c # _ \<Rightarrow> is_token_char c)"

lemma length_dropWhile_drop: "length (dropWhile P (drop n xs)) \<le> length xs"
  by (rule order.trans[OF length_dropWhile_le]) simp

function redact_tokens :: "string \<Rightarrow> string" where
  "redact_tokens [] = []"
| "redact_tokens (c # cs) =
     (if token_here (c # cs) then REDACTED @ redact_tokens (dropWhile is_token_char (drop 4 cs))
      else c # redact_tokens cs)"
  by pat_completeness auto
termination
  by (relation "measure length") (auto simp: le_imp_less_Suc length_dropWhile_drop)

definition is_control :: "char \<Rightarrow> bool" where
  "is_control c \<longleftrightarrow> code c < 32 \<or> code c = 127"

text \<open>The ellipsis is not Latin-1; U+0085 stands for it.\<close>

definition ELLIPSIS :: char where
  "ELLIPSIS = CHR 0x85"

definition MAX_ERROR_LENGTH :: nat where
  "MAX_ERROR_LENGTH = 500"

definition sanitizeDeliveryError :: "thrown \<Rightarrow> string list \<Rightarrow> string" where
  "sanitizeDeliveryError err secrets =
     (let t1 = fold redact_secret secrets (thrown_text err);
          t2 = redact_tokens (redact_links t1);
          t3 = trim (replace_runs is_control (CHR '' '') t2)
      in if length t3 > MAX_ERROR_LENGTH then take (MAX_ERROR_LENGTH - 1) t3 @ [ELLIPSIS] else t3)"

section \<open>\<open>sendWithRetry\<close>\<close>

text \<open>What one attempt ends in; a timeout is a failure that is not permanent.\<close>

datatype attempt_result = Delivered | Failed thrown bool

record send_outcome =
  so_sent :: bool
  so_attempts :: nat
  so_error :: "string option"

text \<open>The loop from attempt \<open>k\<close>, with the attempts that are left after it.\<close>

fun send_loop :: "(nat \<Rightarrow> attempt_result) \<Rightarrow> string list \<Rightarrow> nat \<Rightarrow> nat \<Rightarrow> send_outcome" where
  "send_loop send secrets k left =
     (case send k of
        Delivered \<Rightarrow> \<lparr> so_sent = True, so_attempts = k, so_error = None \<rparr>
      | Failed err permanent \<Rightarrow>
          if permanent then \<lparr> so_sent = False, so_attempts = k, so_error = Some (sanitizeDeliveryError err secrets) \<rparr>
          else case left of
            0 \<Rightarrow> \<lparr> so_sent = False, so_attempts = k, so_error = Some (sanitizeDeliveryError err secrets) \<rparr>
          | Suc l \<Rightarrow> send_loop send secrets (Suc k) l)"

text \<open>\<open>Math.max(1, Math.floor(maxAttempts ?? 3))\<close> for a whole number of attempts.\<close>

definition max_attempts :: "int option \<Rightarrow> nat" where
  "max_attempts m = nat (max 1 (case m of None \<Rightarrow> 3 | Some n \<Rightarrow> n))"

definition sendWithRetry :: "(nat \<Rightarrow> attempt_result) \<Rightarrow> int option \<Rightarrow> string list \<Rightarrow> send_outcome" where
  "sendWithRetry send maxAttempts secrets = send_loop send secrets 1 (max_attempts maxAttempts - 1)"

section \<open>Lemmas\<close>

lemma sublist_Cons_iff: "sublist p (c # cs) \<longleftrightarrow> prefix p (c # cs) \<or> sublist p cs"
  by (rule sublist_Cons_right)

lemma sublist_append_mark:
  assumes "m \<notin> set p" "sublist p (q @ m # x)"
  shows "sublist p q \<or> sublist p x"
  using assms(2)
proof (induction q)
  case Nil
  then show ?case using assms(1) by (cases p) (auto simp: sublist_Cons_iff)
next
  case (Cons a q)
  have "prefix p (a # q)" if "prefix p (a # q @ m # x)"
  proof -
    from that have "prefix p (a # q) \<or> (\<exists>us. p = (a # q) @ us \<and> prefix us (m # x))"
      using prefix_append[of p "a # q" "m # x"] by simp
    then show ?thesis
    proof (elim disjE exE conjE)
      fix us assume "p = (a # q) @ us" "prefix us (m # x)"
      then show ?thesis using assms(1) by (cases us) auto
    qed
  qed
  then show ?case using Cons by (auto simp: sublist_Cons_iff)
qed

text \<open>Removing tokens leaves none, and the later steps make none.\<close>

lemma redact_tokens_prefix: "CHR ''['' \<notin> set p \<Longrightarrow> prefix p (redact_tokens s) \<Longrightarrow> prefix p s"
proof (induction p arbitrary: s)
  case (Cons a p)
  show ?case
  proof (cases s)
    case (Cons c cs)
    then show ?thesis using Cons.prems Cons.IH[of cs] by (auto simp: REDACTED_def split: if_splits)
  qed (use Cons in simp)
qed simp

abbreviation token_of :: "char \<Rightarrow> string" where
  "token_of c \<equiv> ''uinv_'' @ [c]"

lemma token_here_prefix: "is_token_char c \<Longrightarrow> prefix (token_of c) s \<Longrightarrow> token_here s"
  by (auto simp: token_here_def prefix_def)

lemma token_char_not: "is_token_char c \<Longrightarrow> c \<notin> {CHR ''['', CHR '']'', CHR '' '', ELLIPSIS}"
  by (auto simp: is_token_char_def is_lower_az_def is_upper_az_def is_digit09_def is_underscore_def is_hyphen_def code_def ELLIPSIS_def)

lemma redact_tokens_none:
  assumes c: "is_token_char c"
  shows "\<not> sublist (token_of c) (redact_tokens s)"
proof (induction s rule: redact_tokens.induct)
  case 1
  show ?case by simp
next
  case (2 x xs)
  have n: "CHR '']'' \<notin> set (token_of c)" "CHR ''['' \<notin> set (token_of c)" using token_char_not[OF c] by auto
  show ?case
  proof (cases "token_here (x # xs)")
    case True
    have "\<not> sublist (token_of c) ''[redacted''" by (simp add: sublist_Cons_iff)
    then show ?thesis using 2(1)[OF True] sublist_append_mark[OF n(1), of "''[redacted''"] True by (auto simp: REDACTED_def)
  next
    case False
    have "\<not> prefix (token_of c) (redact_tokens (x # xs))"
      using redact_tokens_prefix[OF n(2), of "x # xs"] token_here_prefix[OF c, of "x # xs"] False by blast
    then show ?thesis using 2(2)[OF False] False by (simp add: sublist_Cons_iff)
  qed
qed

lemma replace_runs_prefix: "r \<notin> set p \<Longrightarrow> prefix p (replace_runs C r s) \<Longrightarrow> prefix p s"
proof (induction p arbitrary: s)
  case (Cons a p)
  show ?case
  proof (cases s)
    case (Cons c cs)
    then show ?thesis using Cons.prems Cons.IH[of cs] by (auto split: if_splits)
  qed (use Cons in simp)
qed simp

lemma sublist_dropWhile: "sublist p (dropWhile C s) \<Longrightarrow> sublist p s"
  by (induction s) (auto simp: sublist_Cons_iff split: if_splits)

lemma replace_runs_sublist: "r \<notin> set p \<Longrightarrow> sublist p (replace_runs C r s) \<Longrightarrow> sublist p s"
proof (induction C r s rule: replace_runs.induct)
  case (2 C r c cs)
  show ?case
  proof (cases "C c")
    case True
    have "sublist p (r # replace_runs C r (dropWhile C cs))" using 2(4) True by simp
    then have "p = [] \<or> sublist p (dropWhile C cs)"
      using 2(1)[OF True 2(3)] 2(3) by (cases p) (auto simp: sublist_Cons_iff)
    then show ?thesis using sublist_dropWhile[of p C cs] by (auto simp: sublist_Cons_iff)
  next
    case False
    have "prefix p (c # cs)" if "prefix p (c # replace_runs C r cs)"
      using replace_runs_prefix[OF 2(3), of C "c # cs"] that False by simp
    moreover have "sublist p (c # replace_runs C r cs)" using 2(4) False by simp
    ultimately show ?thesis using 2(2)[OF False 2(3)] by (auto simp: sublist_Cons_iff)
  qed
qed simp

lemma sublist_trim: "sublist p (trim s) \<Longrightarrow> sublist p s"
  using sublist_dropWhile[of "rev p" is_ws "rev (dropWhile is_ws s)"] sublist_dropWhile[of p is_ws s]
  by (simp add: trim_def sublist_rev_left)

lemma sublist_of_take: "sublist p (take n s) \<Longrightarrow> sublist p s"
  by (rule sublist_order.order.trans[OF _ sublist_take])

section \<open>Properties\<close>

text \<open>
  An error text that is kept about a delivery is at most 500 characters long and holds no invitation
  token, whatever the provider echoed and whatever secrets were named.
\<close>

theorem sanitized_error_safe:
  "length (sanitizeDeliveryError err secrets) \<le> MAX_ERROR_LENGTH \<and>
   (\<nexists>c. is_token_char c \<and> sublist (''uinv_'' @ [c]) (sanitizeDeliveryError err secrets))"
proof (intro conjI notI)
  show "length (sanitizeDeliveryError err secrets) \<le> MAX_ERROR_LENGTH"
    by (simp add: sanitizeDeliveryError_def Let_def MAX_ERROR_LENGTH_def)
  assume "\<exists>c. is_token_char c \<and> sublist (token_of c) (sanitizeDeliveryError err secrets)"
  then obtain c where c: "is_token_char c" "sublist (token_of c) (sanitizeDeliveryError err secrets)" by blast
  define t where "t = redact_links (fold redact_secret secrets (thrown_text err))"
  define u where "u = trim (replace_runs is_control (CHR '' '') (redact_tokens t))"
  have n: "ELLIPSIS \<notin> set (token_of c)" "CHR '' '' \<notin> set (token_of c)"
    using token_char_not[OF c(1)] by (auto simp: ELLIPSIS_def)
  have "sanitizeDeliveryError err secrets = u \<or> sanitizeDeliveryError err secrets = take 499 u @ [ELLIPSIS]"
    unfolding sanitizeDeliveryError_def u_def t_def Let_def MAX_ERROR_LENGTH_def by simp
  then have "sublist (token_of c) u"
    using c(2) sublist_append_mark[OF n(1), of "take 499 u" "[]"] sublist_of_take[of "token_of c" 499 u] by auto
  then have "sublist (token_of c) (redact_tokens t)"
    unfolding u_def using replace_runs_sublist[OF n(2)] sublist_trim by blast
  then show False using redact_tokens_none[OF c(1)] by blast
qed

lemma send_loop_spec:
  "k \<le> so_attempts (send_loop send secrets k left) \<and> so_attempts (send_loop send secrets k left) \<le> k + left \<and>
   (\<forall>j. k \<le> j \<longrightarrow> j < so_attempts (send_loop send secrets k left) \<longrightarrow> (\<exists>err. send j = Failed err False)) \<and>
   (so_sent (send_loop send secrets k left) \<longleftrightarrow> send (so_attempts (send_loop send secrets k left)) = Delivered) \<and>
   (\<not> so_sent (send_loop send secrets k left) \<longrightarrow> so_attempts (send_loop send secrets k left) = k + left \<or>
      (\<exists>err. send (so_attempts (send_loop send secrets k left)) = Failed err True))"
proof (induction left arbitrary: k)
  case 0
  show ?case by (cases "send k") (auto simp: not_less_eq_eq)
next
  case (Suc left)
  show ?case
  proof (cases "send k")
    case (Failed err permanent)
    show ?thesis
    proof (cases permanent)
      case False
      have "j = k \<or> Suc k \<le> j" if "k \<le> j" for j using that by linarith
      then show ?thesis using Suc.IH[of "Suc k"] Failed False by auto
    qed (use Failed in \<open>auto simp: not_less_eq_eq\<close>)
  qed auto
qed

declare send_loop.simps [simp del]

text \<open>
  C36: a send makes at least one attempt and at most \<open>maxAttempts\<close>; every attempt before the last failed in a
  way worth retrying; it reports success exactly when the last attempt delivered, and gives up only when the
  attempts ran out or the failure is permanent.
\<close>

theorem sendWithRetry_outcome:
  "let r = sendWithRetry send m secrets in
   1 \<le> so_attempts r \<and> so_attempts r \<le> max_attempts m \<and>
   {j. 1 \<le> j \<and> j < so_attempts r} \<subseteq> {j. \<exists>err. send j = Failed err False} \<and>
   (so_sent r = (send (so_attempts r) = Delivered)) \<and>
   (so_sent r \<or> so_attempts r = max_attempts m \<or> (\<exists>err. send (so_attempts r) = Failed err True))"
proof -
  have "1 \<le> max_attempts m" by (simp add: max_attempts_def)
  then show ?thesis using send_loop_spec[of 1 send secrets "max_attempts m - 1"]
    by (auto simp: sendWithRetry_def Let_def)
qed

end

