(* ===== verification/Dispatch.thy ===== *)
theory Dispatch
  imports Outbox Delivery
begin

text \<open>
  One delivery pass over the outbox: \<open>packages/core/src/outbox/dispatch.ts\<close>.

  The handler is a parameter: what it throws for an event, if it throws.  The clock is read once for the
  claim and once per event, so it is a sequence of times.  Delays are whole seconds.  The lemmas follow an
  event through the pass.
\<close>

section \<open>The pass\<close>

definition outboxBackoffSeconds :: "int \<Rightarrow> int \<Rightarrow> int \<Rightarrow> int" where
  "outboxBackoffSeconds attempts backoffSeconds maxBackoffSeconds =
     min maxBackoffSeconds (backoffSeconds * 2 ^ nat (max 0 (attempts - 1)))"

record dispatch_options =
  do_batchSize :: "int option"
  do_leaseSeconds :: "int option"
  do_maxAttempts :: "int option"
  do_backoffSeconds :: "int option"
  do_maxBackoffSeconds :: "int option"
  do_secrets :: "string list"

definition or_default :: "'a \<Rightarrow> 'a option \<Rightarrow> 'a" where
  "or_default d x = (case x of None \<Rightarrow> d | Some v \<Rightarrow> v)"

record dispatch_result =
  dr_claimed :: nat
  dr_delivered :: nat
  dr_retried :: nat
  dr_dead :: nat

text \<open>When a failed event may be tried again.\<close>

definition retry_at :: "dispatch_options \<Rightarrow> timestamp \<Rightarrow> outbox_event \<Rightarrow> timestamp" where
  "retry_at options now event =
     now + outboxBackoffSeconds (ob_attempts event) (or_default 30 (do_backoffSeconds options)) (or_default 3600 (do_maxBackoffSeconds options)) * 1000"

definition count_failure :: "outbox_status option \<Rightarrow> dispatch_result \<Rightarrow> dispatch_result" where
  "count_failure st r =
     (if st = Some OBDead then r \<lparr> dr_dead := dr_dead r + 1 \<rparr>
      else if st = Some OBPending then r \<lparr> dr_retried := dr_retried r + 1 \<rparr> else r)"

definition dispatch_one ::
  "(outbox_event \<Rightarrow> thrown option) \<Rightarrow> dispatch_options \<Rightarrow> timestamp \<Rightarrow> outbox_event \<Rightarrow> dispatch_result \<times> store \<Rightarrow> dispatch_result \<times> store" where
  "dispatch_one handler options now event rs =
     (case rs of (r, s) \<Rightarrow>
       case handler event of
         Some err \<Rightarrow>
           (case ob_fail (ob_id event) (sanitizeDeliveryError err (do_secrets options)) (retry_at options now event)
                   (or_default 8 (do_maxAttempts options)) s of
              (st, s') \<Rightarrow> (count_failure st r, s'))
       | None \<Rightarrow>
           (case ob_complete now [ob_id event] s of (n, s') \<Rightarrow> (r \<lparr> dr_delivered := dr_delivered r + n \<rparr>, s')))"

fun dispatch_loop ::
  "(nat \<Rightarrow> timestamp) \<Rightarrow> (outbox_event \<Rightarrow> thrown option) \<Rightarrow> dispatch_options \<Rightarrow> nat \<Rightarrow> outbox_event list \<Rightarrow> dispatch_result \<times> store \<Rightarrow> dispatch_result \<times> store" where
  "dispatch_loop clock handler options k [] rs = rs"
| "dispatch_loop clock handler options k (event # events) rs =
     dispatch_loop clock handler options (Suc k) events (dispatch_one handler options (clock k) event rs)"

definition dispatchOutbox ::
  "(nat \<Rightarrow> timestamp) \<Rightarrow> (outbox_event \<Rightarrow> thrown option) \<Rightarrow> dispatch_options \<Rightarrow> dispatch_result op" where
  "dispatchOutbox clock handler options =
     and_then (ob_claim (clock 0) \<lparr> co_limit = Some (or_default 20 (do_batchSize options)),
                 co_leaseSeconds = Some (or_default 60 (do_leaseSeconds options)), co_type = None, co_organizationId = None \<rparr>)
       (\<lambda>events s.
          case dispatch_loop clock handler options 1 events
                 (\<lparr> dr_claimed = length events, dr_delivered = 0, dr_retried = 0, dr_dead = 0 \<rparr>, s) of
            (r, s') \<Rightarrow> returns r s')"

section \<open>Lemmas\<close>

lemma due_distinct:
  assumes "keyed ob_id (outboxEvents s)"
  shows "distinct (map ob_id (due_events s now options n))"
proof -
  let ?xs = "filter (claimable s now options) (mvals (outboxEvents s))"
  have "distinct (map ob_id ?xs)" using distinct_mvals_ident[OF assms] by (simp add: distinct_map_filter)
  then have "distinct (map ob_id (sort_by (\<lambda>a b. ob_seq a < ob_seq b) ?xs))" by (simp add: distinct_map_sort_by)
  then show ?thesis unfolding due_events_def by (simp add: take_map[symmetric] distinct_take)
qed

text \<open>What becomes of a claimed event.\<close>

definition outcome :: "(outbox_event \<Rightarrow> thrown option) \<Rightarrow> dispatch_options \<Rightarrow> outbox_event \<Rightarrow> outbox_status" where
  "outcome handler options event =
     (case handler event of
        None \<Rightarrow> OBDelivered
      | Some _ \<Rightarrow> if ob_attempts event \<ge> or_default 8 (do_maxAttempts options) then OBDead else OBPending)"

lemma dispatch_one_step:
  assumes "mget (outboxEvents s) (ob_id event) = Some event" "ob_status event = OBPending"
    and "dispatch_one handler options now event (r, s) = (r', s')"
  shows "dr_claimed r' = dr_claimed r" "dr_delivered r' = dr_delivered r + (if outcome handler options event = OBDelivered then 1 else 0)"
    "dr_retried r' = dr_retried r + (if outcome handler options event = OBPending then 1 else 0)"
    "dr_dead r' = dr_dead r + (if outcome handler options event = OBDead then 1 else 0)"
    "map_option ob_status (mget (outboxEvents s') (ob_id event)) = Some (outcome handler options event)"
    "j \<noteq> ob_id event \<Longrightarrow> mget (outboxEvents s') j = mget (outboxEvents s) j"
  using assms
  by (auto simp: dispatch_one_def outcome_def ob_fail_def ob_complete_def complete_one_def uniq_def count_failure_def Let_def split: option.splits if_splits)

definition outcomes :: "(outbox_event \<Rightarrow> thrown option) \<Rightarrow> dispatch_options \<Rightarrow> outbox_status \<Rightarrow> outbox_event list \<Rightarrow> nat" where
  "outcomes handler options st es = length (filter (\<lambda>e. outcome handler options e = st) es)"

lemma outcomes_simps [simp]:
  "outcomes handler options st [] = 0"
  "outcomes handler options st (e # es) = outcomes handler options st es + (if outcome handler options e = st then 1 else 0)"
  by (simp_all add: outcomes_def)

lemma outcomes_sum:
  "outcomes handler options OBDelivered es + outcomes handler options OBPending es + outcomes handler options OBDead es = length es"
  by (induction es) (auto simp: outcome_def split: option.splits)

lemma dispatch_loop_spec:
  assumes "dispatch_loop clock handler options k es (r, s) = (r', s')"
    and "distinct (map ob_id es)" "\<forall>e \<in> set es. mget (outboxEvents s) (ob_id e) = Some e \<and> ob_status e = OBPending"
  shows "dr_claimed r' = dr_claimed r \<and> dr_delivered r' = dr_delivered r + outcomes handler options OBDelivered es \<and>
    dr_retried r' = dr_retried r + outcomes handler options OBPending es \<and> dr_dead r' = dr_dead r + outcomes handler options OBDead es \<and>
    (\<forall>e \<in> set es. map_option ob_status (mget (outboxEvents s') (ob_id e)) = Some (outcome handler options e)) \<and>
    (\<forall>j. j \<notin> ob_id ` set es \<longrightarrow> mget (outboxEvents s') j = mget (outboxEvents s) j)"
  using assms
proof (induction es arbitrary: k r s)
  case (Cons e es)
  obtain r1 s1 where one: "dispatch_one handler options (clock k) e (r, s) = (r1, s1)" by fastforce
  have e: "mget (outboxEvents s) (ob_id e) = Some e" "ob_status e = OBPending" using Cons.prems(3) by auto
  note st = dispatch_one_step[OF e one]
  have "mget (outboxEvents s1) (ob_id f) = Some f \<and> ob_status f = OBPending" if "f \<in> set es" for f
  proof -
    have "ob_id f \<noteq> ob_id e" using Cons.prems(2) that by (auto simp: image_iff)
    then show ?thesis using st(6)[of "ob_id f"] Cons.prems(3) that by simp
  qed
  then have rest: "\<forall>f \<in> set es. mget (outboxEvents s1) (ob_id f) = Some f \<and> ob_status f = OBPending" by blast
  have "dispatch_loop clock handler options (Suc k) es (r1, s1) = (r', s')" using Cons.prems(1) one by simp
  from Cons.IH[OF this _ rest] Cons.prems(2) show ?case using st by auto
qed simp

lemma dispatch_cases:
  assumes "fst (dispatchOutbox clock handler options s) = Inr r"
  obtains events s1 opt where "ob_claim (clock 0) opt s = (Inr events, s1)"
    "dispatch_loop clock handler options 1 events (\<lparr> dr_claimed = length events, dr_delivered = 0, dr_retried = 0, dr_dead = 0 \<rparr>, s1)
       = (r, snd (dispatchOutbox clock handler options s))"
proof -
  let ?opt = "\<lparr> co_limit = Some (or_default 20 (do_batchSize options)), co_leaseSeconds = Some (or_default 60 (do_leaseSeconds options)),
    co_type = None, co_organizationId = None \<rparr>"
  obtain x s1 where c: "ob_claim (clock 0) ?opt s = (x, s1)" by fastforce
  obtain events where x: "x = Inr events" using assms c by (cases x) (simp_all add: dispatchOutbox_def and_then_def)
  obtain r' s' where l: "dispatch_loop clock handler options 1 events (\<lparr> dr_claimed = length events, dr_delivered = 0, dr_retried = 0, dr_dead = 0 \<rparr>, s1) = (r', s')"
    by (rule prod.exhaust)
  have "dispatchOutbox clock handler options s = returns r' s'" using c x l by (simp add: dispatchOutbox_def and_then_def)
  then show ?thesis using that[OF c[unfolded x]] l assms by simp
qed

lemma claim_stores:
  assumes "outbox_wf s" "ob_claim now opt s = (Inr events, s1)" "e \<in> set events"
  shows "mget (outboxEvents s1) (ob_id e) = Some e \<and> ob_status e = OBPending"
proof -
  obtain limit lease where r: "resolveClaimOptions opt = Inr (limit, lease)"
    and ev: "events = map claimed (due_events s now opt (nat limit))"
    using claim_result[of now opt s events] assms(2) by auto
  let ?due = "due_events s now opt (nat limit)"
  have s1: "s1 = fold (lease_event (now + lease * 1000)) ?due s" using assms(2) by (simp add: ob_claim_def r Let_def returns_def)
  obtain d where d: "d \<in> set ?due" "e = claimed d" using assms(3) ev by auto
  have "ob_id e \<in> ob_id ` set ?due" using d by (simp add: claimed_def)
  then obtain d' where d': "d' \<in> set ?due" "ob_id d' = ob_id e" "mget (outboxEvents s1) (ob_id e) = Some (claimed d')"
    using fold_lease_get[of ?due "ob_id e" "now + lease * 1000" s] unfolding s1 by blast
  have "ob_id d' = ob_id d" using d'(2) d(2) by (simp add: claimed_def)
  then have "d' = d" using due_in[OF assms(1) d'(1)] due_in[OF assms(1) d(1)] by (metis option.inject)
  then have "mget (outboxEvents s1) (ob_id e) = Some e" using d'(3) unfolding d(2) by simp
  moreover have "ob_status e = OBPending" using due_in[OF assms(1) d(1)] unfolding d(2) by (simp add: claimed_def)
  ultimately show ?thesis by blast
qed

section \<open>Properties\<close>

text \<open>
  C37: a pass settles everything it claims.  Every claimed event ends delivered when the handler returned,
  otherwise pending again or, on its last attempt, dead; the counters report exactly that and add up to the
  number of events claimed, and no other event changes.
\<close>

theorem dispatch_settles:
  assumes "outbox_wf s" "fst (dispatchOutbox clock handler options s) = Inr r"
  shows "\<exists>events s1 opt. ob_claim (clock 0) opt s = (Inr events, s1) \<and>
    dr_claimed r = length events \<and> dr_claimed r = dr_delivered r + dr_retried r + dr_dead r \<and>
    dr_delivered r = outcomes handler options OBDelivered events \<and> dr_dead r = outcomes handler options OBDead events \<and>
    (\<forall>e \<in> set events. map_option ob_status (mget (outboxEvents (snd (dispatchOutbox clock handler options s))) (ob_id e)) = Some (outcome handler options e)) \<and>
    (\<forall>j. j \<notin> ob_id ` set events \<longrightarrow> mget (outboxEvents (snd (dispatchOutbox clock handler options s))) j = mget (outboxEvents s1) j)"
proof -
  obtain events s1 opt where c: "ob_claim (clock 0) opt s = (Inr events, s1)"
    "dispatch_loop clock handler options 1 events (\<lparr> dr_claimed = length events, dr_delivered = 0, dr_retried = 0, dr_dead = 0 \<rparr>, s1)
       = (r, snd (dispatchOutbox clock handler options s))"
    using dispatch_cases[OF assms(2)] by metis
  have "distinct (map ob_id events)"
  proof -
    obtain n where "events = map claimed (due_events s (clock 0) opt n)" using claim_result[of "clock 0" opt s events] c(1) by auto
    then show ?thesis using due_distinct[of s "clock 0" opt n] assms(1) by (simp add: comp_def claimed_def outbox_wf_def)
  qed
  from dispatch_loop_spec[OF c(2) this] claim_stores[OF assms(1) c(1)] outcomes_sum[of handler options events] c(1)
  show ?thesis by (intro exI[of _ events] exI[of _ s1] exI[of _ opt]) simp
qed

theorem dispatch_settles_witness:
  "\<exists>r events s1 opt. fst (dispatchOutbox (\<lambda>k. 1) (\<lambda>e. Some (OtherValue ''x'')) \<lparr> do_batchSize = None, do_leaseSeconds = None,
      do_maxAttempts = Some 1, do_backoffSeconds = None, do_maxBackoffSeconds = None, do_secrets = [] \<rparr> demo_outbox) = Inr r \<and>
     ob_claim 1 opt demo_outbox = (Inr events, s1) \<and> dr_claimed r = length events \<and> dr_claimed r = dr_delivered r + dr_retried r + dr_dead r"
proof -
  let ?d = "dispatchOutbox (\<lambda>k. 1) (\<lambda>e. Some (OtherValue ''x'')) \<lparr> do_batchSize = None, do_leaseSeconds = None,
      do_maxAttempts = Some 1, do_backoffSeconds = None, do_maxBackoffSeconds = None, do_secrets = [] \<rparr> demo_outbox"
  have "is_ok (fst ?d)" by code_simp
  then obtain r where r: "fst ?d = Inr r" by (cases "fst ?d") auto
  from dispatch_settles[OF demo_outbox_wf(1) r] show ?thesis using r by blast
qed

end
