(* ===== verification/AuditLog.thy ===== *)
theory AuditLog
  imports State Calendar
begin

text \<open>
  The audit log and its hash chain: \<open>packages/core/src/audit-log/chain.ts\<close>,
  \<open>audit-log/repository.ts\<close> and \<open>auditLogRepository\<close> of \<open>storage/memory.ts\<close>.

  The digest (Web Crypto's SHA-256 of the UTF-8 text, in hexadecimal) is a parameter \<open>H\<close>, the random
  part of a generated id the argument \<open>rid\<close>.  The promise chain \<open>auditTail\<close> makes each operation one
  step.  The lemmas show that every operation keeps the chain verifiable and that, when \<open>H\<close> has no
  collisions, a chain that still verifies up to a known head has the same content.
\<close>

section \<open>Inputs\<close>

definition assertAuditInput :: "identity \<Rightarrow> string \<Rightarrow> uerror + unit" where
  "assertAuditInput actor action =
     (if trim (provider actor) = [] \<or> trim (subject actor) = [] then Inl (UError EAudit ''audit_actor_required'')
      else if trim action = [] \<or> length action > 200 then Inl (UError EAudit ''audit_action_invalid'')
      else Inr ())"

definition assertPruneCutoff :: "date_in \<Rightarrow> timestamp \<Rightarrow> uerror + timestamp" where
  "assertPruneCutoff before now =
     (case before of InvalidDate \<Rightarrow> Inl (UError EAudit ''audit_prune_invalid'')
      | At b \<Rightarrow> if b > now then Inl (UError EAudit ''audit_prune_invalid'') else Inr b)"

record audit_input =
  ai_id :: string
  ai_organizationId :: "string option"
  ai_actor :: identity
  ai_action :: string
  ai_target :: "audit_target option"
  ai_metadata :: "json option"

section \<open>The chain\<close>

record chained_fields =
  cf_id :: string
  cf_organizationId :: "string option"
  cf_actorProvider :: string
  cf_actorSubject :: string
  cf_action :: string
  cf_targetType :: "string option"
  cf_targetId :: "string option"
  cf_metadataJson :: "string option"
  cf_createdAt :: string

definition chainFields :: "audit_entry \<Rightarrow> chained_fields" where
  "chainFields e =
     \<lparr> cf_id = al_id e, cf_organizationId = al_organizationId e,
       cf_actorProvider = provider (al_actor e), cf_actorSubject = subject (al_actor e),
       cf_action = al_action e,
       cf_targetType = map_option at_type (al_target e), cf_targetId = map_option at_id (al_target e),
       cf_metadataJson = map_option stringify (al_metadata e), cf_createdAt = toISOString (al_createdAt e) \<rparr>"

text \<open>The array that is hashed: the previous hash and the nine fields.\<close>

definition chain_array :: "string option \<Rightarrow> chained_fields \<Rightarrow> string option list" where
  "chain_array prev f =
     [prev, Some (cf_id f), cf_organizationId f, Some (cf_actorProvider f), Some (cf_actorSubject f),
      Some (cf_action f), cf_targetType f, cf_targetId f, cf_metadataJson f, Some (cf_createdAt f)]"

definition computeAuditEntryHash :: "(string \<Rightarrow> string) \<Rightarrow> string option \<Rightarrow> chained_fields \<Rightarrow> string" where
  "computeAuditEntryHash H prev f = H (stringify (JArr (map nullable (chain_array prev f))))"

datatype anchor_status = Valid | Missing | Mismatch | Pruned

datatype broken_reason = ContentMismatch | ChainBroken

record position =
  pos_position :: int
  pos_hash :: string

record audit_report =
  rep_ok :: bool
  rep_checked :: nat
  rep_head :: "position option"
  rep_anchor :: "anchor_status option"
  rep_pruned :: "(position \<times> nat) option"
  rep_broken :: "(string \<times> broken_reason) option"

definition applyAnchor :: "audit_report \<Rightarrow> position option \<Rightarrow> (int \<Rightarrow> string option) \<Rightarrow> audit_report" where
  "applyAnchor report anchor hashAt =
     (case anchor of
        None \<Rightarrow> report
      | Some a \<Rightarrow>
          if \<not> rep_ok report then report
          else if (case rep_pruned report of None \<Rightarrow> False | Some (through, _) \<Rightarrow> pos_position a \<le> pos_position through)
          then report \<lparr> rep_anchor := Some Pruned \<rparr>
          else (let status = (case hashAt (pos_position a) of
                                None \<Rightarrow> Missing
                              | Some h \<Rightarrow> if h = pos_hash a then Valid else Mismatch)
                in report \<lparr> rep_anchor := Some status, rep_ok := (status = Valid) \<rparr>))"

text \<open>
  The loop of \<open>verifyChain\<close>: the position reached and, when an entry fails, its id and the reason; a
  missing link is the \<open>TypeError\<close> of reading a property of \<open>undefined\<close>.
\<close>

fun verify_loop :: "(string \<Rightarrow> string) \<Rightarrow> string option \<Rightarrow> nat \<Rightarrow> audit_entry list \<Rightarrow> chain_link list \<Rightarrow>
    uerror + (nat \<times> string option \<times> (string \<times> broken_reason) option)" where
  "verify_loop H prev index [] links = Inr (index, prev, None)"
| "verify_loop H prev index (e # es) [] = Inl TypeErr"
| "verify_loop H prev index (e # es) (l # ls) =
     (if cl_prev l \<noteq> prev then Inr (index, prev, Some (al_id e, ChainBroken))
      else if cl_hash l \<noteq> computeAuditEntryHash H prev (chainFields e)
      then Inr (index, prev, Some (al_id e, ContentMismatch))
      else verify_loop H (Some (cl_hash l)) (Suc index) es ls)"

definition verifyChain :: "(string \<Rightarrow> string) \<Rightarrow> store \<Rightarrow> uerror + audit_report" where
  "verifyChain H s =
     (let pruned = (case auditCheckpointHash s of
          Some h \<Rightarrow> if auditPruned s > 0
            then Some (\<lparr> pos_position = int (auditPruned s), pos_hash = h \<rparr>, auditPruned s) else None
        | None \<Rightarrow> None) in
      bindr (verify_loop H (auditCheckpointHash s) 0 (auditLogs s) (auditChain s)) (\<lambda>(index, prev, broken).
        case broken of
          Some b \<Rightarrow> Inr \<lparr> rep_ok = False, rep_checked = index, rep_head = None, rep_anchor = None,
                          rep_pruned = pruned, rep_broken = Some b \<rparr>
        | None \<Rightarrow> Inr \<lparr> rep_ok = True, rep_checked = length (auditLogs s),
                        rep_head = map_option (\<lambda>h. \<lparr> pos_position = int (auditPruned s + length (auditLogs s)),
                                                     pos_hash = h \<rparr>) prev,
                        rep_anchor = None, rep_pruned = pruned, rep_broken = None \<rparr>))"

definition hash_at :: "store \<Rightarrow> int \<Rightarrow> string option" where
  "hash_at s position =
     (let i = position - int (auditPruned s) - 1 in
      if 0 \<le> i \<and> nat i < length (auditChain s) then Some (cl_hash (auditChain s ! nat i)) else None)"

definition verifyIntegrity :: "(string \<Rightarrow> string) \<Rightarrow> position option \<Rightarrow> store \<Rightarrow> uerror + audit_report" where
  "verifyIntegrity H anchor s = bindr (verifyChain H s) (\<lambda>report. Inr (applyAnchor report anchor (hash_at s)))"

section \<open>Operations\<close>

definition entry_of :: "audit_input \<Rightarrow> timestamp \<Rightarrow> audit_entry" where
  "entry_of i now = \<lparr> al_id = ai_id i, al_organizationId = ai_organizationId i, al_actor = ai_actor i,
     al_action = ai_action i, al_target = ai_target i, al_metadata = ai_metadata i, al_createdAt = now \<rparr>"

text \<open>Appending an entry, linked to the last one; an empty log links to nothing.\<close>

definition append_entry :: "(string \<Rightarrow> string) \<Rightarrow> audit_entry \<Rightarrow> store \<Rightarrow> store" where
  "append_entry H e s =
     (let prev = (if auditChain s = [] then None else Some (cl_hash (last (auditChain s)))) in
      s \<lparr> auditLogs := auditLogs s @ [e],
          auditChain := auditChain s @ [\<lparr> cl_prev = prev, cl_hash = computeAuditEntryHash H prev (chainFields e) \<rparr>] \<rparr>)"

definition audit_record :: "(string \<Rightarrow> string) \<Rightarrow> timestamp \<Rightarrow> audit_input \<Rightarrow> audit_entry op" where
  "audit_record H now input =
     guard (assertAuditInput (ai_actor input) (ai_action input)) (\<lambda>_ s.
       let e = entry_of input now in returns e (append_entry H e s))"

definition prune_count :: "timestamp \<Rightarrow> audit_entry list \<Rightarrow> nat" where
  "prune_count before logs = length (takeWhile (\<lambda>e. al_createdAt e < before) (butlast logs))"

text \<open>Removing the oldest \<open>n\<close> entries; the last of them becomes the checkpoint.\<close>

definition drop_oldest :: "nat \<Rightarrow> store \<Rightarrow> store" where
  "drop_oldest n s = s \<lparr> auditLogs := drop n (auditLogs s), auditChain := drop n (auditChain s),
     auditPruned := auditPruned s + n, auditCheckpointHash := Some (cl_hash (auditChain s ! (n - 1))) \<rparr>"

definition pruneBefore :: "(string \<Rightarrow> string) \<Rightarrow> timestamp \<Rightarrow> string \<Rightarrow> date_in \<Rightarrow> identity \<Rightarrow> (nat \<times> position option) op" where
  "pruneBefore H now rid cutoff actor =
     guard (assertPruneCutoff cutoff now) (\<lambda>before.
     guard (assertAuditInput actor ''audit_log.pruned'') (\<lambda>_ s.
       let count = prune_count before (auditLogs s) in
       if count = 0 then returns (0, None) s
       else
         let through = \<lparr> pos_position = int (auditPruned s + count), pos_hash = cl_hash (auditChain s ! (count - 1)) \<rparr>;
             s1 = drop_oldest count s;
             e = \<lparr> al_id = ''audit-pruned:'' @ rid, al_organizationId = None, al_actor = actor,
                   al_action = ''audit_log.pruned'', al_target = None,
                   al_metadata = Some (JObj [(''before'', JStr (toISOString before)), (''removed'', JNum (int count)),
                                             (''throughPosition'', JNum (pos_position through))]),
                   al_createdAt = now \<rparr>
         in returns (count, Some through) (append_entry H e s1)))"

subsection \<open>Reading\<close>

definition newest_first :: "audit_entry \<Rightarrow> audit_entry \<Rightarrow> bool" where
  "newest_first a b \<longleftrightarrow> al_createdAt b < al_createdAt a \<or> (al_createdAt a = al_createdAt b \<and> al_id b < al_id a)"

definition before_cursor :: "(timestamp \<times> string) option \<Rightarrow> audit_entry \<Rightarrow> bool" where
  "before_cursor c e \<longleftrightarrow> (case c of None \<Rightarrow> True
     | Some (at, i) \<Rightarrow> al_createdAt e < at \<or> (al_createdAt e = at \<and> al_id e < i))"

record audit_search =
  as_organizationId :: "string option"
  as_action :: "string list option"
  as_actionPrefix :: "string option"
  as_actor :: "identity option"
  as_target :: "(string \<times> string option) option"
  as_since :: "timestamp option"
  as_until :: "timestamp option"
  as_limit :: "nat option"
  as_before :: "(timestamp \<times> string) option"

definition audit_matches :: "audit_search \<Rightarrow> audit_entry \<Rightarrow> bool" where
  "audit_matches f e \<longleftrightarrow>
     opt_match (\<lambda>og. al_organizationId e = Some og) (as_organizationId f) \<and>
     opt_match (\<lambda>actions. al_action e \<in> set actions) (as_action f) \<and>
     opt_match (\<lambda>p. prefix p (al_action e)) (as_actionPrefix f) \<and>
     opt_match (\<lambda>a. sameIdentity (al_actor e) a) (as_actor f) \<and>
     opt_match (\<lambda>(ty, i). map_option at_type (al_target e) = Some ty \<and>
        opt_match (\<lambda>j. map_option at_id (al_target e) = Some j) i) (as_target f) \<and>
     opt_match (\<lambda>t. t \<le> al_createdAt e) (as_since f) \<and>
     opt_match (\<lambda>t. al_createdAt e < t) (as_until f) \<and>
     before_cursor (as_before f) e"

definition audit_search_op :: "audit_search \<Rightarrow> store \<Rightarrow> audit_entry list" where
  "audit_search_op f s = slice_to (as_limit f) (sort_by newest_first (filter (audit_matches f) (auditLogs s)))"

definition listByOrganization :: "string \<Rightarrow> nat option \<Rightarrow> (timestamp \<times> string) option \<Rightarrow> store \<Rightarrow> audit_entry list" where
  "listByOrganization org limit before s =
     slice_to limit (filter (before_cursor before)
       (sort_by newest_first (filter (\<lambda>e. al_organizationId e = Some org) (auditLogs s))))"

definition listRecent :: "nat option \<Rightarrow> (timestamp \<times> string) option \<Rightarrow> store \<Rightarrow> audit_entry list" where
  "listRecent limit before s =
     slice_to limit (filter (before_cursor before) (sort_by newest_first (auditLogs s)))"


section \<open>What a verified chain is\<close>

fun chain_ok :: "(string \<Rightarrow> string) \<Rightarrow> string option \<Rightarrow> audit_entry list \<Rightarrow> chain_link list \<Rightarrow> bool" where
  "chain_ok H prev [] [] = True"
| "chain_ok H prev (e # es) (l # ls) =
     (cl_prev l = prev \<and> cl_hash l = computeAuditEntryHash H prev (chainFields e) \<and>
      chain_ok H (Some (cl_hash l)) es ls)"
| "chain_ok H prev es ls = False"

definition chain_end :: "string option \<Rightarrow> chain_link list \<Rightarrow> string option" where
  "chain_end prev ls = (if ls = [] then prev else Some (cl_hash (last ls)))"

lemma chain_end_simps [simp]:
  "chain_end p [] = p" "chain_end p (l # ls) = chain_end (Some (cl_hash l)) ls"
  "chain_end p (ls @ [l]) = Some (cl_hash l)"
  by (simp_all add: chain_end_def)

lemma chain_ok_length: "chain_ok H p es ls \<Longrightarrow> length es = length ls"
  by (induction H p es ls rule: chain_ok.induct) auto

lemma chain_ok_append:
  "length es = length ls \<Longrightarrow>
   chain_ok H p (es @ es') (ls @ ls') \<longleftrightarrow> chain_ok H p es ls \<and> chain_ok H (chain_end p ls) es' ls'"
  by (induction es ls arbitrary: p rule: list_induct2) auto

lemma verify_loop_ok:
  "chain_ok H p es ls \<Longrightarrow> verify_loop H p i es ls = Inr (i + length es, chain_end p ls, None)"
  by (induction H p es ls arbitrary: i rule: chain_ok.induct) auto

lemma verify_loop_chain_ok:
  "length es = length ls \<Longrightarrow> verify_loop H p i es ls = Inr (j, h, None) \<Longrightarrow>
   chain_ok H p es ls \<and> h = chain_end p ls"
  by (induction es ls arbitrary: p i rule: list_induct2) (auto split: if_splits)

lemma verify_loop_broken:
  "verify_loop H p i es ls = Inr (j, h, Some b) \<Longrightarrow> \<not> chain_ok H p es ls"
  by (induction H p i es ls rule: verify_loop.induct) (auto split: if_splits)

text \<open>
  The state of a log: the chain holds from the checkpoint, there is a checkpoint exactly when entries
  were pruned, and a pruned log is never empty.
\<close>

definition audit_wf :: "(string \<Rightarrow> string) \<Rightarrow> store \<Rightarrow> bool" where
  "audit_wf H s \<longleftrightarrow> chain_ok H (auditCheckpointHash s) (auditLogs s) (auditChain s) \<and>
     (auditChain s = [] \<longrightarrow> auditCheckpointHash s = None) \<and>
     (auditCheckpointHash s \<noteq> None \<longleftrightarrow> auditPruned s > 0)"

lemma audit_wf_empty: "audit_wf H empty_store"
  by (simp add: audit_wf_def empty_store_def)

lemma audit_wf_length: "audit_wf H s \<Longrightarrow> length (auditLogs s) = length (auditChain s)"
  by (auto simp: audit_wf_def dest: chain_ok_length)

lemma append_entry_wf:
  assumes "chain_ok H (auditCheckpointHash s) (auditLogs s) (auditChain s)"
    and "auditChain s = [] \<longrightarrow> auditCheckpointHash s = None"
    and "auditCheckpointHash s \<noteq> None \<longleftrightarrow> auditPruned s > 0"
  shows "audit_wf H (append_entry H e s)"
  using assms chain_ok_length[OF assms(1)]
  by (auto simp: audit_wf_def append_entry_def Let_def chain_ok_append chain_end_def)

lemma prune_count_less: "prune_count b logs = 0 \<or> prune_count b logs < length logs"
  using length_takeWhile_le[of "\<lambda>e. al_createdAt e < b" "butlast logs"]
  by (cases logs) (auto simp: prune_count_def)

lemma prune_count_pos: "0 < prune_count b logs \<Longrightarrow> prune_count b logs < length logs"
  using prune_count_less[of b logs] by simp

lemma chain_ok_split:
  assumes "chain_ok H p es ls" "n \<le> length ls"
  shows "chain_ok H p (take n es) (take n ls) \<and> chain_ok H (chain_end p (take n ls)) (drop n es) (drop n ls)"
  using chain_ok_append[of "take n es" "take n ls" H p "drop n es" "drop n ls"]
    chain_ok_length[OF assms(1)] assms by simp

lemma chain_end_take: "0 < n \<Longrightarrow> n \<le> length ls \<Longrightarrow> chain_end p (take n ls) = Some (cl_hash (ls ! (n - 1)))"
  by (auto simp: chain_end_def last_conv_nth min_def)

lemma audit_record_wf: "audit_wf H s \<Longrightarrow> audit_wf H (snd (audit_record H now input s))"
  by (auto simp: audit_record_def Let_def audit_wf_def[of H s] intro: append_entry_wf split: guard_split)

lemma drop_oldest_wf:
  assumes wf: "audit_wf H s" and n: "0 < n" "n < length (auditLogs s)"
  shows "audit_wf H (append_entry H e (drop_oldest n s))"
proof (rule append_entry_wf)
  have ok: "chain_ok H (auditCheckpointHash s) (auditLogs s) (auditChain s)" using wf by (simp add: audit_wf_def)
  show "chain_ok H (auditCheckpointHash (drop_oldest n s)) (auditLogs (drop_oldest n s)) (auditChain (drop_oldest n s))"
    using chain_ok_split[OF ok, of n] chain_end_take[of n "auditChain s"] n audit_wf_length[OF wf]
    by (simp add: drop_oldest_def)
qed (use n audit_wf_length[OF wf] in \<open>simp_all add: drop_oldest_def\<close>)

lemma pruneBefore_wf: "audit_wf H s \<Longrightarrow> audit_wf H (snd (pruneBefore H now rid cutoff actor s))"
  by (simp add: pruneBefore_def Let_def split: guard_split)
    (blast intro: drop_oldest_wf prune_count_pos)

section \<open>Reports\<close>

lemma verifyChain_wf:
  assumes "audit_wf H s"
  shows "\<exists>r. verifyChain H s = Inr r \<and> rep_ok r \<and> rep_broken r = None \<and> rep_checked r = length (auditLogs s) \<and>
     rep_head r = map_option (\<lambda>h. \<lparr> pos_position = int (auditPruned s + length (auditLogs s)), pos_hash = h \<rparr>)
       (chain_end (auditCheckpointHash s) (auditChain s))"
  using assms by (simp add: audit_wf_def verifyChain_def Let_def verify_loop_ok)

lemma verifyChain_ok_iff:
  assumes "length (auditLogs s) = length (auditChain s)" "verifyChain H s = Inr r"
  shows "rep_ok r \<longleftrightarrow> chain_ok H (auditCheckpointHash s) (auditLogs s) (auditChain s)"
proof -
  obtain i p b where v: "verify_loop H (auditCheckpointHash s) 0 (auditLogs s) (auditChain s) = Inr (i, p, b)"
    using assms(2) by (auto simp: verifyChain_def Let_def)
  show ?thesis
  proof (cases b)
    case None
    then show ?thesis using assms v verify_loop_chain_ok[OF assms(1)] by (auto simp: verifyChain_def Let_def)
  next
    case (Some x)
    then show ?thesis using assms v verify_loop_broken[of H _ 0] by (auto simp: verifyChain_def Let_def)
  qed
qed

section \<open>A collision-free digest determines the content\<close>

lemma computeAuditEntryHash_inj:
  assumes "inj H" "computeAuditEntryHash H p f = computeAuditEntryHash H q g"
  shows "p = q \<and> f = g"
proof -
  have "stringify (JArr (map nullable (chain_array p f))) = stringify (JArr (map nullable (chain_array q g)))"
    using assms(2) injD[OF assms(1)] unfolding computeAuditEntryHash_def by blast
  then have "chain_array p f = chain_array q g"
    by (rule array_text_inj) (simp add: chain_array_def)
  then show ?thesis by (simp add: chain_array_def chained_fields.equality)
qed

lemma chain_end_inj:
  assumes "inj H" "length es = length es'"
    and "chain_ok H p es ls" "chain_ok H q es' ls'" "chain_end p ls = chain_end q ls'"
  shows "map chainFields es = map chainFields es' \<and> p = q"
  using assms(2-)
proof (induction es arbitrary: es' ls ls' rule: rev_induct)
  case Nil
  then show ?case by (cases ls; cases ls') auto
next
  case (snoc e es)
  obtain e' es0 where es': "es' = es0 @ [e']" using snoc.prems(1) by (cases es' rule: rev_cases) auto
  obtain l ls0 where ls: "ls = ls0 @ [l]" using snoc.prems(2) chain_ok_length by (cases ls rule: rev_cases) fastforce+
  obtain l' ls0' where ls': "ls' = ls0' @ [l']"
    using snoc.prems(3) chain_ok_length es' by (cases ls' rule: rev_cases) fastforce+
  have len: "length es = length ls0" "length es0 = length ls0'"
    using chain_ok_length[OF snoc.prems(2)] chain_ok_length[OF snoc.prems(3)] es' ls ls' by auto
  have ok: "chain_ok H p es ls0" "cl_hash l = computeAuditEntryHash H (chain_end p ls0) (chainFields e)"
    "chain_ok H q es0 ls0'" "cl_hash l' = computeAuditEntryHash H (chain_end q ls0') (chainFields e')"
    using snoc.prems(2,3) by (simp_all add: ls ls' es' chain_ok_append[OF len(1)] chain_ok_append[OF len(2)])
  have "cl_hash l = cl_hash l'" using snoc.prems(4) by (simp add: ls ls')
  then have "chain_end p ls0 = chain_end q ls0' \<and> chainFields e = chainFields e'"
    using computeAuditEntryHash_inj[OF assms(1)] ok by metis
  then show ?case using snoc.IH[OF _ ok(1,3)] snoc.prems(1) es' by auto
qed

section \<open>Any sequence of operations\<close>

datatype audit_cmd = Record timestamp audit_input | Prune timestamp string date_in identity

fun audit_exec :: "(string \<Rightarrow> string) \<Rightarrow> audit_cmd \<Rightarrow> store \<Rightarrow> store" where
  "audit_exec H (Record now i) s = snd (audit_record H now i s)"
| "audit_exec H (Prune now rid cutoff actor) s = snd (pruneBefore H now rid cutoff actor s)"

definition audit_run :: "(string \<Rightarrow> string) \<Rightarrow> audit_cmd list \<Rightarrow> store \<Rightarrow> store" where
  "audit_run H cmds s = fold (audit_exec H) cmds s"

lemma audit_run_wf: "audit_wf H s \<Longrightarrow> audit_wf H (audit_run H cmds s)"
proof (induction cmds arbitrary: s)
  case (Cons c cmds)
  then have "audit_wf H (audit_exec H c s)" by (cases c) (simp_all add: audit_record_wf pruneBefore_wf)
  then show ?case using Cons.IH by (simp add: audit_run_def)
qed (simp add: audit_run_def)

text \<open>An exported head: pruned away, or still at its position.\<close>

definition anchored :: "position \<Rightarrow> store \<Rightarrow> bool" where
  "anchored a s \<longleftrightarrow> (0 < auditPruned s \<and> pos_position a \<le> int (auditPruned s)) \<or> hash_at s (pos_position a) = Some (pos_hash a)"

lemma anchored_append: "anchored a s \<Longrightarrow> anchored a (append_entry H e s)"
  by (auto simp: anchored_def hash_at_def append_entry_def Let_def nth_append split: if_splits)

lemma anchored_drop_oldest:
  assumes "anchored a s" "n \<le> length (auditChain s)"
  shows "anchored a (drop_oldest n s)"
proof (cases "pos_position a \<le> int (auditPruned s + n)")
  case True
  then show ?thesis using assms by (auto simp: anchored_def drop_oldest_def hash_at_def Let_def split: if_splits)
next
  case False
  define i where "i = nat (pos_position a - int (auditPruned s + n) - 1)"
  have i: "nat (pos_position a - int (auditPruned s) - 1) = n + i" "pos_position a - int (auditPruned s + n) - 1 = int i"
    using False by (auto simp: i_def)
  have "n + i < length (auditChain s)" "cl_hash (auditChain s ! (n + i)) = pos_hash a"
    using assms(1) False i by (auto simp: anchored_def hash_at_def Let_def split: if_splits)
  then show ?thesis using assms(2) i(2) by (simp add: anchored_def hash_at_def drop_oldest_def Let_def)
qed

lemma anchored_exec:
  assumes wf: "audit_wf H s" and a: "anchored a s"
  shows "anchored a (audit_exec H c s)"
proof (cases c)
  case (Record now i)
  then show ?thesis using a anchored_append by (simp add: audit_record_def Let_def split: guard_split)
next
  case (Prune now rid cutoff actor)
  have "anchored a (append_entry H e (drop_oldest (prune_count b (auditLogs s)) s))" for e b
    using anchored_append anchored_drop_oldest[OF a] prune_count_less[of b "auditLogs s"] audit_wf_length[OF wf]
    by (metis le_zero_eq less_imp_le not_less)
  then show ?thesis using a Prune by (simp add: pruneBefore_def Let_def split: guard_split)
qed

lemma anchored_run: "audit_wf H s \<Longrightarrow> anchored a s \<Longrightarrow> anchored a (audit_run H cmds s)"
proof (induction cmds arbitrary: s)
  case (Cons c cmds)
  have "audit_wf H (audit_exec H c s)" using audit_run_wf[OF Cons.prems(1), of "[c]"] by (simp add: audit_run_def)
  then show ?case using Cons.IH anchored_exec[OF Cons.prems] by (simp add: audit_run_def)
qed (simp add: audit_run_def)

lemma verifyChain_head:
  assumes "audit_wf H s" "verifyChain H s = Inr r" "rep_head r = Some a"
  shows "pos_position a = int (auditPruned s + length (auditLogs s))"
    and "chain_end (auditCheckpointHash s) (auditChain s) = Some (pos_hash a)"
proof -
  have "map_option (\<lambda>h. \<lparr> pos_position = int (auditPruned s + length (auditLogs s)), pos_hash = h \<rparr>)
      (chain_end (auditCheckpointHash s) (auditChain s)) = Some a"
    using verifyChain_wf[OF assms(1)] assms(2,3) by auto
  then show "pos_position a = int (auditPruned s + length (auditLogs s))"
    and "chain_end (auditCheckpointHash s) (auditChain s) = Some (pos_hash a)"
    by auto
qed

lemma head_anchored:
  assumes "audit_wf H s" "verifyChain H s = Inr r" "rep_head r = Some a"
  shows "anchored a s"
proof -
  have a: "pos_position a = int (auditPruned s + length (auditLogs s))"
      "chain_end (auditCheckpointHash s) (auditChain s) = Some (pos_hash a)"
    using verifyChain_head[OF assms] by auto
  have "auditChain s \<noteq> []" using a(2) assms(1) by (auto simp: audit_wf_def)
  then show ?thesis using a audit_wf_length[OF assms(1)]
    by (auto simp: anchored_def hash_at_def Let_def chain_end_def last_conv_nth nat_diff_distrib' nat_add_distrib)
qed

lemma verifyIntegrity_anchored:
  assumes "audit_wf H s" "anchored a s"
  shows "\<exists>r. verifyIntegrity H (Some a) s = Inr r \<and> rep_ok r \<and> rep_anchor r \<in> {Some Valid, Some Pruned}"
proof -
  obtain r where r: "verifyChain H s = Inr r" "rep_ok r" using verifyChain_wf[OF assms(1)] by blast
  have "rep_pruned r = (case auditCheckpointHash s of
      Some h \<Rightarrow> if auditPruned s > 0 then Some (\<lparr> pos_position = int (auditPruned s), pos_hash = h \<rparr>, auditPruned s) else None
    | None \<Rightarrow> None)"
    using r(1) by (auto simp: verifyChain_def Let_def split: option.splits)
  moreover have "hash_at s p = None" if "p \<le> 0" for p using that by (auto simp: hash_at_def Let_def)
  ultimately show ?thesis using r assms
    by (auto simp: verifyIntegrity_def applyAnchor_def Let_def anchored_def audit_wf_def split: option.splits)
qed

section \<open>Properties\<close>

text \<open>
  Whatever sequence of \<open>record\<close> and \<open>pruneBefore\<close> calls runs on a new storage, \<open>verifyIntegrity\<close>
  reports an intact log and checks every entry it still holds.
\<close>

theorem audit_run_verifies:
  "\<exists>r. verifyIntegrity H None (audit_run H cmds empty_store) = Inr r \<and> rep_ok r \<and> rep_broken r = None \<and>
       rep_checked r = length (auditLogs (audit_run H cmds empty_store))"
  using verifyChain_wf[OF audit_run_wf[OF audit_wf_empty], of H cmds]
  by (auto simp: verifyIntegrity_def applyAnchor_def)

text \<open>
  A head exported at any moment never raises a false alarm: after any further records and prunes,
  \<open>verifyIntegrity({ anchor })\<close> is ok and calls the anchor valid or pruned.
\<close>

theorem audit_anchor_stable:
  assumes "verifyChain H (audit_run H cmds empty_store) = Inr r" and "rep_head r = Some a"
  shows "\<exists>r'. verifyIntegrity H (Some a) (audit_run H (cmds @ cmds2) empty_store) = Inr r' \<and> rep_ok r' \<and>
           rep_anchor r' \<in> {Some Valid, Some Pruned}"
proof -
  let ?s = "audit_run H cmds empty_store"
  have wf: "audit_wf H ?s" by (simp add: audit_run_wf audit_wf_empty)
  have "audit_run H (cmds @ cmds2) empty_store = audit_run H cmds2 ?s" by (simp add: audit_run_def)
  then show ?thesis
    using verifyIntegrity_anchored[OF audit_run_wf[OF wf] anchored_run[OF wf head_anchored[OF wf assms]]] by simp
qed

definition demo_input :: audit_input where
  "demo_input = \<lparr> ai_id = ''e1'', ai_organizationId = None, ai_actor = \<lparr> provider = ''p'', subject = ''s'' \<rparr>,
     ai_action = ''member.blocked'', ai_target = None, ai_metadata = None \<rparr>"

lemma demo_run: "audit_run H [Record 0 demo_input] empty_store =
    append_entry H (entry_of demo_input 0) empty_store"
  by (simp add: audit_run_def audit_record_def Let_def assertAuditInput_def demo_input_def trim_def is_ws_def code_def)

lemma demo_head: "\<exists>r a. verifyChain H (audit_run H [Record 0 demo_input] empty_store) = Inr r \<and> rep_head r = Some a"
  by (simp add: demo_run verifyChain_def append_entry_def)

theorem audit_anchor_stable_witness:
  "\<exists>r a r'. verifyChain id (audit_run id [Record 0 demo_input] empty_store) = Inr r \<and> rep_head r = Some a \<and>
     verifyIntegrity id (Some a) (audit_run id ([Record 0 demo_input] @ [Record 1 demo_input]) empty_store) = Inr r' \<and>
     rep_anchor r' \<in> {Some Valid, Some Pruned}"
  using demo_head[of id] audit_anchor_stable[of id "[Record 0 demo_input]" _ _ "[Record 1 demo_input]"] by metis

text \<open>
  C30: tamper evidence.  If the digest has no collisions and a log \<open>t\<close> verifies as intact with a valid
  anchor that is the head of the log \<open>s\<close>, then every entry of \<open>s\<close> that \<open>t\<close> has not pruned is in \<open>t\<close>, at
  its position and with unchanged fields: nothing up to the head was edited, removed or inserted.
\<close>

theorem audit_tamper_evident:
  assumes H: "inj H" and s: "audit_wf H s" "verifyChain H s = Inr r" "rep_head r = Some a"
    and t: "verifyIntegrity H (Some a) t = Inr r'" "rep_ok r'" "rep_anchor r' = Some Valid"
    and len: "length (auditLogs t) = length (auditChain t)" and later: "auditPruned s \<le> auditPruned t"
  shows "map chainFields (take (auditPruned s + length (auditLogs s) - auditPruned t) (auditLogs t)) =
         map chainFields (drop (auditPruned t - auditPruned s) (auditLogs s))"
proof -
  define k where "k = auditPruned s + length (auditLogs s) - auditPruned t"
  define d where "d = auditPruned t - auditPruned s"
  have a: "pos_position a = int (auditPruned s + length (auditLogs s))"
      "chain_end (auditCheckpointHash s) (auditChain s) = Some (pos_hash a)"
    using verifyChain_head[OF s] by auto
  obtain r0 where r0: "verifyChain H t = Inr r0" "r' = applyAnchor r0 (Some a) (hash_at t)"
    using t(1) by (auto simp: verifyIntegrity_def)
  have "rep_ok r0" and at: "hash_at t (pos_position a) = Some (pos_hash a)"
    using t(2,3) r0(2) by (auto simp: applyAnchor_def Let_def split: if_splits option.splits)
  then have okt: "chain_ok H (auditCheckpointHash t) (auditLogs t) (auditChain t)"
    using verifyChain_ok_iff[OF len r0(1)] by simp
  have k: "0 < k" "k \<le> length (auditChain t)" "cl_hash (auditChain t ! (k - 1)) = pos_hash a"
    using at a(1) by (auto simp: hash_at_def k_def Let_def nat_diff_distrib' nat_add_distrib split: if_splits)
  have oks: "chain_ok H (auditCheckpointHash s) (auditLogs s) (auditChain s)" using s(1) by (simp add: audit_wf_def)
  have dl: "d < length (auditLogs s)" and kd: "k = length (auditLogs s) - d" using k(1) later by (auto simp: k_def d_def)
  have "chain_end (chain_end (auditCheckpointHash s) (take d (auditChain s))) (drop d (auditChain s)) = Some (pos_hash a)"
    using a(2) dl audit_wf_length[OF s(1)] by (auto simp: chain_end_def split: if_splits)
  moreover have "chain_end (auditCheckpointHash t) (take k (auditChain t)) = Some (pos_hash a)"
    using chain_end_take[OF k(1,2)] k(3) by simp
  ultimately have "map chainFields (take k (auditLogs t)) = map chainFields (drop d (auditLogs s))"
    using chain_end_inj[OF H _ conjunct1[OF chain_ok_split[OF okt k(2)]] conjunct2[OF chain_ok_split[OF oks, of d]]]
      dl kd k(2) len audit_wf_length[OF s(1)] by simp
  then show ?thesis by (simp add: k_def d_def)
qed

theorem audit_tamper_evident_witness:
  "map chainFields (take 1 (auditLogs (audit_run id [Record 0 demo_input] empty_store))) =
   map chainFields (drop 0 (auditLogs (audit_run id [Record 0 demo_input] empty_store)))"
proof -
  let ?s = "audit_run id [Record 0 demo_input] empty_store"
  have wf: "audit_wf id ?s" by (simp add: audit_run_wf audit_wf_empty)
  obtain r a where r: "verifyChain id ?s = Inr r" "rep_head r = Some a" using demo_head by blast
  have "a = \<lparr> pos_position = 1, pos_hash = cl_hash (auditChain ?s ! 0) \<rparr>"
    using r by (auto simp: demo_run verifyChain_def append_entry_def)
  then obtain r' where "verifyIntegrity id (Some a) ?s = Inr r'" "rep_ok r'" "rep_anchor r' = Some Valid"
    by (simp add: demo_run verifyIntegrity_def applyAnchor_def verifyChain_def append_entry_def hash_at_def)
  from audit_tamper_evident[OF inj_on_id wf r this] show ?thesis
    by (simp add: demo_run append_entry_def)
qed

text \<open>
  \<open>pruneBefore\<close> removes exactly the longest prefix of entries older than the cut-off, never the
  newest entry, and appends the entry that reports it.
\<close>

theorem pruneBefore_removes:
  assumes "pruneBefore H now rid cutoff actor s = (Inr (n, through), s')" and "0 < n"
  shows "\<exists>b e. cutoff = At b \<and> b \<le> now \<and> auditLogs s' = drop n (auditLogs s) @ [e] \<and> n < length (auditLogs s) \<and>
    (\<forall>x \<in> set (take n (auditLogs s)). al_createdAt x < b) \<and>
    (al_createdAt (auditLogs s ! n) < b \<longrightarrow> Suc n = length (auditLogs s)) \<and>
    al_action e = ''audit_log.pruned'' \<and> al_actor e = actor \<and> auditPruned s' = auditPruned s + n"
proof -
  obtain b where b: "assertPruneCutoff cutoff now = Inr b" "assertAuditInput actor ''audit_log.pruned'' = Inr ()"
    using assms(1) by (auto simp: pruneBefore_def fails_def guard_def split: sum.splits)
  then have cut: "cutoff = At b" "b \<le> now" by (auto simp: assertPruneCutoff_def split: date_in.splits if_splits)
  have n: "n = prune_count b (auditLogs s)"
    using assms b by (auto simp: pruneBefore_def Let_def returns_def split: if_splits)
  have tw: "take n (auditLogs s) = takeWhile (\<lambda>e. al_createdAt e < b) (butlast (auditLogs s))"
  proof -
    have "take n (butlast (auditLogs s)) = takeWhile (\<lambda>e. al_createdAt e < b) (butlast (auditLogs s))"
      unfolding n prune_count_def by (simp add: takeWhile_eq_take[symmetric])
    then show ?thesis using prune_count_pos[of b "auditLogs s"] assms(2) n
      by (simp add: take_butlast)
  qed
  then have old: "\<forall>x \<in> set (take n (auditLogs s)). al_createdAt x < b" by (auto dest: set_takeWhileD)
  have len: "n < length (auditLogs s)" using prune_count_pos assms(2) n by blast
  have next_new: "Suc n = length (auditLogs s)" if "al_createdAt (auditLogs s ! n) < b"
  proof (rule ccontr)
    assume "Suc n \<noteq> length (auditLogs s)"
    then have "n < length (butlast (auditLogs s))" using len by simp
    then have "\<not> al_createdAt (butlast (auditLogs s) ! n) < b"
      unfolding n prune_count_def by (rule nth_length_takeWhile)
    then show False using that \<open>n < length (butlast _)\<close> by (simp add: nth_butlast)
  qed
  show ?thesis using assms b cut old len next_new n
    by (auto simp: pruneBefore_def Let_def returns_def append_entry_def drop_oldest_def)
qed

definition demo_prune_store :: store where
  "demo_prune_store = empty_store \<lparr>
     auditLogs := [entry_of demo_input 0, entry_of demo_input 5],
     auditChain := [\<lparr> cl_prev = None, cl_hash = ''h0'' \<rparr>, \<lparr> cl_prev = Some ''h0'', cl_hash = ''h5'' \<rparr>] \<rparr>"

theorem pruneBefore_removes_witness:
  "\<exists>e. auditLogs (snd (pruneBefore id 10 ''x'' (At 3) (ai_actor demo_input) demo_prune_store)) =
      drop 1 (auditLogs demo_prune_store) @ [e] \<and> al_action e = ''audit_log.pruned''"
proof -
  have "pruneBefore id 10 ''x'' (At 3) (ai_actor demo_input) demo_prune_store =
      (Inr (1, Some \<lparr> pos_position = 1, pos_hash = ''h0'' \<rparr>),
       snd (pruneBefore id 10 ''x'' (At 3) (ai_actor demo_input) demo_prune_store))"
    by (simp add: pruneBefore_def assertPruneCutoff_def assertAuditInput_def demo_input_def trim_def is_ws_def code_def
        demo_prune_store_def prune_count_def entry_of_def Let_def returns_def)
  from pruneBefore_removes[OF this] show ?thesis by auto
qed

end
