(* ===== verification/Hierarchy.thy ===== *)
theory Hierarchy
  imports Prelude
begin

text \<open>
  Parent pointers: what the feature catalog (\<open>parentKey\<close>) and the teams (\<open>parentId\<close>) share.

  \<open>par k\<close> is \<open>None\<close> when there is no node \<open>k\<close>, \<open>Some None\<close> for a root and \<open>Some (Some p)\<close> below \<open>p\<close>.
  \<open>within par n k\<close>: the way up from \<open>k\<close> exists, and ends at a root after at most \<open>n\<close> nodes.  The lemmas
  say what re-parenting, detaching and deleting a node do to a forest of bounded depth; the locale
  \<open>bounded_forest\<close> is the contract a store of such nodes offers to the code that walks it.
\<close>

type_synonym 'k parents = "'k \<Rightarrow> 'k option option"

fun within :: "'k parents \<Rightarrow> nat \<Rightarrow> 'k \<Rightarrow> bool" where
  "within par 0 k = False"
| "within par (Suc n) k = (case par k of None \<Rightarrow> False | Some None \<Rightarrow> True | Some (Some p) \<Rightarrow> within par n p)"

text \<open>The \<open>j\<close>-th ancestor.\<close>

fun up :: "'k parents \<Rightarrow> nat \<Rightarrow> 'k \<Rightarrow> 'k option" where
  "up par 0 k = Some k"
| "up par (Suc j) k = (case par k of Some (Some p) \<Rightarrow> up par j p | _ \<Rightarrow> None)"

definition forest :: "nat \<Rightarrow> 'k parents \<Rightarrow> bool" where
  "forest D par \<longleftrightarrow> (\<forall>k. par k \<noteq> None \<longrightarrow> within par D k)"

section \<open>Walking up\<close>

lemma within_Suc: "within par n k \<Longrightarrow> within par (Suc n) k"
  by (induction par n k rule: within.induct) (auto split: option.splits)

lemma within_mono: "within par n k \<Longrightarrow> n \<le> m \<Longrightarrow> within par m k"
  by (induction m) (auto simp only: le_Suc_eq within_Suc le_zero_eq)

lemma within_present: "within par n k \<Longrightarrow> par k \<noteq> None"
  by (cases n) (auto split: option.splits)

lemma up_add: "up par (i + j) k = Option.bind (up par i k) (up par j)"
  by (induction par i k rule: up.induct) (auto split: option.splits)

lemma up_Suc_right: "up par (Suc j) k = Option.bind (up par j k) (\<lambda>y. case par y of Some (Some p) \<Rightarrow> Some p | _ \<Rightarrow> None)"
proof -
  have "up par (Suc j) k = Option.bind (up par j k) (up par 1)" using up_add[of par j 1 k] by simp
  moreover have "up par 1 = (\<lambda>y. case par y of Some (Some p) \<Rightarrow> Some p | _ \<Rightarrow> None)"
    by (rule ext) (simp split: option.split)
  ultimately show ?thesis by simp
qed

lemma within_up: "within par n k \<Longrightarrow> up par j k = Some z \<Longrightarrow> j < n \<and> within par (n - j) z"
proof (induction par n k arbitrary: j rule: within.induct)
  case (2 par n k)
  then show ?case by (cases j) (auto split: option.splits)
qed simp

lemma no_cycle: "within par n k \<Longrightarrow> up par (Suc i) k \<noteq> Some k"
proof (induction n rule: less_induct)
  case (less n)
  show ?case
  proof
    assume c: "up par (Suc i) k = Some k"
    then have "Suc i < n" "within par (n - Suc i) k" using within_up[OF less.prems c] by auto
    then show False using less.IH[of "n - Suc i"] c by simp
  qed
qed

lemma root_of_within: "within par n k \<Longrightarrow> \<exists>j r. j < n \<and> up par j k = Some r \<and> par r = Some None"
proof (induction par n k rule: within.induct)
  case (2 par n k)
  show ?case
  proof (cases "par k")
    case (Some y)
    show ?thesis
    proof (cases y)
      case None
      then show ?thesis using Some by (intro exI[of _ 0] exI[of _ k]) simp
    next
      case p: (Some p)
      then obtain j r where "j < n" "up par j p = Some r" "par r = Some None" using 2 Some by auto
      then show ?thesis using Some p by (intro exI[of _ "Suc j"] exI[of _ r]) simp
    qed
  qed (use 2 in simp)
qed simp

text \<open>The nodes on the way up, the node itself first.\<close>

fun path :: "'k parents \<Rightarrow> nat \<Rightarrow> 'k \<Rightarrow> 'k list" where
  "path par 0 k = []"
| "path par (Suc n) k = (case par k of None \<Rightarrow> [] | Some None \<Rightarrow> [k] | Some (Some p) \<Rightarrow> k # path par n p)"

lemma path_mono: "within par n k \<Longrightarrow> n \<le> m \<Longrightarrow> path par m k = path par n k"
proof (induction par n k arbitrary: m rule: within.induct)
  case (2 par n k)
  then obtain m' where m: "m = Suc m'" by (cases m) auto
  show ?case
  proof (cases "par k")
    case (Some y)
    show ?thesis
    proof (cases y)
      case p: (Some p)
      then have "path par m' p = path par n p" using "2.IH"[OF Some p, of m'] "2.prems" Some m by simp
      then show ?thesis using Some p m by simp
    qed (use m Some in simp)
  qed (use m in simp)
qed simp

lemma ex_up: "(\<exists>j. up par j k = Some z) \<longleftrightarrow> z = k \<or> (\<exists>j p. par k = Some (Some p) \<and> up par j p = Some z)"
proof
  assume "\<exists>j. up par j k = Some z"
  then obtain j where j: "up par j k = Some z" by blast
  then show "z = k \<or> (\<exists>j p. par k = Some (Some p) \<and> up par j p = Some z)"
    by (cases j) (auto split: option.splits)
next
  assume "z = k \<or> (\<exists>j p. par k = Some (Some p) \<and> up par j p = Some z)"
  then show "\<exists>j. up par j k = Some z"
  proof (elim disjE exE conjE)
    assume "z = k"
    then have "up par 0 k = Some z" by simp
    then show ?thesis by blast
  next
    fix j p assume "par k = Some (Some p)" "up par j p = Some z"
    then have "up par (Suc j) k = Some z" by simp
    then show ?thesis by blast
  qed
qed

lemma set_path: "within par n k \<Longrightarrow> z \<in> set (path par n k) \<longleftrightarrow> (\<exists>j. up par j k = Some z)"
proof (induction par n k rule: within.induct)
  case (2 par n k)
  show ?case
  proof (cases "par k")
    case (Some y)
    then show ?thesis using 2 ex_up[of par k z] by (cases y) auto
  qed (use 2 in simp)
qed simp

lemma distinct_path: "within par n k \<Longrightarrow> distinct (path par n k)"
proof (induction par n k rule: within.induct)
  case (2 par n k)
  have "k \<notin> set (path par n p)" if p: "par k = Some (Some p)" for p
  proof
    assume "k \<in> set (path par n p)"
    moreover have "within par n p" using "2.prems" p by simp
    ultimately obtain j where "up par j p = Some k" using set_path by metis
    then have "up par (Suc j) k = Some k" using p by simp
    then show False using no_cycle[OF "2.prems", of j] by (rule notE[rotated])
  qed
  then show ?case using 2 by (auto split: option.splits)
qed simp

lemma within_path_length: "within par n k \<Longrightarrow> within par (length (path par n k)) k"
  by (induction par n k rule: within.induct) (auto split: option.splits)

lemma length_path: "length (path par n k) \<le> n"
  by (induction par n k rule: path.induct) (auto split: option.splits)

lemma path_root: "within par n k \<Longrightarrow> path par n k \<noteq> [] \<and> par (last (path par n k)) = Some None"
  by (induction par n k rule: within.induct) (auto split: option.splits)

lemma path_present: "z \<in> set (path par n k) \<Longrightarrow> \<exists>y. par z = Some y"
proof (induction par n k rule: path.induct)
  case (2 par n k)
  show ?case
  proof (cases "par k")
    case (Some y)
    then show ?thesis using 2 by (cases y) auto
  qed (use 2 in simp)
qed simp

section \<open>Changing one node\<close>

lemma reparent_within:
  assumes p: "within par c p" "\<And>j. up par j p \<noteq> Some k" and x: "within par n x"
  shows "within (par(k \<mapsto> Some p)) n x \<or> (\<exists>j. up par j x = Some k \<and> within (par(k \<mapsto> Some p)) (j + Suc c) x)"
proof -
  have stay: "within par m y \<Longrightarrow> (\<And>j. up par j y \<noteq> Some k) \<Longrightarrow> within (par(k \<mapsto> Some p)) m y" for m y
  proof (induction m arbitrary: y)
    case (Suc m)
    have "y \<noteq> k" using Suc.prems(2)[of 0] by auto
    moreover have "up par j q \<noteq> Some k" if "par y = Some (Some q)" for j q
      using Suc.prems(2)[of "Suc j"] that by simp
    ultimately show ?case using Suc by (auto split: option.splits)
  qed simp
  have k: "within (par(k \<mapsto> Some p)) (Suc c) k" using stay[OF p] by simp
  show ?thesis using x
  proof (induction n arbitrary: x)
    case (Suc n)
    show ?case
    proof (cases "x = k")
      case True
      then show ?thesis using k by (intro disjI2 exI[of _ 0] conjI) (simp_all only: up.simps add_0)
    next
      case x: False
      show ?thesis
      proof (cases "par x")
        case (Some y)
        show ?thesis
        proof (cases y)
          case None
          then show ?thesis using Some x by simp
        next
          case p': (Some q)
          then have "within par n q" using Suc.prems Some by simp
          from Suc.IH[OF this] show ?thesis
          proof (elim disjE exE conjE)
            fix j assume j: "up par j q = Some k" "within (par(k \<mapsto> Some p)) (j + Suc c) q"
            have "(par(k \<mapsto> Some p)) x = Some (Some q)" using Some p' x by simp
            then have "within (par(k \<mapsto> Some p)) (Suc j + Suc c) x"
              using j(2) by (simp only: add_Suc within.simps option.case)
            moreover have "up par (Suc j) x = Some k" using j(1) Some p' by simp
            ultimately show ?thesis by blast
          qed (use Some p' x in simp)
        qed
      qed (use Suc.prems in simp)
    qed
  qed simp
qed

lemma forest_reparent:
  assumes "forest D par" and p: "within par c p" "\<And>j. up par j p \<noteq> Some k"
    and h: "\<And>x j. up par j x = Some k \<Longrightarrow> j \<le> h" and D: "c + 1 + h \<le> D"
  shows "forest D (par(k \<mapsto> Some p))"
  unfolding forest_def
proof (intro allI impI)
  fix x assume x: "(par(k \<mapsto> Some p)) x \<noteq> None"
  show "within (par(k \<mapsto> Some p)) D x"
  proof (cases "par x = None")
    case True
    then have "x = k" using x by (auto split: if_splits)
    have "within (par(k \<mapsto> Some p)) c p"
      using reparent_within[OF p p(1)] p(2) by blast
    then have "within (par(k \<mapsto> Some p)) (Suc c) k"
      by (simp del: fun_upd_apply add: fun_upd_same)
    then show ?thesis using \<open>x = k\<close> D within_mono by (metis Suc_eq_plus1 add_leD1)
  next
    case False
    then have "within par D x" using assms(1) by (simp add: forest_def)
    from reparent_within[OF p this] show ?thesis
      using h D within_mono by (metis (no_types, lifting) add.commute add_Suc_right add_le_cancel_right le_trans plus_1_eq_Suc)
  qed
qed

lemma forest_detach: "forest D par \<Longrightarrow> 0 < D \<Longrightarrow> forest D (par(k \<mapsto> None))"
  unfolding forest_def
proof (intro allI impI)
  fix x assume f: "\<forall>k. par k \<noteq> None \<longrightarrow> within par D k" and D: "0 < D" and x: "(par(k \<mapsto> None)) x \<noteq> None"
  have root: "within (par(k \<mapsto> None)) (Suc m) k" for m by simp
  have "within par n y \<Longrightarrow> within (par(k \<mapsto> None)) n y" for n y
    by (induction par n y rule: within.induct) (auto split: option.splits)
  then show "within (par(k \<mapsto> None)) D x"
    using f x D root[of "D - 1"] by (cases "x = k") auto
qed

lemma forest_delete:
  assumes "forest D par" "\<And>x. par x \<noteq> Some (Some k)"
  shows "forest D (par(k := None))"
  unfolding forest_def
proof (intro allI impI)
  fix x assume x: "(par(k := None)) x \<noteq> None"
  have "within par n y \<Longrightarrow> y \<noteq> k \<Longrightarrow> within (par(k := None)) n y" for n y
  proof (induction n arbitrary: y)
    case (Suc n)
    then show ?case using assms(2)[of y] by (auto split: option.splits)
  qed simp
  then show "within (par(k := None)) D x" using x assms(1) by (auto simp: forest_def split: if_splits)
qed

section \<open>The contract\<close>

text \<open>
  A store of nodes: its parent map, and an invariant under which that map is a forest of at most \<open>D\<close>
  levels.  Code that walks the pointers relies on what follows from it.
\<close>

locale bounded_forest =
  fixes par :: "'s \<Rightarrow> 'k parents" and inv :: "'s \<Rightarrow> bool" and D :: nat
  assumes forest_inv: "inv s \<Longrightarrow> forest D (par s)"
begin

lemma parent_present: "inv s \<Longrightarrow> par s k = Some (Some p) \<Longrightarrow> par s p \<noteq> None"
proof -
  assume "inv s" "par s k = Some (Some p)"
  then have "within (par s) D k" using forest_inv by (auto simp: forest_def)
  then show ?thesis using \<open>par s k = _\<close> within_present by (cases D) fastforce+
qed

lemma acyclic: "inv s \<Longrightarrow> up (par s) (Suc i) k \<noteq> Some k"
proof
  assume "inv s" and c: "up (par s) (Suc i) k = Some k"
  then have "par s k \<noteq> None" by (auto split: option.splits)
  then have "within (par s) D k" using forest_inv[OF \<open>inv s\<close>] by (auto simp: forest_def)
  from no_cycle[OF this] c show False by (rule notE)
qed

lemma few_ancestors: "inv s \<Longrightarrow> par s k \<noteq> None \<Longrightarrow> up (par s) j k = Some a \<Longrightarrow> j < D"
  using forest_inv within_up by (fastforce simp: forest_def)

text \<open>Every walk ends at a root within the bound.\<close>

lemma root_above: "inv s \<Longrightarrow> par s k \<noteq> None \<Longrightarrow> \<exists>j r. j < D \<and> up (par s) j k = Some r \<and> par s r = Some None"
  using forest_inv root_of_within[of "par s" D k] by (auto simp: forest_def)

end

end
