(* ===== verification/FeatureEffective.thy ===== *)
theory FeatureEffective
  imports State Hierarchy
begin

text \<open>
  Feature keys and the resolution of effective features: \<open>packages/core/src/feature/key.ts\<close> and
  \<open>feature/effective.ts\<close>.  The lemmas relate the resolution loop, the chain of a key and the
  requirements the SQL backends use, and show that the parent check keeps the catalog a forest.
\<close>

section \<open>Names and keys\<close>

definition sanitizeFeatureName :: "string \<Rightarrow> uerror + string" where
  "sanitizeFeatureName name =
     (let trimmed = clean_name name in
      if trimmed = [] then Inl (featErr ''Feature name cannot be empty.'')
      else if length trimmed > 100 then Inl (featErr ''Feature name cannot exceed 100 characters.'')
      else Inr trimmed)"

definition deriveFeatureKey :: "string \<Rightarrow> string" where
  "deriveFeatureKey name = derive_with (CHR ''_'') 63 name"

definition matchesFeatureKey :: "string \<Rightarrow> bool" where
  "matchesFeatureKey k = seg_start is_alnum is_underscore k"

definition assertValidFeatureKey :: "string \<Rightarrow> uerror + string" where
  "assertValidFeatureKey key =
     (if key = [] then Inl (featErr ''Feature key cannot be empty.'')
      else if length key > 63 then Inl (featErr ''Feature key cannot exceed 63 characters.'')
      else if \<not> matchesFeatureKey key
      then Inl (featErr ''Feature key must be lowercase alphanumeric characters separated by single underscores (e.g. advanced_reports).'')
      else Inr key)"

definition resolveFeatureKey :: "string \<Rightarrow> string option \<Rightarrow> uerror + string" where
  "resolveFeatureKey name explicitKey =
     (case explicitKey of
        Some k \<Rightarrow> assertValidFeatureKey k
      | None \<Rightarrow>
          let derived = deriveFeatureKey name in
          if derived = [] then Inl (featErr ''Could not derive a key from this feature name - pass an explicit key.'')
          else assertValidFeatureKey derived)"

lemma assertValidFeatureKey_Inr: "assertValidFeatureKey k = Inr k' \<longleftrightarrow> k' = k \<and> k \<noteq> [] \<and> length k \<le> 63 \<and> matchesFeatureKey k"
  by (auto simp: assertValidFeatureKey_def)

lemma resolveFeatureKey_valid:
  "resolveFeatureKey name e = Inr k \<Longrightarrow> k \<noteq> [] \<and> length k \<le> 63 \<and> matchesFeatureKey k"
  by (auto simp: resolveFeatureKey_def Let_def assertValidFeatureKey_Inr split: option.splits if_splits)

lemma derived_feature_key_accepted:
  "deriveFeatureKey name \<noteq> [] \<Longrightarrow> assertValidFeatureKey (deriveFeatureKey name) = Inr (deriveFeatureKey name)"
  using derive_with_valid[of "CHR ''_''" is_underscore 63 name]
  by (simp add: assertValidFeatureKey_Inr deriveFeatureKey_def matchesFeatureKey_def is_underscore_def)

lemma seg_chars:
  "(seg_start C S s \<longrightarrow> (\<forall>c \<in> set s. C c \<or> S c)) \<and> (seg_in C S s \<longrightarrow> (\<forall>c \<in> set s. C c \<or> S c))"
  by (induction s) (auto split: if_splits)

lemma feature_key_no_colon: "matchesFeatureKey k \<Longrightarrow> CHR '':'' \<notin> set k"
  using seg_chars[of is_alnum is_underscore k]
  by (auto simp: matchesFeatureKey_def is_alnum_def is_lower_az_def is_digit09_def is_underscore_def code_def)

section \<open>The catalog\<close>

type_synonym catalog = "(string, feature_def) jsmap"

definition MAX_FEATURE_DEPTH :: nat where
  "MAX_FEATURE_DEPTH = 8"

text \<open>The loop of \<open>featureChain\<close>; \<open>n\<close> is how many keys may still be added (\<open>MAX_FEATURE_DEPTH + 1\<close> in all).\<close>

fun chain_loop :: "nat \<Rightarrow> catalog \<Rightarrow> string list \<Rightarrow> string option \<Rightarrow> string list" where
  "chain_loop 0 defs chain current = chain"
| "chain_loop (Suc n) defs chain None = chain"
| "chain_loop (Suc n) defs chain (Some k) =
     (case mget defs k of
        None \<Rightarrow> chain
      | Some d \<Rightarrow> if k \<in> set chain then chain else chain_loop n defs (chain @ [k]) (fd_parentKey d))"

definition featureChain :: "catalog \<Rightarrow> string \<Rightarrow> string list" where
  "featureChain defs key = chain_loop (MAX_FEATURE_DEPTH + 1) defs [] (Some key)"

function fheight :: "feature_def list \<Rightarrow> string \<Rightarrow> string list \<Rightarrow> nat" where
  "fheight defs current seen =
     maxl (map (\<lambda>child. 1 + fheight defs (fd_key child) (fd_key child # seen))
       (filter (\<lambda>child. fd_parentKey child = Some current \<and> fd_key child \<notin> set seen) defs))"
  by pat_completeness auto
termination
proof (relation "measure (\<lambda>(defs, current, seen). length (filter (\<lambda>d. fd_key d \<notin> set seen) defs))")
  fix defs :: "feature_def list" and current :: string and seen :: "string list" and child
  assume "child \<in> set (filter (\<lambda>child. fd_parentKey child = Some current \<and> fd_key child \<notin> set seen) defs)"
  then have "child \<in> set defs" "fd_key child \<notin> set seen" by auto
  then have "length (filter (\<lambda>d. fd_key d \<notin> set (fd_key child # seen)) defs) <
      length (filter (\<lambda>d. fd_key d \<notin> set seen) defs)"
    by (intro length_filter_less_mono[of _ _ _ child]) auto
  then show "((defs, fd_key child, fd_key child # seen), defs, current, seen)
      \<in> measure (\<lambda>(defs, current, seen). length (filter (\<lambda>d. fd_key d \<notin> set seen) defs))"
    by simp
qed simp

declare fheight.simps [simp del]

definition assertValidFeatureParent :: "catalog \<Rightarrow> string \<Rightarrow> string option \<Rightarrow> uerror + unit" where
  "assertValidFeatureParent defs key parentKey =
     (case parentKey of
        None \<Rightarrow> Inr ()
      | Some p \<Rightarrow>
          if p = key then Inl (UError EFeature ''feature_parent_invalid'')
          else if \<not> mhas defs p then Inl (UError EFeature ''feature_parent_invalid'')
          else
            let parentChain = featureChain defs p in
            if key \<in> set parentChain then Inl (UError EFeature ''feature_parent_invalid'')
            else if length parentChain + 1 + fheight (mvals defs) key [key] > MAX_FEATURE_DEPTH
            then Inl (UError EFeature ''feature_parent_invalid'')
            else Inr ())"

record requirements =
  rq_chain :: "string list"
  rq_requiredOn :: "string list"
  rq_complete :: bool

definition featureRequirements :: "catalog \<Rightarrow> string \<Rightarrow> requirements" where
  "featureRequirements defs key =
     (let chain = featureChain defs key;
          last_def = mget defs (if chain = [] then [] else last chain)
      in \<lparr> rq_chain = chain,
           rq_requiredOn = filter (\<lambda>k. case mget defs k of Some d \<Rightarrow> \<not> fd_defaultEnabled d | None \<Rightarrow> False) chain,
           rq_complete = (chain \<noteq> [] \<and> length chain \<le> MAX_FEATURE_DEPTH + 1 \<and>
             (case last_def of None \<Rightarrow> True | Some d \<Rightarrow> fd_parentKey d = None)) \<rparr>)"

section \<open>Resolution\<close>

datatype effective_reason = FEnabled | FDisabled | FDefault | FParentDisabled

record override_view =
  ov_enabled :: bool
  ov_updatedAt :: "timestamp option"
  ov_updatedBy :: "identity option"
  ov_reason :: "string option"
  ov_version :: int

record effective =
  ef_key :: string
  ef_enabled :: bool
  ef_reason :: effective_reason
  ef_defaultEnabled :: bool
  ef_parentKey :: "string option"
  ef_blockedBy :: "string option"
  ef_defaultReason :: "string option"
  ef_defaultUpdatedAt :: "timestamp option"
  ef_override :: "override_view option"

definition override_of :: "feature \<Rightarrow> override_view" where
  "override_of row = \<lparr> ov_enabled = f_enabled row, ov_updatedAt = f_updatedAt row, ov_updatedBy = f_updatedBy row,
     ov_reason = f_reason row, ov_version = f_version row \<rparr>"

definition ownState :: "(string, feature) jsmap \<Rightarrow> feature_def \<Rightarrow> bool" where
  "ownState overrideByKey d =
     (case mget overrideByKey (fd_key d) of Some row \<Rightarrow> f_enabled row | None \<Rightarrow> fd_defaultEnabled d)"

text \<open>The loop over the ancestors; \<open>n\<close> is \<open>MAX_FEATURE_DEPTH - depth\<close>.\<close>

fun blocked_by :: "nat \<Rightarrow> catalog \<Rightarrow> (feature_def \<Rightarrow> bool) \<Rightarrow> string option \<Rightarrow> string option" where
  "blocked_by n byKey own None = None"
| "blocked_by 0 byKey own (Some p) = Some p"
| "blocked_by (Suc n) byKey own (Some p) =
     (case mget byKey p of
        None \<Rightarrow> Some p
      | Some d \<Rightarrow> if \<not> own d then Some (fd_key d) else blocked_by n byKey own (fd_parentKey d))"

definition resolve_one :: "catalog \<Rightarrow> (string, feature) jsmap \<Rightarrow> feature_def \<Rightarrow> effective" where
  "resolve_one byKey overrideByKey d =
     (let row = mget overrideByKey (fd_key d);
          own = ownState overrideByKey d;
          base = \<lparr> ef_key = fd_key d, ef_enabled = False, ef_reason = FDefault,
                   ef_defaultEnabled = fd_defaultEnabled d, ef_parentKey = fd_parentKey d, ef_blockedBy = None,
                   ef_defaultReason = (if row = None \<and> \<not> fd_defaultEnabled d then fd_reason d else None),
                   ef_defaultUpdatedAt = (if row = None \<and> \<not> fd_defaultEnabled d then fd_updatedAt d else None),
                   ef_override = map_option override_of row \<rparr>
      in if \<not> own then base \<lparr> ef_enabled := False, ef_reason := (if row \<noteq> None then FDisabled else FDefault) \<rparr>
         else case blocked_by MAX_FEATURE_DEPTH byKey (ownState overrideByKey) (fd_parentKey d) of
           Some b \<Rightarrow> base \<lparr> ef_enabled := False, ef_reason := FParentDisabled, ef_blockedBy := Some b \<rparr>
         | None \<Rightarrow> base \<lparr> ef_enabled := True, ef_reason := (if row \<noteq> None then FEnabled else FDefault) \<rparr>)"

definition resolveEffectiveFeatures :: "feature_def list \<Rightarrow> feature list \<Rightarrow> effective list" where
  "resolveEffectiveFeatures definitions overrides =
     (let byKey = of_entries (map (\<lambda>d. (fd_key d, d)) definitions);
          overrideByKey = of_entries (map (\<lambda>row. (f_key row, row)) overrides)
      in map (resolve_one byKey overrideByKey) definitions)"

section \<open>The catalog is a forest\<close>

definition feature_parent :: "catalog \<Rightarrow> string parents" where
  "feature_parent defs k = map_option fd_parentKey (mget defs k)"

definition catalog_wf :: "catalog \<Rightarrow> bool" where
  "catalog_wf defs \<longleftrightarrow> keyed fd_key defs \<and> forest MAX_FEATURE_DEPTH (feature_parent defs) \<and>
     list_all (\<lambda>d. matchesFeatureKey (fd_key d)) (mvals defs)"

interpretation feature_tree: bounded_forest feature_parent catalog_wf MAX_FEATURE_DEPTH
  by unfold_locales (simp add: catalog_wf_def)

lemma feature_parent_get:
  "mget defs k = Some d \<Longrightarrow> feature_parent defs k = Some (fd_parentKey d)"
  "mget defs k = None \<Longrightarrow> feature_parent defs k = None"
  by (simp_all add: feature_parent_def)

lemma feature_parent_update: "feature_parent (mset_at k d defs) = (feature_parent defs)(k \<mapsto> fd_parentKey d)"
  by (rule ext) (simp add: feature_parent_def)

lemma feature_parent_delete: "feature_parent (mdel k defs) = (feature_parent defs)(k := None)"
  by (rule ext) (simp add: feature_parent_def)

lemma chain_loop_path:
  "within (feature_parent defs) n k \<Longrightarrow> set chain \<inter> set (path (feature_parent defs) n k) = {} \<Longrightarrow> n \<le> m \<Longrightarrow>
   chain_loop m defs chain (Some k) = chain @ path (feature_parent defs) n k"
proof (induction n arbitrary: m k chain)
  case (Suc n)
  then obtain m' where m: "m = Suc m'" by (cases m) auto
  obtain d where d: "mget defs k = Some d" using Suc.prems(1) by (cases "mget defs k") (auto simp: feature_parent_get)
  show ?case
  proof (cases "fd_parentKey d")
    case None
    then show ?thesis using d m Suc.prems by (cases m') (auto simp: feature_parent_get)
  next
    case (Some p)
    then have "path (feature_parent defs) (Suc n) k = k # path (feature_parent defs) n p"
      using d by (simp add: feature_parent_get)
    then show ?thesis
      using Some d m Suc.prems distinct_path[OF Suc.prems(1)] Suc.IH[of p "chain @ [k]" m']
      by (auto simp: feature_parent_get)
  qed
qed simp

lemma featureChain_path:
  "within (feature_parent defs) n k \<Longrightarrow> n \<le> MAX_FEATURE_DEPTH + 1 \<Longrightarrow> featureChain defs k = path (feature_parent defs) n k"
  unfolding featureChain_def using chain_loop_path[of defs n k "[]" "MAX_FEATURE_DEPTH + 1"] by simp

lemma catalog_within:
  "catalog_wf defs \<Longrightarrow> mget defs k = Some d \<Longrightarrow> within (feature_parent defs) MAX_FEATURE_DEPTH k"
  by (auto simp: catalog_wf_def forest_def feature_parent_def)

lemma featureChain_wf:
  "catalog_wf defs \<Longrightarrow> mget defs k = Some d \<Longrightarrow>
   featureChain defs k = path (feature_parent defs) MAX_FEATURE_DEPTH k"
  using featureChain_path catalog_within by fastforce

lemma featureChain_unknown: "mget defs k = None \<Longrightarrow> featureChain defs k = []"
  by (simp add: featureChain_def)

text \<open>The recursive height reaches every descendant: the keys it skips are ancestors.\<close>

lemma fheight_bound:
  assumes wf: "catalog_wf defs"
    and "up (feature_parent defs) j x = Some k" "feature_parent defs x \<noteq> None"
    and "\<forall>z \<in> set seen. \<exists>i. up (feature_parent defs) i k = Some z"
  shows "j \<le> fheight (mvals defs) k seen"
  using assms(2-)
proof (induction j arbitrary: k seen)
  case (Suc j)
  let ?par = "feature_parent defs"
  from Suc.prems(1)[unfolded up_Suc_right] obtain y where y: "up ?par j x = Some y" "?par y = Some (Some k)"
    by (auto simp: bind_eq_Some_conv split: option.splits)
  then obtain d where d: "mget defs y = Some d" "fd_parentKey d = Some k"
    by (auto simp: feature_parent_def)
  have key: "fd_key d = y" using wf d(1) keyed_get by (fastforce simp: catalog_wf_def)
  have anc: "\<forall>z \<in> set seen. \<exists>i. up ?par (Suc i) y = Some z"
    using Suc.prems(3) y(2) by auto
  have "y \<notin> set seen"
  proof
    assume "y \<in> set seen"
    then obtain i where "up ?par (Suc i) y = Some y" using anc by blast
    then show False using feature_tree.acyclic[OF wf] by blast
  qed
  moreover have "d \<in> set (mvals defs)" using d(1) by (rule mget_in_mvals)
  moreover have "j \<le> fheight (mvals defs) y (y # seen)"
  proof (rule Suc.IH[OF y(1) Suc.prems(2)])
    have "\<exists>i. up ?par i y = Some y" by (rule exI[of _ 0]) simp
    moreover have "\<exists>i. up ?par i y = Some z" if "z \<in> set seen" for z using anc that by blast
    ultimately show "\<forall>z \<in> set (y # seen). \<exists>i. up ?par i y = Some z" by (metis set_ConsD)
  qed
  ultimately have "1 + fheight (mvals defs) y (y # seen) \<le> fheight (mvals defs) k seen"
    unfolding fheight.simps[of _ k] using d(2) key by (intro maxl_ge) force
  then show ?case using \<open>j \<le> _\<close> by simp
qed simp

lemma assertValidFeatureParent_forest:
  assumes wf: "catalog_wf defs" and ok: "assertValidFeatureParent defs k parent = Inr ()"
  shows "forest MAX_FEATURE_DEPTH ((feature_parent defs)(k \<mapsto> parent))"
proof (cases parent)
  case None
  then show ?thesis using wf forest_detach[of MAX_FEATURE_DEPTH "feature_parent defs" k]
    by (simp add: catalog_wf_def MAX_FEATURE_DEPTH_def del: fun_upd_apply)
next
  case (Some p)
  let ?par = "feature_parent defs" and ?c = "featureChain defs p" and ?h = "fheight (mvals defs) k [k]"
  have p: "mhas defs p" "k \<notin> set ?c" "length ?c + 1 + ?h \<le> MAX_FEATURE_DEPTH"
    using ok Some by (auto simp: assertValidFeatureParent_def Let_def split: if_splits)
  then obtain d where d: "mget defs p = Some d" by (auto simp: mhas_def)
  have c: "?c = path ?par MAX_FEATURE_DEPTH p" using featureChain_wf[OF wf d] .
  have w: "within ?par MAX_FEATURE_DEPTH p" using catalog_within[OF wf d] .
  have "forest MAX_FEATURE_DEPTH (?par(k \<mapsto> Some p))"
  proof (rule forest_reparent)
    show "forest MAX_FEATURE_DEPTH ?par" using wf by (simp add: catalog_wf_def)
    show "within ?par (length ?c) p" using within_path_length[OF w] c by simp
    show "up ?par j p \<noteq> Some k" for j using set_path[OF w] p(2) c by auto
    show "j \<le> ?h" if "up ?par j x = Some k" for x j
    proof (cases j)
      case (Suc i)
      then have "?par x \<noteq> None" using that by (auto split: option.splits)
      moreover have "\<forall>z \<in> set [k]. \<exists>i. up ?par i k = Some z" by (simp add: exI[of _ 0])
      ultimately show ?thesis using fheight_bound[OF wf that] by blast
    qed simp
    show "length ?c + 1 + ?h \<le> MAX_FEATURE_DEPTH" using p(3) .
  qed
  then show ?thesis using Some by simp
qed

section \<open>Resolution on a well-formed catalog\<close>

lemma of_entries_catalog:
  assumes "keyed fd_key defs"
  shows "mget (of_entries (map (\<lambda>d. (fd_key d, d)) (mvals defs))) k = mget defs k"
proof -
  have eq: "map (\<lambda>d. (fd_key d, d)) (mvals defs) = defs"
    using assms by (auto simp: keyed_def mvals_def intro!: map_idI)
  show ?thesis using assms by (simp add: eq mget_of_entries_distinct keyed_def)
qed

lemma blocked_by_path:
  assumes "keyed fd_key defs" "\<And>k. mget byKey k = mget defs k"
  shows "within (feature_parent defs) m p \<Longrightarrow> m \<le> n \<Longrightarrow>
    blocked_by n byKey own (Some p) = None \<longleftrightarrow>
    (\<forall>z \<in> set (path (feature_parent defs) m p). \<exists>d. mget defs z = Some d \<and> own d)"
proof (induction m arbitrary: n p)
  case (Suc m)
  then obtain n' where n: "n = Suc n'" by (cases n) auto
  obtain d where d: "mget defs p = Some d" using Suc.prems(1) by (cases "mget defs p") (auto simp: feature_parent_get)
  show ?case
  proof (cases "fd_parentKey d")
    case None
    then show ?thesis using d n assms(2) by (simp add: feature_parent_get)
  next
    case (Some q)
    then have "within (feature_parent defs) m q" using Suc.prems(1) d by (simp add: feature_parent_get)
    then show ?thesis using Some d n assms(2) Suc.IH[of q n'] Suc.prems(2) by (auto simp: feature_parent_get)
  qed
qed simp

text \<open>An organization's own answer for a key: its override, else the default.\<close>

definition own_on :: "catalog \<Rightarrow> (string \<Rightarrow> feature option) \<Rightarrow> string \<Rightarrow> bool" where
  "own_on defs row k = (case mget defs k of None \<Rightarrow> False
     | Some d \<Rightarrow> (case row k of Some r \<Rightarrow> f_enabled r | None \<Rightarrow> fd_defaultEnabled d))"

definition rows_of :: "feature list \<Rightarrow> string \<Rightarrow> feature option" where
  "rows_of overrides k = mget (of_entries (map (\<lambda>row. (f_key row, row)) overrides)) k"

lemma ef_key_resolve_one: "ef_key (resolve_one b ov d) = fd_key d"
  by (simp add: resolve_one_def Let_def split: option.split)

lemma bex_unique:
  assumes "\<And>x. x \<in> A \<and> P x \<longleftrightarrow> x = a"
  shows "(\<exists>x \<in> A. P x \<and> Q x) \<longleftrightarrow> Q a"
proof
  assume "\<exists>x \<in> A. P x \<and> Q x"
  then obtain x where "x \<in> A \<and> P x" "Q x" by blast
  then show "Q a" using assms by simp
next
  assume "Q a"
  moreover have "a \<in> A \<and> P a" using assms by simp
  ultimately show "\<exists>x \<in> A. P x \<and> Q x" by blast
qed

text \<open>A feature is on exactly when it and every ancestor are on by themselves.\<close>

lemma resolve_enabled:
  assumes wf: "catalog_wf defs"
  shows "(\<exists>f \<in> set (resolveEffectiveFeatures (mvals defs) overrides). ef_key f = k \<and> ef_enabled f) \<longleftrightarrow>
    featureChain defs k \<noteq> [] \<and> list_all (own_on defs (rows_of overrides)) (featureChain defs k)"
proof -
  let ?b = "of_entries (map (\<lambda>d. (fd_key d, d)) (mvals defs))"
  let ?o = "of_entries (map (\<lambda>row. (f_key row, row)) overrides)"
  let ?par = "feature_parent defs"
  have kd: "keyed fd_key defs" using wf by (simp add: catalog_wf_def)
  have b: "mget ?b z = mget defs z" for z by (rule of_entries_catalog[OF kd])
  have own: "ownState ?o d = own_on defs (rows_of overrides) z" if "mget defs z = Some d" for d z
    using that keyed_get[OF kd that] by (simp add: own_on_def ownState_def rows_of_def)
  have one: "ef_enabled (resolve_one ?b ?o d) \<longleftrightarrow> list_all (own_on defs (rows_of overrides)) (featureChain defs k)"
    if d: "mget defs k = Some d" for d
  proof -
    have chain: "featureChain defs k = path ?par MAX_FEATURE_DEPTH k" by (rule featureChain_wf[OF wf d])
    have w: "within ?par MAX_FEATURE_DEPTH k" by (rule catalog_within[OF wf d])
    show ?thesis
    proof (cases "fd_parentKey d")
      case None
      then show ?thesis using d own[OF d]
        by (simp add: chain resolve_one_def Let_def MAX_FEATURE_DEPTH_def feature_parent_get numeral_eq_Suc)
    next
      case (Some p)
      have w': "within ?par 7 p" and chain': "featureChain defs k = k # path ?par 7 p"
        using w chain d Some by (simp_all add: MAX_FEATURE_DEPTH_def feature_parent_get numeral_eq_Suc)
      have "blocked_by MAX_FEATURE_DEPTH ?b (ownState ?o) (Some p) = None \<longleftrightarrow>
          (\<forall>z \<in> set (path ?par 7 p). \<exists>d. mget defs z = Some d \<and> ownState ?o d)"
        by (rule blocked_by_path[OF kd b w']) (simp add: MAX_FEATURE_DEPTH_def)
      also have "\<dots> \<longleftrightarrow> list_all (own_on defs (rows_of overrides)) (path ?par 7 p)"
      proof -
        have "(\<exists>d. mget defs z = Some d \<and> ownState ?o d) \<longleftrightarrow> own_on defs (rows_of overrides) z" for z
          using own[of z] by (cases "mget defs z") (simp_all add: own_on_def)
        then show ?thesis by (simp add: list_all_iff)
      qed
      finally show ?thesis using Some own[OF d]
        by (auto simp: chain' resolve_one_def Let_def split: option.split)
    qed
  qed
  show ?thesis
  proof (cases "mget defs k")
    case None
    then have "\<forall>d \<in> set (mvals defs). fd_key d \<noteq> k" using keyed_vals[OF kd] by fastforce
    then show ?thesis using featureChain_unknown[OF None]
      by (auto simp: resolveEffectiveFeatures_def Let_def ef_key_resolve_one)
  next
    case (Some d)
    have "(\<exists>f \<in> set (resolveEffectiveFeatures (mvals defs) overrides). ef_key f = k \<and> ef_enabled f) \<longleftrightarrow>
        ef_enabled (resolve_one ?b ?o d)"
    proof -
      have "d' \<in> set (mvals defs) \<and> fd_key d' = k \<longleftrightarrow> d' = d" for d'
        using keyed_get[OF kd Some] keyed_vals[OF kd, of d'] Some by (metis option.inject)
      moreover have "(\<exists>f \<in> set (resolveEffectiveFeatures (mvals defs) overrides). ef_key f = k \<and> ef_enabled f) \<longleftrightarrow>
          (\<exists>d' \<in> set (mvals defs). fd_key d' = k \<and> ef_enabled (resolve_one ?b ?o d'))"
        by (simp add: resolveEffectiveFeatures_def Let_def ef_key_resolve_one)
      ultimately show ?thesis using bex_unique[of "set (mvals defs)" "\<lambda>d. fd_key d = k" d] by simp
    qed
    moreover have "featureChain defs k \<noteq> []"
      using path_root[OF catalog_within[OF wf Some]] featureChain_wf[OF wf Some] by simp
    ultimately show ?thesis using one[OF Some] by simp
  qed
qed

section \<open>Properties\<close>

text \<open>
  The loop of \<open>resolveEffectiveFeatures\<close> and the requirements the SQL backends query agree.  On a
  well-formed catalog a feature is resolved as on exactly when its requirements are complete, every
  required key has an override that is on, and no key of the chain has one that is off.
\<close>

theorem effective_iff_requirements:
  assumes "catalog_wf defs"
  shows "(\<exists>f \<in> set (resolveEffectiveFeatures (mvals defs) overrides). ef_key f = k \<and> ef_enabled f) \<longleftrightarrow>
    rq_complete (featureRequirements defs k) \<and>
    list_all (\<lambda>q. \<exists>r. rows_of overrides q = Some r \<and> f_enabled r) (rq_requiredOn (featureRequirements defs k)) \<and>
    list_all (\<lambda>q. \<forall>r. rows_of overrides q = Some r \<longrightarrow> f_enabled r) (rq_chain (featureRequirements defs k))"
proof -
  let ?chain = "featureChain defs k" and ?par = "feature_parent defs"
  have known: "\<exists>d. mget defs q = Some d" if "q \<in> set ?chain" for q
  proof (cases "mget defs k")
    case None
    then show ?thesis using that by (simp add: featureChain_unknown)
  next
    case (Some d)
    then show ?thesis using that path_present[of q ?par MAX_FEATURE_DEPTH k] featureChain_wf[OF assms Some]
      by (auto simp: feature_parent_def)
  qed
  have complete: "rq_complete (featureRequirements defs k) \<longleftrightarrow> ?chain \<noteq> []"
  proof (cases "mget defs k")
    case None
    then show ?thesis by (simp add: featureRequirements_def Let_def featureChain_unknown)
  next
    case (Some d)
    have c: "?chain = path ?par MAX_FEATURE_DEPTH k" using featureChain_wf[OF assms Some] .
    have "?chain \<noteq> []" "?par (last ?chain) = Some None"
      using path_root[OF catalog_within[OF assms Some]] c by auto
    moreover have "length ?chain \<le> MAX_FEATURE_DEPTH + 1" using length_path[of ?par MAX_FEATURE_DEPTH k] c by simp
    ultimately show ?thesis by (auto simp: featureRequirements_def Let_def feature_parent_def split: option.splits)
  qed
  have own: "own_on defs (rows_of overrides) q \<longleftrightarrow>
      (\<exists>r. rows_of overrides q = Some r \<and> f_enabled r) \<or> rows_of overrides q = None \<and> fd_defaultEnabled d"
    if "mget defs q = Some d" for q d
    using that by (cases "rows_of overrides q") (simp_all add: own_on_def)
  have "list_all (own_on defs (rows_of overrides)) ?chain \<longleftrightarrow>
      list_all (\<lambda>q. \<exists>r. rows_of overrides q = Some r \<and> f_enabled r)
        (filter (\<lambda>k. case mget defs k of Some d \<Rightarrow> \<not> fd_defaultEnabled d | None \<Rightarrow> False) ?chain) \<and>
      list_all (\<lambda>q. \<forall>r. rows_of overrides q = Some r \<longrightarrow> f_enabled r) ?chain"
    using known own by (fastforce simp: list_all_iff split: option.splits)
  then show ?thesis using resolve_enabled[OF assms, of overrides k] complete
    by (simp add: featureRequirements_def Let_def)
qed

definition demo_catalog :: catalog where
  "demo_catalog = [(''ai'', \<lparr> fd_key = ''ai'', fd_name = ''AI'', fd_description = None, fd_defaultEnabled = True,
      fd_parentKey = None, fd_reason = None, fd_updatedAt = None \<rparr>),
    (''ai_chat'', \<lparr> fd_key = ''ai_chat'', fd_name = ''Chat'', fd_description = None, fd_defaultEnabled = True,
      fd_parentKey = Some ''ai'', fd_reason = None, fd_updatedAt = None \<rparr>)]"

lemma demo_catalog_wf: "catalog_wf demo_catalog"
proof -
  have "within (feature_parent demo_catalog) MAX_FEATURE_DEPTH k" if "feature_parent demo_catalog k \<noteq> None" for k
    using that by (auto simp: feature_parent_def demo_catalog_def MAX_FEATURE_DEPTH_def numeral_eq_Suc split: if_splits)
  then show ?thesis
    by (simp add: catalog_wf_def forest_def)
      (simp add: demo_catalog_def keyed_def mvals_def matchesFeatureKey_def is_alnum_def is_lower_az_def
        is_digit09_def is_underscore_def code_def)
qed

lemma demo_requirements:
  "featureRequirements demo_catalog ''ai_chat'' = \<lparr> rq_chain = [''ai_chat'', ''ai''], rq_requiredOn = [], rq_complete = True \<rparr>"
  by (simp add: featureRequirements_def featureChain_def demo_catalog_def MAX_FEATURE_DEPTH_def numeral_eq_Suc Let_def)

theorem effective_iff_requirements_witness:
  "(\<exists>f \<in> set (resolveEffectiveFeatures (mvals demo_catalog) []). ef_key f = ''ai_chat'' \<and> ef_enabled f) \<and>
    rq_complete (featureRequirements demo_catalog ''ai_chat'')"
  using effective_iff_requirements[OF demo_catalog_wf, of "[]" "''ai_chat''"] by (simp add: demo_requirements rows_of_def of_entries_def)

end
