(* ===== verification/Features.thy ===== *)
theory Features
  imports FeatureEffective
begin

text \<open>
  The feature repository: \<open>packages/core/src/feature/repository.ts\<close> and \<open>featureRepository\<close> of
  \<open>storage/memory.ts\<close>.  Overrides live in a map keyed by \<open>organizationId:key\<close>.

  The lemmas show that every operation keeps the catalog a forest and the overrides keyed, what
  \<open>isEnabled\<close> answers in terms of single overrides, and what each write changes.
\<close>

record feature_meta =
  fm_actor :: "identity option"
  fm_reason :: "string option"
  fm_expectedVersion :: "int option"

definition no_meta :: feature_meta where
  "no_meta = \<lparr> fm_actor = None, fm_reason = None, fm_expectedVersion = None \<rparr>"

record register_feature =
  rf_key :: "string option"
  rf_name :: string
  rf_description :: "string option"
  rf_defaultEnabled :: bool
  rf_parentKey :: "string option"

definition sanitizeFeatureChangeReason :: "string option \<Rightarrow> string option" where
  "sanitizeFeatureChangeReason reason =
     (case reason of None \<Rightarrow> None
      | Some r \<Rightarrow> let t = trim r in if t = [] then None else Some (take 500 t))"

definition featureId :: "string \<Rightarrow> string \<Rightarrow> string" where
  "featureId organizationId key = organizationId @ '':'' @ key"

definition assertFeatureRegistered :: "string \<Rightarrow> store \<Rightarrow> uerror + unit" where
  "assertFeatureRegistered key s =
     (if mhas (featureDefinitions s) key then Inr () else Inl (UError EFeature ''feature_unknown''))"

definition overridesOf :: "store \<Rightarrow> string \<Rightarrow> feature list" where
  "overridesOf s organizationId = filter (\<lambda>f. f_organizationId f = organizationId) (mvals (features s))"

definition effectiveFor :: "store \<Rightarrow> string \<Rightarrow> effective list" where
  "effectiveFor s organizationId = resolveEffectiveFeatures (mvals (featureDefinitions s)) (overridesOf s organizationId)"

definition is_on :: "store \<Rightarrow> string \<Rightarrow> string \<Rightarrow> bool" where
  "is_on s organizationId key = list_ex (\<lambda>f. ef_key f = key \<and> ef_enabled f) (effectiveFor s organizationId)"

definition writeOverride :: "timestamp \<Rightarrow> string \<Rightarrow> string \<Rightarrow> bool \<Rightarrow> feature_meta \<Rightarrow> unit op" where
  "writeOverride now organizationId key enabled meta =
     guard (assertExpectedVersion (fm_expectedVersion meta) 0) (\<lambda>expected s.
       let previous = mget (features s) (featureId organizationId key);
           version = (case previous of None \<Rightarrow> 0 | Some p \<Rightarrow> f_version p)
       in if \<not> version_ok expected version then fails (UError EFeature ''feature_version_conflict'') s
          else returns () (s \<lparr> features := mset_at (featureId organizationId key)
            \<lparr> f_organizationId = organizationId, f_key = key, f_enabled = enabled, f_updatedAt = Some now,
              f_updatedBy = fm_actor meta, f_reason = sanitizeFeatureChangeReason (fm_reason meta),
              f_version = version + 1 \<rparr> (features s) \<rparr>))"

definition matchingFeatures :: "store \<Rightarrow> string option \<Rightarrow> string option \<Rightarrow> feature_def list" where
  "matchingFeatures s query enabledIn =
     filter (\<lambda>d. (case enabledIn of None \<Rightarrow> True
                  | Some og \<Rightarrow> fd_key d \<in> set (map ef_key (filter ef_enabled (effectiveFor s og)))) \<and>
                 query_hits (search_query query) [fd_key d, fd_name d])
       (mvals (featureDefinitions s))"

definition organizationsWithEffective :: "store \<Rightarrow> string \<Rightarrow> string list" where
  "organizationsWithEffective s key =
     sort_by (<) (filter (\<lambda>og. is_on s og key)
       (uniq (mkeys (organizations s) @ map f_organizationId (mvals (features s)))))"

section \<open>Operations\<close>

definition features_register :: "register_feature \<Rightarrow> feature_def op" where
  "features_register input s =
     guard (sanitizeFeatureName (rf_name input)) (\<lambda>name.
     guard (resolveFeatureKey name (rf_key input)) (\<lambda>key.
     guard (assertValidFeatureParent (featureDefinitions s) key (rf_parentKey input)) (\<lambda>_ s.
       let previous = mget (featureDefinitions s) key;
           d = \<lparr> fd_key = key, fd_name = name, fd_description = rf_description input,
                 fd_defaultEnabled = rf_defaultEnabled input, fd_parentKey = rf_parentKey input,
                 fd_reason = (if rf_defaultEnabled input then None else Option.bind previous fd_reason),
                 fd_updatedAt = (if rf_defaultEnabled input then None else Option.bind previous fd_updatedAt) \<rparr>
       in returns d (s \<lparr> featureDefinitions := mset_at key d (featureDefinitions s) \<rparr>)))) s"

definition features_listCatalog :: "store \<Rightarrow> feature_def list" where
  "features_listCatalog s = mvals (featureDefinitions s)"

definition features_search :: "store \<Rightarrow> string option \<Rightarrow> string option \<Rightarrow> string option \<Rightarrow> nat option \<Rightarrow> feature_def list" where
  "features_search s query enabledIn after limit =
     (let matches = sort_by (\<lambda>a b. fd_key a < fd_key b) (matchingFeatures s query enabledIn);
          page = (case after of None \<Rightarrow> matches | Some k \<Rightarrow> filter (\<lambda>d. k < fd_key d) matches)
      in slice_to limit page)"

definition features_count :: "store \<Rightarrow> string option \<Rightarrow> string option \<Rightarrow> nat" where
  "features_count s query enabledIn = length (matchingFeatures s query enabledIn)"

definition features_enabledKeys :: "store \<Rightarrow> string \<Rightarrow> string list \<Rightarrow> string list" where
  "features_enabledKeys s organizationId keys =
     (let on = map ef_key (filter ef_enabled (effectiveFor s organizationId)) in filter (\<lambda>k. k \<in> set on) keys)"

definition features_countEnabledByOrganization :: "store \<Rightarrow> string list \<Rightarrow> (string, nat) jsmap" where
  "features_countEnabledByOrganization s organizationIds =
     of_entries (map (\<lambda>og. (og, length (filter ef_enabled (effectiveFor s og)))) organizationIds)"

definition features_summarizeUsage :: "store \<Rightarrow> string list \<Rightarrow> int \<Rightarrow> (string, nat \<times> string list) jsmap" where
  "features_summarizeUsage s keys sampleSize =
     of_entries (map (\<lambda>key.
       let enabledIn = (if mhas (featureDefinitions s) key then organizationsWithEffective s key else [])
       in (key, (length enabledIn, take (nat (max 0 sampleSize)) enabledIn))) keys)"

definition features_enable :: "timestamp \<Rightarrow> string \<Rightarrow> string \<Rightarrow> feature_meta \<Rightarrow> unit op" where
  "features_enable now organizationId key meta s =
     guard (assertFeatureRegistered key s) (\<lambda>_. writeOverride now organizationId key True meta) s"

definition features_disable :: "timestamp \<Rightarrow> string \<Rightarrow> string \<Rightarrow> feature_meta \<Rightarrow> unit op" where
  "features_disable now organizationId key meta s =
     guard (assertFeatureRegistered key s) (\<lambda>_. writeOverride now organizationId key False meta) s"

text \<open>Both loops of \<open>setMany\<close>: every key is checked before the first is written.\<close>

definition features_setMany :: "timestamp \<Rightarrow> string \<Rightarrow> (string \<times> bool) list \<Rightarrow> feature_meta \<Rightarrow> unit op" where
  "features_setMany now organizationId changes meta s =
     guard (mapr (\<lambda>(key, _). assertFeatureRegistered key s) changes) (\<lambda>_.
       foreach (\<lambda>(key, enabled). writeOverride now organizationId key enabled meta) changes) s"

definition features_disableEverywhere :: "timestamp \<Rightarrow> string \<Rightarrow> feature_meta \<Rightarrow> (nat \<times> bool) op" where
  "features_disableEverywhere now key meta s =
     (case mget (featureDefinitions s) key of
        None \<Rightarrow> fails (UError EFeature ''feature_unknown'') s
      | Some d \<Rightarrow>
          let on = filter (\<lambda>f. f_key f = key \<and> f_enabled f) (mvals (features s)) in
          and_then (foreach (\<lambda>f. writeOverride now (f_organizationId f) key False meta) on) (\<lambda>_ s.
            returns (length on, fd_defaultEnabled d)
              (s \<lparr> featureDefinitions := mset_at key
                 \<lparr> fd_key = fd_key d, fd_name = fd_name d, fd_description = fd_description d,
                   fd_defaultEnabled = False, fd_parentKey = fd_parentKey d,
                   fd_reason = sanitizeFeatureChangeReason (fm_reason meta), fd_updatedAt = Some now \<rparr>
                 (featureDefinitions s) \<rparr>)) s)"

definition features_isEnabled :: "store \<Rightarrow> string \<Rightarrow> string \<Rightarrow> bool" where
  "features_isEnabled s organizationId key = is_on s organizationId key"

definition features_listEffective :: "store \<Rightarrow> string \<Rightarrow> string list option \<Rightarrow> effective list" where
  "features_listEffective s organizationId keys =
     (let all = sort_by (\<lambda>a b. ef_key a < ef_key b) (effectiveFor s organizationId)
      in case keys of None \<Rightarrow> all | Some ks \<Rightarrow> filter (\<lambda>f. ef_key f \<in> set ks) all)"

definition assertEffectiveManyInput :: "string list \<Rightarrow> uerror + unit" where
  "assertEffectiveManyInput organizationIds =
     (if length organizationIds > 500 then Inl (UError EFeature ''feature_invalid'') else Inr ())"

definition features_listEffectiveMany :: "store \<Rightarrow> string list \<Rightarrow> string list option \<Rightarrow> uerror + (string, effective list) jsmap" where
  "features_listEffectiveMany s organizationIds keys =
     bindr (assertEffectiveManyInput organizationIds) (\<lambda>_.
       Inr (of_entries (map (\<lambda>og. (og, features_listEffective s og keys)) (uniq organizationIds))))"

definition features_listByOrganization :: "store \<Rightarrow> string \<Rightarrow> feature list" where
  "features_listByOrganization s organizationId = overridesOf s organizationId"

definition features_unregister :: "string \<Rightarrow> unit op" where
  "features_unregister key s =
     (if \<not> mhas (featureDefinitions s) key then fails (UError EFeature ''feature_unknown'') s
      else if list_ex (\<lambda>d. fd_parentKey d = Some key) (mvals (featureDefinitions s))
      then fails (UError EFeature ''feature_has_children'') s
      else if organizationsWithEffective s key \<noteq> [] then fails (UError EFeature ''feature_in_use'') s
      else returns () (s \<lparr> featureDefinitions := mdel key (featureDefinitions s),
                           features := mfilter (\<lambda>f. f_key f \<noteq> key) (features s) \<rparr>))"

section \<open>The invariant\<close>

definition row_id :: "feature \<Rightarrow> string" where
  "row_id f = featureId (f_organizationId f) (f_key f)"

definition features_ok :: "store \<Rightarrow> bool" where
  "features_ok s \<longleftrightarrow> catalog_wf (featureDefinitions s) \<and> keyed row_id (features s) \<and>
     list_all (\<lambda>f. matchesFeatureKey (f_key f)) (mvals (features s))"

interpretation fid: composite_key featureId "\<lambda>og k. matchesFeatureKey k"
proof unfold_locales
  fix a b c d assume "matchesFeatureKey b" "matchesFeatureKey d" "featureId a b = featureId c d"
  then show "a = c \<and> b = d"
    using split_at_last[of "CHR '':''" b d a c] feature_key_no_colon by (simp add: featureId_def)
qed

lemma writeOverride_cases:
  obtains e where "writeOverride now og k enabled meta s = (Inl e, s)"
  | row where "writeOverride now og k enabled meta s =
        (Inr (), s \<lparr> features := mset_at (featureId og k) row (features s) \<rparr>)"
      "f_organizationId row = og" "f_key row = k" "f_enabled row = enabled"
      "f_version row = (case mget (features s) (featureId og k) of None \<Rightarrow> 0 | Some p \<Rightarrow> f_version p) + 1"
proof (cases "assertExpectedVersion (fm_expectedVersion meta) 0")
  case (Inl e)
  then show ?thesis using that(1) by (simp add: writeOverride_def fails_def)
next
  case (Inr expected)
  let ?v = "case mget (features s) (featureId og k) of None \<Rightarrow> 0 | Some p \<Rightarrow> f_version p"
  show ?thesis
  proof (cases "version_ok expected ?v")
    case True
    then show ?thesis using Inr that(2)[of "\<lparr> f_organizationId = og, f_key = k, f_enabled = enabled, f_updatedAt = Some now,
        f_updatedBy = fm_actor meta, f_reason = sanitizeFeatureChangeReason (fm_reason meta), f_version = ?v + 1 \<rparr>"]
      by (simp add: writeOverride_def returns_def Let_def)
  next
    case False
    then show ?thesis using Inr that(1) by (simp add: writeOverride_def fails_def Let_def)
  qed
qed

lemma writeOverride_frame [simp]:
  "featureDefinitions (snd (writeOverride now og k enabled meta s)) = featureDefinitions s"
  "organizations (snd (writeOverride now og k enabled meta s)) = organizations s"
  by (rule writeOverride_cases[of now og k enabled meta s]; simp)+

lemma writeOverride_ok:
  assumes "features_ok s" "matchesFeatureKey k"
  shows "features_ok (snd (writeOverride now og k enabled meta s))"
proof (rule writeOverride_cases[of now og k enabled meta s])
  fix row assume w: "writeOverride now og k enabled meta s = (Inr (), s \<lparr> features := mset_at (featureId og k) row (features s) \<rparr>)"
    and row: "f_organizationId row = og" "f_key row = k"
  have kr: "keyed row_id (features s)" using assms(1) by (simp add: features_ok_def)
  have id: "row_id row = featureId og k" using row by (simp add: row_id_def)
  show ?thesis using assms row keyed_update[OF kr id] keyed_vals_update[OF kr id]
    by (auto simp: w features_ok_def list_all_iff)
qed (use assms in simp)

lemma registered_key: "features_ok s \<Longrightarrow> mhas (featureDefinitions s) k \<Longrightarrow> matchesFeatureKey k"
  by (auto simp: features_ok_def catalog_wf_def mhas_def list_all_iff dest: keyed_get mget_in_mvals)

lemma register_ok:
  assumes ok: "features_ok s"
  shows "features_ok (snd (features_register input s))"
proof (cases "sanitizeFeatureName (rf_name input)")
  case name: (Inr name)
  show ?thesis
  proof (cases "resolveFeatureKey name (rf_key input)")
    case key: (Inr key)
    show ?thesis
    proof (cases "assertValidFeatureParent (featureDefinitions s) key (rf_parentKey input)")
      case (Inr u)
      then have valid: "assertValidFeatureParent (featureDefinitions s) key (rf_parentKey input) = Inr ()" by simp
      have wf: "catalog_wf (featureDefinitions s)" using ok by (simp add: features_ok_def)
      have k: "matchesFeatureKey key" using resolveFeatureKey_valid[OF key] by simp
      have "catalog_wf (mset_at key d (featureDefinitions s))"
        if d: "fd_key d = key" "fd_parentKey d = rf_parentKey input" for d
      proof -
        have kd: "keyed fd_key (featureDefinitions s)" using wf by (simp add: catalog_wf_def)
        show ?thesis using assertValidFeatureParent_forest[OF wf valid] d wf k
            keyed_update[OF kd d(1)] keyed_vals_update[OF kd d(1)]
          by (auto simp: catalog_wf_def feature_parent_update list_all_iff)
      qed
      then show ?thesis using ok name key Inr by (simp add: features_register_def features_ok_def Let_def)
    qed (use ok name key in \<open>simp add: features_register_def\<close>)
  qed (use ok name in \<open>simp add: features_register_def\<close>)
qed (use ok in \<open>simp add: features_register_def\<close>)

lemma enable_ok: "features_ok s \<Longrightarrow> features_ok (snd (features_enable now og k meta s))"
  by (auto simp: features_enable_def assertFeatureRegistered_def intro: writeOverride_ok registered_key)

lemma disable_ok: "features_ok s \<Longrightarrow> features_ok (snd (features_disable now og k meta s))"
  by (auto simp: features_disable_def assertFeatureRegistered_def intro: writeOverride_ok registered_key)

lemma foreach_invariant_on:
  assumes "\<And>x s. x \<in> set xs \<Longrightarrow> I s \<Longrightarrow> I (snd (f x s))" and "I s"
  shows "I (snd (foreach f xs s))"
  using assms
proof (induction xs arbitrary: s)
  case (Cons x xs)
  have "I (snd (f x s))" using Cons.prems by simp
  then show ?case using Cons.IH[OF Cons.prems(1)] by (auto split: and_then_split)
qed simp

lemma setMany_ok:
  assumes ok: "features_ok s"
  shows "features_ok (snd (features_setMany now og changes meta s))"
proof (cases "mapr (\<lambda>(key, _). assertFeatureRegistered key s) changes")
  case (Inr us)
  have reg: "\<forall>c \<in> set changes. mhas (featureDefinitions s) (fst c)"
    using Inr by (induction changes arbitrary: us) (auto simp: assertFeatureRegistered_def split: if_splits)
  have "features_ok (snd (foreach (\<lambda>(key, enabled). writeOverride now og key enabled meta) changes s))"
    using reg registered_key[OF ok] by (intro foreach_invariant_on[where I = features_ok]) (auto intro!: writeOverride_ok ok)
  then show ?thesis using Inr by (simp add: features_setMany_def)
qed (use ok in \<open>simp add: features_setMany_def\<close>)

lemma foreach_write_frame:
  "featureDefinitions (snd (foreach (\<lambda>f. writeOverride now (g f) key b meta) on s)) = featureDefinitions s"
  by (rule foreach_invariant[where I = "\<lambda>t. featureDefinitions t = featureDefinitions s"]) simp_all

lemma catalog_wf_same_parent:
  assumes "catalog_wf defs" "mget defs k = Some d" "fd_key d' = k" "fd_parentKey d' = fd_parentKey d"
  shows "catalog_wf (mset_at k d' defs)"
proof -
  have kd: "keyed fd_key defs" using assms(1) by (simp add: catalog_wf_def)
  have same: "feature_parent (mset_at k d' defs) = feature_parent defs"
    using assms by (auto simp: feature_parent_def fun_eq_iff)
  have "matchesFeatureKey k" using assms(1,2) keyed_get[OF kd assms(2)] mget_in_mvals[OF assms(2)]
    by (auto simp: catalog_wf_def list_all_iff)
  then show ?thesis using assms keyed_update[OF kd assms(3)] keyed_vals_update[OF kd assms(3)]
    by (auto simp: catalog_wf_def same list_all_iff)
qed

lemma disableEverywhere_ok:
  assumes ok: "features_ok s"
  shows "features_ok (snd (features_disableEverywhere now key meta s))"
proof (cases "mget (featureDefinitions s) key")
  case (Some d)
  let ?on = "filter (\<lambda>f. f_key f = key \<and> f_enabled f) (mvals (features s))"
  let ?loop = "foreach (\<lambda>f. writeOverride now (f_organizationId f) key False meta) ?on"
  have k: "matchesFeatureKey key" using registered_key[OF ok] Some by (simp add: mhas_def)
  have t: "features_ok (snd (?loop s))" using ok k by (intro foreach_invariant[where I = features_ok] writeOverride_ok)
  have defs: "featureDefinitions (snd (?loop s)) = featureDefinitions s" by (rule foreach_write_frame)
  have "fd_key d = key" using ok Some keyed_get by (fastforce simp: features_ok_def catalog_wf_def)
  then have "catalog_wf (mset_at key d' (featureDefinitions (snd (?loop s))))"
    if "fd_key d' = key" "fd_parentKey d' = fd_parentKey d" for d'
    using ok that Some catalog_wf_same_parent[of "featureDefinitions s" key d d'] defs by (simp add: features_ok_def)
  then show ?thesis using Some t \<open>fd_key d = key\<close>
    by (auto simp: features_disableEverywhere_def Let_def features_ok_def split: and_then_split)
qed (use ok in \<open>simp add: features_disableEverywhere_def\<close>)

lemma unregister_ok:
  assumes ok: "features_ok s"
  shows "features_ok (snd (features_unregister key s))"
proof -
  have kd: "keyed fd_key (featureDefinitions s)" and kr: "keyed row_id (features s)"
    using ok by (simp_all add: features_ok_def catalog_wf_def)
  have "catalog_wf (mdel key (featureDefinitions s))" if leaf: "\<not> list_ex (\<lambda>d. fd_parentKey d = Some key) (mvals (featureDefinitions s))"
  proof -
    have "feature_parent (featureDefinitions s) x \<noteq> Some (Some key)" for x
      using leaf mget_in_mvals by (fastforce simp: feature_parent_def list_ex_iff)
    then show ?thesis
      using ok keyed_delete[OF kd] keyed_vals_delete[OF kd] forest_delete[of MAX_FEATURE_DEPTH "feature_parent (featureDefinitions s)" key]
      by (auto simp: features_ok_def catalog_wf_def feature_parent_delete list_all_iff)
  qed
  then show ?thesis using ok keyed_mfilter[OF kr]
    by (auto simp: features_unregister_def features_ok_def list_all_iff mvals_mfilter)
qed

section \<open>What is on\<close>

lemma rows_of_overridesOf:
  assumes ok: "features_ok s" and k: "matchesFeatureKey k"
  shows "rows_of (overridesOf s og) k = mget (features s) (featureId og k)"
proof -
  have kr: "keyed row_id (features s)" using ok by (simp add: features_ok_def)
  let ?ov = "overridesOf s og"
  have mem: "r \<in> set ?ov \<and> f_key r = k \<longleftrightarrow> mget (features s) (featureId og k) = Some r" for r
    using keyed_vals[OF kr, of r] keyed_get[OF kr, of "featureId og k" r] ok k
      fid.enc_eq_iff[of "f_key r" k "f_organizationId r" og]
    by (auto simp: overridesOf_def row_id_def features_ok_def list_all_iff dest: mget_in_mvals)
  have d: "distinct (mvals (features s))" "inj_on row_id (set (mvals (features s)))"
    using distinct_mvals_ident[OF kr] by (simp_all add: distinct_map)
  have "inj_on f_key (set ?ov)"
  proof (rule inj_onI)
    fix x y assume "x \<in> set ?ov" "y \<in> set ?ov" "f_key x = f_key y"
    then have "row_id x = row_id y" "x \<in> set (mvals (features s))" "y \<in> set (mvals (features s))"
      by (auto simp: overridesOf_def row_id_def)
    then show "x = y" using inj_onD[OF d(2)] by blast
  qed
  then have "distinct (map f_key ?ov)" using d(1) by (simp add: distinct_map overridesOf_def)
  then have m: "rows_of ?ov k = map_of (map (\<lambda>row. (f_key row, row)) ?ov) k"
    and r: "map_of (map (\<lambda>row. (f_key row, row)) ?ov) k = Some r \<longleftrightarrow> r \<in> set ?ov \<and> f_key r = k" for r
    by (auto simp: rows_of_def mget_of_entries_distinct comp_def dest: map_of_SomeD intro!: map_of_is_SomeI)
  have "rows_of ?ov k = Some r \<longleftrightarrow> mget (features s) (featureId og k) = Some r" for r
    using m r[of r] mem[of r] by simp
  then show ?thesis by (metis not_None_eq)
qed

text \<open>An organization's own state for a key of the catalog.\<close>

definition org_own_on :: "store \<Rightarrow> string \<Rightarrow> string \<Rightarrow> bool" where
  "org_own_on s og = own_on (featureDefinitions s) (\<lambda>q. mget (features s) (featureId og q))"

lemma is_on_iff:
  assumes ok: "features_ok s"
  shows "is_on s og k \<longleftrightarrow>
    featureChain (featureDefinitions s) k \<noteq> [] \<and> list_all (org_own_on s og) (featureChain (featureDefinitions s) k)"
proof -
  have wf: "catalog_wf (featureDefinitions s)" using ok by (simp add: features_ok_def)
  have "own_on (featureDefinitions s) (rows_of (overridesOf s og)) q \<longleftrightarrow> org_own_on s og q" for q
    using registered_key[OF ok, of q] rows_of_overridesOf[OF ok, of q og]
    by (cases "mget (featureDefinitions s) q") (simp_all add: own_on_def org_own_on_def mhas_def)
  then have "own_on (featureDefinitions s) (rows_of (overridesOf s og)) = org_own_on s og" by (rule ext)
  then show ?thesis using resolve_enabled[OF wf, of "overridesOf s og" k]
    by (simp add: is_on_def effectiveFor_def list_ex_iff Bex_def)
qed

section \<open>Effects of the writes\<close>

lemma featureChain_same_parent:
  assumes "catalog_wf defs" "feature_parent defs' = feature_parent defs"
  shows "featureChain defs' q = featureChain defs q"
proof (cases "mget defs q")
  case None
  then have "mget defs' q = None" using fun_cong[OF assms(2), of q] by (simp add: feature_parent_def)
  then show ?thesis using None by (simp add: featureChain_unknown)
next
  case (Some d)
  have w: "within (feature_parent defs) MAX_FEATURE_DEPTH q" by (rule catalog_within[OF assms(1) Some])
  show ?thesis
    using featureChain_path[of defs' MAX_FEATURE_DEPTH q] featureChain_path[OF w] w assms(2) by simp
qed

text \<open>A loop of writes that succeeds leaves exactly the written rows changed.\<close>

lemma foreach_write_features:
  assumes "foreach (\<lambda>f. writeOverride now (g f) key b meta) on s = (Inr (), s')"
  shows "mget (features s') i = Some r \<Longrightarrow>
    (f_enabled r = b \<and> f_key r = key \<and> i \<in> (\<lambda>f. featureId (g f) key) ` set on) \<or>
    (mget (features s) i = Some r \<and> i \<notin> (\<lambda>f. featureId (g f) key) ` set on)"
  using assms
proof (induction on arbitrary: s)
  case (Cons f on)
  show ?case
  proof (rule writeOverride_cases[of now "g f" key b meta s])
    fix row assume w: "writeOverride now (g f) key b meta s = (Inr (), s \<lparr> features := mset_at (featureId (g f) key) row (features s) \<rparr>)"
      and row: "f_key row = key" "f_enabled row = b"
    then have "foreach (\<lambda>f. writeOverride now (g f) key b meta) on
        (s \<lparr> features := mset_at (featureId (g f) key) row (features s) \<rparr>) = (Inr (), s')"
      using Cons.prems(2) by (simp add: and_then_def)
    from Cons.IH[OF Cons.prems(1) this] show ?thesis using row by (auto split: if_splits)
  qed (use Cons.prems in \<open>auto simp: and_then_def\<close>)
qed (simp add: returns_def)

lemma disableEverywhere_effect:
  assumes ok: "features_ok s" and r: "features_disableEverywhere now key meta s = (Inr res, s')"
  shows "feature_parent (featureDefinitions s') = feature_parent (featureDefinitions s)"
    and "\<not> org_own_on s' og key"
proof -
  let ?on = "filter (\<lambda>f. f_key f = key \<and> f_enabled f) (mvals (features s))"
  let ?loop = "foreach (\<lambda>f. writeOverride now (f_organizationId f) key False meta) ?on"
  obtain d where d: "mget (featureDefinitions s) key = Some d"
    using r by (cases "mget (featureDefinitions s) key") (auto simp: features_disableEverywhere_def fails_def)
  let ?d' = "\<lparr> fd_key = fd_key d, fd_name = fd_name d, fd_description = fd_description d,
      fd_defaultEnabled = False, fd_parentKey = fd_parentKey d,
      fd_reason = sanitizeFeatureChangeReason (fm_reason meta), fd_updatedAt = Some now \<rparr>"
  obtain s1 where s1: "?loop s = (Inr (), s1)"
      and s1': "s' = s1 \<lparr> featureDefinitions := mset_at key ?d' (featureDefinitions s1) \<rparr>"
    using r d by (auto simp: features_disableEverywhere_def Let_def and_then_def returns_def split: sum.splits prod.splits)
  have s': "features s' = features s1" "featureDefinitions s' = mset_at key ?d' (featureDefinitions s1)"
    using s1' by simp_all
  have defs: "featureDefinitions s1 = featureDefinitions s"
    using foreach_write_frame[of now f_organizationId key False meta ?on s] s1 by simp
  then show "feature_parent (featureDefinitions s') = feature_parent (featureDefinitions s)"
    using s'(2) d by (auto simp: feature_parent_def fun_eq_iff)
  have kr: "keyed row_id (features s)" using ok by (simp add: features_ok_def)
  have "\<not> f_enabled row" if row: "mget (features s') (featureId og key) = Some row" for row
  proof
    assume on: "f_enabled row"
    have "mget (features s) (featureId og key) = Some row"
      and notin: "featureId og key \<notin> (\<lambda>f. featureId (f_organizationId f) key) ` set ?on"
      using foreach_write_features[OF s1, of "featureId og key" row] row on s'(1) by auto
    moreover have "row_id row = featureId og key" using keyed_get[OF kr] calculation by blast
    moreover have "matchesFeatureKey key" "matchesFeatureKey (f_key row)"
      using registered_key[OF ok, of key] d ok calculation(1) by (auto simp: mhas_def features_ok_def list_all_iff dest: mget_in_mvals)
    ultimately have "row \<in> set ?on" "f_organizationId row = og"
      using on fid.enc_eq_iff[of "f_key row" key "f_organizationId row" og] by (auto simp: row_id_def dest: mget_in_mvals)
    then show False using notin by blast
  qed
  then show "\<not> org_own_on s' og key" using s'(2) by (auto simp: org_own_on_def own_on_def split: option.split)
qed

section \<open>Properties\<close>

datatype feature_cmd =
    FRegister register_feature
  | FEnable timestamp string string feature_meta
  | FDisable timestamp string string feature_meta
  | FSetMany timestamp string "(string \<times> bool) list" feature_meta
  | FDisableEverywhere timestamp string feature_meta
  | FUnregister string

fun feature_exec :: "feature_cmd \<Rightarrow> store \<Rightarrow> store" where
  "feature_exec (FRegister i) s = snd (features_register i s)"
| "feature_exec (FEnable now og k m) s = snd (features_enable now og k m s)"
| "feature_exec (FDisable now og k m) s = snd (features_disable now og k m s)"
| "feature_exec (FSetMany now og cs m) s = snd (features_setMany now og cs m s)"
| "feature_exec (FDisableEverywhere now k m) s = snd (features_disableEverywhere now k m s)"
| "feature_exec (FUnregister k) s = snd (features_unregister k s)"

lemma feature_exec_ok: "features_ok s \<Longrightarrow> features_ok (feature_exec c s)"
  by (cases c) (simp_all add: register_ok enable_ok disable_ok setMany_ok disableEverywhere_ok unregister_ok)

lemma feature_run_ok: "features_ok s \<Longrightarrow> features_ok (fold feature_exec cmds s)"
  by (induction cmds arbitrary: s) (simp_all add: feature_exec_ok)

lemma features_ok_empty: "features_ok empty_store"
  by (simp add: features_ok_def catalog_wf_def forest_def feature_parent_def)

text \<open>
  Whatever is registered, unregistered, enabled, disabled or switched off, the catalog stays a
  forest: following \<open>parentKey\<close> from any registered feature reaches a root in fewer than eight steps,
  through registered features only, and never comes back to where it started.
\<close>

theorem catalog_stays_forest:
  fixes cmds defines "defs \<equiv> featureDefinitions (fold feature_exec cmds empty_store)"
  assumes "mhas defs k"
  shows "(\<exists>j r. j < 8 \<and> up (feature_parent defs) j k = Some r \<and> feature_parent defs r = Some None) \<and>
    up (feature_parent defs) (Suc i) k \<noteq> Some k"
proof -
  have wf: "catalog_wf defs" using feature_run_ok[OF features_ok_empty] by (simp add: defs_def features_ok_def)
  have "feature_parent defs k \<noteq> None" using assms(2) by (simp add: mhas_def feature_parent_def)
  then show ?thesis
    using feature_tree.root_above[OF wf] feature_tree.acyclic[OF wf] by (simp add: MAX_FEATURE_DEPTH_def)
qed

definition demo_feature :: register_feature where
  "demo_feature = \<lparr> rf_key = Some ''ai'', rf_name = ''AI'', rf_description = None, rf_defaultEnabled = True, rf_parentKey = None \<rparr>"

lemma demo_feature_registered: "mhas (featureDefinitions (fold feature_exec [FRegister demo_feature] empty_store)) ''ai''"
  by (simp add: demo_feature_def features_register_def sanitizeFeatureName_def resolveFeatureKey_def clean_name_def
      trim_def is_ws_def code_def Let_def assertValidFeatureKey_def matchesFeatureKey_def is_alnum_def is_lower_az_def
      is_digit09_def is_underscore_def assertValidFeatureParent_def mhas_def)

theorem catalog_stays_forest_witness:
  "up (feature_parent (featureDefinitions (fold feature_exec [FRegister demo_feature] empty_store))) (Suc 0) ''ai'' \<noteq> Some ''ai''"
  using catalog_stays_forest[OF demo_feature_registered] by (rule conjunct2)

text \<open>
  \<open>isEnabled\<close> answers yes exactly when the feature is registered and it and every feature above it
  are on for the organization, each by its override or else by its default.
\<close>

theorem isEnabled_iff:
  fixes cmds defines "s \<equiv> fold feature_exec cmds empty_store"
  shows "features_isEnabled s og k \<longleftrightarrow> mhas (featureDefinitions s) k \<and>
    list_all (\<lambda>q. case mget (features s) (featureId og q) of
        Some row \<Rightarrow> f_enabled row
      | None \<Rightarrow> (case mget (featureDefinitions s) q of Some d \<Rightarrow> fd_defaultEnabled d | None \<Rightarrow> False))
      (featureChain (featureDefinitions s) k)"
proof -
  have ok: "features_ok s" unfolding s_def by (rule feature_run_ok[OF features_ok_empty])
  have wf: "catalog_wf (featureDefinitions s)" using ok by (simp add: features_ok_def)
  have ne: "featureChain (featureDefinitions s) k \<noteq> [] \<longleftrightarrow> mhas (featureDefinitions s) k"
    using featureChain_unknown featureChain_wf[OF wf] path_root[OF catalog_within[OF wf]]
    by (cases "mget (featureDefinitions s) k") (auto simp: mhas_def)
  have "org_own_on s og q \<longleftrightarrow> (case mget (features s) (featureId og q) of
        Some row \<Rightarrow> f_enabled row
      | None \<Rightarrow> (case mget (featureDefinitions s) q of Some d \<Rightarrow> fd_defaultEnabled d | None \<Rightarrow> False))"
    if "q \<in> set (featureChain (featureDefinitions s) k)" for q
  proof -
    have "mget (featureDefinitions s) q \<noteq> None"
    proof (cases "mget (featureDefinitions s) k")
      case None
      then show ?thesis using that by (simp add: featureChain_unknown)
    next
      case (Some d)
      then show ?thesis using that path_present featureChain_wf[OF wf Some] by (fastforce simp: feature_parent_def)
    qed
    then show ?thesis by (auto simp: org_own_on_def own_on_def split: option.split)
  qed
  then show ?thesis using is_on_iff[OF ok, of og k] ne by (simp add: features_isEnabled_def list_all_iff)
qed

text \<open>
  The kill switch.  When \<open>disableEverywhere(key)\<close> succeeds, the feature and every feature below it
  are off in every organization, whatever their overrides and defaults were.
\<close>

theorem disableEverywhere_off:
  assumes "features_ok s" "features_disableEverywhere now key meta s = (Inr res, s')"
    and "key \<in> set (featureChain (featureDefinitions s) q)"
  shows "\<not> features_isEnabled s' og q"
proof -
  have ok': "features_ok s'" using disableEverywhere_ok[OF assms(1), of now key meta] assms(2) by simp
  have "featureChain (featureDefinitions s') q = featureChain (featureDefinitions s) q"
    using assms(1) disableEverywhere_effect(1)[OF assms(1,2)]
    by (intro featureChain_same_parent) (simp_all add: features_ok_def)
  then show ?thesis
    using is_on_iff[OF ok', of og q] disableEverywhere_effect(2)[OF assms(1,2)] assms(3)
    by (auto simp: features_isEnabled_def list_all_iff)
qed

definition demo_features :: store where
  "demo_features = empty_store \<lparr> featureDefinitions := demo_catalog \<rparr>"

theorem disableEverywhere_off_witness:
  "\<not> features_isEnabled (snd (features_disableEverywhere 5 ''ai'' no_meta demo_features)) ''org1'' ''ai_chat''"
proof (rule disableEverywhere_off)
  show "features_ok demo_features" using demo_catalog_wf by (simp add: demo_features_def features_ok_def)
  show "features_disableEverywhere 5 ''ai'' no_meta demo_features =
      (Inr (0, True), snd (features_disableEverywhere 5 ''ai'' no_meta demo_features))"
    by (simp add: features_disableEverywhere_def demo_features_def demo_catalog_def Let_def and_then_def returns_def)
  show "''ai'' \<in> set (featureChain (featureDefinitions demo_features) ''ai_chat'')"
    by (simp add: demo_features_def demo_catalog_def featureChain_def MAX_FEATURE_DEPTH_def numeral_eq_Suc)
qed

end
