(* ===== verification/Versioned.thy ===== *)
theory Versioned
  imports State
begin

text \<open>
  Optimistic concurrency, the contract of every operation that takes an \<open>expectedVersion\<close>
  (organizations, roles, memberships, feature overrides, teams): it succeeds only on the version it
  names, and a row it changes goes up by one.
\<close>

locale versioned =
  fixes row :: "store \<Rightarrow> string \<Rightarrow> 'r option" and ver :: "'r \<Rightarrow> int"
    and upd :: "'i \<Rightarrow> int option \<Rightarrow> string \<Rightarrow> store \<Rightarrow> (uerror + 'a) \<times> store"
  assumes expected: "row s k = Some r \<Longrightarrow> fst (upd i (Some v) k s) = Inr a \<Longrightarrow> ver r = v"
    and bump: "row s k = Some r \<Longrightarrow> row (snd (upd i e k s)) k = Some r' \<Longrightarrow> r' \<noteq> r \<Longrightarrow> ver r' = ver r + 1"
begin

text \<open>An edit made from a copy that was read before another change is refused.\<close>

lemma no_lost_update:
  assumes "row s k = Some r" "row (snd (upd i e k s)) k = Some r'" "r' \<noteq> r"
  shows "\<not> is_ok (fst (upd j (Some (ver r)) k (snd (upd i e k s))))"
proof
  assume "is_ok (fst (upd j (Some (ver r)) k (snd (upd i e k s))))"
  then obtain a where "fst (upd j (Some (ver r)) k (snd (upd i e k s))) = Inr a"
    by (cases "fst (upd j (Some (ver r)) k (snd (upd i e k s)))") auto
  from expected[OF assms(2) this] bump[OF assms] show False by simp
qed

lemma stale_copy_refused: "row s k = Some r \<Longrightarrow> ver r \<noteq> v \<Longrightarrow> \<not> is_ok (fst (upd i (Some v) k s))"
  using expected by (cases "fst (upd i (Some v) k s)") auto

end

end
