(* ===== verification/Organizations.thy ===== *)
theory Organizations
  imports AuditLog Features Versioned
begin

text \<open>
  Organizations: \<open>packages/core/src/organization/slug.ts\<close>, \<open>organization/status.ts\<close> and
  \<open>organizationRepository\<close> of \<open>storage/memory.ts\<close>.  The lemmas show that ids and slugs stay unique and
  well formed, that status changes touch nothing else and that stale edits are refused.
\<close>

section \<open>Names, slugs and statuses\<close>

definition sanitizeOrganizationName :: "string \<Rightarrow> uerror + string" where
  "sanitizeOrganizationName name =
     (let trimmed = clean_name name in
      if trimmed = [] then Inl (orgErr ''Organization name cannot be empty.'')
      else if length trimmed > 255 then Inl (orgErr ''Organization name cannot exceed 255 characters.'')
      else Inr trimmed)"

definition slugify :: "string \<Rightarrow> string" where
  "slugify name = deriveSlug name MAX_SLUG_LENGTH"

definition assertValidSlug :: "string \<Rightarrow> uerror + string" where
  "assertValidSlug slug =
     (if slug = [] then Inl (orgErr ''Organization slug cannot be empty.'')
      else if length slug > MAX_SLUG_LENGTH then Inl (orgErr ''Organization slug cannot exceed 63 characters.'')
      else if \<not> matchesSlugPattern slug
      then Inl (orgErr ''Organization slug must be lowercase alphanumeric characters separated by single hyphens (e.g. acme-motors).'')
      else Inr slug)"

definition resolveOrganizationSlug :: "string \<Rightarrow> string option \<Rightarrow> uerror + string" where
  "resolveOrganizationSlug name explicitSlug =
     (case explicitSlug of
        Some s \<Rightarrow> assertValidSlug s
      | None \<Rightarrow>
          let derived = slugify name in
          if derived = []
          then Inl (orgErr ''Could not derive a URL-safe slug from this organization name - pass an explicit `slug`.'')
          else Inr derived)"

definition assertOrganizationStatus :: "string \<Rightarrow> uerror + org_status" where
  "assertOrganizationStatus value =
     (if value = ''active'' then Inr OActive
      else if value = ''suspended'' then Inr OSuspended
      else if value = ''archived'' then Inr OArchived
      else Inl (UError EOrganization ''organization_status_invalid''))"

definition sanitizeStatusReason :: "string option \<Rightarrow> uerror + string option" where
  "sanitizeStatusReason reason =
     (case reason of None \<Rightarrow> Inr None
      | Some r \<Rightarrow>
          let trimmed = trim r in
          if trimmed = [] then Inr None
          else if length trimmed > 500 then Inl (UError EOrganization ''organization_status_invalid'')
          else Inr (Some trimmed))"

section \<open>Operations\<close>

record create_organization =
  co_id :: string
  co_name :: string
  co_slug :: "string option"

record update_organization =
  uo_name :: "string option"
  uo_slug :: "string option"
  uo_expectedVersion :: "int option"

record set_status =
  ss_status :: string
  ss_actor :: identity
  ss_reason :: "string option"

record search_organizations =
  so_limit :: "nat option"
  so_after :: "(timestamp \<times> string) option"
  so_query :: "string option"
  so_status :: "string list option"
  so_feature :: "(string \<times> bool option) option"

definition slug_taken :: "store \<Rightarrow> (organization \<Rightarrow> bool) \<Rightarrow> string \<Rightarrow> bool" where
  "slug_taken s other slug \<longleftrightarrow> list_ex (\<lambda>x. other x \<and> o_slug x = slug) (mvals (organizations s))"

definition org_create :: "timestamp \<Rightarrow> create_organization \<Rightarrow> organization op" where
  "org_create now input =
     guard (sanitizeOrganizationName (co_name input)) (\<lambda>name.
     guard (resolveOrganizationSlug name (co_slug input)) (\<lambda>slug s.
       if mhas (organizations s) (co_id input)
       then fails (orgErr (''An organization with id '' @ quoted (co_id input) @ '' already exists.'')) s
       else if slug_taken s (\<lambda>_. True) slug
       then fails (orgErr (if co_slug input \<noteq> None
              then ''An organization with slug '' @ quoted slug @ '' already exists.''
              else ''Could not derive a unique slug from this organization name - '' @ quoted slug @
                   '' is already taken. Pass an explicit `slug`.'')) s
       else
         let x = \<lparr> o_id = co_id input, o_slug = slug, o_name = name, o_createdAt = now, o_status = OActive,
                   o_version = 1, o_statusChange = None \<rparr>
         in returns x (s \<lparr> organizations := mset_at (co_id input) x (organizations s) \<rparr>)))"

definition org_findById :: "store \<Rightarrow> string \<Rightarrow> organization option" where
  "org_findById s i = mget (organizations s) i"

definition org_rename :: "string \<Rightarrow> string \<Rightarrow> organization option op" where
  "org_rename i name s =
     (case mget (organizations s) i of
        None \<Rightarrow> returns None s
      | Some existing \<Rightarrow>
          guard (sanitizeOrganizationName name) (\<lambda>sanitized s.
            if sanitized = o_name existing then returns (Some existing) s
            else let updated = existing \<lparr> o_name := sanitized, o_version := o_version existing + 1 \<rparr>
                 in returns (Some updated) (s \<lparr> organizations := mset_at i updated (organizations s) \<rparr>)) s)"

text \<open>The part of \<open>update\<close> after its inputs were validated.\<close>

definition org_apply_update :: "string \<Rightarrow> string option \<Rightarrow> string option \<Rightarrow> int option \<Rightarrow> organization option op" where
  "org_apply_update i name slug expectedVersion s =
     (case mget (organizations s) i of
        None \<Rightarrow> returns None s
      | Some existing \<Rightarrow>
          if \<not> version_ok expectedVersion (o_version existing)
          then fails (UError EOrganization ''organization_version_conflict'') s
          else if (case slug of None \<Rightarrow> False | Some sl \<Rightarrow> slug_taken s (\<lambda>x. o_id x \<noteq> i) sl)
          then fails (UError EOrganization ''organization_slug_taken'') s
          else
            let updated = existing \<lparr> o_name := (case name of None \<Rightarrow> o_name existing | Some n \<Rightarrow> n),
                                     o_slug := (case slug of None \<Rightarrow> o_slug existing | Some sl \<Rightarrow> sl),
                                     o_version := o_version existing + 1 \<rparr>
            in if o_name updated = o_name existing \<and> o_slug updated = o_slug existing
               then returns (Some existing) s
               else returns (Some updated) (s \<lparr> organizations := mset_at i updated (organizations s) \<rparr>))"

definition org_update :: "string \<Rightarrow> update_organization \<Rightarrow> organization option op" where
  "org_update i input =
     (if uo_name input = None \<and> uo_slug input = None
      then fails (UError EOrganization ''organization_update_empty'')
      else
        guard (opt_check sanitizeOrganizationName (uo_name input)) (\<lambda>name.
        guard (opt_check assertValidSlug (uo_slug input)) (\<lambda>slug.
        guard (assertExpectedVersion (uo_expectedVersion input) 1) (\<lambda>expectedVersion.
          org_apply_update i name slug expectedVersion))))"

definition org_setStatus :: "timestamp \<Rightarrow> string \<Rightarrow> set_status \<Rightarrow> organization option op" where
  "org_setStatus now i input =
     guard (assertOrganizationStatus (ss_status input)) (\<lambda>status.
     guard (sanitizeStatusReason (ss_reason input)) (\<lambda>reason.
     guard (assertAuditInput (ss_actor input) ''organization.status_changed'') (\<lambda>_ s.
       case mget (organizations s) i of
         None \<Rightarrow> returns None s
       | Some existing \<Rightarrow>
           if o_status existing = status then returns (Some existing) s
           else
             let updated = existing \<lparr> o_status := status,
                   o_statusChange := Some \<lparr> ch_at = now, ch_by = ss_actor input, ch_reason = reason \<rparr>,
                   o_version := o_version existing + 1 \<rparr>
             in returns (Some updated) (s \<lparr> organizations := mset_at i updated (organizations s) \<rparr>))))"

definition org_findByIds :: "store \<Rightarrow> string list \<Rightarrow> organization list" where
  "org_findByIds s ids = List.map_filter (mget (organizations s)) ids"

definition org_list :: "store \<Rightarrow> organization list" where
  "org_list s = mvals (organizations s)"

definition statusSet :: "string list option \<Rightarrow> uerror + org_status list option" where
  "statusSet status = opt_check (mapr assertOrganizationStatus) status"

definition featureFilter :: "store \<Rightarrow> (string \<times> bool option) option \<Rightarrow> string \<Rightarrow> bool" where
  "featureFilter s f organizationId =
     (case f of None \<Rightarrow> True
      | Some (key, enabled) \<Rightarrow>
          is_on s organizationId key = (case enabled of None \<Rightarrow> True | Some b \<Rightarrow> b))"

definition organization_matches :: "store \<Rightarrow> search_organizations \<Rightarrow> org_status list option \<Rightarrow> organization \<Rightarrow> bool" where
  "organization_matches s options statuses x \<longleftrightarrow>
     (case statuses of None \<Rightarrow> True | Some st \<Rightarrow> o_status x \<in> set st) \<and>
     featureFilter s (so_feature options) (o_id x) \<and>
     query_hits (search_query (so_query options)) [o_name x, o_slug x]"

definition oldest_first :: "organization \<Rightarrow> organization \<Rightarrow> bool" where
  "oldest_first a b \<longleftrightarrow> o_createdAt a < o_createdAt b \<or> (o_createdAt a = o_createdAt b \<and> o_id a < o_id b)"

definition org_search :: "store \<Rightarrow> search_organizations \<Rightarrow> uerror + organization list" where
  "org_search s options =
     bindr (statusSet (so_status options)) (\<lambda>statuses.
       let sorted = sort_by oldest_first (filter (organization_matches s options statuses) (mvals (organizations s)));
           page = (case so_after options of None \<Rightarrow> sorted
                   | Some (at, i) \<Rightarrow> filter (\<lambda>x. at < o_createdAt x \<or> (o_createdAt x = at \<and> i < o_id x)) sorted)
       in Inr (slice_to (so_limit options) page))"

definition org_count :: "store \<Rightarrow> search_organizations \<Rightarrow> uerror + nat" where
  "org_count s options =
     bindr (statusSet (so_status options)) (\<lambda>statuses.
       Inr (cap_at (so_limit options) (length (filter (organization_matches s options statuses) (mvals (organizations s))))))"

section \<open>Lemmas\<close>

lemma assertValidSlug_Inr:
  "assertValidSlug s = Inr t \<longleftrightarrow> t = s \<and> s \<noteq> [] \<and> length s \<le> MAX_SLUG_LENGTH \<and> matchesSlugPattern s"
  by (auto simp: assertValidSlug_def)

text \<open>A derived slug is always one \<open>assertValidSlug\<close> accepts.\<close>

lemma slugify_valid: "slugify name \<noteq> [] \<Longrightarrow> assertValidSlug (slugify name) = Inr (slugify name)"
  using derive_with_valid[of "CHR ''-''" is_hyphen MAX_SLUG_LENGTH name]
  by (simp add: assertValidSlug_Inr slugify_def deriveSlug_def matchesSlugPattern_def is_hyphen_def)

lemma resolveOrganizationSlug_valid:
  "resolveOrganizationSlug name e = Inr slug \<Longrightarrow> assertValidSlug slug = Inr slug"
  using slugify_valid[of name]
  by (auto simp: resolveOrganizationSlug_def Let_def assertValidSlug_Inr split: option.splits if_splits)

definition orgs_wf :: "store \<Rightarrow> bool" where
  "orgs_wf s \<longleftrightarrow> keyed o_id (organizations s) \<and> inj_on o_slug (set (mvals (organizations s))) \<and>
     list_all (\<lambda>x. assertValidSlug (o_slug x) = Inr (o_slug x) \<and> 1 \<le> o_version x) (mvals (organizations s))"

lemma orgs_wf_update:
  assumes wf: "orgs_wf s" and x: "o_id x = i" "assertValidSlug (o_slug x) = Inr (o_slug x)" "1 \<le> o_version x"
    and free: "\<And>y. y \<in> set (mvals (organizations s)) \<Longrightarrow> o_id y \<noteq> i \<Longrightarrow> o_slug y \<noteq> o_slug x"
  shows "orgs_wf (s \<lparr> organizations := mset_at i x (organizations s) \<rparr>)"
proof -
  have k: "keyed o_id (organizations s)" using wf by (simp add: orgs_wf_def)
  have "inj_on o_slug (set (mvals (mset_at i x (organizations s))))"
  proof (rule inj_onI)
    fix a b assume "a \<in> set (mvals (mset_at i x (organizations s)))" "b \<in> set (mvals (mset_at i x (organizations s)))"
      "o_slug a = o_slug b"
    then show "a = b" using wf free[of a] free[of b]
      by (auto simp: orgs_wf_def inj_on_def keyed_vals_update[OF k x(1)])
  qed
  moreover have "assertValidSlug (o_slug z) = Inr (o_slug z) \<and> 1 \<le> o_version z"
    if "z \<in> set (mvals (mset_at i x (organizations s)))" for z
    using that wf x(2,3) by (auto simp: orgs_wf_def list_all_iff keyed_vals_update[OF k x(1)])
  ultimately show ?thesis using keyed_update[OF k x(1)]
    by (simp add: orgs_wf_def list_all_iff)
qed

lemma orgs_wf_row:
  assumes "orgs_wf s" "mget (organizations s) i = Some x"
  shows "o_id x = i" "assertValidSlug (o_slug x) = Inr (o_slug x)" "1 \<le> o_version x"
    "\<And>y. y \<in> set (mvals (organizations s)) \<Longrightarrow> o_id y \<noteq> i \<Longrightarrow> o_slug y \<noteq> o_slug x"
proof -
  have k: "keyed o_id (organizations s)" using assms(1) by (simp add: orgs_wf_def)
  show "o_id x = i" using keyed_get[OF k assms(2)] .
  then show "assertValidSlug (o_slug x) = Inr (o_slug x)" "1 \<le> o_version x"
    "\<And>y. y \<in> set (mvals (organizations s)) \<Longrightarrow> o_id y \<noteq> i \<Longrightarrow> o_slug y \<noteq> o_slug x"
    using assms mget_in_mvals[OF assms(2)] by (auto simp: orgs_wf_def list_all_iff inj_on_def)
qed

lemma orgs_wf_change:
  assumes "orgs_wf s" "mget (organizations s) i = Some x" "o_id y = o_id x" "o_slug y = o_slug x" "1 \<le> o_version y"
  shows "orgs_wf (s \<lparr> organizations := mset_at i y (organizations s) \<rparr>)"
  using orgs_wf_row[OF assms(1,2)] assms by (intro orgs_wf_update) simp_all

lemma org_create_wf:
  assumes wf: "orgs_wf s"
  shows "orgs_wf (snd (org_create now input s))"
proof (cases "sanitizeOrganizationName (co_name input)")
  case name: (Inr name)
  show ?thesis
  proof (cases "resolveOrganizationSlug name (co_slug input)")
    case slug: (Inr slug)
    show ?thesis
    proof (cases "mhas (organizations s) (co_id input) \<or> slug_taken s (\<lambda>_. True) slug")
      case True
      then show ?thesis using wf name slug by (auto simp: org_create_def)
    next
      case False
      then show ?thesis using wf name slug resolveOrganizationSlug_valid[OF slug]
        by (auto simp: org_create_def Let_def slug_taken_def list_ex_iff intro!: orgs_wf_update)
    qed
  qed (use wf name in \<open>simp add: org_create_def\<close>)
qed (use wf in \<open>simp add: org_create_def\<close>)

lemma org_rename_wf:
  assumes wf: "orgs_wf s"
  shows "orgs_wf (snd (org_rename i name s))"
proof (cases "mget (organizations s) i")
  case (Some x)
  then show ?thesis using wf orgs_wf_change[OF wf Some] orgs_wf_row(3)[OF wf Some]
    by (simp add: org_rename_def Let_def split: guard_split)
qed (use wf in \<open>simp add: org_rename_def\<close>)

lemma org_setStatus_wf:
  assumes wf: "orgs_wf s"
  shows "orgs_wf (snd (org_setStatus now i input s))"
proof (cases "mget (organizations s) i")
  case (Some x)
  then show ?thesis using wf orgs_wf_change[OF wf Some] orgs_wf_row(3)[OF wf Some]
    by (simp add: org_setStatus_def Let_def split: guard_split)
qed (use wf in \<open>simp add: org_setStatus_def split: guard_split\<close>)

text \<open>The ways \<open>update\<close> ends.\<close>

lemma org_update_cases:
  obtains (throw) e where "org_update i input s = (Inl e, s)"
  | (unknown) "org_update i input s = (Inr None, s)" "mget (organizations s) i = None"
  | (same) x where "org_update i input s = (Inr (Some x), s)" "mget (organizations s) i = Some x"
      "version_ok (uo_expectedVersion input) (o_version x)"
  | (changed) x y where "mget (organizations s) i = Some x"
      "org_update i input s = (Inr (Some y), s \<lparr> organizations := mset_at i y (organizations s) \<rparr>)"
      "version_ok (uo_expectedVersion input) (o_version x)" "o_version y = o_version x + 1" "o_id y = o_id x"
      "o_status y = o_status x" "o_createdAt y = o_createdAt x"
      "o_slug y = o_slug x \<or> (uo_slug input = Some (o_slug y) \<and> assertValidSlug (o_slug y) = Inr (o_slug y) \<and>
         \<not> slug_taken s (\<lambda>z. o_id z \<noteq> i) (o_slug y))"
proof (cases "org_update i input s = org_apply_update i
      (map_option (\<lambda>n. case sanitizeOrganizationName n of Inr m \<Rightarrow> m) (uo_name input)) (uo_slug input) (uo_expectedVersion input) s \<and>
      (\<forall>sl. uo_slug input = Some sl \<longrightarrow> assertValidSlug sl = Inr sl)")
  case False
  have "\<exists>e. org_update i input s = (Inl e, s)"
  proof (rule ccontr)
    assume no: "\<not> ?thesis"
    have ne: "\<not> (uo_name input = None \<and> uo_slug input = None)"
    proof
      assume "uo_name input = None \<and> uo_slug input = None"
      then have "org_update i input s = (Inl (UError EOrganization ''organization_update_empty''), s)"
        by (simp add: org_update_def fails_def)
      then show False using no by blast
    qed
    obtain name where n: "opt_check sanitizeOrganizationName (uo_name input) = Inr name"
      using no ne by (cases "opt_check sanitizeOrganizationName (uo_name input)") (auto simp: org_update_def fails_def)
    obtain slug where sl: "opt_check assertValidSlug (uo_slug input) = Inr slug"
      using no ne n by (cases "opt_check assertValidSlug (uo_slug input)") (auto simp: org_update_def fails_def)
    obtain v where v: "assertExpectedVersion (uo_expectedVersion input) 1 = Inr v"
      using no ne n sl by (cases "assertExpectedVersion (uo_expectedVersion input) 1") (auto simp: org_update_def fails_def)
    have "slug = uo_slug input" using sl by (auto simp: opt_check_Inr assertValidSlug_Inr)
    moreover have "v = uo_expectedVersion input" using assertExpectedVersion_Inr[OF v] by simp
    moreover have "name = map_option (\<lambda>n. case sanitizeOrganizationName n of Inr m \<Rightarrow> m) (uo_name input)"
      using n by (auto simp: opt_check_Inr)
    moreover have "\<forall>x. uo_slug input = Some x \<longrightarrow> assertValidSlug x = Inr x" using sl by (auto simp: opt_check_Inr assertValidSlug_Inr)
    ultimately show False using False ne n sl v by (auto simp: org_update_def)
  qed
  then show ?thesis using throw by blast
next
  case True
  show ?thesis
  proof (cases "mget (organizations s) i")
    case None
    then show ?thesis using True unknown by (simp add: org_apply_update_def returns_def)
  next
    case (Some x)
    let ?n = "map_option (\<lambda>n. case sanitizeOrganizationName n of Inr m \<Rightarrow> m) (uo_name input)" and ?sl = "uo_slug input"
    let ?y = "x \<lparr> o_name := (case ?n of None \<Rightarrow> o_name x | Some n \<Rightarrow> n),
                  o_slug := (case ?sl of None \<Rightarrow> o_slug x | Some sl \<Rightarrow> sl), o_version := o_version x + 1 \<rparr>"
    have eq: "org_update i input s =
        (if \<not> version_ok (uo_expectedVersion input) (o_version x)
         then fails (UError EOrganization ''organization_version_conflict'') s
         else if (case ?sl of None \<Rightarrow> False | Some sl \<Rightarrow> slug_taken s (\<lambda>x. o_id x \<noteq> i) sl)
         then fails (UError EOrganization ''organization_slug_taken'') s
         else if o_name ?y = o_name x \<and> o_slug ?y = o_slug x then returns (Some x) s
         else returns (Some ?y) (s \<lparr> organizations := mset_at i ?y (organizations s) \<rparr>))"
      using True Some by (simp add: org_apply_update_def Let_def)
    consider "\<not> version_ok (uo_expectedVersion input) (o_version x)"
      | "version_ok (uo_expectedVersion input) (o_version x)" "case ?sl of None \<Rightarrow> False | Some sl \<Rightarrow> slug_taken s (\<lambda>x. o_id x \<noteq> i) sl"
      | (same') "version_ok (uo_expectedVersion input) (o_version x)" "org_update i input s = (Inr (Some x), s)"
      | (changed') "version_ok (uo_expectedVersion input) (o_version x)"
          "\<not> (case ?sl of None \<Rightarrow> False | Some sl \<Rightarrow> slug_taken s (\<lambda>x. o_id x \<noteq> i) sl)"
          "org_update i input s = (Inr (Some ?y), s \<lparr> organizations := mset_at i ?y (organizations s) \<rparr>)"
      using eq unfolding returns_def by argo
    then show ?thesis
    proof cases
      case changed'
      moreover have "o_slug ?y = o_slug x \<or> (?sl = Some (o_slug ?y) \<and> assertValidSlug (o_slug ?y) = Inr (o_slug ?y) \<and>
          \<not> slug_taken s (\<lambda>z. o_id z \<noteq> i) (o_slug ?y))"
        using changed'(2) True by (cases ?sl) auto
      ultimately show ?thesis using changed[OF Some changed'(3)] by simp
    qed (use eq throw same[OF _ Some] in \<open>simp_all add: fails_def\<close>)
  qed
qed

lemma org_update_wf:
  assumes "orgs_wf s"
  shows "orgs_wf (snd (org_update i input s))"
proof (cases rule: org_update_cases[of i input s])
  case (changed x y)
  have "orgs_wf (s \<lparr> organizations := mset_at i y (organizations s) \<rparr>)"
    using changed(4,5,8) orgs_wf_row[OF assms changed(1)]
    by (intro orgs_wf_update[OF assms]) (auto simp: slug_taken_def list_ex_iff)
  then show ?thesis using changed(2) by simp
qed (use assms in simp_all)

interpretation orgv: versioned "\<lambda>s i. mget (organizations s) i" o_version
  "\<lambda>input e i. org_update i (input \<lparr> uo_expectedVersion := e \<rparr>)"
proof unfold_locales
  fix s i x input v a assume x: "mget (organizations s) i = Some x"
    and r: "fst (org_update i (input \<lparr> uo_expectedVersion := Some v \<rparr>) s) = Inr a"
  show "o_version x = v"
    using x r by (cases rule: org_update_cases[of i "input \<lparr> uo_expectedVersion := Some v \<rparr>" s]) (auto simp: version_ok_def)
next
  fix s i x input e y assume "mget (organizations s) i = Some x"
    "mget (organizations (snd (org_update i (input \<lparr> uo_expectedVersion := e \<rparr>) s))) i = Some y" "y \<noteq> x"
  then show "o_version y = o_version x + 1"
    by (cases rule: org_update_cases[of i "input \<lparr> uo_expectedVersion := e \<rparr>" s]) auto
qed

section \<open>Properties\<close>

datatype org_cmd = OCreate timestamp create_organization | ORename string string
  | OUpdate string update_organization | OSetStatus timestamp string set_status

fun org_exec :: "org_cmd \<Rightarrow> store \<Rightarrow> store" where
  "org_exec (OCreate now i) s = snd (org_create now i s)"
| "org_exec (ORename k n) s = snd (org_rename k n s)"
| "org_exec (OUpdate k i) s = snd (org_update k i s)"
| "org_exec (OSetStatus now k i) s = snd (org_setStatus now k i s)"

lemma org_run_wf: "orgs_wf s \<Longrightarrow> orgs_wf (fold org_exec cmds s)"
proof (induction cmds arbitrary: s)
  case (Cons c cmds)
  then show ?case by (cases c) (simp_all add: org_create_wf org_rename_wf org_update_wf org_setStatus_wf)
qed simp

text \<open>
  After any sequence of organization operations no two organizations share a slug, and every slug
  is one \<open>assertValidSlug\<close> accepts (also the derived ones, which \<open>create\<close> does not validate again).
\<close>

theorem org_slugs_unique:
  fixes cmds defines "s \<equiv> fold org_exec cmds empty_store"
  shows "inj_on o_slug (set (org_list s)) \<and>
    list_all (\<lambda>x. assertValidSlug (o_slug x) = Inr (o_slug x) \<and> org_findById s (o_id x) = Some x) (org_list s)"
proof -
  have wf: "orgs_wf s" unfolding s_def by (rule org_run_wf) (simp add: orgs_wf_def)
  then have "keyed o_id (organizations s)" by (simp add: orgs_wf_def)
  then show ?thesis using wf
    by (auto simp: orgs_wf_def org_list_def org_findById_def list_all_iff dest: keyed_vals[THEN iffD1])
qed

text \<open>
  No lost update.  Once an \<open>update\<close> has changed an organization, a second one that was prepared from
  the version read before it is refused, whatever it asks for.
\<close>

theorem org_no_lost_update:
  assumes "org_findById s i = Some x" "org_findById (snd (org_update i input s)) i = Some y" "y \<noteq> x"
  shows "\<not> is_ok (fst (org_update i (input2 \<lparr> uo_expectedVersion := Some (o_version x) \<rparr>) (snd (org_update i input s))))"
  using orgv.no_lost_update[where s = s and k = i and r = x and i = input and e = "uo_expectedVersion input" and r' = y and j = input2]
    assms
  by (simp add: org_findById_def)

definition demo_org :: organization where
  "demo_org = \<lparr> o_id = ''o1'', o_slug = ''acme'', o_name = ''Acme'', o_createdAt = 0, o_status = OActive,
     o_version = 1, o_statusChange = None \<rparr>"

definition demo_org_store :: store where
  "demo_org_store = empty_store \<lparr> organizations := [(''o1'', demo_org)] \<rparr>"

definition demo_org_update :: update_organization where
  "demo_org_update = \<lparr> uo_name = Some ''Beta'', uo_slug = None, uo_expectedVersion = Some 1 \<rparr>"

lemma demo_org_update_result:
  "org_update ''o1'' demo_org_update demo_org_store =
    (Inr (Some (demo_org \<lparr> o_name := ''Beta'', o_version := 2 \<rparr>)),
     demo_org_store \<lparr> organizations := [(''o1'', demo_org \<lparr> o_name := ''Beta'', o_version := 2 \<rparr>)] \<rparr>)"
  by (simp add: org_update_def org_apply_update_def demo_org_update_def demo_org_store_def demo_org_def sanitizeOrganizationName_def
      clean_name_def trim_def is_ws_def code_def assertExpectedVersion_def version_ok_def returns_def Let_def)

theorem org_no_lost_update_witness:
  "\<not> is_ok (fst (org_update ''o1'' (demo_org_update \<lparr> uo_expectedVersion := Some (o_version demo_org) \<rparr>)
     (snd (org_update ''o1'' demo_org_update demo_org_store))))"
proof (rule org_no_lost_update)
  show "org_findById demo_org_store ''o1'' = Some demo_org" by (simp add: org_findById_def demo_org_store_def)
  show "org_findById (snd (org_update ''o1'' demo_org_update demo_org_store)) ''o1'' =
      Some (demo_org \<lparr> o_name := ''Beta'', o_version := 2 \<rparr>)"
    by (simp add: demo_org_update_result org_findById_def)
qed (simp add: demo_org_def)

end
