(* ===== verification/Roles.thy ===== *)
theory Roles
  imports Versioned
begin

text \<open>
  Roles: \<open>packages/core/src/role/key.ts\<close> and \<open>roleRepository\<close> of \<open>storage/memory.ts\<close>.

  The lemmas show that every role operation keeps one Owner role per organization, unique keys per
  organization with \<open>owner\<close> reserved for the Owner role, and unique names (compared without case and
  diacritics) among the other roles; that an Owner role, once made, is never changed or deleted; and
  that no role can take its name afterwards.
\<close>

section \<open>Names and keys\<close>

text \<open>The soft hyphen is the only invisible or bidirectional-control character of Latin-1.\<close>

definition containsInvisibleOrBidiControl :: "string \<Rightarrow> bool" where
  "containsInvisibleOrBidiControl s = list_ex (\<lambda>c. code c = 173) s"

definition sanitizeRoleName :: "string \<Rightarrow> uerror + string" where
  "sanitizeRoleName name =
     (let trimmed = clean_name name in
      if trimmed = [] then Inl (roleErr ''Role name cannot be empty.'')
      else if length trimmed > 100 then Inl (roleErr ''Role name cannot exceed 100 characters.'')
      else if containsInvisibleOrBidiControl trimmed
      then Inl (roleErr ''Role name cannot contain invisible or bidirectional-control characters.'')
      else Inr trimmed)"

text \<open>
  \<open>normalize("NFD")\<close> without marks, per code unit: the letters of Latin-1 that decompose.  The
  confusable letters \<open>toConfusableSkeleton\<close> folds are Cyrillic and Greek; on Latin-1 it is the identity.
\<close>

definition nfd_base :: "char \<Rightarrow> string" where
  "nfd_base c = (if code c \<ge> 192 then nfkd_base c else [c])"

definition toConfusableSkeleton :: "string \<Rightarrow> string" where
  "toConfusableSkeleton s = s"

definition normalizeRoleName :: "string \<Rightarrow> uerror + string" where
  "normalizeRoleName name =
     bindr (sanitizeRoleName name) (\<lambda>n. Inr (toConfusableSkeleton (lower (concat (map nfd_base n)))))"

definition assertValidRoleKey :: "string \<Rightarrow> uerror + string" where
  "assertValidRoleKey key =
     (if key = [] then Inl (roleErr ''Role key cannot be empty.'')
      else if length key > MAX_SLUG_LENGTH then Inl (roleErr ''Role key cannot exceed 63 characters.'')
      else if \<not> matchesSlugPattern key
      then Inl (roleErr ''Role key must be lowercase alphanumeric characters separated by single hyphens (e.g. billing-manager).'')
      else if key = ''owner''
      then Inl (roleErr (''Role key '' @ quoted key @ '' is reserved for the protected Owner role.''))
      else Inr key)"

definition resolveRoleKey :: "string \<Rightarrow> string option \<Rightarrow> uerror + string" where
  "resolveRoleKey name explicitKey =
     (case explicitKey of
        Some k \<Rightarrow> assertValidRoleKey k
      | None \<Rightarrow>
          let derived = deriveSlug name MAX_SLUG_LENGTH in
          if derived = [] then Inl (roleErr ''Could not derive a key from this role name - pass an explicit `key`.'')
          else assertValidRoleKey derived)"

definition assertNonEmptyPermissionKey :: "string \<Rightarrow> uerror + string" where
  "assertNonEmptyPermissionKey permissionKey =
     (if trim permissionKey = [] then Inl (roleErr ''Permission key must be a non-empty string.'') else Inr permissionKey)"

definition sanitizeRolePermissionKeys :: "string list option \<Rightarrow> uerror + string list" where
  "sanitizeRolePermissionKeys permissionKeys =
     (case permissionKeys of None \<Rightarrow> Inr []
      | Some ks \<Rightarrow> bindr (mapr assertNonEmptyPermissionKey ks) (\<lambda>ks'. Inr (uniq ks')))"

definition sanitizeRoleDescription :: "string option \<Rightarrow> uerror + string option" where
  "sanitizeRoleDescription description =
     (case description of None \<Rightarrow> Inr None
      | Some d \<Rightarrow>
          let trimmed = trim d in
          if trimmed = [] then Inr None
          else if length trimmed > 500 then Inl (UError ERole ''role_description_invalid'')
          else Inr (Some trimmed))"

section \<open>Lookups\<close>

text \<open>\<open>some\<close> with a test that may throw.\<close>

fun anyr :: "('a \<Rightarrow> 'e + bool) \<Rightarrow> 'a list \<Rightarrow> 'e + bool" where
  "anyr f [] = Inr False"
| "anyr f (x # xs) = bindr (f x) (\<lambda>b. if b then Inr True else anyr f xs)"

lemma anyr_False: "anyr f xs = Inr False \<Longrightarrow> x \<in> set xs \<Longrightarrow> f x = Inr False"
  by (induction xs) (auto split: if_splits)

definition roleNameTaken :: "store \<Rightarrow> string \<Rightarrow> string \<Rightarrow> string option \<Rightarrow> uerror + bool" where
  "roleNameTaken s organizationId name excludeRoleId =
     anyr (\<lambda>r. if r_organizationId r \<noteq> organizationId then Inr False
               else bindr (normalizeRoleName (r_name r)) (\<lambda>a. bindr (normalizeRoleName name) (\<lambda>b.
                 Inr (a = b \<and> Some (r_id r) \<noteq> excludeRoleId)))) (mvals (roles s))"

definition roleKeyTaken :: "store \<Rightarrow> string \<Rightarrow> string \<Rightarrow> bool" where
  "roleKeyTaken s organizationId key = list_ex (\<lambda>r. r_organizationId r = organizationId \<and> r_key r = key) (mvals (roles s))"

record role_summary =
  rs_id :: string
  rs_organizationId :: string
  rs_name :: string
  rs_key :: string
  rs_isOwnerRole :: bool
  rs_isSystem :: bool

definition toRoleSummary :: "role \<Rightarrow> role_summary" where
  "toRoleSummary r = \<lparr> rs_id = r_id r, rs_organizationId = r_organizationId r, rs_name = r_name r, rs_key = r_key r,
     rs_isOwnerRole = r_isOwnerRole r, rs_isSystem = r_isSystem r \<rparr>"

record role_filter =
  rf_organizationId :: "string option"
  rf_query :: "string option"
  rf_heldBy :: "string option"
  rf_notHeldBy :: "string option"
  rf_isOwnerRole :: "bool option"
  rf_isSystem :: "bool option"

definition held_ids :: "store \<Rightarrow> string \<Rightarrow> string list" where
  "held_ids s membershipId = (case mget (memberships s) membershipId of None \<Rightarrow> [] | Some m \<Rightarrow> m_roleIds m)"

definition matchingRoles :: "store \<Rightarrow> role_filter \<Rightarrow> role list" where
  "matchingRoles s f =
     filter (\<lambda>r. opt_match (\<lambda>og. r_organizationId r = og) (rf_organizationId f) \<and>
                 opt_match (\<lambda>m. r_id r \<in> set (held_ids s m)) (rf_heldBy f) \<and>
                 opt_match (\<lambda>m. r_id r \<notin> set (held_ids s m)) (rf_notHeldBy f) \<and>
                 opt_match (\<lambda>b. r_isOwnerRole r = b) (rf_isOwnerRole f) \<and>
                 opt_match (\<lambda>b. r_isSystem r = b) (rf_isSystem f) \<and>
                 query_hits (search_query (rf_query f)) [r_name r, r_key r]) (mvals (roles s))"

text \<open>\<open>tally\<close> and \<open>capped\<close>: how often each requested id occurs, at most \<open>limit\<close>.\<close>

definition tally :: "string list \<Rightarrow> string list \<Rightarrow> (string, nat) jsmap" where
  "tally ids occurrences = of_entries (map (\<lambda>i. (i, count_list occurrences i)) ids)"

definition capped :: "(string, nat) jsmap \<Rightarrow> nat option \<Rightarrow> (string, nat) jsmap" where
  "capped counts limit = mmap (cap_at limit) counts"

section \<open>Operations\<close>

record create_role =
  cr_id :: string
  cr_organizationId :: string
  cr_name :: string
  cr_key :: "string option"
  cr_permissionKeys :: "string list option"
  cr_description :: "string option"
  cr_isSystem :: bool

definition put_role :: "role \<Rightarrow> store \<Rightarrow> store" where
  "put_role r s = s \<lparr> roles := mset_at (r_id r) r (roles s) \<rparr>"

definition role_create :: "create_role \<Rightarrow> role op" where
  "role_create input s =
     (if mhas (roles s) (cr_id input) then fails (UError ERole ''role_exists'') s
      else
        guard (sanitizeRoleName (cr_name input)) (\<lambda>name.
        guard (roleNameTaken s (cr_organizationId input) name None) (\<lambda>taken.
        if taken then fails (roleErr (''A role named '' @ quoted name @ '' already exists in this organization.''))
        else
        guard (resolveRoleKey name (cr_key input)) (\<lambda>key.
        if roleKeyTaken s (cr_organizationId input) key
        then fails (roleErr (if cr_key input \<noteq> None
               then ''A role with key '' @ quoted key @ '' already exists in this organization.''
               else ''Could not derive a unique key from this role name - '' @ quoted key @
                    '' is already taken in this organization. Pass an explicit `key`.''))
        else
        guard (sanitizeRoleDescription (cr_description input)) (\<lambda>description.
        guard (sanitizeRolePermissionKeys (cr_permissionKeys input)) (\<lambda>keys.
          let r = \<lparr> r_id = cr_id input, r_organizationId = cr_organizationId input, r_isOwnerRole = False,
                    r_key = key, r_name = name, r_description = description, r_isSystem = cr_isSystem input,
                    r_permissionKeys = keys, r_version = 1 \<rparr>
          in (\<lambda>s. returns r (put_role r s))))))) s)"

definition role_createOwnerRole :: "string \<Rightarrow> string \<Rightarrow> role op" where
  "role_createOwnerRole i organizationId s =
     (if mhas (roles s) i then fails (UError ERole ''role_exists'') s
      else if list_ex (\<lambda>r. r_organizationId r = organizationId \<and> r_isOwnerRole r) (mvals (roles s))
      then fails (roleErr (''Organization '' @ quoted organizationId @ '' already has an Owner role.'')) s
      else
        let r = \<lparr> r_id = i, r_organizationId = organizationId, r_isOwnerRole = True, r_key = ''owner'',
                  r_name = ''Owner'', r_description = None, r_isSystem = False, r_permissionKeys = [], r_version = 1 \<rparr>
        in returns r (put_role r s))"

definition role_findByIds :: "store \<Rightarrow> string list \<Rightarrow> role list" where
  "role_findByIds s ids = List.map_filter (mget (roles s)) ids"

definition role_listByOrganization :: "store \<Rightarrow> string \<Rightarrow> role list" where
  "role_listByOrganization s organizationId = filter (\<lambda>r. r_organizationId r = organizationId) (mvals (roles s))"

definition role_findSummariesByIds :: "store \<Rightarrow> string list \<Rightarrow> role_summary list" where
  "role_findSummariesByIds s ids = map toRoleSummary (role_findByIds s ids)"

definition role_search :: "store \<Rightarrow> role_filter \<Rightarrow> string option \<Rightarrow> nat option \<Rightarrow> role_summary list" where
  "role_search s f after limit =
     (let matches = sort_by (\<lambda>a b. r_key a < r_key b) (matchingRoles s f);
          page = (case after of None \<Rightarrow> matches | Some k \<Rightarrow> filter (\<lambda>r. k < r_key r) matches)
      in map toRoleSummary (slice_to limit page))"

definition role_count :: "store \<Rightarrow> role_filter \<Rightarrow> nat" where
  "role_count s f = length (matchingRoles s f)"

definition role_countPermissions :: "store \<Rightarrow> string list \<Rightarrow> (string, nat) jsmap" where
  "role_countPermissions s roleIds =
     of_entries (map (\<lambda>i. (i, case mget (roles s) i of None \<Rightarrow> 0 | Some r \<Rightarrow> length (r_permissionKeys r))) roleIds)"

definition role_grantingRoles :: "store \<Rightarrow> string \<Rightarrow> string list \<Rightarrow> nat \<Rightarrow> (string, nat \<times> role_summary list) jsmap" where
  "role_grantingRoles s membershipId keys perKey =
     (let held = role_findByIds s (held_ids s membershipId) in
      of_entries (map (\<lambda>key.
        let granting = sort_by (\<lambda>a b. r_name a < r_name b) (filter (\<lambda>r. key \<in> set (r_permissionKeys r)) held)
        in (key, (length granting, map toRoleSummary (take perKey granting)))) keys))"

definition role_grantedPermissionKeys :: "store \<Rightarrow> string \<Rightarrow> string list \<Rightarrow> string list" where
  "role_grantedPermissionKeys s roleId keys =
     filter (\<lambda>k. case mget (roles s) roleId of None \<Rightarrow> False | Some r \<Rightarrow> k \<in> set (r_permissionKeys r)) keys"

definition role_countByOrganization :: "store \<Rightarrow> string list \<Rightarrow> nat option \<Rightarrow> (string, nat) jsmap" where
  "role_countByOrganization s organizationIds limit =
     capped (tally organizationIds (map r_organizationId (mvals (roles s)))) limit"

definition role_grantPermission :: "string \<Rightarrow> string \<Rightarrow> unit op" where
  "role_grantPermission roleId permissionKey s =
     (case mget (roles s) roleId of
        None \<Rightarrow> fails (roleErr (''Role not found: '' @ roleId)) s
      | Some r \<Rightarrow>
          if r_isOwnerRole r then fails (roleErr ''Cannot modify permissions on the protected Owner role.'') s
          else guard (assertNonEmptyPermissionKey permissionKey) (\<lambda>_ s.
            if permissionKey \<in> set (r_permissionKeys r) then returns () s
            else returns () (put_role (r \<lparr> r_permissionKeys := r_permissionKeys r @ [permissionKey],
                                           r_version := r_version r + 1 \<rparr>) s)) s)"

definition role_revokePermission :: "string \<Rightarrow> string \<Rightarrow> unit op" where
  "role_revokePermission roleId permissionKey s =
     (case mget (roles s) roleId of
        None \<Rightarrow> fails (roleErr (''Role not found: '' @ roleId)) s
      | Some r \<Rightarrow>
          if r_isOwnerRole r then fails (roleErr ''Cannot modify permissions on the protected Owner role.'') s
          else if permissionKey \<notin> set (r_permissionKeys r) then returns () s
          else returns () (put_role (r \<lparr> r_permissionKeys := splice_out permissionKey (r_permissionKeys r),
                                         r_version := r_version r + 1 \<rparr>) s))"

definition role_rename :: "string \<Rightarrow> string \<Rightarrow> role op" where
  "role_rename roleId name s =
     (case mget (roles s) roleId of
        None \<Rightarrow> fails (roleErr (''Role not found: '' @ roleId)) s
      | Some r \<Rightarrow>
          if r_isOwnerRole r then fails (roleErr ''Cannot rename the protected Owner role.'') s
          else if r_isSystem r then fails (UError ERole ''role_system_protected'') s
          else
            guard (sanitizeRoleName name) (\<lambda>sanitized.
            guard (roleNameTaken s (r_organizationId r) sanitized (Some roleId)) (\<lambda>taken s.
              if taken then fails (roleErr (''A role named '' @ quoted sanitized @ '' already exists in this organization.'')) s
              else if r_name r = sanitized then returns r s
              else let r' = r \<lparr> r_name := sanitized, r_version := r_version r + 1 \<rparr> in returns r' (put_role r' s))) s)"

text \<open>A description is absent (\<open>undefined\<close>), \<open>null\<close> (clear it) or text.\<close>

record update_role =
  ur_name :: "string option"
  ur_description :: "string option option"
  ur_expectedVersion :: "int option"

text \<open>The part of \<open>update\<close> after its inputs were validated.\<close>

definition role_apply_update :: "string \<Rightarrow> string option \<Rightarrow> string option option \<Rightarrow> int option \<Rightarrow> role op" where
  "role_apply_update roleId name description expectedVersion s =
     (case mget (roles s) roleId of
        None \<Rightarrow> fails (roleErr (''Role not found: '' @ roleId)) s
      | Some r \<Rightarrow>
          if \<not> version_ok expectedVersion (r_version r) then fails (UError ERole ''role_version_conflict'') s
          else if name \<noteq> None \<and> r_isOwnerRole r then fails (roleErr ''Cannot rename the protected Owner role.'') s
          else if name \<noteq> None \<and> r_isSystem r then fails (UError ERole ''role_system_protected'') s
          else
            guard (case name of None \<Rightarrow> Inr False | Some n \<Rightarrow> roleNameTaken s (r_organizationId r) n (Some roleId)) (\<lambda>taken s.
              if taken then fails (roleErr (''A role named '' @ quoted (the name) @ '' already exists in this organization.'')) s
              else if description \<noteq> None \<and> r_isOwnerRole r \<and> name = None
              then fails (roleErr ''Cannot modify the protected Owner role.'') s
              else
                let r1 = r \<lparr> r_name := (case name of None \<Rightarrow> r_name r | Some n \<Rightarrow> n),
                             r_description := (case description of None \<Rightarrow> r_description r | Some d \<Rightarrow> d) \<rparr>;
                    r2 = (if r1 = r then r else r1 \<lparr> r_version := r_version r + 1 \<rparr>)
                in returns r2 (put_role r2 s)) s)"

definition role_update :: "string \<Rightarrow> update_role \<Rightarrow> role op" where
  "role_update roleId input =
     (if ur_name input = None \<and> ur_description input = None then fails (UError ERole ''role_update_empty'')
      else
        guard (opt_check sanitizeRoleName (ur_name input)) (\<lambda>name.
        guard (opt_check sanitizeRoleDescription (ur_description input)) (\<lambda>description.
        guard (assertExpectedVersion (ur_expectedVersion input) 1) (\<lambda>expectedVersion.
          role_apply_update roleId name description expectedVersion))))"

definition role_setPermissions :: "string \<Rightarrow> string list \<Rightarrow> int option \<Rightarrow> (string list \<times> string list) op" where
  "role_setPermissions roleId permissionKeys expected =
     guard (assertExpectedVersion expected 1) (\<lambda>expectedVersion s.
       case mget (roles s) roleId of
         None \<Rightarrow> fails (roleErr (''Role not found: '' @ roleId)) s
       | Some r \<Rightarrow>
           if r_isOwnerRole r then fails (roleErr ''Cannot modify permissions on the protected Owner role.'') s
           else if \<not> version_ok expectedVersion (r_version r) then fails (UError ERole ''role_version_conflict'') s
           else guard (sanitizeRolePermissionKeys (Some permissionKeys)) (\<lambda>wanted s.
             if list_ex (\<lambda>k. \<not> mhas (permissions s) k) wanted then fails (UError ERole ''role_permission_invalid'') s
             else
               let granted = filter (\<lambda>k. k \<notin> set (r_permissionKeys r)) wanted;
                   revoked = filter (\<lambda>k. k \<notin> set wanted) (r_permissionKeys r);
                   r' = r \<lparr> r_permissionKeys := wanted,
                            r_version := (if granted \<noteq> [] \<or> revoked \<noteq> [] then r_version r + 1 else r_version r) \<rparr>
               in returns (granted, revoked) (put_role r' s)) s)"

record clone_role =
  cl_id :: string
  cl_name :: string
  cl_key :: "string option"
  cl_organizationId :: "string option"
  cl_description :: "string option"

definition role_clone :: "string \<Rightarrow> clone_role \<Rightarrow> role op" where
  "role_clone roleId input s =
     (case mget (roles s) roleId of
        None \<Rightarrow> fails (roleErr (''Role not found: '' @ roleId)) s
      | Some source \<Rightarrow>
          if r_isOwnerRole source then fails (UError ERole ''owner_role_protected'') s
          else role_create
            \<lparr> cr_id = cl_id input,
              cr_organizationId = (case cl_organizationId input of None \<Rightarrow> r_organizationId source | Some og \<Rightarrow> og),
              cr_name = cl_name input, cr_key = cl_key input, cr_permissionKeys = Some (r_permissionKeys source),
              cr_description = (case cl_description input of None \<Rightarrow> r_description source | Some d \<Rightarrow> Some d),
              cr_isSystem = False \<rparr> s)"

datatype members_policy = Detach | Reject | ReassignTo string

text \<open>Only the first occurrence is spliced out of a membership; a team membership is filtered.\<close>

definition detach_role :: "string \<Rightarrow> store \<Rightarrow> store" where
  "detach_role roleId s = s \<lparr> roles := mdel roleId (roles s),
     memberships := mmap (\<lambda>m. m \<lparr> m_roleIds := splice_out roleId (m_roleIds m) \<rparr>) (memberships s),
     teamMemberships := mmap (\<lambda>t. t \<lparr> tm_roleIds := filter (\<lambda>c. c \<noteq> roleId) (tm_roleIds t) \<rparr>) (teamMemberships s) \<rparr>"

definition role_delete :: "string \<Rightarrow> members_policy \<Rightarrow> unit op" where
  "role_delete roleId policy s =
     (case mget (roles s) roleId of
        None \<Rightarrow> fails (roleErr (''Role not found: '' @ roleId)) s
      | Some r \<Rightarrow>
          if r_isOwnerRole r then fails (roleErr ''Cannot delete the protected Owner role.'') s
          else if r_isSystem r then fails (UError ERole ''role_system_protected'') s
          else case policy of
            Detach \<Rightarrow> returns () (detach_role roleId s)
          | Reject \<Rightarrow>
              if list_ex (\<lambda>m. roleId \<in> set (m_roleIds m)) (mvals (memberships s)) \<or>
                 list_ex (\<lambda>t. roleId \<in> set (tm_roleIds t)) (mvals (teamMemberships s))
              then fails (UError ERole ''role_in_use'') s
              else returns () (detach_role roleId s)
          | ReassignTo target \<Rightarrow>
              (case mget (roles s) target of
                 None \<Rightarrow> fails (UError ERole ''role_reassign_invalid'') s
               | Some t \<Rightarrow>
                   if r_organizationId t \<noteq> r_organizationId r \<or> r_isOwnerRole t \<or> r_id t = roleId
                   then fails (UError ERole ''role_reassign_invalid'') s
                   else returns () (detach_role roleId (s \<lparr> memberships :=
                     mmap (\<lambda>m. if roleId \<in> set (m_roleIds m) \<and> r_id t \<notin> set (m_roleIds m)
                               then m \<lparr> m_roleIds := m_roleIds m @ [r_id t] \<rparr> else m) (memberships s) \<rparr>))))"

section \<open>The invariant\<close>

definition roles_wf :: "store \<Rightarrow> bool" where
  "roles_wf s \<longleftrightarrow> keyed r_id (roles s) \<and>
     (\<forall>r \<in> set (mvals (roles s)). (r_key r = ''owner'') = r_isOwnerRole r \<and> distinct (r_permissionKeys r)) \<and>
     (\<forall>r \<in> set (mvals (roles s)). \<forall>q \<in> set (mvals (roles s)).
        r_organizationId r = r_organizationId q \<and> r \<noteq> q \<longrightarrow>
          r_key r \<noteq> r_key q \<and>
          (r_isOwnerRole r \<or> r_isOwnerRole q \<or> normalizeRoleName (r_name r) \<noteq> normalizeRoleName (r_name q)))"

lemma roles_wf_empty [simp]: "roles_wf empty_store"
  by (simp add: roles_wf_def)

lemma roles_keyed: "roles_wf s \<Longrightarrow> keyed r_id (roles s)"
  by (simp add: roles_wf_def)

text \<open>A role that clashes with none of the others may be stored.\<close>

definition fits :: "store \<Rightarrow> role \<Rightarrow> bool" where
  "fits s r \<longleftrightarrow> (r_key r = ''owner'') = r_isOwnerRole r \<and> distinct (r_permissionKeys r) \<and>
     (\<forall>q \<in> set (mvals (roles s)). r_organizationId q = r_organizationId r \<and> r_id q \<noteq> r_id r \<longrightarrow>
        r_key q \<noteq> r_key r \<and>
        (r_isOwnerRole q \<or> r_isOwnerRole r \<or> normalizeRoleName (r_name q) \<noteq> normalizeRoleName (r_name r)))"

lemma roles_wf_put:
  assumes wf: "roles_wf s" and fit: "fits s r"
  shows "roles_wf (put_role r s)"
proof -
  have k: "keyed r_id (roles s)" using wf by (rule roles_keyed)
  have vals: "x \<in> set (mvals (mset_at (r_id r) r (roles s))) \<longleftrightarrow> x = r \<or> (x \<in> set (mvals (roles s)) \<and> r_id x \<noteq> r_id r)" for x
    by (rule keyed_vals_update[OF k refl])
  have clash: "r_key x \<noteq> r_key y \<and>
      (r_isOwnerRole x \<or> r_isOwnerRole y \<or> normalizeRoleName (r_name x) \<noteq> normalizeRoleName (r_name y))"
    if xy: "x \<in> set (mvals (mset_at (r_id r) r (roles s)))" "y \<in> set (mvals (mset_at (r_id r) r (roles s)))"
      "r_organizationId x = r_organizationId y" "x \<noteq> y" for x y
  proof -
    consider "x = r" "y \<in> set (mvals (roles s))" "r_id y \<noteq> r_id r" | "y = r" "x \<in> set (mvals (roles s))" "r_id x \<noteq> r_id r"
      | "x \<in> set (mvals (roles s))" "y \<in> set (mvals (roles s))"
      using xy(1,2,4) unfolding vals by blast
    then show ?thesis
    proof cases
      case 1
      then have "r_key y \<noteq> r_key r \<and>
        (r_isOwnerRole y \<or> r_isOwnerRole r \<or> normalizeRoleName (r_name y) \<noteq> normalizeRoleName (r_name r))"
        using fit xy(3) unfolding fits_def by simp
      then show ?thesis using 1 by metis
    next
      case 2
      then show ?thesis using fit xy(3) unfolding fits_def by simp
    next
      case 3
      then show ?thesis using wf xy(3,4) unfolding roles_wf_def by blast
    qed
  qed
  have "(r_key x = ''owner'') = r_isOwnerRole x \<and> distinct (r_permissionKeys x)"
    if "x \<in> set (mvals (mset_at (r_id r) r (roles s)))" for x
    using that wf fit unfolding vals roles_wf_def fits_def by blast
  then show ?thesis unfolding roles_wf_def put_role_def
    using keyed_update[OF k refl] clash by simp
qed

text \<open>What an edit of a stored role may change: its name, if free, its description and its permissions.\<close>

definition role_edit :: "store \<Rightarrow> role \<Rightarrow> role \<Rightarrow> bool" where
  "role_edit s r r' \<longleftrightarrow> r_id r' = r_id r \<and> r_organizationId r' = r_organizationId r \<and> r_key r' = r_key r \<and>
     r_isOwnerRole r' = r_isOwnerRole r \<and> r_isSystem r' = r_isSystem r \<and> (r_isOwnerRole r \<longrightarrow> r' = r) \<and>
     (distinct (r_permissionKeys r) \<longrightarrow> distinct (r_permissionKeys r')) \<and>
     (r_name r' = r_name r \<or> roleNameTaken s (r_organizationId r) (r_name r') (Some (r_id r)) = Inr False) \<and>
     (r' = r \<or> r_version r' = r_version r + 1 \<or> set (r_permissionKeys r') = set (r_permissionKeys r))"

definition edits_role :: "string \<Rightarrow> store \<Rightarrow> store \<Rightarrow> bool" where
  "edits_role roleId s s' \<longleftrightarrow> s' = s \<or>
     (\<exists>r r'. mget (roles s) roleId = Some r \<and> role_edit s r r' \<and> s' = put_role r' s)"

lemma edits_role_refl [simp]: "edits_role roleId s s"
  by (simp add: edits_role_def)

lemma edits_roleI: "mget (roles s) roleId = Some r \<Longrightarrow> role_edit s r r' \<Longrightarrow> edits_role roleId s (put_role r' s)"
  by (auto simp: edits_role_def)

lemma roleNameTaken_False:
  assumes "roleNameTaken s og n ex = Inr False" "q \<in> set (mvals (roles s))" "r_organizationId q = og" "Some (r_id q) \<noteq> ex"
  shows "normalizeRoleName (r_name q) \<noteq> normalizeRoleName n"
  using anyr_False[OF assms(1)[unfolded roleNameTaken_def] assms(2)] assms(3,4) by auto

lemma edits_role_wf:
  assumes wf: "roles_wf s" and e: "edits_role roleId s s'"
  shows "roles_wf s'"
proof (cases "s' = s")
  case False
  then obtain r r' where r: "mget (roles s) roleId = Some r" "role_edit s r r'" "s' = put_role r' s"
    using e by (auto simp: edits_role_def)
  have mem: "r \<in> set (mvals (roles s))" using r(1) by (rule mget_in_mvals)
  have "fits s r'"
    unfolding fits_def
  proof (intro conjI ballI impI)
    show "(r_key r' = ''owner'') = r_isOwnerRole r'" "distinct (r_permissionKeys r')"
      using wf mem r(2) by (auto simp: roles_wf_def role_edit_def)
  next
    fix q assume q: "q \<in> set (mvals (roles s))" "r_organizationId q = r_organizationId r' \<and> r_id q \<noteq> r_id r'"
    then have "q \<noteq> r" "r_organizationId q = r_organizationId r" using r(2) by (auto simp: role_edit_def)
    then have old: "r_key q \<noteq> r_key r" "r_isOwnerRole q \<or> r_isOwnerRole r \<or> normalizeRoleName (r_name q) \<noteq> normalizeRoleName (r_name r)"
      using wf q(1) mem unfolding roles_wf_def by blast+
    then show "r_key q \<noteq> r_key r'" using r(2) by (simp add: role_edit_def)
    show "r_isOwnerRole q \<or> r_isOwnerRole r' \<or> normalizeRoleName (r_name q) \<noteq> normalizeRoleName (r_name r')"
      using old(2) r(2) q roleNameTaken_False[OF _ q(1), of "r_organizationId r" "r_name r'" "Some (r_id r)"]
      unfolding role_edit_def by auto
  qed
  then show ?thesis using roles_wf_put[OF wf] r(3) by simp
qed (use wf in simp)

lemma edits_role_owner:
  assumes wf: "roles_wf s" and e: "edits_role k s s'" and i: "mget (roles s) i = Some r" "r_isOwnerRole r"
  shows "mget (roles s') i = Some r"
proof (cases "s' = s")
  case False
  then obtain q q' where q: "mget (roles s) k = Some q" "role_edit s q q'" "s' = put_role q' s"
    using e by (auto simp: edits_role_def)
  have "r_id q = k" by (rule keyed_get[OF roles_keyed[OF wf] q(1)])
  then show ?thesis using q i by (auto simp: role_edit_def put_role_def)
qed (use i in simp)

lemma grantPermission_edits: "edits_role roleId s (snd (role_grantPermission roleId k s))"
  by (auto simp: role_grantPermission_def role_edit_def intro!: edits_roleI split: option.split guard_split)

lemma revokePermission_edits: "edits_role roleId s (snd (role_revokePermission roleId k s))"
  by (auto simp: role_revokePermission_def role_edit_def intro!: edits_roleI split: option.split guard_split)

lemma rename_edits:
  assumes "roles_wf s"
  shows "edits_role roleId s (snd (role_rename roleId name s))"
proof (cases "mget (roles s) roleId")
  case (Some r)
  then have "r_id r = roleId" using keyed_get roles_keyed[OF assms] by fastforce
  then show ?thesis using Some
    by (auto simp: role_rename_def role_edit_def Let_def intro!: edits_roleI split: guard_split)
qed (simp add: role_rename_def)

lemma apply_update_edits:
  assumes "roles_wf s"
  shows "edits_role roleId s (snd (role_apply_update roleId name description v s))"
proof (cases "mget (roles s) roleId")
  case (Some r)
  then have "r_id r = roleId" using keyed_get roles_keyed[OF assms] by fastforce
  then show ?thesis using Some
    by (auto simp: role_apply_update_def role_edit_def Let_def intro!: edits_roleI split: guard_split option.split)
qed (simp add: role_apply_update_def)

lemma update_edits: "roles_wf s \<Longrightarrow> edits_role roleId s (snd (role_update roleId input s))"
  by (auto simp: role_update_def apply_update_edits split: guard_split)

lemma setPermissions_edits: "edits_role roleId s (snd (role_setPermissions roleId ks v s))"
  by (auto simp: role_setPermissions_def role_edit_def Let_def sanitizeRolePermissionKeys_def filter_empty_conv
      intro!: edits_roleI split: guard_split option.split)

lemma resolveRoleKey_not_owner: "resolveRoleKey name e = Inr k \<Longrightarrow> k \<noteq> ''owner''"
  by (auto simp: resolveRoleKey_def Let_def assertValidRoleKey_def split: option.splits if_splits)

lemma sanitizeRolePermissionKeys_distinct: "sanitizeRolePermissionKeys ks = Inr xs \<Longrightarrow> distinct xs"
  by (auto simp: sanitizeRolePermissionKeys_def split: option.splits)

text \<open>A successful \<open>create\<close> stored one new role that fits.\<close>

lemma role_create_cases:
  obtains (throw) e where "role_create input s = (Inl e, s)"
  | (created) r where "role_create input s = (Inr r, put_role r s)" "mget (roles s) (r_id r) = None"
      "\<not> r_isOwnerRole r" "r_key r \<noteq> ''owner''" "distinct (r_permissionKeys r)" "r_id r = cr_id input"
      "r_organizationId r = cr_organizationId input"
      "roleNameTaken s (r_organizationId r) (r_name r) None = Inr False"
      "\<not> roleKeyTaken s (r_organizationId r) (r_key r)"
proof (cases "mhas (roles s) (cr_id input)")
  case True
  then show ?thesis using throw by (simp add: role_create_def fails_def)
next
  case free: False
  show ?thesis
  proof (cases "sanitizeRoleName (cr_name input)")
    case (Inl e)
    then show ?thesis using throw free by (simp add: role_create_def fails_def)
  next
    case name: (Inr name)
    show ?thesis
    proof (cases "roleNameTaken s (cr_organizationId input) name None")
      case (Inl e)
      then show ?thesis using throw free name by (simp add: role_create_def fails_def)
    next
      case taken: (Inr taken)
      show ?thesis
      proof (cases "resolveRoleKey name (cr_key input)")
        case (Inl e)
        then show ?thesis using throw free name taken by (cases taken) (simp_all add: role_create_def fails_def)
      next
        case key: (Inr key)
        show ?thesis
        proof (cases "sanitizeRoleDescription (cr_description input)")
          case (Inl e)
          then show ?thesis using throw free name taken key
            by (cases taken; cases "roleKeyTaken s (cr_organizationId input) key") (simp_all add: role_create_def fails_def)
        next
          case desc: (Inr desc)
          show ?thesis
          proof (cases "sanitizeRolePermissionKeys (cr_permissionKeys input)")
            case (Inl e)
            then show ?thesis using throw free name taken key desc
              by (cases taken; cases "roleKeyTaken s (cr_organizationId input) key") (simp_all add: role_create_def fails_def)
          next
            case keys: (Inr keys)
            show ?thesis
            proof (cases "taken \<or> roleKeyTaken s (cr_organizationId input) key")
              case True
              then show ?thesis using throw free name taken key desc keys
                by (cases taken) (simp_all add: role_create_def fails_def)
            next
              case False
              let ?r = "\<lparr> r_id = cr_id input, r_organizationId = cr_organizationId input, r_isOwnerRole = False,
                    r_key = key, r_name = name, r_description = desc, r_isSystem = cr_isSystem input,
                    r_permissionKeys = keys, r_version = 1 \<rparr>"
              have "role_create input s = (Inr ?r, put_role ?r s)"
                using free name taken key desc keys False by (simp add: role_create_def returns_def Let_def)
              then show ?thesis
                using created[of ?r] free taken False resolveRoleKey_not_owner[OF key] sanitizeRolePermissionKeys_distinct[OF keys]
                by (simp add: mhas_def)
            qed
          qed
        qed
      qed
    qed
  qed
qed

lemma role_create_wf:
  assumes wf: "roles_wf s"
  shows "roles_wf (snd (role_create input s))"
proof (cases rule: role_create_cases[of input s])
  case (created r)
  have "fits s r" unfolding fits_def
  proof (intro conjI ballI impI)
    fix q assume q: "q \<in> set (mvals (roles s))" "r_organizationId q = r_organizationId r \<and> r_id q \<noteq> r_id r"
    show "r_key q \<noteq> r_key r" using q created(9) by (auto simp: roleKeyTaken_def list_ex_iff)
    show "r_isOwnerRole q \<or> r_isOwnerRole r \<or> normalizeRoleName (r_name q) \<noteq> normalizeRoleName (r_name r)"
      using roleNameTaken_False[OF created(8) q(1)] q(2) by auto
  qed (use created in auto)
  then show ?thesis using roles_wf_put[OF wf] created(1) by simp
qed (use wf in simp)

lemma createOwnerRole_wf:
  assumes wf: "roles_wf s"
  shows "roles_wf (snd (role_createOwnerRole i og s))"
proof (cases "mhas (roles s) i \<or> list_ex (\<lambda>r. r_organizationId r = og \<and> r_isOwnerRole r) (mvals (roles s))")
  case False
  let ?r = "\<lparr> r_id = i, r_organizationId = og, r_isOwnerRole = True, r_key = ''owner'', r_name = ''Owner'',
    r_description = None, r_isSystem = False, r_permissionKeys = [], r_version = 1 \<rparr>"
  have "fits s ?r" using False wf by (auto simp: fits_def roles_wf_def list_ex_iff)
  then have "roles_wf (put_role ?r s)" by (rule roles_wf_put[OF wf])
  then show ?thesis using False by (simp add: role_createOwnerRole_def Let_def)
qed (use wf in \<open>auto simp: role_createOwnerRole_def\<close>)

lemma role_clone_wf: "roles_wf s \<Longrightarrow> roles_wf (snd (role_clone i input s))"
  by (simp add: role_clone_def role_create_wf split: option.split)

lemma roles_wf_del:
  assumes "roles_wf s" "roles s' = mdel i (roles s)"
  shows "roles_wf s'"
  using assms keyed_delete[OF roles_keyed[OF assms(1)], of i] keyed_vals_delete[OF roles_keyed[OF assms(1)], of _ i]
  unfolding roles_wf_def by simp

lemma role_delete_roles:
  "roles (snd (role_delete i policy s)) = roles s \<or>
   (roles (snd (role_delete i policy s)) = mdel i (roles s) \<and> (\<exists>r. mget (roles s) i = Some r \<and> \<not> r_isOwnerRole r))"
  by (auto simp: role_delete_def detach_role_def split: option.split members_policy.split)

lemma roles_wf_same: "roles_wf s \<Longrightarrow> roles s' = roles s \<Longrightarrow> roles_wf s'"
  unfolding roles_wf_def by simp

lemma role_delete_wf: "roles_wf s \<Longrightarrow> roles_wf (snd (role_delete i policy s))"
  using role_delete_roles[of i policy s] roles_wf_del roles_wf_same by blast

section \<open>Properties\<close>

datatype role_cmd = RCreate create_role | RCreateOwner string string | RGrant string string | RRevoke string string
  | RRename string string | RUpdate string update_role | RSetPermissions string "string list" "int option"
  | RClone string clone_role | RDelete string members_policy

fun role_exec :: "role_cmd \<Rightarrow> store \<Rightarrow> store" where
  "role_exec (RCreate i) s = snd (role_create i s)"
| "role_exec (RCreateOwner i og) s = snd (role_createOwnerRole i og s)"
| "role_exec (RGrant i k) s = snd (role_grantPermission i k s)"
| "role_exec (RRevoke i k) s = snd (role_revokePermission i k s)"
| "role_exec (RRename i n) s = snd (role_rename i n s)"
| "role_exec (RUpdate i u) s = snd (role_update i u s)"
| "role_exec (RSetPermissions i ks v) s = snd (role_setPermissions i ks v s)"
| "role_exec (RClone i c) s = snd (role_clone i c s)"
| "role_exec (RDelete i p) s = snd (role_delete i p s)"

lemmas role_edits_wf =
  edits_role_wf[OF _ grantPermission_edits] edits_role_wf[OF _ revokePermission_edits]
  edits_role_wf[OF _ setPermissions_edits]

lemma role_exec_wf: "roles_wf s \<Longrightarrow> roles_wf (role_exec c s)"
  by (cases c) (simp_all add: role_create_wf createOwnerRole_wf role_clone_wf role_delete_wf role_edits_wf
      edits_role_wf[OF _ rename_edits] edits_role_wf[OF _ update_edits])

lemma role_run_wf: "roles_wf s \<Longrightarrow> roles_wf (fold role_exec cmds s)"
  by (induction cmds arbitrary: s) (simp_all add: role_exec_wf)

text \<open>
  C31: after any sequence of role operations, two roles of one organization never share a key, at most
  one of them is the Owner role, the key \<open>owner\<close> is exactly the Owner role's, and no two custom roles
  of the organization have the same name up to case and diacritics.
\<close>

theorem role_identity_unique:
  assumes "r \<in> set (mvals (roles (fold role_exec cmds empty_store)))" "q \<in> set (mvals (roles (fold role_exec cmds empty_store)))"
    "r_organizationId r = r_organizationId q" "r \<noteq> q"
  shows "r_key r \<noteq> r_key q \<and> \<not> (r_isOwnerRole r \<and> r_isOwnerRole q) \<and> (r_key r = ''owner'' \<longleftrightarrow> r_isOwnerRole r) \<and>
    (\<not> r_isOwnerRole r \<and> \<not> r_isOwnerRole q \<longrightarrow> normalizeRoleName (r_name r) \<noteq> normalizeRoleName (r_name q))"
proof -
  have wf: "roles_wf (fold role_exec cmds empty_store)" by (rule role_run_wf) simp
  have "r_key r \<noteq> r_key q"
    and "r_isOwnerRole r \<or> r_isOwnerRole q \<or> normalizeRoleName (r_name r) \<noteq> normalizeRoleName (r_name q)"
    using wf assms unfolding roles_wf_def by blast+
  moreover have "(r_key r = ''owner'') = r_isOwnerRole r" "(r_key q = ''owner'') = r_isOwnerRole q"
    using wf assms(1,2) unfolding roles_wf_def by blast+
  ultimately show ?thesis by metis
qed

definition demo_role_input :: create_role where
  "demo_role_input = \<lparr> cr_id = ''r2'', cr_organizationId = ''o1'', cr_name = ''Front desk'', cr_key = Some ''front-desk'',
     cr_permissionKeys = None, cr_description = None, cr_isSystem = False \<rparr>"

definition demo_owner :: role where
  "demo_owner = \<lparr> r_id = ''r1'', r_organizationId = ''o1'', r_isOwnerRole = True, r_key = ''owner'', r_name = ''Owner'',
     r_description = None, r_isSystem = False, r_permissionKeys = [], r_version = 1 \<rparr>"

definition demo_role :: role where
  "demo_role = \<lparr> r_id = ''r2'', r_organizationId = ''o1'', r_isOwnerRole = False, r_key = ''front-desk'', r_name = ''Front desk'',
     r_description = None, r_isSystem = False, r_permissionKeys = [], r_version = 1 \<rparr>"

lemmas text_eval = clean_name_def trim_def is_ws_def code_def lower_def lower_char_def is_upper_az_def is_lower_az_def
  is_digit09_def is_alnum_def is_hyphen_def is_underscore_def nfd_base_def nfkd_base_def matchesSlugPattern_def
  containsInvisibleOrBidiControl_def toConfusableSkeleton_def

lemma demo_role_run:
  "roles (fold role_exec [RCreateOwner ''r1'' ''o1'', RCreate demo_role_input] empty_store) =
    [(''r1'', demo_owner), (''r2'', demo_role)]"
  by (simp add: role_createOwnerRole_def role_create_def demo_role_input_def demo_owner_def demo_role_def mhas_def mvals_def
      put_role_def roleNameTaken_def normalizeRoleName_def sanitizeRoleName_def text_eval resolveRoleKey_def
      assertValidRoleKey_def MAX_SLUG_LENGTH_def roleKeyTaken_def sanitizeRoleDescription_def sanitizeRolePermissionKeys_def Let_def)

theorem role_identity_unique_witness:
  "r_key demo_owner \<noteq> r_key demo_role \<and> \<not> (r_isOwnerRole demo_owner \<and> r_isOwnerRole demo_role) \<and>
    (r_key demo_owner = ''owner'') = r_isOwnerRole demo_owner"
proof -
  let ?s = "fold role_exec [RCreateOwner ''r1'' ''o1'', RCreate demo_role_input] empty_store"
  have "demo_owner \<in> set (mvals (roles ?s))" "demo_role \<in> set (mvals (roles ?s))"
    unfolding demo_role_run by (simp_all add: mvals_def)
  moreover have "r_organizationId demo_owner = r_organizationId demo_role" "demo_owner \<noteq> demo_role"
    by (simp_all add: demo_owner_def demo_role_def)
  ultimately show ?thesis using role_identity_unique[of demo_owner _ demo_role] by blast
qed

lemma role_exec_keeps_owner:
  assumes wf: "roles_wf s" and i: "mget (roles s) i = Some r" "r_isOwnerRole r"
  shows "mget (roles (role_exec c s)) i = Some r"
proof -
  have edit: "mget (roles s') i = Some r" if "edits_role k s s'" for k s'
    by (rule edits_role_owner[OF wf that i])
  show ?thesis
  proof (cases c)
    case (RCreate input)
    then show ?thesis using i(1)
      by (cases rule: role_create_cases[of input s]) (auto simp: put_role_def)
  next
    case (RCreateOwner j og)
    then show ?thesis using i(1) by (auto simp: role_createOwnerRole_def put_role_def Let_def mhas_def)
  next
    case (RClone j input)
    show ?thesis
    proof (cases "mget (roles s) j")
      case (Some source)
      have "mget (roles (snd (role_create inp s))) i = Some r" for inp
        using i(1) by (cases rule: role_create_cases[of inp s]) (auto simp: put_role_def)
      then show ?thesis using RClone Some i(1) by (simp add: role_clone_def)
    qed (use RClone i(1) in \<open>simp add: role_clone_def\<close>)
  next
    case (RDelete j policy)
    then show ?thesis using role_delete_roles[of j policy s] i by auto
  qed (simp_all add: edit[OF grantPermission_edits] edit[OF revokePermission_edits] edit[OF setPermissions_edits]
        edit[OF rename_edits[OF wf]] edit[OF update_edits[OF wf]])
qed

text \<open>
  The Owner role is protected.  Once an organization has its Owner role, no role operation changes
  any field of it or deletes it.
\<close>

theorem owner_role_immutable:
  assumes "roles_wf s" "mget (roles s) i = Some r" "r_isOwnerRole r"
  shows "mget (roles (fold role_exec cmds s)) i = Some r"
  using assms by (induction cmds arbitrary: s) (simp_all add: role_exec_wf role_exec_keeps_owner)

definition demo_role_store :: store where
  "demo_role_store = empty_store \<lparr> roles := [(''r1'', demo_owner), (''r2'', demo_role)] \<rparr>"

lemma demo_role_store_wf: "roles_wf demo_role_store"
  by (simp add: roles_wf_def demo_role_store_def keyed_def mvals_def demo_owner_def demo_role_def)

theorem owner_role_immutable_witness:
  "mget (roles (fold role_exec [RRename ''r1'' ''Boss'', RDelete ''r1'' Detach, RRevoke ''r1'' ''a.b''] demo_role_store)) ''r1'' = Some demo_owner"
  by (rule owner_role_immutable[OF demo_role_store_wf]) (simp_all add: demo_role_store_def demo_owner_def)

text \<open>
  \<open>setPermissions\<close> replaces the list.  When it succeeds, the role holds exactly the wanted keys, once
  each and all registered; the reported differences are exact; and the version moved exactly when the
  set of keys did.
\<close>

theorem setPermissions_exact:
  assumes "roles_wf s" "role_setPermissions i ks v s = (Inr (granted, revoked), s')"
  shows "\<exists>r r'. mget (roles s) i = Some r \<and> mget (roles s') i = Some r' \<and> \<not> r_isOwnerRole r \<and>
    r_permissionKeys r' = uniq ks \<and> list_all (mhas (permissions s)) ks \<and>
    set granted = set ks - set (r_permissionKeys r) \<and> set revoked = set (r_permissionKeys r) - set ks \<and>
    r_version r' = r_version r + (if set ks = set (r_permissionKeys r) then 0 else 1) \<and>
    (v = None \<or> v = Some (r_version r))"
proof -
  obtain v' where v: "assertExpectedVersion v 1 = Inr v'"
    using assms(2) by (cases "assertExpectedVersion v 1") (auto simp: role_setPermissions_def fails_def)
  obtain r where r: "mget (roles s) i = Some r"
    using assms(2) v by (cases "mget (roles s) i") (auto simp: role_setPermissions_def fails_def)
  have ok: "\<not> r_isOwnerRole r" "version_ok v' (r_version r)"
    using assms(2) v r by (auto simp: role_setPermissions_def fails_def split: if_splits)
  obtain wanted where w: "sanitizeRolePermissionKeys (Some ks) = Inr wanted"
    using assms(2) v r ok by (cases "sanitizeRolePermissionKeys (Some ks)") (auto simp: role_setPermissions_def fails_def)
  have "mapr assertNonEmptyPermissionKey ks = Inr ys \<Longrightarrow> ys = ks" for ys
    by (induction ks arbitrary: ys) (auto simp: assertNonEmptyPermissionKey_def split: if_splits)
  then have wanted: "wanted = uniq ks" using w by (auto simp: sanitizeRolePermissionKeys_def)
  have reg: "list_all (mhas (permissions s)) wanted"
    using assms(2) v r ok w by (auto simp: role_setPermissions_def fails_def list_all_iff list_ex_iff split: if_splits)
  define r' where "r' = r \<lparr> r_permissionKeys := wanted,
      r_version := (if granted \<noteq> [] \<or> revoked \<noteq> [] then r_version r + 1 else r_version r) \<rparr>"
  have res: "granted = filter (\<lambda>k. k \<notin> set (r_permissionKeys r)) wanted" "revoked = filter (\<lambda>k. k \<notin> set wanted) (r_permissionKeys r)"
    "s' = put_role r' s"
    using assms(2) v r ok w reg
    by (auto simp: role_setPermissions_def returns_def fails_def Let_def r'_def list_all_iff list_ex_iff split: if_splits)
  have sets: "set granted = set ks - set (r_permissionKeys r)" "set revoked = set (r_permissionKeys r) - set ks"
    using res(1,2) wanted by auto
  have "granted \<noteq> [] \<or> revoked \<noteq> [] \<longleftrightarrow> set ks \<noteq> set (r_permissionKeys r)"
    using sets by (metis Diff_eq_empty_iff set_empty subset_antisym order_refl)
  then have ver: "r_version r' = r_version r + (if set ks = set (r_permissionKeys r) then 0 else 1)"
    by (auto simp: r'_def)
  have "r_id r = i" using keyed_get[OF roles_keyed[OF assms(1)] r] .
  then have "mget (roles s') i = Some r'" by (simp add: res(3) put_role_def r'_def)
  moreover have "v = None \<or> v = Some (r_version r)"
    using ok(2) assertExpectedVersion_Inr[OF v] by (auto simp: version_ok_def split: option.splits)
  ultimately show ?thesis using r ok(1) wanted reg sets ver by (auto simp: r'_def list_all_iff)
qed

theorem setPermissions_exact_witness:
  "\<exists>r r'. mget (roles demo_role_store) ''r2'' = Some r \<and>
    mget (roles (snd (role_setPermissions ''r2'' [] (Some 1) demo_role_store))) ''r2'' = Some r' \<and> \<not> r_isOwnerRole r \<and>
    r_permissionKeys r' = uniq [] \<and> list_all (mhas (permissions demo_role_store)) [] \<and>
    set [] = set [] - set (r_permissionKeys r) \<and> set [] = set (r_permissionKeys r) - set [] \<and>
    r_version r' = r_version r + (if set [] = set (r_permissionKeys r) then 0 else 1) \<and>
    (Some (1 :: int) = None \<or> Some 1 = Some (r_version r))"
proof (rule setPermissions_exact[OF demo_role_store_wf])
  show "role_setPermissions ''r2'' [] (Some 1) demo_role_store =
      (Inr ([], []), snd (role_setPermissions ''r2'' [] (Some 1) demo_role_store))"
    by (simp add: role_setPermissions_def demo_role_store_def demo_role_def assertExpectedVersion_def version_ok_def
      sanitizeRolePermissionKeys_def returns_def uniq_def Let_def)
qed

end
