(* ===== verification/Permissions.thy ===== *)
theory Permissions
  imports Roles
begin

text \<open>
  The permission catalog: \<open>packages/core/src/permission/key.ts\<close>, \<open>permission/implications.ts\<close> and
  \<open>permissionRepository\<close> of \<open>storage/memory.ts\<close>.

  A permission may imply others; a graph maps each registered key to the keys it imps directly.  The
  lemmas show that the two searches over that graph compute exactly the reachable keys, that they are
  dual, and that registration keeps the graph acyclic, closed and of bounded depth.
\<close>

section \<open>Keys, names and groups\<close>

definition is_permission_char :: "char \<Rightarrow> bool" where
  "is_permission_char c \<longleftrightarrow> is_alnum c \<or> is_underscore c"

definition is_dot :: "char \<Rightarrow> bool" where
  "is_dot c \<longleftrightarrow> c = CHR ''.''"

text \<open>\<open>PERMISSION_KEY_PATTERN\<close>: at least two segments.\<close>

definition matchesPermissionKey :: "string \<Rightarrow> bool" where
  "matchesPermissionKey s \<longleftrightarrow> seg_start is_permission_char is_dot s \<and> list_ex is_dot s"

definition sanitizePermissionName :: "string \<Rightarrow> uerror + string" where
  "sanitizePermissionName name =
     (let trimmed = clean_name name in
      if trimmed = [] then Inl (permErr ''Permission name cannot be empty.'')
      else if length trimmed > 100 then Inl (permErr ''Permission name cannot exceed 100 characters.'')
      else Inr trimmed)"

definition assertValidPermissionKey :: "string \<Rightarrow> uerror + string" where
  "assertValidPermissionKey key =
     (if key = [] then Inl (permErr ''Permission key cannot be empty.'')
      else if length key > 150 then Inl (permErr ''Permission key cannot exceed 150 characters.'')
      else if \<not> matchesPermissionKey key
      then Inl (permErr ''Permission key must be a lowercase, dot-namespaced resource.action identifier (e.g. vehicles.delete) - each segment lowercase alphanumeric/underscore, at least two segments.'')
      else Inr key)"

definition sanitizePermissionGroup :: "string option \<Rightarrow> uerror + string option" where
  "sanitizePermissionGroup grp =
     (case grp of None \<Rightarrow> Inr None
      | Some g \<Rightarrow>
          let trimmed = clean_name g in
          if trimmed = [] then Inr None
          else if length trimmed > 100 then Inl (UError EPermission ''permission_group_invalid'')
          else Inr (Some trimmed))"

definition MAX_IMPLIED_PERMISSIONS :: nat where
  "MAX_IMPLIED_PERMISSIONS = 20"

definition MAX_IMPLICATION_DEPTH :: nat where
  "MAX_IMPLICATION_DEPTH = 8"

definition sanitizeImplies :: "string list option \<Rightarrow> uerror + string list" where
  "sanitizeImplies imps =
     (case imps of None \<Rightarrow> Inr []
      | Some ks \<Rightarrow>
          let unique = sort (uniq ks) in
          if length unique > MAX_IMPLIED_PERMISSIONS then Inl (UError EPermission ''permission_implication_invalid'')
          else Inr unique)"

section \<open>The implication graph\<close>

type_synonym graph = "(string, string list) jsmap"

definition implicationGraph :: "permission list \<Rightarrow> graph" where
  "implicationGraph catalog = of_entries (map (\<lambda>p. (p_key p, case p_implies p of None \<Rightarrow> [] | Some ks \<Rightarrow> ks)) catalog)"

text \<open>\<open>graph.get(key) ?? []\<close>\<close>

definition children :: "graph \<Rightarrow> string \<Rightarrow> string list" where
  "children g k = (case mget g k of None \<Rightarrow> [] | Some cs \<Rightarrow> cs)"

text \<open>Every key that occurs as an implied one: the searches find no other.\<close>

definition implied_keys :: "graph \<Rightarrow> string set" where
  "implied_keys g = (\<Union>(k, cs) \<in> set g. set cs)"

lemma finite_implied_keys [simp]: "finite (implied_keys g)"
  by (auto simp: implied_keys_def)

lemma children_implied: "set (children g k) \<subseteq> implied_keys g"
proof (cases "mget g k")
  case (Some cs)
  then have "(k, cs) \<in> set g" by (rule map_of_SomeD)
  then show ?thesis using Some by (auto simp: children_def implied_keys_def)
qed (simp add: children_def)

text \<open>The loop of \<open>expandClosure\<close>.\<close>

function expand_loop :: "graph \<Rightarrow> string list \<Rightarrow> string list \<Rightarrow> string list" where
  "expand_loop g found stack =
     (if stack = [] then found
      else case visit (children g (last stack)) (found, butlast stack) of
        (found', stack') \<Rightarrow> expand_loop g found' stack')"
  by pat_completeness auto
termination
  by (relation "measures [\<lambda>(g, found, stack). card (implied_keys g - set found), \<lambda>(g, found, stack). length stack]", simp, drule visit_decreases[OF _ _ finite_implied_keys children_implied], assumption, auto)

definition expandClosure :: "graph \<Rightarrow> string list \<Rightarrow> string list" where
  "expandClosure g keys = sort (expand_loop g (uniq keys) keys)"

text \<open>The keys that imply \<open>target\<close> directly, in the order of the graph, without \<open>key\<close>.\<close>

definition parents_of :: "graph \<Rightarrow> string \<Rightarrow> string \<Rightarrow> string list" where
  "parents_of g key target = map fst (filter (\<lambda>(p, cs). target \<in> set cs \<and> p \<noteq> key) g)"

lemma parents_of_sub: "set (parents_of g key target) \<subseteq> fst ` set g"
  by (auto simp: parents_of_def)

function implied_by_loop :: "graph \<Rightarrow> string \<Rightarrow> string list \<Rightarrow> string list \<Rightarrow> string list" where
  "implied_by_loop g key found stack =
     (if stack = [] then found
      else case visit (parents_of g key (last stack)) (found, butlast stack) of
        (found', stack') \<Rightarrow> implied_by_loop g key found' stack')"
  by pat_completeness auto
termination
  by (relation "measures [\<lambda>(g, key, found, stack). card (fst ` set g - set found), \<lambda>(g, key, found, stack). length stack]", simp, drule visit_decreases[OF _ _ finite_imageI[OF finite_set] parents_of_sub], assumption, auto)

definition impliedByClosure :: "graph \<Rightarrow> string \<Rightarrow> string list" where
  "impliedByClosure g key = sort (implied_by_loop g key [] [key])"

subsection \<open>Registration checks\<close>

text \<open>\<open>next\<close>: what a key implies once \<open>key\<close> is registered with \<open>imps\<close>.\<close>

definition next_of :: "graph \<Rightarrow> string \<Rightarrow> string list \<Rightarrow> string \<Rightarrow> string list" where
  "next_of g key imps current = (if current = key then imps else children g current)"

lemma next_of_sub: "set (next_of g key imps current) \<subseteq> implied_keys g \<union> set imps"
  using children_implied[of g current] by (auto simp: next_of_def)

text \<open>The cycle search: does it meet \<open>key\<close>?\<close>

function meets_key :: "graph \<Rightarrow> string \<Rightarrow> string list \<Rightarrow> string list \<Rightarrow> string list \<Rightarrow> bool" where
  "meets_key g key imps seen stack =
     (if stack = [] then False
      else if last stack = key then True
      else if last stack \<in> set seen then meets_key g key imps seen (butlast stack)
      else meets_key g key imps (last stack # seen) (butlast stack @ next_of g key imps (last stack)))"
  by pat_completeness auto
termination
proof (relation "measures [\<lambda>(g, key, imps, seen, stack). card (implied_keys g \<union> set imps \<union> set stack - set seen),
    \<lambda>(g, key, imps, seen, stack). length stack]")
  fix g :: graph and key :: string and imps seen stack :: "string list"
  assume ne: "stack \<noteq> []" and new: "last stack \<notin> set seen"
  have "implied_keys g \<union> set imps \<union> set (butlast stack @ next_of g key imps (last stack)) - set (last stack # seen)
      \<subset> implied_keys g \<union> set imps \<union> set stack - set seen"
    using next_of_sub[of g key imps "last stack"] new last_in_set[OF ne] in_set_butlastD[of _ stack] by auto
  then show "((g, key, imps, last stack # seen, butlast stack @ next_of g key imps (last stack)), g, key, imps, seen, stack)
    \<in> measures [\<lambda>(g, key, imps, seen, stack). card (implied_keys g \<union> set imps \<union> set stack - set seen),
        \<lambda>(g, key, imps, seen, stack). length stack]"
    using psubset_card_mono[of "implied_keys g \<union> set imps \<union> set stack - set seen"] by simp
next
  fix g :: graph and key :: string and imps seen stack :: "string list"
  assume ne: "stack \<noteq> []" and old: "last stack \<in> set seen"
  have "card (implied_keys g \<union> set imps \<union> set (butlast stack) - set seen) \<le> card (implied_keys g \<union> set imps \<union> set stack - set seen)"
    by (rule card_mono) (auto dest: in_set_butlastD)
  then show "((g, key, imps, seen, butlast stack), g, key, imps, seen, stack)
    \<in> measures [\<lambda>(g, key, imps, seen, stack). card (implied_keys g \<union> set imps \<union> set stack - set seen),
        \<lambda>(g, key, imps, seen, stack). length stack]"
    using ne by auto
qed simp

text \<open>The longest way down from a key, and up from it through the other keys.\<close>

function depth_down :: "graph \<Rightarrow> string \<Rightarrow> string list \<Rightarrow> string \<Rightarrow> string list \<Rightarrow> nat" where
  "depth_down g key imps current visiting =
     maxl (map (\<lambda>child. 1 + depth_down g key imps child (visiting @ [child]))
       (filter (\<lambda>child. child \<notin> set visiting) (next_of g key imps current)))"
  by pat_completeness auto
termination
proof (relation "measure (\<lambda>(g, key, imps, current, visiting). card (implied_keys g \<union> set imps - set visiting))")
  fix g :: graph and key :: string and imps current visiting child
  assume "child \<in> set (filter (\<lambda>child. child \<notin> set visiting) (next_of g key imps current))"
  then have "implied_keys g \<union> set imps - set (visiting @ [child]) \<subset> implied_keys g \<union> set imps - set visiting"
    using next_of_sub[of g key imps current] by auto
  then show "((g, key, imps, child, visiting @ [child]), g, key, imps, current, visiting)
    \<in> measure (\<lambda>(g, key, imps, current, visiting). card (implied_keys g \<union> set imps - set visiting))"
    by (simp add: psubset_card_mono)
qed simp

function depth_up :: "graph \<Rightarrow> string \<Rightarrow> string \<Rightarrow> string list \<Rightarrow> nat" where
  "depth_up g key current visiting =
     maxl (map (\<lambda>parent. 1 + depth_up g key parent (visiting @ [parent]))
       (filter (\<lambda>parent. parent \<notin> set visiting) (parents_of g key current)))"
  by pat_completeness auto
termination
proof (relation "measure (\<lambda>(g, key, current, visiting). card (fst ` set g - set visiting))")
  fix g :: graph and key :: string and current visiting parent
  assume "parent \<in> set (filter (\<lambda>parent. parent \<notin> set visiting) (parents_of g key current))"
  then have "fst ` set g - set (visiting @ [parent]) \<subset> fst ` set g - set visiting"
    using parents_of_sub[of g key current] by auto
  then show "((g, key, parent, visiting @ [parent]), g, key, current, visiting)
    \<in> measure (\<lambda>(g, key, current, visiting). card (fst ` set g - set visiting))"
    by (simp add: psubset_card_mono)
qed simp

declare expand_loop.simps [simp del] implied_by_loop.simps [simp del] meets_key.simps [simp del]
  depth_down.simps [simp del] depth_up.simps [simp del]

definition assertValidImplications :: "graph \<Rightarrow> string \<Rightarrow> string list \<Rightarrow> uerror + unit" where
  "assertValidImplications g key imps =
     (if list_ex (\<lambda>implied. implied = key \<or> \<not> mhas g implied) imps
      then Inl (UError EPermission ''permission_implication_invalid'')
      else if meets_key g key imps [] imps then Inl (UError EPermission ''permission_implication_invalid'')
      else if depth_up g key key [key] + 1 + depth_down g key imps key [key] > MAX_IMPLICATION_DEPTH + 1
      then Inl (UError EPermission ''permission_implication_invalid'')
      else Inr ())"

section \<open>Operations\<close>

record register_permission =
  rp_key :: string
  rp_name :: "string option"
  rp_description :: "string option"
  rp_group :: "string option"
  rp_implies :: "string list option"

record permission_filter =
  pf_query :: "string option"
  pf_group :: "string option"
  pf_grantedToRole :: "string option"
  pf_grantedToMember :: "string option"

definition role_keys :: "store \<Rightarrow> string \<Rightarrow> string list" where
  "role_keys s roleId = (case mget (roles s) roleId of None \<Rightarrow> [] | Some r \<Rightarrow> r_permissionKeys r)"

definition matchingPermissions :: "store \<Rightarrow> permission_filter \<Rightarrow> permission list" where
  "matchingPermissions s f =
     filter (\<lambda>p. opt_match (\<lambda>g. p_group p = Some g) (pf_group f) \<and>
                 opt_match (\<lambda>r. p_key p \<in> set (role_keys s r)) (pf_grantedToRole f) \<and>
                 opt_match (\<lambda>m. p_key p \<in> set (concat (map (role_keys s) (held_ids s m)))) (pf_grantedToMember f) \<and>
                 query_hits (search_query (pf_query f)) (p_key p # (case p_name p of None \<Rightarrow> [] | Some n \<Rightarrow> [n])))
       (mvals (permissions s))"

definition perm_register :: "register_permission \<Rightarrow> permission op" where
  "perm_register input =
     guard (assertValidPermissionKey (rp_key input)) (\<lambda>key.
     guard (opt_check sanitizePermissionName (rp_name input)) (\<lambda>name.
     guard (sanitizePermissionGroup (rp_group input)) (\<lambda>grp.
     guard (sanitizeImplies (rp_implies input)) (\<lambda>imps s.
     guard (assertValidImplications (implicationGraph (mvals (permissions s))) key imps) (\<lambda>_ s.
       let p = \<lparr> p_key = key, p_name = name, p_description = rp_description input, p_group = grp,
                 p_implies = (if imps = [] then None else Some imps) \<rparr>
       in returns p (s \<lparr> permissions := mset_at key p (permissions s) \<rparr>)) s))))"

definition perm_findByKey :: "store \<Rightarrow> string \<Rightarrow> permission option" where
  "perm_findByKey s key = mget (permissions s) key"

definition perm_list :: "store \<Rightarrow> permission list" where
  "perm_list s = mvals (permissions s)"

definition perm_search :: "store \<Rightarrow> permission_filter \<Rightarrow> string option \<Rightarrow> nat option \<Rightarrow> permission list" where
  "perm_search s f after limit =
     (let matches = sort_by (\<lambda>a b. p_key a < p_key b) (matchingPermissions s f);
          page = (case after of None \<Rightarrow> matches | Some k \<Rightarrow> filter (\<lambda>p. k < p_key p) matches)
      in slice_to limit page)"

definition perm_count :: "store \<Rightarrow> permission_filter \<Rightarrow> nat" where
  "perm_count s f = length (matchingPermissions s f)"

definition perm_countRoleGrants :: "store \<Rightarrow> string list \<Rightarrow> (string, nat) jsmap" where
  "perm_countRoleGrants s keys = tally keys (concat (map r_permissionKeys (mvals (roles s))))"

definition perm_impliedBy :: "store \<Rightarrow> string \<Rightarrow> string list" where
  "perm_impliedBy s key = impliedByClosure (implicationGraph (mvals (permissions s))) key"

definition perm_expand :: "store \<Rightarrow> string list \<Rightarrow> string list" where
  "perm_expand s keys = expandClosure (implicationGraph (mvals (permissions s))) keys"

definition perm_unregister :: "string \<Rightarrow> unit op" where
  "perm_unregister key s =
     (if \<not> mhas (permissions s) key then fails (permErr (''Permission not found: '' @ key)) s
      else if list_ex (\<lambda>p. case p_implies p of None \<Rightarrow> False | Some ks \<Rightarrow> key \<in> set ks) (mvals (permissions s))
      then fails (UError EPermission ''permission_has_dependents'') s
      else if list_ex (\<lambda>r. key \<in> set (r_permissionKeys r)) (mvals (roles s))
      then fails (permErr (''Cannot unregister permission '' @ quoted key @ '': it is still granted to at least one role. Revoke it everywhere first.'')) s
      else returns () (s \<lparr> permissions := mdel key (permissions s) \<rparr>))"

section \<open>What the searches find\<close>

text \<open>\<open>(p, q) \<in> edges g\<close>: \<open>p\<close> implies \<open>q\<close> directly.\<close>

definition edges :: "graph \<Rightarrow> (string \<times> string) set" where
  "edges g = {(p, q). q \<in> set (children g p)}"

lemma edges_image: "edges g `` {p} = set (children g p)"
  by (auto simp: edges_def)

lemma expand_loop_finds:
  "search_inv (edges g) S found stack \<Longrightarrow> S \<subseteq> set found \<Longrightarrow> set (expand_loop g found stack) = (edges g)\<^sup>* `` S"
proof (induction g found stack rule: expand_loop.induct)
  case (1 g found stack)
  show ?case
  proof (cases "stack = []")
    case True
    then show ?thesis using search_inv_done[of "edges g" S found] 1(2,3) by (simp add: expand_loop.simps[of g found])
  next
    case False
    obtain f' s' where v: "visit (children g (last stack)) (found, butlast stack) = (f', s')" by fastforce
    have "S \<subseteq> set f'" using 1(3) visit_found[of "children g (last stack)" found "butlast stack"] v by auto
    then have "set (expand_loop g f' s') = (edges g)\<^sup>* `` S"
      by (intro "1.IH"[OF False v[symmetric]] search_inv_visit[OF 1(2) False edges_image[symmetric] v])
    then show ?thesis using False v by (simp add: expand_loop.simps[of g found])
  qed
qed

lemma expandClosure_set: "set (expandClosure g keys) = (edges g)\<^sup>* `` set keys"
  using expand_loop_finds[of g "set keys" "uniq keys" keys] by (auto simp: expandClosure_def search_inv_def)

lemma expand_loop_distinct: "distinct found \<Longrightarrow> distinct (expand_loop g found stack)"
proof (induction g found stack rule: expand_loop.induct)
  case (1 g found stack)
  show ?case
  proof (cases "stack = []")
    case False
    obtain f' s' where v: "visit (children g (last stack)) (found, butlast stack) = (f', s')" by fastforce
    have "distinct f'" using visit_distinct[OF 1(2), of "children g (last stack)" "butlast stack"] v by simp
    then show ?thesis using "1.IH"[OF False v[symmetric]] False v by (simp add: expand_loop.simps[of g found])
  qed (use 1 in \<open>simp add: expand_loop.simps[of g found]\<close>)
qed

lemma visit_key: "key \<notin> set cs \<Longrightarrow> visit cs (key # f, s) = (key # fst (visit cs (f, s)), snd (visit cs (f, s)))"
  by (induction cs arbitrary: f s) auto

definition rev_edges :: "graph \<Rightarrow> string \<Rightarrow> (string \<times> string) set" where
  "rev_edges g key = {(q, p). p \<in> set (parents_of g key q)}"

lemma implied_by_loop_finds:
  "search_inv (rev_edges g key) {key} (key # found) stack \<Longrightarrow> key \<notin> set found \<Longrightarrow>
   set (key # implied_by_loop g key found stack) = (rev_edges g key)\<^sup>* `` {key} \<and> key \<notin> set (implied_by_loop g key found stack)"
proof (induction g key found stack rule: implied_by_loop.induct)
  case (1 g key found stack)
  show ?case
  proof (cases "stack = []")
    case True
    then show ?thesis using search_inv_done[of "rev_edges g key" "{key}" "key # found"] 1(2,3)
      by (simp add: implied_by_loop.simps[of g key found])
  next
    case False
    let ?cs = "parents_of g key (last stack)"
    obtain f' s' where v: "visit ?cs (found, butlast stack) = (f', s')" by fastforce
    have nk: "key \<notin> set ?cs" by (auto simp: parents_of_def)
    have v': "visit ?cs (key # found, butlast stack) = (key # f', s')" using visit_key[OF nk] v by simp
    have "search_inv (rev_edges g key) {key} (key # f') s'"
      by (rule search_inv_visit[OF 1(2) False _ v']) (auto simp: rev_edges_def)
    moreover have "key \<notin> set f'" using visit_found[of ?cs found "butlast stack"] v nk 1(3) by auto
    ultimately have "set (key # implied_by_loop g key f' s') = (rev_edges g key)\<^sup>* `` {key} \<and> key \<notin> set (implied_by_loop g key f' s')"
      by (rule "1.IH"[OF False v[symmetric]])
    then show ?thesis using False v by (simp add: implied_by_loop.simps[of g key found])
  qed
qed

lemma parents_of_edges:
  assumes "distinct (map fst g)"
  shows "p \<in> set (parents_of g key q) \<longleftrightarrow> (p, q) \<in> edges g \<and> p \<noteq> key"
  using assms by (force simp: parents_of_def edges_def children_def split: option.split dest: map_of_SomeD)

lemma rev_edges_reach:
  assumes d: "distinct (map fst g)" and ne: "p \<noteq> key"
  shows "(key, p) \<in> (rev_edges g key)\<^sup>* \<longleftrightarrow> (p, key) \<in> (edges g)\<^sup>*"
proof
  assume "(key, p) \<in> (rev_edges g key)\<^sup>*"
  moreover have "rev_edges g key \<subseteq> (edges g)\<inverse>" using parents_of_edges[OF d] by (auto simp: rev_edges_def)
  ultimately have "(key, p) \<in> ((edges g)\<inverse>)\<^sup>*" using rtrancl_mono by blast
  then show "(p, key) \<in> (edges g)\<^sup>*" by (simp add: rtrancl_converse)
next
  assume "(p, key) \<in> (edges g)\<^sup>*"
  then show "(key, p) \<in> (rev_edges g key)\<^sup>*"
  proof (induction rule: converse_rtrancl_induct)
    case (step p q)
    show ?case
    proof (cases "p = key")
      case False
      then have "(q, p) \<in> rev_edges g key" using step(1) parents_of_edges[OF d] by (simp add: rev_edges_def)
      then show ?thesis using step.IH by (rule rtrancl.rtrancl_into_rtrancl[rotated])
    qed simp
  qed simp
qed

lemma impliedByClosure_set:
  assumes "distinct (map fst g)"
  shows "set (impliedByClosure g key) = {p. p \<noteq> key \<and> (p, key) \<in> (edges g)\<^sup>*}"
proof -
  have "set (key # implied_by_loop g key [] [key]) = (rev_edges g key)\<^sup>* `` {key} \<and> key \<notin> set (implied_by_loop g key [] [key])"
    by (rule implied_by_loop_finds) (auto simp: search_inv_def)
  then have "p \<in> set (implied_by_loop g key [] [key]) \<longleftrightarrow> p \<noteq> key \<and> (key, p) \<in> (rev_edges g key)\<^sup>*" for p
    by (metis Image_singleton_iff insert_iff list.simps(15))
  then show ?thesis using rev_edges_reach[OF assms, of _ key] by (auto simp: impliedByClosure_def)
qed

section \<open>What registration keeps\<close>

text \<open>Chains of implications: \<open>successively\<close> related lists.  A bound on them excludes cycles.\<close>

definition chain_of :: "('a \<times> 'a) set \<Rightarrow> 'a list \<Rightarrow> bool" where
  "chain_of E xs \<longleftrightarrow> successively (\<lambda>x y. (x, y) \<in> E) xs"

lemma chain_of_simps [simp]:
  "chain_of E []" "chain_of E [x]" "chain_of E (x # y # zs) \<longleftrightarrow> (x, y) \<in> E \<and> chain_of E (y # zs)"
  by (simp_all add: chain_of_def)

lemma chain_of_append:
  "chain_of E (xs @ ys) \<longleftrightarrow> chain_of E xs \<and> chain_of E ys \<and> (xs = [] \<or> ys = [] \<or> (last xs, hd ys) \<in> E)"
  by (auto simp: chain_of_def successively_append_iff)

lemma chain_of_sub: "chain_of E xs \<Longrightarrow> (\<And>x y. x \<in> set (butlast xs) \<Longrightarrow> (x, y) \<in> E \<Longrightarrow> (x, y) \<in> F) \<Longrightarrow> chain_of F xs"
  by (induction xs rule: induct_list012) auto

lemma cycle_unbounded:
  assumes "chain_of E (x # xs @ [x])"
  shows "\<exists>ys. chain_of E ys \<and> ys \<noteq> [] \<and> hd ys = x \<and> n < length ys"
proof (induction n)
  case 0
  show ?case by (rule exI[of _ "[x]"]) simp
next
  case (Suc n)
  then obtain ys where ys: "chain_of E ys" "ys \<noteq> []" "hd ys = x" "n < length ys" by blast
  have "chain_of E ((x # xs) @ [x])" using assms by simp
  then have "chain_of E (x # xs)" "(last (x # xs), x) \<in> E" unfolding chain_of_append by auto
  then have "chain_of E ((x # xs) @ ys)" using ys unfolding chain_of_append by auto
  then show ?case using ys by (intro exI[of _ "(x # xs) @ ys"]) simp
qed

lemma bounded_distinct:
  assumes b: "\<And>ys. chain_of E ys \<Longrightarrow> length ys \<le> n" and c: "chain_of E xs"
  shows "distinct xs"
proof (rule ccontr)
  assume "\<not> distinct xs"
  then obtain as x bs cs where "xs = as @ [x] @ bs @ [x] @ cs" using not_distinct_decomp by blast
  then have "chain_of E (as @ (x # bs @ [x]) @ cs)" using c by simp
  then have "chain_of E (x # bs @ [x])" unfolding chain_of_append by blast
  from cycle_unbounded[OF this, of n] show False using b by fastforce
qed

lemma trancl_chain: "(x, y) \<in> E\<^sup>+ \<Longrightarrow> \<exists>xs. chain_of E (x # xs @ [y])"
proof (induction rule: converse_trancl_induct)
  case (base x)
  then show ?case by (intro exI[of _ "[]"]) simp
next
  case (step x z)
  then obtain xs where "chain_of E (z # xs @ [y])" by blast
  then show ?case using step(1) by (intro exI[of _ "z # xs"]) simp
qed

lemma bounded_acyclic:
  assumes "\<And>ys. chain_of E ys \<Longrightarrow> length ys \<le> n"
  shows "acyclic E"
  unfolding acyclic_def
proof (intro allI notI)
  fix x assume "(x, x) \<in> E\<^sup>+"
  from trancl_chain[OF this] obtain xs where "chain_of E (x # xs @ [x])" by blast
  from bounded_distinct[OF assms this] show False by simp
qed

text \<open>The recursive depths bound the simple chains.\<close>

lemma depth_down_ge:
  "chain_of {(p, q). q \<in> set (next_of g key imps p)} (current # bs) \<Longrightarrow> distinct bs \<Longrightarrow> set bs \<inter> set visiting = {} \<Longrightarrow>
   length bs \<le> depth_down g key imps current visiting"
proof (induction bs arbitrary: current visiting)
  case (Cons b bs)
  have "length bs \<le> depth_down g key imps b (visiting @ [b])"
    using Cons.prems by (intro Cons.IH) auto
  moreover have "1 + depth_down g key imps b (visiting @ [b]) \<le> depth_down g key imps current visiting"
    unfolding depth_down.simps[of _ _ _ current] using Cons.prems by (intro maxl_ge) auto
  ultimately show ?case by simp
qed simp

lemma depth_up_ge:
  "chain_of {(q, p). p \<in> set (parents_of g key q)} (current # bs) \<Longrightarrow> distinct bs \<Longrightarrow> set bs \<inter> set visiting = {} \<Longrightarrow>
   length bs \<le> depth_up g key current visiting"
proof (induction bs arbitrary: current visiting)
  case (Cons b bs)
  have "length bs \<le> depth_up g key b (visiting @ [b])"
    using Cons.prems by (intro Cons.IH) auto
  moreover have "1 + depth_up g key b (visiting @ [b]) \<le> depth_up g key current visiting"
    unfolding depth_up.simps[of _ _ current] using Cons.prems by (intro maxl_ge) auto
  ultimately show ?case by simp
qed simp

text \<open>When the cycle search does not meet the key, a closed set without it contains what is implied.\<close>

lemma meets_key_closed:
  assumes "\<not> meets_key g key imps seen stack" "\<forall>x \<in> set seen. x \<noteq> key \<and> set (next_of g key imps x) \<subseteq> set seen \<union> set stack"
  shows "\<exists>C. set seen \<union> set stack \<subseteq> C \<and> key \<notin> C \<and> (\<forall>x \<in> C. set (next_of g key imps x) \<subseteq> C)"
  using assms
proof (induction g key imps seen stack rule: meets_key.induct)
  case (1 g key imps seen stack)
  note unf = meets_key.simps[of g key imps seen stack]
  show ?case
  proof (cases "stack = []")
    case True
    then show ?thesis using 1(4) by (intro exI[of _ "set seen"]) auto
  next
    case ne: False
    have st: "set stack = insert (last stack) (set (butlast stack))"
      using ne by (metis append_butlast_last_id list.simps(15) rotate1.simps(2) set_rotate1)
    have nk: "last stack \<noteq> key" using 1(3) ne unfolding unf by auto
    show ?thesis
    proof (cases "last stack \<in> set seen")
      case True
      then have "\<not> meets_key g key imps seen (butlast stack)" using 1(3) ne nk unfolding unf by simp
      moreover have "\<forall>x \<in> set seen. x \<noteq> key \<and> set (next_of g key imps x) \<subseteq> set seen \<union> set (butlast stack)"
        using 1(4) st True by auto
      ultimately obtain C where "set seen \<union> set (butlast stack) \<subseteq> C \<and> key \<notin> C \<and> (\<forall>x \<in> C. set (next_of g key imps x) \<subseteq> C)"
        using 1(1)[OF ne nk True] by blast
      then show ?thesis using st True by (intro exI[of _ C]) auto
    next
      case False
      let ?stack = "butlast stack @ next_of g key imps (last stack)"
      have "\<not> meets_key g key imps (last stack # seen) ?stack" using 1(3) ne nk False unfolding unf by simp
      moreover have "\<forall>x \<in> set (last stack # seen). x \<noteq> key \<and> set (next_of g key imps x) \<subseteq> set (last stack # seen) \<union> set ?stack"
        using 1(4) st nk by auto
      ultimately obtain C where "set (last stack # seen) \<union> set ?stack \<subseteq> C \<and> key \<notin> C \<and> (\<forall>x \<in> C. set (next_of g key imps x) \<subseteq> C)"
        using 1(2)[OF ne nk False] by blast
      then show ?thesis using st by (intro exI[of _ C]) auto
    qed
  qed
qed

text \<open>A registration that passes the checks keeps every chain within the limit.\<close>

lemma next_of_edges: "(p, q) \<in> {(p, q). q \<in> set (next_of g key imps p)} \<longleftrightarrow> (if p = key then q \<in> set imps else (p, q) \<in> edges g)"
  by (simp add: next_of_def edges_def)

lemma valid_implications_bounded:
  assumes d: "distinct (map fst g)" and old: "\<And>ys. chain_of (edges g) ys \<Longrightarrow> length ys \<le> MAX_IMPLICATION_DEPTH + 1"
    and ok: "assertValidImplications g key imps = Inr ()" and c: "chain_of {(p, q). q \<in> set (next_of g key imps p)} ys"
  shows "length ys \<le> MAX_IMPLICATION_DEPTH + 1"
proof -
  let ?E = "{(p, q). q \<in> set (next_of g key imps p)}"
  have no: "\<not> meets_key g key imps [] imps" and depth: "depth_up g key key [key] + 1 + depth_down g key imps key [key] \<le> MAX_IMPLICATION_DEPTH + 1"
    using ok by (auto simp: assertValidImplications_def split: if_splits)
  have sub: "chain_of (edges g) zs" if "chain_of ?E zs" "key \<notin> set (butlast zs)" for zs
    using that(1) by (rule chain_of_sub) (use that(2) in \<open>auto simp: next_of_def edges_def split: if_splits\<close>)
  show ?thesis
  proof (cases "key \<in> set ys")
    case False
    then show ?thesis using old[OF sub[OF c]] by (auto dest: in_set_butlastD)
  next
    case True
    then obtain as bs where ys: "ys = as @ key # bs" "key \<notin> set as" by (meson split_list_first)
    have ca: "chain_of ?E (as @ [key])" and cb: "chain_of ?E (key # bs)"
      using c unfolding ys(1) by (auto simp: chain_of_append)
    have ea: "chain_of (edges g) (as @ [key])" using sub[OF ca] ys(2) by simp
    obtain C where C: "set imps \<subseteq> C" "key \<notin> C" "\<And>x. x \<in> C \<Longrightarrow> set (next_of g key imps x) \<subseteq> C"
      using meets_key_closed[OF no] by auto
    have reach: "chain_of ?E (x # zs) \<Longrightarrow> x = key \<or> x \<in> C \<Longrightarrow> set zs \<subseteq> C" for x zs
    proof (induction zs arbitrary: x)
      case (Cons z zs)
      have "z \<in> set (next_of g key imps x)" using Cons.prems(1) by simp
      then have "z \<in> C" using Cons.prems(2) C(1) C(3)[of x] by (cases "x = key") (auto simp: next_of_def[of g key imps key])
      then show ?case using Cons by auto
    qed simp
    have "set bs \<subseteq> C" by (rule reach[OF cb]) simp
    then have kb: "key \<notin> set bs" using C(2) by blast
    have "chain_of ?E bs" using cb by (cases bs) auto
    then have eb: "chain_of (edges g) bs" using sub kb by (auto dest: in_set_butlastD)
    have db: "distinct bs" by (rule bounded_distinct[OF old eb])
    have "distinct (as @ [key])" by (rule bounded_distinct[OF old ea])
    then have da: "distinct (rev as)" by simp
    have up: "chain_of {(q, p). p \<in> set (parents_of g key q)} (rev (as @ [key]))"
      using ea ys(2) parents_of_edges[OF d, of _ key]
    proof (induction as)
      case (Cons a as)
      then have "chain_of {(q, p). p \<in> set (parents_of g key q)} (rev (as @ [key]))"
        by (cases as) auto
      moreover have "(hd (as @ [key]), a) \<in> {(q, p). p \<in> set (parents_of g key q)}"
        using Cons.prems by (cases as) auto
      moreover have "last (rev (as @ [key])) = hd (as @ [key])" by (rule last_rev)
      ultimately have "chain_of {(q, p). p \<in> set (parents_of g key q)} (rev (as @ [key]) @ [a])"
        unfolding chain_of_append by auto
      then show ?case by simp
    qed simp
    then have "length (rev as) \<le> depth_up g key key [key]"
      by (intro depth_up_ge) (use da ys(2) in simp_all)
    moreover have "length bs \<le> depth_down g key imps key [key]"
      by (rule depth_down_ge[OF cb db]) (use kb in simp)
    ultimately show ?thesis using depth ys(1) by simp
  qed
qed

section \<open>The catalog\<close>

text \<open>\<open>(p, q) \<in> implied s\<close>: the stored permission \<open>p\<close> implies \<open>q\<close> directly.\<close>

definition implied_list :: "permission \<Rightarrow> string list" where
  "implied_list p = (case p_implies p of None \<Rightarrow> [] | Some ks \<Rightarrow> ks)"

definition implied :: "store \<Rightarrow> (string \<times> string) set" where
  "implied s = {(p, q). \<exists>x. mget (permissions s) p = Some x \<and> q \<in> set (implied_list x)}"

definition perms_wf :: "store \<Rightarrow> bool" where
  "perms_wf s \<longleftrightarrow> keyed p_key (permissions s) \<and> (\<forall>p q. (p, q) \<in> implied s \<longrightarrow> mhas (permissions s) q) \<and>
     (\<forall>ys. chain_of (implied s) ys \<longrightarrow> length ys \<le> MAX_IMPLICATION_DEPTH + 1)"

lemma graph_get:
  assumes "keyed p_key (permissions s)"
  shows "mget (implicationGraph (mvals (permissions s))) k = map_option implied_list (mget (permissions s) k)"
proof -
  let ?f = "\<lambda>p. (p_key p, implied_list p)"
  have m: "map_of (map ?f (map snd m)) k = map_option implied_list (map_of m k)" if "\<forall>p \<in> set m. p_key (snd p) = fst p" for m
    using that by (induction m) auto
  have "map fst (map ?f (mvals (permissions s))) = map fst (permissions s)"
    using assms by (auto simp: mvals_def keyed_def)
  then have "mget (implicationGraph (mvals (permissions s))) k = map_of (map ?f (mvals (permissions s))) k"
    using mget_of_entries_distinct[of "map ?f (mvals (permissions s))" k] assms
    by (simp add: implicationGraph_def implied_list_def keyed_def)
  then show ?thesis using m[of "permissions s"] assms by (simp add: keyed_def mvals_def)
qed

lemma of_entries_distinct: "distinct (map fst (of_entries kvs))"
proof -
  have "distinct (map fst m) \<Longrightarrow> distinct (map fst (fold (\<lambda>(k, v) m. mset_at k v m) kvs m))" for m
    by (induction kvs arbitrary: m) (auto simp: distinct_update)
  then show ?thesis by (simp add: of_entries_def)
qed

lemma graph_children:
  "keyed p_key (permissions s) \<Longrightarrow>
   children (implicationGraph (mvals (permissions s))) k = (case mget (permissions s) k of None \<Rightarrow> [] | Some p \<Rightarrow> implied_list p)"
  by (cases "mget (permissions s) k") (simp_all add: children_def graph_get)

lemma implied_iff:
  "(x, y) \<in> implied s \<longleftrightarrow> (case mget (permissions s) x of None \<Rightarrow> False | Some p \<Rightarrow> y \<in> set (implied_list p))"
  by (simp add: implied_def split: option.split)

lemma edges_graph:
  assumes "keyed p_key (permissions s)"
  shows "(x, y) \<in> edges (implicationGraph (mvals (permissions s))) \<longleftrightarrow> (x, y) \<in> implied s"
  by (cases "mget (permissions s) x") (simp_all add: edges_def implied_iff graph_children[OF assms])

lemma graph_edges: "keyed p_key (permissions s) \<Longrightarrow> edges (implicationGraph (mvals (permissions s))) = implied s"
  by (auto simp: edges_graph)

lemma distinct_graph: "distinct (map fst (implicationGraph ps))"
  by (simp add: implicationGraph_def of_entries_distinct)

lemma perm_register_wf:
  assumes wf: "perms_wf s"
  shows "perms_wf (snd (perm_register input s))"
proof (cases "snd (perm_register input s) = s")
  case False
  let ?g = "implicationGraph (mvals (permissions s))"
  have k: "keyed p_key (permissions s)" using wf by (simp add: perms_wf_def)
  obtain key name grp imps where ok: "assertValidImplications ?g key imps = Inr ()"
    and s0: "snd (perm_register input s) = s \<lparr> permissions := mset_at key \<lparr> p_key = key, p_name = name,
      p_description = rp_description input, p_group = grp, p_implies = (if imps = [] then None else Some imps) \<rparr> (permissions s) \<rparr>"
    using False by (auto simp: perm_register_def guard_def Let_def split: sum.splits)
  define p where "p = \<lparr> p_key = key, p_name = name, p_description = rp_description input, p_group = grp,
      p_implies = (if imps = [] then None else Some imps) \<rparr>"
  have p: "p_key p = key" "implied_list p = imps" and s': "snd (perm_register input s) = s \<lparr> permissions := mset_at key p (permissions s) \<rparr>"
    using s0 by (simp_all add: p_def implied_list_def)
  let ?s = "s \<lparr> permissions := mset_at key p (permissions s) \<rparr>"
  have "(x, y) \<in> implied ?s \<longleftrightarrow> y \<in> set (next_of ?g key imps x)" for x y
    using p(2) by (cases "mget (permissions s) x") (simp_all add: implied_iff next_of_def graph_children[OF k])
  then have imp: "implied ?s = {(x, y). y \<in> set (next_of ?g key imps x)}" by auto
  have "mhas (permissions ?s) y" if "(x, y) \<in> implied ?s" for x y
  proof (cases "x = key")
    case True
    then have "y \<in> set imps" using that imp by (simp add: next_of_def)
    then have "mhas ?g y" using ok by (auto simp: assertValidImplications_def list_ex_iff split: if_splits)
    then show ?thesis using graph_get[OF k, of y] by (simp add: mhas_def)
  next
    case False
    then have "(x, y) \<in> implied s" using that by (auto simp: implied_def)
    then show ?thesis using wf by (simp add: perms_wf_def)
  qed
  moreover have "length ys \<le> MAX_IMPLICATION_DEPTH + 1" if "chain_of (implied ?s) ys" for ys
    by (rule valid_implications_bounded[OF distinct_graph _ ok that[unfolded imp]])
      (use wf graph_edges[OF k] in \<open>simp add: perms_wf_def\<close>)
  ultimately show ?thesis unfolding s' perms_wf_def using keyed_update[OF k p(1)] by simp
qed (use wf in simp)

lemma chain_of_mono: "chain_of E xs \<Longrightarrow> E \<subseteq> F \<Longrightarrow> chain_of F xs"
  by (erule chain_of_sub) blast

lemma perm_unregister_wf:
  assumes wf: "perms_wf s"
  shows "perms_wf (snd (perm_unregister key s))"
proof (cases "snd (perm_unregister key s) = s")
  case False
  have k: "keyed p_key (permissions s)" using wf by (simp add: perms_wf_def)
  let ?s = "s \<lparr> permissions := mdel key (permissions s) \<rparr>"
  have s': "snd (perm_unregister key s) = ?s"
    and none: "\<And>p. p \<in> set (mvals (permissions s)) \<Longrightarrow> key \<notin> set (implied_list p)"
    using False by (auto simp: perm_unregister_def list_ex_iff implied_list_def split: if_splits option.splits)
  have sub: "implied ?s \<subseteq> implied s" by (auto simp: implied_def split: if_splits)
  have "mhas (permissions ?s) y" if xy: "(x, y) \<in> implied ?s" for x y
  proof -
    obtain p where p: "mget (permissions s) x = Some p" "y \<in> set (implied_list p)"
      using xy by (auto simp: implied_def split: if_splits)
    have "y \<noteq> key" using none[OF mget_in_mvals[OF p(1)]] p(2) by auto
    moreover have "mhas (permissions s) y" using wf sub xy unfolding perms_wf_def by blast
    ultimately show ?thesis by (simp add: mhas_def)
  qed
  moreover have "length ys \<le> MAX_IMPLICATION_DEPTH + 1" if "chain_of (implied ?s) ys" for ys
    using wf chain_of_mono[OF that sub] by (simp add: perms_wf_def)
  ultimately show ?thesis unfolding s' perms_wf_def using keyed_delete[OF k] by simp
qed (use wf in simp)

section \<open>Properties\<close>

datatype perm_cmd = PRegister register_permission | PUnregister string

fun perm_exec :: "perm_cmd \<Rightarrow> store \<Rightarrow> store" where
  "perm_exec (PRegister i) s = snd (perm_register i s)"
| "perm_exec (PUnregister k) s = snd (perm_unregister k s)"

lemma perm_run_wf: "perms_wf s \<Longrightarrow> perms_wf (fold perm_exec cmds s)"
proof (induction cmds arbitrary: s)
  case (Cons c cmds)
  then show ?case by (cases c) (simp_all add: perm_register_wf perm_unregister_wf)
qed simp

lemma chain_of_empty: "chain_of {} ys \<Longrightarrow> length ys \<le> 1"
  by (induction ys rule: induct_list012) auto

lemma perms_wf_empty: "perms_wf empty_store"
proof -
  have "implied empty_store = {}" by (simp add: implied_def)
  then show ?thesis using chain_of_empty by (auto simp: perms_wf_def dest!: chain_of_empty)
qed

text \<open>
  C32: the catalog stays sound.  After any sequence of \<open>register\<close> and \<open>unregister\<close> calls, every implied
  permission is registered, no permission implies itself through others, and no chain has more than
  \<open>MAX_IMPLICATION_DEPTH\<close> implications, that is \<open>MAX_IMPLICATION_DEPTH + 1\<close> permissions.  The comment on the constant counts
  the permissions of a chain as its levels, so the code allows one more than it says (\<open>nine_levels_accepted\<close>).
\<close>

theorem implications_sound:
  fixes cmds defines "s \<equiv> fold perm_exec cmds empty_store"
  shows "acyclic (implied s) \<and> implied s `` UNIV \<subseteq> {q. mhas (permissions s) q} \<and>
    {ys. chain_of (implied s) ys} \<subseteq> {ys. length ys \<le> MAX_IMPLICATION_DEPTH + 1}"
proof -
  have wf: "perms_wf s" unfolding s_def by (rule perm_run_wf[OF perms_wf_empty])
  then have b: "chain_of (implied s) ys \<Longrightarrow> length ys \<le> MAX_IMPLICATION_DEPTH + 1" for ys by (simp add: perms_wf_def)
  show ?thesis using wf b bounded_acyclic[OF b] by (auto simp: perms_wf_def)
qed

text \<open>
  \<open>expand\<close> returns exactly the given keys and everything they imply through any number of steps, each
  once and in order.
\<close>

theorem expand_is_closure:
  assumes "perms_wf s"
  shows "set (perm_expand s keys) = (implied s)\<^sup>* `` set keys \<and> distinct (perm_expand s keys) \<and> sorted (perm_expand s keys)"
proof -
  have k: "keyed p_key (permissions s)" using assms by (simp add: perms_wf_def)
  show ?thesis using expand_loop_distinct[of "uniq keys"]
    by (simp add: perm_expand_def expandClosure_set graph_edges[OF k]) (simp add: expandClosure_def)
qed

text \<open>
  The two searches are dual.  A permission is listed by \<open>impliedBy(key)\<close> exactly when it is another
  one and \<open>key\<close> is among what it expands to: a role check that asks who implies a key and one that expands
  what a role holds cannot disagree.
\<close>

theorem impliedBy_dual_expand:
  assumes "perms_wf s"
  shows "p \<in> set (perm_impliedBy s key) \<longleftrightarrow> p \<noteq> key \<and> key \<in> set (perm_expand s [p])"
proof -
  have k: "keyed p_key (permissions s)" using assms by (simp add: perms_wf_def)
  show ?thesis
    by (simp add: perm_impliedBy_def perm_expand_def expandClosure_set impliedByClosure_set[OF distinct_graph] graph_edges[OF k])
qed

definition demo_read :: permission where
  "demo_read = \<lparr> p_key = ''a.read'', p_name = None, p_description = None, p_group = None, p_implies = None \<rparr>"

definition demo_write :: permission where
  "demo_write = \<lparr> p_key = ''a.write'', p_name = None, p_description = None, p_group = None, p_implies = Some [''a.read''] \<rparr>"

definition demo_perm_store :: store where
  "demo_perm_store = empty_store \<lparr> permissions := [(''a.read'', demo_read), (''a.write'', demo_write)] \<rparr>"

lemma demo_implied: "implied demo_perm_store = {(''a.write'', ''a.read'')}"
  by (auto simp: implied_def demo_perm_store_def demo_read_def demo_write_def implied_list_def split: if_splits)

lemma demo_perm_wf: "perms_wf demo_perm_store"
proof -
  have "length ys \<le> 2" if "chain_of {(''a.write'', ''a.read'')} ys" for ys :: "string list"
    using that by (cases ys rule: remdups_adj.cases) (auto, case_tac xs, auto)
  then have "chain_of (implied demo_perm_store) ys \<Longrightarrow> length ys \<le> MAX_IMPLICATION_DEPTH + 1" for ys
    unfolding demo_implied MAX_IMPLICATION_DEPTH_def by fastforce
  then show ?thesis
    by (auto simp: perms_wf_def demo_implied) (simp_all add: demo_perm_store_def keyed_def demo_read_def demo_write_def mhas_def)
qed

theorem expand_is_closure_witness:
  "set (perm_expand demo_perm_store [''a.write'']) = {''a.write'', ''a.read''}"
proof -
  have "(implied demo_perm_store)\<^sup>* `` {''a.write''} = {''a.write'', ''a.read''}"
    unfolding demo_implied by (auto elim: converse_rtranclE)
  then show ?thesis using expand_is_closure[OF demo_perm_wf, of "[''a.write'']"] by simp
qed

theorem impliedBy_dual_expand_witness:
  "(''a.write'' \<in> set (perm_impliedBy demo_perm_store ''a.read'')) = (''a.read'' \<in> set (perm_expand demo_perm_store [''a.write'']))"
  using impliedBy_dual_expand[OF demo_perm_wf, of "''a.write''" "''a.read''"] by simp

text \<open>Each key implies the one before it: the ninth is accepted, which makes a chain of nine permissions, the tenth is refused.\<close>

definition ladder :: "string list" where
  "ladder = [''a.a'', ''a.b'', ''a.c'', ''a.d'', ''a.e'', ''a.f'', ''a.g'', ''a.h'', ''a.i'', ''a.j'']"

definition rung :: "nat \<Rightarrow> register_permission" where
  "rung n = \<lparr> rp_key = ladder ! n, rp_name = None, rp_description = None, rp_group = None,
     rp_implies = (if n = 0 then None else Some [ladder ! (n - 1)]) \<rparr>"

definition climbed :: "nat \<Rightarrow> store" where
  "climbed n = fold perm_exec (map (\<lambda>i. PRegister (rung i)) [0..<n]) empty_store"

lemma nine_levels_accepted:
  "is_ok (fst (perm_register (rung 8) (climbed 8))) \<and> length (perm_expand (climbed 9) [''a.i'']) = 9 \<and>
   \<not> is_ok (fst (perm_register (rung 9) (climbed 9)))"
  by code_simp

end
