(* ===== verification/SupportGrants.thy ===== *)
theory SupportGrants
  imports Permissions
begin

text \<open>
  Support grants: \<open>packages/core/src/support-grant/repository.ts\<close> and \<open>supportGrantRepository\<close> of
  \<open>storage/memory.ts\<close>: temporary access of somebody who is not a member.

  The clock of every call (\<open>input.now ?? new Date()\<close>) is the argument \<open>now\<close>.  The lemmas show what
  every stored grant satisfies, and that access at a moment comes from one accepted \<open>create\<close> that has
  neither expired nor been revoked since.
\<close>

section \<open>Validation\<close>

definition MAX_SUPPORT_GRANT_MS :: int where
  "MAX_SUPPORT_GRANT_MS = 30 * 24 * 3600 * 1000"

definition MAX_SUPPORT_GRANT_PERMISSIONS :: nat where
  "MAX_SUPPORT_GRANT_PERMISSIONS = 50"

definition MAX_SUPPORT_GRANT_REASON_LENGTH :: nat where
  "MAX_SUPPORT_GRANT_REASON_LENGTH = 500"

record create_support_grant =
  cg_id :: string
  cg_organizationId :: string
  cg_operator :: identity
  cg_grantedBy :: identity
  cg_reason :: string
  cg_permissions :: "string list"
  cg_expiresAt :: date_in

datatype grant_status = GActive | GExpired | GRevoked

definition grantStatus :: "support_grant \<Rightarrow> timestamp \<Rightarrow> grant_status" where
  "grantStatus grant now =
     (if g_revokedAt grant \<noteq> None then GRevoked
      else if g_expiresAt grant > now then GActive else GExpired)"

definition grantErr :: "string \<Rightarrow> uerror" where
  "grantErr c = UError ESupportGrant c"

definition grant_identity_ok :: "identity \<Rightarrow> bool" where
  "grant_identity_ok i \<longleftrightarrow> provider i \<noteq> [] \<and> subject i \<noteq> []"

text \<open>The sanitised reason, the sorted unique permissions and the expiry.\<close>

definition assertValidSupportGrant :: "timestamp \<Rightarrow> create_support_grant \<Rightarrow> uerror + string \<times> string list \<times> timestamp" where
  "assertValidSupportGrant now input =
     (let reason = clean_name (cg_reason input);
          ps = sort (uniq (cg_permissions input)) in
      if trim (cg_id input) = [] \<or> length (cg_id input) > 200 then Inl (grantErr ''support_grant_invalid'')
      else if \<not> (grant_identity_ok (cg_operator input) \<and> grant_identity_ok (cg_grantedBy input))
      then Inl (grantErr ''support_grant_invalid'')
      else if reason = [] \<or> length reason > MAX_SUPPORT_GRANT_REASON_LENGTH
      then Inl (grantErr ''support_grant_reason_invalid'')
      else if cg_permissions input = [] then Inl (grantErr ''support_grant_permission_invalid'')
      else if length ps > MAX_SUPPORT_GRANT_PERMISSIONS then Inl (grantErr ''support_grant_permission_invalid'')
      else if list_ex (\<lambda>k. \<not> is_ok (assertValidPermissionKey k)) ps then Inl (grantErr ''support_grant_permission_invalid'')
      else case cg_expiresAt input of
        InvalidDate \<Rightarrow> Inl (grantErr ''support_grant_expiry_invalid'')
      | At t \<Rightarrow>
          if t \<le> now \<or> t - now > MAX_SUPPORT_GRANT_MS then Inl (grantErr ''support_grant_expiry_invalid'')
          else Inr (reason, ps, t))"

section \<open>Operations\<close>

record grant_filter =
  gf_organizationId :: "string option"
  gf_operator :: "identity option"
  gf_status :: "grant_status option"

definition grantMatches :: "grant_filter \<Rightarrow> timestamp \<Rightarrow> support_grant \<Rightarrow> bool" where
  "grantMatches f now grant \<longleftrightarrow>
     opt_match (\<lambda>og. g_organizationId grant = og) (gf_organizationId f) \<and>
     opt_match (\<lambda>i. sameIdentity (g_operator grant) i) (gf_operator f) \<and>
     opt_match (\<lambda>st. grantStatus grant now = st) (gf_status f)"

definition sg_create :: "timestamp \<Rightarrow> create_support_grant \<Rightarrow> support_grant op" where
  "sg_create now input s =
     guard (assertValidSupportGrant now input) (\<lambda>(reason, keys, expires) s.
       if \<not> mhas (organizations s) (cg_organizationId input) then fails (grantErr ''support_grant_organization_unknown'') s
       else if list_ex (\<lambda>k. \<not> mhas (permissions s) k) keys then fails (grantErr ''support_grant_permission_invalid'') s
       else if mhas (supportGrants s) (cg_id input) then fails (grantErr ''support_grant_exists'') s
       else
         let grant = \<lparr> g_id = cg_id input, g_organizationId = cg_organizationId input, g_operator = cg_operator input,
                       g_grantedBy = cg_grantedBy input, g_reason = reason, g_permissions = keys,
                       g_createdAt = now, g_expiresAt = expires, g_revokedAt = None, g_revokedBy = None \<rparr>
         in returns grant (s \<lparr> supportGrants := mset_at (g_id grant) grant (supportGrants s) \<rparr>)) s"

definition sg_revoke :: "timestamp \<Rightarrow> string \<Rightarrow> identity \<Rightarrow> store \<Rightarrow> support_grant option \<times> store" where
  "sg_revoke now i who s =
     (case mget (supportGrants s) i of
        None \<Rightarrow> (None, s)
      | Some grant \<Rightarrow>
          let s' = (if g_revokedAt grant = None
                    then s \<lparr> supportGrants := mset_at i (grant \<lparr> g_revokedAt := Some now, g_revokedBy := Some who \<rparr>) (supportGrants s) \<rparr>
                    else s)
          in (mget (supportGrants s') i, s'))"

definition sg_findById :: "store \<Rightarrow> string \<Rightarrow> support_grant option" where
  "sg_findById s i = mget (supportGrants s) i"

definition sg_search :: "timestamp \<Rightarrow> grant_filter \<Rightarrow> string option \<Rightarrow> int option \<Rightarrow> store \<Rightarrow> support_grant list" where
  "sg_search now f after limit s =
     take (clamp_limit 50 200 limit)
       (sort_by (\<lambda>a b. g_id a < g_id b)
         (filter (\<lambda>g. grantMatches f now g \<and> opt_match (\<lambda>a. g_id g > a) after) (mvals (supportGrants s))))"

definition sg_count :: "timestamp \<Rightarrow> grant_filter \<Rightarrow> store \<Rightarrow> nat" where
  "sg_count now f s = length (filter (grantMatches f now) (mvals (supportGrants s)))"

definition sg_activePermissions :: "store \<Rightarrow> string \<Rightarrow> identity list \<Rightarrow> timestamp \<Rightarrow> string list" where
  "sg_activePermissions s organizationId identities now =
     sort (fold (\<lambda>grant keys.
       if g_organizationId grant \<noteq> organizationId \<or> grantStatus grant now \<noteq> GActive then keys
       else if \<not> list_ex (\<lambda>i. sameIdentity i (g_operator grant)) identities then keys
       else fold set_add (g_permissions grant) keys) (mvals (supportGrants s)) [])"

section \<open>Runs\<close>

datatype sg_cmd = SgCreate timestamp create_support_grant | SgRevoke timestamp string identity

fun sg_exec :: "sg_cmd \<Rightarrow> store \<Rightarrow> store" where
  "sg_exec (SgCreate now input) s = snd (sg_create now input s)"
| "sg_exec (SgRevoke now i who) s = snd (sg_revoke now i who s)"

fun revokes :: "string \<Rightarrow> sg_cmd \<Rightarrow> bool" where
  "revokes i (SgCreate now input) = False"
| "revokes i (SgRevoke now j who) = (i = j)"

section \<open>Lemmas\<close>

lemma fold_set_add [simp]: "set (fold set_add xs ys) = set xs \<union> set ys"
  by (induction xs arbitrary: ys) auto

lemma distinct_fold_set_add: "distinct ys \<Longrightarrow> distinct (fold set_add xs ys)"
  by (induction xs arbitrary: ys) (auto simp: distinct_set_add)

definition gives :: "string \<Rightarrow> identity list \<Rightarrow> timestamp \<Rightarrow> support_grant \<Rightarrow> bool" where
  "gives og ids now g \<longleftrightarrow> g_organizationId g = og \<and> g_revokedAt g = None \<and> now < g_expiresAt g \<and> g_operator g \<in> set ids"

lemma grantStatus_active: "grantStatus g now = GActive \<longleftrightarrow> g_revokedAt g = None \<and> now < g_expiresAt g"
  by (simp add: grantStatus_def)

lemma activePermissions_set:
  "set (sg_activePermissions s og ids now) = (\<Union>g \<in> {g \<in> set (mvals (supportGrants s)). gives og ids now g}. set (g_permissions g))"
proof -
  have "set (fold (\<lambda>grant keys. if g_organizationId grant \<noteq> og \<or> grantStatus grant now \<noteq> GActive then keys
       else if \<not> list_ex (\<lambda>i. sameIdentity i (g_operator grant)) ids then keys
       else fold set_add (g_permissions grant) keys) gs acc) = (\<Union>g \<in> {g \<in> set gs. gives og ids now g}. set (g_permissions g)) \<union> set acc" for gs acc
  proof (induction gs arbitrary: acc)
    case (Cons g gs)
    have "{x \<in> set (g # gs). gives og ids now x} = (if gives og ids now g then insert g else id) {x \<in> set gs. gives og ids now x}" by auto
    moreover have "gives og ids now g \<longleftrightarrow> \<not> (g_organizationId g \<noteq> og \<or> grantStatus g now \<noteq> GActive) \<and> list_ex (\<lambda>i. sameIdentity i (g_operator g)) ids"
      by (auto simp: gives_def grantStatus_active list_ex_iff)
    ultimately show ?case using Cons.IH by auto
  qed simp
  from this[of "mvals (supportGrants s)" "[]"] show ?thesis unfolding sg_activePermissions_def by simp
qed

text \<open>What \<open>assertValidSupportGrant\<close> lets through.\<close>

definition grant_ok :: "support_grant \<Rightarrow> bool" where
  "grant_ok g \<longleftrightarrow> g_createdAt g < g_expiresAt g \<and> g_expiresAt g \<le> g_createdAt g + MAX_SUPPORT_GRANT_MS \<and>
     g_reason g \<noteq> [] \<and> length (g_reason g) \<le> MAX_SUPPORT_GRANT_REASON_LENGTH \<and>
     g_permissions g \<noteq> [] \<and> length (g_permissions g) \<le> MAX_SUPPORT_GRANT_PERMISSIONS \<and>
     sorted (g_permissions g) \<and> distinct (g_permissions g) \<and> list_all matchesPermissionKey (g_permissions g) \<and>
     grant_identity_ok (g_operator g)"

definition grant_of :: "timestamp \<Rightarrow> create_support_grant \<Rightarrow> support_grant \<Rightarrow> bool" where
  "grant_of now input g \<longleftrightarrow> g_id g = cg_id input \<and> g_organizationId g = cg_organizationId input \<and>
     g_operator g = cg_operator input \<and> g_grantedBy g = cg_grantedBy input \<and>
     set (g_permissions g) = set (cg_permissions input) \<and> g_createdAt g = now \<and> cg_expiresAt input = At (g_expiresAt g)"

lemma valid_key_matches: "is_ok (assertValidPermissionKey k) \<Longrightarrow> matchesPermissionKey k"
  by (simp add: assertValidPermissionKey_def split: if_splits)

lemma sg_create_cases:
  obtains (refused) "snd (sg_create now input s) = s"
  | (stored) g where "snd (sg_create now input s) = s \<lparr> supportGrants := mset_at (g_id g) g (supportGrants s) \<rparr>"
      "grant_of now input g" "grant_ok g" "g_revokedAt g = None" "\<not> mhas (supportGrants s) (g_id g)"
      "mhas (organizations s) (g_organizationId g)" "list_all (mhas (permissions s)) (g_permissions g)"
proof (cases "snd (sg_create now input s) = s")
  case False
  then obtain reason keys e where v: "assertValidSupportGrant now input = Inr (reason, keys, e)"
    by (cases "assertValidSupportGrant now input") (auto simp: sg_create_def)
  let ?g = "\<lparr> g_id = cg_id input, g_organizationId = cg_organizationId input, g_operator = cg_operator input,
     g_grantedBy = cg_grantedBy input, g_reason = reason, g_permissions = keys,
     g_createdAt = now, g_expiresAt = e, g_revokedAt = None, g_revokedBy = None \<rparr>"
  have ks: "keys = sort (uniq (cg_permissions input))" "cg_permissions input \<noteq> []"
    and ok: "grant_of now input ?g \<and> grant_ok ?g"
    using v by (auto simp: assertValidSupportGrant_def Let_def grant_of_def grant_ok_def list_all_iff list_ex_iff
        split: if_splits date_in.splits intro: valid_key_matches simp flip: set_empty)
  let ?A = "\<not> mhas (organizations s) (cg_organizationId input)" and ?B = "list_ex (\<lambda>k. \<not> mhas (permissions s) k) keys"
    and ?C = "mhas (supportGrants s) (cg_id input)"
  have eq: "snd (sg_create now input s) = (if ?A \<or> ?B \<or> ?C then s else s \<lparr> supportGrants := mset_at (cg_id input) ?g (supportGrants s) \<rparr>)"
    by (simp add: sg_create_def v Let_def)
  then have no: "\<not> (?A \<or> ?B \<or> ?C)" using False by presburger
  then have "list_all (mhas (permissions s)) keys" by (simp add: list_ex_iff list_all_iff)
  with ok no eq show ?thesis by (intro stored[of ?g]) simp_all
qed (use refused in blast)

lemma sg_revoke_get:
  "mget (supportGrants (snd (sg_revoke now i who s))) j =
     map_option (\<lambda>g. if j = i \<and> g_revokedAt g = None then g \<lparr> g_revokedAt := Some now, g_revokedBy := Some who \<rparr> else g) (mget (supportGrants s) j)"
  by (cases "mget (supportGrants s) j") (auto simp: sg_revoke_def Let_def split: option.splits)

text \<open>A stored grant goes back to one accepted \<open>create\<close>; if it is not revoked, no revoke of it came later.\<close>

definition traced :: "sg_cmd list \<Rightarrow> support_grant \<Rightarrow> bool" where
  "traced cmds g \<longleftrightarrow> (\<exists>pre now input post. cmds = pre @ SgCreate now input # post \<and> grant_of now input g \<and>
     (g_revokedAt g = None \<longrightarrow> list_all (\<lambda>c. \<not> revokes (g_id g) c) post))"

lemma tracedE:
  assumes "traced cmds g"
  obtains pre now input post where "cmds = pre @ SgCreate now input # post" "grant_of now input g"
    "g_revokedAt g = None \<longrightarrow> list_all (\<lambda>c. \<not> revokes (g_id g) c) post"
  using assms unfolding traced_def by (elim exE conjE) (rule that)

lemma tracedI: "cmds = pre @ SgCreate now input # post \<Longrightarrow> grant_of now input g \<Longrightarrow>
  (g_revokedAt g = None \<Longrightarrow> list_all (\<lambda>c. \<not> revokes (g_id g) c) post) \<Longrightarrow> traced cmds g"
  unfolding traced_def
  by (rule exI[of _ pre], rule exI[of _ now], rule exI[of _ input], rule exI[of _ post]) (intro conjI impI; simp)

lemma traced_snoc:
  assumes "traced cmds g0" "\<And>now input. grant_of now input g0 \<Longrightarrow> grant_of now input g"
    "g_id g = g_id g0" "g_revokedAt g = None \<Longrightarrow> g_revokedAt g0 = None \<and> \<not> revokes (g_id g) c"
  shows "traced (cmds @ [c]) g"
proof -
  from assms(1) obtain pre now input post where t: "cmds = pre @ SgCreate now input # post" "grant_of now input g0"
    "g_revokedAt g0 = None \<longrightarrow> list_all (\<lambda>c. \<not> revokes (g_id g0) c) post" by (rule tracedE)
  show ?thesis
  proof (rule tracedI[where pre = pre and post = "post @ [c]"])
    show "cmds @ [c] = pre @ SgCreate now input # (post @ [c])" using t(1) by simp
    show "grant_of now input g" by (rule assms(2)[OF t(2)])
    show "list_all (\<lambda>c. \<not> revokes (g_id g) c) (post @ [c])" if "g_revokedAt g = None"
      using t(3) assms(3) assms(4)[OF that] by simp
  qed
qed

definition grants_wf :: "sg_cmd list \<Rightarrow> store \<Rightarrow> bool" where
  "grants_wf cmds s \<longleftrightarrow> keyed g_id (supportGrants s) \<and>
     (\<forall>g \<in> set (mvals (supportGrants s)). grant_ok g \<and> traced cmds g)"

lemma grants_wf_step:
  assumes wf: "grants_wf cmds s"
  shows "grants_wf (cmds @ [c]) (sg_exec c s)"
proof -
  have k: "keyed g_id (supportGrants s)" using wf by (simp add: grants_wf_def)
  have old: "traced (cmds @ [c]) g" if "g \<in> set (mvals (supportGrants s))" "\<not> revokes (g_id g) c" for g
    using wf that by (auto simp: grants_wf_def intro: traced_snoc)
  show ?thesis
  proof (cases c)
    case (SgCreate now input)
    show ?thesis
    proof (cases rule: sg_create_cases[of now input s])
      case refused
      then show ?thesis using wf old SgCreate by (simp add: grants_wf_def)
    next
      case (stored g)
      have "traced (cmds @ [c]) g" unfolding traced_def SgCreate
        using stored(2) by (intro exI[of _ cmds] exI[of _ now] exI[of _ input] exI[of _ "[]"]) simp
      then show ?thesis using wf old SgCreate stored keyed_update[OF k, of g]
        by (auto simp: grants_wf_def keyed_vals_update[OF k])
    qed
  next
    case (SgRevoke now i who)
    let ?r = "\<lambda>g. if g_id g = i \<and> g_revokedAt g = None then g \<lparr> g_revokedAt := Some now, g_revokedBy := Some who \<rparr> else g"
    have k': "keyed g_id (supportGrants (sg_exec c s))"
      using k keyed_get[OF k] by (auto simp: SgRevoke sg_revoke_def Let_def intro!: keyed_update split: option.splits)
    have "\<exists>g0 \<in> set (mvals (supportGrants s)). g = ?r g0" if "g \<in> set (mvals (supportGrants (sg_exec c s)))" for g
    proof -
      from that k' obtain j where j: "mget (supportGrants (snd (sg_revoke now i who s))) j = Some g"
        unfolding keyed_vals_get[OF k'] unfolding SgRevoke sg_exec.simps by blast
      then obtain g0 where g0: "mget (supportGrants s) j = Some g0" unfolding sg_revoke_get by auto
      then show ?thesis using j keyed_get[OF k g0] mget_in_mvals[OF g0] unfolding sg_revoke_get by (intro bexI[of _ g0]) auto
    qed
    moreover have "grant_ok (?r g0) \<and> traced (cmds @ [c]) (?r g0)" if "g0 \<in> set (mvals (supportGrants s))" for g0
    proof -
      have g0: "grant_ok g0" "traced cmds g0" using wf that by (auto simp: grants_wf_def)
      have "traced (cmds @ [c]) (?r g0)"
        by (rule traced_snoc[OF g0(2)]) (auto simp: grant_of_def SgRevoke split: if_splits)
      then show ?thesis using g0(1) by (simp add: grant_ok_def)
    qed
    ultimately show ?thesis using k' unfolding grants_wf_def by blast
  qed
qed

lemma grants_wf_run: "supportGrants s = [] \<Longrightarrow> grants_wf cmds (fold sg_exec cmds s)"
proof (induction cmds rule: rev_induct)
  case (snoc c cmds)
  then show ?case using grants_wf_step[of cmds "fold sg_exec cmds s" c] by simp
qed (simp add: grants_wf_def)

section \<open>Properties\<close>

text \<open>
  C34: support access is temporary and traceable.  After any sequence of \<open>create\<close> and \<open>revoke\<close> calls, a
  permission active for somebody in an organization at a moment was listed by one \<open>create\<close> for that
  organization and that operator, which expires later than the moment and at most 30 days after its
  creation, and no \<open>revoke\<close> of that grant came after it.
\<close>

theorem support_access_temporary:
  assumes "supportGrants s = []" "k \<in> set (sg_activePermissions (fold sg_exec cmds s) og ids t)"
  shows "\<exists>pre now input post e. cmds = pre @ SgCreate now input # post \<and> cg_organizationId input = og \<and>
    cg_operator input \<in> set ids \<and> k \<in> set (cg_permissions input) \<and> cg_expiresAt input = At e \<and>
    t < e \<and> e \<le> now + MAX_SUPPORT_GRANT_MS \<and> list_all (\<lambda>c. \<not> revokes (cg_id input) c) post"
proof -
  obtain g where g: "g \<in> set (mvals (supportGrants (fold sg_exec cmds s)))" "gives og ids t g" "k \<in> set (g_permissions g)"
    using assms(2) unfolding activePermissions_set by blast
  then have ok: "grant_ok g" "traced cmds g" using grants_wf_run[OF assms(1), of cmds] by (auto simp: grants_wf_def)
  from ok(2) obtain pre now input post where p: "cmds = pre @ SgCreate now input # post" "grant_of now input g"
    "g_revokedAt g = None \<longrightarrow> list_all (\<lambda>c. \<not> revokes (g_id g) c) post" by (rule tracedE)
  have "cg_organizationId input = og \<and> cg_operator input \<in> set ids \<and> k \<in> set (cg_permissions input) \<and>
    cg_expiresAt input = At (g_expiresAt g) \<and> t < g_expiresAt g \<and> g_expiresAt g \<le> now + MAX_SUPPORT_GRANT_MS \<and>
    list_all (\<lambda>c. \<not> revokes (cg_id input) c) post"
    using g p ok(1) by (auto simp: gives_def grant_of_def grant_ok_def)
  then show ?thesis using p(1) by blast
qed

definition demo_grant_input :: create_support_grant where
  "demo_grant_input = \<lparr> cg_id = ''g1'', cg_organizationId = ''o1'', cg_operator = \<lparr> provider = ''p'', subject = ''op'' \<rparr>,
     cg_grantedBy = \<lparr> provider = ''p'', subject = ''boss'' \<rparr>, cg_reason = ''help'', cg_permissions = [''a.read''], cg_expiresAt = At 100 \<rparr>"

definition demo_grant_store :: store where
  "demo_grant_store = demo_perm_store \<lparr> organizations := [(''o1'', \<lparr> o_id = ''o1'', o_slug = ''acme'', o_name = ''Acme'', o_createdAt = 0,
     o_status = OActive, o_version = 1, o_statusChange = None \<rparr>)] \<rparr>"

theorem support_access_temporary_witness:
  "\<exists>pre now input post e. [SgCreate 5 demo_grant_input] = pre @ SgCreate now input # post \<and> cg_organizationId input = ''o1'' \<and>
    cg_operator input \<in> {\<lparr> provider = ''p'', subject = ''op'' \<rparr>} \<and> ''a.read'' \<in> set (cg_permissions input) \<and>
    cg_expiresAt input = At e \<and> 7 < e \<and> e \<le> now + MAX_SUPPORT_GRANT_MS \<and> list_all (\<lambda>c. \<not> revokes (cg_id input) c) post"
proof -
  have "supportGrants demo_grant_store = []" by (simp add: demo_grant_store_def demo_perm_store_def)
  moreover have "''a.read'' \<in> set (sg_activePermissions (fold sg_exec [SgCreate 5 demo_grant_input] demo_grant_store) ''o1''
      [\<lparr> provider = ''p'', subject = ''op'' \<rparr>] 7)" by code_simp
  ultimately show ?thesis using support_access_temporary[of demo_grant_store "''a.read''" "[SgCreate 5 demo_grant_input]"] by fastforce
qed

end
