(* ===== verification/TeamAuth.thy ===== *)
theory TeamAuth
  imports State
begin

text \<open>
  Proof that a team change was authorized (\<open>packages/core/src/team/authorization.ts\<close>) and the validation the
  team repositories share (\<open>packages/core/src/team/repository.ts\<close>).

  A token is an opaque object: here a reference, known to the process by the registry \<open>issued\<close>.  The clock
  of the check is the argument \<open>now\<close>.
\<close>

section \<open>Tokens\<close>

datatype team_operation = TeamCreate | TeamUpdate | TeamArchive | TeamRestore | TeamDelete
  | MemberAdd | MemberStatus | MemberAccept | MemberResponsibility | MemberRole

record issued_token =
  tk_organizationId :: string
  tk_actor :: identity
  tk_operations :: "team_operation list"
  tk_expiresAt :: timestamp
  tk_trusted :: bool

type_synonym token_registry = "(nat, issued_token) jsmap"

definition TTL_MS :: int where
  "TTL_MS = 60000"

text \<open>A fresh reference is registered.\<close>

definition issueTeamAuthorization ::
  "nat \<Rightarrow> string \<Rightarrow> identity \<Rightarrow> team_operation list \<Rightarrow> bool \<Rightarrow> timestamp \<Rightarrow> token_registry \<Rightarrow> token_registry" where
  "issueTeamAuthorization ref organizationId actor operations trusted now issued =
     mset_at ref \<lparr> tk_organizationId = organizationId, tk_actor = actor, tk_operations = operations,
                   tk_expiresAt = now + TTL_MS, tk_trusted = trusted \<rparr> issued"

definition teamErr :: "string \<Rightarrow> uerror" where
  "teamErr c = UError ETeam c"

definition assertTeamAuthorization ::
  "token_registry \<Rightarrow> timestamp \<Rightarrow> nat option \<Rightarrow> string \<Rightarrow> team_operation \<Rightarrow> identity option \<Rightarrow> uerror + unit" where
  "assertTeamAuthorization issued now authorization organizationId operation actor =
     (case Option.bind authorization (mget issued) of
        None \<Rightarrow> Inl (teamErr ''team_authorization_required'')
      | Some token \<Rightarrow>
          if tk_expiresAt token < now \<or> tk_organizationId token \<noteq> organizationId \<or>
             operation \<notin> set (tk_operations token) \<or>
             (\<not> tk_trusted token \<and> (case actor of None \<Rightarrow> False | Some a \<Rightarrow> a \<noteq> tk_actor token))
          then Inl (teamErr ''team_authorization_required'')
          else Inr ())"

section \<open>Validation\<close>

definition MAX_TEAM_DEPTH :: nat where
  "MAX_TEAM_DEPTH = 8"

definition assertTeamId :: "string \<Rightarrow> uerror + string" where
  "assertTeamId v = (if trim v = [] \<or> length v > 200 then Inl (teamErr ''team_invalid'') else Inr v)"

definition sanitizeTeamName :: "string \<Rightarrow> uerror + string" where
  "sanitizeTeamName name =
     (let trimmed = clean_name name in
      if trimmed = [] \<or> length trimmed > 255 then Inl (teamErr ''team_name_invalid'') else Inr trimmed)"

definition resolveTeamSlug :: "string \<Rightarrow> string option \<Rightarrow> uerror + string" where
  "resolveTeamSlug name explicit =
     (case explicit of
        Some e \<Rightarrow>
          if e = [] \<or> length e > MAX_SLUG_LENGTH \<or> \<not> matchesSlugPattern e then Inl (teamErr ''team_slug_invalid'') else Inr e
      | None \<Rightarrow>
          let derived = deriveSlug name MAX_SLUG_LENGTH in
          if derived = [] then Inl (teamErr ''team_slug_invalid'') else Inr derived)"

definition sanitizeTeamExternalId :: "string \<Rightarrow> uerror + string" where
  "sanitizeTeamExternalId v =
     (let trimmed = trim v in
      if trimmed = [] \<or> length trimmed > 200 then Inl (teamErr ''team_external_id_invalid'') else Inr trimmed)"

definition MAX_DATA_DEPTH :: nat where
  "MAX_DATA_DEPTH = 8"

function isPlainJson :: "json \<Rightarrow> nat \<Rightarrow> bool" where
  "isPlainJson JNull d = True"
| "isPlainJson (JBool b) d = True"
| "isPlainJson (JNum n) d = True"
| "isPlainJson (JStr t) d = True"
| "isPlainJson (JArr xs) d = (d < MAX_DATA_DEPTH \<and> list_all (\<lambda>x. isPlainJson x (d + 1)) xs)"
| "isPlainJson (JObj kvs) d = (d < MAX_DATA_DEPTH \<and> list_all (\<lambda>(k, v). k \<noteq> ''__proto__'' \<and> isPlainJson v (d + 1)) kvs)"
  by pat_completeness auto
termination
proof (relation "measure (\<lambda>(j, d). size j)")
  fix kvs :: "(string \<times> json) list" and d and z and x y
  assume "z \<in> set kvs" "(x, y) = z"
  then have "size_prod (\<lambda>_. 0) size (x, y) \<le> size_list (size_prod (\<lambda>_. 0) size) kvs"
    by (auto intro: size_list_estimation')
  then show "((y, d + 1), JObj kvs, d) \<in> measure (\<lambda>(j, d). size j)" by simp
qed (auto simp: less_Suc_eq_le intro: size_list_estimation' order.trans)

definition MAX_TEAM_DATA_BYTES :: nat where
  "MAX_TEAM_DATA_BYTES = 16 * 1024"

definition is_object :: "json \<Rightarrow> bool" where
  "is_object j = (case j of JObj _ \<Rightarrow> True | _ \<Rightarrow> False)"

text \<open>A copy of the value is returned.\<close>

definition sanitizeTeamData :: "json \<Rightarrow> uerror + json" where
  "sanitizeTeamData value =
     (if \<not> is_object value \<or> \<not> isPlainJson value 0 then Inl (teamErr ''team_data_invalid'')
      else if utf8_length (stringify value) > MAX_TEAM_DATA_BYTES
      then Inl (teamErr ''team_data_invalid'')
      else Inr value)"

definition sameTeamData :: "json \<Rightarrow> json \<Rightarrow> bool" where
  "sameTeamData a b \<longleftrightarrow> canonicalJson a = canonicalJson b"

definition sanitizeTeamReason :: "string option \<Rightarrow> string option" where
  "sanitizeTeamReason reason =
     (case reason of None \<Rightarrow> None | Some r \<Rightarrow> if trim r = [] then None else Some (take 500 (trim r)))"

definition assertTeamVersion :: "int \<Rightarrow> int option \<Rightarrow> string \<Rightarrow> uerror + unit" where
  "assertTeamVersion version expected conflict =
     bindr (assertExpectedVersion expected 1) (\<lambda>e.
       if version_ok e version then Inr () else Inl (teamErr conflict))"

text \<open>One page of rows by id.\<close>

definition teamPage :: "('a \<Rightarrow> string) \<Rightarrow> int option \<Rightarrow> string option \<Rightarrow> 'a list \<Rightarrow> 'a list" where
  "teamPage idf limit after rows =
     take (clamp_limit 50 200 limit)
       (sort_by (\<lambda>a b. idf a < idf b) (filter (\<lambda>r. opt_match (\<lambda>a. idf r > a) after) rows))"

section \<open>Lemmas\<close>

text \<open>What a token that passes says.\<close>

definition authorizes :: "token_registry \<Rightarrow> timestamp \<Rightarrow> nat option \<Rightarrow> string \<Rightarrow> team_operation \<Rightarrow> bool" where
  "authorizes issued now authorization og operation \<longleftrightarrow>
     (\<exists>ref token. authorization = Some ref \<and> mget issued ref = Some token \<and> now \<le> tk_expiresAt token \<and>
        tk_organizationId token = og \<and> operation \<in> set (tk_operations token))"

lemma assertTeamAuthorization_Inr:
  "assertTeamAuthorization issued now authorization og operation actor = Inr u \<Longrightarrow> authorizes issued now authorization og operation"
  by (auto simp: assertTeamAuthorization_def authorizes_def bind_eq_Some_conv split: option.splits if_splits)

lemma assertTeamAuthorization_Inl:
  "assertTeamAuthorization issued now authorization og operation actor = Inl e \<Longrightarrow> e = teamErr ''team_authorization_required''"
  by (auto simp: assertTeamAuthorization_def split: option.splits if_splits)

lemma assertTeamVersion_Inr: "assertTeamVersion v (Some e) c = Inr u \<Longrightarrow> v = e"
  by (auto simp: assertTeamVersion_def version_ok_def dest: assertExpectedVersion_Inr split: if_splits)

lemma assertTeamId_Inr: "assertTeamId v = Inr w \<Longrightarrow> w = v"
  by (simp add: assertTeamId_def split: if_splits)

end
