(* ===== verification/Teams.thy ===== *)
theory Teams
  imports TeamAuth Hierarchy Versioned
begin

text \<open>
  Teams: \<open>packages/core/src/team/repository.ts\<close> and \<open>teamRepository\<close> of \<open>storage/memory.ts\<close>.

  The walks over \<open>parentId\<close> have the bounds of the code (\<open>MAX_TEAM_DEPTH * 4\<close> levels, the number of teams).
  The lemmas show that the tree stays a forest of at most eight levels inside one organization, that no active
  team hangs below an archived one, and that the walks find exactly the teams above and below.
\<close>

section \<open>The tree\<close>

definition teamOf :: "store \<Rightarrow> string \<Rightarrow> string \<Rightarrow> team option" where
  "teamOf s organizationId i =
     (case mget (teams s) i of None \<Rightarrow> None | Some t \<Rightarrow> if t_organizationId t = organizationId then Some t else None)"

definition requireTeam :: "store \<Rightarrow> string \<Rightarrow> string \<Rightarrow> uerror + team" where
  "requireTeam s organizationId i =
     (case teamOf s organizationId i of None \<Rightarrow> Inl (teamErr ''team_not_found'') | Some t \<Rightarrow> Inr t)"

definition childrenOf :: "store \<Rightarrow> string \<Rightarrow> string \<Rightarrow> team list" where
  "childrenOf s organizationId i =
     filter (\<lambda>t. t_organizationId t = organizationId \<and> t_parentId t = Some i) (mvals (teams s))"

definition WALK_LIMIT :: nat where
  "WALK_LIMIT = MAX_TEAM_DEPTH * 4"

function anc_loop :: "store \<Rightarrow> string \<Rightarrow> team \<Rightarrow> team list \<Rightarrow> team list" where
  "anc_loop s organizationId current chain =
     (case t_parentId current of
        None \<Rightarrow> chain
      | Some p \<Rightarrow>
          if length chain \<le> WALK_LIMIT
          then (case teamOf s organizationId p of None \<Rightarrow> chain | Some q \<Rightarrow> anc_loop s organizationId q (q # chain))
          else chain)"
  by pat_completeness auto
termination
  by (relation "measure (\<lambda>(s, og, t, chain). Suc WALK_LIMIT - length chain)") auto

declare anc_loop.simps [simp del]

definition ancestorsOf :: "store \<Rightarrow> string \<Rightarrow> string \<Rightarrow> team list" where
  "ancestorsOf s organizationId i =
     (case teamOf s organizationId i of None \<Rightarrow> [] | Some t \<Rightarrow> anc_loop s organizationId t [])"

function desc_loop :: "store \<Rightarrow> string \<Rightarrow> team list \<Rightarrow> team list \<Rightarrow> team list" where
  "desc_loop s organizationId found [] = found"
| "desc_loop s organizationId found (next # queue) =
     (if length found \<le> length (teams s)
      then desc_loop s organizationId (found @ [next]) (queue @ childrenOf s organizationId (t_id next))
      else found)"
  by pat_completeness auto
termination
  by (relation "measure (\<lambda>(s, og, found, queue). Suc (length (teams s)) - length found)") auto

definition descendantsOf :: "store \<Rightarrow> string \<Rightarrow> string \<Rightarrow> team list" where
  "descendantsOf s organizationId i = desc_loop s organizationId [] (childrenOf s organizationId i)"

text \<open>\<open>children.reduce((max, child) => ..., depth)\<close>\<close>

function walk_height :: "store \<Rightarrow> string \<Rightarrow> string \<Rightarrow> nat \<Rightarrow> nat" where
  "walk_height s organizationId i depth =
     (if depth > WALK_LIMIT then depth
      else fold max (map (\<lambda>child. walk_height s organizationId (t_id child) (depth + 1)) (childrenOf s organizationId i)) depth)"
  by pat_completeness auto
termination
  by (relation "measure (\<lambda>(s, og, i, depth). Suc WALK_LIMIT - depth)") auto

declare walk_height.simps [simp del]

definition heightOf :: "store \<Rightarrow> string \<Rightarrow> string \<Rightarrow> nat" where
  "heightOf s organizationId i = walk_height s organizationId i 0"

section \<open>Placement\<close>

record placement_facts =
  pf_parent :: "(team_status \<times> nat) option"
  pf_loop :: bool
  pf_subtreeHeight :: nat

definition assertTeamPlacement :: "placement_facts \<Rightarrow> uerror + unit" where
  "assertTeamPlacement facts =
     (case pf_parent facts of
        None \<Rightarrow> Inl (teamErr ''team_parent_invalid'')
      | Some (st, depth) \<Rightarrow>
          if pf_loop facts then Inl (teamErr ''team_cycle'')
          else if st \<noteq> TActive then Inl (teamErr ''team_parent_invalid'')
          else if depth + 1 + pf_subtreeHeight facts > MAX_TEAM_DEPTH then Inl (teamErr ''team_too_deep'')
          else Inr ())"

definition checkPlacement :: "store \<Rightarrow> string \<Rightarrow> string option \<Rightarrow> string \<Rightarrow> uerror + unit" where
  "checkPlacement s organizationId selfId parentId =
     (let parent = teamOf s organizationId parentId;
          above = (if parent = None then [] else ancestorsOf s organizationId parentId) in
      assertTeamPlacement
        \<lparr> pf_parent = map_option (\<lambda>p. (t_status p, length above + 1)) parent,
          pf_loop = (case selfId of None \<Rightarrow> False | Some me \<Rightarrow> parentId = me \<or> list_ex (\<lambda>t. t_id t = me) above),
          pf_subtreeHeight = (case selfId of None \<Rightarrow> 0 | Some me \<Rightarrow> heightOf s organizationId me) \<rparr>)"

section \<open>Creating\<close>

record create_team =
  ct_id :: string
  ct_organizationId :: string
  ct_name :: string
  ct_slug :: "string option"
  ct_externalId :: "string option"
  ct_parentId :: "string option"
  ct_metadata :: "json option"
  ct_settings :: "json option"
  ct_now :: "timestamp option"

text \<open>The new row, before the storage's own checks.\<close>

definition assertValidCreateTeam :: "timestamp \<Rightarrow> create_team \<Rightarrow> uerror + team" where
  "assertValidCreateTeam now input =
     bindr (assertTeamId (ct_id input)) (\<lambda>_.
     bindr (assertTeamId (ct_organizationId input)) (\<lambda>_.
     bindr (sanitizeTeamName (ct_name input)) (\<lambda>name.
     bindr (opt_check assertTeamId (ct_parentId input)) (\<lambda>_.
     bindr (resolveTeamSlug name (ct_slug input)) (\<lambda>slug.
     bindr (opt_check sanitizeTeamExternalId (ct_externalId input)) (\<lambda>externalId.
     bindr (sanitizeTeamData (case ct_metadata input of None \<Rightarrow> JObj [] | Some m \<Rightarrow> m)) (\<lambda>metadata.
     bindr (sanitizeTeamData (case ct_settings input of None \<Rightarrow> JObj [] | Some m \<Rightarrow> m)) (\<lambda>settings.
       let at = (case ct_now input of None \<Rightarrow> now | Some t \<Rightarrow> t) in
       Inr \<lparr> t_id = ct_id input, t_organizationId = ct_organizationId input, t_slug = slug, t_name = name,
             t_status = TActive, t_parentId = ct_parentId input, t_externalId = externalId, t_metadata = metadata,
             t_settings = settings, t_createdAt = at, t_updatedAt = at, t_archived = None, t_version = 1 \<rparr>))))))))"

definition in_organization :: "store \<Rightarrow> string \<Rightarrow> team list" where
  "in_organization s organizationId = filter (\<lambda>t. t_organizationId t = organizationId) (mvals (teams s))"

definition put_team :: "team \<Rightarrow> store \<Rightarrow> store" where
  "put_team t s = s \<lparr> teams := mset_at (t_id t) t (teams s) \<rparr>"

definition team_create :: "token_registry \<Rightarrow> timestamp \<Rightarrow> nat option \<Rightarrow> create_team \<Rightarrow> team op" where
  "team_create issued now authorization input s =
     guard (assertTeamAuthorization issued now authorization (ct_organizationId input) TeamCreate None) (\<lambda>_.
     guard (assertValidCreateTeam now input) (\<lambda>t s.
       if \<not> mhas (organizations s) (ct_organizationId input) then fails (teamErr ''team_organization_unknown'') s
       else if mhas (teams s) (ct_id input) then fails (teamErr ''team_exists'') s
       else if list_ex (\<lambda>x. t_slug x = t_slug t) (in_organization s (ct_organizationId input))
       then fails (teamErr ''team_slug_taken'') s
       else if t_externalId t \<noteq> None \<and> list_ex (\<lambda>x. t_externalId x = t_externalId t) (in_organization s (ct_organizationId input))
       then fails (teamErr ''team_external_id_taken'') s
       else guard (case ct_parentId input of None \<Rightarrow> Inr () | Some p \<Rightarrow> checkPlacement s (ct_organizationId input) None p)
              (\<lambda>_ s. returns t (put_team t s)) s)) s"

section \<open>Reading\<close>

definition team_findById :: "store \<Rightarrow> string \<Rightarrow> string \<Rightarrow> team option" where
  "team_findById s organizationId i = teamOf s organizationId i"

definition team_findBySlug :: "store \<Rightarrow> string \<Rightarrow> string \<Rightarrow> team option" where
  "team_findBySlug s organizationId slug =
     find (\<lambda>t. t_organizationId t = organizationId \<and> t_slug t = slug) (mvals (teams s))"

definition team_findByExternalId :: "store \<Rightarrow> string \<Rightarrow> string \<Rightarrow> team option" where
  "team_findByExternalId s organizationId externalId =
     find (\<lambda>t. t_organizationId t = organizationId \<and> t_externalId t = Some externalId) (mvals (teams s))"

record team_filter =
  tf_organizationId :: string
  tf_status :: "team_status option"
  tf_query :: "string option"
  tf_externalId :: "string option"
  tf_parentId :: "string option option"

definition teamMatches :: "team \<Rightarrow> team_filter \<Rightarrow> bool" where
  "teamMatches t f \<longleftrightarrow>
     t_organizationId t = tf_organizationId f \<and> opt_match (\<lambda>st. t_status t = st) (tf_status f) \<and>
     opt_match (\<lambda>e. t_externalId t = Some e) (tf_externalId f) \<and>
     opt_match (\<lambda>p. t_parentId t = p) (tf_parentId f) \<and>
     (case search_query (tf_query f) of None \<Rightarrow> True
      | Some q \<Rightarrow> str_includes (lower (t_name t)) q \<or> str_includes (t_slug t) q)"

definition team_search :: "store \<Rightarrow> team_filter \<Rightarrow> int option \<Rightarrow> string option \<Rightarrow> team list" where
  "team_search s f limit after = teamPage t_id limit after (filter (\<lambda>t. teamMatches t f) (mvals (teams s)))"

definition team_count :: "store \<Rightarrow> team_filter \<Rightarrow> nat" where
  "team_count s f = length (filter (\<lambda>t. teamMatches t f) (mvals (teams s)))"

definition team_ancestors :: "store \<Rightarrow> string \<Rightarrow> string \<Rightarrow> uerror + team list" where
  "team_ancestors s organizationId i = bindr (requireTeam s organizationId i) (\<lambda>_. Inr (ancestorsOf s organizationId i))"

definition team_descendants :: "store \<Rightarrow> string \<Rightarrow> string \<Rightarrow> uerror + team list" where
  "team_descendants s organizationId i =
     bindr (requireTeam s organizationId i) (\<lambda>_.
       Inr (sort_by (\<lambda>a b. t_id a < t_id b) (descendantsOf s organizationId i)))"

definition MAX_PATH_SOURCE_TEAMS :: nat where
  "MAX_PATH_SOURCE_TEAMS = 50"

definition assertPathSourceTeams :: "string list \<Rightarrow> uerror + string list" where
  "assertPathSourceTeams ids =
     (if length ids > MAX_PATH_SOURCE_TEAMS \<or> list_ex (\<lambda>i. i = [] \<or> length i > 200) ids then Inl (teamErr ''team_invalid'')
      else Inr (uniq ids))"

definition path_add :: "store \<Rightarrow> string \<Rightarrow> string \<Rightarrow> string list \<Rightarrow> string list" where
  "path_add s organizationId i found =
     (if teamOf s organizationId i = None then found
      else fold set_add (map t_id (ancestorsOf s organizationId i)) (set_add i found))"

definition team_pathIds :: "store \<Rightarrow> string \<Rightarrow> string list \<Rightarrow> int option \<Rightarrow> uerror + string list" where
  "team_pathIds s organizationId teamIds limit =
     bindr (assertPathSourceTeams teamIds) (\<lambda>ids.
       Inr (take (clamp_limit 1000 5000 limit) (sort (fold (path_add s organizationId) ids []))))"

section \<open>Changing\<close>

record update_team =
  ut_name :: "string option"
  ut_slug :: "string option"
  ut_externalId :: "string option option"
  ut_parentId :: "string option option"
  ut_metadata :: "json option"
  ut_settings :: "json option"
  ut_expectedVersion :: "int option"

text \<open>\<open>null\<close> clears the external id or the parent: \<open>Some None\<close>.\<close>

definition clearable :: "('a \<Rightarrow> uerror + 'b) \<Rightarrow> 'a option option \<Rightarrow> uerror + 'b option option" where
  "clearable f = opt_check (opt_check f)"

definition assertValidUpdateTeam :: "update_team \<Rightarrow> uerror + update_team" where
  "assertValidUpdateTeam input =
     bindr (opt_check sanitizeTeamName (ut_name input)) (\<lambda>name.
     bindr (opt_check (\<lambda>e. resolveTeamSlug [] (Some e)) (ut_slug input)) (\<lambda>slug.
     bindr (clearable sanitizeTeamExternalId (ut_externalId input)) (\<lambda>externalId.
     bindr (clearable assertTeamId (ut_parentId input)) (\<lambda>parentId.
     bindr (opt_check sanitizeTeamData (ut_metadata input)) (\<lambda>metadata.
     bindr (opt_check sanitizeTeamData (ut_settings input)) (\<lambda>settings.
       if name = None \<and> slug = None \<and> externalId = None \<and> parentId = None \<and> metadata = None \<and> settings = None
       then Inl (teamErr ''team_update_empty'')
       else Inr \<lparr> ut_name = name, ut_slug = slug, ut_externalId = externalId, ut_parentId = parentId,
                  ut_metadata = metadata, ut_settings = settings, ut_expectedVersion = ut_expectedVersion input \<rparr>))))))"

definition or_keep :: "'a \<Rightarrow> 'a option \<Rightarrow> 'a" where
  "or_keep old x = (case x of None \<Rightarrow> old | Some v \<Rightarrow> v)"

definition apply_team_change :: "update_team \<Rightarrow> team \<Rightarrow> team" where
  "apply_team_change change t =
     t \<lparr> t_name := or_keep (t_name t) (ut_name change), t_slug := or_keep (t_slug t) (ut_slug change),
         t_externalId := or_keep (t_externalId t) (ut_externalId change),
         t_parentId := or_keep (t_parentId t) (ut_parentId change),
         t_metadata := or_keep (t_metadata t) (ut_metadata change),
         t_settings := or_keep (t_settings t) (ut_settings change) \<rparr>"

definition same_team :: "team \<Rightarrow> team \<Rightarrow> bool" where
  "same_team a b \<longleftrightarrow> t_name a = t_name b \<and> t_parentId a = t_parentId b \<and> t_slug a = t_slug b \<and>
     t_externalId a = t_externalId b \<and> sameTeamData (t_metadata a) (t_metadata b) \<and> sameTeamData (t_settings a) (t_settings b)"

definition team_update ::
  "token_registry \<Rightarrow> timestamp \<Rightarrow> nat option \<Rightarrow> string \<Rightarrow> string \<Rightarrow> update_team \<Rightarrow> team op" where
  "team_update issued now authorization organizationId i input s =
     guard (assertTeamAuthorization issued now authorization organizationId TeamUpdate None) (\<lambda>_.
     guard (requireTeam s organizationId i) (\<lambda>t.
     guard (assertValidUpdateTeam input) (\<lambda>change.
     guard (assertTeamVersion (t_version t) (ut_expectedVersion input) ''team_version_conflict'') (\<lambda>_ s.
       let others = filter (\<lambda>x. t_id x \<noteq> i) (in_organization s organizationId) in
       if t_status t = TArchived then fails (teamErr ''team_archived'') s
       else if ut_slug change \<noteq> None \<and> list_ex (\<lambda>x. Some (t_slug x) = ut_slug change) others
       then fails (teamErr ''team_slug_taken'') s
       else if (case ut_externalId change of Some (Some e) \<Rightarrow> list_ex (\<lambda>x. t_externalId x = Some e) others | _ \<Rightarrow> False)
       then fails (teamErr ''team_external_id_taken'') s
       else guard (case ut_parentId change of
                     Some (Some p) \<Rightarrow> if t_parentId t = Some p then Inr () else checkPlacement s organizationId (Some i) p
                   | _ \<Rightarrow> Inr ()) (\<lambda>_ s.
         let new = apply_team_change change t in
         if same_team new t then returns t s
         else let saved = new \<lparr> t_updatedAt := now, t_version := t_version t + 1 \<rparr>
              in returns saved (s \<lparr> teams := mset_at i saved (teams s) \<rparr>)) s)))) s"

definition team_archive ::
  "token_registry \<Rightarrow> timestamp \<Rightarrow> nat option \<Rightarrow> string \<Rightarrow> string \<Rightarrow> identity \<Rightarrow> string option \<Rightarrow> int option \<Rightarrow> team op" where
  "team_archive issued now authorization organizationId i actor reason expected s =
     guard (assertTeamAuthorization issued now authorization organizationId TeamArchive (Some actor)) (\<lambda>_.
     guard (requireTeam s organizationId i) (\<lambda>t.
     guard (assertTeamVersion (t_version t) expected ''team_version_conflict'') (\<lambda>_ s.
       if t_status t = TArchived then returns t s
       else if list_ex (\<lambda>c. t_status c = TActive) (childrenOf s organizationId i) then fails (teamErr ''team_has_children'') s
       else
         let saved = t \<lparr> t_status := TArchived,
                         t_archived := Some \<lparr> ch_at = now, ch_by = actor, ch_reason = sanitizeTeamReason reason \<rparr>,
                         t_updatedAt := now, t_version := t_version t + 1 \<rparr>
         in returns saved (s \<lparr> teams := mset_at i saved (teams s) \<rparr>)))) s"

definition team_restore ::
  "token_registry \<Rightarrow> timestamp \<Rightarrow> nat option \<Rightarrow> string \<Rightarrow> string \<Rightarrow> identity \<Rightarrow> int option \<Rightarrow> team op" where
  "team_restore issued now authorization organizationId i actor expected s =
     guard (assertTeamAuthorization issued now authorization organizationId TeamRestore (Some actor)) (\<lambda>_.
     guard (requireTeam s organizationId i) (\<lambda>t.
     guard (assertTeamVersion (t_version t) expected ''team_version_conflict'') (\<lambda>_ s.
       if t_status t = TActive then returns t s
       else if (case t_parentId t of None \<Rightarrow> False
                | Some p \<Rightarrow> map_option t_status (teamOf s organizationId p) \<noteq> Some TActive)
       then fails (teamErr ''team_parent_invalid'') s
       else
         let saved = t \<lparr> t_status := TActive, t_archived := None, t_updatedAt := now, t_version := t_version t + 1 \<rparr>
         in returns saved (s \<lparr> teams := mset_at i saved (teams s) \<rparr>)))) s"

definition team_delete :: "token_registry \<Rightarrow> timestamp \<Rightarrow> nat option \<Rightarrow> string \<Rightarrow> string \<Rightarrow> unit op" where
  "team_delete issued now authorization organizationId i s =
     guard (assertTeamAuthorization issued now authorization organizationId TeamDelete None) (\<lambda>_.
     guard (requireTeam s organizationId i) (\<lambda>t s.
       if t_status t \<noteq> TArchived then fails (teamErr ''team_not_archived'') s
       else if childrenOf s organizationId i \<noteq> [] then fails (teamErr ''team_has_children'') s
       else returns () (s \<lparr> teams := mdel i (teams s),
              teamMemberships := mfilter (\<lambda>row. tm_teamId row \<noteq> i) (teamMemberships s) \<rparr>))) s"

section \<open>The invariant\<close>

definition team_parent :: "store \<Rightarrow> string parents" where
  "team_parent s k = map_option t_parentId (mget (teams s) k)"

definition teams_unique :: "store \<Rightarrow> bool" where
  "teams_unique s \<longleftrightarrow> (\<forall>a \<in> set (mvals (teams s)). \<forall>b \<in> set (mvals (teams s)). t_organizationId a = t_organizationId b \<longrightarrow>
     t_slug a = t_slug b \<or> (t_externalId a \<noteq> None \<and> t_externalId a = t_externalId b) \<longrightarrow> t_id a = t_id b)"

text \<open>A parent is a team of the same organization, active if the child is.\<close>

definition parent_ok :: "team \<Rightarrow> team \<Rightarrow> bool" where
  "parent_ok t q \<longleftrightarrow> t_organizationId q = t_organizationId t \<and> (t_status t = TActive \<longrightarrow> t_status q = TActive)"

definition teams_ok :: "store \<Rightarrow> bool" where
  "teams_ok s \<longleftrightarrow> keyed t_id (teams s) \<and> forest MAX_TEAM_DEPTH (team_parent s) \<and> teams_unique s \<and>
     (\<forall>k t p q. mget (teams s) k = Some t \<longrightarrow> t_parentId t = Some p \<longrightarrow> mget (teams s) p = Some q \<longrightarrow> parent_ok t q)"

interpretation team_tree: bounded_forest team_parent teams_ok MAX_TEAM_DEPTH
  by unfold_locales (simp add: teams_ok_def)

lemma team_parent_get: "mget (teams s) k = Some t \<Longrightarrow> team_parent s k = Some (t_parentId t)"
  by (simp add: team_parent_def)

lemma team_parent_ex: "team_parent s k = Some y \<longleftrightarrow> (\<exists>t. mget (teams s) k = Some t \<and> t_parentId t = y)"
  by (simp add: team_parent_def)

lemma teamOf_iff: "teamOf s og i = Some t \<longleftrightarrow> mget (teams s) i = Some t \<and> t_organizationId t = og"
  by (auto simp: teamOf_def split: option.splits)

lemma requireTeam_iff: "requireTeam s og i = Inr t \<longleftrightarrow> mget (teams s) i = Some t \<and> t_organizationId t = og"
  unfolding teamOf_iff[symmetric] by (simp add: requireTeam_def split: option.splits)

lemma team_id: "teams_ok s \<Longrightarrow> mget (teams s) i = Some t \<Longrightarrow> t_id t = i"
  using keyed_get by (auto simp: teams_ok_def)

lemma team_vals: "teams_ok s \<Longrightarrow> x \<in> set (mvals (teams s)) \<Longrightarrow> mget (teams s) (t_id x) = Some x"
  using keyed_vals[of t_id "teams s" x] by (simp add: teams_ok_def)

lemma parent_team:
  assumes "teams_ok s" "mget (teams s) i = Some t" "t_parentId t = Some p"
  obtains q where "mget (teams s) p = Some q" "parent_ok t q"
proof -
  have "team_parent s p \<noteq> None"
    using team_tree.parent_present[OF assms(1), of i p] team_parent_get[OF assms(2)] assms(3) by simp
  then obtain q where q: "mget (teams s) p = Some q" by (auto simp: team_parent_def)
  then have "parent_ok t q" using assms unfolding teams_ok_def by blast
  with q that show ?thesis by blast
qed

section \<open>The walks\<close>

lemma anc_loop_path:
  "teams_ok s \<Longrightarrow> mget (teams s) k = Some t \<Longrightarrow> t_organizationId t = og \<Longrightarrow> within (team_parent s) n k \<Longrightarrow>
    length chain + n \<le> Suc WALK_LIMIT \<Longrightarrow>
    map t_id (anc_loop s og t chain) = rev (tl (path (team_parent s) n k)) @ map t_id chain"
proof (induction n arbitrary: k t chain)
  case (Suc n)
  note par = team_parent_get[OF Suc.prems(2)]
  show ?case
  proof (cases "t_parentId t")
    case None
    then show ?thesis using par by (simp add: anc_loop.simps)
  next
    case (Some p)
    obtain q where q: "mget (teams s) p = Some q" "parent_ok t q" by (rule parent_team[OF Suc.prems(1,2) Some])
    have og: "t_organizationId q = og" using q(2) Suc.prems(3) by (simp add: parent_ok_def)
    have w: "within (team_parent s) n p" using Suc.prems(4) par Some by simp
    then obtain m where n: "n = Suc m" by (cases n) auto
    have "path (team_parent s) n p \<noteq> []" using path_root[OF w] by simp
    moreover have "hd (path (team_parent s) n p) = p" using w n by (auto split: option.splits)
    ultimately have "path (team_parent s) n p = p # tl (path (team_parent s) n p)" by (metis list.collapse)
    moreover have "map t_id (anc_loop s og q (q # chain)) = rev (tl (path (team_parent s) n p)) @ map t_id (q # chain)"
      using Suc.IH[OF Suc.prems(1) q(1) og w, of "q # chain"] Suc.prems(5) by simp
    moreover have "anc_loop s og t chain = anc_loop s og q (q # chain)"
      using Suc.prems(5) q(1) og n Some by (subst anc_loop.simps) (simp add: teamOf_def)
    ultimately show ?thesis using par Some team_id[OF Suc.prems(1) q(1)]
      by (simp, metis append.assoc append_Cons append_Nil rev.simps(2))
  qed
qed simp

lemma team_within: "teams_ok s \<Longrightarrow> mget (teams s) k = Some t \<Longrightarrow> within (team_parent s) MAX_TEAM_DEPTH k"
  using team_tree.forest_inv team_parent_get by (fastforce simp: forest_def)

lemma ancestors_path:
  assumes "teams_ok s" "mget (teams s) k = Some t" "t_organizationId t = og"
  shows "map t_id (ancestorsOf s og k) = rev (tl (path (team_parent s) MAX_TEAM_DEPTH k))"
  using anc_loop_path[OF assms team_within[OF assms(1,2)], of "[]"] assms(2,3)
  by (simp add: ancestorsOf_def teamOf_def WALK_LIMIT_def MAX_TEAM_DEPTH_def)

lemma path_Cons: "within par n k \<Longrightarrow> path par n k = k # tl (path par n k)"
  by (cases n) (auto split: option.splits)

text \<open>The team and the teams above it are its path.\<close>

lemma ancestors_ids:
  assumes "teams_ok s" "mget (teams s) k = Some t" "t_organizationId t = og"
  shows "insert k (t_id ` set (ancestorsOf s og k)) = {z. \<exists>j. up (team_parent s) j k = Some z}"
    and "within (team_parent s) (length (ancestorsOf s og k) + 1) k"
proof -
  note w = team_within[OF assms(1,2)]
  have "t_id ` set (ancestorsOf s og k) = set (tl (path (team_parent s) MAX_TEAM_DEPTH k))"
    using ancestors_path[OF assms] by (metis list.set_map set_rev)
  then have "insert k (t_id ` set (ancestorsOf s og k)) = set (path (team_parent s) MAX_TEAM_DEPTH k)"
    using path_Cons[OF w] by (metis list.simps(15))
  then show "insert k (t_id ` set (ancestorsOf s og k)) = {z. \<exists>j. up (team_parent s) j k = Some z}"
    using set_path[OF w] by blast
  have "length (ancestorsOf s og k) = length (tl (path (team_parent s) MAX_TEAM_DEPTH k))"
    using ancestors_path[OF assms] by (metis length_map length_rev)
  then have "length (path (team_parent s) MAX_TEAM_DEPTH k) = length (ancestorsOf s og k) + 1"
    using path_Cons[OF w] by (metis Suc_eq_plus1 length_Cons)
  then show "within (team_parent s) (length (ancestorsOf s og k) + 1) k" using within_path_length[OF w] by simp
qed

lemma fold_max_ge: "(d :: nat) \<le> fold max xs d" "x \<in> set xs \<Longrightarrow> x \<le> fold max xs d"
  by (induction xs arbitrary: d) (auto intro: order.trans[OF _ max.cobounded1] simp: max.coboundedI2, (metis max.bounded_iff order.refl order.trans)+)

lemma walk_height_ge:
  "teams_ok s \<Longrightarrow> mget (teams s) k = Some t \<Longrightarrow> t_organizationId t = og \<Longrightarrow> up (team_parent s) j x = Some k \<Longrightarrow>
    d + j \<le> WALK_LIMIT \<Longrightarrow> d + j \<le> walk_height s og k d"
proof (induction j arbitrary: k t d)
  case 0
  then show ?case by (subst walk_height.simps) (simp add: fold_max_ge)
next
  case (Suc j)
  from Suc.prems(4) obtain c where c: "up (team_parent s) j x = Some c" "team_parent s c = Some (Some k)"
    unfolding up_Suc_right by (auto simp: bind_eq_Some_conv split: option.splits)
  obtain tc where tc: "mget (teams s) c = Some tc" "t_parentId tc = Some k" using c(2) by (auto simp: team_parent_ex)
  obtain t' where "mget (teams s) k = Some t'" "parent_ok tc t'" by (rule parent_team[OF Suc.prems(1) tc])
  then have og: "t_organizationId tc = og" using Suc.prems(2,3) by (simp add: parent_ok_def)
  have id: "t_id tc = c" by (rule team_id[OF Suc.prems(1) tc(1)])
  have mem: "tc \<in> set (childrenOf s og k)" using tc og mget_in_mvals[OF tc(1)] by (simp add: childrenOf_def)
  have "d + 1 + j \<le> walk_height s og c (d + 1)" using Suc.IH[OF Suc.prems(1) tc(1) og c(1), of "d + 1"] Suc.prems(5) by simp
  also have "\<dots> \<le> walk_height s og k d"
    using mem id Suc.prems(5) by (subst (2) walk_height.simps) (auto intro!: fold_max_ge(2) image_eqI[where x = tc])
  finally show ?case by simp
qed

section \<open>Every operation keeps the invariant\<close>

lemma placement_facts:
  assumes ok: "teams_ok s" and c: "checkPlacement s og me p = Inr u"
  obtains q where "mget (teams s) p = Some q" "t_organizationId q = og" "t_status q = TActive"
    "within (team_parent s) (length (ancestorsOf s og p) + 1) p"
    "length (ancestorsOf s og p) + 1 + 1 + (case me of None \<Rightarrow> 0 | Some k \<Rightarrow> heightOf s og k) \<le> MAX_TEAM_DEPTH"
    "\<And>k j. me = Some k \<Longrightarrow> up (team_parent s) j p \<noteq> Some k"
proof -
  obtain q where q: "teamOf s og p = Some q"
    using c by (auto simp: checkPlacement_def assertTeamPlacement_def Let_def split: option.splits)
  then have q': "mget (teams s) p = Some q" "t_organizationId q = og" by (simp_all add: teamOf_iff)
  have f: "t_status q = TActive" "length (ancestorsOf s og p) + 1 + 1 + (case me of None \<Rightarrow> 0 | Some k \<Rightarrow> heightOf s og k) \<le> MAX_TEAM_DEPTH"
    "\<not> (case me of None \<Rightarrow> False | Some k \<Rightarrow> p = k \<or> list_ex (\<lambda>t. t_id t = k) (ancestorsOf s og p))"
    using c q by (auto simp: checkPlacement_def assertTeamPlacement_def Let_def split: if_splits)
  have "up (team_parent s) j p \<noteq> Some k" if me: "me = Some k" for k j
  proof
    assume "up (team_parent s) j p = Some k"
    then have "k \<in> insert p (t_id ` set (ancestorsOf s og p))" using ancestors_ids(1)[OF ok q'] by blast
    then show False using f(3) me by (auto simp: list_ex_iff)
  qed
  with that[OF q' f(1) ancestors_ids(2)[OF ok q'] f(2)] show ?thesis by blast
qed

lemma team_parent_put: "team_parent (s \<lparr> teams := mset_at k t (teams s) \<rparr>) = (team_parent s)(k \<mapsto> t_parentId t)"
  by (rule ext) (simp add: team_parent_def)

lemma create_forest:
  assumes ok: "teams_ok s" and k: "mget (teams s) k = None" and c: "checkPlacement s og None p = Inr u"
  shows "forest MAX_TEAM_DEPTH ((team_parent s)(k \<mapsto> Some p))"
proof (rule placement_facts[OF ok c])
  fix q assume q: "mget (teams s) p = Some q" and w: "within (team_parent s) (length (ancestorsOf s og p) + 1) p"
    and d: "length (ancestorsOf s og p) + 1 + 1 + (case None of None \<Rightarrow> 0 | Some k \<Rightarrow> heightOf s og k) \<le> MAX_TEAM_DEPTH"
  have none: "team_parent s k = None" using k by (simp add: team_parent_def)
  have up: "j = 0" if "up (team_parent s) j x = Some k" for x j
  proof (cases j)
    case (Suc i)
    then have "team_parent s x \<noteq> None" using that by (auto split: option.splits)
    then have "within (team_parent s) MAX_TEAM_DEPTH x" using team_tree.forest_inv[OF ok] by (simp add: forest_def)
    from within_up[OF this that] none show ?thesis using within_present by fastforce
  qed
  have "up (team_parent s) j p \<noteq> Some k" for j using up[of j p] q k by auto
  then show ?thesis using up d by (intro forest_reparent[OF team_tree.forest_inv[OF ok] w, where h = 0]) auto
qed

lemma move_forest:
  assumes ok: "teams_ok s" and k: "mget (teams s) k = Some t" "t_organizationId t = og" and c: "checkPlacement s og (Some k) p = Inr u"
  shows "forest MAX_TEAM_DEPTH ((team_parent s)(k \<mapsto> Some p))"
proof (rule placement_facts[OF ok c])
  fix q assume w: "within (team_parent s) (length (ancestorsOf s og p) + 1) p"
    and d: "length (ancestorsOf s og p) + 1 + 1 + (case Some k of None \<Rightarrow> 0 | Some k \<Rightarrow> heightOf s og k) \<le> MAX_TEAM_DEPTH"
    and l: "\<And>k' j. Some k = Some k' \<Longrightarrow> up (team_parent s) j p \<noteq> Some k'"
  have "j \<le> heightOf s og k" if up: "up (team_parent s) j x = Some k" for x j
  proof (cases "j \<le> WALK_LIMIT")
    case True
    then show ?thesis using walk_height_ge[OF ok k up, of 0] by (simp add: heightOf_def)
  next
    case False
    then have "team_parent s x \<noteq> None" using up by (cases j) (auto split: option.splits)
    from team_tree.few_ancestors[OF ok this up] False show ?thesis by (simp add: WALK_LIMIT_def)
  qed
  then show ?thesis using d l by (intro forest_reparent[OF team_tree.forest_inv[OF ok] w]) auto
qed

lemma put_team_ok:
  assumes ok: "teams_ok s" and t: "t_id t = k" and f: "forest MAX_TEAM_DEPTH ((team_parent s)(k \<mapsto> t_parentId t))"
    and u: "\<And>x. x \<in> set (mvals (teams s)) \<Longrightarrow> t_organizationId x = t_organizationId t \<Longrightarrow> t_id x \<noteq> k \<Longrightarrow>
       t_slug x \<noteq> t_slug t \<and> (t_externalId t = None \<or> t_externalId x \<noteq> t_externalId t)"
    and p: "\<And>p q. t_parentId t = Some p \<Longrightarrow> p \<noteq> k \<Longrightarrow> mget (teams s) p = Some q \<Longrightarrow> parent_ok t q"
    and c: "\<And>x. x \<in> set (mvals (teams s)) \<Longrightarrow> t_parentId x = Some k \<Longrightarrow> parent_ok x t"
  shows "teams_ok (s \<lparr> teams := mset_at k t (teams s) \<rparr>)"
proof -
  have keyed: "keyed t_id (teams s)" using ok by (simp add: teams_ok_def)
  have "teams_unique (s \<lparr> teams := mset_at k t (teams s) \<rparr>)"
    unfolding teams_unique_def
  proof (intro ballI impI)
    fix a b assume a: "a \<in> set (mvals (teams (s \<lparr> teams := mset_at k t (teams s) \<rparr>)))" and b: "b \<in> set (mvals (teams (s \<lparr> teams := mset_at k t (teams s) \<rparr>)))"
      and og: "t_organizationId a = t_organizationId b" and eq: "t_slug a = t_slug b \<or> (t_externalId a \<noteq> None \<and> t_externalId a = t_externalId b)"
    have cases: "a = t \<or> (a \<in> set (mvals (teams s)) \<and> t_id a \<noteq> k)" "b = t \<or> (b \<in> set (mvals (teams s)) \<and> t_id b \<noteq> k)"
      using a b keyed_vals_update[OF keyed t] by auto
    show "t_id a = t_id b"
    proof (cases "a = t \<or> b = t")
      case True
      then show ?thesis using cases u[of a] u[of b] og eq by metis
    next
      case False
      then show ?thesis using cases ok og eq unfolding teams_ok_def teams_unique_def by blast
    qed
  qed
  moreover have "parent_ok x q" if x: "mget (mset_at k t (teams s)) i = Some x" "t_parentId x = Some r" "mget (mset_at k t (teams s)) r = Some q" for i x r q
  proof (cases "i = k")
    case True
    then have "x = t" using x(1) by simp
    moreover have "r \<noteq> k"
    proof
      assume "r = k"
      then have "up ((team_parent s)(k \<mapsto> t_parentId t)) (Suc 0) k = Some k" using x(2) \<open>x = t\<close> by simp
      moreover have "within ((team_parent s)(k \<mapsto> t_parentId t)) MAX_TEAM_DEPTH k" using f by (auto simp: forest_def)
      ultimately show False using no_cycle by (metis One_nat_def)
    qed
    ultimately show ?thesis using p x(2,3) by simp
  next
    case False
    then have "mget (teams s) i = Some x" using x(1) by simp
    then show ?thesis using x c[OF mget_in_mvals] ok unfolding teams_ok_def by (cases "r = k") auto
  qed
  ultimately show ?thesis using keyed_update[OF keyed t] f unfolding teams_ok_def team_parent_put by simp
qed

text \<open>How a team operation changes the store, if it does.\<close>

lemma assertValidCreateTeam_row:
  "assertValidCreateTeam now input = Inr t \<Longrightarrow> t_id t = ct_id input \<and> t_organizationId t = ct_organizationId input \<and>
    t_parentId t = ct_parentId input \<and> t_status t = TActive"
  by (auto simp: assertValidCreateTeam_def Let_def)

lemma team_create_cases:
  obtains (refused) "snd (team_create issued now auth input s) = s"
  | (created) t where "snd (team_create issued now auth input s) = put_team t s" "assertValidCreateTeam now input = Inr t"
      "mget (teams s) (ct_id input) = None"
      "list_all (\<lambda>x. t_slug x \<noteq> t_slug t \<and> (t_externalId t = None \<or> t_externalId x \<noteq> t_externalId t)) (in_organization s (ct_organizationId input))"
      "\<And>p. ct_parentId input = Some p \<Longrightarrow> checkPlacement s (ct_organizationId input) None p = Inr ()"
      "authorizes issued now auth (ct_organizationId input) TeamCreate"
proof (cases "snd (team_create issued now auth input s) = s")
  case False
  obtain u where a: "assertTeamAuthorization issued now auth (ct_organizationId input) TeamCreate None = Inr u"
    using False by (cases "assertTeamAuthorization issued now auth (ct_organizationId input) TeamCreate None") (simp_all add: team_create_def)
  obtain t where t: "assertValidCreateTeam now input = Inr t"
    using False a by (cases "assertValidCreateTeam now input") (simp_all add: team_create_def)
  let ?A = "\<not> mhas (organizations s) (ct_organizationId input)" and ?B = "mhas (teams s) (ct_id input)"
    and ?C = "list_ex (\<lambda>x. t_slug x = t_slug t) (in_organization s (ct_organizationId input))"
    and ?D = "t_externalId t \<noteq> None \<and> list_ex (\<lambda>x. t_externalId x = t_externalId t) (in_organization s (ct_organizationId input))"
    and ?P = "case ct_parentId input of None \<Rightarrow> Inr () | Some p \<Rightarrow> checkPlacement s (ct_organizationId input) None p"
  have eq: "snd (team_create issued now auth input s) = (if ?A \<or> ?B \<or> ?C \<or> ?D then s else snd (guard ?P (\<lambda>_ s. returns t (put_team t s)) s))"
    using a t by (auto simp: team_create_def)
  then have no: "\<not> ?B" "\<not> ?C" "\<not> ?D" using False by presburger+
  have P: "?P = Inr ()" using False eq by (cases ?P) (simp_all split: if_split_asm)
  show ?thesis
  proof (rule created[OF _ t])
    show "snd (team_create issued now auth input s) = put_team t s" using eq P False by (simp split: if_split_asm)
    show "mget (teams s) (ct_id input) = None" using no(1) by (simp add: mhas_def)
    show "list_all (\<lambda>x. t_slug x \<noteq> t_slug t \<and> (t_externalId t = None \<or> t_externalId x \<noteq> t_externalId t)) (in_organization s (ct_organizationId input))"
      using no(2,3) by (auto simp: list_all_iff list_ex_iff)
    show "checkPlacement s (ct_organizationId input) None p = Inr ()" if "ct_parentId input = Some p" for p using P that by simp
    show "authorizes issued now auth (ct_organizationId input) TeamCreate" by (rule assertTeamAuthorization_Inr[OF a])
  qed
qed (rule refused)

lemma in_org_ex: "list_all P (in_organization s og) \<Longrightarrow> x \<in> set (mvals (teams s)) \<Longrightarrow> t_organizationId x = og \<Longrightarrow> P x"
  by (simp add: in_organization_def list_all_iff)

lemma team_create_ok:
  assumes ok: "teams_ok s"
  shows "teams_ok (snd (team_create issued now auth input s))"
proof (cases rule: team_create_cases[of issued now auth input s])
  case refused
  then show ?thesis using ok by simp
next
  case (created t)
  note row = assertValidCreateTeam_row[OF created(2)]
  have new: "mget (teams s) (t_id t) = None" using created(3) row by simp
  have tree: "forest MAX_TEAM_DEPTH ((team_parent s)(t_id t \<mapsto> t_parentId t))"
  proof (cases "t_parentId t")
    case None
    then show ?thesis using forest_detach[OF team_tree.forest_inv[OF ok]] by (simp add: MAX_TEAM_DEPTH_def)
  next
    case (Some p)
    then show ?thesis using create_forest[OF ok new created(5)[of p]] row by simp
  qed
  have "teams_ok (s \<lparr> teams := mset_at (t_id t) t (teams s) \<rparr>)"
  proof (rule put_team_ok[OF ok refl tree])
    fix x assume "x \<in> set (mvals (teams s))" "t_organizationId x = t_organizationId t"
    then show "t_slug x \<noteq> t_slug t \<and> (t_externalId t = None \<or> t_externalId x \<noteq> t_externalId t)"
      using in_org_ex[OF created(4)] row by simp
  next
    fix p q assume p: "t_parentId t = Some p" "mget (teams s) p = Some q"
    have "checkPlacement s (ct_organizationId input) None p = Inr ()" using created(5) p row by simp
    from placement_facts[OF ok this] p(2) row show "parent_ok t q" by (metis option.inject parent_ok_def)
  next
    fix x assume x: "x \<in> set (mvals (teams s))" "t_parentId x = Some (t_id t)"
    have "mget (teams s) (t_id x) = Some x" by (rule team_vals[OF ok x(1)])
    from parent_team[OF ok this x(2)] new show "parent_ok x t" by (metis option.distinct(1))
  qed
  then show ?thesis using created(1) by (simp add: put_team_def)
qed

lemma team_update_cases:
  obtains (refused) "snd (team_update issued now auth og i input s) = s"
  | (changed) t change where "snd (team_update issued now auth og i input s) = s \<lparr> teams := mset_at i ((apply_team_change change t) \<lparr> t_updatedAt := now, t_version := t_version t + 1 \<rparr>) (teams s) \<rparr>"
      "mget (teams s) i = Some t" "t_organizationId t = og" "t_status t = TActive"
      "\<And>v. ut_expectedVersion input = Some v \<Longrightarrow> t_version t = v"
      "\<And>x. x \<in> set (mvals (teams s)) \<Longrightarrow> t_organizationId x = og \<Longrightarrow> t_id x \<noteq> i \<Longrightarrow> ut_slug change \<noteq> Some (t_slug x) \<and>
         (t_externalId x = None \<or> ut_externalId change \<noteq> Some (t_externalId x))"
      "\<And>p. ut_parentId change = Some (Some p) \<Longrightarrow> t_parentId t = Some p \<or> checkPlacement s og (Some i) p = Inr ()"
      "authorizes issued now auth og TeamUpdate"
proof (cases "snd (team_update issued now auth og i input s) = s")
  case False
  let ?a = "assertTeamAuthorization issued now auth og TeamUpdate None"
  obtain u where a: "?a = Inr u" using False by (cases ?a) (simp_all add: team_update_def)
  obtain t where t: "requireTeam s og i = Inr t" using False a by (cases "requireTeam s og i") (simp_all add: team_update_def)
  obtain change where ch: "assertValidUpdateTeam input = Inr change" using False a t by (cases "assertValidUpdateTeam input") (simp_all add: team_update_def)
  let ?v = "assertTeamVersion (t_version t) (ut_expectedVersion input) ''team_version_conflict''"
  obtain w where v: "?v = Inr w" using False a t ch by (cases ?v) (simp_all add: team_update_def)
  define others where "others = filter (\<lambda>x. t_id x \<noteq> i) (in_organization s og)"
  let ?S = "ut_slug change \<noteq> None \<and> list_ex (\<lambda>x. Some (t_slug x) = ut_slug change) others"
    and ?E = "case ut_externalId change of Some (Some e) \<Rightarrow> list_ex (\<lambda>x. t_externalId x = Some e) others | _ \<Rightarrow> False"
    and ?P = "case ut_parentId change of Some (Some p) \<Rightarrow> if t_parentId t = Some p then Inr () else checkPlacement s og (Some i) p | _ \<Rightarrow> Inr ()"
  let ?saved = "(apply_team_change change t) \<lparr> t_updatedAt := now, t_version := t_version t + 1 \<rparr>"
  have eq: "snd (team_update issued now auth og i input s) = (if t_status t = TArchived \<or> ?S \<or> ?E then s
     else snd (guard ?P (\<lambda>_ s. if same_team (apply_team_change change t) t then returns t s
       else returns ?saved (s \<lparr> teams := mset_at i ?saved (teams s) \<rparr>)) s))"
    using a t ch v unfolding others_def team_update_def Let_def by auto
  then have no: "t_status t \<noteq> TArchived" "\<not> ?S" "\<not> ?E" using False by presburger+
  have P: "?P = Inr ()" using False eq by (cases ?P) (simp_all split: if_split_asm)
  have cond: "\<not> (t_status t = TArchived \<or> ?S \<or> ?E)" using no by blast
  have "snd (team_update issued now auth og i input s) = (if same_team (apply_team_change change t) t then s else s \<lparr> teams := mset_at i ?saved (teams s) \<rparr>)"
    unfolding eq if_not_P[OF cond] P by simp
  then have "snd (team_update issued now auth og i input s) = s \<lparr> teams := mset_at i ?saved (teams s) \<rparr>"
    using False by presburger
  then show ?thesis
  proof (rule changed)
    show "mget (teams s) i = Some t" "t_organizationId t = og" using t by (simp_all add: requireTeam_iff)
    show "t_status t = TActive" using no(1) by (cases "t_status t") simp_all
    show "t_version t = x" if "ut_expectedVersion input = Some x" for x using assertTeamVersion_Inr v that by simp
    show "authorizes issued now auth og TeamUpdate" by (rule assertTeamAuthorization_Inr[OF a])
    show "t_parentId t = Some p \<or> checkPlacement s og (Some i) p = Inr ()" if "ut_parentId change = Some (Some p)" for p
      using P that by (simp split: if_split_asm)
    fix x assume "x \<in> set (mvals (teams s))" "t_organizationId x = og" "t_id x \<noteq> i"
    then have x: "x \<in> set others" by (simp add: others_def in_organization_def)
    show "ut_slug change \<noteq> Some (t_slug x) \<and> (t_externalId x = None \<or> ut_externalId change \<noteq> Some (t_externalId x))"
      using no(2,3) x by (auto simp: list_ex_iff split: option.splits)
  qed
qed (rule refused)

lemma team_update_ok:
  assumes ok: "teams_ok s"
  shows "teams_ok (snd (team_update issued now auth og i input s))"
proof (cases rule: team_update_cases[of issued now auth og i input s])
  case refused
  then show ?thesis using ok by simp
next
  case (changed t change)
  note t = changed(2,3)
  have id: "t_id t = i" by (rule team_id[OF ok t(1)])
  let ?n = "(apply_team_change change t) \<lparr> t_updatedAt := now, t_version := t_version t + 1 \<rparr>"
  have n: "t_id ?n = i" "t_organizationId ?n = og" "t_status ?n = TActive" "t_parentId ?n = or_keep (t_parentId t) (ut_parentId change)"
    "t_slug ?n = or_keep (t_slug t) (ut_slug change)" "t_externalId ?n = or_keep (t_externalId t) (ut_externalId change)"
    using id t changed(4) by (simp_all add: apply_team_change_def)
  have place: "t_parentId t = Some p \<or> checkPlacement s og (Some i) p = Inr ()" if "t_parentId ?n = Some p" for p
    using that changed(7)[of p] unfolding n(4) or_keep_def by (cases "ut_parentId change") auto
  have own: "t_slug x \<noteq> t_slug t \<and> (t_externalId t = None \<or> t_externalId x \<noteq> t_externalId t)"
    if "x \<in> set (mvals (teams s))" "t_organizationId x = og" "t_id x \<noteq> i" for x
    using ok that t mget_in_mvals[OF t(1)] id unfolding teams_ok_def teams_unique_def by metis
  have "teams_ok (s \<lparr> teams := mset_at i ?n (teams s) \<rparr>)"
  proof (rule put_team_ok[OF ok n(1)])
    show "forest MAX_TEAM_DEPTH ((team_parent s)(i \<mapsto> t_parentId ?n))"
    proof (cases "t_parentId ?n")
      case None
      then show ?thesis using forest_detach[OF team_tree.forest_inv[OF ok]] by (simp add: MAX_TEAM_DEPTH_def)
    next
      case (Some p)
      from place[OF Some] show ?thesis
      proof
        assume "t_parentId t = Some p"
        then have "(team_parent s)(i \<mapsto> t_parentId ?n) = team_parent s" using Some team_parent_get[OF t(1)] by (auto simp del: n)
        then show ?thesis using team_tree.forest_inv[OF ok] by simp
      next
        assume "checkPlacement s og (Some i) p = Inr ()"
        from move_forest[OF ok t this] show ?thesis unfolding Some .
      qed
    qed
    show "t_slug x \<noteq> t_slug ?n \<and> (t_externalId ?n = None \<or> t_externalId x \<noteq> t_externalId ?n)"
      if x: "x \<in> set (mvals (teams s))" "t_organizationId x = t_organizationId ?n" "t_id x \<noteq> i" for x
    proof -
      have og: "t_organizationId x = og" using x(2) n(2) by simp
      from own[OF x(1) og x(3)] changed(6)[OF x(1) og x(3)] show ?thesis
        unfolding n(5,6) or_keep_def by (auto split: option.splits)
    qed
    show "parent_ok ?n q" if p: "t_parentId ?n = Some p" "mget (teams s) p = Some q" for p q
    proof -
      have "t_organizationId q = og \<and> t_status q = TActive"
        using place[OF p(1)]
      proof
        assume "t_parentId t = Some p"
        from parent_team[OF ok t(1) this] p(2) show ?thesis using t(2) changed(4) by (metis option.inject parent_ok_def)
      next
        assume "checkPlacement s og (Some i) p = Inr ()"
        from placement_facts[OF ok this] p(2) show ?thesis by (metis option.inject)
      qed
      then show ?thesis using n by (simp add: parent_ok_def)
    qed
    show "parent_ok x ?n" if x: "x \<in> set (mvals (teams s))" "t_parentId x = Some i" for x
    proof -
      have "mget (teams s) (t_id x) = Some x" by (rule team_vals[OF ok x(1)])
      from parent_team[OF ok this x(2)] t have "t_organizationId x = og" by (metis option.inject parent_ok_def)
      then show ?thesis using n by (simp add: parent_ok_def)
    qed
  qed
  then show ?thesis using changed(1) by simp
qed

text \<open>Archiving and restoring change the status of one team; what hangs around it decides.\<close>

lemma status_change_ok:
  assumes ok: "teams_ok s" and t: "mget (teams s) i = Some t"
    and n: "t_id n = t_id t" "t_organizationId n = t_organizationId t" "t_parentId n = t_parentId t" "t_slug n = t_slug t" "t_externalId n = t_externalId t"
    and up: "\<And>p q. t_parentId t = Some p \<Longrightarrow> mget (teams s) p = Some q \<Longrightarrow> t_status n = TActive \<Longrightarrow> t_status q = TActive"
    and down: "\<And>x. x \<in> set (mvals (teams s)) \<Longrightarrow> t_parentId x = Some i \<Longrightarrow> t_organizationId x = t_organizationId t \<Longrightarrow> t_status x = TActive \<Longrightarrow> t_status n = TActive"
  shows "teams_ok (s \<lparr> teams := mset_at i n (teams s) \<rparr>)"
proof (rule put_team_ok[OF ok])
  have id: "t_id t = i" by (rule team_id[OF ok t])
  then show "t_id n = i" using n by simp
  have "(team_parent s)(i \<mapsto> t_parentId n) = team_parent s" using n(3) team_parent_get[OF t] by (auto simp del: n)
  then show "forest MAX_TEAM_DEPTH ((team_parent s)(i \<mapsto> t_parentId n))" using team_tree.forest_inv[OF ok] by simp
  show "t_slug x \<noteq> t_slug n \<and> (t_externalId n = None \<or> t_externalId x \<noteq> t_externalId n)"
    if "x \<in> set (mvals (teams s))" "t_organizationId x = t_organizationId n" "t_id x \<noteq> i" for x
    using ok that n id mget_in_mvals[OF t] unfolding teams_ok_def teams_unique_def by metis
  show "parent_ok n q" if "t_parentId n = Some p" "mget (teams s) p = Some q" for p q
  proof -
    have "t_parentId t = Some p" using that(1) n(3) by simp
    from parent_team[OF ok t this] that(2) have "t_organizationId q = t_organizationId t" by (metis option.inject parent_ok_def)
    then show ?thesis using up[OF \<open>t_parentId t = Some p\<close> that(2)] n(2) by (simp add: parent_ok_def)
  qed
  show "parent_ok x n" if "x \<in> set (mvals (teams s))" "t_parentId x = Some i" for x
  proof -
    from parent_team[OF ok team_vals[OF ok that(1)] that(2)] t have "t_organizationId x = t_organizationId t" by (metis option.inject parent_ok_def)
    then show ?thesis using down[OF that] n(2) by (simp add: parent_ok_def)
  qed
qed

lemma childrenOf_iff: "x \<in> set (childrenOf s og i) \<longleftrightarrow> x \<in> set (mvals (teams s)) \<and> t_organizationId x = og \<and> t_parentId x = Some i"
  by (auto simp: childrenOf_def)

lemma team_archive_ok:
  assumes ok: "teams_ok s"
  shows "teams_ok (snd (team_archive issued now auth og i actor reason expected s))"
proof (cases "assertTeamAuthorization issued now auth og TeamArchive (Some actor)")
  case a: (Inr u)
  show ?thesis
  proof (cases "requireTeam s og i")
    case t: (Inr t)
    then have t': "mget (teams s) i = Some t" "t_organizationId t = og" by (simp_all add: requireTeam_iff)
    show ?thesis
    proof (cases "assertTeamVersion (t_version t) expected ''team_version_conflict''")
      case v: (Inr w)
      show ?thesis
      proof (cases "t_status t = TArchived \<or> list_ex (\<lambda>c. t_status c = TActive) (childrenOf s og i)")
        case True
        then show ?thesis using ok a t v by (auto simp: team_archive_def)
      next
        case False
        then have "t_status x \<noteq> TActive" if "x \<in> set (mvals (teams s))" "t_parentId x = Some i" "t_organizationId x = t_organizationId t" for x
          using that t'(2) by (auto simp: list_ex_iff childrenOf_iff)
        then show ?thesis using False a t v by (auto simp: team_archive_def Let_def intro!: status_change_ok[OF ok t'(1)])
      qed
    qed (use ok a t in \<open>simp add: team_archive_def\<close>)
  qed (use ok a in \<open>simp add: team_archive_def\<close>)
qed (use ok in \<open>simp add: team_archive_def\<close>)

lemma team_restore_ok:
  assumes ok: "teams_ok s"
  shows "teams_ok (snd (team_restore issued now auth og i actor expected s))"
proof (cases "assertTeamAuthorization issued now auth og TeamRestore (Some actor)")
  case a: (Inr u)
  show ?thesis
  proof (cases "requireTeam s og i")
    case t: (Inr t)
    then have t': "mget (teams s) i = Some t" "t_organizationId t = og" by (simp_all add: requireTeam_iff)
    show ?thesis
    proof (cases "assertTeamVersion (t_version t) expected ''team_version_conflict''")
      case v: (Inr w)
      let ?P = "case t_parentId t of None \<Rightarrow> False | Some p \<Rightarrow> map_option t_status (teamOf s og p) \<noteq> Some TActive"
      show ?thesis
      proof (cases "t_status t = TActive \<or> ?P")
        case True
        then show ?thesis using ok a t v by (auto simp: team_restore_def)
      next
        case False
        have "t_status q = TActive" if "t_parentId t = Some p" "mget (teams s) p = Some q" for p q
          using False that by (auto simp: teamOf_def split: option.splits if_splits)
        then show ?thesis using False a t v by (auto simp: team_restore_def Let_def intro!: status_change_ok[OF ok t'(1)])
      qed
    qed (use ok a t in \<open>simp add: team_restore_def\<close>)
  qed (use ok a in \<open>simp add: team_restore_def\<close>)
qed (use ok in \<open>simp add: team_restore_def\<close>)

lemma teams_unique_mono: "teams_unique s \<Longrightarrow> set (mvals (teams s')) \<subseteq> set (mvals (teams s)) \<Longrightarrow> teams_unique s'"
  unfolding teams_unique_def by (meson subsetD)

lemma team_delete_ok:
  assumes ok: "teams_ok s"
  shows "teams_ok (snd (team_delete issued now auth og i s))"
proof (cases "assertTeamAuthorization issued now auth og TeamDelete None")
  case a: (Inr u)
  show ?thesis
  proof (cases "requireTeam s og i")
    case t: (Inr t)
    then have t': "mget (teams s) i = Some t" "t_organizationId t = og" by (simp_all add: requireTeam_iff)
    let ?s' = "s \<lparr> teams := mdel i (teams s), teamMemberships := mfilter (\<lambda>row. tm_teamId row \<noteq> i) (teamMemberships s) \<rparr>"
    have keyed: "keyed t_id (teams s)" using ok by (simp add: teams_ok_def)
    show ?thesis
    proof (cases "t_status t \<noteq> TArchived \<or> childrenOf s og i \<noteq> []")
      case False
      have leaf: "team_parent s x \<noteq> Some (Some i)" for x
      proof
        assume "team_parent s x = Some (Some i)"
        then obtain tx where x: "mget (teams s) x = Some tx" "t_parentId tx = Some i" by (auto simp: team_parent_ex)
        from parent_team[OF ok x] t' have "t_organizationId tx = og" by (metis option.inject parent_ok_def)
        then have "tx \<in> set (childrenOf s og i)" using mget_in_mvals[OF x(1)] x(2) by (simp add: childrenOf_iff)
        then show False using False by simp
      qed
      have "team_parent ?s' = (team_parent s)(i := None)" by (rule ext) (simp add: team_parent_def)
      then have "forest MAX_TEAM_DEPTH (team_parent ?s')" using forest_delete[OF team_tree.forest_inv[OF ok] leaf] by simp
      moreover have "set (mvals (mdel i (teams s))) \<subseteq> set (mvals (teams s))" using keyed_vals_delete[OF keyed] by blast
      then have "teams_unique ?s'" using ok teams_unique_mono[of s ?s'] by (simp add: teams_ok_def)
      moreover have "\<forall>k t p q. mget (teams ?s') k = Some t \<longrightarrow> t_parentId t = Some p \<longrightarrow> mget (teams ?s') p = Some q \<longrightarrow> parent_ok t q"
        using ok unfolding teams_ok_def by simp
      ultimately have "teams_ok ?s'" using keyed_delete[OF keyed] by (simp add: teams_ok_def)
      then show ?thesis using False a t by (simp add: team_delete_def)
    qed (use ok a t in \<open>auto simp: team_delete_def\<close>)
  qed (use ok a in \<open>simp add: team_delete_def\<close>)
qed (use ok in \<open>simp add: team_delete_def\<close>)

text \<open>One call of a team operation: with the tokens issued so far, at a time, with a token or none.\<close>

datatype team_cmd = TmCreate create_team | TmUpdate string string update_team
  | TmArchive string string identity "string option" "int option" | TmRestore string string identity "int option" | TmDelete string string

fun team_exec :: "token_registry \<times> timestamp \<times> nat option \<times> team_cmd \<Rightarrow> store \<Rightarrow> store" where
  "team_exec (issued, now, auth, TmCreate input) s = snd (team_create issued now auth input s)"
| "team_exec (issued, now, auth, TmUpdate og i input) s = snd (team_update issued now auth og i input s)"
| "team_exec (issued, now, auth, TmArchive og i actor reason e) s = snd (team_archive issued now auth og i actor reason e s)"
| "team_exec (issued, now, auth, TmRestore og i actor e) s = snd (team_restore issued now auth og i actor e s)"
| "team_exec (issued, now, auth, TmDelete og i) s = snd (team_delete issued now auth og i s)"

lemma team_exec_ok:
  assumes "teams_ok s"
  shows "teams_ok (team_exec c s)"
proof -
  obtain issued now auth d where "c = (issued, now, auth, d)" by (rule prod_cases4)
  then show ?thesis using assms
    by (cases d) (simp_all add: team_create_ok team_update_ok team_archive_ok team_restore_ok team_delete_ok)
qed

lemma team_run_ok: "teams_ok s \<Longrightarrow> teams_ok (fold team_exec cmds s)"
  by (induction cmds arbitrary: s) (simp_all add: team_exec_ok)

lemma teams_ok_empty: "teams s = [] \<Longrightarrow> teams_ok s"
  by (simp add: teams_ok_def forest_def team_parent_def teams_unique_def)

section \<open>The teams below\<close>

definition below :: "store \<Rightarrow> string \<Rightarrow> team \<Rightarrow> bool" where
  "below s i x \<longleftrightarrow> x \<in> set (mvals (teams s)) \<and> (\<exists>j. up (team_parent s) (Suc j) (t_id x) = Some i)"

definition desc_inv :: "store \<Rightarrow> string \<Rightarrow> string \<Rightarrow> team list \<Rightarrow> team list \<Rightarrow> bool" where
  "desc_inv s og i found queue \<longleftrightarrow> distinct (map t_id (found @ queue)) \<and>
     (\<forall>x \<in> set (found @ queue). below s i x \<and> t_organizationId x = og \<and> (\<exists>p. t_parentId x = Some p \<and> (p = i \<or> p \<in> t_id ` set found))) \<and>
     (\<forall>c \<in> set (mvals (teams s)). t_organizationId c = og \<longrightarrow> t_parentId c = Some i \<or> (\<exists>p. t_parentId c = Some p \<and> p \<in> t_id ` set found) \<longrightarrow> c \<in> set (found @ queue))"

lemma up_child: "teams_ok s \<Longrightarrow> x \<in> set (mvals (teams s)) \<Longrightarrow> t_parentId x = Some p \<Longrightarrow> up (team_parent s) (Suc j) (t_id x) = up (team_parent s) j p"
  using team_vals team_parent_get by fastforce

lemma desc_inv_length:
  assumes ok: "teams_ok s" and inv: "desc_inv s og i found (next # queue)"
  shows "length found < length (teams s)"
proof -
  have "below s i x" if "x \<in> set (found @ next # queue)" for x using inv that unfolding desc_inv_def by blast
  then have sub: "set (found @ next # queue) \<subseteq> set (mvals (teams s))" unfolding below_def by blast
  have "distinct (map t_id (found @ next # queue))" using inv by (simp add: desc_inv_def)
  then have "length (found @ next # queue) = card (set (map t_id (found @ next # queue)))" using distinct_card by (metis length_map)
  also have "\<dots> \<le> card (t_id ` set (mvals (teams s)))"
    by (rule card_mono) (simp, unfold set_map, rule image_mono, rule sub)
  also have "\<dots> \<le> length (teams s)" using card_image_le[of "set (mvals (teams s))" t_id] card_length[of "mvals (teams s)"] by (simp add: mvals_def)
  finally show ?thesis by simp
qed

lemma desc_inv_step:
  assumes ok: "teams_ok s" and inv: "desc_inv s og i found (next # queue)"
  shows "desc_inv s og i (found @ [next]) (queue @ childrenOf s og (t_id next))"
proof -
  have keyed: "keyed t_id (teams s)" using ok by (simp add: teams_ok_def)
  have n: "below s i next" "t_organizationId next = og" "distinct (map t_id (found @ next # queue))" using inv by (simp_all add: desc_inv_def)
  have ni: "t_id next \<noteq> i"
    using n(1) team_tree.acyclic[OF ok] unfolding below_def by metis
  have fresh: "x \<notin> set (found @ next # queue)" if x: "x \<in> set (childrenOf s og (t_id next))" for x
  proof
    assume "x \<in> set (found @ next # queue)"
    then obtain p where "t_parentId x = Some p" "p = i \<or> p \<in> t_id ` set found" using inv unfolding desc_inv_def by blast
    then have "t_id next \<in> t_id ` set found" using x ni by (auto simp: childrenOf_iff)
    then show False using n(3) by auto
  qed
  have ids: "t_id x \<noteq> t_id y" if "x \<in> set (childrenOf s og (t_id next))" "y \<in> set (found @ next # queue)" for x y
  proof
    assume eq: "t_id x = t_id y"
    have "below s i y" using that(2) inv unfolding desc_inv_def by blast
    then have "y \<in> set (mvals (teams s))" by (simp add: below_def)
    moreover have "x \<in> set (mvals (teams s))" using that(1) by (simp add: childrenOf_iff)
    ultimately have "x = y" using team_vals[OF ok] eq by (metis option.inject)
    then show False using fresh that by blast
  qed
  have dc: "distinct (map t_id (childrenOf s og (t_id next)))"
    using distinct_mvals_ident[OF keyed] by (simp add: childrenOf_def distinct_map_filter)
  have "t_id ` set (found @ next # queue) \<inter> t_id ` set (childrenOf s og (t_id next)) = {}"
  proof (rule equals0I)
    fix z assume "z \<in> t_id ` set (found @ next # queue) \<inter> t_id ` set (childrenOf s og (t_id next))"
    then obtain x y where "x \<in> set (childrenOf s og (t_id next))" "y \<in> set (found @ next # queue)" "t_id x = t_id y"
      by (elim IntE imageE) metis
    then show False using ids by blast
  qed
  then have "distinct (map t_id ((found @ next # queue) @ childrenOf s og (t_id next)))"
    unfolding map_append[of t_id "found @ next # queue"] distinct_append set_map using n(3) dc by blast
  then have d: "distinct (map t_id ((found @ [next]) @ queue @ childrenOf s og (t_id next)))" by simp
  have e: "below s i x \<and> t_organizationId x = og \<and> (\<exists>p. t_parentId x = Some p \<and> (p = i \<or> p \<in> t_id ` set (found @ [next])))"
    if "x \<in> set ((found @ [next]) @ queue @ childrenOf s og (t_id next))" for x
  proof (cases "x \<in> set (found @ next # queue)")
    case True
    then have "below s i x \<and> t_organizationId x = og \<and> (\<exists>p. t_parentId x = Some p \<and> (p = i \<or> p \<in> t_id ` set found))"
      using inv unfolding desc_inv_def by blast
    then show ?thesis by auto
  next
    case False
    then have x: "x \<in> set (mvals (teams s))" "t_organizationId x = og" "t_parentId x = Some (t_id next)" using that by (auto simp: childrenOf_iff)
    obtain j where "up (team_parent s) (Suc j) (t_id next) = Some i" using n(1) by (auto simp: below_def)
    then have "up (team_parent s) (Suc (Suc j)) (t_id x) = Some i" using up_child[OF ok x(1,3)] by (simp del: up.simps)
    then show ?thesis using x unfolding below_def by auto
  qed
  have cl: "c \<in> set ((found @ [next]) @ queue @ childrenOf s og (t_id next))"
    if "c \<in> set (mvals (teams s))" "t_organizationId c = og" "t_parentId c = Some i \<or> (\<exists>p. t_parentId c = Some p \<and> p \<in> t_id ` set (found @ [next]))" for c
  proof (cases "t_parentId c = Some (t_id next)")
    case True
    then show ?thesis using that by (simp add: childrenOf_iff)
  next
    case False
    then have "t_parentId c = Some i \<or> (\<exists>p. t_parentId c = Some p \<and> p \<in> t_id ` set found)" using that(3) by auto
    then have "c \<in> set (found @ next # queue)" using inv that(1,2) unfolding desc_inv_def by blast
    then show ?thesis by auto
  qed
  show ?thesis unfolding desc_inv_def using d e cl by blast
qed

lemma desc_loop_done: "teams_ok s \<Longrightarrow> desc_inv s og i found queue \<Longrightarrow> desc_inv s og i (desc_loop s og found queue) []"
proof (induction s og found queue rule: desc_loop.induct)
  case (2 s og found "next" queue)
  show ?case using desc_inv_length[OF 2(2,3)] "2.IH"[OF _ 2(2) desc_inv_step[OF 2(2,3)]] by simp
qed simp

lemma desc_inv_init:
  assumes ok: "teams_ok s"
  shows "desc_inv s og i [] (childrenOf s og i)"
proof -
  have keyed: "keyed t_id (teams s)" using ok by (simp add: teams_ok_def)
  have d: "distinct (map t_id (childrenOf s og i))" using distinct_mvals_ident[OF keyed] by (simp add: childrenOf_def distinct_map_filter)
  have b: "below s i x" if "x \<in> set (childrenOf s og i)" for x
  proof -
    have x: "x \<in> set (mvals (teams s))" "t_parentId x = Some i" using that by (simp_all add: childrenOf_iff)
    have "up (team_parent s) (Suc 0) (t_id x) = Some i" using up_child[OF ok x, of 0] by simp
    then show ?thesis using x(1) unfolding below_def by blast
  qed
  show ?thesis unfolding desc_inv_def using d b by (auto simp: childrenOf_iff)
qed

lemma descendants_below:
  assumes ok: "teams_ok s" and t: "mget (teams s) i = Some t" "t_organizationId t = og"
  shows "distinct (map t_id (descendantsOf s og i))" and "x \<in> set (descendantsOf s og i) \<longleftrightarrow> below s i x"
proof -
  have inv: "desc_inv s og i (descendantsOf s og i) []"
    unfolding descendantsOf_def by (rule desc_loop_done[OF ok desc_inv_init[OF ok]])
  then show "distinct (map t_id (descendantsOf s og i))" by (simp add: desc_inv_def)
  have closed: "c \<in> set (descendantsOf s og i)"
    if "c \<in> set (mvals (teams s))" "t_organizationId c = og" "t_parentId c = Some i \<or> (\<exists>p. t_parentId c = Some p \<and> p \<in> t_id ` set (descendantsOf s og i))" for c
    using inv that unfolding desc_inv_def by (metis append_Nil2)
  have "x \<in> set (mvals (teams s)) \<Longrightarrow> up (team_parent s) (Suc j) (t_id x) = Some i \<Longrightarrow> x \<in> set (descendantsOf s og i) \<and> t_organizationId x = og" for j x
  proof (induction j arbitrary: x)
    case 0
    note m = team_vals[OF ok 0(1)]
    have p: "t_parentId x = Some i" using 0(2) team_parent_get[OF m] by (auto split: option.splits)
    from parent_team[OF ok m p] t have "t_organizationId x = og" by (metis option.inject parent_ok_def)
    then show ?case using closed[OF 0(1)] p by blast
  next
    case (Suc j)
    note m = team_vals[OF ok Suc.prems(1)]
    obtain p where p: "t_parentId x = Some p" using Suc.prems(2) team_parent_get[OF m] by (auto split: option.splits)
    obtain q where q: "mget (teams s) p = Some q" "parent_ok x q" by (rule parent_team[OF ok m p])
    have "up (team_parent s) (Suc j) (t_id q) = Some i"
      using Suc.prems(2) up_child[OF ok Suc.prems(1) p, of "Suc j"] team_id[OF ok q(1)] by (simp del: up.simps)
    from Suc.IH[OF mget_in_mvals[OF q(1)] this] have q': "q \<in> set (descendantsOf s og i)" "t_organizationId q = og" by auto
    have "p \<in> t_id ` set (descendantsOf s og i)" using q'(1) team_id[OF ok q(1)] by (metis imageI)
    moreover have "t_organizationId x = og" using q(2) q'(2) by (simp add: parent_ok_def)
    ultimately show ?case using closed[OF Suc.prems(1)] p by blast
  qed
  moreover have "x \<in> set (descendantsOf s og i) \<Longrightarrow> below s i x" using inv unfolding desc_inv_def by simp
  ultimately show "x \<in> set (descendantsOf s og i) \<longleftrightarrow> below s i x" unfolding below_def by blast
qed

section \<open>Versions and authorization\<close>

interpretation teamv: versioned "\<lambda>s i. mget (teams s) i" t_version
  "\<lambda>(issued, now, auth, og, input) e i s. team_update issued now auth og i (input \<lparr> ut_expectedVersion := e \<rparr>) s"
proof unfold_locales
  fix s k r and i :: "token_registry \<times> timestamp \<times> nat option \<times> string \<times> update_team" and v a
  assume r: "mget (teams s) k = Some r"
    and ok: "fst ((\<lambda>(issued, now, auth, og, input) e i s. team_update issued now auth og i (input \<lparr> ut_expectedVersion := e \<rparr>) s) i (Some v) k s) = Inr a"
  obtain issued now auth og input where i: "i = (issued, now, auth, og, input)" by (rule prod_cases5)
  let ?in = "input \<lparr> ut_expectedVersion := Some v \<rparr>"
  from ok have ok': "fst (team_update issued now auth og k ?in s) = Inr a" using i by simp
  obtain t where t: "requireTeam s og k = Inr t" "fst (guard (assertTeamVersion (t_version t) (Some v) ''team_version_conflict'') (\<lambda>_. returns ()) s) = Inr ()"
    using ok' unfolding team_update_def by (auto simp: guard_ok)
  then have "t_version t = v" using assertTeamVersion_Inr by (auto simp: guard_ok)
  then show "t_version r = v" using t(1) r by (simp add: requireTeam_iff)
next
  fix s k r r' and i :: "token_registry \<times> timestamp \<times> nat option \<times> string \<times> update_team" and e
  assume r: "mget (teams s) k = Some r" "r' \<noteq> r"
    "mget (teams (snd ((\<lambda>(issued, now, auth, og, input) e i s. team_update issued now auth og i (input \<lparr> ut_expectedVersion := e \<rparr>) s) i e k s))) k = Some r'"
  obtain issued now auth og input where i: "i = (issued, now, auth, og, input)" by (rule prod_cases5)
  show "t_version r' = t_version r + 1"
  proof (cases rule: team_update_cases[of issued now auth og k "input \<lparr> ut_expectedVersion := e \<rparr>" s])
    case refused
    then show ?thesis using r i by simp
  next
    case (changed t change)
    have "r = t" using r(1) changed(2) by simp
    moreover have "r' = (apply_team_change change t) \<lparr> t_updatedAt := now, t_version := t_version t + 1 \<rparr>"
      using r(3) unfolding i prod.case changed(1) by simp
    ultimately show ?thesis by simp
  qed
qed

fun cmd_target :: "team_cmd \<Rightarrow> string \<times> team_operation" where
  "cmd_target (TmCreate input) = (ct_organizationId input, TeamCreate)"
| "cmd_target (TmUpdate og i input) = (og, TeamUpdate)"
| "cmd_target (TmArchive og i actor reason e) = (og, TeamArchive)"
| "cmd_target (TmRestore og i actor e) = (og, TeamRestore)"
| "cmd_target (TmDelete og i) = (og, TeamDelete)"

lemma unauthorized_refused:
  assumes "\<not> authorizes issued now auth (fst (cmd_target c)) (snd (cmd_target c))"
  shows "team_exec (issued, now, auth, c) s = s"
proof -
  have "assertTeamAuthorization issued now auth (fst (cmd_target c)) (snd (cmd_target c)) actor =
      Inl (teamErr ''team_authorization_required'')" for actor
    using assms assertTeamAuthorization_Inr assertTeamAuthorization_Inl
    by (cases "assertTeamAuthorization issued now auth (fst (cmd_target c)) (snd (cmd_target c)) actor") metis+
  then show ?thesis
    by (cases c) (simp_all add: team_create_def team_update_def team_archive_def team_restore_def team_delete_def)
qed

section \<open>Properties\<close>

text \<open>
  C39: the teams form a sound tree.  After any sequence of team operations every team reaches a top-level team
  within \<open>MAX_TEAM_DEPTH\<close> levels, none is above itself, a parent is a team of the same organization, and no active
  team hangs below an archived one.
\<close>

theorem teams_tree_sound:
  assumes "teams s0 = []" "s = fold team_exec cmds s0" "mget (teams s) k = Some t"
  shows "within (team_parent s) MAX_TEAM_DEPTH k \<and> up (team_parent s) (Suc j) k \<noteq> Some k \<and>
    (t_parentId t = None \<or> (\<exists>p q. t_parentId t = Some p \<and> mget (teams s) p = Some q \<and> t_organizationId q = t_organizationId t \<and>
       (t_status t = TArchived \<or> t_status q = TActive)))"
proof -
  have ok: "teams_ok s" unfolding assms(2) by (rule team_run_ok[OF teams_ok_empty[OF assms(1)]])
  have "t_parentId t = None \<or> (\<exists>p q. t_parentId t = Some p \<and> mget (teams s) p = Some q \<and> t_organizationId q = t_organizationId t \<and>
       (t_status t = TArchived \<or> t_status q = TActive))"
  proof (cases "t_parentId t")
    case (Some p)
    obtain q where q: "mget (teams s) p = Some q" "parent_ok t q" by (rule parent_team[OF ok assms(3) Some])
    have "t_status t = TArchived \<or> t_status q = TActive" using q(2) by (cases "t_status t") (auto simp: parent_ok_def)
    then show ?thesis using Some q unfolding parent_ok_def by blast
  qed simp
  then show ?thesis using team_within[OF ok assms(3)] team_tree.acyclic[OF ok, of j k] by blast
qed

text \<open>
  The walks are exact.  After any sequence of team operations \<open>descendants\<close> lists each team below exactly
  once and nothing else, and \<open>ancestors\<close> the chain of parents from the top, so the bounds in the walks never cut.
\<close>

theorem team_walks_exact:
  assumes "teams s0 = []" "s = fold team_exec cmds s0" "requireTeam s og i = Inr t"
  shows "\<exists>ds as. team_descendants s og i = Inr ds \<and> team_ancestors s og i = Inr as \<and> distinct (map t_id ds) \<and>
    set ds = {x \<in> set (mvals (teams s)). \<exists>j. up (team_parent s) (Suc j) (t_id x) = Some i} \<and>
    map t_id as @ [i] = rev (path (team_parent s) MAX_TEAM_DEPTH i)"
proof -
  have ok: "teams_ok s" unfolding assms(2) by (rule team_run_ok[OF teams_ok_empty[OF assms(1)]])
  have t: "mget (teams s) i = Some t" "t_organizationId t = og" using assms(3) by (simp_all add: requireTeam_iff)
  let ?ds = "sort_by (\<lambda>a b. t_id a < t_id b) (descendantsOf s og i)"
  have "distinct (map t_id ?ds)" using descendants_below(1)[OF ok t] distinct_map_sort_by by blast
  moreover have "set ?ds = {x \<in> set (mvals (teams s)). \<exists>j. up (team_parent s) (Suc j) (t_id x) = Some i}"
    using descendants_below(2)[OF ok t] unfolding below_def by (auto simp del: up.simps)
  moreover have "map t_id (ancestorsOf s og i) @ [i] = rev (path (team_parent s) MAX_TEAM_DEPTH i)"
    using ancestors_path[OF ok t] path_Cons[OF team_within[OF ok t(1)]] by (metis rev.simps(2))
  ultimately show ?thesis using assms(3)
    by (intro exI[of _ ?ds] exI[of _ "ancestorsOf s og i"]) (simp add: team_descendants_def team_ancestors_def del: up.simps)
qed

text \<open>
  In an organization two teams never share a slug or an external id, after any sequence of team operations.
\<close>

theorem team_handles_unique:
  assumes "teams s0 = []" "s = fold team_exec cmds s0" "mget (teams s) i = Some a" "mget (teams s) j = Some b"
    and "t_organizationId a = t_organizationId b" "t_slug a = t_slug b \<or> (t_externalId a \<noteq> None \<and> t_externalId a = t_externalId b)"
  shows "i = j"
proof -
  have ok: "teams_ok s" unfolding assms(2) by (rule team_run_ok[OF teams_ok_empty[OF assms(1)]])
  have "t_id a = t_id b" using ok mget_in_mvals[OF assms(3)] mget_in_mvals[OF assms(4)] assms(5,6)
    unfolding teams_ok_def teams_unique_def by blast
  then show ?thesis using team_id[OF ok assms(3)] team_id[OF ok assms(4)] by simp
qed

text \<open>
  C40: no team changes without authorization.  A team operation that changes the storage was given a token
  that was issued, has not expired, and covers that organization and that operation.
\<close>

theorem team_changes_authorized:
  assumes "team_exec (issued, now, auth, c) s \<noteq> s"
  shows "\<exists>ref token. auth = Some ref \<and> mget issued ref = Some token \<and> now \<le> tk_expiresAt token \<and>
    tk_organizationId token = fst (cmd_target c) \<and> snd (cmd_target c) \<in> set (tk_operations token)"
  using assms unauthorized_refused unfolding authorizes_def by blast

text \<open>
  An update of a team that was prepared from a version read before another change is refused.
\<close>

theorem team_no_lost_update:
  assumes "mget (teams s) k = Some r"
    and "mget (teams (snd (team_update issued now auth og k input s))) k = Some r'" "r' \<noteq> r"
  shows "\<not> is_ok (fst (team_update issued2 now2 auth2 og2 k (input2 \<lparr> ut_expectedVersion := Some (t_version r) \<rparr>)
    (snd (team_update issued now auth og k input s))))"
  using teamv.no_lost_update[of s k r "(issued, now, auth, og, input)" "ut_expectedVersion input" r' "(issued2, now2, auth2, og2, input2)"] assms
  by simp

section \<open>Witnesses\<close>

definition demo_actor :: identity where
  "demo_actor = \<lparr> provider = ''p'', subject = ''boss'' \<rparr>"

definition demo_issued :: token_registry where
  "demo_issued = issueTeamAuthorization 0 ''o1'' demo_actor [TeamCreate, TeamUpdate] False 0 []"

definition demo_team_input :: create_team where
  "demo_team_input = \<lparr> ct_id = ''t1'', ct_organizationId = ''o1'', ct_name = ''Sales'', ct_slug = Some ''sales'', ct_externalId = None,
     ct_parentId = None, ct_metadata = None, ct_settings = None, ct_now = None \<rparr>"

definition demo_team_cmds :: "(token_registry \<times> timestamp \<times> nat option \<times> team_cmd) list" where
  "demo_team_cmds = [(demo_issued, 1, Some 0, TmCreate demo_team_input),
     (demo_issued, 1, Some 0, TmCreate (demo_team_input \<lparr> ct_id := ''t2'', ct_slug := Some ''field'', ct_parentId := Some ''t1'' \<rparr>))]"

definition demo_team_base :: store where
  "demo_team_base = empty_store \<lparr> organizations := [(''o1'', \<lparr> o_id = ''o1'', o_slug = ''acme'', o_name = ''Acme'', o_createdAt = 0,
     o_status = OActive, o_version = 1, o_statusChange = None \<rparr>)] \<rparr>"

definition demo_teams :: store where
  "demo_teams = fold team_exec demo_team_cmds demo_team_base"

definition demo_rename :: update_team where
  "demo_rename = \<lparr> ut_name = Some ''Field'', ut_slug = None, ut_externalId = None, ut_parentId = None, ut_metadata = None,
     ut_settings = None, ut_expectedVersion = None \<rparr>"

lemma demo_base_empty: "teams demo_team_base = []"
  by (simp add: demo_team_base_def)

lemma demo_valid:
  "sanitizeTeamData (JObj []) = Inr (JObj [])" "sanitizeTeamName ''Sales'' = Inr ''Sales''" "sanitizeTeamName ''Field'' = Inr ''Field''"
  "resolveTeamSlug n (Some ''sales'') = Inr ''sales''" "resolveTeamSlug n (Some ''field'') = Inr ''field''"
  "assertTeamId ''o1'' = Inr ''o1''" "assertTeamId ''t1'' = Inr ''t1''" "assertTeamId ''t2'' = Inr ''t2''"
  by (simp_all add: sanitizeTeamData_def is_object_def MAX_DATA_DEPTH_def MAX_TEAM_DATA_BYTES_def utf8_length_def code_def
      sanitizeTeamName_def clean_name_def trim_def is_ws_def Let_def resolveTeamSlug_def MAX_SLUG_LENGTH_def matchesSlugPattern_def
      is_alnum_def is_lower_az_def is_digit09_def assertTeamId_def)

lemmas demo_create = team_create_def assertValidCreateTeam_def demo_team_input_def demo_valid Let_def

lemma demo_authorized:
  "assertTeamAuthorization demo_issued n (Some 0) ''o1'' TeamCreate None = (if n \<le> 60000 then Inr () else Inl (teamErr ''team_authorization_required''))"
  "assertTeamAuthorization demo_issued n (Some 0) ''o1'' TeamUpdate None = (if n \<le> 60000 then Inr () else Inl (teamErr ''team_authorization_required''))"
  by (simp_all add: assertTeamAuthorization_def demo_issued_def issueTeamAuthorization_def TTL_MS_def)

definition demo_t1 :: team where
  "demo_t1 = \<lparr> t_id = ''t1'', t_organizationId = ''o1'', t_slug = ''sales'', t_name = ''Sales'', t_status = TActive, t_parentId = None,
     t_externalId = None, t_metadata = JObj [], t_settings = JObj [], t_createdAt = 1, t_updatedAt = 1, t_archived = None, t_version = 1 \<rparr>"

definition demo_t2 :: team where
  "demo_t2 = demo_t1 \<lparr> t_id := ''t2'', t_slug := ''field'', t_parentId := Some ''t1'' \<rparr>"

lemma demo_first: "team_exec (demo_issued, 1, Some 0, TmCreate demo_team_input) demo_team_base = demo_team_base \<lparr> teams := [(''t1'', demo_t1)] \<rparr>"
  by (simp add: demo_create demo_authorized demo_team_base_def mhas_def in_organization_def put_team_def demo_t1_def)

lemma demo_second: "team_exec (demo_issued, 1, Some 0, TmCreate (demo_team_input \<lparr> ct_id := ''t2'', ct_slug := Some ''field'', ct_parentId := Some ''t1'' \<rparr>))
    (demo_team_base \<lparr> teams := [(''t1'', demo_t1)] \<rparr>) = demo_team_base \<lparr> teams := [(''t1'', demo_t1), (''t2'', demo_t2)] \<rparr>"
proof -
  have "checkPlacement (demo_team_base \<lparr> teams := [(''t1'', demo_t1)] \<rparr>) ''o1'' None ''t1'' = Inr ()"
    by (simp add: checkPlacement_def assertTeamPlacement_def teamOf_def ancestorsOf_def anc_loop.simps demo_t1_def MAX_TEAM_DEPTH_def Let_def)
  then show ?thesis
    by (simp add: demo_create demo_authorized) (simp add: demo_team_base_def mhas_def in_organization_def put_team_def demo_t1_def demo_t2_def mvals_def)
qed

lemma demo_teams_rows: "demo_teams = demo_team_base \<lparr> teams := [(''t1'', demo_t1), (''t2'', demo_t2)] \<rparr>"
  unfolding demo_teams_def demo_team_cmds_def using demo_first demo_second by simp

lemma demo_team:
  obtains t where "mget (teams demo_teams) ''t2'' = Some t" "t_parentId t = Some ''t1''" "t_organizationId t = ''o1''" "t_slug t = ''field''" "t_version t = 1"
  by (simp add: demo_teams_rows demo_t1_def demo_t2_def)

theorem teams_tree_sound_witness:
  "within (team_parent (fold team_exec demo_team_cmds demo_team_base)) MAX_TEAM_DEPTH ''t2''"
  by (rule demo_team) (use teams_tree_sound[OF demo_base_empty refl, of demo_team_cmds "''t2''"] in \<open>simp add: demo_teams_def\<close>)

theorem team_walks_exact_witness:
  "\<exists>ds as. team_descendants demo_teams ''o1'' ''t2'' = Inr ds \<and> team_ancestors demo_teams ''o1'' ''t2'' = Inr as \<and> distinct (map t_id ds) \<and>
    map t_id as @ [''t2''] = rev (path (team_parent demo_teams) MAX_TEAM_DEPTH ''t2'')"
proof (rule demo_team)
  fix t assume "mget (teams demo_teams) ''t2'' = Some t" "t_organizationId t = ''o1''"
  then have "requireTeam demo_teams ''o1'' ''t2'' = Inr t" by (simp add: requireTeam_iff)
  from team_walks_exact[OF demo_base_empty demo_teams_def this] show ?thesis by blast
qed

theorem team_handles_unique_witness:
  "\<exists>t. mget (teams demo_teams) ''t2'' = Some t \<and> t_slug t = ''field'' \<and> ''t2'' = ''t2''"
proof (rule demo_team)
  fix t assume t: "mget (teams demo_teams) ''t2'' = Some t" "t_slug t = ''field''"
  from team_handles_unique[OF demo_base_empty demo_teams_def t(1) t(1) refl] have "''t2'' = ''t2''" by blast
  with t show ?thesis by blast
qed

theorem team_changes_authorized_witness:
  "\<exists>ref token. Some 0 = Some ref \<and> mget demo_issued ref = Some token \<and> TeamCreate \<in> set (tk_operations token)"
proof -
  have "teams (team_exec (demo_issued, 1, Some 0, TmCreate demo_team_input) demo_team_base) \<noteq> teams demo_team_base"
    unfolding demo_first using demo_base_empty by simp
  then have "team_exec (demo_issued, 1, Some 0, TmCreate demo_team_input) demo_team_base \<noteq> demo_team_base" by metis
  from team_changes_authorized[OF this] show ?thesis by auto
qed

theorem team_no_lost_update_witness:
  "\<not> is_ok (fst (team_update demo_issued 2 (Some 0) ''o1'' ''t2'' (demo_rename \<lparr> ut_expectedVersion := Some 1 \<rparr>)
    (snd (team_update demo_issued 2 (Some 0) ''o1'' ''t2'' demo_rename demo_teams))))"
proof (rule demo_team)
  fix t assume t: "mget (teams demo_teams) ''t2'' = Some t" "t_version t = 1"
  have "map_option t_version (mget (teams (snd (team_update demo_issued 2 (Some 0) ''o1'' ''t2'' demo_rename demo_teams))) ''t2'') = Some 2"
    by (simp add: team_update_def demo_authorized requireTeam_def teamOf_def assertValidUpdateTeam_def clearable_def demo_valid demo_rename_def
        demo_teams_rows demo_t1_def demo_t2_def assertTeamVersion_def version_ok_def Let_def same_team_def apply_team_change_def or_keep_def)
  then obtain r where r: "mget (teams (snd (team_update demo_issued 2 (Some 0) ''o1'' ''t2'' demo_rename demo_teams))) ''t2'' = Some r" "t_version r = 2" by auto
  then have "r \<noteq> t" using t(2) by auto
  from team_no_lost_update[OF t(1) r(1) this] t(2) show ?thesis by simp
qed

end
