(* ===== verification/Identity.thy ===== *)
theory Identity
  imports AuditLog
begin

text \<open>
  Identity links: \<open>identityLinkRepository\<close> of \<open>packages/core/src/storage/memory.ts\<close>.

  A link makes one identity an alias of another, in a map keyed by \<open>provider:subject\<close>.  The lemmas
  show that, among identities whose provider has no colon, resolving is idempotent and a linked
  identity resolves to its target; with colons two identities can share a key, and neither holds.
\<close>

definition identityKey :: "identity \<Rightarrow> string" where
  "identityKey i = provider i @ '':'' @ subject i"

definition identity_json :: "identity \<Rightarrow> json" where
  "identity_json i = JObj [(''provider'', JStr (provider i)), (''subject'', JStr (subject i))]"

text \<open>The audit entry \<open>link\<close> and \<open>unlink\<close> write themselves.\<close>

definition link_audit :: "string \<Rightarrow> identity \<Rightarrow> string \<Rightarrow> identity \<Rightarrow> identity \<Rightarrow> identity \<Rightarrow> audit_input" where
  "link_audit rid actor action target from to =
     \<lparr> ai_id = ''identity-link:'' @ rid, ai_organizationId = None, ai_actor = actor, ai_action = action,
       ai_target = Some \<lparr> at_type = ''identity_link'', at_id = identityKey target \<rparr>,
       ai_metadata = Some (JObj [(''from'', identity_json from), (''to'', identity_json to)]) \<rparr>"

definition link :: "(string \<Rightarrow> string) \<Rightarrow> timestamp \<Rightarrow> string \<Rightarrow> identity \<Rightarrow> identity \<Rightarrow> identity \<Rightarrow> identity_link op" where
  "link H now rid from to actor s =
     (if sameIdentity from to then fails (linkErr ''Cannot link an identity to itself.'') s
      else if list_ex (\<lambda>m. sameIdentity (m_identity m) from) (mvals (memberships s))
      then fails (linkErr ''Cannot link: the 'from' identity already owns a membership directly. Linking it would create an ambiguous/hijackable lookup.'') s
      else case mget (identityLinksByFromKey s) (identityKey from) of
        Some existing \<Rightarrow>
          if sameIdentity (il_to existing) to then returns existing s
          else fails (linkErr ''Cannot link: the 'from' identity is already linked to a different target.'') s
      | None \<Rightarrow>
          if mhas (identityLinksByFromKey s) (identityKey to)
          then fails (linkErr ''Cannot link: the 'to' identity is itself an alias of another identity (no chains).'') s
          else if list_ex (\<lambda>l. sameIdentity (il_to l) from) (mvals (identityLinksByFromKey s))
          then fails (linkErr ''Cannot link: the 'from' identity is itself the target of another identity's link (no chains).'') s
          else
            let l = \<lparr> il_from = from, il_to = to, il_linkedAt = now \<rparr>;
                s1 = s \<lparr> identityLinksByFromKey := mset_at (identityKey from) l (identityLinksByFromKey s) \<rparr>
            in and_then (audit_record H now (link_audit rid actor ''identity_link.created'' from from to))
                 (\<lambda>_. returns l) s1)"

definition unlink :: "(string \<Rightarrow> string) \<Rightarrow> timestamp \<Rightarrow> string \<Rightarrow> identity \<Rightarrow> identity \<Rightarrow> bool op" where
  "unlink H now rid from actor s =
     (case mget (identityLinksByFromKey s) (identityKey from) of
        None \<Rightarrow> returns False s
      | Some existing \<Rightarrow>
          let s1 = s \<lparr> identityLinksByFromKey := mdel (identityKey from) (identityLinksByFromKey s) \<rparr>
          in and_then (audit_record H now (link_audit rid actor ''identity_link.removed'' from (il_from existing) (il_to existing)))
               (\<lambda>_. returns True) s1)"

definition resolve :: "store \<Rightarrow> identity \<Rightarrow> identity" where
  "resolve s i = (case mget (identityLinksByFromKey s) (identityKey i) of Some l \<Rightarrow> il_to l | None \<Rightarrow> i)"

section \<open>Lemmas\<close>

definition clean_identity :: "identity \<Rightarrow> bool" where
  "clean_identity i \<longleftrightarrow> CHR '':'' \<notin> set (provider i)"

interpretation idk: composite_key "\<lambda>p u. identityKey \<lparr> provider = p, subject = u \<rparr>" "\<lambda>p u. CHR '':'' \<notin> set p"
  by unfold_locales (auto simp: identityKey_def dest: split_at_first)

lemma identity_eta [simp]: "\<lparr> provider = provider i, subject = subject i \<rparr> = i"
  by (cases i) simp

lemma identityKey_inj:
  "clean_identity i \<Longrightarrow> clean_identity j \<Longrightarrow> identityKey i = identityKey j \<longleftrightarrow> i = j"
  using idk.enc_eq_iff[where a = "provider i" and b = "subject i" and c = "provider j" and d = "subject j"]
  by (auto simp: clean_identity_def)

text \<open>What the map of links keeps: keyed by the source, clean identities, no chains.\<close>

definition links_wf :: "store \<Rightarrow> bool" where
  "links_wf s \<longleftrightarrow>
     (\<forall>k l. mget (identityLinksByFromKey s) k = Some l \<longrightarrow>
        k = identityKey (il_from l) \<and> clean_identity (il_from l) \<and> clean_identity (il_to l) \<and>
        mget (identityLinksByFromKey s) (identityKey (il_to l)) = None)"

lemma audit_record_frame:
  "identityLinksByFromKey (snd (audit_record H now i s)) = identityLinksByFromKey s"
  "memberships (snd (audit_record H now i s)) = memberships s"
  by (simp_all add: audit_record_def Let_def append_entry_def split: guard_split)

lemma and_then_snd_returns: "snd (and_then p (\<lambda>_. returns x) s) = snd (p s)"
  by (simp add: and_then_def split: prod.split sum.split)

lemma link_links:
  "identityLinksByFromKey (snd (link H now rid from to actor s)) = identityLinksByFromKey s \<or>
   (from \<noteq> to \<and> (\<forall>m \<in> set (mvals (memberships s)). m_identity m \<noteq> from) \<and>
    mget (identityLinksByFromKey s) (identityKey from) = None \<and>
    mget (identityLinksByFromKey s) (identityKey to) = None \<and>
    (\<forall>l \<in> set (mvals (identityLinksByFromKey s)). il_to l \<noteq> from) \<and>
    identityLinksByFromKey (snd (link H now rid from to actor s)) =
      mset_at (identityKey from) \<lparr> il_from = from, il_to = to, il_linkedAt = now \<rparr> (identityLinksByFromKey s))"
  by (auto simp: link_def Let_def and_then_snd_returns audit_record_frame mhas_def list_ex_iff split: option.split)

lemma link_fresh:
  "from \<noteq> to \<Longrightarrow> memberships s = [] \<Longrightarrow> mget (identityLinksByFromKey s) (identityKey from) = None \<Longrightarrow>
   mget (identityLinksByFromKey s) (identityKey to) = None \<Longrightarrow>
   \<forall>l \<in> set (mvals (identityLinksByFromKey s)). il_to l \<noteq> from \<Longrightarrow>
   identityLinksByFromKey (snd (link H now rid from to actor s)) =
     mset_at (identityKey from) \<lparr> il_from = from, il_to = to, il_linkedAt = now \<rparr> (identityLinksByFromKey s)"
  by (simp add: link_def Let_def and_then_snd_returns audit_record_frame mhas_def list_ex_iff)

lemma link_memberships: "memberships (snd (link H now rid from to actor s)) = memberships s"
  by (auto simp: link_def Let_def and_then_snd_returns audit_record_frame split: option.split)

lemma unlink_memberships: "memberships (snd (unlink H now rid from actor s)) = memberships s"
  by (auto simp: unlink_def Let_def and_then_snd_returns audit_record_frame split: option.split)

lemma unlink_links:
  "identityLinksByFromKey (snd (unlink H now rid from actor s)) = identityLinksByFromKey s \<or>
   identityLinksByFromKey (snd (unlink H now rid from actor s)) = mdel (identityKey from) (identityLinksByFromKey s)"
  by (auto simp: unlink_def Let_def and_then_snd_returns audit_record_frame split: option.split)

lemma link_links_wf:
  assumes "links_wf s" "clean_identity from" "clean_identity to"
  shows "links_wf (snd (link H now rid from to actor s))"
  using link_links[of H now rid "from" to actor s]
proof (elim disjE conjE)
  assume "identityLinksByFromKey (snd (link H now rid from to actor s)) = identityLinksByFromKey s"
  then show ?thesis using assms(1) by (simp add: links_wf_def)
next
  let ?m = "identityLinksByFromKey s"
  assume f: "from \<noteq> to" "mget ?m (identityKey to) = None" "\<forall>l \<in> set (mvals ?m). il_to l \<noteq> from"
    and new: "identityLinksByFromKey (snd (link H now rid from to actor s)) =
      mset_at (identityKey from) \<lparr> il_from = from, il_to = to, il_linkedAt = now \<rparr> ?m"
  have "identityKey (il_to l) \<noteq> identityKey from" if "mget ?m k = Some l" for k l
    using that assms f(3) mget_in_mvals[OF that] identityKey_inj[of "il_to l" "from"]
    by (auto simp: links_wf_def)
  then show ?thesis
    using assms f(1,2) identityKey_inj[OF assms(3,2)] by (auto simp: links_wf_def new)
qed

lemma unlink_links_wf: "links_wf s \<Longrightarrow> links_wf (snd (unlink H now rid from actor s))"
  using unlink_links[of H now rid "from" actor s] by (auto simp: links_wf_def split: if_splits)

lemma resolve_idempotent_wf: "links_wf s \<Longrightarrow> resolve s (resolve s i) = resolve s i"
  by (auto simp: resolve_def links_wf_def split: option.split)

section \<open>Properties\<close>

datatype link_cmd = Link timestamp string identity identity identity | Unlink timestamp string identity identity

fun link_exec :: "(string \<Rightarrow> string) \<Rightarrow> link_cmd \<Rightarrow> store \<Rightarrow> store" where
  "link_exec H (Link now rid from to actor) s = snd (link H now rid from to actor s)"
| "link_exec H (Unlink now rid from actor) s = snd (unlink H now rid from actor s)"

fun link_cmd_clean :: "link_cmd \<Rightarrow> bool" where
  "link_cmd_clean (Link now rid from to actor) = (clean_identity from \<and> clean_identity to)"
| "link_cmd_clean (Unlink now rid from actor) = True"

lemma link_run_wf: "list_all link_cmd_clean cmds \<Longrightarrow> links_wf s \<Longrightarrow> links_wf (fold (link_exec H) cmds s)"
proof (induction cmds arbitrary: s)
  case (Cons c cmds)
  then show ?case by (cases c) (auto simp: link_links_wf unlink_links_wf)
qed simp

text \<open>
  There are no alias chains.  After any sequence of \<open>link\<close> and \<open>unlink\<close> calls whose providers have
  no colon, resolving an identity twice is resolving it once.
\<close>

theorem resolve_idempotent:
  assumes "list_all link_cmd_clean cmds" "identityLinksByFromKey s = []"
  shows "resolve (fold (link_exec H) cmds s) (resolve (fold (link_exec H) cmds s) i) =
         resolve (fold (link_exec H) cmds s) i"
  by (rule resolve_idempotent_wf, rule link_run_wf) (simp_all add: assms links_wf_def)

definition ident :: "string \<Rightarrow> string \<Rightarrow> identity" where
  "ident p u = \<lparr> provider = p, subject = u \<rparr>"

theorem resolve_idempotent_witness:
  "let s = fold (link_exec id) [Link 0 ''r'' (ident ''clerk'' ''1'') (ident ''auth0'' ''2'') (ident ''clerk'' ''1'')] empty_store
   in resolve s (resolve s (ident ''clerk'' ''1'')) = resolve s (ident ''clerk'' ''1'')"
  unfolding Let_def
  by (rule resolve_idempotent) (simp_all add: clean_identity_def ident_def)

text \<open>
  Two different identities share the key \<open>a:b:c\<close>.  Linking \<open>(a, b:c)\<close> redirects \<open>(a:b, c)\<close>, which
  nobody linked and whose own link the check for chains does not see: an identity that resolves to it
  is now two hops from its final target.
\<close>

theorem identityKey_collision:
  "let x = ident ''a'' ''b:c''; y = ident ''a:b'' ''c''; w = ident ''p'' ''w''; z = ident ''p'' ''z'';
       s1 = snd (link H 0 ''r1'' w y w empty_store);
       s2 = snd (link H 0 ''r2'' x z w s1)
   in x \<noteq> y \<and> resolve s2 y = z \<and> resolve s2 w = y \<and> resolve s2 (resolve s2 w) \<noteq> resolve s2 w"
proof -
  let ?x = "ident ''a'' ''b:c''" and ?y = "ident ''a:b'' ''c''" and ?w = "ident ''p'' ''w''" and ?z = "ident ''p'' ''z''"
  define s1 where "s1 = snd (link H 0 ''r1'' ?w ?y ?w empty_store)"
  let ?s2 = "snd (link H 0 ''r2'' ?x ?z ?w s1)"
  have s1: "identityLinksByFromKey s1 = [(identityKey ?w, \<lparr> il_from = ?w, il_to = ?y, il_linkedAt = 0 \<rparr>)]"
    "memberships s1 = []"
    unfolding s1_def by (subst link_fresh) (simp_all add: ident_def link_memberships)
  have "identityLinksByFromKey ?s2 = [(identityKey ?w, \<lparr> il_from = ?w, il_to = ?y, il_linkedAt = 0 \<rparr>),
      (identityKey ?x, \<lparr> il_from = ?x, il_to = ?z, il_linkedAt = 0 \<rparr>)]"
    by (subst link_fresh) (simp_all add: s1 ident_def identityKey_def mvals_def)
  then have "resolve ?s2 ?y = ?z" "resolve ?s2 ?w = ?y"
    by (simp_all add: resolve_def ident_def identityKey_def)
  then show ?thesis unfolding Let_def s1_def by (simp add: ident_def)
qed

end
