(* ===== verification/Memberships.thy ===== *)
theory Memberships
  imports Identity Roles
begin

text \<open>
  Memberships: \<open>membershipRepository\<close> of \<open>packages/core/src/storage/memory.ts\<close> and the validations of
  \<open>membership/repository.ts\<close>.

  A timed suspension that has ended is lifted by the next operation that calls \<open>lapseBlocks\<close>; those
  operations change the store even when they only read.  The lemmas show that an Owner role that an
  active member holds always keeps an active holder, that a member is found by its own identity, and
  how far each mutation reaches.
\<close>

section \<open>Suspensions that end\<close>

definition lapsed :: "timestamp \<Rightarrow> membership \<Rightarrow> bool" where
  "lapsed now m \<longleftrightarrow> m_status m = MSuspended \<and>
     (case m_blocked m of None \<Rightarrow> False | Some b \<Rightarrow> (case b_until b of None \<Rightarrow> False | Some u \<Rightarrow> u \<le> now))"

definition lapse :: "timestamp \<Rightarrow> membership \<Rightarrow> membership" where
  "lapse now m = (if lapsed now m then m \<lparr> m_blocked := None, m_status := MActive, m_updatedAt := now \<rparr> else m)"

definition lapseBlocks :: "timestamp \<Rightarrow> store \<Rightarrow> store" where
  "lapseBlocks now s = s \<lparr> memberships := mmap (lapse now) (memberships s) \<rparr>"

definition touch :: "timestamp \<Rightarrow> membership \<Rightarrow> membership" where
  "touch now m = m \<lparr> m_updatedAt := now, m_version := m_version m + 1 \<rparr>"

definition put_membership :: "string \<Rightarrow> membership \<Rightarrow> store \<Rightarrow> store" where
  "put_membership i m s = s \<lparr> memberships := mset_at i m (memberships s) \<rparr>"

definition assertMembershipVersion :: "membership \<Rightarrow> int option \<Rightarrow> uerror + unit" where
  "assertMembershipVersion m expectedVersion =
     bindr (assertExpectedVersion expectedVersion 1) (\<lambda>expected.
       if version_ok expected (m_version m) then Inr () else Inl (UError EMembership ''membership_version_conflict''))"

text \<open>The last instant of the year 9999.\<close>

definition MAX_BLOCK_UNTIL :: timestamp where
  "MAX_BLOCK_UNTIL = 253402300799999"

definition assertBlockUntil :: "date_in option \<Rightarrow> timestamp \<Rightarrow> uerror + timestamp option" where
  "assertBlockUntil until now =
     (case until of None \<Rightarrow> Inr None
      | Some InvalidDate \<Rightarrow> Inl (UError EMembership ''membership_block_until_invalid'')
      | Some (At u) \<Rightarrow>
          if u \<le> now then Inl (UError EMembership ''membership_block_until_invalid'')
          else if u > MAX_BLOCK_UNTIL then Inl (UError EMembership ''membership_block_until_invalid'')
          else Inr (Some u))"

definition sanitizeBlockReason :: "string option \<Rightarrow> string option" where
  "sanitizeBlockReason reason =
     (case reason of None \<Rightarrow> None
      | Some r \<Rightarrow> let trimmed = trim r in if trimmed = [] then None else Some (take 500 trimmed))"

section \<open>The Owner guard\<close>

definition holds :: "string \<Rightarrow> membership \<Rightarrow> bool" where
  "holds roleId m \<longleftrightarrow> roleId \<in> set (m_roleIds m)"

definition owner_role_id :: "store \<Rightarrow> string \<Rightarrow> bool" where
  "owner_role_id s roleId = (case mget (roles s) roleId of None \<Rightarrow> False | Some r \<Rightarrow> r_isOwnerRole r)"

text \<open>The answer, and the store in which ended suspensions were lifted on the way.\<close>

definition isLastOwnerRoleHolder :: "timestamp \<Rightarrow> string \<Rightarrow> string \<Rightarrow> store \<Rightarrow> bool \<times> store" where
  "isLastOwnerRoleHolder now roleId excludeMembershipId s =
     (if \<not> owner_role_id s roleId then (False, s)
      else
        let s1 = lapseBlocks now s;
            others = filter (\<lambda>m. m_id m \<noteq> excludeMembershipId \<and> holds roleId m) (mvals (memberships s1))
        in (if others = [] then True
            else (case mget (memberships s1) excludeMembershipId of None \<Rightarrow> False | Some m \<Rightarrow> m_status m = MActive) \<and>
                 \<not> list_ex (\<lambda>m. m_status m = MActive) others, s1))"

text \<open>\<open>roleIds.some(...)\<close> of that test.\<close>

fun holds_last_owner_role :: "timestamp \<Rightarrow> string list \<Rightarrow> string \<Rightarrow> store \<Rightarrow> bool \<times> store" where
  "holds_last_owner_role now [] mid s = (False, s)"
| "holds_last_owner_role now (r # rs) mid s =
     (case isLastOwnerRoleHolder now r mid s of
        (True, s1) \<Rightarrow> (True, s1)
      | (False, s1) \<Rightarrow> holds_last_owner_role now rs mid s1)"

definition set_block :: "timestamp \<Rightarrow> identity \<Rightarrow> string option \<Rightarrow> timestamp option \<Rightarrow> membership \<Rightarrow> membership" where
  "set_block now actor reason until m =
     (touch now m) \<lparr> m_status := (case until of None \<Rightarrow> MBlocked | Some _ \<Rightarrow> MSuspended),
       m_blocked := Some \<lparr> b_at = now, b_by = actor, b_reason = sanitizeBlockReason reason, b_until = until \<rparr> \<rparr>"

record block_input =
  bi_actor :: identity
  bi_reason :: "string option"
  bi_expectedVersion :: "int option"

definition blockWithin :: "timestamp \<Rightarrow> string \<Rightarrow> block_input \<Rightarrow> timestamp option \<Rightarrow> membership op" where
  "blockWithin now membershipId input until s0 =
     (let s = lapseBlocks now s0 in
      case mget (memberships s) membershipId of
        None \<Rightarrow> fails (memErr (''Membership not found: '' @ membershipId)) s
      | Some m \<Rightarrow> guard (assertMembershipVersion m (bi_expectedVersion input)) (\<lambda>_ s.
          if m_status m = MSuspended \<and> until = None
          then let m' = set_block now (bi_actor input) (bi_reason input) None m in returns m' (put_membership membershipId m' s)
          else if m_status m \<noteq> MActive then returns m s
          else if list_ex (\<lambda>roleId. \<not> list_ex (\<lambda>x. m_id x \<noteq> membershipId \<and> m_status x = MActive \<and> holds roleId x) (mvals (memberships s)))
                    (filter (owner_role_id s) (m_roleIds m))
          then fails (UError EMembership ''last_owner'') s
          else let m' = set_block now (bi_actor input) (bi_reason input) until m in returns m' (put_membership membershipId m' s)) s)"

section \<open>Reading\<close>

record member_filter =
  mf_organizationId :: "string option"
  mf_query :: "string option"
  mf_identity :: "identity option"
  mf_orIdentities :: "identity list"
  mf_status :: "mem_status option"

definition MAX_PROFILE_BATCH :: nat where
  "MAX_PROFILE_BATCH = 200"

definition matchingMemberships :: "member_filter \<Rightarrow> store \<Rightarrow> membership list" where
  "matchingMemberships f s =
     filter (\<lambda>m. opt_match (\<lambda>og. m_organizationId m = og) (mf_organizationId f) \<and>
                 opt_match (\<lambda>i. sameIdentity (m_identity m) i) (mf_identity f) \<and>
                 opt_match (\<lambda>st. m_status m = st) (mf_status f) \<and>
                 (query_hits (search_query (mf_query f)) [subject (m_identity m), provider (m_identity m)] \<or>
                  list_ex (\<lambda>i. sameIdentity i (m_identity m)) (take MAX_PROFILE_BATCH (mf_orIdentities f))))
       (mvals (memberships s))"

text \<open>The reads that lift ended suspensions first answer on \<open>lapseBlocks now s\<close>.\<close>

definition mem_findByIdentity :: "timestamp \<Rightarrow> string \<Rightarrow> identity \<Rightarrow> store \<Rightarrow> membership option \<times> store" where
  "mem_findByIdentity now organizationId i s =
     (let resolved = resolve s i; s1 = lapseBlocks now s
      in (find (\<lambda>m. m_organizationId m = organizationId \<and> sameIdentity (m_identity m) resolved) (mvals (memberships s1)), s1))"

definition mem_listByOrganization :: "timestamp \<Rightarrow> string \<Rightarrow> store \<Rightarrow> membership list \<times> store" where
  "mem_listByOrganization now organizationId s =
     (let s1 = lapseBlocks now s in (filter (\<lambda>m. m_organizationId m = organizationId) (mvals (memberships s1)), s1))"

definition mem_findById :: "timestamp \<Rightarrow> string \<Rightarrow> store \<Rightarrow> membership option \<times> store" where
  "mem_findById now i s = (let s1 = lapseBlocks now s in (mget (memberships s1) i, s1))"

definition mem_search :: "timestamp \<Rightarrow> member_filter \<Rightarrow> string option \<Rightarrow> nat option \<Rightarrow> store \<Rightarrow> membership list \<times> store" where
  "mem_search now f after limit s =
     (let s1 = lapseBlocks now s;
          matches = sort_by (\<lambda>a b. m_id a < m_id b) (matchingMemberships f s1);
          page = (case after of None \<Rightarrow> matches | Some k \<Rightarrow> filter (\<lambda>m. k < m_id m) matches)
      in (slice_to limit page, s1))"

record membership_listing =
  ml_id :: string
  ml_organizationId :: string
  ml_identity :: identity
  ml_roleCount :: nat
  ml_status :: mem_status
  ml_createdAt :: timestamp
  ml_invitedBy :: "identity option"
  ml_lastActiveAt :: "timestamp option"
  ml_roles :: "role_summary list"

definition owner_first :: "role \<Rightarrow> role \<Rightarrow> bool" where
  "owner_first a b \<longleftrightarrow> (r_isOwnerRole a \<and> \<not> r_isOwnerRole b) \<or>
     (r_isOwnerRole a = r_isOwnerRole b \<and> (r_name a < r_name b \<or> (r_name a = r_name b \<and> r_id a < r_id b)))"

definition mem_searchListing ::
  "timestamp \<Rightarrow> member_filter \<Rightarrow> string option \<Rightarrow> nat option \<Rightarrow> nat \<Rightarrow> store \<Rightarrow> membership_listing list \<times> store" where
  "mem_searchListing now f after limit rolesPerMember s =
     (let (rows, s1) = mem_search now f after limit s
      in (map (\<lambda>m. let held = sort_by owner_first (role_findByIds s1 (m_roleIds m)) in
            \<lparr> ml_id = m_id m, ml_organizationId = m_organizationId m, ml_identity = m_identity m, ml_roleCount = length held,
              ml_status = m_status m, ml_createdAt = m_createdAt m, ml_invitedBy = m_invitedBy m,
              ml_lastActiveAt = m_lastActiveAt m, ml_roles = map toRoleSummary (take rolesPerMember held) \<rparr>) rows, s1))"

definition mem_count :: "timestamp \<Rightarrow> member_filter \<Rightarrow> nat option \<Rightarrow> store \<Rightarrow> nat \<times> store" where
  "mem_count now f limit s =
     (let s1 = lapseBlocks now s in (cap_at limit (length (matchingMemberships f s1)), s1))"

definition mem_countByRole :: "store \<Rightarrow> string list \<Rightarrow> (string, nat) jsmap" where
  "mem_countByRole s roleIds = tally roleIds (concat (map m_roleIds (mvals (memberships s))))"

definition mem_countByOrganization :: "store \<Rightarrow> string list \<Rightarrow> nat option \<Rightarrow> (string, nat) jsmap" where
  "mem_countByOrganization s organizationIds limit =
     capped (tally organizationIds (map m_organizationId (mvals (memberships s)))) limit"

section \<open>Writing\<close>

record create_membership =
  cm_id :: string
  cm_organizationId :: string
  cm_identity :: identity
  cm_roleIds :: "string list"
  cm_invitedBy :: "identity option"
  cm_createdAt :: "timestamp option"

text \<open>The organization check of \<open>create\<close> and \<open>assignRole\<close>, per role id.\<close>

definition role_check :: "store \<Rightarrow> string \<Rightarrow> string \<Rightarrow> string \<Rightarrow> string \<Rightarrow> uerror option" where
  "role_check s organizationId than membershipId roleId =
     (case mget (roles s) roleId of
        None \<Rightarrow> Some (memErr (''Role not found: '' @ roleId))
      | Some r \<Rightarrow>
          if r_organizationId r \<noteq> organizationId
          then Some (memErr (''Cannot assign role '' @ quoted roleId @ '' to membership '' @ quoted membershipId @
                 '': the role belongs to a different organization than '' @ than @ ''.''))
          else None)"

definition new_membership :: "timestamp \<Rightarrow> create_membership \<Rightarrow> membership" where
  "new_membership now input =
     (let createdAt = (case cm_createdAt input of None \<Rightarrow> now | Some t \<Rightarrow> t) in
      \<lparr> m_id = cm_id input, m_organizationId = cm_organizationId input, m_identity = cm_identity input,
        m_roleIds = cm_roleIds input, m_status = MActive, m_createdAt = createdAt, m_updatedAt = createdAt,
        m_invitedBy = cm_invitedBy input, m_lastActiveAt = None, m_blocked = None, m_version = 1 \<rparr>)"

definition mem_create :: "timestamp \<Rightarrow> create_membership \<Rightarrow> membership op" where
  "mem_create now input s =
     (if list_ex (\<lambda>m. m_organizationId m = cm_organizationId input \<and> sameIdentity (m_identity m) (cm_identity input)) (mvals (memberships s))
      then fails (memErr (''Identity '' @ identityKey (cm_identity input) @ '' already has a membership in organization '' @
             quoted (cm_organizationId input) @ ''.'')) s
      else if mhas (identityLinksByFromKey s) (identityKey (cm_identity input))
      then fails (memErr (''Cannot create a direct membership for identity '' @ identityKey (cm_identity input) @
             '': it is already linked as an alias of another identity (see IdentityLinkRepository.link) - creating a direct membership here would produce an ambiguous/hijackable lookup.'')) s
      else case checkr (role_check s (cm_organizationId input) (quoted (cm_organizationId input)) (cm_id input)) (cm_roleIds input) of
        Some e \<Rightarrow> fails e s
      | None \<Rightarrow> returns (new_membership now input) (put_membership (cm_id input) (new_membership now input) s))"

definition add_role :: "timestamp \<Rightarrow> string \<Rightarrow> membership \<Rightarrow> membership" where
  "add_role now roleId m = (if holds roleId m then m else touch now (m \<lparr> m_roleIds := m_roleIds m @ [roleId] \<rparr>))"

definition mem_assignRole :: "timestamp \<Rightarrow> string \<Rightarrow> string \<Rightarrow> int option \<Rightarrow> unit op" where
  "mem_assignRole now membershipId roleId expectedVersion s =
     (case mget (memberships s) membershipId of
        None \<Rightarrow> fails (memErr (''Membership not found: '' @ membershipId)) s
      | Some m \<Rightarrow> guard (assertMembershipVersion m expectedVersion) (\<lambda>_ s.
          case role_check s (m_organizationId m) ''the membership'' membershipId roleId of
            Some e \<Rightarrow> fails e s
          | None \<Rightarrow>
              if owner_role_id s roleId
              then fails (memErr (''Cannot assign the protected Owner role '' @ quoted roleId @ '' via assignRole() - use assignOwnerRole() instead.'')) s
              else returns () (put_membership membershipId (add_role now roleId m) s)) s)"

definition mem_assignOwnerRole :: "timestamp \<Rightarrow> string \<Rightarrow> string \<Rightarrow> unit op" where
  "mem_assignOwnerRole now membershipId roleId s =
     (case mget (memberships s) membershipId of
        None \<Rightarrow> fails (memErr (''Membership not found: '' @ membershipId)) s
      | Some m \<Rightarrow>
          (case role_check s (m_organizationId m) ''the membership'' membershipId roleId of
            Some e \<Rightarrow> fails e s
          | None \<Rightarrow>
              if \<not> owner_role_id s roleId
              then fails (memErr (''Role '' @ quoted roleId @ '' is not the protected Owner role - use assignRole() instead.'')) s
              else returns () (put_membership membershipId (add_role now roleId m) s)))"

definition drop_role :: "string \<Rightarrow> membership \<Rightarrow> membership" where
  "drop_role roleId m = m \<lparr> m_roleIds := splice_out roleId (m_roleIds m) \<rparr>"

definition mem_unassignRole :: "timestamp \<Rightarrow> string \<Rightarrow> string \<Rightarrow> int option \<Rightarrow> unit op" where
  "mem_unassignRole now membershipId roleId expectedVersion s =
     (case mget (memberships s) membershipId of
        None \<Rightarrow> fails (memErr (''Membership not found: '' @ membershipId)) s
      | Some m \<Rightarrow> guard (assertMembershipVersion m expectedVersion) (\<lambda>_ s.
          if owner_role_id s roleId
          then fails (memErr (''Cannot unassign the protected Owner role '' @ quoted roleId @ '' via unassignRole() - use unassignOwnerRole() instead.'')) s
          else if \<not> holds roleId m then returns () s
          else returns () (put_membership membershipId (touch now (drop_role roleId m)) s)) s)"

text \<open>
  The membership is looked up before \<open>isLastOwnerRoleHolder\<close>.  When that call lifts an ended suspension
  of this very membership it stores a new object; the two share the array of role ids, so the removal
  reaches the stored one, but \<open>touch\<close> writes to the old one and is lost.
\<close>

definition mem_unassignOwnerRole :: "timestamp \<Rightarrow> string \<Rightarrow> string \<Rightarrow> unit op" where
  "mem_unassignOwnerRole now membershipId roleId s =
     (case mget (memberships s) membershipId of
        None \<Rightarrow> fails (memErr (''Membership not found: '' @ membershipId)) s
      | Some m \<Rightarrow>
          if mhas (roles s) roleId \<and> \<not> owner_role_id s roleId
          then fails (memErr (''Role '' @ quoted roleId @ '' is not the protected Owner role - use unassignRole() instead.'')) s
          else if \<not> holds roleId m then returns () s
          else
            (case isLastOwnerRoleHolder now roleId membershipId s of
               (True, s1) \<Rightarrow> fails (UError EMembership ''last_owner'') s1
             | (False, s1) \<Rightarrow>
                 if owner_role_id s roleId \<and> lapsed now m
                 then returns () (put_membership membershipId (drop_role roleId (lapse now m)) s1)
                 else returns () (put_membership membershipId (touch now (drop_role roleId m)) s1)))"

definition mem_block :: "timestamp \<Rightarrow> string \<Rightarrow> block_input \<Rightarrow> membership op" where
  "mem_block now membershipId input = blockWithin now membershipId input None"

definition mem_suspend :: "timestamp \<Rightarrow> string \<Rightarrow> block_input \<Rightarrow> date_in option \<Rightarrow> membership op" where
  "mem_suspend now membershipId input until =
     guard (assertBlockUntil until now) (\<lambda>u.
       case u of None \<Rightarrow> fails (UError EMembership ''membership_block_until_invalid'')
       | Some t \<Rightarrow> blockWithin now membershipId input (Some t))"

definition mem_unblock :: "timestamp \<Rightarrow> string \<Rightarrow> int option \<Rightarrow> membership op" where
  "mem_unblock now membershipId expectedVersion s =
     (case mget (memberships s) membershipId of
        None \<Rightarrow> fails (memErr (''Membership not found: '' @ membershipId)) s
      | Some m \<Rightarrow> guard (assertMembershipVersion m expectedVersion) (\<lambda>_ s.
          if m_status m = MActive then returns m s
          else let m' = (touch now m) \<lparr> m_blocked := None, m_status := MActive \<rparr>
               in returns m' (put_membership membershipId m' s)) s)"

definition mem_recordActivity :: "string \<Rightarrow> timestamp \<Rightarrow> unit op" where
  "mem_recordActivity membershipId at s =
     (case mget (memberships s) membershipId of
        None \<Rightarrow> returns () s
      | Some m \<Rightarrow>
          if (case m_lastActiveAt m of None \<Rightarrow> True | Some t \<Rightarrow> t < at)
          then returns () (put_membership membershipId (m \<lparr> m_lastActiveAt := Some at \<rparr>) s)
          else returns () s)"

definition drop_member :: "string \<Rightarrow> store \<Rightarrow> store" where
  "drop_member membershipId s = s \<lparr> memberships := mdel membershipId (memberships s),
     teamMemberships := fold (\<lambda>t. mdel (tm_id t)) (filter (\<lambda>t. tm_membershipId t = membershipId) (mvals (teamMemberships s)))
       (teamMemberships s) \<rparr>"

definition mem_delete :: "timestamp \<Rightarrow> string \<Rightarrow> unit op" where
  "mem_delete now membershipId s =
     (case mget (memberships s) membershipId of
        None \<Rightarrow> fails (memErr (''Membership not found: '' @ membershipId)) s
      | Some m \<Rightarrow>
          (case holds_last_owner_role now (m_roleIds m) membershipId s of
             (True, s1) \<Rightarrow> fails (UError EMembership ''last_owner'') s1
           | (False, s1) \<Rightarrow> returns () (drop_member membershipId s1)))"

section \<open>What a write may change\<close>

lemma lapse_simps [simp]:
  "m_id (lapse now m) = m_id m" "m_organizationId (lapse now m) = m_organizationId m"
  "m_identity (lapse now m) = m_identity m" "m_roleIds (lapse now m) = m_roleIds m"
  "m_version (lapse now m) = m_version m" "holds r (lapse now m) = holds r m"
  by (simp_all add: lapse_def holds_def)

lemma lapse_active: "m_status m = MActive \<Longrightarrow> lapse now m = m"
  by (simp add: lapse_def lapsed_def)

lemma lapse_not_lapsed: "\<not> lapsed now m \<Longrightarrow> lapse now m = m"
  by (simp add: lapse_def)

lemma touch_simps [simp]:
  "m_id (touch now m) = m_id m" "m_organizationId (touch now m) = m_organizationId m"
  "m_identity (touch now m) = m_identity m" "m_roleIds (touch now m) = m_roleIds m"
  "m_status (touch now m) = m_status m" "m_version (touch now m) = m_version m + 1"
  by (simp_all add: touch_def)

lemma drop_role_simps [simp]:
  "m_id (drop_role r m) = m_id m" "m_organizationId (drop_role r m) = m_organizationId m"
  "m_identity (drop_role r m) = m_identity m" "m_status (drop_role r m) = m_status m"
  "m_roleIds (drop_role r m) = remove1 r (m_roleIds m)" "m_version (drop_role r m) = m_version m"
  by (simp_all add: drop_role_def)

lemma add_role_simps [simp]:
  "m_id (add_role now r m) = m_id m" "m_organizationId (add_role now r m) = m_organizationId m"
  "m_identity (add_role now r m) = m_identity m" "m_status (add_role now r m) = m_status m"
  "holds q (add_role now r m) \<longleftrightarrow> q = r \<or> holds q m"
  by (auto simp: add_role_def holds_def)

lemma set_block_simps [simp]:
  "m_id (set_block now a rs u m) = m_id m" "m_organizationId (set_block now a rs u m) = m_organizationId m"
  "m_identity (set_block now a rs u m) = m_identity m" "m_roleIds (set_block now a rs u m) = m_roleIds m"
  "m_version (set_block now a rs u m) = m_version m + 1" "holds r (set_block now a rs u m) = holds r m"
  by (simp_all add: set_block_def holds_def)

lemma holds_touch_drop [simp]:
  "holds q (touch now m) = holds q m"
  "q \<noteq> r \<Longrightarrow> holds q (drop_role r m) = holds q m"
  by (simp_all add: holds_def in_set_remove1)

lemma holds_drop_role: "holds q (drop_role r m) \<Longrightarrow> holds q m"
  using set_remove1_subset[of r "m_roleIds m"] by (auto simp: holds_def)

lemma lapseBlocks_simps [simp]:
  "roles (lapseBlocks now s) = roles s" "identityLinksByFromKey (lapseBlocks now s) = identityLinksByFromKey s"
  "memberships (lapseBlocks now s) = mmap (lapse now) (memberships s)"
  by (simp_all add: lapseBlocks_def)

lemma put_membership_simps [simp]:
  "roles (put_membership i m s) = roles s" "identityLinksByFromKey (put_membership i m s) = identityLinksByFromKey s"
  "memberships (put_membership i m s) = mset_at i m (memberships s)"
  by (simp_all add: put_membership_def)

lemma owner_role_id_cong: "roles s' = roles s \<Longrightarrow> owner_role_id s' = owner_role_id s"
  by (simp add: owner_role_id_def fun_eq_iff)

lemma owner_role_id_lapse [simp]: "owner_role_id (lapseBlocks now s) = owner_role_id s"
  by (rule owner_role_id_cong) simp

lemma role_check_None:
  "role_check s og than mid rid = None \<longleftrightarrow> (\<exists>r. mget (roles s) rid = Some r \<and> r_organizationId r = og)"
  by (auto simp: role_check_def split: option.split)

text \<open>Another active holder of the role, besides member \<open>i\<close>.\<close>

definition covered :: "store \<Rightarrow> string \<Rightarrow> string \<Rightarrow> bool" where
  "covered s rid i \<longleftrightarrow> (\<exists>x \<in> set (mvals (memberships s)). m_id x \<noteq> i \<and> m_status x = MActive \<and> holds rid x)"

text \<open>
  An edit of one membership: it stays the same member, an Owner role it gains is one of its own
  organization, and it stops being an active holder of an Owner role only when somebody else is one.
\<close>

definition mem_edit :: "store \<Rightarrow> string \<Rightarrow> membership \<Rightarrow> membership \<Rightarrow> bool" where
  "mem_edit s i m m' \<longleftrightarrow> m_id m' = m_id m \<and> m_organizationId m' = m_organizationId m \<and> m_identity m' = m_identity m \<and>
     (\<forall>rid. owner_role_id s rid \<longrightarrow>
        (holds rid m' \<longrightarrow> holds rid m \<or> (\<exists>r. mget (roles s) rid = Some r \<and> r_organizationId r = m_organizationId m)) \<and>
        (m_status m = MActive \<and> holds rid m \<longrightarrow> (m_status m' = MActive \<and> holds rid m') \<or> covered s rid i))"

definition edits_member :: "timestamp \<Rightarrow> string \<Rightarrow> store \<Rightarrow> store \<Rightarrow> bool" where
  "edits_member now i s s' \<longleftrightarrow> s' = s \<or> s' = lapseBlocks now s \<or>
     (\<exists>s1 m m'. (s1 = s \<or> s1 = lapseBlocks now s) \<and> mget (memberships s1) i = Some m \<and> mem_edit s1 i m m' \<and>
        s' = put_membership i m' s1)"

lemma edits_member_refl [simp]: "edits_member now i s s" "edits_member now i s (lapseBlocks now s)"
  by (simp_all add: edits_member_def)

lemma edits_memberI:
  "mget (memberships s) i = Some m \<Longrightarrow> mem_edit s i m m' \<Longrightarrow> edits_member now i s (put_membership i m' s)"
  by (auto simp: edits_member_def)

lemma edits_lapsedI:
  "mget (memberships (lapseBlocks now s)) i = Some m \<Longrightarrow> mem_edit (lapseBlocks now s) i m m' \<Longrightarrow>
   edits_member now i s (put_membership i m' (lapseBlocks now s))"
  unfolding edits_member_def by blast

lemma assignRole_edits: "edits_member now i s (snd (mem_assignRole now i rid v s))"
  by (auto simp: mem_assignRole_def mem_edit_def role_check_None intro!: edits_memberI split: option.split guard_split)

lemma assignOwnerRole_edits: "edits_member now i s (snd (mem_assignOwnerRole now i rid s))"
  by (auto simp: mem_assignOwnerRole_def mem_edit_def role_check_None intro!: edits_memberI split: option.split)

lemma unassignRole_edits: "edits_member now i s (snd (mem_unassignRole now i rid v s))"
proof (cases "mget (memberships s) i")
  case (Some m)
  have "mem_edit s i m (touch now (drop_role rid m))" if "\<not> owner_role_id s rid"
  proof -
    have "holds q (drop_role rid m) = holds q m" if "owner_role_id s q" for q
      using that \<open>\<not> owner_role_id s rid\<close> by (intro holds_touch_drop(2)) auto
    then show ?thesis by (simp add: mem_edit_def)
  qed
  then show ?thesis using Some
    by (auto simp: mem_unassignRole_def intro!: edits_memberI split: guard_split)
qed (simp add: mem_unassignRole_def)

lemma unblock_edits: "edits_member now i s (snd (mem_unblock now i v s))"
  by (auto simp: mem_unblock_def mem_edit_def Let_def holds_def intro!: edits_memberI split: option.split guard_split)

lemma recordActivity_edits: "edits_member now i s (snd (mem_recordActivity i at s))"
  by (auto simp: mem_recordActivity_def mem_edit_def holds_def intro!: edits_memberI split: option.split)

lemma lapse_idem [simp]: "lapse now (lapse now m) = lapse now m"
  by (simp add: lapse_def lapsed_def)

lemma mmap_mmap: "mmap f (mmap g m) = mmap (\<lambda>v. f (g v)) m"
  by (simp add: mmap_def case_prod_unfold comp_def)

lemma lapseBlocks_idem [simp]: "lapseBlocks now (lapseBlocks now s) = lapseBlocks now s"
  by (simp add: lapseBlocks_def mmap_mmap)

lemma isLast_store: "snd (isLastOwnerRoleHolder now rid i s) = (if owner_role_id s rid then lapseBlocks now s else s)"
  by (simp add: isLastOwnerRoleHolder_def Let_def)

lemma isLast_lapsed:
  "owner_role_id s rid \<Longrightarrow> fst (isLastOwnerRoleHolder now rid i (lapseBlocks now s)) = fst (isLastOwnerRoleHolder now rid i s)"
  by (simp add: isLastOwnerRoleHolder_def Let_def del: lapseBlocks_simps(3))

lemma isLast_False:
  assumes "\<not> fst (isLastOwnerRoleHolder now rid i s)" "owner_role_id s rid"
    and "mget (memberships (lapseBlocks now s)) i = Some m" "m_status m = MActive"
  shows "covered (lapseBlocks now s) rid i"
  using assms by (auto simp: isLastOwnerRoleHolder_def Let_def covered_def list_ex_iff split: if_splits)

lemma holds_last_False:
  assumes "holds_last_owner_role now rs i s = (False, s')"
  shows "(s' = s \<or> s' = lapseBlocks now s) \<and>
    (\<forall>r \<in> set rs. owner_role_id s r \<longrightarrow> s' = lapseBlocks now s \<and> \<not> fst (isLastOwnerRoleHolder now r i (lapseBlocks now s)))"
  using assms
proof (induction now rs i s rule: holds_last_owner_role.induct)
  case (2 now r rs mid s)
  obtain b s1 where r: "isLastOwnerRoleHolder now r mid s = (b, s1)" by fastforce
  have b: "\<not> b" using 2(2) r by (cases b) auto
  have s1: "s1 = (if owner_role_id s r then lapseBlocks now s else s)" using isLast_store[of now r mid s] r by simp
  have rest: "holds_last_owner_role now rs mid s1 = (False, s')" using 2(2) r b by simp
  have o: "owner_role_id s1 = owner_role_id s" using s1 by simp
  have l: "lapseBlocks now s1 = lapseBlocks now s" using s1 by simp
  have head: "\<not> fst (isLastOwnerRoleHolder now r mid (lapseBlocks now s))" if "owner_role_id s r"
    using r b that isLast_lapsed by simp
  have IH: "(s' = s1 \<or> s' = lapseBlocks now s1) \<and>
    (\<forall>r \<in> set rs. owner_role_id s1 r \<longrightarrow> s' = lapseBlocks now s1 \<and> \<not> fst (isLastOwnerRoleHolder now r mid (lapseBlocks now s1)))"
    using "2.IH"[of b s1] r b rest by simp
  then show ?case using s1 head unfolding o l by auto
qed simp

lemma holds_last_store:
  "snd (holds_last_owner_role now rs i s) = s \<or> snd (holds_last_owner_role now rs i s) = lapseBlocks now s"
proof (induction now rs i s rule: holds_last_owner_role.induct)
  case (2 now r rs mid s)
  then show ?case using isLast_store[of now r mid s]
    by (cases "isLastOwnerRoleHolder now r mid s") (auto split: bool.split if_splits)
qed simp

lemma unassignOwnerRole_edits: "edits_member now i s (snd (mem_unassignOwnerRole now i rid s))"
proof (cases "mget (memberships s) i")
  case (Some m)
  obtain b s1 where r: "isLastOwnerRoleHolder now rid i s = (b, s1)" by fastforce
  have s1: "s1 = (if owner_role_id s rid then lapseBlocks now s else s)" using isLast_store[of now rid i s] r by simp
  define m1 where "m1 = (if owner_role_id s rid then lapse now m else m)"
  have m1: "mget (memberships s1) i = Some m1" using Some by (simp add: s1 m1_def)
  have edit: "mem_edit s1 i m1 m'" if "\<not> b" "m' = drop_role rid m1 \<or> m' = touch now (drop_role rid m1)" for m'
  proof -
    have cov: "covered s1 rid i" if "owner_role_id s rid" "m_status m1 = MActive"
      using isLast_False[of now rid i s m1] r \<open>\<not> b\<close> that m1 s1 by simp
    have "owner_role_id s1 = owner_role_id s" using s1 by simp
    moreover have "holds q m'" if "holds q m1" "q \<noteq> rid" for q
      using that \<open>m' = _ \<or> _\<close> by auto
    ultimately show ?thesis using that cov unfolding mem_edit_def by (auto dest: holds_drop_role)
  qed
  have put: "edits_member now i s (put_membership i m' s1)"
    if "\<not> b" "m' = drop_role rid m1 \<or> m' = touch now (drop_role rid m1)" for m'
    using edit[OF that] m1 s1 unfolding edits_member_def by (metis (full_types))
  show ?thesis
  proof (cases "owner_role_id s rid \<and> lapsed now m")
    case True
    then show ?thesis using Some r put s1
      by (cases b) (auto simp: mem_unassignOwnerRole_def m1_def)
  next
    case False
    then have "m1 = m" by (auto simp: m1_def lapse_not_lapsed)
    then show ?thesis using Some r put s1 False
      by (cases b) (auto simp: mem_unassignOwnerRole_def)
  qed
qed (simp add: mem_unassignOwnerRole_def)

lemma blockWithin_edits: "edits_member now i s (snd (blockWithin now i input until s))"
proof (cases "mget (memberships (lapseBlocks now s)) i")
  case (Some m)
  let ?s = "lapseBlocks now s"
  have susp: "mem_edit ?s i m (set_block now a rs u m)" if "m_status m \<noteq> MActive" for a rs u
    using that by (simp add: mem_edit_def)
  have act: "mem_edit ?s i m (set_block now a rs u m)"
    if "\<not> list_ex (\<lambda>roleId. \<not> list_ex (\<lambda>x. m_id x \<noteq> i \<and> m_status x = MActive \<and> holds roleId x) (mvals (memberships ?s)))
          (filter (owner_role_id ?s) (m_roleIds m))" for a rs u
    using that by (auto simp: mem_edit_def covered_def list_ex_iff holds_def)
  show ?thesis using Some susp act
    unfolding blockWithin_def Let_def
    by (auto intro!: edits_lapsedI split: guard_split simp del: lapseBlocks_simps(3) owner_role_id_lapse)
qed (simp add: blockWithin_def Let_def)

text \<open>\<open>assignRole\<close> and \<open>unassignRole\<close> with an expected version.\<close>

lemma assertMembershipVersion_Inr:
  "assertMembershipVersion m v = Inr () \<longleftrightarrow> is_ok (assertExpectedVersion v 1) \<and> (case v of None \<Rightarrow> True | Some n \<Rightarrow> m_version m = n)"
  by (cases "assertExpectedVersion v 1")
    (auto simp: assertMembershipVersion_def version_ok_def dest!: assertExpectedVersion_Inr split: option.splits)

interpretation memv: versioned "\<lambda>s i. mget (memberships s) i" m_version
  "\<lambda>(now, rid, adding) e i. if adding then mem_assignRole now i rid e else mem_unassignRole now i rid e"
proof unfold_locales
  fix s i m x v a assume "mget (memberships s) i = Some m" and
    "fst ((case x of (now, rid, adding) \<Rightarrow> \<lambda>e i. if adding then mem_assignRole now i rid e else mem_unassignRole now i rid e) (Some v) i s) = Inr a"
  then show "m_version m = v"
    by (auto simp: mem_assignRole_def mem_unassignRole_def guard_ok assertMembershipVersion_Inr split: prod.splits if_splits)
next
  fix s i m x e m' assume m: "mget (memberships s) i = Some m" and
    m': "mget (memberships (snd ((case x of (now, rid, adding) \<Rightarrow> \<lambda>e i. if adding then mem_assignRole now i rid e
      else mem_unassignRole now i rid e) e i s))) i = Some m'" and ne: "m' \<noteq> m"
  obtain now rid adding where x: "x = (now, rid, adding)" by (cases x)
  show "m_version m' = m_version m + 1"
    using m m' ne unfolding x
    by (cases adding; cases "assertMembershipVersion m e")
      (auto simp: mem_assignRole_def mem_unassignRole_def add_role_def touch_def drop_role_def split: option.splits if_splits)
qed

section \<open>Invariants of the members\<close>

text \<open>
  \<open>owned s rid og\<close>: only members of the organization hold the role, and one of them is active.
\<close>

definition owned :: "store \<Rightarrow> string \<Rightarrow> string \<Rightarrow> bool" where
  "owned s rid og \<longleftrightarrow> (\<forall>x \<in> set (mvals (memberships s)). holds rid x \<longrightarrow> m_organizationId x = og) \<and>
     (\<exists>x \<in> set (mvals (memberships s)). m_status x = MActive \<and> holds rid x)"

definition mem_keyed :: "store \<Rightarrow> bool" where
  "mem_keyed s \<longleftrightarrow> keyed m_id (memberships s)"

lemma mem_keyed_get: "mem_keyed s \<Longrightarrow> mget (memberships s) i = Some m \<Longrightarrow> m_id m = i"
  unfolding mem_keyed_def by (rule keyed_get)

lemma lapse_keyed: "mem_keyed s \<Longrightarrow> mem_keyed (lapseBlocks now s)"
  by (simp add: mem_keyed_def keyed_mmap)

lemma lapse_owned: "owned s rid og \<Longrightarrow> owned (lapseBlocks now s) rid og"
  by (auto simp: owned_def intro!: bexI[rotated] simp: lapse_active)

lemma put_vals:
  assumes "mem_keyed s" "m_id m' = i"
  shows "x \<in> set (mvals (mset_at i m' (memberships s))) \<longleftrightarrow> x = m' \<or> (x \<in> set (mvals (memberships s)) \<and> m_id x \<noteq> i)"
  using keyed_vals_update[of m_id "memberships s" m' i x] assms by (simp add: mem_keyed_def)

lemma put_keyed: "mem_keyed s \<Longrightarrow> m_id m' = i \<Longrightarrow> mem_keyed (put_membership i m' s)"
  by (simp add: mem_keyed_def keyed_update)

lemma put_owned:
  assumes k: "mem_keyed s" and o: "owned s rid og" and r: "mget (roles s) rid = Some r" "r_isOwnerRole r" "r_organizationId r = og"
    and m: "mget (memberships s) i = Some m" and e: "mem_edit s i m m'"
  shows "owned (put_membership i m' s) rid og"
proof -
  have own: "owner_role_id s rid" using r by (simp add: owner_role_id_def)
  have id: "m_id m = i" using mem_keyed_get[OF k m] .
  have e': "m_id m' = i" "m_organizationId m' = m_organizationId m"
    "holds rid m' \<Longrightarrow> holds rid m \<or> m_organizationId m = og"
    "m_status m = MActive \<Longrightarrow> holds rid m \<Longrightarrow> m_status m' = MActive \<and> holds rid m' \<or> covered s rid i"
    using e own r id by (auto simp: mem_edit_def)
  note vals = put_vals[OF k e'(1)]
  have mem: "m \<in> set (mvals (memberships s))" using m by (rule mget_in_mvals)
  have loc: "holds rid x \<longrightarrow> m_organizationId x = og" if "x \<in> set (mvals (mset_at i m' (memberships s)))" for x
    using that o e'(2,3) mem unfolding vals owned_def by blast
  obtain x where x: "x \<in> set (mvals (memberships s))" "m_status x = MActive" "holds rid x" using o by (auto simp: owned_def)
  have "\<exists>y \<in> set (mvals (mset_at i m' (memberships s))). m_status y = MActive \<and> holds rid y"
  proof (cases "m_id x = i")
    case True
    then have "x = m" using x(1) m k by (auto simp: mem_keyed_def keyed_vals)
    then consider "m_status m' = MActive \<and> holds rid m'" | "covered s rid i" using e'(4) x(2,3) by blast
    then show ?thesis by cases (auto simp: vals covered_def)
  next
    case False
    then have "x \<in> set (mvals (mset_at i m' (memberships s)))" using x(1) by (simp add: vals)
    then show ?thesis using x(2,3) by blast
  qed
  then show ?thesis using loc by (simp add: owned_def)
qed

lemma put_edit_keyed:
  "mem_keyed s \<Longrightarrow> mget (memberships s) i = Some m \<Longrightarrow> mem_edit s i m m' \<Longrightarrow> mem_keyed (put_membership i m' s)"
  by (rule put_keyed) (auto simp: mem_edit_def dest: mem_keyed_get)

lemma edits_keyed:
  assumes "mem_keyed s" "edits_member now i s s'"
  shows "mem_keyed s'"
  using assms(2) unfolding edits_member_def
proof (elim disjE exE conjE)
  fix s1 m m' assume "s1 = lapseBlocks now s" "mget (memberships s1) i = Some m" "mem_edit s1 i m m'" "s' = put_membership i m' s1"
  then show ?thesis using put_edit_keyed[OF lapse_keyed[OF assms(1)]] by blast
next
  fix s1 m m' assume "s1 = s" "mget (memberships s1) i = Some m" "mem_edit s1 i m m'" "s' = put_membership i m' s1"
  then show ?thesis using put_edit_keyed[OF assms(1)] by blast
qed (use assms(1) lapse_keyed in simp_all)

lemma edits_owned:
  assumes k: "mem_keyed s" and o: "owned s rid og" and r: "mget (roles s) rid = Some r" "r_isOwnerRole r" "r_organizationId r = og"
    and e: "edits_member now i s s'"
  shows "owned s' rid og"
  using e unfolding edits_member_def
proof (elim disjE exE conjE)
  fix s1 m m' assume "s1 = lapseBlocks now s" "mget (memberships s1) i = Some m" "mem_edit s1 i m m'" "s' = put_membership i m' s1"
  then show ?thesis using put_owned[OF lapse_keyed[OF k] lapse_owned[OF o] _ r(2,3)] r(1) by simp
next
  fix s1 m m' assume "s1 = s" "mget (memberships s1) i = Some m" "mem_edit s1 i m m'" "s' = put_membership i m' s1"
  then show ?thesis using put_owned[OF k o r] by simp
qed (use o lapse_owned in simp_all)

lemma edits_frame:
  assumes "edits_member now i s s'"
  shows "roles s' = roles s" "identityLinksByFromKey s' = identityLinksByFromKey s"
  using assms by (auto simp: edits_member_def)

lemma mem_delete_cases:
  obtains (keep) "snd (mem_delete now i s) = s" | (lapse) "snd (mem_delete now i s) = lapseBlocks now s"
  | (removed) s1 m where "s1 = s \<or> s1 = lapseBlocks now s" "mget (memberships s) i = Some m"
      "snd (mem_delete now i s) = drop_member i s1"
      "\<And>rid. owner_role_id s rid \<Longrightarrow> holds rid m \<Longrightarrow>
         s1 = lapseBlocks now s \<and> \<not> fst (isLastOwnerRoleHolder now rid i (lapseBlocks now s))"
proof (cases "mget (memberships s) i")
  case None
  then show ?thesis using keep by (simp add: mem_delete_def)
next
  case (Some m)
  obtain b s1 where r: "holds_last_owner_role now (m_roleIds m) i s = (b, s1)" by fastforce
  have s1: "s1 = s \<or> s1 = lapseBlocks now s" using holds_last_store[of now "m_roleIds m" i s] r by simp
  show ?thesis
  proof (cases b)
    case True
    then show ?thesis using keep lapse s1 Some r by (auto simp: mem_delete_def)
  next
    case False
    then have "snd (mem_delete now i s) = drop_member i s1" using Some r by (simp add: mem_delete_def)
    moreover have "s1 = lapseBlocks now s \<and> \<not> fst (isLastOwnerRoleHolder now rid i (lapseBlocks now s))"
      if "owner_role_id s rid" "holds rid m" for rid
      using holds_last_False[of now "m_roleIds m" i s s1] r False that by (auto simp: holds_def)
    ultimately show ?thesis using removed[OF s1 Some] by blast
  qed
qed

lemma drop_member_simps [simp]:
  "memberships (drop_member i s) = mdel i (memberships s)" "roles (drop_member i s) = roles s"
  "identityLinksByFromKey (drop_member i s) = identityLinksByFromKey s"
  by (simp_all add: drop_member_def)

lemma mem_delete_keyed: "mem_keyed s \<Longrightarrow> mem_keyed (snd (mem_delete now i s))"
proof (cases rule: mem_delete_cases[of now i s])
  case (removed s1 m)
  assume "mem_keyed s"
  then have "mem_keyed s1" using removed(1) lapse_keyed by blast
  then show ?thesis unfolding removed(3) by (simp add: mem_keyed_def keyed_delete)
qed (simp_all add: lapse_keyed)

lemma mem_delete_owned:
  assumes k: "mem_keyed s" and o: "owned s rid og" and r: "mget (roles s) rid = Some r" "r_isOwnerRole r"
  shows "owned (snd (mem_delete now i s)) rid og"
proof (cases rule: mem_delete_cases[of now i s])
  case (removed s1 m)
  have k1: "mem_keyed s1" and o1: "owned s1 rid og" using removed(1) lapse_keyed[OF k] lapse_owned[OF o] k o by auto
  have vals: "x \<in> set (mvals (mdel i (memberships s1))) \<longleftrightarrow> x \<in> set (mvals (memberships s1)) \<and> m_id x \<noteq> i" for x
    using k1 by (simp add: mem_keyed_def keyed_vals_delete)
  obtain x where x: "x \<in> set (mvals (memberships s1))" "m_status x = MActive" "holds rid x" using o1 by (auto simp: owned_def)
  have "\<exists>y \<in> set (mvals (mdel i (memberships s1))). m_status y = MActive \<and> holds rid y"
  proof (cases "m_id x = i")
    case True
    have get: "mget (memberships s1) i = Some x" using x(1) True k1 by (auto simp: mem_keyed_def keyed_vals)
    then have "holds rid m" using removed(1,2) x(3) by auto
    moreover have "owner_role_id s rid" using r by (simp add: owner_role_id_def)
    ultimately have own: "owner_role_id s rid" and l: "s1 = lapseBlocks now s"
        and last: "\<not> fst (isLastOwnerRoleHolder now rid i (lapseBlocks now s))"
      using removed(4) by blast+
    have "covered (lapseBlocks now s) rid i"
    proof (rule isLast_False[OF _ own _ x(2)])
      show "\<not> fst (isLastOwnerRoleHolder now rid i s)" using last unfolding isLast_lapsed[OF own] .
      show "mget (memberships (lapseBlocks now s)) i = Some x" using get unfolding l .
    qed
    then obtain y where "y \<in> set (mvals (memberships s1))" "m_id y \<noteq> i" "m_status y = MActive" "holds rid y"
      unfolding covered_def l[symmetric] by blast
    then show ?thesis using vals by blast
  qed (use x in \<open>auto simp: vals\<close>)
  then show ?thesis using o1 unfolding removed(3) by (simp add: owned_def vals)
qed (use o lapse_owned in simp_all)

text \<open>A new member with a new id.\<close>

lemma mem_create_cases:
  obtains (throw) e where "mem_create now input s = (Inl e, s)"
  | (created) "mem_create now input s = (Inr (new_membership now input), put_membership (cm_id input) (new_membership now input) s)"
      "\<And>x. x \<in> set (mvals (memberships s)) \<Longrightarrow> m_organizationId x = cm_organizationId input \<Longrightarrow> m_identity x \<noteq> cm_identity input"
      "mget (identityLinksByFromKey s) (identityKey (cm_identity input)) = None"
      "\<And>rid. rid \<in> set (cm_roleIds input) \<Longrightarrow> \<exists>r. mget (roles s) rid = Some r \<and> r_organizationId r = cm_organizationId input"
proof (cases "list_ex (\<lambda>m. m_organizationId m = cm_organizationId input \<and> sameIdentity (m_identity m) (cm_identity input)) (mvals (memberships s))
    \<or> mhas (identityLinksByFromKey s) (identityKey (cm_identity input))")
  case True
  then have "\<exists>e. mem_create now input s = (Inl e, s)" by (auto simp: mem_create_def fails_def)
  then show ?thesis using throw by blast
next
  case no: False
  show ?thesis
  proof (cases "checkr (role_check s (cm_organizationId input) (quoted (cm_organizationId input)) (cm_id input)) (cm_roleIds input)")
    case (Some e)
    then have "mem_create now input s = (Inl e, s)" using no by (simp add: mem_create_def fails_def)
    then show ?thesis by (rule throw)
  next
    case None
    have "mem_create now input s = (Inr (new_membership now input), put_membership (cm_id input) (new_membership now input) s)"
      using None no by (simp add: mem_create_def returns_def)
    moreover have "\<exists>r. mget (roles s) rid = Some r \<and> r_organizationId r = cm_organizationId input"
      if "rid \<in> set (cm_roleIds input)" for rid
      using None that by (simp add: checkr_None role_check_None)
    ultimately show ?thesis using created no by (simp add: list_ex_iff mhas_def)
  qed
qed

lemma new_membership_simps [simp]:
  "m_id (new_membership now input) = cm_id input" "m_organizationId (new_membership now input) = cm_organizationId input"
  "m_identity (new_membership now input) = cm_identity input" "m_roleIds (new_membership now input) = cm_roleIds input"
  "m_status (new_membership now input) = MActive" "m_version (new_membership now input) = 1"
  by (simp_all add: new_membership_def Let_def)

lemma mem_create_keyed: "mem_keyed s \<Longrightarrow> mem_keyed (snd (mem_create now input s))"
  by (cases rule: mem_create_cases[of now input s]) (simp_all add: put_keyed)

lemma mem_create_owned:
  assumes k: "mem_keyed s" and o: "owned s rid og" and r: "mget (roles s) rid = Some r" "r_organizationId r = og"
    and fresh: "\<not> mhas (memberships s) (cm_id input)"
  shows "owned (snd (mem_create now input s)) rid og"
proof (cases rule: mem_create_cases[of now input s])
  case created
  have vals: "x \<in> set (mvals (mset_at (cm_id input) (new_membership now input) (memberships s))) \<longleftrightarrow>
      x = new_membership now input \<or> x \<in> set (mvals (memberships s))" for x
    using put_vals[OF k, of "new_membership now input" "cm_id input" x] fresh k
    by (auto simp: mhas_def mem_keyed_def keyed_vals)
  then show ?thesis using o created(4)[of rid] r created(1) by (auto simp: owned_def holds_def)
qed (use o in simp)

section \<open>Steps of the storage that involve members\<close>

text \<open>
  One call of a membership, role or identity-link operation, whatever it returns.  Two things are asked of the callers: a new member
  gets a new id (\<open>creates\<close>), as the services that generate ids do, though \<open>mem_create\<close> itself accepts an id in use and
  replaces that member; and \<open>ok\<close> says which identities are used.
\<close>

inductive mem_step :: "(string \<Rightarrow> string) \<Rightarrow> (identity \<Rightarrow> bool) \<Rightarrow> store \<Rightarrow> store \<Rightarrow> bool" for H ok where
  reads: "mem_step H ok s (lapseBlocks now s)"
| creates: "\<not> mhas (memberships s) (cm_id input) \<Longrightarrow> ok (cm_identity input) \<Longrightarrow> mem_step H ok s (snd (mem_create now input s))"
| assigns: "mem_step H ok s (snd (mem_assignRole now i rid v s))"
| assigns_owner: "mem_step H ok s (snd (mem_assignOwnerRole now i rid s))"
| unassigns: "mem_step H ok s (snd (mem_unassignRole now i rid v s))"
| unassigns_owner: "mem_step H ok s (snd (mem_unassignOwnerRole now i rid s))"
| blocks: "mem_step H ok s (snd (mem_block now i b s))"
| suspends: "mem_step H ok s (snd (mem_suspend now i b until s))"
| unblocks: "mem_step H ok s (snd (mem_unblock now i v s))"
| records: "mem_step H ok s (snd (mem_recordActivity i now s))"
| deletes: "mem_step H ok s (snd (mem_delete now i s))"
| roles: "mem_step H ok s (role_exec c s)"
| links: "ok from \<Longrightarrow> ok to \<Longrightarrow> mem_step H ok s (snd (link H now r from to actor s))"
| unlinks: "mem_step H ok s (snd (unlink H now r from actor s))"

lemma block_edits: "edits_member now i s (snd (mem_block now i b s))"
  unfolding mem_block_def by (rule blockWithin_edits)

lemma suspend_edits: "edits_member now i s (snd (mem_suspend now i b until s))"
  by (auto simp: mem_suspend_def blockWithin_edits split: guard_split option.split)

lemmas member_edits = assignRole_edits assignOwnerRole_edits unassignRole_edits unassignOwnerRole_edits
  block_edits suspend_edits unblock_edits

text \<open>
  The case rule the invariants use: a member was edited, created or deleted, a role operation changed
  only which roles that are not Owner roles are held, or the links changed.
\<close>

definition recast :: "store \<Rightarrow> (membership \<Rightarrow> membership) \<Rightarrow> bool" where
  "recast s g \<longleftrightarrow> (\<forall>m. m_id (g m) = m_id m \<and> m_organizationId (g m) = m_organizationId m \<and> m_identity (g m) = m_identity m \<and>
     m_status (g m) = m_status m \<and> (\<forall>rid. owner_role_id s rid \<longrightarrow> holds rid (g m) = holds rid m))"

lemma recast_id: "recast s (\<lambda>m. m)"
  by (simp add: recast_def)

lemma recast_comp: "recast s f \<Longrightarrow> recast s g \<Longrightarrow> recast s (\<lambda>m. f (g m))"
  by (simp add: recast_def)

lemma mmap_ident: "mmap (\<lambda>m. m) ms = ms"
  by (simp add: mmap_def)

lemma recast_remove: "\<not> owner_role_id s rid \<Longrightarrow> recast s (\<lambda>m. m \<lparr> m_roleIds := remove1 rid (m_roleIds m) \<rparr>)"
  by (auto simp: recast_def holds_def in_set_remove1 dest: notin_set_remove1 intro: in_set_remove1[THEN iffD2])

lemma recast_add:
  "\<not> owner_role_id s t \<Longrightarrow> recast s (\<lambda>m. if P m then m \<lparr> m_roleIds := m_roleIds m @ [t] \<rparr> else m)"
  by (auto simp: recast_def holds_def)

lemma put_role_frame [simp]:
  "memberships (put_role r s) = memberships s" "identityLinksByFromKey (put_role r s) = identityLinksByFromKey s"
  by (simp_all add: put_role_def)

lemma role_create_frame:
  "memberships (snd (role_create input s)) = memberships s"
  "identityLinksByFromKey (snd (role_create input s)) = identityLinksByFromKey s"
  by (cases rule: role_create_cases[of input s]; simp)+

lemma edits_role_frame:
  assumes "edits_role k s s'"
  shows "memberships s' = memberships s" "identityLinksByFromKey s' = identityLinksByFromKey s"
  using assms by (auto simp: edits_role_def)

lemma apply_update_frame:
  "memberships (snd (role_apply_update k n d v s)) = memberships s"
  "identityLinksByFromKey (snd (role_apply_update k n d v s)) = identityLinksByFromKey s"
  by (auto simp: role_apply_update_def Let_def split: option.split guard_split)

lemma role_other_frame:
  "memberships (snd (role_createOwnerRole k og s)) = memberships s"
  "identityLinksByFromKey (snd (role_createOwnerRole k og s)) = identityLinksByFromKey s"
  "memberships (snd (role_rename k n s)) = memberships s"
  "identityLinksByFromKey (snd (role_rename k n s)) = identityLinksByFromKey s"
  "memberships (snd (role_update k u s)) = memberships s"
  "identityLinksByFromKey (snd (role_update k u s)) = identityLinksByFromKey s"
  "memberships (snd (role_clone k c s)) = memberships s"
  "identityLinksByFromKey (snd (role_clone k c s)) = identityLinksByFromKey s"
  by (auto simp: role_createOwnerRole_def role_rename_def role_update_def role_clone_def role_create_frame
      apply_update_frame Let_def split: option.split guard_split)

lemma role_delete_links: "identityLinksByFromKey (snd (role_delete k p s)) = identityLinksByFromKey s"
  by (auto simp: role_delete_def detach_role_def split: option.split members_policy.split)

lemma role_delete_members:
  assumes wf: "roles_wf s"
  shows "\<exists>g. recast s g \<and> memberships (snd (role_delete k p s)) = mmap g (memberships s)"
proof -
  let ?drop = "\<lambda>m. m \<lparr> m_roleIds := remove1 k (m_roleIds m) \<rparr>"
  consider (same) "memberships (snd (role_delete k p s)) = memberships s"
    | (drop) "\<not> owner_role_id s k" "memberships (snd (role_delete k p s)) = mmap ?drop (memberships s)"
    | (move) t :: role where "\<not> owner_role_id s k" "\<not> owner_role_id s (r_id t)" "memberships (snd (role_delete k p s)) =
        mmap ?drop (mmap (\<lambda>m. if k \<in> set (m_roleIds m) \<and> r_id t \<notin> set (m_roleIds m)
          then m \<lparr> m_roleIds := m_roleIds m @ [r_id t] \<rparr> else m) (memberships s))"
  proof (cases "mget (roles s) k")
    case None
    then show ?thesis using same by (simp add: role_delete_def)
  next
    case (Some r)
    show ?thesis
    proof (cases "r_isOwnerRole r \<or> r_isSystem r")
      case True
      then show ?thesis using same Some by (auto simp: role_delete_def)
    next
      case False
      then have nk: "\<not> owner_role_id s k" using Some by (simp add: owner_role_id_def)
      show ?thesis
      proof (cases p)
        case Detach
        then show ?thesis using drop[OF nk] Some False by (simp add: role_delete_def detach_role_def)
      next
        case Reject
        then show ?thesis using drop[OF nk] same Some False
          by (cases "list_ex (\<lambda>m. k \<in> set (m_roleIds m)) (mvals (memberships s)) \<or>
            list_ex (\<lambda>t. k \<in> set (tm_roleIds t)) (mvals (teamMemberships s))") (simp_all add: role_delete_def detach_role_def)
      next
        case (ReassignTo target)
        show ?thesis
        proof (cases "\<exists>t. mget (roles s) target = Some t \<and> \<not> (r_organizationId t \<noteq> r_organizationId r \<or> r_isOwnerRole t \<or> r_id t = k)")
          case True
          then obtain t where t: "mget (roles s) target = Some t" "r_organizationId t = r_organizationId r"
            "\<not> r_isOwnerRole t" "r_id t \<noteq> k" by blast
          then have nt: "\<not> owner_role_id s (r_id t)"
            using keyed_get[OF roles_keyed[OF wf] t(1)] by (simp add: owner_role_id_def)
          show ?thesis by (rule move[OF nk nt]) (use Some False ReassignTo t in \<open>simp add: role_delete_def detach_role_def\<close>)
        next
          case bad: False
          then show ?thesis using same Some False ReassignTo by (auto simp: role_delete_def split: option.split)
        qed
      qed
    qed
  qed
  then show ?thesis
  proof cases
    case same
    then show ?thesis using recast_id by (metis mmap_ident)
  next
    case drop
    then show ?thesis using recast_remove by blast
  next
    case (move t)
    then show ?thesis using recast_comp[OF recast_remove recast_add] by (fastforce simp: mmap_mmap)
  qed
qed

lemma role_exec_frame:
  assumes wf: "roles_wf s"
  shows "\<exists>g. recast s g \<and> memberships (role_exec c s) = mmap g (memberships s)"
    and "identityLinksByFromKey (role_exec c s) = identityLinksByFromKey s"
proof -
  have same: "\<exists>g. recast s g \<and> memberships (role_exec c s) = mmap g (memberships s)" if "memberships (role_exec c s) = memberships s"
    using that recast_id[of s] by (metis mmap_ident)
  show "\<exists>g. recast s g \<and> memberships (role_exec c s) = mmap g (memberships s)"
    using same role_delete_members[OF wf]
    by (cases c) (auto simp: role_create_frame role_other_frame edits_role_frame[OF grantPermission_edits]
        edits_role_frame[OF revokePermission_edits] edits_role_frame[OF setPermissions_edits])
  show "identityLinksByFromKey (role_exec c s) = identityLinksByFromKey s"
    by (cases c) (simp_all add: role_create_frame role_other_frame role_delete_links edits_role_frame[OF grantPermission_edits]
        edits_role_frame[OF revokePermission_edits] edits_role_frame[OF setPermissions_edits])
qed

lemma recast_keyed: "recast s g \<Longrightarrow> mem_keyed s \<Longrightarrow> memberships s' = mmap g (memberships s) \<Longrightarrow> mem_keyed s'"
  by (simp add: mem_keyed_def recast_def keyed_mmap)

lemma recast_owned:
  assumes "recast s g" "owned s rid og" "owner_role_id s rid" "memberships s' = mmap g (memberships s)"
  shows "owned s' rid og"
  using assms unfolding owned_def recast_def by auto

lemma same_owned: "memberships s' = memberships s \<Longrightarrow> owned s rid og \<Longrightarrow> owned s' rid og"
  by (simp add: owned_def)

lemma same_keyed: "memberships s' = memberships s \<Longrightarrow> mem_keyed s \<Longrightarrow> mem_keyed s'"
  by (simp add: mem_keyed_def)

lemma audit_record_roles: "roles (snd (audit_record H now i s)) = roles s"
  by (simp add: audit_record_def Let_def append_entry_def split: guard_split)

lemma link_roles: "roles (snd (link H now r from to actor s)) = roles s"
  by (auto simp: link_def Let_def and_then_snd_returns audit_record_roles split: option.split)

lemma unlink_roles: "roles (snd (unlink H now r from actor s)) = roles s"
  by (auto simp: unlink_def Let_def and_then_snd_returns audit_record_roles split: option.split)

lemma mem_create_roles: "roles (snd (mem_create now input s)) = roles s"
  by (cases rule: mem_create_cases[of now input s]) simp_all

lemma mem_delete_roles: "roles (snd (mem_delete now i s)) = roles s"
  by (cases rule: mem_delete_cases[of now i s]) auto

lemmas member_edits_frame = member_edits[THEN edits_frame(1)] member_edits[THEN edits_frame(2)]
  recordActivity_edits[THEN edits_frame(1)] recordActivity_edits[THEN edits_frame(2)]

text \<open>What every step keeps, and what it keeps of an Owner role that is held.\<close>

definition people :: "store \<Rightarrow> bool" where
  "people s \<longleftrightarrow> mem_keyed s \<and> roles_wf s"

lemma mem_step_people:
  assumes "mem_step H ok s s'" "people s"
  shows "people s'"
  using assms
proof (cases rule: mem_step.cases)
  case (roles c)
  obtain g where "recast s g" "memberships (role_exec c s) = mmap g (memberships s)"
    using role_exec_frame(1) assms(2) by (auto simp: people_def)
  then show ?thesis using roles assms(2) role_exec_wf recast_keyed by (auto simp: people_def)
qed (auto simp: people_def lapse_keyed mem_create_keyed mem_delete_keyed edits_keyed[OF _ recordActivity_edits]
    member_edits[THEN edits_keyed[rotated]] member_edits_frame mem_create_roles mem_delete_roles link_roles unlink_roles
    intro: roles_wf_same same_keyed[OF link_memberships] same_keyed[OF unlink_memberships])

lemma mem_step_owned:
  assumes st: "mem_step H ok s s'" and p: "people s" and r: "mget (roles s) rid = Some r" "r_isOwnerRole r"
    and o: "owned s rid (r_organizationId r)"
  shows "mget (roles s') rid = Some r \<and> owned s' rid (r_organizationId r)"
proof -
  have k: "mem_keyed s" and wf: "roles_wf s" using p by (simp_all add: people_def)
  have own: "owner_role_id s rid" using r by (simp add: owner_role_id_def)
  note edit = edits_owned[OF k o r refl]
  show ?thesis
    using st
  proof (cases rule: mem_step.cases)
    case (roles c)
    obtain g where "recast s g" "memberships (role_exec c s) = mmap g (memberships s)"
      using role_exec_frame(1)[OF wf] by blast
    then show ?thesis using roles recast_owned[OF _ o own] role_exec_keeps_owner[OF wf r] by simp
  qed (use r(1) in \<open>simp_all add: lapse_owned o mem_create_owned[OF k o r(1) refl] mem_delete_owned[OF k o r] edit[OF recordActivity_edits]
      member_edits[THEN edit] member_edits_frame mem_create_roles mem_delete_roles link_roles unlink_roles
      same_owned[OF link_memberships o] same_owned[OF unlink_memberships o]\<close>)
qed

text \<open>One member per organization and identity, and no member whose identity is an alias.\<close>

definition members_ok :: "store \<Rightarrow> bool" where
  "members_ok s \<longleftrightarrow> people s \<and> links_wf s \<and>
     (\<forall>x \<in> set (mvals (memberships s)). clean_identity (m_identity x) \<and>
        mget (identityLinksByFromKey s) (identityKey (m_identity x)) = None) \<and>
     (\<forall>x \<in> set (mvals (memberships s)). \<forall>y \<in> set (mvals (memberships s)).
        m_organizationId x = m_organizationId y \<and> m_identity x = m_identity y \<longrightarrow> m_id x = m_id y)"

lemma members_okI:
  assumes "people s" "links_wf s"
    "\<And>x. x \<in> set (mvals (memberships s)) \<Longrightarrow>
       clean_identity (m_identity x) \<and> mget (identityLinksByFromKey s) (identityKey (m_identity x)) = None"
    "\<And>x y. x \<in> set (mvals (memberships s)) \<Longrightarrow> y \<in> set (mvals (memberships s)) \<Longrightarrow>
       m_organizationId x = m_organizationId y \<Longrightarrow> m_identity x = m_identity y \<Longrightarrow> m_id x = m_id y"
  shows "members_ok s"
  unfolding members_ok_def using assms by blast

text \<open>Every member of \<open>s'\<close> was one of \<open>s\<close>.\<close>

definition kin :: "store \<Rightarrow> store \<Rightarrow> bool" where
  "kin s s' \<longleftrightarrow> identityLinksByFromKey s' = identityLinksByFromKey s \<and>
     (\<forall>y \<in> set (mvals (memberships s')). \<exists>x \<in> set (mvals (memberships s)).
        m_id x = m_id y \<and> m_organizationId x = m_organizationId y \<and> m_identity x = m_identity y)"

lemma kin_refl: "kin s s"
  by (auto simp: kin_def)

lemma kin_trans: "kin s s' \<Longrightarrow> kin s' s'' \<Longrightarrow> kin s s''"
  unfolding kin_def by (metis (full_types))

lemma kin_ok: "members_ok s \<Longrightarrow> people s' \<Longrightarrow> kin s s' \<Longrightarrow> members_ok s'"
  unfolding members_ok_def kin_def links_wf_def by (metis (full_types))

lemma kin_mmap:
  assumes "identityLinksByFromKey s' = identityLinksByFromKey s" "memberships s' = mmap g (memberships s)"
    "\<And>m. m_id (g m) = m_id m \<and> m_organizationId (g m) = m_organizationId m \<and> m_identity (g m) = m_identity m"
  shows "kin s s'"
  using assms by (auto simp: kin_def)

lemma kin_lapse: "kin s (lapseBlocks now s)"
  by (rule kin_mmap[of _ _ "lapse now"]) simp_all

lemma kin_put:
  assumes "mem_keyed s" "mget (memberships s) i = Some m" "mem_edit s i m m'"
  shows "kin s (put_membership i m' s)"
proof -
  have "m_id m' = i" using assms by (simp add: mem_edit_def mem_keyed_get[OF assms(1,2)])
  note vals = put_vals[OF assms(1) this]
  have "\<exists>x \<in> set (mvals (memberships s)). m_id x = m_id y \<and> m_organizationId x = m_organizationId y \<and> m_identity x = m_identity y"
    if "y \<in> set (mvals (mset_at i m' (memberships s)))" for y
  proof (cases "y = m'")
    case True
    then show ?thesis using mget_in_mvals[OF assms(2)] assms(3) by (intro bexI[of _ m]) (simp_all add: mem_edit_def)
  qed (use that vals in auto)
  then show ?thesis by (simp add: kin_def)
qed

lemma kin_edits:
  assumes "mem_keyed s" "edits_member now i s s'"
  shows "kin s s'"
  using assms(2) unfolding edits_member_def
proof (elim disjE exE conjE)
  fix s1 m m' assume "s1 = lapseBlocks now s" "mget (memberships s1) i = Some m" "mem_edit s1 i m m'" "s' = put_membership i m' s1"
  then show ?thesis using kin_trans[OF kin_lapse kin_put[OF lapse_keyed[OF assms(1)]]] by blast
next
  fix s1 m m' assume "s1 = s" "mget (memberships s1) i = Some m" "mem_edit s1 i m m'" "s' = put_membership i m' s1"
  then show ?thesis using kin_put[OF assms(1)] by blast
qed (simp_all add: kin_refl kin_lapse)

lemma kin_drop: "mem_keyed s \<Longrightarrow> kin s (drop_member i s)"
  by (auto simp: kin_def mem_keyed_def keyed_vals_delete)

lemma kin_delete:
  assumes "mem_keyed s"
  shows "kin s (snd (mem_delete now i s))"
proof (cases rule: mem_delete_cases[of now i s])
  case (removed s1 m)
  have "kin s s1" "mem_keyed s1" using removed(1) kin_refl kin_lapse lapse_keyed[OF assms] assms by blast+
  then show ?thesis unfolding removed(3) using kin_trans kin_drop by blast
qed (simp_all add: kin_refl kin_lapse)

lemma create_ok:
  assumes ok: "members_ok s" and c: "clean_identity (cm_identity input)" and fresh: "\<not> mhas (memberships s) (cm_id input)"
  shows "members_ok (snd (mem_create now input s))"
proof (cases rule: mem_create_cases[of now input s])
  case created
  have k: "mem_keyed s" using ok by (simp add: members_ok_def people_def)
  have p: "people (snd (mem_create now input s))"
    using ok mem_create_keyed[OF k] roles_wf_same[OF _ mem_create_roles] by (auto simp: members_ok_def people_def)
  have vals: "x \<in> set (mvals (mset_at (cm_id input) (new_membership now input) (memberships s))) \<longleftrightarrow>
      x = new_membership now input \<or> (x \<in> set (mvals (memberships s)) \<and> m_id x \<noteq> cm_id input)" for x
    by (rule put_vals[OF k]) simp
  have old: "m_organizationId x = cm_organizationId input \<Longrightarrow> m_identity x \<noteq> cm_identity input"
    "clean_identity (m_identity x) \<and> mget (identityLinksByFromKey s) (identityKey (m_identity x)) = None"
    if "x \<in> set (mvals (memberships s))" for x
    using created(2) ok that by (auto simp: members_ok_def)
  have pairs: "m_id x = m_id y"
    if "x \<in> set (mvals (memberships s))" "y \<in> set (mvals (memberships s))" "m_organizationId x = m_organizationId y"
      "m_identity x = m_identity y" for x y
    using ok that unfolding members_ok_def by blast
  have new: "clean_identity (m_identity x) \<and> mget (identityLinksByFromKey s) (identityKey (m_identity x)) = None"
    if "x = new_membership now input \<or> (x \<in> set (mvals (memberships s)) \<and> m_id x \<noteq> cm_id input)" for x
    using that old(2) c created(3) by auto
  have new_pairs: "m_id x = m_id y"
    if "x = new_membership now input \<or> (x \<in> set (mvals (memberships s)) \<and> m_id x \<noteq> cm_id input)"
      "y = new_membership now input \<or> (y \<in> set (mvals (memberships s)) \<and> m_id y \<noteq> cm_id input)"
      "m_organizationId x = m_organizationId y" "m_identity x = m_identity y" for x y
    using that(1,2)
  proof (elim disjE conjE)
    assume "x \<in> set (mvals (memberships s))" "y \<in> set (mvals (memberships s))"
    then show ?thesis by (rule pairs[OF _ _ that(3,4)])
  qed (use old(1) that(3,4) in auto)
  have "links_wf s" using ok by (simp add: members_ok_def)
  then have "links_wf (put_membership (cm_id input) (new_membership now input) s)" by (simp add: links_wf_def)
  moreover have "people (put_membership (cm_id input) (new_membership now input) s)" using p created(1) by simp
  ultimately have "members_ok (put_membership (cm_id input) (new_membership now input) s)"
  proof (intro members_okI)
    fix x assume "x \<in> set (mvals (memberships (put_membership (cm_id input) (new_membership now input) s)))"
    then have "x = new_membership now input \<or> (x \<in> set (mvals (memberships s)) \<and> m_id x \<noteq> cm_id input)"
      unfolding put_membership_simps vals .
    from new[OF this] show "clean_identity (m_identity x) \<and>
        mget (identityLinksByFromKey (put_membership (cm_id input) (new_membership now input) s)) (identityKey (m_identity x)) = None"
      by (simp only: put_membership_simps)
  next
    fix x y assume xy: "x \<in> set (mvals (memberships (put_membership (cm_id input) (new_membership now input) s)))"
      "y \<in> set (mvals (memberships (put_membership (cm_id input) (new_membership now input) s)))"
      "m_organizationId x = m_organizationId y" "m_identity x = m_identity y"
    show "m_id x = m_id y" using new_pairs[of x y] xy unfolding put_membership_simps vals by blast
  qed
  then show ?thesis by (simp add: created(1))
qed (use ok in simp)

lemma link_ok:
  assumes ok: "members_ok s" and c: "clean_identity from" "clean_identity to"
  shows "members_ok (snd (link H now r from to actor s))"
proof -
  have wf: "links_wf (snd (link H now r from to actor s))" using ok c link_links_wf by (simp add: members_ok_def)
  have p: "people (snd (link H now r from to actor s))"
    using ok roles_wf_same[OF _ link_roles] same_keyed[OF link_memberships] by (auto simp: members_ok_def people_def)
  have none: "mget (identityLinksByFromKey (snd (link H now r from to actor s))) (identityKey (m_identity x)) = None"
    if x: "x \<in> set (mvals (memberships s))" for x
    using link_links[of H now r "from" to actor s] ok x identityKey_inj[OF _ c(1), of "m_identity x"]
    by (auto simp: members_ok_def)
  show ?thesis using ok wf p none unfolding members_ok_def link_memberships by blast
qed

lemma unlink_ok:
  assumes ok: "members_ok s"
  shows "members_ok (snd (unlink H now r from actor s))"
proof -
  have wf: "links_wf (snd (unlink H now r from actor s))" using ok unlink_links_wf by (simp add: members_ok_def)
  have p: "people (snd (unlink H now r from actor s))"
    using ok roles_wf_same[OF _ unlink_roles] same_keyed[OF unlink_memberships] by (auto simp: members_ok_def people_def)
  have none: "mget (identityLinksByFromKey (snd (unlink H now r from actor s))) (identityKey (m_identity x)) = None"
    if x: "x \<in> set (mvals (memberships s))" for x
    using unlink_links[of H now r "from" actor s] ok x by (auto simp: members_ok_def)
  show ?thesis using ok wf p none unfolding members_ok_def unlink_memberships by blast
qed

lemma mem_step_ok:
  assumes st: "mem_step H clean_identity s s'" and ok: "members_ok s"
  shows "members_ok s'"
proof -
  have p: "people s" and k: "mem_keyed s" using ok by (simp_all add: members_ok_def people_def)
  have p': "people s'" using mem_step_people[OF st p] .
  show ?thesis using st
  proof (cases rule: mem_step.cases)
    case (roles c)
    have wf: "roles_wf s" using p by (simp add: people_def)
    obtain g where "recast s g" "memberships (role_exec c s) = mmap g (memberships s)"
      using role_exec_frame(1)[OF wf] by blast
    then have "kin s (role_exec c s)" by (intro kin_mmap[of _ _ g] role_exec_frame(2)[OF wf]) (simp_all add: recast_def)
    then show ?thesis using p' roles by (simp add: kin_ok[OF ok])
  qed (use p' in \<open>simp_all add: kin_ok[OF ok] kin_lapse create_ok[OF ok] link_ok[OF ok] unlink_ok[OF ok] kin_delete[OF k]
      member_edits[THEN kin_edits[OF k]] recordActivity_edits[THEN kin_edits[OF k]]\<close>)
qed

lemma owned_run:
  assumes "(mem_step H ok)\<^sup>*\<^sup>* s s'" and "people s" and "mget (roles s) rid = Some r" "r_isOwnerRole r"
    and "owned s rid (r_organizationId r)"
  shows "people s' \<and> mget (roles s') rid = Some r \<and> owned s' rid (r_organizationId r)"
  using assms(1)
proof (induction rule: rtranclp_induct)
  case (step s1 s2)
  then show ?case using mem_step_people[OF step.hyps(2)] mem_step_owned[OF step.hyps(2) _ _ assms(4)] by blast
qed (use assms in simp)

text \<open>
  C4: an organization never loses its last active Owner.  On a well-formed store (\<open>people\<close>, which every step keeps), if its Owner role
  is held by an active member, then after any steps of the membership, role and identity-link operations, at any times and with any
  arguments but for one condition, the same Owner role is there and an active member of the organization holds it.  The condition is on
  \<open>memberships.create\<close>: the id of the new membership is not in use (rule \<open>creates\<close> of \<open>mem_step\<close>).  The code does not check it,
  and without it the property is false: \<open>create_reused_id_orphans\<close> replaces the only Owner.
\<close>

theorem owner_always_active:
  assumes "(mem_step H ok)\<^sup>*\<^sup>* s s'" and "people s" and "mget (roles s) rid = Some r" "r_isOwnerRole r"
    and "owned s rid (r_organizationId r)"
  shows "mget (roles s') rid = Some r \<and>
    (\<exists>m \<in> set (mvals (memberships s')). m_organizationId m = r_organizationId r \<and> m_status m = MActive \<and> rid \<in> set (m_roleIds m))"
proof -
  have "owned s' rid (r_organizationId r)" "mget (roles s') rid = Some r" using owned_run[OF assms] by simp_all
  then show ?thesis by (auto simp: owned_def holds_def)
qed

lemma find_unique:
  "x \<in> set xs \<Longrightarrow> P x \<Longrightarrow> (\<And>y. y \<in> set xs \<Longrightarrow> P y \<Longrightarrow> y = x) \<Longrightarrow> find P xs = Some x"
proof (induction xs)
  case (Cons a xs)
  show ?case
  proof (cases "P a")
    case True
    then show ?thesis using Cons.prems(3)[of a] by simp
  next
    case False
    then have "x \<in> set xs" using Cons.prems(1,2) by auto
    moreover have "find P xs = Some x"
      by (rule Cons.IH[OF \<open>x \<in> set xs\<close> Cons.prems(2)]) (rule Cons.prems(3), simp)
    ultimately show ?thesis using False by simp
  qed
qed simp

lemma members_ok_find:
  assumes ok: "members_ok s" and m: "m \<in> set (mvals (memberships s))"
  shows "fst (mem_findByIdentity now (m_organizationId m) (m_identity m) s) = Some (lapse now m)"
proof -
  have k: "mem_keyed s" using ok by (simp add: members_ok_def people_def)
  have res: "resolve s (m_identity m) = m_identity m" using ok m by (simp add: members_ok_def resolve_def)
  have "y = lapse now m" if y: "y \<in> set (map (lapse now) (mvals (memberships s)))"
      "m_organizationId y = m_organizationId m \<and> m_identity y = m_identity m" for y
  proof -
    obtain x where x: "x \<in> set (mvals (memberships s))" "y = lapse now x" using y(1) by auto
    then have "m_id x = m_id m" using y(2) m ok unfolding members_ok_def by fastforce
    then have "x = m" using x(1) m k keyed_vals[of m_id "memberships s"] by (simp add: mem_keyed_def)
    then show ?thesis using x(2) by simp
  qed
  then show ?thesis using m
    by (simp add: mem_findByIdentity_def Let_def res) (rule find_unique, auto)
qed

lemma members_ok_empty: "members_ok empty_store"
  by (simp add: members_ok_def people_def mem_keyed_def links_wf_def)

lemma members_ok_reachable: "(mem_step H clean_identity)\<^sup>*\<^sup>* s s' \<Longrightarrow> members_ok s \<Longrightarrow> members_ok s'"
  by (induction rule: rtranclp_induct) (auto intro: mem_step_ok)

text \<open>
  Every member is found by its own identity.  In every state the operations reach from an empty
  storage with identities whose provider has no colon, \<open>findByIdentity\<close> with a member's organization and
  identity returns that member: no link redirects it and no second membership hides it.
\<close>

theorem member_found_by_identity:
  assumes "(mem_step H clean_identity)\<^sup>*\<^sup>* empty_store s" and "m \<in> set (mvals (memberships s))"
  shows "fst (mem_findByIdentity now (m_organizationId m) (m_identity m) s) = Some (lapse now m)"
  using members_ok_find[OF members_ok_reachable[OF assms(1) members_ok_empty] assms(2)] .

subsection \<open>Concrete members\<close>

definition demo_member_input :: create_membership where
  "demo_member_input = \<lparr> cm_id = ''m1'', cm_organizationId = ''o1'', cm_identity = ident ''clerk'' ''1'', cm_roleIds = [],
     cm_invitedBy = None, cm_createdAt = None \<rparr>"

lemma demo_member_input_simps:
  "cm_organizationId demo_member_input = ''o1''" "cm_identity demo_member_input = ident ''clerk'' ''1''"
  by (simp_all add: demo_member_input_def)

definition demo_owner_member :: membership where
  "demo_owner_member = (new_membership 0 demo_member_input) \<lparr> m_roleIds := [''r1''] \<rparr>"

definition demo_member_store :: store where
  "demo_member_store = demo_role_store \<lparr> memberships := [(''m1'', demo_owner_member)] \<rparr>"

lemma demo_member_store_simps [simp]:
  "memberships demo_member_store = [(''m1'', demo_owner_member)]"
  "mget (roles demo_member_store) ''r1'' = Some demo_owner"
  "mget (roles demo_member_store) ''r2'' = Some demo_role"
  "identityLinksByFromKey demo_member_store = []"
  by (simp_all add: demo_member_store_def demo_role_store_def)

lemma demo_owner_member_simps [simp]:
  "m_id demo_owner_member = ''m1''" "m_organizationId demo_owner_member = ''o1''" "m_status demo_owner_member = MActive"
  "m_roleIds demo_owner_member = [''r1'']" "m_identity demo_owner_member = ident ''clerk'' ''1''"
  by (simp_all add: demo_owner_member_def demo_member_input_def)

lemma demo_people: "people demo_member_store"
  using demo_role_store_wf roles_wf_same[of demo_role_store demo_member_store]
  by (simp add: people_def mem_keyed_def keyed_def demo_member_store_def)

lemma demo_owned: "owned demo_member_store ''r1'' ''o1''"
  by (simp add: owned_def holds_def mvals_def)

theorem owner_always_active_witness:
  "mget (roles (snd (mem_delete 5 ''m1'' demo_member_store))) ''r1'' = Some demo_owner \<and>
   (\<exists>m \<in> set (mvals (memberships (snd (mem_delete 5 ''m1'' demo_member_store)))). m_organizationId m = r_organizationId demo_owner \<and>
     m_status m = MActive \<and> ''r1'' \<in> set (m_roleIds m))"
proof (rule owner_always_active)
  show "(mem_step id (\<lambda>_. True))\<^sup>*\<^sup>* demo_member_store (snd (mem_delete 5 ''m1'' demo_member_store))"
    by (rule r_into_rtranclp) (rule mem_step.deletes)
qed (use demo_people demo_owned in \<open>simp_all add: demo_owner_def\<close>)

theorem member_found_by_identity_witness:
  "fst (mem_findByIdentity 9 ''o1'' (ident ''clerk'' ''1'') (snd (mem_create 0 demo_member_input empty_store))) =
     Some (lapse 9 (new_membership 0 demo_member_input))"
proof -
  let ?s = "snd (mem_create 0 demo_member_input empty_store)"
  have "mem_step id clean_identity empty_store ?s"
    by (rule mem_step.creates) (simp_all add: demo_member_input_def clean_identity_def ident_def mhas_def)
  then have "(mem_step id clean_identity)\<^sup>*\<^sup>* empty_store ?s" by (rule r_into_rtranclp)
  moreover have "new_membership 0 demo_member_input \<in> set (mvals (memberships ?s))"
    by (simp add: mem_create_def demo_member_input_def mhas_def mvals_def)
  ultimately show ?thesis
    using member_found_by_identity[of id ?s "new_membership 0 demo_member_input" 9] by (simp add: demo_member_input_simps)
qed

text \<open>
  Reusing a membership id is not refused.  \<open>create\<close> looks at the identity, not at the id, so a second
  call with the id of the only Owner replaces that membership and the organization is left without an Owner.
\<close>

theorem create_reused_id_orphans:
  "let input = demo_member_input \<lparr> cm_identity := ident ''clerk'' ''2'' \<rparr>;
       s' = snd (mem_create 5 input demo_member_store)
   in owned demo_member_store ''r1'' ''o1'' \<and> is_ok (fst (mem_create 5 input demo_member_store)) \<and>
      \<not> (\<exists>m \<in> set (mvals (memberships s')). ''r1'' \<in> set (m_roleIds m))"
proof -
  let ?in = "demo_member_input \<lparr> cm_identity := ident ''clerk'' ''2'' \<rparr>"
  have "mem_create 5 ?in demo_member_store = (Inr (new_membership 5 ?in), put_membership ''m1'' (new_membership 5 ?in) demo_member_store)"
    by (simp add: mem_create_def demo_member_input_def ident_def mhas_def mvals_def returns_def)
  then show ?thesis using demo_owned by (simp add: mvals_def Let_def) (simp add: demo_member_input_def)
qed

text \<open>A role held twice survives \<open>unassignRole\<close> and the deletion of the role.\<close>

lemma duplicate_role_survives:
  "let input = demo_member_input \<lparr> cm_id := ''m2'', cm_identity := ident ''clerk'' ''2'', cm_roleIds := [''r2'', ''r2''] \<rparr>;
       s1 = snd (mem_create 5 input demo_member_store);
       s2 = snd (mem_unassignRole 6 ''m2'' ''r2'' None s1)
   in is_ok (fst (mem_unassignRole 6 ''m2'' ''r2'' None s1)) \<and>
      map_option m_roleIds (mget (memberships s2) ''m2'') = Some [''r2'']"
  by (simp add: Let_def mem_create_def demo_member_input_def ident_def mhas_def mvals_def role_check_def demo_role_def
      mem_unassignRole_def assertMembershipVersion_def version_ok_def owner_role_id_def holds_def drop_role_def returns_def)

text \<open>\<open>unassignOwnerRole\<close> on a member whose suspension has just ended changes it without a new version.\<close>

lemma unassignOwner_keeps_version:
  assumes "mget (memberships s) i = Some m" "lapsed now m" "owner_role_id s rid" "holds rid m"
    and "mem_unassignOwnerRole now i rid s = (Inr (), s')"
  shows "\<exists>m'. mget (memberships s') i = Some m' \<and> m_roleIds m' = remove1 rid (m_roleIds m) \<and> m_version m' = m_version m"
  using assms isLast_store[of now rid i s]
  by (cases "isLastOwnerRoleHolder now rid i s")
    (auto simp: mem_unassignOwnerRole_def mhas_def fails_def returns_def split: bool.splits)

end
