(* ===== verification/TeamMembers.thy ===== *)
theory TeamMembers
  imports Teams Memberships
begin

text \<open>
  Team memberships: \<open>packages/core/src/team/repository.ts\<close> and \<open>teamMembershipRepository\<close> of
  \<open>storage/memory.ts\<close>: which members of the organization belong to a team, with which roles inside it.

  The lemmas show that a pair of a team and a member has one row, that the roles held are roles of the
  organization other than the Owner role, and that a pending invitation becomes active only by its own person.
\<close>

section \<open>Validation\<close>

definition MAX_TEAM_MEMBER_ROLES :: nat where
  "MAX_TEAM_MEMBER_ROLES = 50"

definition assertTeamMemberStatus :: "string \<Rightarrow> uerror + tm_status" where
  "assertTeamMemberStatus v =
     (if v = ''pending'' then Inr TMPending else if v = ''active'' then Inr TMActive
      else if v = ''suspended'' then Inr TMSuspended else if v = ''removed'' then Inr TMRemoved
      else Inl (teamErr ''team_membership_invalid''))"

definition assertTeamResponsibility :: "string \<Rightarrow> uerror + responsibility" where
  "assertTeamResponsibility v =
     (if v = ''owner'' then Inr ROwner else if v = ''manager'' then Inr RManager
      else if v = ''member'' then Inr RMember else Inl (teamErr ''team_membership_invalid''))"

definition assertResponsibilityFilter :: "string list option \<Rightarrow> uerror + responsibility list option" where
  "assertResponsibilityFilter rs =
     (case rs of None \<Rightarrow> Inr None
      | Some vs \<Rightarrow>
          if vs = [] then Inl (teamErr ''team_membership_invalid'')
          else bindr (mapr assertTeamResponsibility vs) (\<lambda>xs. Inr (Some (uniq xs))))"

text \<open>\<open>TRANSITIONS\<close>: the moves of \<open>setStatus\<close>.\<close>

fun TRANSITIONS :: "tm_status \<Rightarrow> tm_status list" where
  "TRANSITIONS TMPending = [TMRemoved]"
| "TRANSITIONS TMActive = [TMSuspended, TMRemoved]"
| "TRANSITIONS TMSuspended = [TMActive, TMRemoved]"
| "TRANSITIONS TMRemoved = []"

definition isTeamMemberTransitionAllowed :: "tm_status \<Rightarrow> tm_status \<Rightarrow> bool" where
  "isTeamMemberTransitionAllowed a b \<longleftrightarrow> b \<in> set (TRANSITIONS a)"

record add_team_member =
  am_id :: string
  am_organizationId :: string
  am_teamId :: string
  am_membershipId :: string
  am_status :: "string option"
  am_responsibility :: "string option"
  am_roleIds :: "string list option"
  am_invitedBy :: "identity option"
  am_now :: "timestamp option"

text \<open>The status, the responsibility and the distinct roles.\<close>

definition assertValidAddTeamMember :: "add_team_member \<Rightarrow> uerror + tm_status \<times> responsibility \<times> string list" where
  "assertValidAddTeamMember input =
     bindr (assertTeamId (am_id input)) (\<lambda>_.
     bindr (assertTeamId (am_organizationId input)) (\<lambda>_.
     bindr (assertTeamId (am_teamId input)) (\<lambda>_.
     bindr (assertTeamId (am_membershipId input)) (\<lambda>_.
     bindr (case am_status input of
              None \<Rightarrow> Inr TMActive
            | Some v \<Rightarrow> if v = ''pending'' then Inr TMPending else if v = ''active'' then Inr TMActive
                        else Inl (teamErr ''team_membership_invalid'')) (\<lambda>st.
       let roleIds = uniq (case am_roleIds input of None \<Rightarrow> [] | Some rs \<Rightarrow> rs) in
       if length roleIds > MAX_TEAM_MEMBER_ROLES then Inl (teamErr ''team_role_invalid'')
       else bindr (mapr assertTeamId roleIds) (\<lambda>_.
            bindr (case am_responsibility input of None \<Rightarrow> Inr RMember | Some v \<Rightarrow> assertTeamResponsibility v) (\<lambda>resp.
            Inr (st, resp, roleIds))))))))"

definition isTeamMembershipActive :: "team_membership \<Rightarrow> bool" where
  "isTeamMembershipActive row \<longleftrightarrow> tm_status row = TMActive"

definition requireTeamMembership :: "store \<Rightarrow> string \<Rightarrow> string \<Rightarrow> uerror + team_membership" where
  "requireTeamMembership s organizationId i =
     (case mget (teamMemberships s) i of
        None \<Rightarrow> Inl (teamErr ''team_membership_not_found'')
      | Some row \<Rightarrow> if tm_organizationId row \<noteq> organizationId then Inl (teamErr ''team_membership_not_found'') else Inr row)"

definition assertTeamRole :: "store \<Rightarrow> string \<Rightarrow> string \<Rightarrow> uerror option" where
  "assertTeamRole s organizationId roleId =
     (case mget (roles s) roleId of
        None \<Rightarrow> Some (teamErr ''team_role_invalid'')
      | Some r \<Rightarrow>
          if r_organizationId r \<noteq> organizationId then Some (teamErr ''team_role_invalid'')
          else if r_isOwnerRole r then Some (teamErr ''team_role_owner_protected'')
          else None)"

definition assertTeamRoles :: "store \<Rightarrow> string \<Rightarrow> string list \<Rightarrow> uerror + unit" where
  "assertTeamRoles s organizationId roleIds =
     (case checkr (assertTeamRole s organizationId) roleIds of Some e \<Rightarrow> Inl e | None \<Rightarrow> Inr ())"

section \<open>Adding\<close>

definition put_tm :: "team_membership \<Rightarrow> store \<Rightarrow> store" where
  "put_tm row s = s \<lparr> teamMemberships := mset_at (tm_id row) row (teamMemberships s) \<rparr>"

definition first_some :: "'a option \<Rightarrow> 'a option \<Rightarrow> 'a option" where
  "first_some a b = (case a of None \<Rightarrow> b | Some x \<Rightarrow> Some x)"

definition team_row :: "timestamp \<Rightarrow> add_team_member \<Rightarrow> team_membership option \<Rightarrow> tm_status \<times> responsibility \<times> string list \<Rightarrow> team_membership" where
  "team_row at input existing valid =
     (case valid of (st, resp, roleIds) \<Rightarrow>
        \<lparr> tm_id = (case existing of None \<Rightarrow> am_id input | Some r \<Rightarrow> tm_id r),
          tm_organizationId = am_organizationId input, tm_teamId = am_teamId input,
          tm_membershipId = am_membershipId input, tm_status = st, tm_responsibility = resp, tm_roleIds = roleIds,
          tm_createdAt = (case existing of None \<Rightarrow> at | Some r \<Rightarrow> tm_createdAt r), tm_updatedAt = at,
          tm_joinedAt = (let joined = Option.bind existing tm_joinedAt in if st = TMActive then first_some joined (Some at) else joined),
          tm_invitedBy = am_invitedBy input, tm_statusChange = None,
          tm_version = (case existing of None \<Rightarrow> 0 | Some r \<Rightarrow> tm_version r) + 1 \<rparr>)"

definition tm_add :: "token_registry \<Rightarrow> timestamp \<Rightarrow> nat option \<Rightarrow> add_team_member \<Rightarrow> team_membership op" where
  "tm_add issued now authorization input s =
     guard (assertTeamAuthorization issued now authorization (am_organizationId input) MemberAdd None) (\<lambda>_.
     guard (assertValidAddTeamMember input) (\<lambda>valid.
     guard (requireTeam s (am_organizationId input) (am_teamId input)) (\<lambda>t s.
       if (case mget (memberships s) (am_membershipId input) of None \<Rightarrow> True | Some m \<Rightarrow> m_organizationId m \<noteq> am_organizationId input)
       then fails (teamErr ''team_member_unknown'') s
       else if t_status t \<noteq> TActive then fails (teamErr ''team_archived'') s
       else guard (assertTeamRoles s (am_organizationId input) (snd (snd valid))) (\<lambda>_ s.
         let existing = find (\<lambda>r. tm_teamId r = am_teamId input \<and> tm_membershipId r = am_membershipId input) (mvals (teamMemberships s)) in
         if (case existing of None \<Rightarrow> False | Some r \<Rightarrow> tm_status r \<noteq> TMRemoved) then fails (teamErr ''team_membership_exists'') s
         else if existing = None \<and> mhas (teamMemberships s) (am_id input) then fails (teamErr ''team_membership_exists'') s
         else
           let row = team_row (case am_now input of None \<Rightarrow> now | Some n \<Rightarrow> n) input existing valid
           in returns row (put_tm row s)) s))) s"

section \<open>Reading\<close>

definition tm_activeTeamIds :: "store \<Rightarrow> string \<Rightarrow> string \<Rightarrow> int option \<Rightarrow> string list option \<Rightarrow> uerror + string list" where
  "tm_activeTeamIds s organizationId membershipId limit responsibilities =
     bindr (assertResponsibilityFilter responsibilities) (\<lambda>rs.
       Inr (take (clamp_limit 1000 5000 limit) (sort (map tm_teamId
         (filter (\<lambda>row. opt_match (\<lambda>xs. tm_responsibility row \<in> set xs) rs)
           (filter (\<lambda>row. tm_organizationId row = organizationId \<and> tm_membershipId row = membershipId \<and> tm_status row = TMActive \<and>
               map_option t_status (teamOf s organizationId (tm_teamId row)) = Some TActive)
             (mvals (teamMemberships s))))))))"

definition tm_findById :: "store \<Rightarrow> string \<Rightarrow> string \<Rightarrow> team_membership option" where
  "tm_findById s organizationId i =
     (case mget (teamMemberships s) i of None \<Rightarrow> None | Some row \<Rightarrow> if tm_organizationId row = organizationId then Some row else None)"

definition tm_find :: "store \<Rightarrow> string \<Rightarrow> string \<Rightarrow> string \<Rightarrow> team_membership option" where
  "tm_find s organizationId teamId membershipId =
     find (\<lambda>r. tm_organizationId r = organizationId \<and> tm_teamId r = teamId \<and> tm_membershipId r = membershipId) (mvals (teamMemberships s))"

record tm_filter =
  tmf_organizationId :: string
  tmf_teamId :: "string option"
  tmf_membershipId :: "string option"
  tmf_identity :: "identity option"
  tmf_status :: "tm_status option"
  tmf_responsibility :: "responsibility option"

definition teamMembershipMatches :: "store \<Rightarrow> team_membership \<Rightarrow> tm_filter \<Rightarrow> bool" where
  "teamMembershipMatches s row f \<longleftrightarrow>
     tm_organizationId row = tmf_organizationId f \<and> opt_match (\<lambda>t. tm_teamId row = t) (tmf_teamId f) \<and>
     opt_match (\<lambda>m. tm_membershipId row = m) (tmf_membershipId f) \<and> opt_match (\<lambda>st. tm_status row = st) (tmf_status f) \<and>
     opt_match (\<lambda>r. tm_responsibility row = r) (tmf_responsibility f) \<and>
     opt_match (\<lambda>i. case mget (memberships s) (tm_membershipId row) of None \<Rightarrow> False | Some m \<Rightarrow> sameIdentity (m_identity m) i) (tmf_identity f)"

definition tm_search :: "store \<Rightarrow> tm_filter \<Rightarrow> int option \<Rightarrow> string option \<Rightarrow> team_membership list" where
  "tm_search s f limit after = teamPage tm_id limit after (filter (\<lambda>r. teamMembershipMatches s r f) (mvals (teamMemberships s)))"

definition tm_count :: "store \<Rightarrow> tm_filter \<Rightarrow> nat" where
  "tm_count s f = length (filter (\<lambda>r. teamMembershipMatches s r f) (mvals (teamMemberships s)))"

section \<open>Changing\<close>

text \<open>The guards every change shares: the token, the row, the version.\<close>

definition tm_change ::
  "token_registry \<Rightarrow> timestamp \<Rightarrow> nat option \<Rightarrow> string \<Rightarrow> string \<Rightarrow> team_operation \<Rightarrow> identity option \<Rightarrow>
     (team_membership \<Rightarrow> uerror + unit) \<Rightarrow> int option \<Rightarrow> (team_membership \<Rightarrow> team_membership op) \<Rightarrow> team_membership op" where
  "tm_change issued now authorization organizationId i operation actor check expected k s =
     guard (assertTeamAuthorization issued now authorization organizationId operation actor) (\<lambda>_.
     guard (requireTeamMembership s organizationId i) (\<lambda>row.
     guard (check row) (\<lambda>_.
     guard (assertTeamVersion (tm_version row) expected ''team_membership_version_conflict'') (\<lambda>_. k row)))) s"

definition save_tm :: "string \<Rightarrow> team_membership \<Rightarrow> team_membership op" where
  "save_tm i row s = returns row (s \<lparr> teamMemberships := mset_at i row (teamMemberships s) \<rparr>)"

definition tm_setStatus ::
  "token_registry \<Rightarrow> timestamp \<Rightarrow> nat option \<Rightarrow> string \<Rightarrow> string \<Rightarrow> string \<Rightarrow> identity \<Rightarrow> string option \<Rightarrow> int option \<Rightarrow> team_membership op" where
  "tm_setStatus issued now authorization organizationId i st actor reason expected =
     tm_change issued now authorization organizationId i MemberStatus (Some actor)
       (\<lambda>_. bindr (assertTeamMemberStatus st) (\<lambda>_. Inr ())) expected
       (\<lambda>row. guard (assertTeamMemberStatus st) (\<lambda>new.
          if tm_status row = new then returns row
          else if \<not> isTeamMemberTransitionAllowed (tm_status row) new then fails (teamErr ''team_membership_transition_invalid'')
          else save_tm i (row \<lparr> tm_status := new, tm_roleIds := (if new = TMRemoved then [] else tm_roleIds row), tm_updatedAt := now,
                 tm_joinedAt := (if new = TMActive \<and> tm_joinedAt row = None then Some now else tm_joinedAt row),
                 tm_statusChange := Some \<lparr> ch_at = now, ch_by = actor, ch_reason = sanitizeTeamReason reason \<rparr>,
                 tm_version := tm_version row + 1 \<rparr>)))"

definition tm_accept ::
  "token_registry \<Rightarrow> timestamp \<Rightarrow> nat option \<Rightarrow> string \<Rightarrow> string \<Rightarrow> identity \<Rightarrow> int option \<Rightarrow> team_membership op" where
  "tm_accept issued now authorization organizationId i actor expected =
     tm_change issued now authorization organizationId i MemberAccept (Some actor) (\<lambda>_. Inr ()) expected
       (\<lambda>row s.
          if (case mget (memberships s) (tm_membershipId row) of None \<Rightarrow> True | Some m \<Rightarrow> \<not> sameIdentity (m_identity m) actor)
          then fails (teamErr ''team_accept_forbidden'') s
          else if tm_status row = TMActive then returns row s
          else if tm_status row \<noteq> TMPending then fails (teamErr ''team_membership_transition_invalid'') s
          else save_tm i (row \<lparr> tm_status := TMActive, tm_updatedAt := now, tm_joinedAt := first_some (tm_joinedAt row) (Some now),
                 tm_statusChange := Some \<lparr> ch_at = now, ch_by = actor, ch_reason = None \<rparr>, tm_version := tm_version row + 1 \<rparr>) s)"

definition tm_setResponsibility ::
  "token_registry \<Rightarrow> timestamp \<Rightarrow> nat option \<Rightarrow> string \<Rightarrow> string \<Rightarrow> string \<Rightarrow> int option \<Rightarrow> team_membership op" where
  "tm_setResponsibility issued now authorization organizationId i responsibility expected =
     tm_change issued now authorization organizationId i MemberResponsibility None
       (\<lambda>_. bindr (assertTeamResponsibility responsibility) (\<lambda>_. Inr ())) expected
       (\<lambda>row. guard (assertTeamResponsibility responsibility) (\<lambda>new.
          if tm_responsibility row = new then returns row
          else save_tm i (row \<lparr> tm_responsibility := new, tm_updatedAt := now, tm_version := tm_version row + 1 \<rparr>)))"

definition tm_assignRole ::
  "token_registry \<Rightarrow> timestamp \<Rightarrow> nat option \<Rightarrow> string \<Rightarrow> string \<Rightarrow> string \<Rightarrow> int option \<Rightarrow> team_membership op" where
  "tm_assignRole issued now authorization organizationId i roleId expected =
     tm_change issued now authorization organizationId i MemberRole None (\<lambda>_. Inr ()) expected
       (\<lambda>row s. guard (assertTeamRoles s organizationId [roleId]) (\<lambda>_.
          if roleId \<in> set (tm_roleIds row) then returns row
          else save_tm i (row \<lparr> tm_roleIds := tm_roleIds row @ [roleId], tm_updatedAt := now, tm_version := tm_version row + 1 \<rparr>)) s)"

definition tm_unassignRole ::
  "token_registry \<Rightarrow> timestamp \<Rightarrow> nat option \<Rightarrow> string \<Rightarrow> string \<Rightarrow> string \<Rightarrow> int option \<Rightarrow> team_membership op" where
  "tm_unassignRole issued now authorization organizationId i roleId expected =
     tm_change issued now authorization organizationId i MemberRole None (\<lambda>_. Inr ()) expected
       (\<lambda>row. if roleId \<notin> set (tm_roleIds row) then returns row
          else save_tm i (row \<lparr> tm_roleIds := filter (\<lambda>r. r \<noteq> roleId) (tm_roleIds row), tm_updatedAt := now, tm_version := tm_version row + 1 \<rparr>))"

section \<open>Lemmas\<close>

text \<open>A role that may be held inside a team of an organization.\<close>

definition team_role :: "store \<Rightarrow> string \<Rightarrow> string \<Rightarrow> bool" where
  "team_role s og rid \<longleftrightarrow> (\<exists>r. mget (roles s) rid = Some r \<and> r_organizationId r = og \<and> \<not> r_isOwnerRole r)"

lemma assertTeamRoles_Inr: "assertTeamRoles s og rs = Inr u \<Longrightarrow> rid \<in> set rs \<Longrightarrow> team_role s og rid"
  by (auto simp: assertTeamRoles_def checkr_None assertTeamRole_def team_role_def split: option.splits if_splits)

lemma requireTeamMembership_Inr:
  "requireTeamMembership s og i = Inr row \<longleftrightarrow> mget (teamMemberships s) i = Some row \<and> tm_organizationId row = og"
  by (auto simp: requireTeamMembership_def split: option.splits)

lemma assertTeamMemberStatus_Inr: "assertTeamMemberStatus v = Inr x \<Longrightarrow> x = TMPending \<and> v = ''pending'' \<or> x = TMActive \<and> v = ''active'' \<or>
    x = TMSuspended \<and> v = ''suspended'' \<or> x = TMRemoved \<and> v = ''removed''"
  by (auto simp: assertTeamMemberStatus_def split: if_splits)

text \<open>What an edit of one row keeps, and the roles it may add.\<close>

definition tm_edit :: "store \<Rightarrow> team_membership \<Rightarrow> team_membership \<Rightarrow> bool" where
  "tm_edit s a b \<longleftrightarrow> tm_id b = tm_id a \<and> tm_organizationId b = tm_organizationId a \<and> tm_teamId b = tm_teamId a \<and>
     tm_membershipId b = tm_membershipId a \<and>
     (\<forall>rid \<in> set (tm_roleIds b). rid \<in> set (tm_roleIds a) \<or> team_role s (tm_organizationId a) rid)"

text \<open>The guards passed, or nothing changed.\<close>

lemma tm_change_cases:
  assumes "\<And>row. mget (teamMemberships s) i = Some row \<Longrightarrow> tm_organizationId row = og \<Longrightarrow>
      assertTeamAuthorization issued now auth og op actor = Inr () \<Longrightarrow> P (snd (k row s))"
    and "P s"
  shows "P (snd (tm_change issued now auth og i op actor check v k s))"
  using assms by (auto simp: tm_change_def requireTeamMembership_Inr split: guard_split)

definition edits_tm :: "string \<Rightarrow> (team_membership \<Rightarrow> team_membership \<Rightarrow> bool) \<Rightarrow> store \<Rightarrow> store \<Rightarrow> bool" where
  "edits_tm i R s s' \<longleftrightarrow> s' = s \<or>
     (\<exists>a b. mget (teamMemberships s) i = Some a \<and> tm_edit s a b \<and> R a b \<and> s' = s \<lparr> teamMemberships := mset_at i b (teamMemberships s) \<rparr>)"

lemma edits_tm_refl [simp]: "edits_tm i R s s"
  by (simp add: edits_tm_def)

lemma edits_tmI:
  "mget (teamMemberships s) i = Some a \<Longrightarrow> tm_edit s a b \<Longrightarrow> R a b \<Longrightarrow> edits_tm i R s (snd (save_tm i b s))"
  by (auto simp: edits_tm_def save_tm_def)

lemma setStatus_edits:
  "edits_tm i (\<lambda>a b. tm_status b \<in> set (TRANSITIONS (tm_status a)) \<and> (tm_status b = TMRemoved \<longrightarrow> tm_roleIds b = [])) s
     (snd (tm_setStatus issued now auth og i st actor reason v s))"
  unfolding tm_setStatus_def
  by (rule tm_change_cases) (auto simp: isTeamMemberTransitionAllowed_def tm_edit_def intro!: edits_tmI split: guard_split)

lemma accept_edits:
  "edits_tm i (\<lambda>a b. tm_status a = TMPending \<and> tm_status b = TMActive \<and> assertTeamAuthorization issued now auth og MemberAccept (Some actor) = Inr () \<and>
       map_option m_identity (mget (memberships s) (tm_membershipId a)) = Some actor) s
     (snd (tm_accept issued now auth og i actor v s))"
  unfolding tm_accept_def
  by (rule tm_change_cases) (auto simp: tm_edit_def intro!: edits_tmI split: option.split)

lemma setResponsibility_edits: "edits_tm i (\<lambda>a b. tm_status b = tm_status a) s (snd (tm_setResponsibility issued now auth og i r v s))"
  unfolding tm_setResponsibility_def
  by (rule tm_change_cases) (auto simp: tm_edit_def intro!: edits_tmI split: guard_split)

lemma tm_assignRole_edits: "edits_tm i (\<lambda>a b. tm_status b = tm_status a) s (snd (tm_assignRole issued now auth og i rid v s))"
  unfolding tm_assignRole_def
  by (rule tm_change_cases) (auto simp: tm_edit_def intro!: edits_tmI dest: assertTeamRoles_Inr[of _ _ _ _ rid] split: guard_split)

lemma tm_unassignRole_edits: "edits_tm i (\<lambda>a b. tm_status b = tm_status a) s (snd (tm_unassignRole issued now auth og i rid v s))"
  unfolding tm_unassignRole_def
  by (rule tm_change_cases) (auto simp: tm_edit_def intro!: edits_tmI)

lemma if_cases: "x = (if c then a else b) \<Longrightarrow> (x = a \<Longrightarrow> P) \<Longrightarrow> (\<not> c \<Longrightarrow> x = b \<Longrightarrow> P) \<Longrightarrow> P"
  by (cases c) auto

text \<open>\<open>add\<close> puts a row for a pair that had none, or had left.\<close>

lemma tm_add_row:
  fixes issued now auth input s
  defines "existing \<equiv> find (\<lambda>r. tm_teamId r = am_teamId input \<and> tm_membershipId r = am_membershipId input) (mvals (teamMemberships s))"
  obtains "snd (tm_add issued now auth input s) = s"
  | valid at where "snd (tm_add issued now auth input s) = put_tm (team_row at input existing valid) s"
      "assertValidAddTeamMember input = Inr valid" "assertTeamRoles s (am_organizationId input) (snd (snd valid)) = Inr ()"
      "existing = None \<longrightarrow> \<not> mhas (teamMemberships s) (am_id input)" "\<forall>r. existing = Some r \<longrightarrow> tm_status r = TMRemoved"
proof (cases "assertTeamAuthorization issued now auth (am_organizationId input) MemberAdd None")
  case Inl
  then show ?thesis using that(1) by (simp add: tm_add_def)
next
  case auth: (Inr u)
  show ?thesis
  proof (cases "assertValidAddTeamMember input")
    case Inl
    then show ?thesis using that(1) auth by (simp add: tm_add_def)
  next
    case valid: (Inr valid)
    show ?thesis
    proof (cases "requireTeam s (am_organizationId input) (am_teamId input)")
      case Inl
      then show ?thesis using that(1) auth valid by (simp add: tm_add_def)
    next
      case team: (Inr t)
      have eq: "snd (tm_add issued now auth input s) =
         (if (case mget (memberships s) (am_membershipId input) of None \<Rightarrow> True | Some m \<Rightarrow> m_organizationId m \<noteq> am_organizationId input) \<or>
             t_status t \<noteq> TActive \<or> assertTeamRoles s (am_organizationId input) (snd (snd valid)) \<noteq> Inr () \<or>
             (case existing of None \<Rightarrow> False | Some r \<Rightarrow> tm_status r \<noteq> TMRemoved) \<or>
             (existing = None \<and> mhas (teamMemberships s) (am_id input)) then s
          else put_tm (team_row (case am_now input of None \<Rightarrow> now | Some n \<Rightarrow> n) input existing valid) s)"
        by (cases "assertTeamRoles s (am_organizationId input) (snd (snd valid))")
          (simp_all add: tm_add_def auth valid team existing_def Let_def)
      show ?thesis
      proof (rule if_cases[OF eq])
        assume "snd (tm_add issued now auth input s) = s"
        then show thesis by (rule that(1))
      next
        assume ok: "\<not> ((case mget (memberships s) (am_membershipId input) of None \<Rightarrow> True | Some m \<Rightarrow> m_organizationId m \<noteq> am_organizationId input) \<or>
             t_status t \<noteq> TActive \<or> assertTeamRoles s (am_organizationId input) (snd (snd valid)) \<noteq> Inr () \<or>
             (case existing of None \<Rightarrow> False | Some r \<Rightarrow> tm_status r \<noteq> TMRemoved) \<or>
             (existing = None \<and> mhas (teamMemberships s) (am_id input)))"
          and put: "snd (tm_add issued now auth input s) =
             put_tm (team_row (case am_now input of None \<Rightarrow> now | Some n \<Rightarrow> n) input existing valid) s"
        show thesis by (rule that(2)[OF put valid]) (use ok in \<open>auto split: option.splits\<close>)
      qed
    qed
  qed
qed

lemma tm_add_cases:
  obtains (same) "snd (tm_add issued now auth input s) = s"
  | (put) row where "snd (tm_add issued now auth input s) = put_tm row s" "tm_status row \<in> {TMPending, TMActive}"
      "tm_organizationId row = am_organizationId input" "tm_teamId row = am_teamId input" "tm_membershipId row = am_membershipId input"
      "\<forall>rid \<in> set (tm_roleIds row). team_role s (tm_organizationId row) rid"
      "\<forall>r \<in> set (mvals (teamMemberships s)). tm_teamId r = tm_teamId row \<and> tm_membershipId r = tm_membershipId row \<longrightarrow>
         (\<exists>r' \<in> set (mvals (teamMemberships s)). tm_teamId r' = tm_teamId row \<and> tm_membershipId r' = tm_membershipId row \<and>
            tm_id r' = tm_id row \<and> tm_status r' = TMRemoved)"
      "\<forall>r. mget (teamMemberships s) (tm_id row) = Some r \<longrightarrow>
         (\<exists>r' \<in> set (mvals (teamMemberships s)). tm_teamId r' = tm_teamId row \<and> tm_membershipId r' = tm_membershipId row \<and>
            tm_id r' = tm_id row \<and> tm_status r' = TMRemoved)"
proof -
  let ?P = "\<lambda>r. tm_teamId r = am_teamId input \<and> tm_membershipId r = am_membershipId input"
  define existing where "existing = find ?P (mvals (teamMemberships s))"
  have none: "existing = None \<Longrightarrow> r \<in> set (mvals (teamMemberships s)) \<Longrightarrow> \<not> ?P r" for r
    by (auto simp: existing_def find_None_iff)
  have some: "existing = Some r \<Longrightarrow> r \<in> set (mvals (teamMemberships s)) \<and> ?P r" for r
    by (auto simp: existing_def find_Some_iff)
  show thesis
  proof (rule tm_add_row[of issued now auth input s, folded existing_def])
    assume "snd (tm_add issued now auth input s) = s"
    then show thesis by (rule same)
  next
    fix valid at
    assume eq: "snd (tm_add issued now auth input s) = put_tm (team_row at input existing valid) s"
      and v: "assertValidAddTeamMember input = Inr valid" "assertTeamRoles s (am_organizationId input) (snd (snd valid)) = Inr ()"
      and new: "existing = None \<longrightarrow> \<not> mhas (teamMemberships s) (am_id input)" and old: "\<forall>r. existing = Some r \<longrightarrow> tm_status r = TMRemoved"
    let ?row = "team_row at input existing valid"
    have row: "tm_organizationId ?row = am_organizationId input" "tm_teamId ?row = am_teamId input"
      "tm_membershipId ?row = am_membershipId input" "tm_roleIds ?row = snd (snd valid)" "tm_status ?row = fst valid"
      "tm_id ?row = (case existing of None \<Rightarrow> am_id input | Some r \<Rightarrow> tm_id r)"
      by (simp_all add: team_row_def split: prod.split)
    have st: "fst valid \<in> {TMPending, TMActive}"
      using v(1) by (auto simp: assertValidAddTeamMember_def Let_def split: option.splits if_splits)
    let ?left = "\<exists>r' \<in> set (mvals (teamMemberships s)). tm_teamId r' = tm_teamId ?row \<and> tm_membershipId r' = tm_membershipId ?row \<and>
            tm_id r' = tm_id ?row \<and> tm_status r' = TMRemoved"
    have left: "?left" if "existing = Some r" for r
      using some[OF that] old that unfolding row by (intro bexI[of _ r]) auto
    show thesis
    proof (rule put[OF eq])
      show "tm_status ?row \<in> {TMPending, TMActive}" unfolding row by (rule st)
      show "\<forall>rid \<in> set (tm_roleIds ?row). team_role s (tm_organizationId ?row) rid"
        unfolding row using assertTeamRoles_Inr[OF v(2)] by blast
      show "\<forall>r \<in> set (mvals (teamMemberships s)). tm_teamId r = tm_teamId ?row \<and> tm_membershipId r = tm_membershipId ?row \<longrightarrow> ?left"
      proof (cases existing)
        case None
        then show ?thesis using none unfolding row(2,3) by blast
      qed (use left in blast)
      show "\<forall>r. mget (teamMemberships s) (tm_id ?row) = Some r \<longrightarrow> ?left"
      proof (cases existing)
        case None
        then show ?thesis using new unfolding row(6) by (simp add: mhas_def)
      qed (use left in blast)
    qed (simp_all add: row)
  qed
qed

section \<open>Runs\<close>

text \<open>The operations of the repository and those of others that reach team memberships.\<close>

datatype tm_cmd = TmAdd add_team_member | TmStatus string string string identity "string option" "int option"
  | TmAccept string string identity "int option" | TmResponsibility string string string "int option"
  | TmAssign string string string "int option" | TmUnassign string string string "int option"
  | TmRoles role_cmd | TmDropMember string

type_synonym tm_call = "token_registry \<times> timestamp \<times> nat option \<times> tm_cmd"

fun tm_exec :: "tm_call \<Rightarrow> store \<Rightarrow> store" where
  "tm_exec (issued, now, auth, TmAdd input) s = snd (tm_add issued now auth input s)"
| "tm_exec (issued, now, auth, TmStatus og i st actor reason v) s = snd (tm_setStatus issued now auth og i st actor reason v s)"
| "tm_exec (issued, now, auth, TmAccept og i actor v) s = snd (tm_accept issued now auth og i actor v s)"
| "tm_exec (issued, now, auth, TmResponsibility og i r v) s = snd (tm_setResponsibility issued now auth og i r v s)"
| "tm_exec (issued, now, auth, TmAssign og i rid v) s = snd (tm_assignRole issued now auth og i rid v s)"
| "tm_exec (issued, now, auth, TmUnassign og i rid v) s = snd (tm_unassignRole issued now auth og i rid v s)"
| "tm_exec (issued, now, auth, TmRoles c) s = role_exec c s"
| "tm_exec (issued, now, auth, TmDropMember m) s = snd (mem_delete now m s)"

definition tm_ok :: "store \<Rightarrow> bool" where
  "tm_ok s \<longleftrightarrow> roles_wf s \<and> keyed tm_id (teamMemberships s) \<and>
     (\<forall>a \<in> set (mvals (teamMemberships s)). \<forall>b \<in> set (mvals (teamMemberships s)).
        tm_teamId a = tm_teamId b \<and> tm_membershipId a = tm_membershipId b \<longrightarrow> tm_id a = tm_id b) \<and>
     (\<forall>a \<in> set (mvals (teamMemberships s)). \<forall>rid \<in> set (tm_roleIds a). team_role s (tm_organizationId a) rid)"

lemma tm_okI:
  assumes "roles_wf s" "keyed tm_id (teamMemberships s)"
    "\<And>a b. a \<in> set (mvals (teamMemberships s)) \<Longrightarrow> b \<in> set (mvals (teamMemberships s)) \<Longrightarrow>
       tm_teamId a = tm_teamId b \<Longrightarrow> tm_membershipId a = tm_membershipId b \<Longrightarrow> tm_id a = tm_id b"
    "\<And>a rid. a \<in> set (mvals (teamMemberships s)) \<Longrightarrow> rid \<in> set (tm_roleIds a) \<Longrightarrow> team_role s (tm_organizationId a) rid"
  shows "tm_ok s"
  unfolding tm_ok_def using assms by blast

text \<open>Every row of the new store comes from one of the old store, and roles were not lost under it.\<close>

lemma tm_ok_from:
  assumes ok: "tm_ok s" and "roles_wf s'" "keyed tm_id (teamMemberships s')"
    and "\<And>b. b \<in> set (mvals (teamMemberships s')) \<Longrightarrow> \<exists>a \<in> set (mvals (teamMemberships s)). tm_id b = tm_id a \<and>
       tm_organizationId b = tm_organizationId a \<and> tm_teamId b = tm_teamId a \<and> tm_membershipId b = tm_membershipId a \<and>
       (\<forall>rid \<in> set (tm_roleIds b). rid \<in> set (tm_roleIds a) \<and> team_role s (tm_organizationId a) rid \<longrightarrow> team_role s' (tm_organizationId a) rid) \<and>
       (\<forall>rid \<in> set (tm_roleIds b). rid \<in> set (tm_roleIds a) \<or> team_role s' (tm_organizationId a) rid)"
  shows "tm_ok s'"
proof (rule tm_okI[OF assms(2,3)])
  fix a b
  assume ab: "a \<in> set (mvals (teamMemberships s'))" "b \<in> set (mvals (teamMemberships s'))"
    and eq: "tm_teamId a = tm_teamId b" "tm_membershipId a = tm_membershipId b"
  obtain x where x: "x \<in> set (mvals (teamMemberships s))" "tm_id a = tm_id x" "tm_teamId a = tm_teamId x" "tm_membershipId a = tm_membershipId x"
    using assms(4)[OF ab(1)] by blast
  obtain y where y: "y \<in> set (mvals (teamMemberships s))" "tm_id b = tm_id y" "tm_teamId b = tm_teamId y" "tm_membershipId b = tm_membershipId y"
    using assms(4)[OF ab(2)] by blast
  have "tm_id x = tm_id y" using ok x(1) y(1) x(3,4) y(3,4) eq unfolding tm_ok_def by metis
  then show "tm_id a = tm_id b" using x(2) y(2) by simp
next
  fix b rid
  assume b: "b \<in> set (mvals (teamMemberships s'))" and rid: "rid \<in> set (tm_roleIds b)"
  from assms(4)[OF b] obtain a where a: "a \<in> set (mvals (teamMemberships s))" "tm_organizationId b = tm_organizationId a"
      "rid \<in> set (tm_roleIds a) \<and> team_role s (tm_organizationId a) rid \<longrightarrow> team_role s' (tm_organizationId a) rid"
      "rid \<in> set (tm_roleIds a) \<or> team_role s' (tm_organizationId a) rid" using rid by blast
  then show "team_role s' (tm_organizationId b) rid" using ok unfolding tm_ok_def by auto
qed

lemma edits_tm_ok:
  assumes ok: "tm_ok s" and e: "edits_tm i R s s'"
  shows "tm_ok s'"
proof (cases "s' = s")
  case False
  then obtain a b where ab: "mget (teamMemberships s) i = Some a" "tm_edit s a b" "s' = s \<lparr> teamMemberships := mset_at i b (teamMemberships s) \<rparr>"
    using e unfolding edits_tm_def by blast
  have k: "keyed tm_id (teamMemberships s)" using ok by (simp add: tm_ok_def)
  have i: "tm_id b = i" using ab(2) keyed_get[OF k ab(1)] by (simp add: tm_edit_def)
  have r: "roles s' = roles s" using ab(3) by simp
  have tr: "team_role s' = team_role s" by (intro ext) (simp add: team_role_def r)
  have vals: "y = b \<or> y \<in> set (mvals (teamMemberships s))" if "y \<in> set (mvals (teamMemberships s'))" for y
    using that set_update_sub[of i b "teamMemberships s"] unfolding ab(3) mvals_def by auto
  show ?thesis
  proof (rule tm_ok_from[OF ok])
    show "roles_wf s'" using roles_wf_same[OF _ r] ok by (simp add: tm_ok_def)
    show "keyed tm_id (teamMemberships s')" using keyed_update[OF k, of b] i unfolding ab(3) by simp
    fix y assume "y \<in> set (mvals (teamMemberships s'))"
    then consider "y = b" | "y \<in> set (mvals (teamMemberships s))" using vals by blast
    then show "\<exists>x \<in> set (mvals (teamMemberships s)). tm_id y = tm_id x \<and>
       tm_organizationId y = tm_organizationId x \<and> tm_teamId y = tm_teamId x \<and> tm_membershipId y = tm_membershipId x \<and>
       (\<forall>rid \<in> set (tm_roleIds y). rid \<in> set (tm_roleIds x) \<and> team_role s (tm_organizationId x) rid \<longrightarrow> team_role s' (tm_organizationId x) rid) \<and>
       (\<forall>rid \<in> set (tm_roleIds y). rid \<in> set (tm_roleIds x) \<or> team_role s' (tm_organizationId x) rid)"
    proof cases
      case 1
      then show ?thesis using ab(2) mget_in_mvals[OF ab(1)] unfolding tr tm_edit_def by blast
    next
      case 2
      then show ?thesis unfolding tr by blast
    qed
  qed
qed (use ok in simp)

lemma tm_add_ok:
  assumes ok: "tm_ok s"
  shows "tm_ok (snd (tm_add issued now auth input s))"
proof (cases rule: tm_add_cases[of issued now auth input s])
  case same
  then show ?thesis using ok by simp
next
  case (put row)
  have k: "keyed tm_id (teamMemberships s)" using ok by (simp add: tm_ok_def)
  have r: "roles (put_tm row s) = roles s" by (simp add: put_tm_def)
  have tr: "team_role (put_tm row s) = team_role s" by (intro ext) (simp add: team_role_def r)
  have vals: "y = row \<or> y \<in> set (mvals (teamMemberships s))" if "y \<in> set (mvals (teamMemberships (put_tm row s)))" for y
    using that set_update_sub[of "tm_id row" row "teamMemberships s"] unfolding put_tm_def mvals_def by auto
  have pair: "tm_id y = tm_id row" if "y \<in> set (mvals (teamMemberships s))" "tm_teamId y = tm_teamId row" "tm_membershipId y = tm_membershipId row" for y
  proof -
    from put(7) that obtain z where z: "z \<in> set (mvals (teamMemberships s))" "tm_teamId z = tm_teamId row" "tm_membershipId z = tm_membershipId row"
      "tm_id z = tm_id row" by blast
    have "tm_id y = tm_id z" using ok that(1) z(1) that(2,3) z(2,3) unfolding tm_ok_def by metis
    then show ?thesis using z(4) by simp
  qed
  have "tm_ok (put_tm row s)"
  proof (rule tm_okI)
    show "roles_wf (put_tm row s)" using roles_wf_same[OF _ r] ok by (simp add: tm_ok_def)
    show "keyed tm_id (teamMemberships (put_tm row s))" using keyed_update[OF k, of row] by (simp add: put_tm_def)
    fix a b assume a: "a \<in> set (mvals (teamMemberships (put_tm row s)))" and b: "b \<in> set (mvals (teamMemberships (put_tm row s)))"
      and eq: "tm_teamId a = tm_teamId b" "tm_membershipId a = tm_membershipId b"
    show "tm_id a = tm_id b"
      using vals[OF a] vals[OF b] pair[of a] pair[of b] eq ok unfolding tm_ok_def by metis
  next
    fix a rid assume "a \<in> set (mvals (teamMemberships (put_tm row s)))" and rid: "rid \<in> set (tm_roleIds a)"
    then consider "a = row" | "a \<in> set (mvals (teamMemberships s))" using vals by blast
    then show "team_role (put_tm row s) (tm_organizationId a) rid" unfolding tr
      by cases (use put(6) ok rid in \<open>auto simp: tm_ok_def\<close>)
  qed
  then show ?thesis using put(1) by simp
qed

subsection \<open>Roles that are deleted\<close>

definition without_role :: "string \<Rightarrow> team_membership \<Rightarrow> team_membership" where
  "without_role k t = t \<lparr> tm_roleIds := filter (\<lambda>c. c \<noteq> k) (tm_roleIds t) \<rparr>"

lemma edits_role_team:
  assumes "roles_wf s" "edits_role k s s'"
  shows "teamMemberships s' = teamMemberships s \<and> (team_role s og rid \<longrightarrow> team_role s' og rid)"
proof (cases "s' = s")
  case False
  then obtain r r' where r: "mget (roles s) k = Some r" "role_edit s r r'" "s' = put_role r' s" using assms(2) unfolding edits_role_def by blast
  have "r_id r' = k" using r(2) keyed_get[OF roles_keyed[OF assms(1)] r(1)] by (simp add: role_edit_def)
  then show ?thesis using r by (auto simp: put_role_def team_role_def role_edit_def)
qed simp

lemma fresh_role_team:
  assumes "mget (roles s) (r_id r) = None"
  shows "teamMemberships (put_role r s) = teamMemberships s \<and> (team_role s og rid \<longrightarrow> team_role (put_role r s) og rid)"
  using assms by (auto simp: put_role_def team_role_def)

lemma role_create_team:
  "teamMemberships (snd (role_create input s)) = teamMemberships s \<and> (team_role s og rid \<longrightarrow> team_role (snd (role_create input s)) og rid)"
  using fresh_role_team by (cases rule: role_create_cases[of input s]) auto

lemma role_exec_team:
  assumes wf: "roles_wf s"
  shows "(teamMemberships (role_exec c s) = teamMemberships s \<and> (\<forall>og rid. team_role s og rid \<longrightarrow> team_role (role_exec c s) og rid)) \<or>
    (\<exists>k. teamMemberships (role_exec c s) = mmap (without_role k) (teamMemberships s) \<and> roles (role_exec c s) = mdel k (roles s))"
proof (cases "\<exists>k. edits_role k s (role_exec c s)")
  case True
  then show ?thesis using edits_role_team[OF wf] by blast
next
  case False
  show ?thesis
  proof (cases c)
    case (RDelete k p)
    have "role_exec c s = s \<or> (\<exists>s1. role_exec c s = detach_role k s1 \<and> roles s1 = roles s \<and> teamMemberships s1 = teamMemberships s)"
      unfolding RDelete role_exec.simps role_delete_def by (auto split: option.split members_policy.split)
    then show ?thesis by (auto simp: detach_role_def without_role_def[abs_def])
  next
    case (RCreateOwner i og)
    have "role_exec c s = s \<or> (\<exists>r. role_exec c s = put_role r s \<and> mget (roles s) (r_id r) = None)"
      unfolding RCreateOwner role_exec.simps role_createOwnerRole_def by (auto simp: mhas_def Let_def)
    then show ?thesis using fresh_role_team by metis
  next
    case (RClone i input)
    have "teamMemberships (role_exec c s) = teamMemberships s \<and> (team_role s og rid \<longrightarrow> team_role (role_exec c s) og rid)" for og rid
      unfolding RClone role_exec.simps role_clone_def using role_create_team by (auto split: option.split)
    then show ?thesis by blast
  next
    case (RCreate input)
    then show ?thesis using role_create_team[of input s] by simp
  next
    case (RGrant k p)
    then show ?thesis using False grantPermission_edits[of k s p] by simp
  next
    case (RRevoke k p)
    then show ?thesis using False revokePermission_edits[of k s p] by simp
  next
    case (RRename k n)
    then show ?thesis using False rename_edits[OF wf, of k n] by simp
  next
    case (RUpdate k u)
    then show ?thesis using False update_edits[OF wf, of k u] by simp
  next
    case (RSetPermissions k ks v)
    then show ?thesis using False setPermissions_edits[of k s ks v] by simp
  qed
qed

lemma fold_del_rows:
  assumes "keyed f m"
  shows "keyed f (fold (\<lambda>t. mdel (f t)) xs m) \<and> set (mvals (fold (\<lambda>t. mdel (f t)) xs m)) \<subseteq> set (mvals m)"
  using assms
proof (induction xs arbitrary: m)
  case (Cons x xs)
  have "set (mvals (mdel (f x) m)) \<subseteq> set (mvals m)" using keyed_vals_delete[OF Cons.prems] by blast
  then show ?case using Cons.IH[OF keyed_delete[OF Cons.prems]] by fastforce
qed simp

lemma mem_delete_team:
  assumes "keyed tm_id (teamMemberships s)"
  shows "keyed tm_id (teamMemberships (snd (mem_delete now i s))) \<and>
    set (mvals (teamMemberships (snd (mem_delete now i s)))) \<subseteq> set (mvals (teamMemberships s))"
proof (cases rule: mem_delete_cases[of now i s])
  case (removed s1 m)
  have "teamMemberships s1 = teamMemberships s" using removed(1) by (auto simp: lapseBlocks_def)
  then show ?thesis using fold_del_rows[OF assms] removed(3) by (simp add: drop_member_def)
qed (use assms in \<open>simp_all add: lapseBlocks_def\<close>)

lemma tm_exec_ok:
  assumes ok: "tm_ok s"
  shows "tm_ok (tm_exec c s)"
proof -
  obtain issued now auth k where c: "c = (issued, now, auth, k)" by (cases c) auto
  have wf: "roles_wf s" and kd: "keyed tm_id (teamMemberships s)" using ok by (simp_all add: tm_ok_def)
  show ?thesis
  proof (cases k)
    case (TmRoles r)
    have wf': "roles_wf (role_exec r s)" by (rule role_exec_wf[OF wf])
    consider "teamMemberships (role_exec r s) = teamMemberships s" "\<forall>og rid. team_role s og rid \<longrightarrow> team_role (role_exec r s) og rid"
      | d where "teamMemberships (role_exec r s) = mmap (without_role d) (teamMemberships s)" "roles (role_exec r s) = mdel d (roles s)"
      using role_exec_team[OF wf, of r] by blast
    then have "tm_ok (role_exec r s)"
    proof cases
      case 1
      show ?thesis
        by (rule tm_ok_from[OF ok wf']) (use 1 kd in auto)
    next
      case 2
      have keep: "team_role s og rid \<Longrightarrow> rid \<noteq> d \<Longrightarrow> team_role (role_exec r s) og rid" for og rid using 2(2) by (simp add: team_role_def)
      show ?thesis
      proof (rule tm_ok_from[OF ok wf'])
        show "keyed tm_id (teamMemberships (role_exec r s))"
          unfolding 2(1) by (rule keyed_mmap[OF kd]) (simp add: without_role_def)
        fix b assume "b \<in> set (mvals (teamMemberships (role_exec r s)))"
        then obtain a where a: "a \<in> set (mvals (teamMemberships s))" "b = without_role d a" unfolding 2(1) by auto
        show "\<exists>a \<in> set (mvals (teamMemberships s)). tm_id b = tm_id a \<and>
       tm_organizationId b = tm_organizationId a \<and> tm_teamId b = tm_teamId a \<and> tm_membershipId b = tm_membershipId a \<and>
       (\<forall>rid \<in> set (tm_roleIds b). rid \<in> set (tm_roleIds a) \<and> team_role s (tm_organizationId a) rid \<longrightarrow> team_role (role_exec r s) (tm_organizationId a) rid) \<and>
       (\<forall>rid \<in> set (tm_roleIds b). rid \<in> set (tm_roleIds a) \<or> team_role (role_exec r s) (tm_organizationId a) rid)"
          by (rule bexI[OF _ a(1)]) (use keep in \<open>simp add: a(2) without_role_def\<close>)
      qed
    qed
    then show ?thesis by (simp add: c TmRoles)
  next
    case (TmDropMember m)
    let ?s = "snd (mem_delete now m s)"
    have r: "roles ?s = roles s" by (rule mem_delete_roles)
    have tr: "team_role ?s = team_role s" by (intro ext) (simp add: team_role_def r)
    have "tm_ok ?s"
      by (rule tm_ok_from[OF ok roles_wf_same[OF wf r]]) (use mem_delete_team[OF kd, of now m] in \<open>auto simp: tr\<close>)
    then show ?thesis by (simp add: c TmDropMember)
  qed (use edits_tm_ok[OF ok setStatus_edits] edits_tm_ok[OF ok accept_edits] edits_tm_ok[OF ok setResponsibility_edits]
      edits_tm_ok[OF ok tm_assignRole_edits] edits_tm_ok[OF ok tm_unassignRole_edits] tm_add_ok[OF ok] in \<open>simp_all add: c\<close>)
qed

lemma tm_run_ok: "tm_ok s \<Longrightarrow> tm_ok (fold tm_exec cmds s)"
  by (induction cmds arbitrary: s) (simp_all add: tm_exec_ok)

section \<open>Properties\<close>

text \<open>
  C28: in every reachable state a member has at most one row per team, and every role held inside a team is a
  role of that organization other than the Owner role, whatever roles are deleted and whoever leaves meanwhile.
\<close>

theorem team_roles_sound:
  assumes "roles_wf s0" "teamMemberships s0 = []" "s = fold tm_exec cmds s0"
    and "mget (teamMemberships s) i = Some a" "mget (teamMemberships s) j = Some b"
  shows "(tm_teamId a = tm_teamId b \<and> tm_membershipId a = tm_membershipId b \<longrightarrow> i = j) \<and>
    (\<forall>rid \<in> set (tm_roleIds a). \<exists>r. mget (roles s) rid = Some r \<and> r_organizationId r = tm_organizationId a \<and> \<not> r_isOwnerRole r)"
proof -
  have "tm_ok s0" by (rule tm_okI) (use assms(1,2) in simp_all)
  then have ok: "tm_ok s" unfolding assms(3) by (rule tm_run_ok)
  have k: "keyed tm_id (teamMemberships s)" using ok by (simp add: tm_ok_def)
  have ids: "tm_id a = i" "tm_id b = j" by (rule keyed_get[OF k assms(4)], rule keyed_get[OF k assms(5)])
  show ?thesis using ok mget_in_mvals[OF assms(4)] mget_in_mvals[OF assms(5)] ids unfolding tm_ok_def team_role_def by blast
qed

lemma edits_tm_row:
  assumes "edits_tm k R s s'" "keyed tm_id (teamMemberships s)" "mget (teamMemberships s) i = Some a" "mget (teamMemberships s') i = Some b"
  shows "b = a \<or> (k = i \<and> tm_edit s a b \<and> R a b)"
  using assms unfolding edits_tm_def by (auto split: if_splits)

text \<open>
  C29: the life of a team membership.  One operation moves the status of a row only along the table of
  transitions; an invitation becomes active only by \<open>accept\<close> of the invited person itself, with a token issued to
  them (or a trusted one) for that; and somebody who left comes back only through \<open>add\<close>.
\<close>

theorem team_member_life_cycle:
  assumes "tm_ok s" "mget (teamMemberships s) i = Some a" "mget (teamMemberships (tm_exec (issued, now, auth, c) s)) i = Some b"
  shows "tm_status b = tm_status a \<or>
    (\<exists>og st actor reason v. c = TmStatus og i st actor reason v \<and> tm_status b \<in> set (TRANSITIONS (tm_status a)) \<and>
       (tm_status b = TMRemoved \<longrightarrow> tm_roleIds b = [])) \<or>
    (\<exists>og actor v. c = TmAccept og i actor v \<and> tm_status a = TMPending \<and> tm_status b = TMActive \<and>
       map_option m_identity (mget (memberships s) (tm_membershipId a)) = Some actor \<and>
       assertTeamAuthorization issued now auth og MemberAccept (Some actor) = Inr ()) \<or>
    (\<exists>input. c = TmAdd input \<and> tm_status a = TMRemoved \<and> tm_status b \<in> {TMPending, TMActive})"
proof -
  have k: "keyed tm_id (teamMemberships s)" and wf: "roles_wf s" using assms(1) by (simp_all add: tm_ok_def)
  note row = edits_tm_row[OF _ k assms(2)]
  show ?thesis
  proof (cases c)
    case (TmAdd input)
    show ?thesis
    proof (cases rule: tm_add_cases[of issued now auth input s])
      case same
      then show ?thesis using assms(2,3) by (simp add: TmAdd)
    next
      case (put r)
      show ?thesis
      proof (cases "tm_id r = i")
        case False
        then show ?thesis using assms(2,3) put(1) by (simp add: TmAdd put_tm_def)
      next
        case True
        then have b: "b = r" using assms(3) put(1) by (simp add: TmAdd put_tm_def)
        obtain z where z: "z \<in> set (mvals (teamMemberships s))" "tm_id z = i" "tm_status z = TMRemoved"
          using put(8) True assms(2) by blast
        then have "a = z" using keyed_vals[OF k, of z] assms(2) by simp
        then show ?thesis using z(3) put(2) b TmAdd by blast
      qed
    qed
  next
    case (TmStatus og j st actor reason v)
    then have x: "mget (teamMemberships (snd (tm_setStatus issued now auth og j st actor reason v s))) i = Some b" using assms(3) by simp
    show ?thesis using row[OF setStatus_edits x] TmStatus by blast
  next
    case (TmAccept og j actor v)
    then have x: "mget (teamMemberships (snd (tm_accept issued now auth og j actor v s))) i = Some b" using assms(3) by simp
    show ?thesis using row[OF accept_edits x] TmAccept by blast
  next
    case (TmRoles r)
    consider "teamMemberships (role_exec r s) = teamMemberships s"
      | d where "teamMemberships (role_exec r s) = mmap (without_role d) (teamMemberships s)"
      using role_exec_team[OF wf, of r] by blast
    then show ?thesis using assms(2,3) by cases (auto simp: TmRoles without_role_def)
  next
    case (TmDropMember m)
    have "keyed tm_id (teamMemberships (snd (mem_delete now m s)))" using mem_delete_team[OF k] by blast
    then have "b \<in> set (mvals (teamMemberships s))" "tm_id b = i"
      using mem_delete_team[OF k, of now m] mget_in_mvals[OF assms(3)] keyed_get[of tm_id _ i b] assms(3) by (auto simp: TmDropMember)
    then have "b = a" using keyed_vals[OF k, of b] assms(2) by simp
    then show ?thesis by simp
  next
    case (TmResponsibility og j r v)
    then have x: "mget (teamMemberships (snd (tm_setResponsibility issued now auth og j r v s))) i = Some b" using assms(3) by simp
    show ?thesis using row[OF setResponsibility_edits x] by blast
  next
    case (TmAssign og j r v)
    then have x: "mget (teamMemberships (snd (tm_assignRole issued now auth og j r v s))) i = Some b" using assms(3) by simp
    show ?thesis using row[OF tm_assignRole_edits x] by blast
  next
    case (TmUnassign og j r v)
    then have x: "mget (teamMemberships (snd (tm_unassignRole issued now auth og j r v s))) i = Some b" using assms(3) by simp
    show ?thesis using row[OF tm_unassignRole_edits x] by blast
  qed
qed

section \<open>Witnesses\<close>

definition demo_team_member :: team_membership where
  "demo_team_member = \<lparr> tm_id = ''x1'', tm_organizationId = ''o1'', tm_teamId = ''t1'', tm_membershipId = ''m1'', tm_status = TMPending,
     tm_responsibility = RMember, tm_roleIds = [''r2''], tm_createdAt = 0, tm_updatedAt = 0, tm_joinedAt = None, tm_invitedBy = None,
     tm_statusChange = None, tm_version = 1 \<rparr>"

definition demo_tm_store :: store where
  "demo_tm_store = demo_member_store \<lparr> teamMemberships := [(''x1'', demo_team_member)] \<rparr>"

definition demo_accept_token :: token_registry where
  "demo_accept_token = issueTeamAuthorization 1 ''o1'' (ident ''clerk'' ''1'') [MemberAccept] False 0 []"

definition demo_accept :: tm_call where
  "demo_accept = (demo_accept_token, 5, Some 1, TmAccept ''o1'' ''x1'' (ident ''clerk'' ''1'') None)"

lemma demo_accepted:
  "map_option tm_status (mget (teamMemberships (tm_exec demo_accept demo_tm_store)) ''x1'') = Some TMActive"
  by code_simp

lemma demo_tm_ok: "tm_ok demo_tm_store"
proof (rule tm_okI)
  show "roles_wf demo_tm_store" using demo_people by (simp add: demo_tm_store_def people_def roles_wf_def)
  show "team_role demo_tm_store (tm_organizationId a) rid"
    if "a \<in> set (mvals (teamMemberships demo_tm_store))" "rid \<in> set (tm_roleIds a)" for a rid
    using that by (simp add: demo_tm_store_def mvals_def demo_team_member_def team_role_def demo_role_def)
qed (simp_all add: demo_tm_store_def mvals_def demo_team_member_def keyed_def)

theorem team_member_life_cycle_witness:
  "map_option m_identity (mget (memberships demo_tm_store) ''m1'') = Some (ident ''clerk'' ''1'') \<and>
   assertTeamAuthorization demo_accept_token 5 (Some 1) ''o1'' MemberAccept (Some (ident ''clerk'' ''1'')) = Inr ()"
proof -
  obtain b where b: "mget (teamMemberships (tm_exec demo_accept demo_tm_store)) ''x1'' = Some b" "tm_status b = TMActive"
    using demo_accepted by auto
  have a: "mget (teamMemberships demo_tm_store) ''x1'' = Some demo_team_member" by (simp add: demo_tm_store_def)
  show ?thesis
    using team_member_life_cycle[OF demo_tm_ok a b(1)[unfolded demo_accept_def]] b(2) by (simp add: demo_team_member_def)
qed

definition demo_add :: add_team_member where
  "demo_add = \<lparr> am_id = ''x1'', am_organizationId = ''o1'', am_teamId = ''t1'', am_membershipId = ''m1'', am_status = Some ''pending'',
     am_responsibility = None, am_roleIds = Some [''r2'', ''r2''], am_invitedBy = None, am_now = None \<rparr>"

definition demo_tm_base :: store where
  "demo_tm_base = demo_member_store \<lparr> teams := [(''t1'', demo_t1)] \<rparr>"

definition demo_tm_calls :: "tm_call list" where
  "demo_tm_calls = [(issueTeamAuthorization 1 ''o1'' (ident ''clerk'' ''1'') [MemberAdd] False 0 [], 5, Some 1, TmAdd demo_add)]"

lemma demo_added:
  "map_option tm_roleIds (mget (teamMemberships (fold tm_exec demo_tm_calls demo_tm_base)) ''x1'') = Some [''r2'']"
  by code_simp

lemma demo_added_org:
  "map_option tm_organizationId (mget (teamMemberships (fold tm_exec demo_tm_calls demo_tm_base)) ''x1'') = Some ''o1''"
  by code_simp

theorem team_roles_sound_witness:
  "\<exists>r. mget (roles (fold tm_exec demo_tm_calls demo_tm_base)) ''r2'' = Some r \<and> r_organizationId r = ''o1'' \<and> \<not> r_isOwnerRole r"
proof -
  have base: "roles_wf demo_tm_base" "teamMemberships demo_tm_base = []"
    using demo_people by (simp_all add: demo_tm_base_def people_def roles_wf_def demo_member_store_def demo_role_store_def)
  obtain a where a: "mget (teamMemberships (fold tm_exec demo_tm_calls demo_tm_base)) ''x1'' = Some a" "tm_roleIds a = [''r2'']"
    using demo_added by auto
  have "tm_organizationId a = ''o1''"
    using demo_added_org a(1) by simp
  then show ?thesis using team_roles_sound[OF base refl a(1) a(1)] a(2) by simp
qed

end
