(* ===== verification/Engine.thy ===== *)
theory Engine
  imports Organizations Permissions SupportGrants TeamMembers Memberships
begin

text \<open>
  The deny-by-default authorization engine, \<open>packages/core/src/authorization/engine.ts\<close>, and the snapshot of
  decisions that is sent to a client, \<open>authorization/snapshot.ts\<close>.  The engine only reads, but reading a
  member lifts ended suspensions, so a decision returns the store as well.  The clock is read once per decision.

  The lemmas show that a decision is exactly the documented rule (a specification that mentions neither the
  order of the checks nor the searches of the implication graph), that the rows of other organizations never
  matter, that the snapshot says what the engine says, and that an active organization always has somebody
  who may do everything.
\<close>

section \<open>Decisions\<close>

definition isWellFormedPermissionKey :: "string \<Rightarrow> bool" where
  "isWellFormedPermissionKey v = is_ok (assertValidPermissionKey v)"

record engine_options =
  ownerRequiresRegisteredPermission :: bool

record can_input =
  ci_identity :: identity
  ci_organizationId :: string
  ci_permission :: string
  ci_teamId :: "string option"

datatype via = ViaMembership | ViaSupportGrant

datatype base_reason = MalformedInput | OrganizationInactive | MembershipInactive | PermissionDenied

record base_decision =
  bd_allowed :: bool
  bd_via :: "via option"
  bd_reason :: "base_reason option"
  bd_membership :: "membership option"

definition denied :: "base_reason \<Rightarrow> base_decision" where
  "denied why = \<lparr> bd_allowed = False, bd_via = None, bd_reason = Some why, bd_membership = None \<rparr>"

definition by_membership :: "membership \<Rightarrow> base_decision" where
  "by_membership m = \<lparr> bd_allowed = True, bd_via = Some ViaMembership, bd_reason = None, bd_membership = Some m \<rparr>"

definition by_grant :: base_decision where
  "by_grant = \<lparr> bd_allowed = True, bd_via = Some ViaSupportGrant, bd_reason = None, bd_membership = None \<rparr>"

definition organizationIsActive :: "store \<Rightarrow> string \<Rightarrow> bool" where
  "organizationIsActive s organizationId = (map_option o_status (org_findById s organizationId) = Some OActive)"

definition grantIdentities :: "store \<Rightarrow> identity \<Rightarrow> identity list" where
  "grantIdentities s i =
     (let resolved = resolve s i
      in if provider resolved = provider i \<and> subject resolved = subject i then [i] else [i, resolved])"

definition activeTeamRoleIds :: "store \<Rightarrow> string \<Rightarrow> string \<Rightarrow> string \<Rightarrow> string list option" where
  "activeTeamRoleIds s organizationId teamId membershipId =
     (case team_findById s organizationId teamId of
        None \<Rightarrow> None
      | Some t \<Rightarrow>
          if t_status t \<noteq> TActive then None
          else case tm_find s organizationId teamId membershipId of
                 None \<Rightarrow> None
               | Some row \<Rightarrow> if tm_status row = TMActive then Some (tm_roleIds row) else None)"

definition membershipAllows :: "engine_options \<Rightarrow> store \<Rightarrow> can_input \<Rightarrow> string list \<Rightarrow> bool" where
  "membershipAllows options s input roleIds =
     (let found = filter (\<lambda>r. r_organizationId r = ci_organizationId input) (role_findByIds s roleIds) in
      if list_ex (\<lambda>r. ci_permission input \<in> set (r_permissionKeys r)) found then True
      else if list_ex r_isOwnerRole found \<and>
          (\<not> ownerRequiresRegisteredPermission options \<or> perm_findByKey s (ci_permission input) \<noteq> None) then True
      else let implying = perm_impliedBy s (ci_permission input)
           in implying \<noteq> [] \<and> list_ex (\<lambda>r. list_ex (\<lambda>key. key \<in> set (r_permissionKeys r)) implying) found)"

definition decideCan :: "engine_options \<Rightarrow> timestamp \<Rightarrow> can_input \<Rightarrow> store \<Rightarrow> base_decision \<times> store" where
  "decideCan options now input s0 =
     (if \<not> isWellFormedPermissionKey (ci_permission input) then (denied MalformedInput, s0)
      else
        let (found, s) = mem_findByIdentity now (ci_organizationId input) (ci_identity input) s0 in
        if (case found of None \<Rightarrow> False | Some m \<Rightarrow> m_status m \<noteq> MActive) then (denied MembershipInactive, s)
        else if \<not> organizationIsActive s (ci_organizationId input) then (denied OrganizationInactive, s)
        else case ci_teamId input of
          Some t \<Rightarrow>
            (case found of
               None \<Rightarrow> denied PermissionDenied
             | Some m \<Rightarrow>
                 (case activeTeamRoleIds s (ci_organizationId input) t (m_id m) of
                    None \<Rightarrow> denied PermissionDenied
                  | Some teamRoleIds \<Rightarrow>
                      let roleIds = uniq (m_roleIds m @ teamRoleIds) in
                      if roleIds \<noteq> [] \<and> membershipAllows options s input roleIds then by_membership m
                      else denied PermissionDenied), s)
        | None \<Rightarrow>
            (if (case found of None \<Rightarrow> False | Some m \<Rightarrow> m_roleIds m \<noteq> [] \<and> membershipAllows options s input (m_roleIds m))
             then by_membership (the found)
             else
               let granted = sg_activePermissions s (ci_organizationId input) (grantIdentities s (ci_identity input)) now in
               if granted \<noteq> [] \<and> ci_permission input \<in> set granted then by_grant
               else if granted \<noteq> [] \<and> list_ex (\<lambda>key. key \<in> set granted) (perm_impliedBy s (ci_permission input)) then by_grant
               else denied PermissionDenied, s))"

text \<open>What \<open>onDecision\<close> is told; a hook that throws changes nothing.\<close>

datatype decision_kind = KindCan | KindCheck

record decision_report =
  dc_kind :: decision_kind
  dc_identity :: identity
  dc_organizationId :: string
  dc_permission :: "string option"
  dc_feature :: "string option"
  dc_teamId :: "string option"
  dc_allowed :: bool
  dc_via :: "via option"
  dc_malformed :: bool

definition engine_can :: "engine_options \<Rightarrow> timestamp \<Rightarrow> can_input \<Rightarrow> store \<Rightarrow> (bool \<times> decision_report) \<times> store" where
  "engine_can options now input s0 =
     (let (d, s) = decideCan options now input s0 in
      ((bd_allowed d, \<lparr> dc_kind = KindCan, dc_identity = ci_identity input, dc_organizationId = ci_organizationId input,
          dc_permission = Some (ci_permission input), dc_feature = None, dc_teamId = ci_teamId input,
          dc_allowed = bd_allowed d, dc_via = bd_via d,
          dc_malformed = (\<not> isWellFormedPermissionKey (ci_permission input)) \<rparr>), s))"

record check_input =
  ki_identity :: identity
  ki_organizationId :: string
  ki_permission :: "string option"
  ki_feature :: "string option"
  ki_teamId :: "string option"

definition evaluateCheck :: "engine_options \<Rightarrow> timestamp \<Rightarrow> check_input \<Rightarrow> store \<Rightarrow> bool \<times> store" where
  "evaluateCheck options now input s0 =
     (if (case ki_feature input of None \<Rightarrow> False | Some f \<Rightarrow> \<not> features_isEnabled s0 (ki_organizationId input) f) then (False, s0)
      else case ki_permission input of
        Some p \<Rightarrow>
          (let (d, s) = decideCan options now \<lparr> ci_identity = ki_identity input, ci_organizationId = ki_organizationId input,
                                          ci_permission = p, ci_teamId = ki_teamId input \<rparr> s0
           in (bd_allowed d, s))
      | None \<Rightarrow>
          let (found, s) = mem_findByIdentity now (ki_organizationId input) (ki_identity input) s0 in
          (if (case found of None \<Rightarrow> False | Some m \<Rightarrow> m_status m \<noteq> MActive) then False
           else if \<not> organizationIsActive s (ki_organizationId input) then False
           else case ki_teamId input of
             Some t \<Rightarrow> (case found of None \<Rightarrow> False | Some m \<Rightarrow> activeTeamRoleIds s (ki_organizationId input) t (m_id m) \<noteq> None)
           | None \<Rightarrow>
               if found = None
               then sg_activePermissions s (ki_organizationId input) (grantIdentities s (ki_identity input)) now \<noteq> []
               else True, s))"

definition engine_check :: "engine_options \<Rightarrow> timestamp \<Rightarrow> check_input \<Rightarrow> store \<Rightarrow> (bool \<times> decision_report) \<times> store" where
  "engine_check options now input s0 =
     (let (allowed, s) = evaluateCheck options now input s0 in
      ((allowed, \<lparr> dc_kind = KindCheck, dc_identity = ki_identity input, dc_organizationId = ki_organizationId input,
          dc_permission = ki_permission input, dc_feature = ki_feature input, dc_teamId = ki_teamId input,
          dc_allowed = allowed, dc_via = None,
          dc_malformed = (case ki_permission input of None \<Rightarrow> False | Some p \<Rightarrow> \<not> isWellFormedPermissionKey p) \<rparr>), s))"

section \<open>The snapshot for a client\<close>

record snapshot_input =
  si_identity :: identity
  si_organizationId :: string
  si_permissions :: "string list option"
  si_features :: "string list option"

record authorization_snapshot =
  sn_organizationId :: string
  sn_permissions :: "(string, bool) jsmap"
  sn_features :: "(string, bool) jsmap"

text \<open>The questions are asked one after the other; each runs on the store the one before left.\<close>

fun ask_all :: "('k \<Rightarrow> store \<Rightarrow> bool \<times> store) \<Rightarrow> 'k list \<Rightarrow> store \<Rightarrow> ('k \<times> bool) list \<times> store" where
  "ask_all ask [] s = ([], s)"
| "ask_all ask (k # ks) s = (let (b, s1) = ask k s; (rest, s2) = ask_all ask ks s1 in ((k, b) # rest, s2))"

definition ask_can :: "engine_options \<Rightarrow> timestamp \<Rightarrow> identity \<Rightarrow> string \<Rightarrow> string \<Rightarrow> store \<Rightarrow> bool \<times> store" where
  "ask_can options now i organizationId p s =
     (let ((allowed, _), s1) = engine_can options now \<lparr> ci_identity = i, ci_organizationId = organizationId,
                                             ci_permission = p, ci_teamId = None \<rparr> s
      in (allowed, s1))"

definition computeAuthorizationSnapshot :: "engine_options \<Rightarrow> timestamp \<Rightarrow> snapshot_input \<Rightarrow> store \<Rightarrow> authorization_snapshot \<times> store" where
  "computeAuthorizationSnapshot options now input s =
     (let (permissionEntries, s1) = ask_all (ask_can options now (si_identity input) (si_organizationId input))
            (case si_permissions input of None \<Rightarrow> [] | Some ps \<Rightarrow> ps) s;
          requestedFeatures = (case si_features input of None \<Rightarrow> [] | Some fs \<Rightarrow> fs);
          (hasMembership, s2) =
            (if requestedFeatures \<noteq> []
             then let ((allowed, _), s2) = engine_check options now \<lparr> ki_identity = si_identity input,
                        ki_organizationId = si_organizationId input, ki_permission = None, ki_feature = None, ki_teamId = None \<rparr> s1
                  in (allowed, s2)
             else (True, s1));
          featureEntries = map (\<lambda>key. (key, hasMembership \<and> features_isEnabled s2 (si_organizationId input) key)) requestedFeatures
      in (\<lparr> sn_organizationId = si_organizationId input, sn_permissions = of_entries permissionEntries,
            sn_features = of_entries featureEntries \<rparr>, s2))"

section \<open>The rule a decision follows\<close>

text \<open>
  A role counts when it is a role of the organization that lists the permission or one that implies it through
  any number of steps, or the Owner role (for a registered permission, when the engine requires that).
\<close>

definition grants :: "engine_options \<Rightarrow> store \<Rightarrow> string \<Rightarrow> string \<Rightarrow> string \<Rightarrow> bool" where
  "grants options s og p rid \<longleftrightarrow>
     (\<exists>r. mget (roles s) rid = Some r \<and> r_organizationId r = og \<and>
        ((\<exists>k \<in> set (r_permissionKeys r). (k, p) \<in> (implied s)\<^sup>*) \<or>
         (r_isOwnerRole r \<and> (\<not> ownerRequiresRegisteredPermission options \<or> mhas (permissions s) p))))"

definition may :: "engine_options \<Rightarrow> timestamp \<Rightarrow> can_input \<Rightarrow> store \<Rightarrow> bool" where
  "may options now input s \<longleftrightarrow>
     (let og = ci_organizationId input; p = ci_permission input; found = fst (mem_findByIdentity now og (ci_identity input) s) in
      assertValidPermissionKey p = Inr p \<and>
      (\<exists>org. mget (organizations s) og = Some org \<and> o_status org = OActive) \<and>
      (\<forall>m. found = Some m \<longrightarrow> m_status m = MActive) \<and>
      (case ci_teamId input of
         None \<Rightarrow>
           (\<exists>m rid. found = Some m \<and> rid \<in> set (m_roleIds m) \<and> grants options s og p rid) \<or>
           (\<exists>g \<in> set (mvals (supportGrants s)). gives og [ci_identity input, resolve s (ci_identity input)] now g \<and>
              (\<exists>k \<in> set (g_permissions g). (k, p) \<in> (implied s)\<^sup>*))
       | Some t \<Rightarrow>
           (\<exists>m row rid. found = Some m \<and> map_option t_status (teamOf s og t) = Some TActive \<and>
              tm_find s og t (m_id m) = Some row \<and> tm_status row = TMActive \<and>
              rid \<in> set (m_roleIds m) \<union> set (tm_roleIds row) \<and> grants options s og p rid)))"

lemma valid_key_self: "assertValidPermissionKey p = Inr q \<longleftrightarrow> q = p \<and> is_ok (assertValidPermissionKey p)"
  by (auto simp: assertValidPermissionKey_def)

lemma impliedBy_closure:
  assumes "perms_wf s"
  shows "k \<in> set (perm_impliedBy s p) \<longleftrightarrow> k \<noteq> p \<and> (k, p) \<in> (implied s)\<^sup>*"
  using assms by (simp add: perms_wf_def perm_impliedBy_def impliedByClosure_set[OF distinct_graph] graph_edges)

text \<open>A direct hit or one through an implication: the reflexive closure.\<close>

lemma implying_hits:
  assumes "perms_wf s"
  shows "p \<in> K \<or> (\<exists>k \<in> set (perm_impliedBy s p). k \<in> K) \<longleftrightarrow> (\<exists>k \<in> K. (k, p) \<in> (implied s)\<^sup>*)"
  using impliedBy_closure[OF assms] by blast

lemma lapsed_views [simp]:
  "organizations (lapseBlocks now s) = organizations s" "permissions (lapseBlocks now s) = permissions s"
  "supportGrants (lapseBlocks now s) = supportGrants s" "teams (lapseBlocks now s) = teams s"
  "teamMemberships (lapseBlocks now s) = teamMemberships s" "features (lapseBlocks now s) = features s"
  "featureDefinitions (lapseBlocks now s) = featureDefinitions s"
  by (simp_all add: lapseBlocks_def)

lemma lapsed_team [simp]: "tm_find (lapseBlocks now s) og t m = tm_find s og t m" "teamOf (lapseBlocks now s) og t = teamOf s og t"
  by (simp_all add: tm_find_def teamOf_def)

lemma lapsed_activeTeamRoleIds [simp]: "activeTeamRoleIds (lapseBlocks now s) og t m = activeTeamRoleIds s og t m"
  unfolding activeTeamRoleIds_def team_findById_def lapsed_team ..

lemma lapsed_answers [simp]:
  "organizationIsActive (lapseBlocks now s) og = organizationIsActive s og"
  "grantIdentities (lapseBlocks now s) i = grantIdentities s i"
  "membershipAllows options (lapseBlocks now s) input rs = membershipAllows options s input rs"
  "sg_activePermissions (lapseBlocks now s) og ids t' = sg_activePermissions s og ids t'"
  "perm_impliedBy (lapseBlocks now s) p = perm_impliedBy s p"
  "features_isEnabled (lapseBlocks now s) og k = features_isEnabled s og k"
  by (simp_all add: organizationIsActive_def org_findById_def grantIdentities_def resolve_def membershipAllows_def role_findByIds_def perm_findByKey_def
      perm_impliedBy_def sg_activePermissions_def features_isEnabled_def is_on_def effectiveFor_def overridesOf_def)

lemma mem_find_store [simp]: "snd (mem_findByIdentity now og i s) = lapseBlocks now s"
  by (simp add: mem_findByIdentity_def Let_def)

lemma if_chain: "(if a then True else if b then True else c) = (a \<or> b \<or> c)"
  by simp

lemma any_hit: "(xs \<noteq> [] \<and> (\<exists>r \<in> F. \<exists>k \<in> set xs. Q r k)) = (\<exists>r \<in> F. \<exists>k \<in> set xs. Q r k)"
  by auto

lemma membershipAllows_grants:
  assumes "perms_wf s"
  shows "membershipAllows options s input rs \<longleftrightarrow>
    (\<exists>rid \<in> set rs. grants options s (ci_organizationId input) (ci_permission input) rid)"
proof -
  define found where "found = filter (\<lambda>r. r_organizationId r = ci_organizationId input) (role_findByIds s rs)"
  let ?p = "ci_permission input"
  have f: "r \<in> set found \<longleftrightarrow> r_organizationId r = ci_organizationId input \<and> (\<exists>rid \<in> set rs. mget (roles s) rid = Some r)" for r
    by (auto simp: found_def role_findByIds_def List.map_filter_def intro: rev_image_eqI)
  let ?own = "\<not> ownerRequiresRegisteredPermission options \<or> mhas (permissions s) ?p"
  have "membershipAllows options s input rs \<longleftrightarrow>
     (\<exists>r \<in> set found. ?p \<in> set (r_permissionKeys r) \<or> (\<exists>k \<in> set (perm_impliedBy s ?p). k \<in> set (r_permissionKeys r)) \<or> (r_isOwnerRole r \<and> ?own))"
  proof -
    have "membershipAllows options s input rs \<longleftrightarrow>
       (\<exists>r \<in> set found. ?p \<in> set (r_permissionKeys r)) \<or> ((\<exists>r \<in> set found. r_isOwnerRole r) \<and> ?own) \<or>
       (\<exists>r \<in> set found. \<exists>k \<in> set (perm_impliedBy s ?p). k \<in> set (r_permissionKeys r))"
      unfolding membershipAllows_def found_def[symmetric] Let_def list_ex_iff perm_findByKey_def mhas_def
      if_chain any_hit by blast
    then show ?thesis by blast
  qed
  also have "\<dots> \<longleftrightarrow> (\<exists>r \<in> set found. (\<exists>k \<in> set (r_permissionKeys r). (k, ?p) \<in> (implied s)\<^sup>*) \<or> (r_isOwnerRole r \<and> ?own))"
    unfolding implying_hits[OF assms, symmetric] disj_assoc ..
  finally show ?thesis unfolding Bex_def f grants_def by blast
qed

lemma granted_hits:
  assumes "perms_wf s"
  shows "(let granted = sg_activePermissions s og (grantIdentities s i) now
          in (granted \<noteq> [] \<and> p \<in> set granted) \<or> (granted \<noteq> [] \<and> list_ex (\<lambda>k. k \<in> set granted) (perm_impliedBy s p))) \<longleftrightarrow>
    (\<exists>g \<in> set (mvals (supportGrants s)). gives og [i, resolve s i] now g \<and> (\<exists>k \<in> set (g_permissions g). (k, p) \<in> (implied s)\<^sup>*))"
proof -
  have ids: "set (grantIdentities s i) = {i, resolve s i}"
    by (auto simp: grantIdentities_def Let_def intro: identity.equality)
  have gv: "gives og (grantIdentities s i) now = gives og [i, resolve s i] now"
    by (rule ext) (simp add: gives_def ids)
  let ?g = "sg_activePermissions s og (grantIdentities s i) now"
  have "(?g \<noteq> [] \<and> p \<in> set ?g) \<or> (?g \<noteq> [] \<and> list_ex (\<lambda>k. k \<in> set ?g) (perm_impliedBy s p)) \<longleftrightarrow>
      p \<in> set ?g \<or> (\<exists>k \<in> set (perm_impliedBy s p). k \<in> set ?g)"
    by (auto simp: list_ex_iff)
  also have "\<dots> \<longleftrightarrow> (\<exists>k \<in> set ?g. (k, p) \<in> (implied s)\<^sup>*)" by (rule implying_hits[OF assms])
  finally show ?thesis by (auto simp: activePermissions_set gv Let_def)
qed

lemma organizationIsActive_iff: "organizationIsActive s og \<longleftrightarrow> (\<exists>org. mget (organizations s) og = Some org \<and> o_status org = OActive)"
  by (auto simp: organizationIsActive_def org_findById_def)

lemma activeTeamRoleIds_Some:
  "activeTeamRoleIds s og t m = Some rs \<longleftrightarrow>
     (\<exists>row. map_option t_status (teamOf s og t) = Some TActive \<and> tm_find s og t m = Some row \<and> tm_status row = TMActive \<and> rs = tm_roleIds row)"
  by (auto simp: activeTeamRoleIds_def team_findById_def split: option.splits if_splits)

lemma decide_simps [simp]: "\<not> bd_allowed (denied why)" "bd_allowed (by_membership m)" "bd_allowed by_grant"
  by (simp_all add: denied_def by_membership_def by_grant_def)

lemma decideCan_store: "snd (decideCan options now input s) = (if isWellFormedPermissionKey (ci_permission input) then lapseBlocks now s else s)"
proof (cases "mem_findByIdentity now (ci_organizationId input) (ci_identity input) s")
  case (Pair found s1)
  then have "s1 = lapseBlocks now s" using mem_find_store[of now "ci_organizationId input" "ci_identity input" s] by simp
  then show ?thesis using Pair by (simp add: decideCan_def Let_def split: option.split)
qed

lemma decide_membership:
  assumes "mem_findByIdentity now (ci_organizationId input) (ci_identity input) s = (found, s1)"
    and "isWellFormedPermissionKey (ci_permission input)" "organizationIsActive s (ci_organizationId input)"
    and "\<forall>m. found = Some m \<longrightarrow> m_status m = MActive"
  shows "bd_allowed (fst (decideCan options now input s)) \<longleftrightarrow>
    (case ci_teamId input of
       Some t \<Rightarrow> (\<exists>m rs. found = Some m \<and> activeTeamRoleIds s (ci_organizationId input) t (m_id m) = Some rs \<and>
          m_roleIds m @ rs \<noteq> [] \<and> membershipAllows options s input (uniq (m_roleIds m @ rs)))
     | None \<Rightarrow> (\<exists>m. found = Some m \<and> m_roleIds m \<noteq> [] \<and> membershipAllows options s input (m_roleIds m)) \<or>
         (let granted = sg_activePermissions s (ci_organizationId input) (grantIdentities s (ci_identity input)) now
          in (granted \<noteq> [] \<and> ci_permission input \<in> set granted) \<or>
             (granted \<noteq> [] \<and> list_ex (\<lambda>k. k \<in> set granted) (perm_impliedBy s (ci_permission input)))))"
proof -
  have s1: "s1 = lapseBlocks now s" using mem_find_store[of now "ci_organizationId input" "ci_identity input" s] assms(1) by simp
  have act: "organizationIsActive s1 (ci_organizationId input)" using assms(3) s1 by simp
  have ne: "uniq xs = [] \<longleftrightarrow> xs = []" for xs :: "string list" using set_uniq[of xs] by (metis set_empty)
  have nb: "\<not> (case found of None \<Rightarrow> False | Some m \<Rightarrow> m_status m \<noteq> MActive)" using assms(4) by (cases found) auto
  show ?thesis
  proof (cases "ci_teamId input")
    case None
    then show ?thesis using assms(2) act nb
      by (cases found) (simp_all add: decideCan_def assms(1) s1 Let_def)
  next
    case (Some t)
    show ?thesis
    proof (cases found)
      case None
      then show ?thesis using assms(2) act nb Some by (simp add: decideCan_def assms(1) s1 Let_def)
    next
      case (Some m)
      then show ?thesis using assms(2) act nb \<open>ci_teamId input = Some t\<close>
        by (cases "activeTeamRoleIds s (ci_organizationId input) t (m_id m)") (simp_all add: decideCan_def assms(1) s1 Let_def ne)
    qed
  qed
qed

lemma decide_denied:
  assumes "mem_findByIdentity now (ci_organizationId input) (ci_identity input) s = (found, s1)"
    and "\<not> isWellFormedPermissionKey (ci_permission input) \<or> \<not> organizationIsActive s (ci_organizationId input) \<or>
       (\<exists>m. found = Some m \<and> m_status m \<noteq> MActive)"
  shows "\<not> bd_allowed (fst (decideCan options now input s))"
proof -
  have s1: "s1 = lapseBlocks now s" using mem_find_store[of now "ci_organizationId input" "ci_identity input" s] assms(1) by simp
  show ?thesis using assms(2) by (cases found) (auto simp: decideCan_def assms(1) s1)
qed

lemma decideCan_spec:
  assumes wf: "perms_wf s"
  shows "bd_allowed (fst (decideCan options now input s)) \<longleftrightarrow> may options now input s"
proof -
  obtain found s1 where f: "mem_findByIdentity now (ci_organizationId input) (ci_identity input) s = (found, s1)" by fastforce
  let ?og = "ci_organizationId input" and ?p = "ci_permission input"
  have key: "assertValidPermissionKey ?p = Inr ?p \<longleftrightarrow> isWellFormedPermissionKey ?p"
    by (simp add: isWellFormedPermissionKey_def valid_key_self)
  show ?thesis
  proof (cases "isWellFormedPermissionKey ?p \<and> organizationIsActive s ?og \<and> (\<forall>m. found = Some m \<longrightarrow> m_status m = MActive)")
    case False
    then have "\<not> may options now input s"
      unfolding may_def Let_def f key organizationIsActive_iff[symmetric] fst_conv by blast
    moreover have "\<not> bd_allowed (fst (decideCan options now input s))" using False by (intro decide_denied[OF f]) blast
    ultimately show ?thesis by simp
  next
    case True
    have team: "m_roleIds m @ rs \<noteq> [] \<and> membershipAllows options s input (uniq (m_roleIds m @ rs)) \<longleftrightarrow>
        (\<exists>rid \<in> set (m_roleIds m) \<union> set rs. grants options s ?og ?p rid)" for m rs
      unfolding membershipAllows_grants[OF wf] set_uniq by auto
    have own: "m_roleIds m \<noteq> [] \<and> membershipAllows options s input (m_roleIds m) \<longleftrightarrow>
        (\<exists>rid \<in> set (m_roleIds m). grants options s ?og ?p rid)" for m
      unfolding membershipAllows_grants[OF wf] by auto
    have hyp: "assertValidPermissionKey ?p = Inr ?p" "\<exists>org. mget (organizations s) ?og = Some org \<and> o_status org = OActive"
      "\<forall>m. found = Some m \<longrightarrow> m_status m = MActive" using True key organizationIsActive_iff by auto
    show ?thesis
    proof (cases "ci_teamId input")
      case None
      have "bd_allowed (fst (decideCan options now input s)) \<longleftrightarrow>
          (\<exists>m. found = Some m \<and> (\<exists>rid \<in> set (m_roleIds m). grants options s ?og ?p rid)) \<or>
          (\<exists>g \<in> set (mvals (supportGrants s)). gives ?og [ci_identity input, resolve s (ci_identity input)] now g \<and>
             (\<exists>k \<in> set (g_permissions g). (k, ?p) \<in> (implied s)\<^sup>*))"
        using decide_membership[OF f, of options] True unfolding None option.case own granted_hits[OF wf] by blast
      moreover have "may options now input s \<longleftrightarrow>
          (\<exists>m rid. found = Some m \<and> rid \<in> set (m_roleIds m) \<and> grants options s ?og ?p rid) \<or>
          (\<exists>g \<in> set (mvals (supportGrants s)). gives ?og [ci_identity input, resolve s (ci_identity input)] now g \<and>
             (\<exists>k \<in> set (g_permissions g). (k, ?p) \<in> (implied s)\<^sup>*))"
        using hyp unfolding may_def Let_def f fst_conv None option.case by blast
      ultimately show ?thesis by blast
    next
      case (Some t)
      have "bd_allowed (fst (decideCan options now input s)) \<longleftrightarrow>
          (\<exists>m rs. found = Some m \<and> activeTeamRoleIds s ?og t (m_id m) = Some rs \<and>
             (\<exists>rid \<in> set (m_roleIds m) \<union> set rs. grants options s ?og ?p rid))"
        using decide_membership[OF f, of options] True unfolding Some option.case team by blast
      moreover have "may options now input s \<longleftrightarrow>
          (\<exists>m row rid. found = Some m \<and> map_option t_status (teamOf s ?og t) = Some TActive \<and>
             tm_find s ?og t (m_id m) = Some row \<and> tm_status row = TMActive \<and>
             rid \<in> set (m_roleIds m) \<union> set (tm_roleIds row) \<and> grants options s ?og ?p rid)"
        using hyp unfolding may_def Let_def f fst_conv Some option.case by blast
      ultimately show ?thesis unfolding activeTeamRoleIds_Some by blast
    qed
  qed
qed

section \<open>Other organizations never matter\<close>

text \<open>The store of one tenant: the rows of other organizations are gone.\<close>

definition only_org :: "string \<Rightarrow> store \<Rightarrow> store" where
  "only_org og s = s \<lparr>
     organizations := mfilter (\<lambda>x. o_id x = og) (organizations s),
     memberships := mfilter (\<lambda>x. m_organizationId x = og) (memberships s),
     roles := mfilter (\<lambda>x. r_organizationId x = og) (roles s),
     features := mfilter (\<lambda>x. f_organizationId x = og) (features s),
     supportGrants := mfilter (\<lambda>x. g_organizationId x = og) (supportGrants s),
     teams := mfilter (\<lambda>x. t_organizationId x = og) (teams s),
     teamMemberships := mfilter (\<lambda>x. tm_organizationId x = og) (teamMemberships s) \<rparr>"

lemma find_filter: "(\<And>x. x \<in> set xs \<Longrightarrow> P x \<Longrightarrow> Q x) \<Longrightarrow> find P (filter Q xs) = find P xs"
  by (induction xs) auto

lemma fold_filter_skip: "(\<And>x acc. x \<in> set xs \<Longrightarrow> \<not> Q x \<Longrightarrow> f x acc = acc) \<Longrightarrow> fold f (filter Q xs) acc = fold f xs acc"
  by (induction xs arbitrary: acc) auto

lemma only_org_views [simp]:
  "permissions (only_org og s) = permissions s" "identityLinksByFromKey (only_org og s) = identityLinksByFromKey s"
  "featureDefinitions (only_org og s) = featureDefinitions s"
  "resolve (only_org og s) i = resolve s i"
  "perm_impliedBy (only_org og s) p = perm_impliedBy s p"
  "grantIdentities (only_org og s) i = grantIdentities s i"
  by (simp_all add: only_org_def resolve_def perm_impliedBy_def grantIdentities_def)

text \<open>Every table is keyed by the ids of its rows; \<open>organizations\<close> are found by their own id.\<close>

definition tenant_wf :: "store \<Rightarrow> bool" where
  "tenant_wf s \<longleftrightarrow> keyed o_id (organizations s) \<and> keyed r_id (roles s) \<and> keyed t_id (teams s)"

lemma only_org_answers:
  assumes "tenant_wf s"
  shows "organizationIsActive (only_org og s) og = organizationIsActive s og"
    "teamOf (only_org og s) og t = teamOf s og t"
    "tm_find (only_org og s) og t m = tm_find s og t m"
    "sg_activePermissions (only_org og s) og ids now = sg_activePermissions s og ids now"
    "features_isEnabled (only_org og s) og k = features_isEnabled s og k"
    "mem_findByIdentity now og i (only_org og s) = (fst (mem_findByIdentity now og i s), lapseBlocks now (only_org og s))"
proof -
  have k: "distinct (map fst (organizations s))" "distinct (map fst (teams s))" "keyed o_id (organizations s)"
    using assms by (simp_all add: tenant_wf_def keyed_def)
  show "organizationIsActive (only_org og s) og = organizationIsActive s og"
    using keyed_get[OF k(3), of og]
    by (auto simp: organizationIsActive_def org_findById_def only_org_def mget_mfilter[OF k(1)] split: option.split)
  show "teamOf (only_org og s) og t = teamOf s og t"
    by (simp add: teamOf_def only_org_def mget_mfilter[OF k(2)] split: option.split)
  show "tm_find (only_org og s) og t m = tm_find s og t m"
    by (simp add: tm_find_def only_org_def mvals_mfilter) (rule find_filter, simp)
  show "sg_activePermissions (only_org og s) og ids now = sg_activePermissions s og ids now"
    by (simp add: sg_activePermissions_def only_org_def mvals_mfilter) (rule arg_cong[where f = sort], rule fold_filter_skip, simp)
  show "features_isEnabled (only_org og s) og k = features_isEnabled s og k"
    by (simp add: features_isEnabled_def is_on_def effectiveFor_def overridesOf_def only_org_def mvals_mfilter)
  have "filter (\<lambda>m. m_organizationId m = og) (map (lapse now) ms) = map (lapse now) (filter (\<lambda>m. m_organizationId m = og) ms)" for ms
    by (induction ms) auto
  then have drop: "find P (map (lapse now) (filter (\<lambda>m. m_organizationId m = og) ms)) = find P (map (lapse now) ms)"
    if "\<And>m. P m \<Longrightarrow> m_organizationId m = og" for P ms
    using find_filter[of "map (lapse now) ms" P "\<lambda>m. m_organizationId m = og"] that by simp
  show "mem_findByIdentity now og i (only_org og s) = (fst (mem_findByIdentity now og i s), lapseBlocks now (only_org og s))"
    by (simp add: mem_findByIdentity_def Let_def) (simp add: only_org_def mvals_mfilter, rule drop, simp)
qed

lemma only_org_membershipAllows:
  assumes "tenant_wf s"
  shows "membershipAllows options (only_org (ci_organizationId input) s) input rs = membershipAllows options s input rs"
proof -
  have k: "distinct (map fst (roles s))" using assms by (simp add: tenant_wf_def keyed_def)
  let ?og = "ci_organizationId input"
  have "filter (\<lambda>r. r_organizationId r = ?og) (role_findByIds (only_org ?og s) rs) =
        filter (\<lambda>r. r_organizationId r = ?og) (role_findByIds s rs)"
    by (induction rs) (simp_all add: role_findByIds_def List.map_filter_def only_org_def mget_mfilter[OF k] split: option.split)
  then show ?thesis by (simp add: membershipAllows_def perm_findByKey_def)
qed

lemma only_org_decideCan:
  assumes "tenant_wf s" "og = ci_organizationId input"
  shows "fst (decideCan options now input (only_org og s)) = fst (decideCan options now input s)"
proof -
  obtain found s1 where f: "mem_findByIdentity now og (ci_identity input) s = (found, s1)" by fastforce
  then have s1: "s1 = lapseBlocks now s" using mem_find_store[of now og "ci_identity input" s] by simp
  have f': "mem_findByIdentity now og (ci_identity input) (only_org og s) = (found, lapseBlocks now (only_org og s))"
    using only_org_answers(6)[OF assms(1)] f by simp
  have team: "activeTeamRoleIds (only_org og s) og t m = activeTeamRoleIds s og t m" for t m
    unfolding activeTeamRoleIds_def team_findById_def only_org_answers(2,3)[OF assms(1)] ..
  note answers = only_org_answers(1,4)[OF assms(1)] team only_org_membershipAllows[OF assms(1), of options input, folded assms(2)]
  show ?thesis unfolding decideCan_def assms(2)[symmetric] f f' prod.case Let_def s1
    by (simp only: lapsed_answers lapsed_activeTeamRoleIds answers only_org_views if_distrib[of fst] fst_conv)
       (simp add: answers split: option.split)
qed

lemma only_org_check:
  assumes "tenant_wf s" "og = ki_organizationId input"
  shows "fst (evaluateCheck options now input (only_org og s)) = fst (evaluateCheck options now input s)"
proof -
  obtain found s1 where f: "mem_findByIdentity now og (ki_identity input) s = (found, s1)" by fastforce
  then have s1: "s1 = lapseBlocks now s" using mem_find_store[of now og "ki_identity input" s] by simp
  have f': "mem_findByIdentity now og (ki_identity input) (only_org og s) = (found, lapseBlocks now (only_org og s))"
    using only_org_answers(6)[OF assms(1)] f by simp
  have team: "activeTeamRoleIds (only_org og s) og t m = activeTeamRoleIds s og t m" for t m
    unfolding activeTeamRoleIds_def team_findById_def only_org_answers(2,3)[OF assms(1)] ..
  note answers = only_org_answers(1,4,5)[OF assms(1)] team
  show ?thesis
  proof (cases "ki_permission input")
    case (Some p)
    let ?c = "\<lparr> ci_identity = ki_identity input, ci_organizationId = og, ci_permission = p, ci_teamId = ki_teamId input \<rparr>"
    have d: "fst (decideCan options now ?c (only_org og s)) = fst (decideCan options now ?c s)"
      by (rule only_org_decideCan[OF assms(1)]) simp
    show ?thesis using d Some
      by (simp add: evaluateCheck_def assms(2)[symmetric] answers case_prod_unfold Let_def split: option.split)
  next
    case None
    then show ?thesis unfolding evaluateCheck_def assms(2)[symmetric] f f' prod.case Let_def s1
      by (simp add: answers split: option.split)
  qed
qed

section \<open>Repeated questions\<close>

lemma found_again: "mem_findByIdentity now og i (lapseBlocks now s) = mem_findByIdentity now og i s"
  unfolding mem_findByIdentity_def Let_def by (simp del: lapseBlocks_simps(3) add: resolve_def)

lemma decide_again: "fst (decideCan options now input (lapseBlocks now s)) = fst (decideCan options now input s)"
  unfolding decideCan_def found_again by (cases "isWellFormedPermissionKey (ci_permission input)") simp_all

lemma ask_all_same:
  assumes "\<And>k t. t \<in> {s, lapseBlocks now s} \<Longrightarrow> fst (ask k t) = f k \<and> snd (ask k t) \<in> {s, lapseBlocks now s}"
    and "t \<in> {s, lapseBlocks now s}"
  shows "fst (ask_all ask ks t) = map (\<lambda>k. (k, f k)) ks \<and> snd (ask_all ask ks t) \<in> {s, lapseBlocks now s}"
  using assms(2)
proof (induction ks arbitrary: t)
  case (Cons k ks)
  then show ?case using assms(1)[of t k] Cons.IH[of "snd (ask k t)"] by (simp add: case_prod_unfold Let_def)
qed simp

lemma of_entries_map: "mget (of_entries (map (\<lambda>k. (k, f k)) ks)) k = (if k \<in> set ks then Some (f k) else None)"
  by (simp add: mget_of_entries rev_map map_of_map_restrict)

lemma ask_can_same:
  assumes "t \<in> {s, lapseBlocks now s}"
  shows "fst (ask_can options now i og p t) =
      fst (fst (engine_can options now \<lparr> ci_identity = i, ci_organizationId = og, ci_permission = p, ci_teamId = None \<rparr> s)) \<and>
    snd (ask_can options now i og p t) \<in> {s, lapseBlocks now s}"
  using assms
  by (auto simp: ask_can_def engine_can_def case_prod_unfold Let_def decide_again decideCan_store)

lemma check_membership_again:
  assumes "ki_permission input = None"
  shows "fst (evaluateCheck options now input (lapseBlocks now s)) = fst (evaluateCheck options now input s)"
proof -
  obtain found s1 where f: "mem_findByIdentity now (ki_organizationId input) (ki_identity input) s = (found, s1)" by fastforce
  show ?thesis unfolding evaluateCheck_def found_again f lapsed_answers assms by (simp split: option.split)
qed

lemma check_feature_only:
  assumes "ki_permission input = None" "ki_feature input = Some k"
  shows "fst (evaluateCheck options now input s) \<longleftrightarrow>
    fst (evaluateCheck options now (input \<lparr> ki_feature := None \<rparr>) s) \<and> features_isEnabled s (ki_organizationId input) k"
  using assms by (simp add: evaluateCheck_def case_prod_unfold Let_def cong: if_cong option.case_cong)

lemma check_store: "ki_permission input = None \<Longrightarrow> snd (evaluateCheck options now input s) \<in> {s, lapseBlocks now s}"
  using mem_find_store[of now "ki_organizationId input" "ki_identity input" s]
  by (auto simp: evaluateCheck_def case_prod_unfold Let_def)

lemma owner_may_all:
  assumes "mget (roles s) rid = Some r" "r_isOwnerRole r" "r_organizationId r = ci_organizationId input"
    and "rid \<in> set (m_roleIds m)" "m_status m = MActive" "ci_teamId input = None"
    and "fst (mem_findByIdentity now (ci_organizationId input) (ci_identity input) s) = Some m"
    and "organizationIsActive s (ci_organizationId input)" "isWellFormedPermissionKey (ci_permission input)"
    and "\<not> ownerRequiresRegisteredPermission options"
  shows "bd_allowed (fst (decideCan options now input s))"
proof -
  obtain s1 where f: "mem_findByIdentity now (ci_organizationId input) (ci_identity input) s = (Some m, s1)"
    using assms(7) by (metis prod.collapse)
  have "r \<in> set (filter (\<lambda>r. r_organizationId r = ci_organizationId input) (role_findByIds s (m_roleIds m)))"
    using assms(1,3,4) by (auto simp: role_findByIds_def List.map_filter_def intro: rev_image_eqI)
  then have "list_ex r_isOwnerRole (filter (\<lambda>r. r_organizationId r = ci_organizationId input) (role_findByIds s (m_roleIds m)))"
    using assms(2) unfolding list_ex_iff by blast
  then have "membershipAllows options s input (m_roleIds m)" using assms(10) by (simp add: membershipAllows_def Let_def)
  moreover have "m_roleIds m \<noteq> []" using assms(4) by auto
  ultimately show ?thesis using decide_membership[OF f assms(9,8), of options] assms(5,6) by simp
qed

section \<open>Properties\<close>

text \<open>
  C1: the engine is the documented rule.  A permission is allowed exactly when its key is well formed, the
  organization is active, the member found for the identity (if any) is not blocked, and a role of that member
  in that organization, or an unexpired support grant of the identity, lists the permission or one that implies
  it, or the role is the Owner role; inside a team only an active member of an active team is allowed, by its
  organization roles or its roles in the team.
\<close>

theorem can_exact:
  assumes "perms_wf s"
  shows "fst (fst (engine_can options now input s)) = may options now input s \<and>
    dc_allowed (snd (fst (engine_can options now input s))) = may options now input s"
  using decideCan_spec[OF assms, of options now input] by (simp add: engine_can_def case_prod_unfold Let_def)

text \<open>
  C2: tenants are isolated.  The answers of \<open>can\<close> and \<open>access.check\<close> for an organization do not depend on the
  members, roles, teams, support grants or features of any other one: removing them all changes no decision.
\<close>

theorem tenants_isolated:
  assumes "tenant_wf s"
  shows "fst (engine_can options now input (only_org (ci_organizationId input) s)) = fst (engine_can options now input s) \<and>
    fst (engine_check options now question (only_org (ki_organizationId question) s)) = fst (engine_check options now question s)"
  using only_org_decideCan[OF assms refl, of options now input] only_org_check[OF assms refl, of options now question]
  by (simp_all add: engine_can_def engine_check_def case_prod_unfold Let_def)

text \<open>
  C13: the snapshot is the engine.  It holds exactly the permissions and features that were asked for; a
  permission is what \<open>can\<close> answers and a feature what \<open>access.check\<close> answers for that feature alone, so somebody
  outside the organization is shown no feature as on.
\<close>

theorem snapshot_agrees:
  "let ps = (case si_permissions input of None \<Rightarrow> [] | Some ps \<Rightarrow> ps);
       fs = (case si_features input of None \<Rightarrow> [] | Some fs \<Rightarrow> fs);
       sn = fst (computeAuthorizationSnapshot options now input s);
       can = (\<lambda>p. fst (fst (engine_can options now \<lparr> ci_identity = si_identity input,
          ci_organizationId = si_organizationId input, ci_permission = p, ci_teamId = None \<rparr> s)));
       has = (\<lambda>k. fst (fst (engine_check options now \<lparr> ki_identity = si_identity input,
          ki_organizationId = si_organizationId input, ki_permission = None, ki_feature = Some k, ki_teamId = None \<rparr> s)))
   in (\<forall>k. mget (sn_permissions sn) k = (if k \<in> set ps then Some (can k) else None)) \<and>
      (\<forall>k. mget (sn_features sn) k = (if k \<in> set fs then Some (has k) else None))"
proof -
  let ?og = "si_organizationId input" and ?i = "si_identity input"
  define ps where "ps = (case si_permissions input of None \<Rightarrow> [] | Some ps \<Rightarrow> ps)"
  define fs where "fs = (case si_features input of None \<Rightarrow> [] | Some fs \<Rightarrow> fs)"
  define can where "can = (\<lambda>p. fst (fst (engine_can options now \<lparr> ci_identity = ?i, ci_organizationId = ?og,
    ci_permission = p, ci_teamId = None \<rparr> s)))"
  let ?q = "\<lparr> ki_identity = ?i, ki_organizationId = ?og, ki_permission = None, ki_feature = None, ki_teamId = None \<rparr>"
  define inside where "inside = fst (evaluateCheck options now ?q s)"
  have asked: "fst (ask_all (ask_can options now ?i ?og) ps s) = map (\<lambda>k. (k, can k)) ps \<and>
      snd (ask_all (ask_can options now ?i ?og) ps s) \<in> {s, lapseBlocks now s}"
    by (rule ask_all_same) (use ask_can_same[of _ s now options ?i ?og] in \<open>simp_all add: can_def\<close>)
  then obtain s1 where a: "ask_all (ask_can options now ?i ?og) ps s = (map (\<lambda>k. (k, can k)) ps, s1)" "s1 \<in> {s, lapseBlocks now s}"
    by (metis prod.collapse)
  obtain b s2 where c: "evaluateCheck options now ?q s1 = (b, s2)" by fastforce
  have b: "b = inside" using c a(2) check_membership_again[of ?q options now s] by (auto simp: inside_def)
  have s2: "features_isEnabled s2 og k = features_isEnabled s og k" for og k
    using check_store[of ?q options now s1] c a(2) by auto
  have has: "fst (fst (engine_check options now (?q \<lparr> ki_feature := Some k \<rparr>) s)) = (inside \<and> features_isEnabled s ?og k)" for k
    using check_feature_only[of "?q \<lparr> ki_feature := Some k \<rparr>" k options now s]
    by (simp add: engine_check_def case_prod_unfold Let_def inside_def)
  have "fst (computeAuthorizationSnapshot options now input s) =
    \<lparr> sn_organizationId = ?og, sn_permissions = of_entries (map (\<lambda>k. (k, can k)) ps),
      sn_features = of_entries (map (\<lambda>k. (k, inside \<and> features_isEnabled s ?og k)) fs) \<rparr>"
    unfolding computeAuthorizationSnapshot_def ps_def[symmetric] fs_def[symmetric] a prod.case Let_def engine_check_def c
    by (cases fs) (simp_all add: b s2)
  then show ?thesis
    unfolding Let_def ps_def[symmetric] fs_def[symmetric] can_def[symmetric]
    using has by (simp add: of_entries_map)
qed

lemma owned_access:
  assumes ok: "members_ok s" and r: "mget (roles s) rid = Some r" "r_isOwnerRole r"
    and "owned s rid (r_organizationId r)" "organizationIsActive s (r_organizationId r)"
  shows "\<exists>i. \<forall>p now. fst (fst (engine_can \<lparr> ownerRequiresRegisteredPermission = False \<rparr> now
      \<lparr> ci_identity = i, ci_organizationId = r_organizationId r, ci_permission = p, ci_teamId = None \<rparr> s)) =
    isWellFormedPermissionKey p"
proof -
  obtain m where m: "m \<in> set (mvals (memberships s))" "m_organizationId m = r_organizationId r" "m_status m = MActive"
      "rid \<in> set (m_roleIds m)" using assms(4) by (auto simp: owned_def holds_def)
  have found: "fst (mem_findByIdentity now (r_organizationId r) (m_identity m) s) = Some m" for now
    using members_ok_find[OF ok m(1), of now] lapse_active[OF m(3), of now] m(2) by simp
  let ?i = "\<lambda>p. \<lparr> ci_identity = m_identity m, ci_organizationId = r_organizationId r, ci_permission = p, ci_teamId = None \<rparr>"
  let ?o = "\<lparr> ownerRequiresRegisteredPermission = False \<rparr>"
  have "bd_allowed (fst (decideCan ?o now (?i p) s)) = isWellFormedPermissionKey p" for p now
  proof (cases "isWellFormedPermissionKey p")
    case True
    have "bd_allowed (fst (decideCan ?o now (?i p) s))"
      by (rule owner_may_all[OF r _ m(4,3)]) (use found assms(5) True in simp_all)
    then show ?thesis using True by simp
  qed (simp add: decideCan_def)
  then have "\<forall>p now. fst (fst (engine_can ?o now (?i p) s)) = isWellFormedPermissionKey p"
    by (simp add: engine_can_def case_prod_unfold Let_def)
  then show ?thesis by blast
qed

text \<open>
  Nobody is locked out.  An organization whose Owner role is held by an active member keeps, after any steps of
  the membership, role and identity-link operations, an identity for which the engine allows every permission at
  every moment while the organization is active.
\<close>

theorem owner_never_locked_out:
  assumes "(mem_step H clean_identity)\<^sup>*\<^sup>* s s'" "members_ok s" "mget (roles s) rid = Some r" "r_isOwnerRole r"
    and "owned s rid (r_organizationId r)" "organizationIsActive s' (r_organizationId r)"
  shows "\<exists>i. \<forall>p now. fst (fst (engine_can \<lparr> ownerRequiresRegisteredPermission = False \<rparr> now
      \<lparr> ci_identity = i, ci_organizationId = r_organizationId r, ci_permission = p, ci_teamId = None \<rparr> s')) =
    isWellFormedPermissionKey p"
proof -
  have "people s" using assms(2) by (simp add: members_ok_def)
  then show ?thesis
    using owned_access[OF members_ok_reachable[OF assms(1,2)] _ assms(4) _ assms(6)] owned_run[OF assms(1) _ assms(3,4,5)] by blast
qed

section \<open>Witnesses\<close>

definition demo_writer :: role where
  "demo_writer = demo_role \<lparr> r_permissionKeys := [''a.write''] \<rparr>"

definition demo_clerk :: membership where
  "demo_clerk = demo_owner_member \<lparr> m_id := ''m2'', m_identity := ident ''clerk'' ''2'', m_roleIds := [''r2''] \<rparr>"

text \<open>An Owner, a clerk who may write, a second organization, and a permission that implies another.\<close>

definition demo_engine_store :: store where
  "demo_engine_store = demo_perm_store \<lparr>
     organizations := [(''o1'', demo_org), (''o2'', demo_org \<lparr> o_id := ''o2'' \<rparr>)],
     memberships := [(''m1'', demo_owner_member), (''m2'', demo_clerk)],
     roles := [(''r1'', demo_owner), (''r2'', demo_writer)] \<rparr>"

definition demo_question :: can_input where
  "demo_question = \<lparr> ci_identity = ident ''clerk'' ''2'', ci_organizationId = ''o1'', ci_permission = ''a.read'', ci_teamId = None \<rparr>"

definition demo_options :: engine_options where
  "demo_options = \<lparr> ownerRequiresRegisteredPermission = True \<rparr>"

lemma demo_engine_wf: "perms_wf demo_engine_store" "tenant_wf demo_engine_store"
  using demo_perm_wf
  by (simp_all add: demo_engine_store_def perms_wf_def implied_def tenant_wf_def keyed_def demo_org_def demo_owner_def
      demo_writer_def demo_role_def demo_perm_store_def)

lemma demo_answer: "fst (fst (engine_can demo_options 9 demo_question demo_engine_store))"
  by code_simp

theorem can_exact_witness: "may demo_options 9 demo_question demo_engine_store"
  using can_exact[OF demo_engine_wf(1), of demo_options 9 demo_question] demo_answer by simp

theorem tenants_isolated_witness:
  "fst (fst (engine_can demo_options 9 demo_question (only_org ''o1'' demo_engine_store)))"
  using tenants_isolated[OF demo_engine_wf(2), of demo_options 9 demo_question] demo_answer
  by (simp add: demo_question_def)

lemmas demo_rows = demo_engine_store_def mvals_def demo_owner_def demo_writer_def demo_role_def demo_owner_member_def
  demo_clerk_def demo_member_input_def demo_org_def demo_perm_store_def

lemma demo_members_ok: "members_ok demo_engine_store" "owned demo_engine_store ''r1'' ''o1''"
  by (simp_all add: members_ok_def people_def mem_keyed_def roles_wf_def links_wf_def keyed_def owned_def holds_def
      clean_identity_def ident_def demo_rows)

theorem owner_never_locked_out_witness:
  "\<exists>i. \<forall>p now. fst (fst (engine_can \<lparr> ownerRequiresRegisteredPermission = False \<rparr> now
      \<lparr> ci_identity = i, ci_organizationId = ''o1'', ci_permission = p, ci_teamId = None \<rparr>
      (snd (mem_delete 5 ''m1'' demo_engine_store)))) = isWellFormedPermissionKey p"
proof -
  let ?s = "snd (mem_delete 5 ''m1'' demo_engine_store)"
  have "(mem_step id clean_identity)\<^sup>*\<^sup>* demo_engine_store ?s" by (rule r_into_rtranclp) (rule mem_step.deletes)
  moreover have "organizations ?s = organizations demo_engine_store" by code_simp
  then have "organizationIsActive ?s ''o1''" by (simp add: organizationIsActive_def org_findById_def demo_rows)
  moreover have "mget (roles demo_engine_store) ''r1'' = Some demo_owner" "r_isOwnerRole demo_owner" "r_organizationId demo_owner = ''o1''"
    by (simp_all add: demo_rows)
  ultimately show ?thesis
    using owner_never_locked_out[OF _ demo_members_ok(1), of id ?s "''r1''" demo_owner] demo_members_ok(2) by simp
qed

end
