(* ===== verification/Ownership.thy ===== *)
theory Ownership
  imports Engine
begin

text \<open>
  Who owns an organization, as compositions of repository operations: \<open>organization/create-with-owner.ts\<close>
  (an organization is born with its Owner) and \<open>membership/ownership.ts\<close> (handing the Owner role over, leaving).
  They run inside \<open>storage.transaction\<close>; the in-memory storage runs the callback on its own repositories and undoes
  nothing when it throws, so a failed operation here leaves behind what its first steps wrote.

  The lemmas show that a founded organization is never locked out, that a transfer gives the role to the
  new owner before it takes it from the old one, and that a failed founding is not undone.
\<close>

section \<open>The operations\<close>

text \<open>\<open>transaction\<close> of the in-memory storage.\<close>

definition transaction :: "'a op \<Rightarrow> 'a op" where
  "transaction callback = callback"

record create_with_owner =
  wo_organizationId :: string
  wo_organizationName :: string
  wo_organizationSlug :: "string option"
  wo_ownerRoleId :: string
  wo_membershipId :: string
  wo_ownerIdentity :: identity

definition createOrganizationWithOwner :: "timestamp \<Rightarrow> create_with_owner \<Rightarrow> (organization \<times> role \<times> membership) op" where
  "createOrganizationWithOwner now input =
     transaction
       (and_then (org_create now \<lparr> co_id = wo_organizationId input, co_name = wo_organizationName input, co_slug = wo_organizationSlug input \<rparr>) (\<lambda>org.
        and_then (role_createOwnerRole (wo_ownerRoleId input) (o_id org)) (\<lambda>ownerRole.
        and_then (mem_create now \<lparr> cm_id = wo_membershipId input, cm_organizationId = o_id org, cm_identity = wo_ownerIdentity input,
                    cm_roleIds = [r_id ownerRole], cm_invitedBy = None, cm_createdAt = None \<rparr>) (\<lambda>m.
        returns (org, ownerRole, m)))))"

record transfer_ownership =
  to_organizationId :: string
  to_fromMembershipId :: string
  to_toMembershipId :: string
  to_actor :: identity
  to_keepPreviousOwner :: bool
  to_id :: string

text \<open>The audit entry of a transfer and of leaving; \<open>generateId\<close> is an argument.\<close>

definition transfer_audit :: "transfer_ownership \<Rightarrow> string \<Rightarrow> string \<Rightarrow> audit_input" where
  "transfer_audit input fromId toId =
     \<lparr> ai_id = to_id input, ai_organizationId = Some (to_organizationId input), ai_actor = to_actor input,
       ai_action = ''organization.ownership_transferred'',
       ai_target = Some \<lparr> at_type = ''membership'', at_id = toId \<rparr>,
       ai_metadata = Some (JObj [(''fromMembershipId'', JStr fromId),
         (''toMembershipId'', JStr toId), (''keepPreviousOwner'', JBool (to_keepPreviousOwner input))]) \<rparr>"

text \<open>The checks on what was read; the result is the Owner role.\<close>

definition transfer_checks :: "transfer_ownership \<Rightarrow> membership option \<Rightarrow> membership option \<Rightarrow> store \<Rightarrow> uerror + role" where
  "transfer_checks input from to s =
     (if (case from of None \<Rightarrow> True | Some m \<Rightarrow> m_organizationId m \<noteq> to_organizationId input) \<or>
         (case to of None \<Rightarrow> True | Some m \<Rightarrow> m_organizationId m \<noteq> to_organizationId input)
      then Inl (memErr ''Both members must belong to this organization.'')
      else case find r_isOwnerRole (role_listByOrganization s (to_organizationId input)) of
        None \<Rightarrow> Inl (memErr ''This organization has no Owner role.'')
      | Some ownerRole \<Rightarrow>
          if m_status (the to) \<noteq> MActive then Inl (UError EMembership ''membership_blocked'')
          else if r_id ownerRole \<notin> set (m_roleIds (the from)) then Inl (memErr ''The member handing over ownership is not an Owner.'')
          else Inr ownerRole)"

definition transferOwnership :: "(string \<Rightarrow> string) \<Rightarrow> timestamp \<Rightarrow> transfer_ownership \<Rightarrow> unit op" where
  "transferOwnership H now input =
     (if to_fromMembershipId input = to_toMembershipId input
      then fails (memErr ''The new owner must be a different member.'')
      else transaction (\<lambda>s0.
        let (from, s1) = mem_findById now (to_fromMembershipId input) s0;
            (to, s) = mem_findById now (to_toMembershipId input) s1
        in guard (transfer_checks input from to s) (\<lambda>ownerRole.
             let fromId = m_id (the from); toId = m_id (the to) in
             and_then (mem_assignOwnerRole now toId (r_id ownerRole)) (\<lambda>_.
             and_then (if to_keepPreviousOwner input then returns () else mem_unassignOwnerRole now fromId (r_id ownerRole)) (\<lambda>_.
             and_then (audit_record H now (transfer_audit input fromId toId)) (\<lambda>_. returns ())))) s))"

definition leave_audit :: "string \<Rightarrow> string \<Rightarrow> identity \<Rightarrow> string \<Rightarrow> audit_input" where
  "leave_audit newId organizationId i membershipId =
     \<lparr> ai_id = newId, ai_organizationId = Some organizationId, ai_actor = i, ai_action = ''membership.left'',
       ai_target = Some \<lparr> at_type = ''membership'', at_id = membershipId \<rparr>, ai_metadata = Some (JObj []) \<rparr>"

definition leaveOrganization :: "(string \<Rightarrow> string) \<Rightarrow> timestamp \<Rightarrow> string \<Rightarrow> string \<Rightarrow> identity \<Rightarrow> bool op" where
  "leaveOrganization H now newId organizationId i =
     transaction (\<lambda>s0.
       let (found, s) = mem_findByIdentity now organizationId i s0 in
       case found of
         None \<Rightarrow> returns False s
       | Some m \<Rightarrow>
           if m_status m \<noteq> MActive then fails (UError EMembership ''membership_blocked'') s
           else and_then (mem_delete now (m_id m)) (\<lambda>_.
                and_then (audit_record H now (leave_audit newId organizationId i (m_id m))) (\<lambda>_. returns True)) s)"

section \<open>They are membership steps\<close>

text \<open>Everything the invariants of the members look at is the same in two stores.\<close>

definition same_people :: "store \<Rightarrow> store \<Rightarrow> bool" where
  "same_people s s' \<longleftrightarrow> memberships s' = memberships s \<and> roles s' = roles s \<and> identityLinksByFromKey s' = identityLinksByFromKey s"

lemma same_people_members_ok: "same_people s s' \<Longrightarrow> members_ok s' = members_ok s"
  by (simp add: same_people_def members_ok_def people_def mem_keyed_def roles_wf_def links_wf_def)

lemma same_people_owned: "same_people s s' \<Longrightarrow> owned s' = owned s"
  by (intro ext) (simp add: same_people_def owned_def)

lemma audit_same_people: "same_people s (snd (audit_record H now i s))"
  by (simp add: same_people_def audit_record_frame audit_record_roles)

lemma org_create_same_people: "same_people s (snd (org_create now input s))"
  by (simp add: org_create_def same_people_def Let_def split: guard_split)

lemma and_then_snd: "snd (and_then p k s) = (case p s of (Inl e, s') \<Rightarrow> s' | (Inr x, s') \<Rightarrow> snd (k x s'))"
  by (simp add: and_then_def split: prod.split sum.split)

lemma and_then_Inr: "and_then p k s = (Inr y, s') \<longleftrightarrow> (\<exists>x s1. p s = (Inr x, s1) \<and> k x s1 = (Inr y, s'))"
  by (auto simp: and_then_def split: prod.split sum.split)

text \<open>The store an ownership operation leaves is one that membership steps reach, up to the audit log.\<close>

definition reaches :: "store \<Rightarrow> store \<Rightarrow> bool" where
  "reaches s s' \<longleftrightarrow> (\<exists>t. (mem_step id clean_identity)\<^sup>*\<^sup>* s t \<and> same_people t s')"

lemma reaches_step: "mem_step id clean_identity s t \<Longrightarrow> reaches s t"
  unfolding reaches_def same_people_def by blast

lemma reachesE_ok:
  assumes "reaches s s'" "members_ok s" "mget (roles s) rid = Some r" "r_isOwnerRole r" "owned s rid (r_organizationId r)"
  shows "members_ok s' \<and> mget (roles s') rid = Some r \<and> owned s' rid (r_organizationId r)"
proof -
  obtain t where t: "(mem_step id clean_identity)\<^sup>*\<^sup>* s t" "same_people t s'" using assms(1) unfolding reaches_def by blast
  have "members_ok t" by (rule members_ok_reachable[OF t(1) assms(2)])
  moreover have "mget (roles t) rid = Some r \<and> owned t rid (r_organizationId r)"
    using owned_run[OF t(1) _ assms(3,4,5)] assms(2) by (simp add: members_ok_def)
  ultimately show ?thesis using t(2) same_people_members_ok[OF t(2)] same_people_owned[OF t(2)] by (simp add: same_people_def)
qed

lemma reaches_refl: "reaches s s"
  unfolding reaches_def same_people_def by blast

lemma reaches_audit: "reaches s (snd (audit_record H now i s))"
  unfolding reaches_def using audit_same_people by blast

lemma reaches_after: "(mem_step id clean_identity)\<^sup>*\<^sup>* s t \<Longrightarrow> reaches t s' \<Longrightarrow> reaches s s'"
  unfolding reaches_def by (meson rtranclp_trans)

lemma reaches_and_then:
  assumes "mem_step id clean_identity s (snd (p s)) \<or> snd (p s) = s" and "\<And>x t. reaches t (snd (k x t))"
  shows "reaches s (snd (and_then p k s))"
proof (cases "p s")
  case (Pair res t)
  have st: "(mem_step id clean_identity)\<^sup>*\<^sup>* s t" using assms(1) Pair by auto
  show ?thesis
  proof (cases res)
    case (Inl e)
    then show ?thesis using reaches_after[OF st reaches_refl] Pair by (simp add: and_then_def)
  next
    case (Inr x)
    then show ?thesis using reaches_after[OF st assms(2)] Pair by (simp add: and_then_def)
  qed
qed

lemma mem_findById_eq: "mem_findById now i s = (mget (memberships (lapseBlocks now s)) i, lapseBlocks now s)"
  by (simp add: mem_findById_def Let_def)

lemma audit_end: "reaches s (snd (and_then (audit_record H now i) (\<lambda>_. returns x) s))"
  unfolding and_then_snd_returns by (rule reaches_audit)

lemma transfer_reaches: "reaches s (snd (transferOwnership H now input s))"
proof (cases "to_fromMembershipId input = to_toMembershipId input")
  case True
  then show ?thesis by (simp add: transferOwnership_def reaches_refl)
next
  case False
  let ?s = "lapseBlocks now s"
  have st: "(mem_step id clean_identity)\<^sup>*\<^sup>* s ?s" by (rule r_into_rtranclp) (rule mem_step.reads)
  have body: "reaches ?s (snd (and_then (mem_assignOwnerRole now i rid) (\<lambda>_.
      and_then (if keep then returns () else mem_unassignOwnerRole now j rid) (\<lambda>_.
      and_then (audit_record H now x) (\<lambda>_. returns ()))) ?s))" for i rid keep j x
  proof (rule reaches_and_then)
    show "reaches t (snd (and_then (if keep then returns () else mem_unassignOwnerRole now j rid)
        (\<lambda>_. and_then (audit_record H now x) (\<lambda>_. returns ())) t))" for y :: unit and t
      by (rule reaches_and_then) (cases keep, simp_all add: mem_step.unassigns_owner audit_end)
  qed (blast intro: mem_step.assigns_owner)
  have "reaches ?s (snd (transferOwnership H now input s))"
    using False body
    by (auto simp: transferOwnership_def transaction_def mem_findById_eq Let_def reaches_refl simp del: lapseBlocks_simps(3) split: guard_split)
  then show ?thesis by (rule reaches_after[OF st])
qed

lemma leave_reaches: "reaches s (snd (leaveOrganization H now newId og i s))"
proof -
  obtain found where f: "mem_findByIdentity now og i s = (found, lapseBlocks now s)"
    using mem_find_store[of now og i s] by (metis prod.collapse)
  have "reaches (lapseBlocks now s) (snd (and_then (mem_delete now j) (\<lambda>_. and_then (audit_record H now x) (\<lambda>_. returns True)) (lapseBlocks now s)))" for j x
    by (rule reaches_and_then) (auto intro: mem_step.deletes audit_end)
  then have "reaches (lapseBlocks now s) (snd (leaveOrganization H now newId og i s))"
    by (cases found) (simp_all add: leaveOrganization_def transaction_def f Let_def reaches_refl)
  moreover have "(mem_step id clean_identity)\<^sup>*\<^sup>* s (lapseBlocks now s)" by (rule r_into_rtranclp) (rule mem_step.reads)
  ultimately show ?thesis by (blast intro: reaches_after)
qed

section \<open>Founding\<close>

lemma createOwnerRole_Inr:
  "role_createOwnerRole i og s = (Inr r, s') \<longleftrightarrow>
     \<not> mhas (roles s) i \<and> \<not> list_ex (\<lambda>r. r_organizationId r = og \<and> r_isOwnerRole r) (mvals (roles s)) \<and>
     r = \<lparr> r_id = i, r_organizationId = og, r_isOwnerRole = True, r_key = ''owner'', r_name = ''Owner'',
           r_description = None, r_isSystem = False, r_permissionKeys = [], r_version = 1 \<rparr> \<and> s' = put_role r s"
  by (auto simp: role_createOwnerRole_def fails_def returns_def Let_def)

lemma mem_create_Inr:
  assumes "mem_create now input s = (Inr m, s')"
  shows "m = new_membership now input \<and> s' = put_membership (cm_id input) m s"
  using assms by (auto simp: mem_create_def fails_def returns_def split: if_splits option.splits)

lemma org_create_Inr:
  assumes "org_create now input s = (Inr x, s')"
  shows "o_id x = co_id input \<and> o_status x = OActive \<and> s' = s \<lparr> organizations := mset_at (co_id input) x (organizations s) \<rparr>"
  using assms by (auto simp: org_create_def guard_def fails_def returns_def Let_def split: sum.splits if_splits)

lemma founded:
  assumes "createOrganizationWithOwner now input s = (Inr (x, r, m), s')" and "members_ok s" "clean_identity (wo_ownerIdentity input)"
    and "\<not> mhas (memberships s) (wo_membershipId input)"
    and "\<forall>y \<in> set (mvals (memberships s)). \<not> holds (wo_ownerRoleId input) y"
  shows "members_ok s' \<and> mget (roles s') (wo_ownerRoleId input) = Some r \<and> r_isOwnerRole r \<and>
    r_organizationId r = wo_organizationId input \<and> owned s' (wo_ownerRoleId input) (wo_organizationId input) \<and>
    organizationIsActive s' (wo_organizationId input)"
proof -
  let ?rid = "wo_ownerRoleId input" and ?og = "wo_organizationId input"
  let ?new = "\<lparr> cm_id = wo_membershipId input, cm_organizationId = ?og, cm_identity = wo_ownerIdentity input,
    cm_roleIds = [?rid], cm_invitedBy = None, cm_createdAt = None \<rparr>"
  obtain s1 s2 where
    o: "org_create now \<lparr> co_id = ?og, co_name = wo_organizationName input, co_slug = wo_organizationSlug input \<rparr> s = (Inr x, s1)"
    and r: "role_createOwnerRole ?rid (o_id x) s1 = (Inr r, s2)"
    and m: "mem_create now \<lparr> cm_id = wo_membershipId input, cm_organizationId = o_id x, cm_identity = wo_ownerIdentity input,
      cm_roleIds = [r_id r], cm_invitedBy = None, cm_createdAt = None \<rparr> s2 = (Inr m, s')"
    using assms(1) unfolding createOrganizationWithOwner_def transaction_def and_then_Inr by (auto simp: returns_def)
  note o' = org_create_Inr[OF o]
  have x: "o_id x = ?og" "o_status x = OActive" and s1: "s1 = s \<lparr> organizations := mset_at ?og x (organizations s) \<rparr>"
    using o' by simp_all
  have rr: "r_id r = ?rid" "r_isOwnerRole r" "r_organizationId r = ?og" and s2: "s2 = put_role r s1"
    using r unfolding createOwnerRole_Inr x(1) by simp_all
  have m': "m = new_membership now ?new" "s' = put_membership (wo_membershipId input) m s2"
    using mem_create_Inr[OF m] rr(1) x(1) by simp_all
  have step1: "same_people s s1" by (simp add: s1 same_people_def)
  have ok1: "members_ok s1" using same_people_members_ok[OF step1] assms(2) by simp
  have "mem_step id clean_identity s1 (role_exec (RCreateOwner ?rid ?og) s1)" by (rule mem_step.roles)
  then have ok2: "members_ok s2" using mem_step_ok[OF _ ok1] r x(1) by simp
  have "\<not> mhas (memberships s2) (wo_membershipId input)" using assms(4) by (simp add: s2 s1 put_role_def)
  then have "mem_step id clean_identity s2 (snd (mem_create now ?new s2))" by (intro mem_step.creates) (simp_all add: assms(3))
  then have ok3: "members_ok s'" using mem_step_ok[OF _ ok2] m rr(1) x(1) by simp
  have mem: "memberships s' = mset_at (wo_membershipId input) m (memberships s)" and rol: "mget (roles s') ?rid = Some r"
    and orgs: "organizations s' = mset_at ?og x (organizations s)"
    by (simp_all add: m'(2) put_membership_def s2 put_role_def s1 rr(1))
  have newm: "holds ?rid m" "m_organizationId m = ?og" "m_status m = MActive"
    by (simp_all add: m'(1) holds_def)
  have "m \<in> set (mvals (memberships s'))" by (rule mget_in_mvals[of _ "wo_membershipId input"]) (simp add: mem)
  moreover have "y = m \<or> y \<in> set (mvals (memberships s))" if "y \<in> set (mvals (memberships s'))" for y
    using that set_update_sub[of "wo_membershipId input" m "memberships s"] unfolding mem mvals_def by auto
  ultimately have "owned s' ?rid ?og" unfolding owned_def using newm assms(5) by blast
  then show ?thesis using ok3 rol rr x orgs by (simp add: organizationIsActive_def org_findById_def)
qed

section \<open>Handing over\<close>

lemma assignOwner_Inr:
  assumes "mem_assignOwnerRole now i rid s = (Inr u, s')"
  shows "\<exists>m. mget (memberships s) i = Some m \<and> owner_role_id s rid \<and> s' = put_membership i (add_role now rid m) s"
  using assms by (auto simp: mem_assignOwnerRole_def fails_def returns_def split: option.splits if_splits)

lemma lapse_fixed:
  assumes "lapse now m = m"
  shows "\<not> lapsed now m"
proof
  assume l: "lapsed now m"
  then have "m_status (lapse now m) = MActive" by (simp add: lapse_def)
  then show False using l assms by (simp add: lapsed_def)
qed

lemma unassignOwner_Inr:
  assumes "mem_unassignOwnerRole now i rid s = (Inr u, s')" "mget (memberships s) i = Some m" "holds rid m" "owner_role_id s rid"
    and "memberships s = mmap (lapse now) (memberships s)"
  shows "s' = put_membership i (touch now (drop_role rid m)) (lapseBlocks now s)"
proof -
  have nl: "\<not> lapsed now m" using assms(2) mget_mmap[of "lapse now" "memberships s" i] assms(5) by (intro lapse_fixed) simp
  obtain b s1 where l: "isLastOwnerRoleHolder now rid i s = (b, s1)" by fastforce
  then have s1: "s1 = lapseBlocks now s" using isLast_store[of now rid i s] assms(4) by simp
  show ?thesis using assms(1-4) nl l s1
    by (cases b) (auto simp: mem_unassignOwnerRole_def fails_def returns_def)
qed

lemma transfer_checks_Inr:
  assumes "transfer_checks input from to s = Inr r"
  obtains f t where "from = Some f" "to = Some t" "m_organizationId f = to_organizationId input" "m_organizationId t = to_organizationId input"
    "r \<in> set (role_listByOrganization s (to_organizationId input))" "r_isOwnerRole r" "m_status t = MActive" "r_id r \<in> set (m_roleIds f)"
  using assms by (auto simp: transfer_checks_def find_Some_iff split: option.splits if_splits)

lemma splice_out_gone: "distinct xs \<Longrightarrow> x \<notin> set (splice_out x xs)"
  by (induction xs) auto

lemma lapse_distinct_simps [simp]: "m_roleIds (lapse now m) = m_roleIds m" "m_roleIds (touch now m) = m_roleIds m"
  by (simp_all add: touch_def)

lemma transfer_spec:
  assumes run: "transferOwnership H now input s = (Inr u, s')" and k: "mem_keyed s" "keyed r_id (roles s)"
  defines "f \<equiv> to_fromMembershipId input" and "t \<equiv> to_toMembershipId input"
  obtains r a b where "mget (roles s) (r_id r) = Some r" "r_isOwnerRole r" "r_organizationId r = to_organizationId input"
    "mget (memberships (lapseBlocks now s)) f = Some a" "mget (memberships (lapseBlocks now s)) t = Some b" "f \<noteq> t"
    "m_status b = MActive" "holds (r_id r) a"
    "roles s' = roles s"
    "mget (memberships s') t = Some (add_role now (r_id r) b)"
    "mget (memberships s') f = Some (if to_keepPreviousOwner input then a else touch now (drop_role (r_id r) a))"
    "\<forall>j. j \<noteq> f \<and> j \<noteq> t \<longrightarrow> mget (memberships s') j = mget (memberships (lapseBlocks now s)) j"
proof -
  let ?l = "lapseBlocks now s"
  have ft: "f \<noteq> t" using run by (auto simp: transferOwnership_def fails_def f_def t_def)
  obtain r where r: "transfer_checks input (mget (memberships ?l) f) (mget (memberships ?l) t) ?l = Inr r"
    and rest: "(let fromId = m_id (the (mget (memberships ?l) f)); toId = m_id (the (mget (memberships ?l) t)) in
             and_then (mem_assignOwnerRole now toId (r_id r)) (\<lambda>_.
             and_then (if to_keepPreviousOwner input then returns () else mem_unassignOwnerRole now fromId (r_id r)) (\<lambda>_.
             and_then (audit_record H now (transfer_audit input fromId toId)) (\<lambda>_. returns ())))) ?l = (Inr u, s')"
    using run ft unfolding transferOwnership_def transaction_def f_def t_def
    by (auto simp: mem_findById_eq Let_def guard_def fails_def simp del: lapseBlocks_simps(3) split: sum.splits)
  from r obtain a b where ab: "mget (memberships ?l) f = Some a" "mget (memberships ?l) t = Some b"
      and og: "m_organizationId a = to_organizationId input" "m_organizationId b = to_organizationId input"
      and rr: "r \<in> set (role_listByOrganization ?l (to_organizationId input))" "r_isOwnerRole r"
      and act: "m_status b = MActive" and ha: "r_id r \<in> set (m_roleIds a)"
    by (rule transfer_checks_Inr)
  have kl: "keyed m_id (memberships ?l)" using k(1) lapse_keyed[of s now] by (simp add: mem_keyed_def)
  have ids: "m_id a = f" "m_id b = t" by (rule keyed_get[OF kl ab(1)], rule keyed_get[OF kl ab(2)])
  have role: "mget (roles s) (r_id r) = Some r" "r_organizationId r = to_organizationId input"
    using rr(1) keyed_vals[OF k(2), of r] by (auto simp: role_listByOrganization_def)
  from rest obtain s2 s3 where
    assign: "mem_assignOwnerRole now t (r_id r) ?l = (Inr (), s2)"
    and un: "(if to_keepPreviousOwner input then returns () else mem_unassignOwnerRole now f (r_id r)) s2 = (Inr (), s3)"
    and aud: "s' = snd (audit_record H now (transfer_audit input f t) s3)"
    unfolding ab option.sel Let_def ids and_then_Inr by (auto simp: returns_def)
  have s2: "s2 = put_membership t (add_role now (r_id r) b) ?l" using assignOwner_Inr[OF assign] ab(2) by auto
  have f2: "mget (memberships s2) f = Some a" using ft ab(1) by (simp add: s2 put_membership_def)
  have own: "owner_role_id s2 (r_id r)" using role rr(2) by (simp add: owner_role_id_def s2 put_membership_def)
  have badd: "lapse now (add_role now (r_id r) b) = add_role now (r_id r) b" using act by (intro lapse_active) (simp add: add_role_def touch_def)
  have same: "memberships s2 = mmap (lapse now) (memberships s2)"
  proof -
    have "mmap (lapse now) (mset_at t x m) = mset_at t (lapse now x) (mmap (lapse now) m)" for x m
      by (induction m) (auto simp: mmap_def)
    then show ?thesis using badd by (simp add: s2 put_membership_def mmap_mmap)
  qed
  have l2: "lapseBlocks now s2 = s2" using same by (simp add: lapseBlocks_def)
  have s3: "s3 = (if to_keepPreviousOwner input then s2 else put_membership f (touch now (drop_role (r_id r) a)) s2)"
    using un unassignOwner_Inr[of now f "r_id r" s2 "()" s3 a] f2 own same ha l2 by (auto simp: returns_def holds_def split: if_splits)
  have mem': "memberships s' = memberships s3" and rol': "roles s' = roles s3"
    by (simp_all add: aud audit_record_frame audit_record_roles)
  show thesis
  proof (rule that)
    show "mget (memberships s') t = Some (add_role now (r_id r) b)" using ft unfolding mem' s3 by (simp add: s2 put_membership_def)
    show "mget (memberships s') f = Some (if to_keepPreviousOwner input then a else touch now (drop_role (r_id r) a))"
      unfolding mem' s3 using f2 by (simp add: put_membership_def)
    show "roles s' = roles s" unfolding rol' s3 by (simp add: s2 put_membership_def)
    show "\<forall>j. j \<noteq> f \<and> j \<noteq> t \<longrightarrow> mget (memberships s') j = mget (memberships ?l) j"
      unfolding mem' s3 by (simp add: s2 put_membership_def)
  qed (use role rr(2) ab ft act ha in \<open>simp_all add: holds_def\<close>)
qed

section \<open>Properties\<close>

text \<open>
  C5: a founder keeps access.  When \<open>createOrganizationWithOwner\<close> succeeds on a well-formed store (\<open>members_ok\<close>, which the operations
  keep) for an identity whose provider has no colon, with an unused membership id and a role id nobody holds, then after any later steps
  of the membership, role and identity-link operations that use providers without a colon and create members under new ids only, somebody is
  allowed every well-formed permission of the organization while it is active, under the default option of the engine (an Owner is allowed
  unregistered permissions too).  Without new ids it is false: \<open>memberships.create\<close> replaces the member stored under a
  repeated id (\<open>create_reused_id_orphans\<close>).
\<close>

theorem founder_keeps_access:
  assumes "createOrganizationWithOwner t input s = (Inr (x, r, m), s1)" and "members_ok s" "clean_identity (wo_ownerIdentity input)"
    and "\<not> mhas (memberships s) (wo_membershipId input)"
    and "\<forall>y \<in> set (mvals (memberships s)). \<not> holds (wo_ownerRoleId input) y"
    and "(mem_step H clean_identity)\<^sup>*\<^sup>* s1 s2" "organizationIsActive s2 (wo_organizationId input)"
  shows "\<exists>i. \<forall>p now. fst (fst (engine_can \<lparr> ownerRequiresRegisteredPermission = False \<rparr> now
      \<lparr> ci_identity = i, ci_organizationId = wo_organizationId input, ci_permission = p, ci_teamId = None \<rparr> s2)) =
    isWellFormedPermissionKey p"
proof -
  note start = founded[OF assms(1-5)]
  then have "people s1" by (simp add: members_ok_def)
  then have "mget (roles s2) (wo_ownerRoleId input) = Some r \<and> owned s2 (wo_ownerRoleId input) (r_organizationId r)"
    using owned_run[OF assms(6), of "wo_ownerRoleId input" r] start by simp
  then show ?thesis
    using owned_access[OF members_ok_reachable[OF assms(6)], of "wo_ownerRoleId input" r] start assms(7) by simp
qed

text \<open>
  C6: a transfer hands the role over.  When \<open>transferOwnership\<close> succeeds, on a store whose members and roles
  are stored under their own ids, the new owner is active and holds the Owner
  role of the organization; the previous owner keeps its roles when that was asked for and otherwise loses one occurrence of
  the Owner role, so that it no longer holds it when its roles were listed once each (\<open>memberships.create\<close> stores
  repeated role ids as given, and then one is left: \<open>transfer_leaves_repeated\<close>); and no other member changes, except that
  suspensions that had ended are lifted.
\<close>

theorem transfer_hands_over:
  assumes "transferOwnership H now input s = (Inr u, s')" "mem_keyed s" "keyed r_id (roles s)"
    and "mget (memberships s) (to_fromMembershipId input) = Some old"
  shows "\<exists>r a b. mget (roles s') (r_id r) = Some r \<and> r_isOwnerRole r \<and> r_organizationId r = to_organizationId input \<and>
    mget (memberships s') (to_toMembershipId input) = Some b \<and> m_status b = MActive \<and> holds (r_id r) b \<and>
    mget (memberships s') (to_fromMembershipId input) = Some a \<and>
    m_roleIds a = (if to_keepPreviousOwner input then m_roleIds old else splice_out (r_id r) (m_roleIds old)) \<and>
    (distinct (m_roleIds old) \<longrightarrow> holds (r_id r) a = to_keepPreviousOwner input) \<and>
    (\<forall>j. j \<noteq> to_fromMembershipId input \<and> j \<noteq> to_toMembershipId input \<longrightarrow>
       mget (memberships s') j = map_option (lapse now) (mget (memberships s) j))"
proof -
  let ?f = "to_fromMembershipId input" and ?t = "to_toMembershipId input"
  from assms(1-3) obtain r a b where t:
    "mget (roles s) (r_id r) = Some r" "r_isOwnerRole r" "r_organizationId r = to_organizationId input"
    "mget (memberships (lapseBlocks now s)) ?f = Some a" "mget (memberships (lapseBlocks now s)) ?t = Some b" "?f \<noteq> ?t"
    "m_status b = MActive" "holds (r_id r) a" "roles s' = roles s"
    "mget (memberships s') ?t = Some (add_role now (r_id r) b)"
    "mget (memberships s') ?f = Some (if to_keepPreviousOwner input then a else touch now (drop_role (r_id r) a))"
    "\<forall>j. j \<noteq> ?f \<and> j \<noteq> ?t \<longrightarrow> mget (memberships s') j = mget (memberships (lapseBlocks now s)) j"
    by (rule transfer_spec)
  have new: "m_status (add_role now (r_id r) b) = MActive" "holds (r_id r) (add_role now (r_id r) b)"
    using t(7) by (simp_all add: add_role_def touch_def holds_def)
  have a: "m_roleIds a = m_roleIds old" using t(4) assms(4) by auto
  have listed: "m_roleIds (if to_keepPreviousOwner input then a else touch now (drop_role (r_id r) a)) =
      (if to_keepPreviousOwner input then m_roleIds old else splice_out (r_id r) (m_roleIds old))"
    using a by (simp add: drop_role_def)
  have gone: "distinct (m_roleIds old) \<longrightarrow>
      holds (r_id r) (if to_keepPreviousOwner input then a else touch now (drop_role (r_id r) a)) = to_keepPreviousOwner input"
    using t(8) splice_out_gone[of "m_roleIds old"] unfolding a[symmetric] by (auto simp: holds_def drop_role_def)
  have rest: "\<forall>j. j \<noteq> ?f \<and> j \<noteq> ?t \<longrightarrow> mget (memberships s') j = map_option (lapse now) (mget (memberships s) j)"
    using t(12) by simp
  show ?thesis
    using t(1-3,10,11) t(9) new listed gone rest by (intro exI[of _ r] exI[of _ "if to_keepPreviousOwner input then a else touch now (drop_role (r_id r) a)"] exI[of _ "add_role now (r_id r) b"]) simp
qed

text \<open>
  C7: neither a transfer nor leaving takes the last Owner away.  Whatever they are called with and wherever they
  fail, an Owner role that an active member of its organization held is still held by one.
\<close>

theorem ownership_survives:
  assumes "members_ok s" "mget (roles s) rid = Some r" "r_isOwnerRole r" "owned s rid (r_organizationId r)"
  shows "owned (snd (transferOwnership H now input s)) rid (r_organizationId r) \<and>
    owned (snd (leaveOrganization H now newId og i s)) rid (r_organizationId r)"
  using reachesE_ok[OF transfer_reaches assms] reachesE_ok[OF leave_reaches assms] by blast

text \<open>
  Founding is not atomic here.  When the role id is already taken, \<open>createOrganizationWithOwner\<close> fails and
  leaves an active organization behind that has no Owner role.
\<close>

theorem founding_leaves_ownerless:
  "let (res, s) = createOrganizationWithOwner 5 \<lparr> wo_organizationId = ''o2'', wo_organizationName = ''Beta'', wo_organizationSlug = Some ''beta'',
         wo_ownerRoleId = ''r1'', wo_membershipId = ''m9'', wo_ownerIdentity = ident ''clerk'' ''9'' \<rparr> demo_member_store
   in \<not> is_ok res \<and> organizationIsActive s ''o2'' \<and> role_listByOrganization s ''o2'' = []"
  by code_simp

section \<open>Witnesses\<close>

definition demo_founding :: create_with_owner where
  "demo_founding = \<lparr> wo_organizationId = ''o3'', wo_organizationName = ''Gamma'', wo_organizationSlug = Some ''gamma'',
     wo_ownerRoleId = ''r9'', wo_membershipId = ''m9'', wo_ownerIdentity = ident ''clerk'' ''9'' \<rparr>"

definition demo_transfer :: transfer_ownership where
  "demo_transfer = \<lparr> to_organizationId = ''o1'', to_fromMembershipId = ''m1'', to_toMembershipId = ''m2'',
     to_actor = ident ''clerk'' ''1'', to_keepPreviousOwner = False, to_id = ''a1'' \<rparr>"

lemma demo_founding_ok:
  "is_ok (fst (createOrganizationWithOwner 5 demo_founding demo_engine_store))"
  "organizationIsActive (snd (createOrganizationWithOwner 5 demo_founding demo_engine_store)) ''o3''"
  by code_simp+

lemma demo_transfer_ok: "fst (transferOwnership id 5 demo_transfer demo_engine_store) = Inr ()"
  by code_simp

lemma is_ok_ex: "is_ok r \<Longrightarrow> \<exists>x. r = Inr x"
  by (cases r) simp_all

theorem founder_keeps_access_witness:
  "\<exists>i. \<forall>p now. fst (fst (engine_can \<lparr> ownerRequiresRegisteredPermission = False \<rparr> now
      \<lparr> ci_identity = i, ci_organizationId = ''o3'', ci_permission = p, ci_teamId = None \<rparr>
      (snd (createOrganizationWithOwner 5 demo_founding demo_engine_store)))) = isWellFormedPermissionKey p"
proof -
  let ?s = "snd (createOrganizationWithOwner 5 demo_founding demo_engine_store)"
  obtain x r m where f: "createOrganizationWithOwner 5 demo_founding demo_engine_store = (Inr (x, r, m), ?s)"
    using is_ok_ex[OF demo_founding_ok(1)] by (metis prod.collapse)
  have "clean_identity (wo_ownerIdentity demo_founding)" by (simp add: demo_founding_def clean_identity_def ident_def)
  moreover have "\<not> mhas (memberships demo_engine_store) (wo_membershipId demo_founding)"
    "\<forall>y \<in> set (mvals (memberships demo_engine_store)). \<not> holds (wo_ownerRoleId demo_founding) y"
    by (simp_all add: demo_founding_def demo_rows mhas_def holds_def)
  moreover have "organizationIsActive ?s (wo_organizationId demo_founding)" using demo_founding_ok(2) by (simp add: demo_founding_def)
  ultimately show ?thesis
    using founder_keeps_access[OF f demo_members_ok(1) _ _ _ rtranclp.rtrancl_refl] by (simp add: demo_founding_def)
qed

theorem transfer_hands_over_witness:
  "let s = snd (transferOwnership id 5 demo_transfer demo_engine_store)
   in \<exists>r a b. mget (roles s) (r_id r) = Some r \<and> r_isOwnerRole r \<and> mget (memberships s) ''m2'' = Some b \<and> holds (r_id r) b \<and>
        mget (memberships s) ''m1'' = Some a \<and> holds (r_id r) a = False"
proof -
  let ?s = "snd (transferOwnership id 5 demo_transfer demo_engine_store)"
  have t: "transferOwnership id 5 demo_transfer demo_engine_store = (Inr (), snd (transferOwnership id 5 demo_transfer demo_engine_store))"
    using demo_transfer_ok by (metis prod.collapse)
  have "mem_keyed demo_engine_store" "keyed r_id (roles demo_engine_store)"
    using demo_members_ok(1) by (simp_all add: members_ok_def people_def roles_wf_def)
  moreover have "mget (memberships demo_engine_store) (to_fromMembershipId demo_transfer) = Some demo_owner_member" by (simp_all add: demo_transfer_def demo_rows)
  ultimately obtain r a b where w: "mget (roles ?s) (r_id r) = Some r" "r_isOwnerRole r"
      "mget (memberships ?s) (to_toMembershipId demo_transfer) = Some b" "holds (r_id r) b"
      "mget (memberships ?s) (to_fromMembershipId demo_transfer) = Some a"
      "distinct (m_roleIds demo_owner_member) \<longrightarrow> holds (r_id r) a = to_keepPreviousOwner demo_transfer"
    using transfer_hands_over[OF t, of demo_owner_member] by blast
  moreover have "distinct (m_roleIds demo_owner_member)" by (simp add: demo_rows)
  ultimately show ?thesis unfolding Let_def
    by (intro exI[of _ r] exI[of _ a] exI[of _ b]) (simp add: demo_transfer_def)
qed

text \<open>A previous owner whose Owner role was listed twice keeps it.\<close>

lemma transfer_leaves_repeated:
  "let s = snd (transferOwnership id 5 demo_transfer (demo_engine_store \<lparr> memberships :=
         mset_at ''m1'' (demo_owner_member \<lparr> m_roleIds := [''r1'', ''r1''] \<rparr>) (memberships demo_engine_store) \<rparr>))
   in map_option m_roleIds (mget (memberships s) ''m1'') = Some [''r1'']"
  by code_simp

theorem ownership_survives_witness:
  "owned (snd (leaveOrganization id 5 ''a1'' ''o1'' (ident ''clerk'' ''1'') demo_engine_store)) ''r1'' ''o1''"
proof -
  have "mget (roles demo_engine_store) ''r1'' = Some demo_owner" "r_isOwnerRole demo_owner" "r_organizationId demo_owner = ''o1''"
    by (simp_all add: demo_rows)
  then show ?thesis using ownership_survives[OF demo_members_ok(1), of "''r1''" demo_owner] demo_members_ok(2) by simp
qed

end
