(* ===== verification/PolicyTypes.thy ===== *)
theory PolicyTypes
  imports State
begin

text \<open>
  The data of policies: \<open>packages/core/src/policy/types.ts\<close>, the attributes a condition can read
  (\<open>policy/attributes.ts\<close>) and the matching of actions (\<open>policy/definition.ts\<close>).

  A number is an integer.  A value that a host supplies is a \<open>host_value\<close>: whatever JavaScript value it is,
  as far as the evaluator tells values apart.
\<close>

section \<open>Types\<close>

datatype policy_effect = EffectDeny | EffectRequire

datatype policy_kind = KAccess | KResource | KScope | KFeature | KContextual | KSensitive

datatype policy_status = PDraft | PActive | PDisabled | PRetired

datatype attribute_type = TyString | TyNumber | TyBoolean | TyStrings | TyNumbers

datatype attribute_value = AString string | ANumber int | ABool bool | AStrings "string list" | ANumbers "int list"

datatype host_value = HString string | HNumber int | HBool bool | HList "host_value list" | HNull | HOther

datatype operand = Ref string | Literal attribute_value

datatype comparison = CEq | CNeq | CLt | CLte | CGt | CGte | CIn | CContains | CIntersects

datatype condition = All "condition list" | AnyOf "condition list" | Not condition | Exists string
  | FeatureOn string | PermissionHeld string | Compare comparison operand operand

record policy_definition =
  pd_kind :: policy_kind
  pd_effect :: policy_effect
  pd_actions :: "string list"
  pd_resourceType :: "string option"
  pd_attributes :: "(string, attribute_type) jsmap option"
  pd_context :: "(string, attribute_type) jsmap option"
  pd_timezone :: "string option"
  pd_condition :: condition
  pd_denyReason :: "string option"

section \<open>Attributes\<close>

definition SUBJECT_ATTRIBUTES :: "(string, attribute_type) jsmap" where
  "SUBJECT_ATTRIBUTES =
     [(''subject.membershipId'', TyString), (''subject.membershipStatus'', TyString), (''subject.identity'', TyString),
      (''subject.roleKeys'', TyStrings), (''subject.teamIds'', TyStrings), (''subject.managedTeamIds'', TyStrings)]"

definition RESOURCE_ATTRIBUTES :: "(string, attribute_type) jsmap" where
  "RESOURCE_ATTRIBUTES = [(''resource.id'', TyString), (''resource.teamIds'', TyStrings), (''resource.teamPathIds'', TyStrings)]"

definition ENVIRONMENT_ATTRIBUTES :: "(string, attribute_type) jsmap" where
  "ENVIRONMENT_ATTRIBUTES =
     [(''environment.epochSeconds'', TyNumber), (''environment.year'', TyNumber), (''environment.month'', TyNumber),
      (''environment.dayOfMonth'', TyNumber), (''environment.dayOfWeek'', TyNumber), (''environment.hour'', TyNumber),
      (''environment.minuteOfDay'', TyNumber), (''environment.dateNumber'', TyNumber)]"

definition SESSION_ATTRIBUTES :: "(string, attribute_type) jsmap" where
  "SESSION_ATTRIBUTES =
     [(''session.authAgeSeconds'', TyNumber), (''session.ageSeconds'', TyNumber), (''session.mfa'', TyBoolean),
      (''session.assuranceLevel'', TyNumber), (''session.methods'', TyStrings)]"

definition isProtectedPermission :: "string \<Rightarrow> bool" where
  "isProtectedPermission permission = prefix ''policies.'' permission"

section \<open>Actions\<close>

definition actionMatches :: "string list \<Rightarrow> string \<Rightarrow> bool" where
  "actionMatches actions permission \<longleftrightarrow>
     \<not> isProtectedPermission permission \<and>
     list_ex (\<lambda>action. action = permission \<or> action = ''*'' \<or> (suffix ''.*'' action \<and> prefix (butlast action) permission)) actions"

end
