(* ===== verification/PolicyEvaluate.thy ===== *)
theory PolicyEvaluate
  imports PolicyTypes
begin

text \<open>
  Evaluating policies: \<open>packages/core/src/policy/evaluate.ts\<close> with the clock of \<open>policy/environment.ts\<close>.
  \<open>Intl.DateTimeFormat\<close>, which knows the time zones, is the argument \<open>zones\<close>.

  A condition has three values.  The lemmas show that the evaluator, which counts steps and stops early,
  agrees with a plain definition of the three-valued logic whenever the budget suffices, and that a budget
  that does not suffice can only make an answer unknown; so whatever the budget, a set of policies is allowed
  only when no applicable policy denies or is undecided by that definition.
\<close>

section \<open>The clock\<close>

record civil_time =
  ct_year :: int
  ct_month :: int
  ct_day :: int
  ct_hour :: int
  ct_minute :: int
  ct_weekday :: string

text \<open>
  A time zone the runtime knows maps an instant to the parts of the local time, or to nothing when the instant is
  out of the range of a \<open>Date\<close>.
\<close>

type_synonym zones = "string \<Rightarrow> (int \<Rightarrow> civil_time option) option"

definition DEFAULT_POLICY_TIMEZONE :: string where
  "DEFAULT_POLICY_TIMEZONE = ''UTC''"

text \<open>\<open>text.split(c)\<close>.\<close>

fun split_on :: "char \<Rightarrow> string \<Rightarrow> string list" where
  "split_on c [] = [[]]"
| "split_on c (x # xs) = (if x = c then [] # split_on c xs
     else case split_on c xs of [] \<Rightarrow> [[x]] | seg # segs \<Rightarrow> (x # seg) # segs)"

definition is_letter :: "char \<Rightarrow> bool" where
  "is_letter c \<longleftrightarrow> is_lower_az c \<or> is_upper_az c"

definition timezone_pattern :: "string \<Rightarrow> bool" where
  "timezone_pattern tz =
     (let segs = split_on (CHR ''/'') tz in
      length segs \<le> 3 \<and>
      list_all (\<lambda>s. s \<noteq> [] \<and> list_all (\<lambda>c. is_letter c \<or> is_digit09 c \<or> c \<in> {CHR ''_'', CHR ''+'', CHR ''-''}) s) segs \<and>
      is_letter (hd (hd segs)))"

text \<open>The cache of \<open>formatterFor\<close> is not modelled: what it keeps is what it would build again.\<close>

definition formatterFor :: "zones \<Rightarrow> string \<Rightarrow> (int \<Rightarrow> civil_time option) option" where
  "formatterFor zones timezone = (if length timezone \<le> 64 \<and> timezone_pattern timezone then zones timezone else None)"

definition isValidTimezone :: "zones \<Rightarrow> string \<Rightarrow> bool" where
  "isValidTimezone zones timezone \<longleftrightarrow> formatterFor zones timezone \<noteq> None"

definition WEEKDAYS :: "(string, int) jsmap" where
  "WEEKDAYS = [(''Mon'', 1), (''Tue'', 2), (''Wed'', 3), (''Thu'', 4), (''Fri'', 5), (''Sat'', 6), (''Sun'', 7)]"

definition environmentAt :: "zones \<Rightarrow> int \<Rightarrow> string \<Rightarrow> (string, int) jsmap option" where
  "environmentAt zones epochMs timezone =
     (case formatterFor zones timezone of None \<Rightarrow> None
      | Some formatter \<Rightarrow> (case formatter epochMs of None \<Rightarrow> None
      | Some t \<Rightarrow> (case mget WEEKDAYS (ct_weekday t) of None \<Rightarrow> None
      | Some dayOfWeek \<Rightarrow>
          let hour = ct_hour t mod 24 in
          Some [(''environment.epochSeconds'', epochMs div 1000), (''environment.year'', ct_year t),
            (''environment.month'', ct_month t), (''environment.dayOfMonth'', ct_day t),
            (''environment.dayOfWeek'', dayOfWeek), (''environment.hour'', hour),
            (''environment.minuteOfDay'', hour * 60 + ct_minute t),
            (''environment.dateNumber'', ct_year t * 10000 + ct_month t * 100 + ct_day t)])))"

section \<open>Facts\<close>

definition MAX_EVALUATION_STEPS :: nat where
  "MAX_EVALUATION_STEPS = 20000"

definition MAX_ACTIVE_POLICIES :: nat where
  "MAX_ACTIVE_POLICIES = 200"

definition MAX_RESOURCE_VALUE_LENGTH :: nat where
  "MAX_RESOURCE_VALUE_LENGTH = 1000"

definition MAX_RESOURCE_LIST_ITEMS :: nat where
  "MAX_RESOURCE_LIST_ITEMS = 1000"

datatype verdict = VAllow | VDeny | VIndeterminate

datatype unknown_reason = ResourceMissing | AttributeMissing | AttributeTypeMismatch | SubjectUnavailable
  | TeamTreeUnavailable | EnvironmentUnavailable | SessionUnavailable | FeatureUnavailable | PermissionUnavailable
  | BudgetExceeded

datatype tri = TTrue | TFalse | TUnknown

record resource_facts =
  rf_id :: string
  rf_teamIds :: "string list option"
  rf_teamPathIds :: "string list option"
  rf_attributes :: "(string, host_value) jsmap"

text \<open>A feature or permission that was asked for is \<open>Some\<close> answer, or \<open>None\<close> when it could not be found out.\<close>

record evaluation_facts =
  ef_subject :: "(string, host_value) jsmap"
  ef_resource :: "resource_facts option"
  ef_features :: "(string, bool option) jsmap"
  ef_permissions :: "(string, bool option) jsmap"
  ef_now :: "int option"
  ef_context :: "(string, host_value) jsmap option"
  ef_session :: "(string, host_value) jsmap option"

record policy_request =
  rq_permission :: string
  rq_resourceType :: "string option"

record evaluable_policy =
  ev_id :: string
  ev_key :: string
  ev_revision :: int
  ev_hash :: string
  ev_definition :: policy_definition

record policy_outcome =
  out_policyId :: string
  out_key :: string
  out_kind :: "policy_kind option"
  out_revision :: int
  out_hash :: string
  out_effect :: policy_effect
  out_result :: verdict
  out_reason :: "string option"

datatype applies = Applies | AppliesNot | AppliesUnknown

definition applicability :: "policy_definition \<Rightarrow> policy_request \<Rightarrow> applies" where
  "applicability d request =
     (if \<not> actionMatches (pd_actions d) (rq_permission request) then AppliesNot
      else case pd_resourceType d of None \<Rightarrow> Applies
        | Some t \<Rightarrow> (case rq_resourceType request of None \<Rightarrow> AppliesUnknown
            | Some t' \<Rightarrow> if t = t' then Applies else AppliesNot))"

section \<open>Reading an attribute\<close>

fun text_of :: "host_value \<Rightarrow> string option" where
  "text_of (HString t) = (if length t \<le> MAX_RESOURCE_VALUE_LENGTH then Some t else None)"
| "text_of _ = None"

fun number_of :: "host_value \<Rightarrow> int option" where
  "number_of (HNumber n) = Some n"
| "number_of _ = None"

definition all_of :: "(host_value \<Rightarrow> 'a option) \<Rightarrow> host_value list \<Rightarrow> 'a list option" where
  "all_of f xs = (if length xs \<le> MAX_RESOURCE_LIST_ITEMS \<and> list_all (\<lambda>x. f x \<noteq> None) xs then Some (map (\<lambda>x. the (f x)) xs) else None)"

text \<open>\<open>hasType\<close>: the value as one of that type, when it is.\<close>

fun typed_value :: "host_value \<Rightarrow> attribute_type \<Rightarrow> attribute_value option" where
  "typed_value v TyString = map_option AString (text_of v)"
| "typed_value v TyNumber = map_option ANumber (number_of v)"
| "typed_value v TyBoolean = (case v of HBool b \<Rightarrow> Some (ABool b) | _ \<Rightarrow> None)"
| "typed_value v TyStrings = (case v of HList xs \<Rightarrow> map_option AStrings (all_of text_of xs) | _ \<Rightarrow> None)"
| "typed_value v TyNumbers = (case v of HList xs \<Rightarrow> map_option ANumbers (all_of number_of xs) | _ \<Rightarrow> None)"

datatype resolved = Known attribute_value | Absent | Unknowable unknown_reason

definition checked :: "host_value \<Rightarrow> attribute_type \<Rightarrow> resolved" where
  "checked v ty = (case typed_value v ty of None \<Rightarrow> Unknowable AttributeTypeMismatch | Some a \<Rightarrow> Known a)"

text \<open>A value the host may have left out: absent is a fact.\<close>

definition supplied :: "host_value option \<Rightarrow> attribute_type \<Rightarrow> resolved" where
  "supplied v ty = (case v of None \<Rightarrow> Absent | Some HNull \<Rightarrow> Absent | Some x \<Rightarrow> checked x ty)"

definition declared_in :: "(string, attribute_type) jsmap option \<Rightarrow> string \<Rightarrow> attribute_type option" where
  "declared_in declarations name = Option.bind declarations (\<lambda>m. mget m name)"

definition strings :: "string list \<Rightarrow> host_value" where
  "strings xs = HList (map HString xs)"

definition builtin_resource :: "resource_facts \<Rightarrow> string \<Rightarrow> resolved" where
  "builtin_resource r ref =
     (if ref = ''resource.id'' then checked (HString (rf_id r)) TyString
      else if ref = ''resource.teamIds'' then supplied (map_option strings (rf_teamIds r)) TyStrings
      else if rf_teamIds r = None then Absent
      else case rf_teamPathIds r of None \<Rightarrow> Unknowable TeamTreeUnavailable | Some ids \<Rightarrow> checked (strings ids) TyStrings)"

definition resolveRef :: "zones \<Rightarrow> policy_definition \<Rightarrow> evaluation_facts \<Rightarrow> string \<Rightarrow> resolved" where
  "resolveRef zones d facts ref =
     (case mget SUBJECT_ATTRIBUTES ref of
        Some ty \<Rightarrow> (case mget (ef_subject facts) ref of None \<Rightarrow> Unknowable SubjectUnavailable | Some v \<Rightarrow> checked v ty)
      | None \<Rightarrow>
      if mhas ENVIRONMENT_ATTRIBUTES ref then
        (case Option.bind (ef_now facts) (\<lambda>now. environmentAt zones now (case pd_timezone d of None \<Rightarrow> DEFAULT_POLICY_TIMEZONE | Some z \<Rightarrow> z)) of
           None \<Rightarrow> Unknowable EnvironmentUnavailable
         | Some clock \<Rightarrow> Known (ANumber (the (mget clock ref))))
      else case mget SESSION_ATTRIBUTES ref of
        Some ty \<Rightarrow>
          (case Option.bind (ef_session facts) (\<lambda>m. mget m ref) of
             None \<Rightarrow> Unknowable (if ref \<in> {''session.authAgeSeconds'', ''session.ageSeconds''} \<and> ef_now facts = None \<and> ef_session facts \<noteq> None
                                 then EnvironmentUnavailable else SessionUnavailable)
           | Some v \<Rightarrow> checked v ty)
      | None \<Rightarrow>
      if prefix ''context.'' ref then
        (let name = drop 8 ref in
         case declared_in (pd_context d) name of None \<Rightarrow> Unknowable AttributeMissing
         | Some ty \<Rightarrow> supplied (Option.bind (ef_context facts) (\<lambda>m. mget m name)) ty)
      else case ef_resource facts of None \<Rightarrow> Unknowable ResourceMissing
      | Some r \<Rightarrow>
          if mhas RESOURCE_ATTRIBUTES ref then builtin_resource r ref
          else
            (let name = drop 9 ref in
             case declared_in (pd_attributes d) name of None \<Rightarrow> Unknowable AttributeMissing
             | Some ty \<Rightarrow> supplied (mget (rf_attributes r) name) ty))"

fun operand_value :: "zones \<Rightarrow> policy_definition \<Rightarrow> evaluation_facts \<Rightarrow> operand \<Rightarrow> attribute_value + unknown_reason" where
  "operand_value zones d facts (Literal v) = Inl v"
| "operand_value zones d facts (Ref ref) =
     (case resolveRef zones d facts ref of Known v \<Rightarrow> Inl v | Absent \<Rightarrow> Inr AttributeMissing | Unknowable why \<Rightarrow> Inr why)"

section \<open>Comparing\<close>

text \<open>
  The comparisons of values of the types the parser lets through; any other pair, on which JavaScript would
  coerce or throw, is answered with false here and never reached by an accepted definition (\<open>PolicyParsed\<close>).
\<close>

fun on_scalars :: "bool \<Rightarrow> attribute_value \<Rightarrow> attribute_value \<Rightarrow> bool" where
  "on_scalars same (AString a) (AString b) = ((a = b) = same)"
| "on_scalars same (ANumber a) (ANumber b) = ((a = b) = same)"
| "on_scalars same (ABool a) (ABool b) = ((a = b) = same)"
| "on_scalars same _ _ = False"

fun on_numbers :: "(int \<Rightarrow> int \<Rightarrow> bool) \<Rightarrow> attribute_value \<Rightarrow> attribute_value \<Rightarrow> bool" where
  "on_numbers R (ANumber a) (ANumber b) = R a b"
| "on_numbers R _ _ = False"

fun member_of :: "attribute_value \<Rightarrow> attribute_value \<Rightarrow> bool" where
  "member_of (AString a) (AStrings bs) = (a \<in> set bs)"
| "member_of (ANumber a) (ANumbers bs) = (a \<in> set bs)"
| "member_of _ _ = False"

fun overlap :: "attribute_value \<Rightarrow> attribute_value \<Rightarrow> bool" where
  "overlap (AStrings as) (AStrings bs) = list_ex (\<lambda>b. b \<in> set as) bs"
| "overlap (ANumbers as) (ANumbers bs) = list_ex (\<lambda>b. b \<in> set as) bs"
| "overlap _ _ = False"

definition compare_values :: "comparison \<Rightarrow> attribute_value \<Rightarrow> attribute_value \<Rightarrow> bool" where
  "compare_values op a b =
     (case op of
        CEq \<Rightarrow> on_scalars True a b
      | CNeq \<Rightarrow> on_scalars False a b
      | CLt \<Rightarrow> on_numbers (<) a b
      | CLte \<Rightarrow> on_numbers (\<le>) a b
      | CGt \<Rightarrow> on_numbers (>) a b
      | CGte \<Rightarrow> on_numbers (\<ge>) a b
      | CIn \<Rightarrow> member_of a b
      | CContains \<Rightarrow> member_of b a
      | CIntersects \<Rightarrow> overlap a b)"

section \<open>Evaluating\<close>

text \<open>The state of a run: the steps taken and the first thing that could not be decided.\<close>

record run =
  run_steps :: nat
  run_firstUnknown :: "unknown_reason option"

record evaluator =
  rn_zones :: zones
  rn_definition :: policy_definition
  rn_facts :: evaluation_facts
  rn_limit :: nat

definition unknown :: "unknown_reason \<Rightarrow> run \<Rightarrow> tri \<times> run" where
  "unknown why r = (TUnknown, r \<lparr> run_firstUnknown := (case run_firstUnknown r of None \<Rightarrow> Some why | Some w \<Rightarrow> Some w) \<rparr>)"

definition tri_of :: "bool \<Rightarrow> tri" where
  "tri_of b = (if b then TTrue else TFalse)"

fun tri_not :: "tri \<Rightarrow> tri" where
  "tri_not TTrue = TFalse"
| "tri_not TFalse = TTrue"
| "tri_not TUnknown = TUnknown"

text \<open>What a leaf says: its value or why it has none.\<close>

definition looked_up :: "(string, bool option) jsmap \<Rightarrow> string \<Rightarrow> unknown_reason \<Rightarrow> bool + unknown_reason" where
  "looked_up m key why = (case mget m key of Some (Some b) \<Rightarrow> Inl b | _ \<Rightarrow> Inr why)"

fun leaf :: "evaluator \<Rightarrow> condition \<Rightarrow> bool + unknown_reason" where
  "leaf e (Compare op left right) =
     (case operand_value (rn_zones e) (rn_definition e) (rn_facts e) left of Inr why \<Rightarrow> Inr why
      | Inl a \<Rightarrow> (case operand_value (rn_zones e) (rn_definition e) (rn_facts e) right of Inr why \<Rightarrow> Inr why
          | Inl b \<Rightarrow> Inl (compare_values op a b)))"
| "leaf e (Exists ref) =
     (case resolveRef (rn_zones e) (rn_definition e) (rn_facts e) ref of Unknowable why \<Rightarrow> Inr why | Absent \<Rightarrow> Inl False | Known _ \<Rightarrow> Inl True)"
| "leaf e (FeatureOn key) = looked_up (ef_features (rn_facts e)) key FeatureUnavailable"
| "leaf e (PermissionHeld key) = looked_up (ef_permissions (rn_facts e)) key PermissionUnavailable"
| "leaf e _ = Inr AttributeTypeMismatch"

definition leaf_result :: "evaluator \<Rightarrow> condition \<Rightarrow> run \<Rightarrow> tri \<times> run" where
  "leaf_result e c r = (case leaf e c of Inl b \<Rightarrow> (tri_of b, r) | Inr why \<Rightarrow> unknown why r)"

text \<open>The step counter in front of every node.\<close>

definition counted_step :: "evaluator \<Rightarrow> run \<Rightarrow> (run \<Rightarrow> tri \<times> run) \<Rightarrow> tri \<times> run" where
  "counted_step e r k =
     (let r' = r \<lparr> run_steps := run_steps r + 1 \<rparr> in
      if run_steps r' > rn_limit e then unknown BudgetExceeded r' else k r')"

fun evaluate :: "evaluator \<Rightarrow> condition \<Rightarrow> run \<Rightarrow> tri \<times> run"
and eval_all :: "evaluator \<Rightarrow> condition list \<Rightarrow> bool \<Rightarrow> run \<Rightarrow> tri \<times> run"
and eval_any :: "evaluator \<Rightarrow> condition list \<Rightarrow> bool \<Rightarrow> run \<Rightarrow> tri \<times> run" where
  "evaluate e (All cs) r = counted_step e r (eval_all e cs False)"
| "evaluate e (AnyOf cs) r = counted_step e r (eval_any e cs False)"
| "evaluate e (Not c) r = counted_step e r (\<lambda>r. let (v, r1) = evaluate e c r in (tri_not v, r1))"
| "evaluate e (Exists ref) r = counted_step e r (leaf_result e (Exists ref))"
| "evaluate e (FeatureOn key) r = counted_step e r (leaf_result e (FeatureOn key))"
| "evaluate e (PermissionHeld key) r = counted_step e r (leaf_result e (PermissionHeld key))"
| "evaluate e (Compare op a b) r = counted_step e r (leaf_result e (Compare op a b))"
| "eval_all e [] u r = (if u then TUnknown else TTrue, r)"
| "eval_all e (c # cs) u r =
     (let (v, r1) = evaluate e c r
      in if v = TFalse then (TFalse, r1) else eval_all e cs (u \<or> v = TUnknown) r1)"
| "eval_any e [] u r = (if u then TUnknown else TFalse, r)"
| "eval_any e (c # cs) u r =
     (let (v, r1) = evaluate e c r
      in if v = TTrue then (TTrue, r1) else eval_any e cs (u \<or> v = TUnknown) r1)"

section \<open>Policies\<close>

definition outcome_of :: "evaluable_policy \<Rightarrow> verdict \<Rightarrow> string option \<Rightarrow> policy_outcome" where
  "outcome_of p result why =
     \<lparr> out_policyId = ev_id p, out_key = ev_key p, out_kind = Some (pd_kind (ev_definition p)), out_revision = ev_revision p,
       out_hash = ev_hash p, out_effect = pd_effect (ev_definition p), out_result = result, out_reason = why \<rparr>"

fun reason_text :: "unknown_reason \<Rightarrow> string" where
  "reason_text ResourceMissing = ''resource_missing''"
| "reason_text AttributeMissing = ''attribute_missing''"
| "reason_text AttributeTypeMismatch = ''attribute_type_mismatch''"
| "reason_text SubjectUnavailable = ''subject_unavailable''"
| "reason_text TeamTreeUnavailable = ''team_tree_unavailable''"
| "reason_text EnvironmentUnavailable = ''environment_unavailable''"
| "reason_text SessionUnavailable = ''session_unavailable''"
| "reason_text FeatureUnavailable = ''feature_unavailable''"
| "reason_text PermissionUnavailable = ''permission_unavailable''"
| "reason_text BudgetExceeded = ''budget_exceeded''"

definition or_code :: "string option \<Rightarrow> string \<Rightarrow> string option" where
  "or_code v d = Some (case v of None \<Rightarrow> d | Some c \<Rightarrow> c)"

text \<open>The outcome of a decided condition.\<close>

definition judge :: "evaluable_policy \<Rightarrow> tri \<Rightarrow> run \<Rightarrow> policy_outcome" where
  "judge p v r =
     (let d = ev_definition p in
      if v = TUnknown then outcome_of p VIndeterminate
        (Some (reason_text (case run_firstUnknown r of None \<Rightarrow> AttributeMissing | Some w \<Rightarrow> w)))
      else if pd_effect d = EffectDeny then
        (if v = TTrue then outcome_of p VDeny (or_code (pd_denyReason d) ''policy_denied'') else outcome_of p VAllow None)
      else (if v = TTrue then outcome_of p VAllow None
            else outcome_of p VDeny (or_code (pd_denyReason d) ''policy_requirement_not_met'')))"

text \<open>The budget is shared by the policies of a decision: what is left after this one is returned.\<close>

definition evaluatePolicy :: "zones \<Rightarrow> evaluable_policy \<Rightarrow> policy_request \<Rightarrow> evaluation_facts \<Rightarrow> nat \<Rightarrow> policy_outcome option \<times> nat" where
  "evaluatePolicy zones p request facts budget =
     (case applicability (ev_definition p) request of
        AppliesNot \<Rightarrow> (None, budget)
      | AppliesUnknown \<Rightarrow> (Some (outcome_of p VIndeterminate (Some (reason_text ResourceMissing))), budget)
      | Applies \<Rightarrow>
          let (v, r) = evaluate \<lparr> rn_zones = zones, rn_definition = ev_definition p, rn_facts = facts, rn_limit = budget \<rparr>
                         (pd_condition (ev_definition p)) \<lparr> run_steps = 0, run_firstUnknown = None \<rparr>
          in (Some (judge p v r), budget - run_steps r))"

definition combineVerdicts :: "verdict list \<Rightarrow> verdict" where
  "combineVerdicts verdicts =
     (if VDeny \<in> set verdicts then VDeny else if VIndeterminate \<in> set verdicts then VIndeterminate else VAllow)"

datatype set_reason = SAllowed | SPolicyDenied | SPolicyIndeterminate | SNoApplicablePolicy

record set_evaluation =
  se_decision :: verdict
  se_reason :: set_reason
  se_outcomes :: "policy_outcome list"

fun eval_each :: "zones \<Rightarrow> policy_request \<Rightarrow> evaluation_facts \<Rightarrow> evaluable_policy list \<Rightarrow> nat \<Rightarrow> policy_outcome list" where
  "eval_each zones request facts [] budget = []"
| "eval_each zones request facts (p # ps) budget =
     (let (outcome, left) =
        (if budget = 0 \<and> applicability (ev_definition p) request \<noteq> AppliesNot
         then (Some (outcome_of p VIndeterminate (Some (reason_text BudgetExceeded))), budget)
         else evaluatePolicy zones p request facts budget)
      in (case outcome of None \<Rightarrow> [] | Some x \<Rightarrow> [x]) @ eval_each zones request facts ps left)"

definition evaluatePolicySet ::
  "zones \<Rightarrow> evaluable_policy list \<Rightarrow> policy_request \<Rightarrow> evaluation_facts \<Rightarrow> bool \<Rightarrow> nat \<Rightarrow> set_evaluation" where
  "evaluatePolicySet zones policies request facts requireApplicablePolicy maxSteps =
     (if isProtectedPermission (rq_permission request) then
        \<lparr> se_decision = (if requireApplicablePolicy then VDeny else VAllow),
          se_reason = (if requireApplicablePolicy then SNoApplicablePolicy else SAllowed), se_outcomes = [] \<rparr>
      else
        let ordered = sort_by (\<lambda>a b. ev_key a < ev_key b) policies;
            outcomes = eval_each zones request facts ordered maxSteps
        in if outcomes = [] \<and> requireApplicablePolicy
           then \<lparr> se_decision = VDeny, se_reason = SNoApplicablePolicy, se_outcomes = outcomes \<rparr>
           else
             let decision = combineVerdicts (map out_result outcomes)
             in \<lparr> se_decision = decision,
                  se_reason = (case decision of VAllow \<Rightarrow> SAllowed | VDeny \<Rightarrow> SPolicyDenied | VIndeterminate \<Rightarrow> SPolicyIndeterminate),
                  se_outcomes = outcomes \<rparr>)"

section \<open>The three-valued logic\<close>

text \<open>What a condition means, without a budget.\<close>

fun meaning :: "evaluator \<Rightarrow> condition \<Rightarrow> tri" where
  "meaning e (All cs) = (let vs = map (meaning e) cs in if TFalse \<in> set vs then TFalse else if TUnknown \<in> set vs then TUnknown else TTrue)"
| "meaning e (AnyOf cs) = (let vs = map (meaning e) cs in if TTrue \<in> set vs then TTrue else if TUnknown \<in> set vs then TUnknown else TFalse)"
| "meaning e (Not c) = tri_not (meaning e c)"
| "meaning e c = (case leaf e c of Inl b \<Rightarrow> tri_of b | Inr why \<Rightarrow> TUnknown)"

fun nodes :: "condition \<Rightarrow> nat" where
  "nodes (All cs) = 1 + sum_list (map nodes cs)"
| "nodes (AnyOf cs) = 1 + sum_list (map nodes cs)"
| "nodes (Not c) = 1 + nodes c"
| "nodes _ = 1"

lemma unknown_simps [simp]: "fst (unknown why r) = TUnknown" "run_steps (snd (unknown why r)) = run_steps r"
  by (simp_all add: unknown_def)

lemma leaf_result_simps [simp]:
  "fst (leaf_result e c r) = (case leaf e c of Inl b \<Rightarrow> tri_of b | Inr why \<Rightarrow> TUnknown)"
  "run_steps (snd (leaf_result e c r)) = run_steps r"
  by (simp_all add: leaf_result_def split: sum.split)

lemma counted_step_simps:
  "fst (counted_step e r k) = (if run_steps r + 1 > rn_limit e then TUnknown else fst (k (r \<lparr> run_steps := run_steps r + 1 \<rparr>)))"
  "run_steps (snd (counted_step e r k)) =
     (if run_steps r + 1 > rn_limit e then run_steps r + 1 else run_steps (snd (k (r \<lparr> run_steps := run_steps r + 1 \<rparr>))))"
  by (simp_all add: counted_step_def Let_def)

text \<open>The values of a list of conditions, started with one that is unknown when \<open>u\<close> says so.\<close>

definition all_values :: "bool \<Rightarrow> tri list \<Rightarrow> tri" where
  "all_values u vs = (if TFalse \<in> set vs then TFalse else if u \<or> TUnknown \<in> set vs then TUnknown else TTrue)"

definition any_values :: "bool \<Rightarrow> tri list \<Rightarrow> tri" where
  "any_values u vs = (if TTrue \<in> set vs then TTrue else if u \<or> TUnknown \<in> set vs then TUnknown else TFalse)"

lemma tri_cases: "v = TFalse \<or> v = TTrue \<or> v = TUnknown"
  by (cases v) simp_all

text \<open>A run never takes more steps than the condition has nodes, and with that many it finds the meaning.\<close>

lemma evaluate_enough:
  "run_steps (snd (evaluate e c r)) \<le> run_steps r + nodes c \<and>
     (run_steps r + nodes c \<le> rn_limit e \<longrightarrow> fst (evaluate e c r) = meaning e c)"
  "run_steps (snd (eval_all e cs u r)) \<le> run_steps r + sum_list (map nodes cs) \<and>
     (run_steps r + sum_list (map nodes cs) \<le> rn_limit e \<longrightarrow> fst (eval_all e cs u r) = all_values u (map (meaning e) cs))"
  "run_steps (snd (eval_any e cs u r)) \<le> run_steps r + sum_list (map nodes cs) \<and>
     (run_steps r + sum_list (map nodes cs) \<le> rn_limit e \<longrightarrow> fst (eval_any e cs u r) = any_values u (map (meaning e) cs))"
proof (induction e c r and e cs u r and e cs u r rule: evaluate_eval_all_eval_any.induct)
  case (1 e cs r)
  from 1[of "r \<lparr> run_steps := Suc (run_steps r) \<rparr>"] show ?case by (auto simp: counted_step_simps all_values_def Let_def)
next
  case (2 e cs r)
  from 2[of "r \<lparr> run_steps := Suc (run_steps r) \<rparr>"] show ?case by (auto simp: counted_step_simps any_values_def Let_def)
next
  case (3 e c r)
  from 3[of "r \<lparr> run_steps := Suc (run_steps r) \<rparr>"] show ?case by (auto simp: counted_step_simps Let_def case_prod_unfold)
next
  case (9 e c cs u r)
  obtain v r1 where v: "evaluate e c r = (v, r1)" by fastforce
  have step: "run_steps r1 \<le> run_steps r + nodes c" "run_steps r + nodes c \<le> rn_limit e \<longrightarrow> v = meaning e c" using 9(1) v by simp_all
  show ?case
  proof (cases "v = TFalse")
    case True
    then show ?thesis using step v by (auto simp: all_values_def)
  next
    case False
    then show ?thesis using step v 9(2)[OF v[symmetric] refl] by (auto simp: all_values_def)
  qed
next
  case (11 e c cs u r)
  obtain v r1 where v: "evaluate e c r = (v, r1)" by fastforce
  have step: "run_steps r1 \<le> run_steps r + nodes c" "run_steps r + nodes c \<le> rn_limit e \<longrightarrow> v = meaning e c" using 11(1) v by simp_all
  show ?case
  proof (cases "v = TTrue")
    case True
    then show ?thesis using step v by (auto simp: any_values_def)
  next
    case False
    then show ?thesis using step v 11(2)[OF v[symmetric] refl] by (auto simp: any_values_def)
  qed
qed (auto simp: counted_step_simps all_values_def any_values_def Let_def case_prod_unfold)

text \<open>Whatever the budget, an answer that is not unknown is the meaning.\<close>

lemma evaluate_sound:
  "fst (evaluate e c r) = TUnknown \<or> fst (evaluate e c r) = meaning e c"
  "fst (eval_all e cs u r) = TUnknown \<or> fst (eval_all e cs u r) = all_values u (map (meaning e) cs)"
  "fst (eval_any e cs u r) = TUnknown \<or> fst (eval_any e cs u r) = any_values u (map (meaning e) cs)"
proof (induction e c r and e cs u r and e cs u r rule: evaluate_eval_all_eval_any.induct)
  case (1 e cs r)
  from 1[of "r \<lparr> run_steps := Suc (run_steps r) \<rparr>"] show ?case by (auto simp: counted_step_simps all_values_def Let_def)
next
  case (2 e cs r)
  from 2[of "r \<lparr> run_steps := Suc (run_steps r) \<rparr>"] show ?case by (auto simp: counted_step_simps any_values_def Let_def)
next
  case (3 e c r)
  from 3[of "r \<lparr> run_steps := Suc (run_steps r) \<rparr>"] show ?case by (auto simp: counted_step_simps Let_def case_prod_unfold)
next
  case (9 e c cs u r)
  obtain v r1 where v: "evaluate e c r = (v, r1)" by fastforce
  have "v = TUnknown \<or> v = meaning e c" using 9(1) v by simp
  then show ?case
  proof (cases "v = TFalse")
    case False
    then show ?thesis using 9(2)[OF v[symmetric] refl] v \<open>v = TUnknown \<or> v = meaning e c\<close>
      by (auto simp: all_values_def split: if_splits)
  qed (auto simp: all_values_def v)
next
  case (11 e c cs u r)
  obtain v r1 where v: "evaluate e c r = (v, r1)" by fastforce
  have "v = TUnknown \<or> v = meaning e c" using 11(1) v by simp
  then show ?case
  proof (cases "v = TTrue")
    case False
    then show ?thesis using 11(2)[OF v[symmetric] refl] v \<open>v = TUnknown \<or> v = meaning e c\<close>
      by (auto simp: any_values_def split: if_splits)
  qed (auto simp: any_values_def v)
qed (auto simp: counted_step_simps all_values_def any_values_def Let_def case_prod_unfold)

lemma tri_not_TUnknown [simp]: "tri_not v = TUnknown \<longleftrightarrow> v = TUnknown"
  by (cases v) simp_all

text \<open>More facts never change an answer that was known.\<close>

lemma meaning_more_facts:
  assumes "\<And>c b. leaf e c = Inl b \<Longrightarrow> leaf e' c = Inl b"
  shows "meaning e c = TUnknown \<or> meaning e' c = meaning e c"
proof -
  have leaves: "(case leaf e c of Inl b \<Rightarrow> tri_of b | Inr why \<Rightarrow> TUnknown) = TUnknown \<or>
      (case leaf e' c of Inl b \<Rightarrow> tri_of b | Inr why \<Rightarrow> TUnknown) = (case leaf e c of Inl b \<Rightarrow> tri_of b | Inr why \<Rightarrow> TUnknown)" for c
    using assms[of c] by (cases "leaf e c") simp_all
  show ?thesis
proof (induction c rule: nodes.induct)
  case (1 cs)
  then have same: "meaning e c = TUnknown \<or> meaning e' c = meaning e c" if "c \<in> set cs" for c using that by blast
  show ?case
  proof (cases "TFalse \<in> meaning e ` set cs")
    case True
    then obtain c where "c \<in> set cs" "meaning e c = TFalse" by auto
    then have "TFalse \<in> meaning e' ` set cs" using same[of c] by (auto intro: rev_image_eqI)
    then show ?thesis using True by (simp add: Let_def)
  next
    case nf: False
    show ?thesis
    proof (cases "TUnknown \<in> meaning e ` set cs")
      case True
      then show ?thesis using nf by (simp add: Let_def)
    next
      case False
      have "meaning e' c = meaning e c" if "c \<in> set cs" for c
      proof -
        have "meaning e c \<in> meaning e ` set cs" using that by (rule imageI)
        then show ?thesis using same[OF that] False by metis
      qed
      then have "meaning e' ` set cs = meaning e ` set cs" by (simp cong: image_cong)
      then show ?thesis by (simp add: Let_def)
    qed
  qed
next
  case (2 cs)
  then have same: "meaning e c = TUnknown \<or> meaning e' c = meaning e c" if "c \<in> set cs" for c using that by blast
  show ?case
  proof (cases "TTrue \<in> meaning e ` set cs")
    case True
    then obtain c where "c \<in> set cs" "meaning e c = TTrue" by auto
    then have "TTrue \<in> meaning e' ` set cs" using same[of c] by (auto intro: rev_image_eqI)
    then show ?thesis using True by (simp add: Let_def)
  next
    case nf: False
    show ?thesis
    proof (cases "TUnknown \<in> meaning e ` set cs")
      case True
      then show ?thesis using nf by (simp add: Let_def)
    next
      case False
      have "meaning e' c = meaning e c" if "c \<in> set cs" for c
      proof -
        have "meaning e c \<in> meaning e ` set cs" using that by (rule imageI)
        then show ?thesis using same[OF that] False by metis
      qed
      then have "meaning e' ` set cs = meaning e ` set cs" by (simp cong: image_cong)
      then show ?thesis by (simp add: Let_def)
    qed
  qed
next
  case (3 c)
  then show ?case by auto
qed (simp_all only: meaning.simps leaves)
qed

section \<open>Sets of policies\<close>

text \<open>What one policy says about a request by the meaning of its condition.\<close>

definition evaluator_of :: "zones \<Rightarrow> evaluation_facts \<Rightarrow> evaluable_policy \<Rightarrow> nat \<Rightarrow> evaluator" where
  "evaluator_of zones facts p limit = \<lparr> rn_zones = zones, rn_definition = ev_definition p, rn_facts = facts, rn_limit = limit \<rparr>"

definition says :: "zones \<Rightarrow> evaluation_facts \<Rightarrow> policy_request \<Rightarrow> evaluable_policy \<Rightarrow> verdict" where
  "says zones facts request p =
     (case applicability (ev_definition p) request of
        AppliesNot \<Rightarrow> VAllow
      | AppliesUnknown \<Rightarrow> VIndeterminate
      | Applies \<Rightarrow>
          (case meaning (evaluator_of zones facts p 0) (pd_condition (ev_definition p)) of
             TUnknown \<Rightarrow> VIndeterminate
           | TTrue \<Rightarrow> (if pd_effect (ev_definition p) = EffectDeny then VDeny else VAllow)
           | TFalse \<Rightarrow> (if pd_effect (ev_definition p) = EffectDeny then VAllow else VDeny)))"

lemma leaf_limit: "leaf (evaluator_of zones facts p l) c = leaf (evaluator_of zones facts p l') c"
  unfolding evaluator_of_def by (cases c) (simp_all only: leaf.simps evaluator.simps)

lemma meaning_cong:
  assumes "\<And>c. leaf e c = leaf e' c"
  shows "meaning e c = meaning e' c"
proof (induction c rule: nodes.induct)
  case (1 cs)
  then have "map (meaning e) cs = map (meaning e') cs" by simp
  then show ?case unfolding meaning.simps by (simp only:)
next
  case (2 cs)
  then have "map (meaning e) cs = map (meaning e') cs" by simp
  then show ?case unfolding meaning.simps by (simp only:)
qed (simp_all only: meaning.simps assms)

lemma judge_result: "out_result (judge p v r) = (case v of TUnknown \<Rightarrow> VIndeterminate
    | TTrue \<Rightarrow> (if pd_effect (ev_definition p) = EffectDeny then VDeny else VAllow)
    | TFalse \<Rightarrow> (if pd_effect (ev_definition p) = EffectDeny then VAllow else VDeny))"
  by (cases v) (simp_all add: judge_def Let_def outcome_of_def)

text \<open>One policy: an outcome that is not indeterminate is what the policy says, and with enough budget it is always that.\<close>

lemma evaluatePolicy_result:
  "(case fst (evaluatePolicy zones p request facts budget) of None \<Rightarrow> applicability (ev_definition p) request = AppliesNot
    | Some x \<Rightarrow> applicability (ev_definition p) request \<noteq> AppliesNot \<and>
        (out_result x = VIndeterminate \<or> out_result x = says zones facts request p) \<and>
        (nodes (pd_condition (ev_definition p)) \<le> budget \<longrightarrow> out_result x = says zones facts request p)) \<and>
   budget - nodes (pd_condition (ev_definition p)) \<le> snd (evaluatePolicy zones p request facts budget)"
proof -
  let ?e = "evaluator_of zones facts p budget" and ?c = "pd_condition (ev_definition p)" and ?r = "\<lparr> run_steps = 0, run_firstUnknown = None \<rparr>"
  have m: "meaning ?e ?c = meaning (evaluator_of zones facts p 0) ?c" by (rule meaning_cong) (rule leaf_limit)
  obtain v r where v: "evaluate ?e ?c ?r = (v, r)" by fastforce
  have s: "run_steps r \<le> nodes ?c" "nodes ?c \<le> budget \<longrightarrow> v = meaning ?e ?c" "v = TUnknown \<or> v = meaning ?e ?c"
    using evaluate_enough(1)[of ?e ?c ?r] evaluate_sound(1)[of ?e ?c ?r] v by (simp_all add: evaluator_of_def)
  show ?thesis
  proof (cases "applicability (ev_definition p) request")
    case Applies
    have "evaluatePolicy zones p request facts budget = (Some (judge p v r), budget - run_steps r)"
      using v by (simp add: evaluatePolicy_def Applies evaluator_of_def Let_def)
    moreover have "says zones facts request p = out_result (judge p (meaning ?e ?c) r)"
      by (simp add: says_def Applies m judge_result split: tri.split)
    ultimately show ?thesis using s by (auto simp: judge_result Applies)
  qed (simp_all add: evaluatePolicy_def says_def outcome_of_def)
qed

lemma eval_each_Cons:
  "eval_each zones request facts (p # ps) budget =
     (if budget = 0 \<and> applicability (ev_definition p) request \<noteq> AppliesNot
      then outcome_of p VIndeterminate (Some (reason_text BudgetExceeded)) # eval_each zones request facts ps budget
      else (case fst (evaluatePolicy zones p request facts budget) of None \<Rightarrow> [] | Some x \<Rightarrow> [x]) @
           eval_each zones request facts ps (snd (evaluatePolicy zones p request facts budget)))"
  by (simp add: case_prod_unfold Let_def)

lemma eval_each_head:
  assumes "applicability (ev_definition p) request \<noteq> AppliesNot"
  shows "\<exists>x \<in> set (eval_each zones request facts (p # ps) budget). out_result x = VIndeterminate \<or> out_result x = says zones facts request p"
proof (cases "budget = 0")
  case True
  then show ?thesis unfolding eval_each_Cons using assms by (simp add: outcome_of_def)
next
  case False
  obtain x where "fst (evaluatePolicy zones p request facts budget) = Some x" "out_result x = VIndeterminate \<or> out_result x = says zones facts request p"
    using evaluatePolicy_result[of p request zones facts budget] assms by (auto split: option.splits)
  then show ?thesis unfolding eval_each_Cons using False by simp
qed

lemma eval_each_tail: "\<exists>b. set (eval_each zones request facts ps b) \<subseteq> set (eval_each zones request facts (p # ps) budget)"
  unfolding eval_each_Cons by (cases "budget = 0 \<and> applicability (ev_definition p) request \<noteq> AppliesNot") auto

lemma eval_each_covers:
  assumes "p \<in> set ps" "says zones facts request p \<noteq> VAllow"
  shows "\<exists>x \<in> set (eval_each zones request facts ps budget). out_result x = VIndeterminate \<or> out_result x = says zones facts request p"
  using assms
proof (induction ps arbitrary: budget)
  case (Cons q ps)
  show ?case
  proof (cases "p = q")
    case True
    have "applicability (ev_definition p) request \<noteq> AppliesNot" using Cons.prems(2) by (auto simp: says_def)
    then show ?thesis unfolding True by (rule eval_each_head)
  next
    case False
    then have "p \<in> set ps" using Cons.prems(1) by simp
    obtain b where "set (eval_each zones request facts ps b) \<subseteq> set (eval_each zones request facts (q # ps) budget)"
      using eval_each_tail by blast
    then show ?thesis using Cons.IH[OF \<open>p \<in> set ps\<close> Cons.prems(2), of b] by blast
  qed
qed simp

lemma nodes_pos: "0 < nodes c"
  by (cases c) simp_all

lemma eval_each_enough:
  assumes "sum_list (map (\<lambda>p. nodes (pd_condition (ev_definition p))) ps) \<le> budget"
  shows "map out_result (eval_each zones request facts ps budget) =
    map (says zones facts request) (filter (\<lambda>p. applicability (ev_definition p) request \<noteq> AppliesNot) ps)"
  using assms
proof (induction ps arbitrary: budget)
  case (Cons p ps)
  let ?r = "evaluatePolicy zones p request facts budget" and ?c = "pd_condition (ev_definition p)"
  have b: "budget \<noteq> 0" "nodes ?c \<le> budget" using Cons.prems nodes_pos[of ?c] by simp_all
  have "sum_list (map (\<lambda>p. nodes (pd_condition (ev_definition p))) ps) \<le> budget - nodes ?c" using Cons.prems by simp
  also have "\<dots> \<le> snd ?r" using evaluatePolicy_result[of p request zones facts budget] by (rule conjunct2)
  finally have "sum_list (map (\<lambda>p. nodes (pd_condition (ev_definition p))) ps) \<le> snd ?r" .
  note rest = Cons.IH[OF this]
  have step: "eval_each zones request facts (p # ps) budget =
      (case fst ?r of None \<Rightarrow> [] | Some x \<Rightarrow> [x]) @ eval_each zones request facts ps (snd ?r)"
    unfolding eval_each_Cons using b(1) by simp
  show ?case
  proof (cases "fst ?r")
    case None
    then show ?thesis unfolding step using evaluatePolicy_result[of p request zones facts budget] rest by simp
  next
    case (Some x)
    then show ?thesis unfolding step using evaluatePolicy_result[of p request zones facts budget] rest b(2) by simp
  qed
qed simp

lemma combine_VAllow: "combineVerdicts vs = VAllow \<longleftrightarrow> set vs \<subseteq> {VAllow}"
proof (cases "VDeny \<in> set vs \<or> VIndeterminate \<in> set vs")
  case True
  then show ?thesis by (auto simp: combineVerdicts_def)
next
  case False
  have "x = VAllow" if "x \<in> set vs" for x using False that by (cases x) auto
  then have "set vs \<subseteq> {VAllow}" by blast
  then show ?thesis using False by (simp add: combineVerdicts_def)
qed

lemma mset_sort_by: "mset (sort_by lt xs) = mset xs"
proof -
  have "mset (insert_by lt x ys) = add_mset x (mset ys)" for x ys by (induction ys) auto
  then show ?thesis by (induction xs) (simp_all add: sort_by_def)
qed

lemma combine_cong: "set vs \<union> {VAllow} = set ws \<union> {VAllow} \<Longrightarrow> combineVerdicts vs = combineVerdicts ws"
proof -
  assume a: "set vs \<union> {VAllow} = set ws \<union> {VAllow}"
  have "(v \<in> set vs) = (v \<in> set ws)" if "v \<noteq> VAllow" for v using a that by blast
  then show ?thesis by (simp add: combineVerdicts_def)
qed

section \<open>Sets of policies with enough budget\<close>

text \<open>
  When the budget covers the nodes of the conditions, the decision is deny if a policy says
  deny, otherwise indeterminate if one is undecided, otherwise allow: neither the order of the policies nor how
  many allow matters.
\<close>

lemma policy_set_exact:
  assumes "\<not> isProtectedPermission (rq_permission request)"
    and "sum_list (map (\<lambda>p. nodes (pd_condition (ev_definition p))) policies) \<le> steps"
  shows "se_decision (evaluatePolicySet zones policies request facts False steps) = combineVerdicts (map (says zones facts request) policies)"
proof -
  let ?ps = "sort_by (\<lambda>a b. ev_key a < ev_key b) policies" and ?n = "\<lambda>p. nodes (pd_condition (ev_definition p))"
  let ?on = "\<lambda>p. applicability (ev_definition p) request \<noteq> AppliesNot" and ?says = "says zones facts request"
  have "sum_list (map ?n ?ps) = sum_list (map ?n policies)"
    by (simp only: sum_mset_sum_list[symmetric] mset_map mset_sort_by)
  then have r: "map out_result (eval_each zones request facts ?ps steps) = map ?says (filter ?on ?ps)"
    using eval_each_enough[of ?ps steps] assms(2) by (simp only:)
  have "?says p = VAllow" if "\<not> ?on p" for p using that by (simp add: says_def)
  then have "insert VAllow (?says ` {p \<in> set policies. ?on p}) = insert VAllow (?says ` set policies)" by (auto simp: image_iff)
  then have "set (map ?says (filter ?on ?ps)) \<union> {VAllow} = set (map ?says policies) \<union> {VAllow}" by simp
  then have "combineVerdicts (map out_result (eval_each zones request facts ?ps steps)) = combineVerdicts (map ?says policies)"
    unfolding r by (rule combine_cong)
  then show ?thesis using assms(1) by (simp add: evaluatePolicySet_def Let_def)
qed

section \<open>Properties\<close>

text \<open>
  C18: policies fail closed.  Whatever the step budget, a set of policies is allowed only when none of them that
  applies to the request denies it or is undecided by the meaning of its condition.
\<close>

theorem policy_set_fails_closed:
  assumes "\<not> isProtectedPermission (rq_permission request)"
    and "se_decision (evaluatePolicySet zones policies request facts require steps) = VAllow" "p \<in> set policies"
  shows "says zones facts request p = VAllow"
proof (rule ccontr)
  assume n: "says zones facts request p \<noteq> VAllow"
  let ?os = "eval_each zones request facts (sort_by (\<lambda>a b. ev_key a < ev_key b) policies) steps"
  have "p \<in> set (sort_by (\<lambda>a b. ev_key a < ev_key b) policies)" using assms(3) by simp
  from eval_each_covers[OF this n, of steps] obtain x where x: "x \<in> set ?os" "out_result x \<noteq> VAllow" using n by auto
  moreover have "combineVerdicts (map out_result ?os) = VAllow"
    using assms(1,2) by (auto simp: evaluatePolicySet_def Let_def split: if_splits)
  ultimately show False unfolding combine_VAllow by auto
qed


definition demo_never :: evaluable_policy where
  "demo_never = \<lparr> ev_id = ''q1'', ev_key = ''never'', ev_revision = 1, ev_hash = [], ev_definition =
     \<lparr> pd_kind = KAccess, pd_effect = EffectDeny, pd_actions = [''a.*''], pd_resourceType = None, pd_attributes = None, pd_context = None,
       pd_timezone = None, pd_condition = Compare CEq (Ref ''subject.identity'') (Literal (AString ''p:v'')), pd_denyReason = None \<rparr> \<rparr>"

definition demo_subject :: evaluation_facts where
  "demo_subject = \<lparr> ef_subject = [(''subject.identity'', HString ''p:u'')], ef_resource = None, ef_features = [], ef_permissions = [],
     ef_now = None, ef_context = None, ef_session = None \<rparr>"

theorem policy_set_fails_closed_witness:
  "says (\<lambda>_. None) demo_subject \<lparr> rq_permission = ''a.b'', rq_resourceType = None \<rparr> demo_never = VAllow"
proof (rule policy_set_fails_closed[where policies = "[demo_never]" and require = True and steps = 5])
  show "\<not> isProtectedPermission (rq_permission \<lparr> rq_permission = ''a.b'', rq_resourceType = None \<rparr>)"
    by (simp add: isProtectedPermission_def)
  show "se_decision (evaluatePolicySet (\<lambda>_. None) [demo_never] \<lparr> rq_permission = ''a.b'', rq_resourceType = None \<rparr> demo_subject True 5) = VAllow"
    by code_simp
qed simp

end
