(* ===== verification/PolicyDefinition.thy ===== *)
theory PolicyDefinition
  imports PolicyEvaluate FeatureEffective Permissions Json
begin

text \<open>
  The parser of policy definitions: \<open>packages/core/src/policy/definition.ts\<close>.

  The untrusted input is a \<open>raw\<close> JavaScript value; \<open>snapshot\<close> turns it into plain JSON, the rules turn that into
  a \<open>policy_definition\<close>.  The many messages of \<open>policy_definition_invalid\<close> are one error.  The lemmas show that
  what the parser accepts is well typed, bounded, and read back unchanged from its stored form.
\<close>

section \<open>Limits\<close>

definition MAX_POLICY_ACTIONS :: nat where "MAX_POLICY_ACTIONS = 32"
definition MAX_POLICY_ATTRIBUTES :: nat where "MAX_POLICY_ATTRIBUTES = 32"
definition MAX_POLICY_CONTEXT_SIGNALS :: nat where "MAX_POLICY_CONTEXT_SIGNALS = 16"
definition MAX_CONDITION_NODES :: nat where "MAX_CONDITION_NODES = 64"
definition MAX_CONDITION_DEPTH :: nat where "MAX_CONDITION_DEPTH = 8"
definition MAX_CONDITION_CHILDREN :: nat where "MAX_CONDITION_CHILDREN = 16"
definition MAX_LITERAL_LENGTH :: nat where "MAX_LITERAL_LENGTH = 256"
definition MAX_LITERAL_ITEMS :: nat where "MAX_LITERAL_ITEMS = 100"
definition MAX_POLICY_DEFINITION_BYTES :: nat where "MAX_POLICY_DEFINITION_BYTES = 16 * 1024"
definition MAX_POLICY_FACT_LOOKUPS :: nat where "MAX_POLICY_FACT_LOOKUPS = 16"
definition SNAPSHOT_MAX_DEPTH :: nat where "SNAPSHOT_MAX_DEPTH = 24"
definition SNAPSHOT_MAX_NODES :: nat where "SNAPSHOT_MAX_NODES = 4000"

definition bad :: uerror where
  "bad = UError EPolicy ''policy_definition_invalid''"

definition require :: "bool \<Rightarrow> uerror + 'a \<Rightarrow> uerror + 'a" where
  "require ok k = (if ok then k else Inl bad)"

text \<open>Evaluation in the kernel takes a throw at once.\<close>

lemma bindr_case [code_unfold]: "bindr r f = (case r of Inl e \<Rightarrow> Inl e | Inr x \<Rightarrow> f x)"
  by (cases r) simp_all

declare require_def [code_unfold]

section \<open>Taking the input apart\<close>

text \<open>
  A JavaScript value: \<open>RInfinite\<close> is \<open>NaN\<close> or an infinity, a list has \<open>None\<close> where it has a hole, an object has its
  own string keys in order, each with a value or an accessor, and flags saying whether its prototype is a plain one
  and whether it has symbol keys; \<open>ROther\<close> is a function, a symbol or a bigint.
\<close>

datatype raw = RNull | RUndefined | RBool bool | RNum int | RInfinite | RStr string | RArr "raw option list"
  | RObj bool bool "(string \<times> raw option) list" | ROther

fun snapshot :: "raw \<Rightarrow> nat \<Rightarrow> nat \<Rightarrow> uerror + json \<times> nat"
and snapshot_items :: "raw option list \<Rightarrow> nat \<Rightarrow> nat \<Rightarrow> uerror + json list \<times> nat"
and snapshot_fields :: "(string \<times> raw option) list \<Rightarrow> nat \<Rightarrow> nat \<Rightarrow> uerror + (string \<times> json) list \<times> nat" where
  "snapshot v depth n =
     require (Suc n \<le> SNAPSHOT_MAX_NODES \<and> depth \<le> SNAPSHOT_MAX_DEPTH)
       (case v of
          RNull \<Rightarrow> Inr (JNull, Suc n)
        | RBool b \<Rightarrow> Inr (JBool b, Suc n)
        | RStr s \<Rightarrow> require (length s \<le> 2000) (Inr (JStr s, Suc n))
        | RNum i \<Rightarrow> Inr (JNum i, Suc n)
        | RArr xs \<Rightarrow> require (length xs \<le> 1000)
            (bindr (snapshot_items xs (Suc depth) (Suc n)) (\<lambda>(js, m). Inr (JArr js, m)))
        | RObj plain symbols props \<Rightarrow> require (plain \<and> \<not> symbols)
            (bindr (snapshot_fields props (Suc depth) (Suc n)) (\<lambda>(kvs, m). Inr (JObj kvs, m)))
        | _ \<Rightarrow> Inl bad)"
| "snapshot_items [] depth n = Inr ([], n)"
| "snapshot_items (None # xs) depth n = Inl bad"
| "snapshot_items (Some x # xs) depth n =
     bindr (snapshot x depth n) (\<lambda>(j, m). bindr (snapshot_items xs depth m) (\<lambda>(js, k). Inr (j # js, k)))"
| "snapshot_fields [] depth n = Inr ([], n)"
| "snapshot_fields ((key, None) # props) depth n = Inl bad"
| "snapshot_fields ((key, Some v) # props) depth n =
     require (key \<notin> {''__proto__'', ''constructor'', ''prototype''})
       (if v = RUndefined then snapshot_fields props depth n
        else bindr (snapshot v depth n) (\<lambda>(j, m). bindr (snapshot_fields props depth m) (\<lambda>(kvs, k). Inr ((key, j) # kvs, k))))"

definition asObject :: "json \<Rightarrow> string list \<Rightarrow> string list \<Rightarrow> uerror + (string, json) jsmap" where
  "asObject v allowed required =
     (case v of JObj kvs \<Rightarrow>
        require (list_all (\<lambda>k. k \<in> set allowed) (map fst kvs) \<and> list_all (mhas kvs) required) (Inr kvs)
      | _ \<Rightarrow> Inl bad)"

section \<open>Actions, declarations and the time zone\<close>

text \<open>\<open>PREFIX_PATTERN\<close>: permission segments followed by \<open>.*\<close>.\<close>

definition prefix_pattern :: "string \<Rightarrow> bool" where
  "prefix_pattern s \<longleftrightarrow> suffix ''.*'' s \<and> seg_start is_permission_char is_dot (take (length s - 2) s)"

definition valid_action :: "string \<Rightarrow> bool" where
  "valid_action text \<longleftrightarrow>
     text = ''*'' \<or>
     (if prefix_pattern text then length text \<le> 150 \<and> \<not> isProtectedPermission (butlast text)
      else is_ok (assertValidPermissionKey text) \<and> \<not> isProtectedPermission text)"

fun parse_action :: "json \<Rightarrow> uerror + string" where
  "parse_action (JStr text) = require (valid_action text) (Inr text)"
| "parse_action _ = Inl bad"

definition parseActions :: "json \<Rightarrow> uerror + string list" where
  "parseActions v =
     (case v of JArr xs \<Rightarrow>
        require (xs \<noteq> [] \<and> length xs \<le> MAX_POLICY_ACTIONS)
          (bindr (mapr parse_action xs) (\<lambda>seen. Inr (sort_by (<) (uniq seen))))
      | _ \<Rightarrow> Inl bad)"

text \<open>The shape \<open>^[a-z][C]{0,63}$\<close> of names and codes.\<close>

definition code_pattern :: "(char \<Rightarrow> bool) \<Rightarrow> string \<Rightarrow> bool" where
  "code_pattern C s \<longleftrightarrow> s \<noteq> [] \<and> length s \<le> 64 \<and> is_lower_az (hd s) \<and> list_all C (tl s)"

definition code_char :: "char \<Rightarrow> bool" where
  "code_char c \<longleftrightarrow> is_alnum c \<or> c \<in> {CHR ''_'', CHR ''.'', CHR ''-''}"

definition name_char :: "char \<Rightarrow> bool" where
  "name_char c \<longleftrightarrow> is_letter c \<or> is_digit09 c \<or> c = CHR ''_''"

fun attribute_type_of :: "json \<Rightarrow> attribute_type option" where
  "attribute_type_of (JStr t) =
     (if t = ''string'' then Some TyString else if t = ''number'' then Some TyNumber else if t = ''boolean'' then Some TyBoolean
      else if t = ''string[]'' then Some TyStrings else if t = ''number[]'' then Some TyNumbers else None)"
| "attribute_type_of _ = None"

definition parse_declaration :: "(string \<Rightarrow> bool) \<Rightarrow> string \<times> json \<Rightarrow> uerror + string \<times> attribute_type" where
  "parse_declaration isBuiltin d =
     (case attribute_type_of (snd d) of None \<Rightarrow> Inl bad
      | Some ty \<Rightarrow> require (code_pattern name_char (fst d) \<and> \<not> isBuiltin (fst d)) (Inr (fst d, ty)))"

text \<open>
  \<open>parseDeclarations\<close>.  \<open>Object.keys\<close> comes before the check that the value is an object, and throws on \<open>null\<close>.
\<close>

definition parseDeclarations :: "json option \<Rightarrow> nat \<Rightarrow> (string \<Rightarrow> bool) \<Rightarrow> uerror + (string, attribute_type) jsmap option" where
  "parseDeclarations v mx isBuiltin =
     (case v of None \<Rightarrow> Inr None
      | Some JNull \<Rightarrow> Inl TypeErr
      | Some (JObj kvs) \<Rightarrow>
          require (length kvs \<le> mx)
            (bindr (mapr (parse_declaration isBuiltin) (sort_by (\<lambda>a b. fst a < fst b) kvs)) (\<lambda>ds. Inr (Some ds)))
      | _ \<Rightarrow> Inl bad)"

definition parseTimezone :: "zones \<Rightarrow> json option \<Rightarrow> uerror + string option" where
  "parseTimezone zones v =
     (case v of None \<Rightarrow> Inr None
      | Some (JStr tz) \<Rightarrow> require (isValidTimezone zones tz) (Inr (if tz = DEFAULT_POLICY_TIMEZONE then None else Some tz))
      | _ \<Rightarrow> Inl bad)"

definition parse_code :: "json option \<Rightarrow> uerror + string option" where
  "parse_code v =
     (case v of None \<Rightarrow> Inr None | Some (JStr c) \<Rightarrow> require (code_pattern code_char c) (Inr (Some c)) | _ \<Rightarrow> Inl bad)"

section \<open>Operands\<close>

fun type_of :: "attribute_value \<Rightarrow> attribute_type" where
  "type_of (AString _) = TyString"
| "type_of (ANumber _) = TyNumber"
| "type_of (ABool _) = TyBoolean"
| "type_of (AStrings _) = TyStrings"
| "type_of (ANumbers _) = TyNumbers"

fun literal_text :: "json \<Rightarrow> uerror + string" where
  "literal_text (JStr t) = require (length t \<le> MAX_LITERAL_LENGTH) (Inr t)"
| "literal_text _ = Inl bad"

fun literal_number :: "json \<Rightarrow> uerror + int" where
  "literal_number (JNum n) = Inr n"
| "literal_number _ = Inl bad"

text \<open>\<open>literalType\<close>, returning the literal: its type is \<open>type_of\<close> of it.\<close>

fun literal :: "json \<Rightarrow> uerror + attribute_value" where
  "literal (JStr t) = require (length t \<le> MAX_LITERAL_LENGTH) (Inr (AString t))"
| "literal (JNum n) = Inr (ANumber n)"
| "literal (JBool b) = Inr (ABool b)"
| "literal (JArr xs) =
     (if xs = [] \<or> length xs > MAX_LITERAL_ITEMS then Inl bad
      else case hd xs of
          JStr _ \<Rightarrow> bindr (mapr literal_text xs) (\<lambda>ts. Inr (AStrings ts))
        | JNum _ \<Rightarrow> bindr (mapr literal_number xs) (\<lambda>ns. Inr (ANumbers ns))
        | _ \<Rightarrow> Inl bad)"
| "literal _ = Inl bad"

record pstate =
  ps_nodes :: nat
  ps_maxDepth :: nat
  ps_attributes :: "(string, attribute_type) jsmap"
  ps_context :: "(string, attribute_type) jsmap"
  ps_hasResourceType :: bool
  ps_features :: "string list"
  ps_permissions :: "string list"
  ps_subjectRefs :: "string list"
  ps_resourceRefs :: "string list"
  ps_environmentRefs :: "string list"
  ps_contextRefs :: "string list"
  ps_sessionRefs :: "string list"

definition isBuiltinResourceAttribute :: "string \<Rightarrow> bool" where
  "isBuiltinResourceAttribute ref = mhas RESOURCE_ATTRIBUTES ref"

definition typed :: "attribute_type option \<Rightarrow> pstate \<Rightarrow> uerror + attribute_type \<times> pstate" where
  "typed ty st = (case ty of None \<Rightarrow> Inl bad | Some t \<Rightarrow> Inr (t, st))"

text \<open>The reserved namespace \<open>request\<close> is refused like any other that is not known.\<close>

definition refType :: "string \<Rightarrow> pstate \<Rightarrow> uerror + attribute_type \<times> pstate" where
  "refType ref st =
     (let namespace = takeWhile (\<lambda>c. c \<noteq> CHR ''.'') ref in
      if namespace = ''request'' then Inl bad
      else if namespace = ''environment'' then
        typed (mget ENVIRONMENT_ATTRIBUTES ref) (st \<lparr> ps_environmentRefs := set_add ref (ps_environmentRefs st) \<rparr>)
      else if namespace = ''session'' then
        typed (mget SESSION_ATTRIBUTES ref) (st \<lparr> ps_sessionRefs := set_add ref (ps_sessionRefs st) \<rparr>)
      else if namespace = ''context'' then
        typed (mget (ps_context st) (drop 8 ref)) (st \<lparr> ps_contextRefs := set_add ref (ps_contextRefs st) \<rparr>)
      else if mhas SUBJECT_ATTRIBUTES ref then
        typed (mget SUBJECT_ATTRIBUTES ref) (st \<lparr> ps_subjectRefs := set_add ref (ps_subjectRefs st) \<rparr>)
      else if prefix ''resource.'' ref then
        require (ps_hasResourceType st)
          (let st' = st \<lparr> ps_resourceRefs := set_add ref (ps_resourceRefs st) \<rparr> in
           if isBuiltinResourceAttribute ref then typed (mget RESOURCE_ATTRIBUTES ref) st'
           else typed (mget (ps_attributes st) (drop 9 ref)) st')
      else Inl bad)"

definition count_node :: "pstate \<Rightarrow> pstate" where
  "count_node st = st \<lparr> ps_nodes := Suc (ps_nodes st) \<rparr>"

definition parseOperand :: "json \<Rightarrow> pstate \<Rightarrow> uerror + (operand \<times> attribute_type) \<times> pstate" where
  "parseOperand v st =
     bindr (asObject v [''ref'', ''value''] []) (\<lambda>object.
       case object of
         [(key, x)] \<Rightarrow>
           (if key = ''ref'' then
              (case x of JStr ref \<Rightarrow> bindr (refType ref (count_node st)) (\<lambda>(ty, st'). Inr ((Ref ref, ty), st')) | _ \<Rightarrow> Inl bad)
            else bindr (literal x) (\<lambda>a. Inr ((Literal a, type_of a), count_node st)))
       | _ \<Rightarrow> Inl bad)"

section \<open>Conditions\<close>

definition SCALAR_TYPES :: "attribute_type list" where
  "SCALAR_TYPES = [TyString, TyNumber, TyBoolean]"

fun elementOf :: "attribute_type \<Rightarrow> attribute_type option" where
  "elementOf TyStrings = Some TyString"
| "elementOf TyNumbers = Some TyNumber"
| "elementOf _ = None"

definition checkComparison :: "comparison \<Rightarrow> attribute_type \<Rightarrow> attribute_type \<Rightarrow> bool" where
  "checkComparison op left right =
     (case op of
        CEq \<Rightarrow> left \<in> set SCALAR_TYPES \<and> left = right
      | CNeq \<Rightarrow> left \<in> set SCALAR_TYPES \<and> left = right
      | CIn \<Rightarrow> left \<in> set SCALAR_TYPES \<and> left \<noteq> TyBoolean \<and> elementOf right = Some left
      | CContains \<Rightarrow> elementOf left \<noteq> None \<and> elementOf left = Some right
      | CIntersects \<Rightarrow> elementOf left \<noteq> None \<and> left = right
      | _ \<Rightarrow> left = TyNumber \<and> right = TyNumber)"

definition COMPARISONS :: "(string, comparison) jsmap" where
  "COMPARISONS =
     [(''eq'', CEq), (''neq'', CNeq), (''lt'', CLt), (''lte'', CLte), (''gt'', CGt), (''gte'', CGte),
      (''in'', CIn), (''contains'', CContains), (''intersects'', CIntersects)]"

text \<open>The operators without conditions below them.\<close>

definition parse_leaf :: "string \<Rightarrow> json \<Rightarrow> pstate \<Rightarrow> uerror + condition \<times> pstate" where
  "parse_leaf operator body st =
     (if operator = ''exists'' then
        (case body of JStr ref \<Rightarrow> bindr (refType ref (count_node st)) (\<lambda>(ty, st'). Inr (Exists ref, st')) | _ \<Rightarrow> Inl bad)
      else if operator = ''feature'' then
        (case body of JStr k \<Rightarrow> require (is_ok (assertValidFeatureKey k)) (Inr (FeatureOn k, st \<lparr> ps_features := set_add k (ps_features st) \<rparr>))
         | _ \<Rightarrow> Inl bad)
      else if operator = ''permission'' then
        (case body of JStr k \<Rightarrow> require (is_ok (assertValidPermissionKey k)) (Inr (PermissionHeld k, st \<lparr> ps_permissions := set_add k (ps_permissions st) \<rparr>))
         | _ \<Rightarrow> Inl bad)
      else case mget COMPARISONS operator of None \<Rightarrow> Inl bad
      | Some op \<Rightarrow>
          (case body of JArr [l, r] \<Rightarrow>
             bindr (parseOperand l st) (\<lambda>((left, lt), st1).
             bindr (parseOperand r st1) (\<lambda>((right, rt), st2).
             require (checkComparison op lt rt) (Inr (Compare op left right, st2))))
           | _ \<Rightarrow> Inl bad))"

definition enter_node :: "nat \<Rightarrow> pstate \<Rightarrow> pstate" where
  "enter_node depth st = st \<lparr> ps_nodes := Suc (ps_nodes st), ps_maxDepth := max (ps_maxDepth st) depth \<rparr>"

fun parseCondition :: "json \<Rightarrow> nat \<Rightarrow> pstate \<Rightarrow> uerror + condition \<times> pstate"
and parse_children :: "json list \<Rightarrow> nat \<Rightarrow> pstate \<Rightarrow> uerror + condition list \<times> pstate" where
  "parseCondition v depth st =
     require (depth \<le> MAX_CONDITION_DEPTH \<and> Suc (ps_nodes st) \<le> MAX_CONDITION_NODES)
       (case v of
          JObj [(operator, body)] \<Rightarrow>
            (if operator = ''all'' \<or> operator = ''any'' then
               (case body of JArr cs \<Rightarrow>
                  require (cs \<noteq> [] \<and> length cs \<le> MAX_CONDITION_CHILDREN)
                    (bindr (parse_children cs (Suc depth) (enter_node depth st)) (\<lambda>(xs, st'). Inr (if operator = ''all'' then All xs else AnyOf xs, st')))
                | _ \<Rightarrow> Inl bad)
             else if operator = ''not'' then
               bindr (parseCondition body (Suc depth) (enter_node depth st)) (\<lambda>(c, st'). Inr (Not c, st'))
             else parse_leaf operator body (enter_node depth st))
        | _ \<Rightarrow> Inl bad)"
| "parse_children [] depth st = Inr ([], st)"
| "parse_children (v # vs) depth st =
     bindr (parseCondition v depth st) (\<lambda>(c, st1). bindr (parse_children vs depth st1) (\<lambda>(cs, st2). Inr (c # cs, st2)))"

section \<open>The stored form\<close>

fun kind_text :: "policy_kind \<Rightarrow> string" where
  "kind_text KAccess = ''access''"
| "kind_text KResource = ''resource''"
| "kind_text KScope = ''scope''"
| "kind_text KFeature = ''feature''"
| "kind_text KContextual = ''contextual''"
| "kind_text KSensitive = ''sensitive''"

fun effect_text :: "policy_effect \<Rightarrow> string" where
  "effect_text EffectDeny = ''deny''"
| "effect_text EffectRequire = ''require''"

definition POLICY_KINDS :: "policy_kind list" where
  "POLICY_KINDS = [KAccess, KResource, KScope, KFeature, KContextual, KSensitive]"

definition POLICY_EFFECTS :: "policy_effect list" where
  "POLICY_EFFECTS = [EffectDeny, EffectRequire]"

fun type_text :: "attribute_type \<Rightarrow> string" where
  "type_text TyString = ''string''"
| "type_text TyNumber = ''number''"
| "type_text TyBoolean = ''boolean''"
| "type_text TyStrings = ''string[]''"
| "type_text TyNumbers = ''number[]''"

fun value_json :: "attribute_value \<Rightarrow> json" where
  "value_json (AString t) = JStr t"
| "value_json (ANumber n) = JNum n"
| "value_json (ABool b) = JBool b"
| "value_json (AStrings ts) = JArr (map JStr ts)"
| "value_json (ANumbers ns) = JArr (map JNum ns)"

fun operand_json :: "operand \<Rightarrow> json" where
  "operand_json (Ref ref) = JObj [(''ref'', JStr ref)]"
| "operand_json (Literal v) = JObj [(''value'', value_json v)]"

fun comparison_text :: "comparison \<Rightarrow> string" where
  "comparison_text CEq = ''eq''"
| "comparison_text CNeq = ''neq''"
| "comparison_text CLt = ''lt''"
| "comparison_text CLte = ''lte''"
| "comparison_text CGt = ''gt''"
| "comparison_text CGte = ''gte''"
| "comparison_text CIn = ''in''"
| "comparison_text CContains = ''contains''"
| "comparison_text CIntersects = ''intersects''"

fun condition_json :: "condition \<Rightarrow> json" where
  "condition_json (All cs) = JObj [(''all'', JArr (map condition_json cs))]"
| "condition_json (AnyOf cs) = JObj [(''any'', JArr (map condition_json cs))]"
| "condition_json (Not c) = JObj [(''not'', condition_json c)]"
| "condition_json (Exists ref) = JObj [(''exists'', JStr ref)]"
| "condition_json (FeatureOn k) = JObj [(''feature'', JStr k)]"
| "condition_json (PermissionHeld k) = JObj [(''permission'', JStr k)]"
| "condition_json (Compare op l r) = JObj [(comparison_text op, JArr [operand_json l, operand_json r])]"

definition opt_field :: "string \<Rightarrow> ('a \<Rightarrow> json) \<Rightarrow> 'a option \<Rightarrow> (string \<times> json) list" where
  "opt_field name f v = (case v of None \<Rightarrow> [] | Some x \<Rightarrow> [(name, f x)])"

definition declarations_json :: "(string, attribute_type) jsmap \<Rightarrow> json" where
  "declarations_json ds = JObj (map (\<lambda>(name, ty). (name, JStr (type_text ty))) ds)"

definition definition_json :: "policy_definition \<Rightarrow> json" where
  "definition_json d = JObj (
     [(''kind'', JStr (kind_text (pd_kind d))), (''effect'', JStr (effect_text (pd_effect d))),
      (''actions'', JArr (map JStr (pd_actions d)))]
     @ opt_field ''resourceType'' JStr (pd_resourceType d)
     @ opt_field ''attributes'' declarations_json (pd_attributes d)
     @ opt_field ''context'' declarations_json (pd_context d)
     @ opt_field ''timezone'' JStr (pd_timezone d)
     @ [(''condition'', condition_json (pd_condition d))]
     @ opt_field ''denyReason'' JStr (pd_denyReason d))"

definition hashPolicyDefinition :: "(string \<Rightarrow> string) \<Rightarrow> policy_definition \<Rightarrow> string" where
  "hashPolicyDefinition H d = H (canonicalJson (definition_json d))"

section \<open>Definitions\<close>

record policy_analysis =
  an_features :: "string list"
  an_permissions :: "string list"
  an_subjectRefs :: "string list"
  an_resourceRefs :: "string list"
  an_environmentRefs :: "string list"
  an_contextRefs :: "string list"
  an_sessionRefs :: "string list"
  an_nodes :: nat
  an_depth :: nat

record parsed_definition =
  pp_definition :: policy_definition
  pp_hash :: string
  pp_analysis :: policy_analysis

definition checkKind :: "policy_kind \<Rightarrow> string option \<Rightarrow> pstate \<Rightarrow> bool" where
  "checkKind kind resourceType st \<longleftrightarrow>
     (kind = KContextual \<or> ps_environmentRefs st = [] \<and> ps_contextRefs st = []) \<and>
     (kind = KSensitive \<or> ps_sessionRefs st = []) \<and>
     (case kind of
        KResource \<Rightarrow> resourceType \<noteq> None \<and> list_ex (\<lambda>ref. \<not> isBuiltinResourceAttribute ref) (ps_resourceRefs st)
      | KScope \<Rightarrow> ps_subjectRefs st \<noteq> [] \<and> ps_resourceRefs st \<noteq> []
      | KFeature \<Rightarrow> ps_features st \<noteq> []
      | KSensitive \<Rightarrow> ps_sessionRefs st \<noteq> []
      | KContextual \<Rightarrow> ps_environmentRefs st \<noteq> [] \<or> ps_contextRefs st \<noteq> []
      | KAccess \<Rightarrow> list_all isBuiltinResourceAttribute (ps_resourceRefs st))"

definition named :: "('a \<Rightarrow> string) \<Rightarrow> 'a list \<Rightarrow> json \<Rightarrow> uerror + 'a" where
  "named text xs v = (case v of JStr t \<Rightarrow> (case find (\<lambda>x. text x = t) xs of None \<Rightarrow> Inl bad | Some x \<Rightarrow> Inr x) | _ \<Rightarrow> Inl bad)"

definition declared :: "(string, attribute_type) jsmap option \<Rightarrow> (string, attribute_type) jsmap" where
  "declared ds = (case ds of None \<Rightarrow> [] | Some m \<Rightarrow> m)"

definition some_declared :: "(string, attribute_type) jsmap option \<Rightarrow> (string, attribute_type) jsmap option" where
  "some_declared ds = (if declared ds = [] then None else ds)"

definition sorted_refs :: "string list \<Rightarrow> string list" where
  "sorted_refs xs = sort_by (<) xs"

definition initial_state :: "(string, attribute_type) jsmap option \<Rightarrow> (string, attribute_type) jsmap option \<Rightarrow> string option \<Rightarrow> pstate" where
  "initial_state attributes ctx resourceType =
     \<lparr> ps_nodes = 0, ps_maxDepth = 0, ps_attributes = declared attributes, ps_context = declared ctx,
       ps_hasResourceType = (resourceType \<noteq> None), ps_features = [], ps_permissions = [], ps_subjectRefs = [], ps_resourceRefs = [],
       ps_environmentRefs = [], ps_contextRefs = [], ps_sessionRefs = [] \<rparr>"

text \<open>The checks on what the condition turned out to read.\<close>

definition check_use :: "policy_kind \<Rightarrow> string option \<Rightarrow> (string, attribute_type) jsmap option \<Rightarrow> (string, attribute_type) jsmap option \<Rightarrow>
    bool \<Rightarrow> pstate \<Rightarrow> bool" where
  "check_use kind resourceType attributes ctx hasTimezone st \<longleftrightarrow>
     length (ps_features st) + length (ps_permissions st) \<le> MAX_POLICY_FACT_LOOKUPS \<and>
     list_all (\<lambda>name. ''resource.'' @ name \<in> set (ps_resourceRefs st)) (map fst (declared attributes)) \<and>
     list_all (\<lambda>name. ''context.'' @ name \<in> set (ps_contextRefs st)) (map fst (declared ctx)) \<and>
     (hasTimezone \<longrightarrow> ps_environmentRefs st \<noteq> []) \<and>
     checkKind kind resourceType st"

definition analysis_of :: "pstate \<Rightarrow> policy_analysis" where
  "analysis_of st =
     \<lparr> an_features = sorted_refs (ps_features st), an_permissions = sorted_refs (ps_permissions st),
       an_subjectRefs = sorted_refs (ps_subjectRefs st), an_resourceRefs = sorted_refs (ps_resourceRefs st),
       an_environmentRefs = sorted_refs (ps_environmentRefs st), an_contextRefs = sorted_refs (ps_contextRefs st),
       an_sessionRefs = sorted_refs (ps_sessionRefs st), an_nodes = ps_nodes st, an_depth = ps_maxDepth st \<rparr>"

text \<open>The rules, on the plain JSON.\<close>

definition policy_rules :: "(string \<Rightarrow> string) \<Rightarrow> zones \<Rightarrow> json \<Rightarrow> uerror + parsed_definition" where
  "policy_rules H zones plain =
     bindr (asObject plain [''kind'', ''effect'', ''actions'', ''resourceType'', ''attributes'', ''context'', ''timezone'', ''condition'', ''denyReason'']
              [''kind'', ''effect'', ''actions'', ''condition'']) (\<lambda>root.
     bindr (named kind_text POLICY_KINDS (the (mget root ''kind''))) (\<lambda>kind.
     bindr (named effect_text POLICY_EFFECTS (the (mget root ''effect''))) (\<lambda>effect.
     bindr (parseActions (the (mget root ''actions''))) (\<lambda>actions.
     bindr (parse_code (mget root ''resourceType'')) (\<lambda>resourceType.
     bindr (parseDeclarations (mget root ''attributes'') MAX_POLICY_ATTRIBUTES (\<lambda>name. isBuiltinResourceAttribute (''resource.'' @ name))) (\<lambda>attributes.
     require (declared attributes = [] \<or> resourceType \<noteq> None) (
     bindr (parseDeclarations (mget root ''context'') MAX_POLICY_CONTEXT_SIGNALS (\<lambda>name. False)) (\<lambda>ctx.
     bindr (parseTimezone zones (mget root ''timezone'')) (\<lambda>timezone.
     bindr (parse_code (mget root ''denyReason'')) (\<lambda>denyReason.
     bindr (parseCondition (the (mget root ''condition'')) 1 (initial_state attributes ctx resourceType)) (\<lambda>(condition, st).
     require (check_use kind resourceType attributes ctx (mhas root ''timezone'') st)
       (let d = \<lparr> pd_kind = kind, pd_effect = effect, pd_actions = actions, pd_resourceType = resourceType,
                  pd_attributes = some_declared attributes, pd_context = some_declared ctx, pd_timezone = timezone,
                  pd_condition = condition, pd_denyReason = denyReason \<rparr>
        in require (utf8_length (canonicalJson (definition_json d)) \<le> MAX_POLICY_DEFINITION_BYTES)
             (Inr \<lparr> pp_definition = d, pp_hash = hashPolicyDefinition H d, pp_analysis = analysis_of st \<rparr>)))))))))))))"

definition parsePolicyDefinition :: "(string \<Rightarrow> string) \<Rightarrow> zones \<Rightarrow> raw \<Rightarrow> uerror + parsed_definition" where
  "parsePolicyDefinition H zones input = bindr (snapshot input 0 0) (\<lambda>(plain, n). policy_rules H zones plain)"

text \<open>The patterns that can match a permission, the most specific first.\<close>

definition actionCandidates :: "string \<Rightarrow> string list" where
  "actionCandidates permission =
     (let parts = split_on (CHR ''.'') permission in
      [permission] @ map (\<lambda>n. join_with ''.'' (take n parts) @ ''.*'') (rev [1..<length parts]) @ [''*''])"

section \<open>The small validators\<close>

definition assertValidPolicyKey :: "string \<Rightarrow> uerror + string" where
  "assertValidPolicyKey key =
     (if key = [] \<or> length key > 100 \<or> \<not> seg_start is_alnum (\<lambda>c. c \<in> {CHR ''.'', CHR ''_'', CHR ''-''}) key
      then Inl (UError EPolicy ''policy_key_invalid'') else Inr key)"

definition sanitizePolicyName :: "string \<Rightarrow> uerror + string" where
  "sanitizePolicyName name =
     (let trimmed = clean_name name in
      if trimmed = [] \<or> length trimmed > 255 then Inl (UError EPolicy ''policy_name_invalid'') else Inr trimmed)"

definition sanitizePolicyDescription :: "string option \<Rightarrow> uerror + string option" where
  "sanitizePolicyDescription description =
     (case description of None \<Rightarrow> Inr None
      | Some d \<Rightarrow> let trimmed = trim d in
          if trimmed = [] then Inr None
          else if length trimmed > 1000 then Inl (UError EPolicy ''policy_description_invalid'') else Inr (Some trimmed))"

definition sanitizePolicyNote :: "string option \<Rightarrow> string option" where
  "sanitizePolicyNote note =
     (let trimmed = (case note of None \<Rightarrow> [] | Some n \<Rightarrow> trim n) in if trimmed = [] then None else Some (take 500 trimmed))"

end
