(* ===== verification/PolicyParsed.thy ===== *)
theory PolicyParsed
  imports PolicyDefinition
begin

text \<open>
  What the parser of policy definitions guarantees: the condition it returns is the one it read, its comparisons
  are well typed, its size is bounded, a definition is read back unchanged from its stored form, and nothing but
  \<open>policy_definition_invalid\<close> is thrown, except on \<open>null\<close> declarations.
\<close>

section \<open>Reading a condition\<close>

lemma require_Inr [simp]: "require ok k = Inr x \<longleftrightarrow> ok \<and> k = Inr x"
  by (simp add: require_def)

lemma require_Inl: "require ok k = Inl e \<longleftrightarrow> (if ok then k = Inl e else e = bad)"
  by (auto simp: require_def)

lemma is_bad [simp]: "bad \<noteq> TypeErr"
  by (simp add: bad_def)

lemma type_json [simp]: "attribute_type_of (JStr (type_text ty)) = Some ty"
  by (cases ty) simp_all

lemma type_text_of: "attribute_type_of v = Some ty \<Longrightarrow> v = JStr (type_text ty)"
  by (cases v) (auto split: if_splits)

lemma comparison_json [simp]: "mget COMPARISONS (comparison_text op) = Some op"
  by (cases op) (simp_all add: COMPARISONS_def)

lemma comparison_text_of: "mget COMPARISONS t = Some op \<Longrightarrow> t = comparison_text op"
  by (auto simp: COMPARISONS_def split: if_splits)

lemma literal_texts: "mapr literal_text xs = Inr ts \<Longrightarrow> xs = map JStr ts"
proof (induction xs arbitrary: ts)
  case (Cons x xs)
  then show ?case by (cases x) auto
qed simp

lemma literal_numbers: "mapr literal_number xs = Inr ns \<Longrightarrow> xs = map JNum ns"
proof (induction xs arbitrary: ns)
  case (Cons x xs)
  then show ?case by (cases x) auto
qed simp

lemma literal_json: "literal v = Inr a \<Longrightarrow> value_json a = v"
  by (cases v) (auto dest!: literal_texts literal_numbers split: if_splits json.splits)

lemma asObject_Inr: "asObject v allowed required = Inr kvs \<longleftrightarrow>
    v = JObj kvs \<and> list_all (\<lambda>k. k \<in> set allowed) (map fst kvs) \<and> list_all (mhas kvs) required"
  by (cases v) (auto simp: asObject_def)

text \<open>An operand is given back as it was; the state only gains a node and a reference.\<close>

definition same_declarations :: "pstate \<Rightarrow> pstate \<Rightarrow> bool" where
  "same_declarations st st' \<longleftrightarrow> ps_attributes st' = ps_attributes st \<and> ps_context st' = ps_context st \<and>
     ps_hasResourceType st' = ps_hasResourceType st"

lemma same_declarations_refl [simp]: "same_declarations st st"
  by (simp add: same_declarations_def)

lemma same_declarations_trans: "same_declarations a b \<Longrightarrow> same_declarations b c \<Longrightarrow> same_declarations a c"
  by (simp add: same_declarations_def)

lemma typed_Inr [simp]: "typed ty st = Inr (t, st') \<longleftrightarrow> ty = Some t \<and> st' = st"
  by (auto simp: typed_def split: option.split)

lemma refType_state:
  assumes "refType ref st = Inr (ty, st')"
  shows "ps_nodes st' = ps_nodes st \<and> ps_maxDepth st' = ps_maxDepth st \<and> same_declarations st st'"
  using assms by (auto simp: refType_def same_declarations_def Let_def split: if_splits)

lemma parseOperand_cases:
  assumes "parseOperand v st = Inr ((x, ty), st')"
  obtains (ref) ref where "v = JObj [(''ref'', JStr ref)]" "x = Ref ref" "refType ref (count_node st) = Inr (ty, st')"
  | (lit) j a where "v = JObj [(''value'', j)]" "literal j = Inr a" "x = Literal a" "ty = type_of a" "st' = count_node st"
proof -
  obtain object where o: "v = JObj object" "list_all (\<lambda>k. k \<in> {''ref'', ''value''}) (map fst object)"
    and r: "(case object of [(key, x)] \<Rightarrow>
           (if key = ''ref'' then
              (case x of JStr ref \<Rightarrow> bindr (refType ref (count_node st)) (\<lambda>(ty, st'). Inr ((Ref ref, ty), st')) | _ \<Rightarrow> Inl bad)
            else bindr (literal x) (\<lambda>a. Inr ((Literal a, type_of a), count_node st)))
       | _ \<Rightarrow> Inl bad) = Inr ((x, ty), st')"
    using assms by (auto simp: parseOperand_def asObject_Inr)
  obtain key y where kv: "object = [(key, y)]" using r by (auto split: list.splits)
  show thesis
  proof (cases "key = ''ref''")
    case True
    then obtain ref where y: "y = JStr ref" using r kv by (auto split: json.splits)
    then show thesis using ref[of ref] r kv o(1) True by auto
  next
    case False
    then show thesis using lit[of y] r kv o by auto
  qed
qed

lemma parseOperand_state:
  assumes "parseOperand v st = Inr ((x, ty), st')"
  shows "operand_json x = v \<and> ps_nodes st' = Suc (ps_nodes st) \<and> ps_maxDepth st' = ps_maxDepth st \<and> same_declarations st st'"
  using assms
proof (cases rule: parseOperand_cases)
  case (ref r)
  then show ?thesis using refType_state[OF ref(3)] by (simp add: count_node_def same_declarations_def)
next
  case (lit j a)
  then show ?thesis by (simp add: literal_json count_node_def same_declarations_def)
qed

lemma parse_leaf_cases:
  assumes "parse_leaf operator body st = Inr (c, st')"
  obtains (exists) ref ty where "operator = ''exists''" "body = JStr ref" "c = Exists ref" "refType ref (count_node st) = Inr (ty, st')"
  | (feature) k where "operator = ''feature''" "body = JStr k" "c = FeatureOn k" "st' = st \<lparr> ps_features := set_add k (ps_features st) \<rparr>"
  | (permission) k where "operator = ''permission''" "body = JStr k" "c = PermissionHeld k" "st' = st \<lparr> ps_permissions := set_add k (ps_permissions st) \<rparr>"
  | (compare) op l r left lt st1 right rt where "operator = comparison_text op" "body = JArr [l, r]" "c = Compare op left right"
      "parseOperand l st = Inr ((left, lt), st1)" "parseOperand r st1 = Inr ((right, rt), st')" "checkComparison op lt rt"
proof -
  consider "operator = ''exists''" | "operator = ''feature''" | "operator = ''permission''"
    | op where "mget COMPARISONS operator = Some op" "operator \<noteq> ''exists''" "operator \<noteq> ''feature''" "operator \<noteq> ''permission''"
    using assms unfolding parse_leaf_def by (cases "mget COMPARISONS operator") (auto split: if_splits)
  then show thesis
  proof cases
    case 1
    then show thesis using assms exists by (auto simp: parse_leaf_def split: json.splits)
  next
    case 2
    then show thesis using assms feature by (auto simp: parse_leaf_def split: json.splits)
  next
    case 3
    then show thesis using assms permission by (auto simp: parse_leaf_def split: json.splits)
  next
    case (4 op)
    then have r: "(case body of JArr [l, r] \<Rightarrow>
             bindr (parseOperand l st) (\<lambda>((left, lt), st1).
             bindr (parseOperand r st1) (\<lambda>((right, rt), st2).
             require (checkComparison op lt rt) (Inr (Compare op left right, st2))))
           | _ \<Rightarrow> Inl bad) = Inr (c, st')"
      using assms by (simp add: parse_leaf_def)
    obtain l r where b: "body = JArr [l, r]" using r by (auto split: json.splits list.splits)
    show thesis using r b compare[OF comparison_text_of[OF 4(1)] b] by auto
  qed
qed

fun height :: "condition \<Rightarrow> nat" where
  "height (All cs) = Suc (maxl (map height cs))"
| "height (AnyOf cs) = Suc (maxl (map height cs))"
| "height (Not c) = Suc (height c)"
| "height _ = 1"

lemma parse_leaf_state:
  assumes "parse_leaf operator body st = Inr (c, st')"
  shows "condition_json c = JObj [(operator, body)] \<and> nodes c = 1 \<and> height c = 1 \<and>
    ps_nodes st \<le> ps_nodes st' \<and> ps_nodes st' \<le> ps_nodes st + 2 \<and> ps_maxDepth st' = ps_maxDepth st \<and> same_declarations st st'"
  using assms
proof (cases rule: parse_leaf_cases)
  case exists
  then show ?thesis using refType_state[OF exists(4)] by (simp add: count_node_def same_declarations_def)
next
  case compare
  then show ?thesis using parseOperand_state[OF compare(4)] parseOperand_state[OF compare(5)] by (auto intro: same_declarations_trans)
qed (simp_all add: same_declarations_def)

lemma enter_node_simps [simp]:
  "ps_nodes (enter_node d st) = Suc (ps_nodes st)" "ps_maxDepth (enter_node d st) = max (ps_maxDepth st) d"
  "same_declarations (enter_node d st) st' = same_declarations st st'"
  by (simp_all add: enter_node_def same_declarations_def)

lemma parseCondition_cases:
  assumes "parseCondition v depth st = Inr (c, st')"
  obtains (all) vs cs where "v = JObj [(''all'', JArr vs)]" "vs \<noteq> []" "parse_children vs (Suc depth) (enter_node depth st) = Inr (cs, st')" "c = All cs"
  | (any) vs cs where "v = JObj [(''any'', JArr vs)]" "vs \<noteq> []" "parse_children vs (Suc depth) (enter_node depth st) = Inr (cs, st')" "c = AnyOf cs"
  | (not) body c' where "v = JObj [(''not'', body)]" "parseCondition body (Suc depth) (enter_node depth st) = Inr (c', st')" "c = Not c'"
  | (leaf) operator body where "v = JObj [(operator, body)]" "parse_leaf operator body (enter_node depth st) = Inr (c, st')"
proof -
  obtain operator body where v: "v = JObj [(operator, body)]" using assms by (auto split: json.splits list.splits)
  consider "operator = ''all'' \<or> operator = ''any''" | "operator = ''not''" | "operator \<notin> {''all'', ''any'', ''not''}" by blast
  then show thesis
  proof cases
    case 1
    then obtain vs where b: "body = JArr vs" using assms v by (auto split: json.splits)
    then obtain cs where "vs \<noteq> []" "parse_children vs (Suc depth) (enter_node depth st) = Inr (cs, st')"
      "c = (if operator = ''all'' then All cs else AnyOf cs)"
      using assms v 1 by auto
    then show thesis using 1 all any v b by auto
  next
    case 2
    then show thesis using assms v not by auto
  next
    case 3
    then show thesis using assms v leaf by simp
  qed
qed

text \<open>The condition is the JSON it was read from, and the counters bound its size and its depth.\<close>

lemma parse_sound:
  "parseCondition v depth st = Inr (c, st') \<Longrightarrow>
     condition_json c = v \<and> same_declarations st st' \<and>
     ps_nodes st + nodes c \<le> ps_nodes st' \<and> ps_nodes st + nodes c \<le> MAX_CONDITION_NODES \<and> ps_nodes st' \<le> MAX_CONDITION_NODES + 2 \<and>
     depth + height c \<le> Suc MAX_CONDITION_DEPTH"
  "parse_children vs depth st = Inr (cs, st') \<Longrightarrow>
     map condition_json cs = vs \<and> same_declarations st st' \<and>
     ps_nodes st + sum_list (map nodes cs) \<le> ps_nodes st' \<and>
     (vs \<noteq> [] \<longrightarrow> ps_nodes st + sum_list (map nodes cs) \<le> MAX_CONDITION_NODES \<and> ps_nodes st' \<le> MAX_CONDITION_NODES + 2 \<and>
        depth + maxl (map height cs) \<le> Suc MAX_CONDITION_DEPTH)"
proof (induction v depth st and vs depth st arbitrary: c st' and cs st' rule: parseCondition_parse_children.induct)
  case (1 v depth st)
  have entered: "depth \<le> MAX_CONDITION_DEPTH" "Suc (ps_nodes st) \<le> MAX_CONDITION_NODES" using 1(3) by simp_all
  from 1(3) show ?case
  proof (cases rule: parseCondition_cases)
    case (all vs cs)
    then show ?thesis using 1(1)[OF all(1) refl refl refl disjI1[OF refl] refl all(3)] by auto
  next
    case (any vs cs)
    then show ?thesis using 1(1)[OF any(1) refl refl refl disjI2[OF refl] refl any(3)] by auto
  next
    case (not body c')
    then show ?thesis using 1(2)[OF not(1) refl refl refl _ refl not(2)] by auto
  next
    case (leaf operator body)
    then show ?thesis using leaf entered parse_leaf_state[OF leaf(2)] by simp
  qed
next
  case (2 depth st)
  then show ?case by simp
next
  case (3 v vs depth st)
  obtain x xs st1 where step: "parseCondition v depth st = Inr (x, st1)" "parse_children vs depth st1 = Inr (xs, st')" "cs = x # xs"
    using 3(3) by auto
  note head = 3(1)[OF step(1)] and rest = 3(2)[OF step(2)]
  show ?case
  proof (cases "vs = []")
    case True
    then show ?thesis using head rest step by simp
  next
    case False
    then show ?thesis using head rest step(3) same_declarations_trans by auto
  qed
qed

section \<open>Types\<close>

lemma typed_value_type: "typed_value v ty = Some a \<Longrightarrow> type_of a = ty"
  by (cases ty) (auto split: host_value.splits)

lemma checked_type: "checked v ty = Known a \<Longrightarrow> type_of a = ty"
  by (auto simp: checked_def dest: typed_value_type split: option.splits)

lemma supplied_type: "supplied v ty = Known a \<Longrightarrow> type_of a = ty"
  by (auto simp: supplied_def dest: checked_type split: option.splits host_value.splits)

lemma declared_in_get: "declared_in ds name = mget (declared ds) name"
  by (cases ds) (simp_all add: declared_in_def declared_def)

lemma builtin_type:
  assumes "builtin_resource r ref = Known a" "mget RESOURCE_ATTRIBUTES ref = Some ty"
  shows "type_of a = ty"
  using assms by (auto simp: builtin_resource_def RESOURCE_ATTRIBUTES_def dest!: checked_type supplied_type split: if_splits option.splits)

lemma namespace_prefix:
  assumes "takeWhile (\<lambda>c. c \<noteq> CHR ''.'') ref = ns"
  shows "ref = ns \<or> prefix (ns @ ''.'') ref"
proof (cases "dropWhile (\<lambda>c. c \<noteq> CHR ''.'') ref")
  case Nil
  then have "takeWhile (\<lambda>c. c \<noteq> CHR ''.'') ref = ref" using takeWhile_dropWhile_id[of "\<lambda>c. c \<noteq> CHR ''.''" ref] by (simp only: append_Nil2)
  then show ?thesis using assms by metis
next
  case (Cons c cs)
  then have "c = CHR ''.''" using hd_dropWhile[of "\<lambda>c. c \<noteq> CHR ''.''" ref] by simp
  then have "ref = (ns @ ''.'') @ cs" using takeWhile_dropWhile_id[of "\<lambda>c. c \<noteq> CHR ''.''" ref] assms Cons by simp
  then show ?thesis by (simp add: prefix_def)
qed

lemma other_namespace:
  assumes "prefix ''context.'' ref \<or> prefix ''resource.'' ref"
  shows "mget SUBJECT_ATTRIBUTES ref = None \<and> mget ENVIRONMENT_ATTRIBUTES ref = None \<and> mget SESSION_ATTRIBUTES ref = None"
proof -
  have "\<exists>u. ref = CHR ''c'' # u \<or> ref = CHR ''r'' # u" using assms by (auto simp: prefix_def)
  then obtain u where "ref = CHR ''c'' # u \<or> ref = CHR ''r'' # u" by blast
  then show ?thesis by (elim disjE) (simp_all add: SUBJECT_ATTRIBUTES_def ENVIRONMENT_ATTRIBUTES_def SESSION_ATTRIBUTES_def)
qed

text \<open>A reference evaluates to a value of the type the parser gave it.\<close>

lemma resolve_typed:
  assumes "refType ref st = Inr (ty, st')" "resolveRef zones d facts ref = Known a"
    and "declared (pd_attributes d) = ps_attributes st" "declared (pd_context d) = ps_context st" "mget (ps_context st) [] = None"
  shows "type_of a = ty"
proof -
  consider (clock) "mget ENVIRONMENT_ATTRIBUTES ref = Some ty" | (session) "mget SESSION_ATTRIBUTES ref = Some ty"
    | (signal) "takeWhile (\<lambda>c. c \<noteq> CHR ''.'') ref = ''context''" "mget (ps_context st) (drop 8 ref) = Some ty"
    | (subject) "mget SUBJECT_ATTRIBUTES ref = Some ty"
    | (builtin) "prefix ''resource.'' ref" "isBuiltinResourceAttribute ref" "mget RESOURCE_ATTRIBUTES ref = Some ty"
    | (attribute) "prefix ''resource.'' ref" "\<not> isBuiltinResourceAttribute ref" "mget (ps_attributes st) (drop 9 ref) = Some ty"
    using assms(1) unfolding refType_def Let_def by (auto split: if_splits)
  then show ?thesis
  proof cases
    case clock
    then have "ty = TyNumber" "mget SUBJECT_ATTRIBUTES ref = None" "mhas ENVIRONMENT_ATTRIBUTES ref"
      by (auto simp: ENVIRONMENT_ATTRIBUTES_def SUBJECT_ATTRIBUTES_def mhas_def split: if_splits)
    then show ?thesis using assms(2) by (auto simp: resolveRef_def split: option.splits)
  next
    case session
    then have "mget SUBJECT_ATTRIBUTES ref = None" "\<not> mhas ENVIRONMENT_ATTRIBUTES ref"
      by (auto simp: ENVIRONMENT_ATTRIBUTES_def SUBJECT_ATTRIBUTES_def SESSION_ATTRIBUTES_def mhas_def split: if_splits)
    then show ?thesis using assms(2) session by (auto simp: resolveRef_def dest: checked_type split: option.splits)
  next
    case signal
    then have "prefix ''context.'' ref" using namespace_prefix[OF signal(1)] assms(5) by auto
    then show ?thesis using assms(2,4) signal(2) other_namespace[of ref]
      by (auto simp: resolveRef_def mhas_def declared_in_get dest: supplied_type split: option.splits)
  next
    case subject
    then show ?thesis using assms(2) by (auto simp: resolveRef_def dest: checked_type split: option.splits)
  next
    case builtin
    then have "\<not> prefix ''context.'' ref" by (auto simp: prefix_def)
    then show ?thesis using assms(2) builtin other_namespace[of ref]
      by (auto simp: resolveRef_def mhas_def isBuiltinResourceAttribute_def dest: builtin_type split: option.splits)
  next
    case attribute
    then have "\<not> prefix ''context.'' ref" by (auto simp: prefix_def)
    then show ?thesis using assms(2,3) attribute other_namespace[of ref]
      by (auto simp: resolveRef_def mhas_def isBuiltinResourceAttribute_def declared_in_get dest: supplied_type split: option.splits)
  qed
qed

fun comparisons :: "condition \<Rightarrow> (comparison \<times> operand \<times> operand) list" where
  "comparisons (All cs) = concat (map comparisons cs)"
| "comparisons (AnyOf cs) = concat (map comparisons cs)"
| "comparisons (Not c) = comparisons c"
| "comparisons (Compare op l r) = [(op, l, r)]"
| "comparisons _ = []"

definition well_typed :: "policy_definition \<Rightarrow> comparison \<times> operand \<times> operand \<Rightarrow> bool" where
  "well_typed d x \<longleftrightarrow> (\<forall>zones facts a b. operand_value zones d facts (fst (snd x)) = Inl a \<longrightarrow> operand_value zones d facts (snd (snd x)) = Inl b \<longrightarrow>
     checkComparison (fst x) (type_of a) (type_of b))"

definition declares :: "policy_definition \<Rightarrow> pstate \<Rightarrow> bool" where
  "declares d st \<longleftrightarrow> declared (pd_attributes d) = ps_attributes st \<and> declared (pd_context d) = ps_context st \<and> mget (ps_context st) [] = None"

lemma declares_same: "declares d st \<Longrightarrow> same_declarations st st' \<Longrightarrow> declares d st'"
  by (simp add: declares_def same_declarations_def)

lemma operand_typed:
  assumes "parseOperand v st = Inr ((x, ty), st')" "declares d st" "operand_value zones d facts x = Inl a"
  shows "type_of a = ty"
  using assms(1)
proof (cases rule: parseOperand_cases)
  case (ref r)
  then have "resolveRef zones d facts r = Known a" using assms(3) by (auto split: resolved.splits)
  then show ?thesis using resolve_typed[OF ref(3)] assms(2) by (simp add: declares_def count_node_def)
next
  case (lit j b)
  then show ?thesis using assms(3) by simp
qed

lemma leaf_typed:
  assumes "parse_leaf operator body st = Inr (c, st')" "declares d st" "x \<in> set (comparisons c)"
  shows "well_typed d x"
  using assms(1)
proof (cases rule: parse_leaf_cases)
  case (compare op l r left lt st1 right rt)
  have "declares d st1" using compare(4) assms(2) declares_same parseOperand_state by blast
  then show ?thesis using assms(2,3) compare operand_typed[OF compare(4)] operand_typed[OF compare(5)]
    unfolding well_typed_def by auto
qed (use assms(3) in simp_all)

lemma condition_typed:
  "parseCondition v depth st = Inr (c, st') \<Longrightarrow> declares d st \<Longrightarrow> x \<in> set (comparisons c) \<Longrightarrow> well_typed d x"
  "parse_children vs depth st = Inr (cs, st') \<Longrightarrow> declares d st \<Longrightarrow> x \<in> set (concat (map comparisons cs)) \<Longrightarrow> well_typed d x"
proof (induction v depth st and vs depth st arbitrary: c st' and cs st' rule: parseCondition_parse_children.induct)
  case (1 v depth st)
  have d: "declares d (enter_node depth st)" using 1(4) by (simp add: declares_def enter_node_def)
  from 1(3) show ?case
  proof (cases rule: parseCondition_cases)
    case (all vs cs)
    then show ?thesis using 1(1)[OF all(1) refl refl refl disjI1[OF refl] refl all(3) d] 1(5) by simp
  next
    case (any vs cs)
    then show ?thesis using 1(1)[OF any(1) refl refl refl disjI2[OF refl] refl any(3) d] 1(5) by simp
  next
    case (not body c')
    then show ?thesis using 1(2)[OF not(1) refl refl refl _ refl not(2) d] 1(5) by simp
  next
    case (leaf operator body)
    then show ?thesis using leaf_typed[OF leaf(2) d 1(5)] by simp
  qed
next
  case (2 depth st)
  then show ?case by simp
next
  case (3 v vs depth st)
  obtain y ys st1 where step: "parseCondition v depth st = Inr (y, st1)" "parse_children vs depth st1 = Inr (ys, st')" "cs = y # ys"
    using 3(3) by auto
  have "declares d st1" using parse_sound(1)[OF step(1)] 3(4) declares_same by blast
  then show ?case using 3(1)[OF step(1) 3(4)] 3(2)[OF step(2)] 3(5) step(3) by auto
qed

section \<open>Reading a definition\<close>

lemma parse_declarations_names:
  assumes "parseDeclarations v mx isBuiltin = Inr ds"
  shows "mget (declared ds) [] = None \<and> length (declared ds) \<le> mx"
proof -
  have "n \<noteq> []" if "mapr (parse_declaration isBuiltin) xs = Inr ds'" "(n, ty) \<in> set ds'" for xs ds' n ty
    using mapr_Inr_set[OF that] by (auto simp: parse_declaration_def code_pattern_def split: option.splits)
  then have "mget ds' [] = None" if "mapr (parse_declaration isBuiltin) xs = Inr ds'" for xs ds'
    using that by (metis map_of_SomeD not_None_eq)
  then show ?thesis using assms
    by (auto simp: parseDeclarations_def declared_def dest: mapr_Inr_length split: option.splits json.splits)
qed

lemma declared_some [simp]: "declared (some_declared ds) = declared ds"
  by (simp add: some_declared_def declared_def)

text \<open>A definition that is accepted, taken apart.\<close>

lemma policy_rules_Inr:
  assumes "policy_rules H zones plain = Inr p"
  obtains root kind effect actions resourceType attributes ctx timezone denyReason condition st d where
    "plain = JObj root"
    "named kind_text POLICY_KINDS (the (mget root ''kind'')) = Inr kind"
    "named effect_text POLICY_EFFECTS (the (mget root ''effect'')) = Inr effect"
    "parseActions (the (mget root ''actions'')) = Inr actions"
    "parse_code (mget root ''resourceType'') = Inr resourceType"
    "parseDeclarations (mget root ''attributes'') MAX_POLICY_ATTRIBUTES (\<lambda>name. isBuiltinResourceAttribute (''resource.'' @ name)) = Inr attributes"
    "declared attributes = [] \<or> resourceType \<noteq> None"
    "parseDeclarations (mget root ''context'') MAX_POLICY_CONTEXT_SIGNALS (\<lambda>name. False) = Inr ctx"
    "parseTimezone zones (mget root ''timezone'') = Inr timezone"
    "parse_code (mget root ''denyReason'') = Inr denyReason"
    "parseCondition (the (mget root ''condition'')) 1 (initial_state attributes ctx resourceType) = Inr (condition, st)"
    "check_use kind resourceType attributes ctx (mhas root ''timezone'') st"
    "d = \<lparr> pd_kind = kind, pd_effect = effect, pd_actions = actions, pd_resourceType = resourceType,
           pd_attributes = some_declared attributes, pd_context = some_declared ctx, pd_timezone = timezone,
           pd_condition = condition, pd_denyReason = denyReason \<rparr>"
    "utf8_length (canonicalJson (definition_json d)) \<le> MAX_POLICY_DEFINITION_BYTES"
    "p = \<lparr> pp_definition = d, pp_hash = hashPolicyDefinition H d, pp_analysis = analysis_of st \<rparr>"
  using assms
  by (simp only: policy_rules_def Let_def bindr_Inr_iff require_Inr asObject_Inr split_paired_Ex prod.case sum.inject)
    (elim exE conjE, rule that, (assumption | rule refl | erule sym)+)

lemma rules_condition:
  assumes "policy_rules H zones plain = Inr p"
  obtains v attributes ctx rt st where
    "parseCondition v 1 (initial_state attributes ctx rt) = Inr (pd_condition (pp_definition p), st)"
    "declares (pp_definition p) (initial_state attributes ctx rt)" "an_nodes (pp_analysis p) = ps_nodes st"
    "length (an_features (pp_analysis p)) + length (an_permissions (pp_analysis p)) \<le> MAX_POLICY_FACT_LOOKUPS"
  using assms
proof (rule policy_rules_Inr)
  fix root kind effect actions resourceType attributes ctx timezone denyReason condition st and d :: policy_definition
  assume a: "parseDeclarations (mget root ''context'') MAX_POLICY_CONTEXT_SIGNALS (\<lambda>name. False) = Inr ctx"
    "parseCondition (the (mget root ''condition'')) 1 (initial_state attributes ctx resourceType) = Inr (condition, st)"
    "check_use kind resourceType attributes ctx (mhas root ''timezone'') st"
    "d = \<lparr> pd_kind = kind, pd_effect = effect, pd_actions = actions, pd_resourceType = resourceType,
           pd_attributes = some_declared attributes, pd_context = some_declared ctx, pd_timezone = timezone,
           pd_condition = condition, pd_denyReason = denyReason \<rparr>"
    "p = \<lparr> pp_definition = d, pp_hash = hashPolicyDefinition H d, pp_analysis = analysis_of st \<rparr>"
  show thesis
    by (rule that[of "the (mget root ''condition'')" attributes ctx resourceType st])
      (use a parse_declarations_names[OF a(1)] in \<open>simp_all add: declares_def initial_state_def analysis_of_def sorted_refs_def check_use_def\<close>)
qed

section \<open>The stored form\<close>

lemma named_json: "named text xs v = Inr x \<Longrightarrow> x \<in> set xs \<and> v = JStr (text x)"
  by (auto simp: named_def find_Some_iff split: json.splits option.splits)

lemma named_again: "named text xs v = Inr x \<Longrightarrow> named text xs (JStr (text x)) = Inr x"
  using named_json by metis

lemma sorted_insert_by:
  "sorted_wrt (\<lambda>a b. \<not> lt b a) (x # xs) \<Longrightarrow> insert_by lt x xs = x # xs"
  by (cases xs) auto

lemma sort_by_sorted: "sorted_wrt (\<lambda>a b. \<not> lt b a) xs \<Longrightarrow> sort_by lt xs = xs"
proof (induction xs)
  case (Cons x xs)
  then have "sort_by lt (x # xs) = insert_by lt x xs" by (simp add: sort_by_def)
  then show ?case using sorted_insert_by[OF Cons.prems] by (simp only:)
qed (simp add: sort_by_def)

lemma sorted_sort_by: "sorted_wrt (\<lambda>a b. \<not> f b < f a) (sort_by (\<lambda>a b. f a < f b) xs)" for f :: "'a \<Rightarrow> 'b::linorder"
  unfolding sort_by_key using sorted_sort_key[of f xs] by (simp add: sorted_map not_less)

lemma sort_by_again: "sort_by (\<lambda>a b. f a < f b) (sort_by (\<lambda>a b. f a < f b) xs) = sort_by (\<lambda>a b. f a < f b) xs"
  for f :: "'a \<Rightarrow> 'b::linorder"
  using sort_by_sorted[OF sorted_sort_by] .

lemma uniq_distinct: "distinct xs \<Longrightarrow> uniq xs = xs"
  by (simp add: uniq_def distinct_remdups_id)

lemma length_uniq: "length (uniq xs) \<le> length xs"
  by (simp add: uniq_def) (metis length_remdups_leq length_rev)

lemma mapr_all: "(\<And>x. x \<in> set xs \<Longrightarrow> f (g x) = Inr (h x)) \<Longrightarrow> mapr f (map g xs) = Inr (map h xs)"
  by (induction xs) auto

lemma parse_action_Inr: "parse_action v = Inr t \<longleftrightarrow> v = JStr t \<and> valid_action t"
  by (cases v) auto

lemma actions_again:
  assumes "parseActions v = Inr actions"
  shows "parseActions (JArr (map JStr actions)) = Inr actions"
proof -
  obtain xs seen where x: "v = JArr xs" "xs \<noteq> []" "length xs \<le> MAX_POLICY_ACTIONS" "mapr parse_action xs = Inr seen"
    and a: "actions = sort_by (<) (uniq seen)"
    using assms by (auto simp: parseActions_def split: json.splits)
  have len: "length seen = length xs" using mapr_Inr_length[OF x(4)] .
  have "valid_action t" if "t \<in> set actions" for t
    using mapr_Inr_set[OF x(4), of t] that a by (auto simp: parse_action_Inr)
  then have m: "mapr parse_action (map JStr actions) = Inr actions"
    using mapr_all[of actions parse_action JStr "\<lambda>t. t"] by (simp add: parse_action_Inr)
  have "distinct actions" unfolding a using distinct_map_sort_by[of "\<lambda>t. t" "(<)" "uniq seen"] by simp
  then have s: "sort_by (<) (uniq actions) = actions" using sort_by_again[of "\<lambda>t. t" "uniq seen"] by (simp add: uniq_distinct a)
  have "seen \<noteq> []" using x(2) len by (cases seen) simp_all
  moreover have "set actions = set seen" by (simp add: a)
  ultimately have "actions \<noteq> []" by (metis set_empty)
  moreover have "length actions \<le> MAX_POLICY_ACTIONS" using x(3) len length_uniq[of seen] by (simp add: a)
  ultimately show ?thesis using m s by (simp add: parseActions_def)
qed

lemma declarations_again:
  assumes "parseDeclarations v mx isBuiltin = Inr ds"
  shows "parseDeclarations (map_option declarations_json (some_declared ds)) mx isBuiltin = Inr (some_declared ds)"
proof (cases "declared ds = []")
  case True
  then show ?thesis by (simp add: some_declared_def parseDeclarations_def)
next
  case False
  let ?lt = "\<lambda>a b. fst a < (fst b :: string)"
  obtain kvs m where k: "length kvs \<le> mx" "mapr (parse_declaration isBuiltin) (sort_by ?lt kvs) = Inr m" "ds = Some m"
    using assms False by (auto simp: parseDeclarations_def declared_def split: option.splits json.splits)
  have one: "parse_declaration isBuiltin (fst x, JStr (type_text (snd x))) = Inr x \<and> (fst x, JStr (type_text (snd x))) \<in> set (sort_by ?lt kvs)"
    if xm: "x \<in> set m" for x
  proof -
    obtain y where y: "y \<in> set (sort_by ?lt kvs)" "parse_declaration isBuiltin y = Inr x" using mapr_Inr_set[OF k(2) xm] by blast
    then have "fst y = fst x" "attribute_type_of (snd y) = Some (snd x)" by (auto simp: parse_declaration_def split: option.splits)
    then have "y = (fst x, JStr (type_text (snd x)))" using type_text_of[of "snd y" "snd x"] by (metis prod.collapse)
    then show ?thesis using y by simp
  qed
  have order: "sorted_wrt (\<lambda>a b. \<not> fst b < fst a) m'" if "mapr (parse_declaration isBuiltin) xs = Inr m'" "sorted_wrt (\<lambda>a b. \<not> fst b < fst a) xs"
    for xs :: "(string \<times> json) list" and m'
  proof -
    have "map fst m' = map fst xs" using that(1)
      by (induction xs arbitrary: m') (auto simp: parse_declaration_def split: option.splits)
    moreover have "sorted_wrt (\<lambda>a b. \<not> b < a) (map fst xs)" using that(2) by (simp add: sorted_wrt_map)
    ultimately have "sorted_wrt (\<lambda>a b. \<not> b < a) (map fst m')" by (simp only:)
    then show ?thesis by (simp add: sorted_wrt_map)
  qed
  let ?g = "\<lambda>(name, ty). (name, JStr (type_text ty))"
  have "sorted_wrt (\<lambda>a b. \<not> fst b < fst a) m" using order[OF k(2) sorted_sort_by] .
  then have "sort_by ?lt (map ?g m) = map ?g m" by (intro sort_by_sorted) (simp add: sorted_wrt_map case_prod_unfold)
  moreover have "mapr (parse_declaration isBuiltin) (map ?g m) = Inr (map (\<lambda>x. x) m)"
    by (rule mapr_all) (use one in \<open>auto simp: case_prod_unfold\<close>)
  moreover have "length m \<le> mx" using k mapr_Inr_length[OF k(2)] by simp
  ultimately show ?thesis using k(3) False by (simp add: some_declared_def parseDeclarations_def declarations_json_def)
qed

lemma code_again: "parse_code v = Inr c \<Longrightarrow> parse_code (map_option JStr c) = Inr c"
  by (auto simp: parse_code_def split: option.splits json.splits)

lemma timezone_again: "parseTimezone zones v = Inr tz \<Longrightarrow> parseTimezone zones (map_option JStr tz) = Inr tz"
  by (auto simp: parseTimezone_def split: option.splits json.splits if_splits)

lemma opt_field_keys: "list_all P (map fst (opt_field name f v @ kvs)) \<longleftrightarrow> (v \<noteq> None \<longrightarrow> P name) \<and> list_all P (map fst kvs)"
  by (simp add: opt_field_def split: option.split)

lemma opt_field_only [simp]: "mget (opt_field name f v) k = (if k = name then map_option f v else None)"
  by (simp add: opt_field_def split: option.split)

lemma opt_field_only_keys [simp]: "list_all P (map fst (opt_field name f v)) \<longleftrightarrow> (v \<noteq> None \<longrightarrow> P name)"
  by (simp add: opt_field_def split: option.split)

text \<open>The fields of a stored definition are those of the definition.\<close>

definition stored_fields :: "policy_definition \<Rightarrow> (string, json) jsmap" where
  "stored_fields d = (case definition_json d of JObj kvs \<Rightarrow> kvs | _ \<Rightarrow> [])"

lemma stored_json: "definition_json d = JObj (stored_fields d)"
  by (simp add: stored_fields_def definition_json_def)

lemma stored_get:
  "mget (stored_fields d) ''kind'' = Some (JStr (kind_text (pd_kind d)))"
  "mget (stored_fields d) ''effect'' = Some (JStr (effect_text (pd_effect d)))"
  "mget (stored_fields d) ''actions'' = Some (JArr (map JStr (pd_actions d)))"
  "mget (stored_fields d) ''resourceType'' = map_option JStr (pd_resourceType d)"
  "mget (stored_fields d) ''attributes'' = map_option declarations_json (pd_attributes d)"
  "mget (stored_fields d) ''context'' = map_option declarations_json (pd_context d)"
  "mget (stored_fields d) ''timezone'' = map_option JStr (pd_timezone d)"
  "mget (stored_fields d) ''condition'' = Some (condition_json (pd_condition d))"
  "mget (stored_fields d) ''denyReason'' = map_option JStr (pd_denyReason d)"
  by (simp_all add: stored_fields_def definition_json_def map_add_def split: option.splits)

lemma stored_object: "asObject (definition_json d)
    [''kind'', ''effect'', ''actions'', ''resourceType'', ''attributes'', ''context'', ''timezone'', ''condition'', ''denyReason'']
    [''kind'', ''effect'', ''actions'', ''condition''] = Inr (stored_fields d)"
proof -
  have "list_all (\<lambda>k. k \<in> {''kind'', ''effect'', ''actions'', ''resourceType'', ''attributes'', ''context'', ''timezone'', ''condition'', ''denyReason''}) (map fst (stored_fields d))"
    by (simp add: stored_fields_def definition_json_def opt_field_keys)
  moreover have "list_all (mhas (stored_fields d)) [''kind'', ''effect'', ''actions'', ''condition'']"
    by (simp add: mhas_def stored_get)
  ultimately show ?thesis unfolding stored_json asObject_Inr by simp
qed

lemma initial_some [simp]: "initial_state (some_declared a) (some_declared c) r = initial_state a c r"
  by (simp add: initial_state_def)

lemma some_declared_again [simp]: "some_declared (some_declared ds) = some_declared ds"
  by (simp add: some_declared_def)

lemma check_use_stored:
  "check_use kind rt a c has st \<Longrightarrow> (has' \<Longrightarrow> has) \<Longrightarrow> check_use kind rt (some_declared a) (some_declared c) has' st"
  by (simp add: check_use_def)

section \<open>Errors\<close>

text \<open>Every error of a result satisfies \<open>P\<close>.\<close>

definition errs :: "(uerror \<Rightarrow> bool) \<Rightarrow> uerror + 'a \<Rightarrow> bool" where
  "errs P r \<longleftrightarrow> (\<forall>e. r = Inl e \<longrightarrow> P e)"

abbreviation only_bad :: "uerror + 'a \<Rightarrow> bool" where
  "only_bad \<equiv> errs (\<lambda>e. e = bad)"

named_theorems errs_rules \<open>which errors a step of the parser can throw\<close>

lemma errs_basic [errs_rules]: "errs P (Inr x)" "P e \<Longrightarrow> errs P (Inl e)"
  by (simp_all add: errs_def)

lemma errs_bind [errs_rules]: "errs P r \<Longrightarrow> (\<And>x. r = Inr x \<Longrightarrow> errs P (f x)) \<Longrightarrow> errs P (bindr r f)"
  by (cases r) (simp_all add: errs_def)

lemma errs_require [errs_rules]: "P bad \<Longrightarrow> (ok \<Longrightarrow> errs P k) \<Longrightarrow> errs P (require ok k)"
  by (simp add: errs_def require_def)

lemma errs_mono: "only_bad r \<Longrightarrow> P bad \<Longrightarrow> errs P r"
  by (auto simp: errs_def)

lemma errs_mapr [errs_rules]: "(\<And>x. errs P (f x)) \<Longrightarrow> errs P (mapr f xs)"
  by (induction xs) (auto intro!: errs_rules)

lemma snapshot_bad:
  "only_bad (snapshot v depth n)"
  "only_bad (snapshot_items xs depth n)"
  "only_bad (snapshot_fields kvs depth n)"
proof (induction v depth n and xs depth n and kvs depth n rule: snapshot_snapshot_items_snapshot_fields.induct)
  case (1 v depth n)
  then show ?case by (cases v) (auto intro!: errs_rules)
qed (auto simp del: snapshot.simps intro!: errs_rules split: prod.split)

declare snapshot.simps [simp del]

lemma typed_bad [errs_rules]: "only_bad (typed ty st)"
  by (auto simp: typed_def intro!: errs_rules split: option.split)

lemma refType_bad [errs_rules]: "only_bad (refType ref st)"
  unfolding refType_def Let_def by (auto intro!: errs_rules)

lemma literal_parts_bad [errs_rules]: "only_bad (literal_text x)" "only_bad (literal_number x)" "only_bad (parse_action x)"
  by (cases x; auto intro!: errs_rules)+

lemma literal_bad [errs_rules]: "only_bad (literal v)"
  by (cases v) (auto intro!: errs_rules split: json.split)

lemma asObject_bad [errs_rules]: "only_bad (asObject v allowed required)"
  by (auto simp: asObject_def intro!: errs_rules split: json.split)

lemma parseOperand_bad [errs_rules]: "only_bad (parseOperand v st)"
  unfolding parseOperand_def by (auto intro!: errs_rules split: list.split json.split)

lemma parse_leaf_bad [errs_rules]: "only_bad (parse_leaf operator body st)"
proof -
  have "only_bad (case body of JArr [l, r] \<Rightarrow>
             bindr (parseOperand l st) (\<lambda>((left, lt), st1).
             bindr (parseOperand r st1) (\<lambda>((right, rt), st2).
             require (checkComparison op lt rt) (Inr (Compare op left right, st2))))
           | _ \<Rightarrow> Inl bad)" for op
    by (auto intro!: errs_rules split: json.split list.split)
  then show ?thesis unfolding parse_leaf_def by (auto intro!: errs_rules split: json.split option.split)
qed

lemma parseCondition_bad:
  "only_bad (parseCondition v depth st)"
  "only_bad (parse_children vs depth st)"
proof (induction v depth st and vs depth st rule: parseCondition_parse_children.induct)
  case (1 v depth st)
  show ?case
  proof (cases "\<exists>operator body. v = JObj [(operator, body)]")
    case False
    then show ?thesis by (auto intro!: errs_rules split: json.split list.split)
  next
    case True
    then obtain operator body where v: "v = JObj [(operator, body)]" by blast
    note children = 1(1)[OF v refl refl refl] and child = 1(2)[OF v refl refl refl]
    show ?thesis
    proof (cases "operator = ''not''")
      case True
      have "only_bad (parseCondition body (Suc depth) (enter_node depth st))" by (rule child) (simp_all add: True)
      then show ?thesis unfolding v by (subst parseCondition.simps) (auto simp del: parseCondition.simps simp: True intro!: errs_rules)
    next
      case False
      then show ?thesis unfolding v
        by (subst parseCondition.simps) (auto simp del: parseCondition.simps intro!: errs_rules children split: json.split)
    qed
  qed
qed (auto intro!: errs_rules split: prod.split)

lemma parseActions_bad [errs_rules]: "only_bad (parseActions v)"
  unfolding parseActions_def by (auto intro!: errs_rules split: json.split)

lemma parse_declaration_bad [errs_rules]: "only_bad (parse_declaration isBuiltin x)"
  unfolding parse_declaration_def by (auto intro!: errs_rules split: option.split)

lemma parseDeclarations_bad: "errs (\<lambda>e. e = bad \<or> e = TypeErr \<and> v = Some JNull) (parseDeclarations v mx isBuiltin)"
  unfolding parseDeclarations_def by (auto intro!: errs_rules errs_mono[OF parse_declaration_bad] split: option.split json.split)

lemma fields_bad [errs_rules]:
  "only_bad (named text xs v)" "only_bad (parse_code w)" "only_bad (parseTimezone zones w)"
  unfolding named_def parse_code_def parseTimezone_def by (auto intro!: errs_rules split: json.split option.split)

lemma policy_rules_bad:
  "errs (\<lambda>e. e = bad \<or> e = TypeErr \<and> (\<exists>root. plain = JObj root \<and> (mget root ''attributes'' = Some JNull \<or> mget root ''context'' = Some JNull)))
     (policy_rules H zones plain)" (is "errs ?P _")
proof -
  have only: "errs ?P r" if "only_bad r" for r :: "uerror + 'b" using errs_mono[OF that, of ?P] by simp
  have pair: "(\<And>a b. errs ?P (f a b)) \<Longrightarrow> errs ?P (case x of (a, b) \<Rightarrow> f a b)" for f :: "condition \<Rightarrow> pstate \<Rightarrow> uerror + parsed_definition" and x
    by (cases x) simp
  have decl: "errs ?P (parseDeclarations (mget root ''attributes'') mx b)" "errs ?P (parseDeclarations (mget root ''context'') mx b)"
    if "asObject plain allowed required = Inr root" for allowed required root mx b
    using parseDeclarations_bad[of "mget root ''attributes''" mx b] parseDeclarations_bad[of "mget root ''context''" mx b] that
    by (auto simp: errs_def asObject_Inr)
  note steps = only[OF asObject_bad] only[OF fields_bad(1)] only[OF fields_bad(2)] only[OF fields_bad(3)] only[OF parseActions_bad]
    only[OF parseCondition_bad(1)] decl errs_basic(1)
  have let_rule: "errs ?P (f x) \<Longrightarrow> errs ?P (Let x f)" for f :: "policy_definition \<Rightarrow> uerror + parsed_definition" and x
    by (simp add: Let_def)
  show ?thesis unfolding policy_rules_def
    by (intro errs_bind errs_require pair let_rule steps) (assumption | rule disjI1 refl)+
qed

declare parseCondition.simps [simp del]

lemma definition_size:
  assumes "parsePolicyDefinition H zones input = Inr p"
  shows "nodes (pd_condition (pp_definition p)) \<le> 64 \<and> height (pd_condition (pp_definition p)) \<le> 8 \<and> an_nodes (pp_analysis p) \<le> 66 \<and>
    length (an_features (pp_analysis p)) + length (an_permissions (pp_analysis p)) \<le> 16 \<and>
    utf8_length (canonicalJson (definition_json (pp_definition p))) \<le> 16384"
proof -
  obtain plain where r: "policy_rules H zones plain = Inr p" using assms(1) by (auto simp: parsePolicyDefinition_def)
  then obtain v attributes ctx rt st where c: "parseCondition v 1 (initial_state attributes ctx rt) = Inr (pd_condition (pp_definition p), st)"
    "an_nodes (pp_analysis p) = ps_nodes st"
    "length (an_features (pp_analysis p)) + length (an_permissions (pp_analysis p)) \<le> MAX_POLICY_FACT_LOOKUPS"
    by (rule rules_condition)
  have "utf8_length (canonicalJson (definition_json (pp_definition p))) \<le> MAX_POLICY_DEFINITION_BYTES"
    using r by (rule policy_rules_Inr) simp
  then show ?thesis using parse_sound(1)[OF c(1)] c(2,3)
    by (simp add: initial_state_def MAX_CONDITION_NODES_def MAX_CONDITION_DEPTH_def MAX_POLICY_FACT_LOOKUPS_def MAX_POLICY_DEFINITION_BYTES_def)
qed

lemma rules_again:
  assumes "policy_rules H zones plain = Inr p"
  shows "policy_rules H zones (definition_json (pp_definition p)) = Inr p"
  using assms
proof (rule policy_rules_Inr)
  fix root kind effect actions resourceType attributes ctx timezone denyReason condition st and d :: policy_definition
  assume fields: "named kind_text POLICY_KINDS (the (mget root ''kind'')) = Inr kind"
    "named effect_text POLICY_EFFECTS (the (mget root ''effect'')) = Inr effect"
    "parseActions (the (mget root ''actions'')) = Inr actions"
    "parse_code (mget root ''resourceType'') = Inr resourceType"
    "parseDeclarations (mget root ''attributes'') MAX_POLICY_ATTRIBUTES (\<lambda>name. isBuiltinResourceAttribute (''resource.'' @ name)) = Inr attributes"
    and rt: "declared attributes = [] \<or> resourceType \<noteq> None"
    and fields2: "parseDeclarations (mget root ''context'') MAX_POLICY_CONTEXT_SIGNALS (\<lambda>name. False) = Inr ctx"
    "parseTimezone zones (mget root ''timezone'') = Inr timezone"
    "parse_code (mget root ''denyReason'') = Inr denyReason"
    and c: "parseCondition (the (mget root ''condition'')) 1 (initial_state attributes ctx resourceType) = Inr (condition, st)"
    and u: "check_use kind resourceType attributes ctx (mhas root ''timezone'') st"
    and d: "d = \<lparr> pd_kind = kind, pd_effect = effect, pd_actions = actions, pd_resourceType = resourceType,
           pd_attributes = some_declared attributes, pd_context = some_declared ctx, pd_timezone = timezone,
           pd_condition = condition, pd_denyReason = denyReason \<rparr>"
    and size: "utf8_length (canonicalJson (definition_json d)) \<le> MAX_POLICY_DEFINITION_BYTES"
    and p: "p = \<lparr> pp_definition = d, pp_hash = hashPolicyDefinition H d, pp_analysis = analysis_of st \<rparr>"
  have json: "condition_json condition = the (mget root ''condition'')" using parse_sound(1)[OF c] by simp
  have tz: "timezone \<noteq> None \<Longrightarrow> mhas root ''timezone''"
    using fields2(2) by (auto simp: parseTimezone_def mhas_def split: option.splits)
  have u': "check_use kind resourceType (some_declared attributes) (some_declared ctx) (mhas (stored_fields d) ''timezone'') st"
    using check_use_stored[OF u] tz stored_get(7)[of d] by (simp add: mhas_def d)
  have get: "pd_kind d = kind" "pd_effect d = effect" "pd_actions d = actions" "pd_resourceType d = resourceType"
    "pd_attributes d = some_declared attributes" "pd_context d = some_declared ctx" "pd_timezone d = timezone"
    "pd_condition d = condition" "pd_denyReason d = denyReason"
    by (simp_all add: d)
  note again = named_again[OF fields(1)] named_again[OF fields(2)] actions_again[OF fields(3)] code_again[OF fields(4)]
    declarations_again[OF fields(5)] declarations_again[OF fields2(1)] timezone_again[OF fields2(2)] code_again[OF fields2(3)]
  have "policy_rules H zones (definition_json d) = Inr p"
    using u' rt size
    by (simp only: policy_rules_def stored_object bindr.simps stored_get get option.sel again initial_some json c prod.case
        declared_some require_def if_True some_declared_again Let_def d[symmetric] p)
  then show ?thesis by (simp add: p)
qed

section \<open>Properties\<close>

text \<open>
  C21: a stored definition is read back as it was: the rules accept the normalized JSON of what they returned and
  return it again, with the same hash and the same analysis.
\<close>

theorem policy_read_back:
  assumes "policy_rules H zones plain = Inr p"
  shows "policy_rules H zones (definition_json (pp_definition p)) = Inr p"
  using assms by (rule rules_again)

text \<open>
  C20: conditions are well typed.  When both operands of a comparison of an accepted definition have a value, whatever
  the facts and whatever the host supplied, their types are the ones the comparison is defined on.
\<close>

theorem policy_operands_typed:
  assumes "parsePolicyDefinition H zones input = Inr p"
    and "(op, l, r) \<in> set (comparisons (pd_condition (pp_definition p)))"
    and "operand_value zones' (pp_definition p) facts l = Inl a" "operand_value zones' (pp_definition p) facts r = Inl b"
  shows "checkComparison op (type_of a) (type_of b)"
proof -
  obtain plain where "policy_rules H zones plain = Inr p" using assms(1) by (auto simp: parsePolicyDefinition_def)
  then obtain v attributes ctx rt st where c: "parseCondition v 1 (initial_state attributes ctx rt) = Inr (pd_condition (pp_definition p), st)"
    "declares (pp_definition p) (initial_state attributes ctx rt)"
    by (rule rules_condition)
  then have "well_typed (pp_definition p) (op, l, r)" using condition_typed(1) assms(2) by blast
  then show ?thesis using assms(3,4) by (simp add: well_typed_def)
qed

text \<open>
  C22: an accepted definition is bounded: at most 64 conditions nested at most 8 deep, at most 66 nodes with the operands
  (the last comparison can pass the limit of 64), at most 16 features and permissions to look up, and a stored
  form of at most 16 KiB.
\<close>

theorem policy_size_bounded:
  assumes "parsePolicyDefinition H zones input = Inr p"
  shows "nodes (pd_condition (pp_definition p)) \<le> 64 \<and> height (pd_condition (pp_definition p)) \<le> 8 \<and> an_nodes (pp_analysis p) \<le> 66 \<and>
    length (an_features (pp_analysis p)) + length (an_permissions (pp_analysis p)) \<le> 16 \<and>
    utf8_length (canonicalJson (definition_json (pp_definition p))) \<le> 16384"
  using assms by (rule definition_size)

text \<open>
  C23: every input that is refused is refused with \<open>policy_definition_invalid\<close>, except declarations that are \<open>null\<close>,
  which throw a \<open>TypeError\<close>.
\<close>

theorem policy_refusals:
  assumes "parsePolicyDefinition H zones input = Inl e"
  shows "e = UError EPolicy ''policy_definition_invalid'' \<or>
    e = TypeErr \<and> (\<exists>root n. snapshot input 0 0 = Inr (JObj root, n) \<and> (mget root ''attributes'' = Some JNull \<or> mget root ''context'' = Some JNull))"
proof (cases "snapshot input 0 0")
  case (Inl e')
  then show ?thesis using assms snapshot_bad(1)[of input 0 0] by (simp add: parsePolicyDefinition_def errs_def bad_def)
next
  case (Inr pn)
  then have "policy_rules H zones (fst pn) = Inl e" using assms by (simp add: parsePolicyDefinition_def case_prod_unfold)
  then show ?thesis using policy_rules_bad[of "fst pn" H zones] Inr by (cases pn) (auto simp: errs_def bad_def)
qed

text \<open>
  C19: the precedence rule.  The default budget is enough for every set of accepted policies up to the limit of
  active ones: the decision is deny if a policy says deny, otherwise indeterminate if one is undecided, otherwise
  allow.  Neither the order of the policies nor how many allow matters, and no budget is ever exceeded.
\<close>

theorem policies_always_decided:
  assumes "\<not> isProtectedPermission (rq_permission request)" "length policies \<le> MAX_ACTIVE_POLICIES"
    and "\<forall>p \<in> set policies. \<exists>H zones input q. parsePolicyDefinition H zones input = Inr q \<and> ev_definition p = pp_definition q"
  shows "se_decision (evaluatePolicySet zones policies request facts False MAX_EVALUATION_STEPS) =
    combineVerdicts (map (says zones facts request) policies)"
proof (rule policy_set_exact[OF assms(1)])
  let ?n = "\<lambda>p. nodes (pd_condition (ev_definition p))"
  have "sum_list (map ?n policies) \<le> sum_list (map (\<lambda>p. 64) policies)"
  proof (rule sum_list_mono)
    fix p assume "p \<in> set policies"
    then obtain H zones input q where q: "parsePolicyDefinition H zones input = Inr q" "ev_definition p = pp_definition q" using assms(3) by blast
    show "?n p \<le> 64" using definition_size[OF q(1)] q(2) by simp
  qed
  then show "sum_list (map ?n policies) \<le> MAX_EVALUATION_STEPS"
    using assms(2) by (simp add: sum_list_triv MAX_ACTIVE_POLICIES_def MAX_EVALUATION_STEPS_def)
qed

subsection \<open>The properties at a concrete definition\<close>

definition demo_raw :: raw where
  "demo_raw = RObj True False
     [(''kind'', Some (RStr ''access'')), (''effect'', Some (RStr ''deny'')),
      (''actions'', Some (RArr [Some (RStr ''a.b''), Some (RStr ''*''), Some (RStr ''a.b'')])),
      (''condition'', Some (RObj True False [(''eq'', Some (RArr
         [Some (RObj True False [(''ref'', Some (RStr ''subject.identity''))]), Some (RObj True False [(''value'', Some (RStr ''p:u''))])]))]))]"

definition demo_plain :: json where
  "demo_plain = JObj
     [(''kind'', JStr ''access''), (''effect'', JStr ''deny''), (''actions'', JArr [JStr ''a.b'', JStr ''*'', JStr ''a.b'']),
      (''condition'', JObj [(''eq'', JArr [JObj [(''ref'', JStr ''subject.identity'')], JObj [(''value'', JStr ''p:u'')]])])]"

definition demo_condition :: condition where
  "demo_condition = Compare CEq (Ref ''subject.identity'') (Literal (AString ''p:u''))"

text \<open>A runtime that knows no time zone: the time of no place can be read.\<close>

definition demo_zones :: zones where
  "demo_zones = (\<lambda>_. None)"

definition demo_definition :: policy_definition where
  "demo_definition = \<lparr> pd_kind = KAccess, pd_effect = EffectDeny, pd_actions = [''*'', ''a.b''], pd_resourceType = None, pd_attributes = None,
     pd_context = None, pd_timezone = None, pd_condition = demo_condition, pd_denyReason = None \<rparr>"

definition demo_state :: pstate where
  "demo_state = (initial_state None None None) \<lparr> ps_nodes := 3, ps_maxDepth := 1, ps_subjectRefs := [''subject.identity''] \<rparr>"

definition demo_parsed :: parsed_definition where
  "demo_parsed = \<lparr> pp_definition = demo_definition, pp_hash = [], pp_analysis = analysis_of demo_state \<rparr>"

lemma demo_snapshot: "snapshot demo_raw 0 0 = Inr (demo_plain, 13)"
  by (simp add: demo_raw_def demo_plain_def snapshot.simps require_def SNAPSHOT_MAX_NODES_def SNAPSHOT_MAX_DEPTH_def)

lemma demo_condition: "parseCondition (condition_json demo_condition) (Suc 0) (initial_state None None None) = Inr (demo_condition, demo_state)"
  by code_simp

lemma demo_actions: "parseActions (JArr [JStr ''a.b'', JStr ''*'', JStr ''a.b'']) = Inr [''*'', ''a.b'']"
  by code_simp

lemma demo_size: "utf8_length (canonicalJson (definition_json demo_definition)) \<le> MAX_POLICY_DEFINITION_BYTES"
  by code_simp

lemma demo_rules: "policy_rules (\<lambda>_. []) zones demo_plain = Inr demo_parsed"
proof -
  have object: "asObject demo_plain
      [''kind'', ''effect'', ''actions'', ''resourceType'', ''attributes'', ''context'', ''timezone'', ''condition'', ''denyReason'']
      [''kind'', ''effect'', ''actions'', ''condition''] =
    Inr [(''kind'', JStr ''access''), (''effect'', JStr ''deny''), (''actions'', JArr [JStr ''a.b'', JStr ''*'', JStr ''a.b'']),
      (''condition'', condition_json demo_condition)]"
    by (simp add: asObject_def require_def demo_plain_def mhas_def demo_condition_def)
  have "check_use KAccess None None None False demo_state" by code_simp
  then show ?thesis using demo_condition demo_actions demo_size
    by (simp add: policy_rules_def object named_def POLICY_KINDS_def POLICY_EFFECTS_def parse_code_def parseDeclarations_def parseTimezone_def
        require_def declared_def mhas_def Let_def some_declared_def demo_parsed_def demo_definition_def hashPolicyDefinition_def)
qed

lemma demo_parse: "parsePolicyDefinition (\<lambda>_. []) zones demo_raw = Inr demo_parsed"
  by (simp add: parsePolicyDefinition_def demo_snapshot demo_rules)

theorem policy_read_back_witness:
  "policy_rules (\<lambda>_. []) demo_zones (definition_json demo_definition) = Inr demo_parsed \<and> definition_json demo_definition \<noteq> demo_plain"
proof
  show "policy_rules (\<lambda>_. []) demo_zones (definition_json demo_definition) = Inr demo_parsed"
    using policy_read_back[OF demo_rules[of demo_zones]] by (simp add: demo_parsed_def)
  show "definition_json demo_definition \<noteq> demo_plain"
    by (simp add: definition_json_def demo_definition_def demo_plain_def opt_field_def)
qed

definition demo_facts :: evaluation_facts where
  "demo_facts = \<lparr> ef_subject = [(''subject.identity'', HString ''p:u'')], ef_resource = None, ef_features = [], ef_permissions = [],
     ef_now = None, ef_context = None, ef_session = None \<rparr>"

theorem policy_operands_typed_witness: "checkComparison CEq (type_of (AString ''p:u'')) (type_of (AString ''p:u''))"
  by (rule policy_operands_typed[OF demo_parse, of CEq "Ref ''subject.identity''" "Literal (AString ''p:u'')" demo_zones demo_facts])
    (simp_all add: demo_parsed_def demo_definition_def demo_condition_def demo_facts_def resolveRef_def SUBJECT_ATTRIBUTES_def
      checked_def MAX_RESOURCE_VALUE_LENGTH_def)

text \<open>A definition whose last comparison passes the limit of 64 nodes is accepted with 66.\<close>

definition demo_exists :: json where
  "demo_exists = JObj [(''exists'', JStr ''subject.identity'')]"

definition demo_asks_feature :: json where
  "demo_asks_feature = JObj [(''feature'', JStr ''f'')]"

definition demo_large :: json where
  "demo_large = JObj [(''all'', JArr
     [JObj [(''all'', JArr (replicate 15 demo_exists))], JObj [(''all'', JArr (replicate 14 demo_exists))], demo_asks_feature, demo_asks_feature,
      condition_json demo_condition])]"

lemma demo_large_nodes: "(case parseCondition demo_large 1 (initial_state None None None) of Inr (c, st) \<Rightarrow> ps_nodes st | Inl e \<Rightarrow> 0) = 66"
  by code_simp

theorem policy_size_bounded_witness: "nodes demo_condition \<le> 64 \<and> an_nodes (pp_analysis demo_parsed) = 3 \<and>
    (case parseCondition demo_large 1 (initial_state None None None) of Inr (c, st) \<Rightarrow> ps_nodes st | Inl e \<Rightarrow> 0) = 66"
  using policy_size_bounded[OF demo_parse] demo_large_nodes
  by (simp add: demo_parsed_def demo_definition_def demo_state_def analysis_of_def)

definition demo_null :: raw where
  "demo_null = RObj True False
     [(''kind'', Some (RStr ''access'')), (''effect'', Some (RStr ''deny'')), (''actions'', Some (RArr [Some (RStr ''*'')])),
      (''attributes'', Some RNull), (''condition'', Some RNull)]"

definition demo_null_plain :: json where
  "demo_null_plain = JObj [(''kind'', JStr ''access''), (''effect'', JStr ''deny''), (''actions'', JArr [JStr ''*'']),
     (''attributes'', JNull), (''condition'', JNull)]"

lemma demo_null_parse: "parsePolicyDefinition (\<lambda>_. []) demo_zones demo_null = Inl TypeErr"
proof -
  have "snapshot demo_null 0 0 = Inr (demo_null_plain, 7)"
    by (simp add: demo_null_def demo_null_plain_def snapshot.simps require_def SNAPSHOT_MAX_NODES_def SNAPSHOT_MAX_DEPTH_def)
  moreover have "policy_rules (\<lambda>_. []) demo_zones demo_null_plain = Inl TypeErr" by code_simp
  ultimately show ?thesis by (simp add: parsePolicyDefinition_def)
qed

theorem policy_refusals_witness: "parsePolicyDefinition (\<lambda>_. []) demo_zones demo_null = Inl TypeErr \<and>
    (\<exists>root n. snapshot demo_null 0 0 = Inr (JObj root, n) \<and> (mget root ''attributes'' = Some JNull \<or> mget root ''context'' = Some JNull))"
  using policy_refusals[OF demo_null_parse] demo_null_parse by simp

definition demo_policy :: evaluable_policy where
  "demo_policy = \<lparr> ev_id = ''q2'', ev_key = ''u'', ev_revision = 1, ev_hash = [], ev_definition = demo_definition \<rparr>"

theorem policies_always_decided_witness:
  "se_decision (evaluatePolicySet demo_zones [demo_policy] \<lparr> rq_permission = ''a.b'', rq_resourceType = None \<rparr> demo_facts False MAX_EVALUATION_STEPS) = VDeny"
proof -
  let ?r = "\<lparr> rq_permission = ''a.b'', rq_resourceType = None \<rparr>"
  have stored: "\<exists>H zones input q. parsePolicyDefinition H zones input = Inr q \<and> ev_definition demo_policy = pp_definition q"
    by (intro exI conjI, rule demo_parse[of "\<lambda>_. None"]) (simp add: demo_policy_def demo_parsed_def)
  have "se_decision (evaluatePolicySet demo_zones [demo_policy] ?r demo_facts False MAX_EVALUATION_STEPS) =
      combineVerdicts (map (says demo_zones demo_facts ?r) [demo_policy])"
    by (rule policies_always_decided) (use stored in \<open>simp_all add: isProtectedPermission_def MAX_ACTIVE_POLICIES_def\<close>)
  also have "\<dots> = VDeny" by code_simp
  finally show ?thesis .
qed

end
