(* ===== verification/PolicyStore.thy ===== *)
theory PolicyStore
  imports PolicyParsed
begin

text \<open>
  The policy repository in memory: \<open>packages/core/src/policy/memory.ts\<close>, with the rules every backend shares
  (\<open>policy/repository.ts\<close>) and the tokens of \<open>policy/authorization.ts\<close>.

  A write that throws has not changed anything, so an operation returns an error or a result with the next state.
  What surrounds the repository (the hash, the time zones, the tokens the process has issued, the clock and the
  organizations that exist) is the argument \<open>env\<close>.
\<close>

section \<open>Tokens\<close>

datatype policy_operation = PolicyCreate | PolicyUpdate | PolicyActivate | PolicyDisable | PolicyRetire | PolicyDelete

record policy_token =
  pk_organizationId :: string
  pk_actor :: identity
  pk_operations :: "policy_operation list"
  pk_expiresAt :: timestamp
  pk_trusted :: bool

type_synonym policy_tokens = "(nat, policy_token) jsmap"

definition POLICY_TTL_MS :: int where
  "POLICY_TTL_MS = 60000"

definition polErr :: "string \<Rightarrow> uerror" where
  "polErr c = UError EPolicy c"

definition issuePolicyAuthorization ::
  "nat \<Rightarrow> string \<Rightarrow> identity \<Rightarrow> policy_operation list \<Rightarrow> bool \<Rightarrow> timestamp \<Rightarrow> policy_tokens \<Rightarrow> policy_tokens" where
  "issuePolicyAuthorization ref organizationId actor operations trusted now issued =
     mset_at ref \<lparr> pk_organizationId = organizationId, pk_actor = actor, pk_operations = operations,
                   pk_expiresAt = now + POLICY_TTL_MS, pk_trusted = trusted \<rparr> issued"

definition assertPolicyAuthorization ::
  "policy_tokens \<Rightarrow> timestamp \<Rightarrow> nat option \<Rightarrow> string \<Rightarrow> policy_operation \<Rightarrow> identity option \<Rightarrow> uerror + unit" where
  "assertPolicyAuthorization issued now authorization organizationId operation actor =
     (case Option.bind authorization (mget issued) of
        None \<Rightarrow> Inl (polErr ''policy_authorization_required'')
      | Some token \<Rightarrow>
          if pk_expiresAt token < now \<or> pk_organizationId token \<noteq> organizationId \<or>
             operation \<notin> set (pk_operations token) \<or>
             (\<not> pk_trusted token \<and> (case actor of None \<Rightarrow> False | Some a \<Rightarrow> a \<noteq> pk_actor token))
          then Inl (polErr ''policy_authorization_required'')
          else Inr ())"

section \<open>Rows\<close>

record policy =
  po_id :: string
  po_organizationId :: string
  po_key :: string
  po_name :: string
  po_description :: "string option"
  po_kind :: policy_kind
  po_effect :: policy_effect
  po_status :: policy_status
  po_revision :: int
  po_definition :: policy_definition
  po_definitionHash :: string
  po_createdAt :: timestamp
  po_createdBy :: identity
  po_updatedAt :: timestamp
  po_statusChange :: "status_change option"
  po_activatedAt :: "timestamp option"
  po_version :: int

record policy_revision =
  pr_policyId :: string
  pr_organizationId :: string
  pr_revision :: int
  pr_definition :: policy_definition
  pr_definitionHash :: string
  pr_createdAt :: timestamp
  pr_createdBy :: identity
  pr_note :: "string option"

record policy_store =
  pm_policies :: "(string, policy) jsmap"
  pm_revisions :: "(string, policy_revision list) jsmap"
  pm_setRevisions :: "(string, int) jsmap"
  pm_lastRevision :: int

definition empty_policies :: policy_store where
  "empty_policies = \<lparr> pm_policies = [], pm_revisions = [], pm_setRevisions = [], pm_lastRevision = 0 \<rparr>"

record policy_env =
  pe_hash :: "string \<Rightarrow> string"
  pe_zones :: zones
  pe_issued :: policy_tokens
  pe_now :: timestamp
  pe_organizationExists :: "string \<Rightarrow> bool"

section \<open>Rules every backend applies\<close>

definition MAX_POLICIES_PER_ORGANIZATION :: nat where
  "MAX_POLICIES_PER_ORGANIZATION = 1000"

definition MAX_POLICY_REVISIONS :: nat where
  "MAX_POLICY_REVISIONS = 1000"

fun POLICY_TRANSITIONS :: "policy_status \<Rightarrow> policy_status list" where
  "POLICY_TRANSITIONS PDraft = [PActive]"
| "POLICY_TRANSITIONS PActive = [PDisabled, PRetired]"
| "POLICY_TRANSITIONS PDisabled = [PActive, PRetired]"
| "POLICY_TRANSITIONS PRetired = []"

definition isPolicyTransitionAllowed :: "policy_status \<Rightarrow> policy_status \<Rightarrow> bool" where
  "isPolicyTransitionAllowed frm to \<longleftrightarrow> to \<in> set (POLICY_TRANSITIONS frm)"

definition assertPolicyTransition :: "policy_status \<Rightarrow> policy_status \<Rightarrow> uerror + unit" where
  "assertPolicyTransition frm to =
     (if frm = to then Inr ()
      else if frm = PRetired then Inl (polErr ''policy_retired'')
      else if \<not> isPolicyTransitionAllowed frm to then Inl (polErr ''policy_transition_invalid'')
      else Inr ())"

definition assertPolicyId :: "string \<Rightarrow> uerror + string" where
  "assertPolicyId v = (if trim v = [] \<or> length v > 200 then Inl (polErr ''policy_invalid'') else Inr v)"

record create_policy_input =
  cp_authorization :: "nat option"
  cp_id :: string
  cp_organizationId :: string
  cp_key :: string
  cp_name :: string
  cp_description :: "string option"
  cp_definition :: raw
  cp_createdBy :: identity
  cp_note :: "string option"
  cp_now :: "timestamp option"

record valid_create =
  vc_key :: string
  vc_name :: string
  vc_description :: "string option"
  vc_parsed :: parsed_definition
  vc_note :: "string option"
  vc_now :: timestamp

definition assertValidCreatePolicy :: "policy_env \<Rightarrow> create_policy_input \<Rightarrow> uerror + valid_create" where
  "assertValidCreatePolicy env input =
     bindr (assertPolicyId (cp_id input)) (\<lambda>_.
     bindr (assertPolicyId (cp_organizationId input)) (\<lambda>_.
     bindr (sanitizePolicyDescription (cp_description input)) (\<lambda>description.
     bindr (assertValidPolicyKey (cp_key input)) (\<lambda>key.
     bindr (sanitizePolicyName (cp_name input)) (\<lambda>name.
     bindr (parsePolicyDefinition (pe_hash env) (pe_zones env) (cp_definition input)) (\<lambda>parsed.
     Inr \<lparr> vc_key = key, vc_name = name, vc_description = description, vc_parsed = parsed,
           vc_note = sanitizePolicyNote (cp_note input), vc_now = (case cp_now input of None \<Rightarrow> pe_now env | Some t \<Rightarrow> t) \<rparr>))))))"

text \<open>The outer option is a field that was passed; \<open>Some None\<close> of the description clears it.\<close>

record update_policy_input =
  up_authorization :: "nat option"
  up_actor :: identity
  up_name :: "string option"
  up_description :: "string option option"
  up_definition :: "raw option"
  up_note :: "string option"
  up_expectedVersion :: "int option"

record valid_update =
  vu_name :: "string option"
  vu_description :: "string option option"
  vu_parsed :: "parsed_definition option"
  vu_note :: "string option"

definition assertValidUpdatePolicy :: "policy_env \<Rightarrow> update_policy_input \<Rightarrow> uerror + valid_update" where
  "assertValidUpdatePolicy env input =
     bindr (opt_check sanitizePolicyName (up_name input)) (\<lambda>name.
     bindr (opt_check sanitizePolicyDescription (up_description input)) (\<lambda>description.
     bindr (opt_check (parsePolicyDefinition (pe_hash env) (pe_zones env)) (up_definition input)) (\<lambda>parsed.
     if name = None \<and> description = None \<and> parsed = None then Inl (polErr ''policy_update_empty'')
     else Inr \<lparr> vu_name = name, vu_description = description, vu_parsed = parsed, vu_note = sanitizePolicyNote (up_note input) \<rparr>)))"

section \<open>Reading\<close>

definition inOrganization :: "policy_store \<Rightarrow> string \<Rightarrow> policy list" where
  "inOrganization s og = filter (\<lambda>p. po_organizationId p = og) (mvals (pm_policies s))"

definition pol_find :: "policy_store \<Rightarrow> string \<Rightarrow> string \<Rightarrow> policy option" where
  "pol_find s og i = (case mget (pm_policies s) i of None \<Rightarrow> None | Some p \<Rightarrow> if po_organizationId p = og then Some p else None)"

definition pol_require :: "policy_store \<Rightarrow> string \<Rightarrow> string \<Rightarrow> uerror + policy" where
  "pol_require s og i = (case pol_find s og i of None \<Rightarrow> Inl (polErr ''policy_not_found'') | Some p \<Rightarrow> Inr p)"

definition pol_assertVersion :: "policy \<Rightarrow> int option \<Rightarrow> uerror + unit" where
  "pol_assertVersion p expected =
     bindr (assertExpectedVersion expected 1) (\<lambda>e. if version_ok e (po_version p) then Inr () else Inl (polErr ''policy_version_conflict''))"

definition pol_findByKey :: "policy_store \<Rightarrow> string \<Rightarrow> string \<Rightarrow> policy option" where
  "pol_findByKey s og key = find (\<lambda>p. po_key p = key) (inOrganization s og)"

record policy_filter =
  pf_organizationId :: string
  pf_status :: "policy_status option"
  pf_kind :: "policy_kind option"
  pf_effect :: "policy_effect option"
  pf_query :: "string option"

definition pol_matches :: "policy \<Rightarrow> policy_filter \<Rightarrow> bool" where
  "pol_matches p f \<longleftrightarrow>
     po_organizationId p = pf_organizationId f \<and> opt_match (\<lambda>x. po_status p = x) (pf_status f) \<and>
     opt_match (\<lambda>x. po_kind p = x) (pf_kind f) \<and> opt_match (\<lambda>x. po_effect p = x) (pf_effect f) \<and>
     (case map_option (\<lambda>q. lower (trim q)) (pf_query f) of None \<Rightarrow> True
      | Some q \<Rightarrow> q = [] \<or> str_includes q (lower (po_name p)) \<or> str_includes q (po_key p))"

definition pol_search :: "policy_store \<Rightarrow> policy_filter \<Rightarrow> int option \<Rightarrow> string option \<Rightarrow> policy list" where
  "pol_search s f limit after =
     take (clamp_limit 50 200 limit)
       (sort_by (\<lambda>a b. po_id a < po_id b) (filter (\<lambda>p. pol_matches p f \<and> opt_match (\<lambda>a. po_id p > a) after) (mvals (pm_policies s))))"

definition pol_count :: "policy_store \<Rightarrow> policy_filter \<Rightarrow> int option \<Rightarrow> int" where
  "pol_count s f limit =
     (let total = int (length (filter (\<lambda>p. pol_matches p f) (mvals (pm_policies s)))) in case limit of None \<Rightarrow> total | Some l \<Rightarrow> min total l)"

definition history :: "policy_store \<Rightarrow> string \<Rightarrow> policy_revision list" where
  "history s i = (case mget (pm_revisions s) i of None \<Rightarrow> [] | Some rows \<Rightarrow> rows)"

definition pol_revisions :: "policy_store \<Rightarrow> string \<Rightarrow> string \<Rightarrow> int option \<Rightarrow> int option \<Rightarrow> uerror + policy_revision list" where
  "pol_revisions s og i limit before =
     bindr (pol_require s og i) (\<lambda>_.
       Inr (take (clamp_limit 50 200 limit)
         (sort_by (\<lambda>a b. pr_revision b < pr_revision a) (filter (\<lambda>r. opt_match (\<lambda>b. pr_revision r < b) before) (history s i)))))"

definition pol_findRevision :: "policy_store \<Rightarrow> string \<Rightarrow> string \<Rightarrow> int \<Rightarrow> policy_revision option" where
  "pol_findRevision s og i revision =
     (if pol_find s og i = None then None else find (\<lambda>r. pr_revision r = revision) (history s i))"

definition setRevision :: "policy_store \<Rightarrow> string \<Rightarrow> int" where
  "setRevision s og = (case mget (pm_setRevisions s) og of None \<Rightarrow> 0 | Some r \<Rightarrow> r)"

text \<open>One more than allowed shows that the limit was bypassed.\<close>

definition activeSet :: "policy_store \<Rightarrow> string \<Rightarrow> int \<times> policy list" where
  "activeSet s og =
     (setRevision s og,
      take (MAX_ACTIVE_POLICIES + 1) (sort_by (\<lambda>a b. po_id a < po_id b) (filter (\<lambda>p. po_status p = PActive) (inOrganization s og))))"

section \<open>Writing\<close>

definition bump :: "string \<Rightarrow> policy_store \<Rightarrow> policy_store" where
  "bump og s = s \<lparr> pm_lastRevision := pm_lastRevision s + 1, pm_setRevisions := mset_at og (pm_lastRevision s + 1) (pm_setRevisions s) \<rparr>"

definition new_policy :: "create_policy_input \<Rightarrow> valid_create \<Rightarrow> policy" where
  "new_policy input v =
     \<lparr> po_id = cp_id input, po_organizationId = cp_organizationId input, po_key = vc_key v, po_name = vc_name v,
       po_description = vc_description v, po_kind = pd_kind (pp_definition (vc_parsed v)), po_effect = pd_effect (pp_definition (vc_parsed v)),
       po_status = PDraft, po_revision = 1, po_definition = pp_definition (vc_parsed v), po_definitionHash = pp_hash (vc_parsed v),
       po_createdAt = vc_now v, po_createdBy = cp_createdBy input, po_updatedAt = vc_now v, po_statusChange = None,
       po_activatedAt = None, po_version = 1 \<rparr>"

definition first_revision :: "policy \<Rightarrow> create_policy_input \<Rightarrow> valid_create \<Rightarrow> policy_revision" where
  "first_revision p input v =
     \<lparr> pr_policyId = po_id p, pr_organizationId = po_organizationId p, pr_revision = 1, pr_definition = po_definition p,
       pr_definitionHash = po_definitionHash p, pr_createdAt = vc_now v, pr_createdBy = cp_createdBy input, pr_note = vc_note v \<rparr>"

definition pol_create :: "policy_env \<Rightarrow> create_policy_input \<Rightarrow> policy_store \<Rightarrow> uerror + policy \<times> policy_store" where
  "pol_create env input s =
     bindr (assertPolicyAuthorization (pe_issued env) (pe_now env) (cp_authorization input) (cp_organizationId input) PolicyCreate (Some (cp_createdBy input))) (\<lambda>_.
     bindr (assertValidCreatePolicy env input) (\<lambda>valid.
       if \<not> pe_organizationExists env (cp_organizationId input) then Inl (polErr ''policy_organization_unknown'')
       else if mhas (pm_policies s) (cp_id input) then Inl (polErr ''policy_exists'')
       else
         let existing = inOrganization s (cp_organizationId input) in
         if list_ex (\<lambda>p. po_key p = vc_key valid) existing then Inl (polErr ''policy_key_taken'')
         else if length existing \<ge> MAX_POLICIES_PER_ORGANIZATION then Inl (polErr ''policy_limit_reached'')
         else
           let p = new_policy input valid in
           Inr (p, bump (po_organizationId p)
             (s \<lparr> pm_policies := mset_at (po_id p) p (pm_policies s),
                  pm_revisions := mset_at (po_id p) [first_revision p input valid] (pm_revisions s) \<rparr>))))"

record status_input =
  si_authorization :: "nat option"
  si_actor :: identity
  si_reason :: "string option"
  si_expectedVersion :: "int option"

text \<open>The value a stored definition is when it is read again.\<close>

fun raw_of :: "json \<Rightarrow> raw" where
  "raw_of JNull = RNull"
| "raw_of (JBool b) = RBool b"
| "raw_of (JNum n) = RNum n"
| "raw_of (JStr t) = RStr t"
| "raw_of (JArr xs) = RArr (map (\<lambda>x. Some (raw_of x)) xs)"
| "raw_of (JObj kvs) = RObj True False (map (\<lambda>(k, v). (k, Some (raw_of v))) kvs)"

definition parse_stored :: "(string \<Rightarrow> string) \<Rightarrow> zones \<Rightarrow> policy_definition \<Rightarrow> uerror + parsed_definition" where
  "parse_stored H zones d = parsePolicyDefinition H zones (raw_of (definition_json d))"

definition changed_status :: "timestamp \<Rightarrow> status_input \<Rightarrow> policy_status \<Rightarrow> policy \<Rightarrow> policy" where
  "changed_status now input to p =
     p \<lparr> po_status := to, po_statusChange := Some \<lparr> ch_at = now, ch_by = si_actor input, ch_reason = sanitizePolicyNote (si_reason input) \<rparr>,
         po_activatedAt := (if to = PActive \<and> po_activatedAt p = None then Some now else po_activatedAt p),
         po_updatedAt := now, po_version := po_version p + 1 \<rparr>"

definition changeStatus ::
  "policy_env \<Rightarrow> string \<Rightarrow> string \<Rightarrow> policy_status \<Rightarrow> policy_operation \<Rightarrow> status_input \<Rightarrow> policy_store \<Rightarrow> uerror + policy \<times> policy_store" where
  "changeStatus env og i to operation input s =
     bindr (assertPolicyAuthorization (pe_issued env) (pe_now env) (si_authorization input) og operation (Some (si_actor input))) (\<lambda>_.
     bindr (pol_require s og i) (\<lambda>p.
     bindr (pol_assertVersion p (si_expectedVersion input)) (\<lambda>_.
       if po_status p = to then Inr (p, s)
       else
         bindr (assertPolicyTransition (po_status p) to) (\<lambda>_.
         bindr (if to = PActive
                then bindr (parse_stored (pe_hash env) (pe_zones env) (po_definition p)) (\<lambda>_.
                       if length (filter (\<lambda>q. po_status q = PActive) (inOrganization s og)) \<ge> MAX_ACTIVE_POLICIES
                       then Inl (polErr ''policy_limit_reached'') else Inr ())
                else Inr ()) (\<lambda>_.
           let saved = changed_status (pe_now env) input to p in
           Inr (saved, bump og (s \<lparr> pm_policies := mset_at i saved (pm_policies s) \<rparr>)))))))"

definition pol_activate :: "policy_env \<Rightarrow> string \<Rightarrow> string \<Rightarrow> status_input \<Rightarrow> policy_store \<Rightarrow> uerror + policy \<times> policy_store" where
  "pol_activate env og i = changeStatus env og i PActive PolicyActivate"

definition pol_disable :: "policy_env \<Rightarrow> string \<Rightarrow> string \<Rightarrow> status_input \<Rightarrow> policy_store \<Rightarrow> uerror + policy \<times> policy_store" where
  "pol_disable env og i = changeStatus env og i PDisabled PolicyDisable"

definition pol_retire :: "policy_env \<Rightarrow> string \<Rightarrow> string \<Rightarrow> status_input \<Rightarrow> policy_store \<Rightarrow> uerror + policy \<times> policy_store" where
  "pol_retire env og i = changeStatus env og i PRetired PolicyRetire"

text \<open>The name and the description of an update, and whether either changed.\<close>

definition updated_text :: "valid_update \<Rightarrow> policy \<Rightarrow> policy \<times> bool" where
  "updated_text v p =
     (let named = (case vu_name v of None \<Rightarrow> False | Some n \<Rightarrow> n \<noteq> po_name p);
          described = (case vu_description v of None \<Rightarrow> False | Some d \<Rightarrow> d \<noteq> po_description p);
          p1 = (if named then p \<lparr> po_name := the (vu_name v) \<rparr> else p);
          p2 = (if described then p1 \<lparr> po_description := the (vu_description v) \<rparr> else p1)
      in (p2, named \<or> described))"

definition next_revision :: "timestamp \<Rightarrow> update_policy_input \<Rightarrow> valid_update \<Rightarrow> parsed_definition \<Rightarrow> policy \<Rightarrow> policy_revision" where
  "next_revision now input v parsed p =
     \<lparr> pr_policyId = po_id p, pr_organizationId = po_organizationId p, pr_revision = po_revision p + 1, pr_definition = pp_definition parsed,
       pr_definitionHash = pp_hash parsed, pr_createdAt = now, pr_createdBy = up_actor input, pr_note = vu_note v \<rparr>"

definition revised :: "policy_revision \<Rightarrow> policy \<Rightarrow> policy" where
  "revised r p =
     p \<lparr> po_revision := pr_revision r, po_definition := pr_definition r, po_definitionHash := pr_definitionHash r,
         po_kind := pd_kind (pr_definition r), po_effect := pd_effect (pr_definition r) \<rparr>"

definition pol_update :: "policy_env \<Rightarrow> string \<Rightarrow> string \<Rightarrow> update_policy_input \<Rightarrow> policy_store \<Rightarrow> uerror + policy \<times> policy_store" where
  "pol_update env og i input s =
     bindr (assertPolicyAuthorization (pe_issued env) (pe_now env) (up_authorization input) og PolicyUpdate (Some (up_actor input))) (\<lambda>_.
     bindr (assertValidUpdatePolicy env input) (\<lambda>v.
     bindr (pol_require s og i) (\<lambda>p.
     bindr (pol_assertVersion p (up_expectedVersion input)) (\<lambda>_.
       if po_status p = PRetired then Inl (polErr ''policy_retired'')
       else
         let (q, changed) = updated_text v p in
         case vu_parsed v of
           Some parsed \<Rightarrow>
             if pp_hash parsed \<noteq> po_definitionHash p then
               (if length (history s i) \<ge> MAX_POLICY_REVISIONS then Inl (polErr ''policy_limit_reached'')
                else
                  let r = next_revision (pe_now env) input v parsed p;
                      saved = (revised r q) \<lparr> po_updatedAt := pe_now env, po_version := po_version p + 1 \<rparr>
                  in Inr (saved, bump og (s \<lparr> pm_policies := mset_at i saved (pm_policies s),
                                             pm_revisions := mset_at i (history s i @ [r]) (pm_revisions s) \<rparr>)))
             else if \<not> changed then Inr (p, s)
             else (let saved = q \<lparr> po_updatedAt := pe_now env, po_version := po_version p + 1 \<rparr>
                   in Inr (saved, bump og (s \<lparr> pm_policies := mset_at i saved (pm_policies s) \<rparr>)))
         | None \<Rightarrow>
             if \<not> changed then Inr (p, s)
             else (let saved = q \<lparr> po_updatedAt := pe_now env, po_version := po_version p + 1 \<rparr>
                   in Inr (saved, bump og (s \<lparr> pm_policies := mset_at i saved (pm_policies s) \<rparr>)))))))"

definition pol_delete :: "policy_env \<Rightarrow> string \<Rightarrow> string \<Rightarrow> nat option \<Rightarrow> policy_store \<Rightarrow> uerror + policy_store" where
  "pol_delete env og i authorization s =
     bindr (assertPolicyAuthorization (pe_issued env) (pe_now env) authorization og PolicyDelete None) (\<lambda>_.
     bindr (pol_require s og i) (\<lambda>p.
       if po_status p \<noteq> PDraft \<or> po_activatedAt p \<noteq> None then Inl (polErr ''policy_not_draft'')
       else Inr (bump og (s \<lparr> pm_policies := mdel i (pm_policies s), pm_revisions := mdel i (pm_revisions s) \<rparr>))))"

end
