(* ===== verification/PolicyLife.thy ===== *)
theory PolicyLife
  imports PolicyStore
begin

text \<open>
  The life of policies in the repository of \<open>PolicyStore\<close>: the states that sequences of writes reach, the invariant
  they keep, and what it gives: a retired policy is frozen, its key is never used again, a revision is
  never rewritten, and the policy-set revision of an organization tells exactly when its policies are the same.
\<close>

section \<open>Tables\<close>

lemma mvals_new: "mget m k = None \<Longrightarrow> mvals (mset_at k v m) = mvals m @ [v]"
  by (induction m) (auto simp: mvals_def split: if_splits)

lemma mvals_replace:
  assumes "keyed f m" "mget m k = Some w"
  shows "mvals (mset_at k v m) = map (\<lambda>x. if f x = k then v else x) (mvals m)"
  using assms
proof (induction m)
  case (Cons p m)
  have k: "keyed f m" "f (snd p) = fst p" "fst p \<notin> fst ` set m" "\<forall>q \<in> set m. f (snd q) = fst q" using Cons.prems by (auto simp: keyed_def)
  show ?case
  proof (cases "fst p = k")
    case True
    have "map (\<lambda>x. if f x = k then v else x) (map snd m) = map snd m"
    proof (rule map_idI)
      fix x assume "x \<in> set (map snd m)"
      then obtain q where "q \<in> set m" "x = snd q" by auto
      then have "f x = fst q" "fst q \<in> fst ` set m" using k(4) by simp_all
      then have "f x \<noteq> k" using k(3) True by metis
      then show "(if f x = k then v else x) = x" by simp
    qed
    then show ?thesis using True k(2) by (cases p) (auto simp: mvals_def)
  next
    case False
    then show ?thesis using Cons.IH[OF k(1)] Cons.prems(2) k(2) by (cases p) (auto simp: mvals_def)
  qed
qed simp

lemma mvals_delete:
  assumes "keyed f m"
  shows "mvals (mdel k m) = filter (\<lambda>x. f x \<noteq> k) (mvals m)"
  using assms by (induction m) (auto simp: keyed_def mvals_def AList.delete_eq)

text \<open>Replacing one row changes a count by at most that row.\<close>

lemma count_replace:
  assumes "distinct (map f xs)"
  shows "length (filter P (map (\<lambda>x. if f x = k then v else x) xs)) \<le> length (filter P xs) + (if P v then 1 else 0)"
    and "(\<And>x. x \<in> set xs \<Longrightarrow> f x = k \<Longrightarrow> P v \<Longrightarrow> P x) \<Longrightarrow> length (filter P (map (\<lambda>x. if f x = k then v else x) xs)) \<le> length (filter P xs)"
proof -
  have same: "map (\<lambda>x. if f x = k then v else x) ys = ys" if "k \<notin> f ` set ys" for ys using that by (induction ys) auto
  show "length (filter P (map (\<lambda>x. if f x = k then v else x) xs)) \<le> length (filter P xs) + (if P v then 1 else 0)"
    using assms
  proof (induction xs)
    case (Cons x xs)
    show ?case
    proof (cases "f x = k")
      case True
      then show ?thesis using Cons.prems same[of xs] by simp
    next
      case False
      then show ?thesis using Cons by (cases "P v") simp_all
    qed
  qed simp
  show "length (filter P (map (\<lambda>x. if f x = k then v else x) xs)) \<le> length (filter P xs)" if "\<And>x. x \<in> set xs \<Longrightarrow> f x = k \<Longrightarrow> P v \<Longrightarrow> P x"
    using that by (induction xs) auto
qed

section \<open>What a write does\<close>

lemma assertPolicyAuthorization_Inr:
  "assertPolicyAuthorization issued now authorization og operation actor = Inr u \<Longrightarrow>
     \<exists>ref token. authorization = Some ref \<and> mget issued ref = Some token \<and> now \<le> pk_expiresAt token \<and>
       pk_organizationId token = og \<and> operation \<in> set (pk_operations token)"
  by (auto simp: assertPolicyAuthorization_def bind_eq_Some_conv split: option.splits if_splits)

lemma pol_find_iff: "pol_find s og i = Some p \<longleftrightarrow> mget (pm_policies s) i = Some p \<and> po_organizationId p = og"
  by (auto simp: pol_find_def split: option.split)

lemma pol_require_iff: "pol_require s og i = Inr p \<longleftrightarrow> mget (pm_policies s) i = Some p \<and> po_organizationId p = og"
  by (auto simp: pol_require_def pol_find_def split: option.splits if_splits)

definition put_policy :: "policy \<Rightarrow> policy_store \<Rightarrow> policy_store" where
  "put_policy p s = s \<lparr> pm_policies := mset_at (po_id p) p (pm_policies s) \<rparr>"

definition put_revision :: "string \<Rightarrow> policy_revision list \<Rightarrow> policy_store \<Rightarrow> policy_store" where
  "put_revision i rows s = s \<lparr> pm_revisions := mset_at i rows (pm_revisions s) \<rparr>"

definition drop_policy :: "string \<Rightarrow> policy_store \<Rightarrow> policy_store" where
  "drop_policy i s = s \<lparr> pm_policies := mdel i (pm_policies s), pm_revisions := mdel i (pm_revisions s) \<rparr>"

lemma pol_create_cases:
  assumes "pol_create env input s = Inr (p, s')"
  obtains v where "assertValidCreatePolicy env input = Inr v" "p = new_policy input v"
    "mget (pm_policies s) (po_id p) = None" "\<forall>q \<in> set (inOrganization s (po_organizationId p)). po_key q \<noteq> po_key p"
    "length (inOrganization s (po_organizationId p)) < MAX_POLICIES_PER_ORGANIZATION"
    "s' = bump (po_organizationId p) (put_revision (po_id p) [first_revision p input v] (put_policy p s))"
  using assms
  by (auto simp: pol_create_def Let_def mhas_def list_ex_iff new_policy_def put_policy_def put_revision_def split: if_splits)

lemma changeStatus_cases:
  assumes "changeStatus env og i to operation input s = Inr (q, s')"
  obtains (same) "mget (pm_policies s) i = Some q" "po_organizationId q = og" "s' = s"
  | (move) p where "mget (pm_policies s) i = Some p" "po_organizationId p = og" "to \<in> set (POLICY_TRANSITIONS (po_status p))"
      "to = PActive \<longrightarrow> length (filter (\<lambda>q. po_status q = PActive) (inOrganization s og)) < MAX_ACTIVE_POLICIES"
      "q = changed_status (pe_now env) input to p" "s' = bump og (s \<lparr> pm_policies := mset_at i q (pm_policies s) \<rparr>)"
proof -
  obtain p where p: "mget (pm_policies s) i = Some p" "po_organizationId p = og"
    and r: "(if po_status p = to then Inr (p, s)
       else
         bindr (assertPolicyTransition (po_status p) to) (\<lambda>_.
         bindr (if to = PActive
                then bindr (parse_stored (pe_hash env) (pe_zones env) (po_definition p)) (\<lambda>_.
                       if length (filter (\<lambda>q. po_status q = PActive) (inOrganization s og)) \<ge> MAX_ACTIVE_POLICIES
                       then Inl (polErr ''policy_limit_reached'') else Inr ())
                else Inr ()) (\<lambda>_.
           let saved = changed_status (pe_now env) input to p in
           Inr (saved, bump og (s \<lparr> pm_policies := mset_at i saved (pm_policies s) \<rparr>))))) = Inr (q, s')"
    using assms by (auto simp: changeStatus_def pol_require_iff)
  show thesis
  proof (cases "po_status p = to")
    case True
    then show thesis using same p r by simp
  next
    case False
    then have "to \<in> set (POLICY_TRANSITIONS (po_status p))" using r
      by (auto simp: assertPolicyTransition_def isPolicyTransitionAllowed_def split: if_splits)
    moreover have "to = PActive \<longrightarrow> length (filter (\<lambda>q. po_status q = PActive) (inOrganization s og)) < MAX_ACTIVE_POLICIES"
      using r False by (auto split: if_splits)
    ultimately show thesis using move[OF p] r False by (auto simp: Let_def)
  qed
qed

lemma updated_text_same:
  "po_id (fst (updated_text v p)) = po_id p \<and> po_organizationId (fst (updated_text v p)) = po_organizationId p \<and>
   po_key (fst (updated_text v p)) = po_key p \<and> po_status (fst (updated_text v p)) = po_status p \<and>
   po_activatedAt (fst (updated_text v p)) = po_activatedAt p \<and> po_revision (fst (updated_text v p)) = po_revision p \<and>
   po_definition (fst (updated_text v p)) = po_definition p \<and> po_definitionHash (fst (updated_text v p)) = po_definitionHash p \<and>
   po_kind (fst (updated_text v p)) = po_kind p \<and> po_effect (fst (updated_text v p)) = po_effect p \<and>
   po_version (fst (updated_text v p)) = po_version p \<and> po_createdAt (fst (updated_text v p)) = po_createdAt p"
  by (simp add: updated_text_def Let_def)

text \<open>A row may be replaced by one that keeps what never changes.\<close>

definition same_policy :: "policy \<Rightarrow> policy \<Rightarrow> bool" where
  "same_policy p q \<longleftrightarrow> po_id q = po_id p \<and> po_organizationId q = po_organizationId p \<and> po_key q = po_key p \<and> po_createdAt q = po_createdAt p \<and>
     po_version q = po_version p + 1"

definition same_rule :: "policy \<Rightarrow> policy \<Rightarrow> bool" where
  "same_rule p q \<longleftrightarrow> po_revision q = po_revision p \<and> po_definition q = po_definition p \<and> po_definitionHash q = po_definitionHash p \<and>
     po_kind q = po_kind p \<and> po_effect q = po_effect p"

lemma pol_update_cases:
  assumes "pol_update env og i input s = Inr (q, s')"
  obtains (same) "mget (pm_policies s) i = Some q" "po_organizationId q = og" "s' = s"
  | (words) p where "mget (pm_policies s) i = Some p" "po_organizationId p = og" "po_status p \<noteq> PRetired" "po_status q = po_status p"
      "po_activatedAt q = po_activatedAt p" "same_policy p q" "same_rule p q" "s' = bump og (s \<lparr> pm_policies := mset_at i q (pm_policies s) \<rparr>)"
  | (newrule) p parsed r raw where "mget (pm_policies s) i = Some p" "po_organizationId p = og" "po_status p \<noteq> PRetired" "po_status q = po_status p"
      "po_activatedAt q = po_activatedAt p" "same_policy p q" "parsePolicyDefinition (pe_hash env) (pe_zones env) raw = Inr parsed"
      "r = next_revision (pe_now env) input (\<lparr> vu_name = None, vu_description = None, vu_parsed = None, vu_note = pr_note r \<rparr>) parsed p"
      "po_revision q = po_revision p + 1" "po_definition q = pp_definition parsed" "po_definitionHash q = pp_hash parsed"
      "po_kind q = pd_kind (pp_definition parsed)" "po_effect q = pd_effect (pp_definition parsed)"
      "s' = bump og (s \<lparr> pm_policies := mset_at i q (pm_policies s), pm_revisions := mset_at i (history s i @ [r]) (pm_revisions s) \<rparr>)"
proof -
  obtain v p where v: "assertValidUpdatePolicy env input = Inr v" and p: "mget (pm_policies s) i = Some p" "po_organizationId p = og" "po_status p \<noteq> PRetired"
    and r: "(let (q, changed) = updated_text v p in
         case vu_parsed v of
           Some parsed \<Rightarrow>
             if pp_hash parsed \<noteq> po_definitionHash p then
               (if length (history s i) \<ge> MAX_POLICY_REVISIONS then Inl (polErr ''policy_limit_reached'')
                else
                  let r = next_revision (pe_now env) input v parsed p;
                      saved = (revised r q) \<lparr> po_updatedAt := pe_now env, po_version := po_version p + 1 \<rparr>
                  in Inr (saved, bump og (s \<lparr> pm_policies := mset_at i saved (pm_policies s),
                                             pm_revisions := mset_at i (history s i @ [r]) (pm_revisions s) \<rparr>)))
             else if \<not> changed then Inr (p, s)
             else (let saved = q \<lparr> po_updatedAt := pe_now env, po_version := po_version p + 1 \<rparr>
                   in Inr (saved, bump og (s \<lparr> pm_policies := mset_at i saved (pm_policies s) \<rparr>)))
         | None \<Rightarrow>
             if \<not> changed then Inr (p, s)
             else (let saved = q \<lparr> po_updatedAt := pe_now env, po_version := po_version p + 1 \<rparr>
                   in Inr (saved, bump og (s \<lparr> pm_policies := mset_at i saved (pm_policies s) \<rparr>)))) = Inr (q, s')"
    using assms by (auto simp: pol_update_def pol_require_iff split: if_splits)
  obtain t changed where t: "updated_text v p = (t, changed)" by fastforce
  note r' = r[unfolded Let_def t prod.case]
  note kept = updated_text_same[of v p, unfolded t fst_conv]
  let ?saved = "t \<lparr> po_updatedAt := pe_now env, po_version := po_version p + 1 \<rparr>"
  have quiet: thesis if "(if \<not> changed then Inr (p, s) else Inr (?saved, bump og (s \<lparr> pm_policies := mset_at i ?saved (pm_policies s) \<rparr>))) =
      (Inr (q, s') :: uerror + policy \<times> policy_store)"
  proof (cases changed)
    case True
    then have q: "q = ?saved" and s': "s' = bump og (s \<lparr> pm_policies := mset_at i q (pm_policies s) \<rparr>)" using that by auto
    have "po_status q = po_status p" "po_activatedAt q = po_activatedAt p" "same_policy p q" "same_rule p q"
      using kept unfolding q by (simp_all add: same_policy_def same_rule_def)
    from words[OF p this s'] show thesis .
  next
    case False
    then have "q = p" "s' = s" using that by simp_all
    then show thesis using p by (intro same) simp_all
  qed
  show thesis
  proof (cases "vu_parsed v")
    case None
    then show thesis using r' by (intro quiet) (simp only: option.case)
  next
    case (Some parsed)
    obtain raw where raw: "parsePolicyDefinition (pe_hash env) (pe_zones env) raw = Inr parsed"
      using v Some by (auto simp: assertValidUpdatePolicy_def opt_check_Inr split: if_splits)
    show thesis
    proof (cases "pp_hash parsed = po_definitionHash p")
      case True
      then show thesis using r' Some by (intro quiet) (simp only: option.case simp_thms if_False)
    next
      case False
      let ?r = "next_revision (pe_now env) input v parsed p"
      have q: "q = (revised ?r t) \<lparr> po_updatedAt := pe_now env, po_version := po_version p + 1 \<rparr>"
        and s': "s' = bump og (s \<lparr> pm_policies := mset_at i q (pm_policies s), pm_revisions := mset_at i (history s i @ [?r]) (pm_revisions s) \<rparr>)"
        using r t Some False by (auto simp: Let_def split: if_splits)
      have row: "po_status q = po_status p" "po_activatedAt q = po_activatedAt p" "same_policy p q" "po_revision q = po_revision p + 1"
        "po_definition q = pp_definition parsed" "po_definitionHash q = pp_hash parsed"
        "po_kind q = pd_kind (pp_definition parsed)" "po_effect q = pd_effect (pp_definition parsed)"
        using kept unfolding q by (simp_all add: same_policy_def revised_def next_revision_def)
      have r: "?r = next_revision (pe_now env) input (\<lparr> vu_name = None, vu_description = None, vu_parsed = None, vu_note = pr_note ?r \<rparr>) parsed p"
        by (simp add: next_revision_def)
      show thesis by (rule newrule[OF p row(1,2,3) raw r row(4-8) s'])
    qed
  qed
qed

lemma pol_delete_cases:
  assumes "pol_delete env og i authorization s = Inr s'"
  obtains p where "mget (pm_policies s) i = Some p" "po_organizationId p = og" "po_status p = PDraft" "po_activatedAt p = None"
    "s' = bump og (drop_policy i s)"
  using assms by (auto simp: pol_delete_def pol_require_iff drop_policy_def split: if_splits)

section \<open>Sequences of writes\<close>

text \<open>One write of any client: the clock, the tokens and the organizations may be others each time.\<close>

inductive policy_step :: "(string \<Rightarrow> string) \<Rightarrow> policy_store \<Rightarrow> policy_store \<Rightarrow> bool" for H where
  created: "pe_hash env = H \<Longrightarrow> pol_create env input s = Inr (p, s') \<Longrightarrow> policy_step H s s'"
| updated: "pe_hash env = H \<Longrightarrow> pol_update env og i change s = Inr (p, s') \<Longrightarrow> policy_step H s s'"
| activated: "pe_hash env = H \<Longrightarrow> pol_activate env og i status s = Inr (p, s') \<Longrightarrow> policy_step H s s'"
| disabled: "pe_hash env = H \<Longrightarrow> pol_disable env og i status s = Inr (p, s') \<Longrightarrow> policy_step H s s'"
| retired: "pe_hash env = H \<Longrightarrow> pol_retire env og i status s = Inr (p, s') \<Longrightarrow> policy_step H s s'"
| deleted: "pe_hash env = H \<Longrightarrow> pol_delete env og i authorization s = Inr s' \<Longrightarrow> policy_step H s s'"

abbreviation policy_steps :: "(string \<Rightarrow> string) \<Rightarrow> policy_store \<Rightarrow> policy_store \<Rightarrow> bool" where
  "policy_steps H \<equiv> (policy_step H)\<^sup>*\<^sup>*"

text \<open>What a row promises: its definition was accepted by the parser, its status and its activation agree.\<close>

definition accepted :: "(string \<Rightarrow> string) \<Rightarrow> policy_definition \<Rightarrow> string \<Rightarrow> bool" where
  "accepted H d h \<longleftrightarrow> (\<exists>zones input parsed. parsePolicyDefinition H zones input = Inr parsed \<and> d = pp_definition parsed \<and> h = pp_hash parsed)"

definition policy_ok :: "(string \<Rightarrow> string) \<Rightarrow> policy \<Rightarrow> bool" where
  "policy_ok H p \<longleftrightarrow> accepted H (po_definition p) (po_definitionHash p) \<and>
     po_kind p = pd_kind (po_definition p) \<and> po_effect p = pd_effect (po_definition p) \<and>
     (po_status p = PDraft \<longleftrightarrow> po_activatedAt p = None) \<and> 1 \<le> po_version p"

text \<open>The history of a policy: the revisions 1, 2, 3 up to the current one.\<close>

definition history_ok :: "policy \<Rightarrow> policy_revision list \<Rightarrow> bool" where
  "history_ok p rows \<longleftrightarrow> rows \<noteq> [] \<and> map pr_revision rows = map int [1..<Suc (length rows)] \<and> po_revision p = int (length rows) \<and>
     pr_definition (last rows) = po_definition p \<and> pr_definitionHash (last rows) = po_definitionHash p \<and>
     (\<forall>r \<in> set rows. pr_policyId r = po_id p \<and> pr_organizationId r = po_organizationId p)"

definition actives :: "policy_store \<Rightarrow> string \<Rightarrow> policy list" where
  "actives s og = filter (\<lambda>p. po_status p = PActive) (inOrganization s og)"

definition policies_ok :: "(string \<Rightarrow> string) \<Rightarrow> policy_store \<Rightarrow> bool" where
  "policies_ok H s \<longleftrightarrow>
     keyed po_id (pm_policies s) \<and>
     (\<forall>og. distinct (map po_key (inOrganization s og)) \<and> length (inOrganization s og) \<le> MAX_POLICIES_PER_ORGANIZATION \<and>
        length (actives s og) \<le> MAX_ACTIVE_POLICIES) \<and>
     (\<forall>i p. mget (pm_policies s) i = Some p \<longrightarrow> policy_ok H p \<and> history_ok p (history s i)) \<and>
     (\<forall>i. mget (pm_policies s) i = None \<longrightarrow> mget (pm_revisions s) i = None) \<and>
     0 \<le> pm_lastRevision s \<and> (\<forall>og r. mget (pm_setRevisions s) og = Some r \<longrightarrow> 1 \<le> r \<and> r \<le> pm_lastRevision s)"

lemma policies_ok_empty: "policies_ok H empty_policies"
  by (simp add: policies_ok_def empty_policies_def inOrganization_def actives_def)

text \<open>The rows of an organization after a row is added, replaced or dropped.\<close>

lemma bump_simps [simp]:
  "pm_policies (bump og s) = pm_policies s" "pm_revisions (bump og s) = pm_revisions s" "pm_lastRevision (bump og s) = pm_lastRevision s + 1"
  "pm_setRevisions (bump og s) = mset_at og (pm_lastRevision s + 1) (pm_setRevisions s)"
  "inOrganization (bump og s) og' = inOrganization s og'" "actives (bump og s) og' = actives s og'" "history (bump og s) i = history s i"
  by (simp_all add: bump_def inOrganization_def actives_def history_def)

lemma put_simps [simp]:
  "pm_revisions (put_policy p s) = pm_revisions s" "pm_setRevisions (put_policy p s) = pm_setRevisions s" "pm_lastRevision (put_policy p s) = pm_lastRevision s"
  "pm_policies (put_policy p s) = mset_at (po_id p) p (pm_policies s)" "history (put_policy p s) i = history s i"
  "pm_policies (put_revision i rows s) = pm_policies s" "pm_setRevisions (put_revision i rows s) = pm_setRevisions s"
  "pm_lastRevision (put_revision i rows s) = pm_lastRevision s" "pm_revisions (put_revision i rows s) = mset_at i rows (pm_revisions s)"
  "history (put_revision i rows s) j = (if j = i then rows else history s j)"
  "inOrganization (put_revision i rows s) og = inOrganization s og" "actives (put_revision i rows s) og = actives s og"
  by (simp_all add: put_policy_def put_revision_def inOrganization_def actives_def history_def)

lemma drop_simps [simp]:
  "pm_policies (drop_policy i s) = mdel i (pm_policies s)" "pm_setRevisions (drop_policy i s) = pm_setRevisions s"
  "pm_lastRevision (drop_policy i s) = pm_lastRevision s" "pm_revisions (drop_policy i s) = mdel i (pm_revisions s)"
  "history (drop_policy i s) j = (if j = i then [] else history s j)"
  by (simp_all add: drop_policy_def history_def)

lemma inOrganization_new: "mget (pm_policies s) (po_id p) = None \<Longrightarrow>
    inOrganization (put_policy p s) og = inOrganization s og @ (if po_organizationId p = og then [p] else [])"
  by (simp add: inOrganization_def mvals_new)

lemma inOrganization_replace:
  assumes "keyed po_id (pm_policies s)" "mget (pm_policies s) (po_id q) = Some p" "po_organizationId q = po_organizationId p"
  shows "inOrganization (put_policy q s) og = map (\<lambda>x. if po_id x = po_id q then q else x) (inOrganization s og)"
proof -
  have "po_organizationId (if po_id x = po_id q then q else x) = po_organizationId x" if "x \<in> set (mvals (pm_policies s))" for x
    using keyed_vals[of po_id "pm_policies s" x] that assms by auto
  then have "filter (\<lambda>p. po_organizationId p = og) (map (\<lambda>x. if po_id x = po_id q then q else x) (mvals (pm_policies s))) =
      map (\<lambda>x. if po_id x = po_id q then q else x) (filter (\<lambda>p. po_organizationId p = og) (mvals (pm_policies s)))"
    unfolding filter_map by (simp add: comp_def cong: filter_cong)
  then show ?thesis using mvals_replace[OF assms(1,2)] by (simp add: inOrganization_def)
qed

lemma inOrganization_drop:
  assumes "keyed po_id (pm_policies s)"
  shows "inOrganization (drop_policy i s) og = filter (\<lambda>x. po_id x \<noteq> i) (inOrganization s og)"
  using mvals_delete[OF assms] by (simp add: inOrganization_def conj_commute)

lemma distinct_ids: "keyed po_id (pm_policies s) \<Longrightarrow> distinct (map po_id (inOrganization s og))"
  unfolding inOrganization_def using distinct_mvals_ident[of po_id "pm_policies s"] by (simp add: distinct_map_filter)

lemma in_organization: "keyed po_id (pm_policies s) \<Longrightarrow> x \<in> set (inOrganization s og) \<longleftrightarrow> mget (pm_policies s) (po_id x) = Some x \<and> po_organizationId x = og"
  by (auto simp: inOrganization_def keyed_vals)

section \<open>The invariant is kept\<close>

lemma policies_ok_keyed: "policies_ok H s \<Longrightarrow> keyed po_id (pm_policies s)"
  by (simp add: policies_ok_def)

lemma policy_id: "policies_ok H s \<Longrightarrow> mget (pm_policies s) i = Some p \<Longrightarrow> po_id p = i"
  using keyed_get[OF policies_ok_keyed] by blast

lemma inOrganization_cong: "pm_policies s = pm_policies t \<Longrightarrow> inOrganization s og = inOrganization t og"
  by (simp add: inOrganization_def)

lemma set_revisions_ok:
  assumes "policies_ok H s" "pm_setRevisions s' = mset_at og (pm_lastRevision s + 1) (pm_setRevisions s)" "pm_lastRevision s' = pm_lastRevision s + 1"
  shows "0 \<le> pm_lastRevision s' \<and> (\<forall>og r. mget (pm_setRevisions s') og = Some r \<longrightarrow> 1 \<le> r \<and> r \<le> pm_lastRevision s')"
proof -
  have old: "0 \<le> pm_lastRevision s" "mget (pm_setRevisions s) og' = Some r \<Longrightarrow> 1 \<le> r \<and> r \<le> pm_lastRevision s" for og' r
    using assms(1) by (simp_all add: policies_ok_def)
  have "1 \<le> r \<and> r \<le> pm_lastRevision s'" if "mget (pm_setRevisions s') og' = Some r" for og' r
    using that old(1) old(2)[of og' r] assms(2,3) by (cases "og' = og") simp_all
  then show ?thesis using old(1) assms(3) by simp
qed

lemma replace_ok:
  assumes inv: "policies_ok H s" and p: "mget (pm_policies s) i = Some p" and same: "same_policy p q" and q: "policy_ok H q" "history_ok q (history s' i)"
    and revs: "\<And>j. j \<noteq> i \<Longrightarrow> mget (pm_revisions s') j = mget (pm_revisions s) j"
    and s': "pm_policies s' = mset_at i q (pm_policies s)" "pm_setRevisions s' = mset_at (po_organizationId p) (pm_lastRevision s + 1) (pm_setRevisions s)"
      "pm_lastRevision s' = pm_lastRevision s + 1"
    and active: "po_status q = PActive \<Longrightarrow> po_status p = PActive \<or> length (actives s (po_organizationId p)) < MAX_ACTIVE_POLICIES"
  shows "policies_ok H s'"
proof -
  note keyed = policies_ok_keyed[OF inv]
  have id: "po_id p = i" "po_id q = i" using policy_id[OF inv p] same by (simp_all add: same_policy_def)
  have org: "po_organizationId q = po_organizationId p" and key: "po_key q = po_key p" using same by (simp_all add: same_policy_def)
  have rows: "inOrganization s' og = map (\<lambda>x. if po_id x = i then q else x) (inOrganization s og)" for og
    using inOrganization_replace[OF keyed, of q p og] p id org inOrganization_cong[of s' "put_policy q s" og] s'(1) by simp
  have only: "x = p" if "x \<in> set (inOrganization s og)" "po_id x = i" for x og using that p in_organization[OF keyed] by simp
  have "map po_key (inOrganization s' og) = map po_key (inOrganization s og)" for og
    unfolding rows using only key by (auto simp: comp_def)
  then have keys: "distinct (map po_key (inOrganization s' og))" for og using inv by (simp add: policies_ok_def)
  have len: "length (inOrganization s' og) \<le> MAX_POLICIES_PER_ORGANIZATION" for og using inv unfolding rows by (simp add: policies_ok_def)
  have act: "length (actives s' og) \<le> MAX_ACTIVE_POLICIES" for og
  proof (cases "po_status q = PActive \<longrightarrow> po_status p = PActive")
    case True
    then have "length (actives s' og) \<le> length (actives s og)"
      unfolding actives_def rows by (intro count_replace(2) distinct_ids[OF keyed]) (use only in auto)
    then show ?thesis using inv by (auto simp: policies_ok_def intro: order.trans)
  next
    case False
    show ?thesis
    proof (cases "og = po_organizationId p")
      case True
      have "length (actives s' og) \<le> length (actives s og) + 1"
        unfolding actives_def rows using count_replace(1)[OF distinct_ids[OF keyed], of "\<lambda>p. po_status p = PActive" i q og] by (simp split: if_splits)
      then show ?thesis using active False True by simp
    next
      case other: False
      then have "map (\<lambda>x. if po_id x = i then q else x) (inOrganization s og) = inOrganization s og"
        using only in_organization[OF keyed] by (intro map_idI) force
      then show ?thesis using inv by (simp add: policies_ok_def actives_def rows)
    qed
  qed
  have pol: "policy_ok H x \<and> history_ok x (history s' j)" if "mget (pm_policies s') j = Some x" for j x
  proof (cases "j = i")
    case True
    then show ?thesis using that q s'(1) by simp
  next
    case False
    then have "history s' j = history s j" using revs by (simp add: history_def)
    then show ?thesis using that inv False s'(1) by (simp add: policies_ok_def)
  qed
  have none: "mget (pm_revisions s') j = None" if "mget (pm_policies s') j = None" for j
  proof -
    have "j \<noteq> i" using that s'(1) by auto
    then show ?thesis using that inv revs s'(1) by (simp add: policies_ok_def)
  qed
  show ?thesis unfolding policies_ok_def
    using keyed_update[OF keyed id(2)] keys len act pol none set_revisions_ok[OF inv s'(2,3)] s'(1) by simp
qed

lemma policy_create_ok:
  assumes inv: "policies_ok (pe_hash env) s" and c: "pol_create env input s = Inr (p, s')"
  shows "policies_ok (pe_hash env) s'"
proof -
  note keyed = policies_ok_keyed[OF inv]
  obtain v where v: "assertValidCreatePolicy env input = Inr v" "p = new_policy input v"
    "mget (pm_policies s) (po_id p) = None" "\<forall>q \<in> set (inOrganization s (po_organizationId p)). po_key q \<noteq> po_key p"
    "length (inOrganization s (po_organizationId p)) < MAX_POLICIES_PER_ORGANIZATION"
    "s' = bump (po_organizationId p) (put_revision (po_id p) [first_revision p input v] (put_policy p s))"
    using c by (rule pol_create_cases)
  have "accepted (pe_hash env) (po_definition p) (po_definitionHash p)"
  proof -
    have "parsePolicyDefinition (pe_hash env) (pe_zones env) (cp_definition input) = Inr (vc_parsed v)"
      using v(1) by (auto simp: assertValidCreatePolicy_def)
    then show ?thesis unfolding accepted_def v(2) new_policy_def policy.simps by blast
  qed
  then have ok: "policy_ok (pe_hash env) p" using v(2) by (simp add: policy_ok_def new_policy_def)
  have his: "history_ok p [first_revision p input v]" using v(2) by (simp add: history_ok_def first_revision_def new_policy_def)
  have rows: "inOrganization s' og = inOrganization s og @ (if po_organizationId p = og then [p] else [])" for og
    using inOrganization_new[OF v(3)] v(6) by simp
  have act: "actives s' og = actives s og" for og
    using v(2) unfolding actives_def rows by (simp add: new_policy_def)
  have "distinct (map po_key (inOrganization s' og)) \<and> length (inOrganization s' og) \<le> MAX_POLICIES_PER_ORGANIZATION" for og
    using inv v(4,5) unfolding rows by (auto simp: policies_ok_def)
  moreover have "keyed po_id (pm_policies s')" using keyed_update[OF keyed refl] v(6) by simp
  moreover have "policy_ok (pe_hash env) x \<and> history_ok x (history s' j)" if "mget (pm_policies s') j = Some x" for j x
    using that inv ok his v(6) by (auto simp: policies_ok_def split: if_splits)
  moreover have "mget (pm_revisions s') j = None" if "mget (pm_policies s') j = None" for j
    using that inv v(6) by (auto simp: policies_ok_def split: if_splits)
  moreover have "length (actives s' og) \<le> MAX_ACTIVE_POLICIES" for og using inv act by (simp add: policies_ok_def)
  ultimately show ?thesis unfolding policies_ok_def using set_revisions_ok[OF inv, of s' "po_organizationId p"] v(6) by simp
qed

lemma history_same_rule: "history_ok p rows \<Longrightarrow> same_policy p q \<Longrightarrow> same_rule p q \<Longrightarrow> history_ok q rows"
  by (simp add: history_ok_def same_policy_def same_rule_def)

lemma changed_status_same: "same_policy p (changed_status now input to p)" "same_rule p (changed_status now input to p)"
  by (simp_all add: same_policy_def same_rule_def changed_status_def)

lemma status_ok:
  assumes inv: "policies_ok H s" and c: "changeStatus env og i to operation input s = Inr (q, s')"
  shows "policies_ok H s'"
  using c
proof (cases rule: changeStatus_cases)
  case (move p)
  have ok: "policy_ok H p" "history_ok p (history s i)" using inv move(1) by (simp_all add: policies_ok_def)
  have "to \<noteq> PDraft" "to \<noteq> PActive \<Longrightarrow> po_status p \<noteq> PDraft" using move(3) by (cases "po_status p"; auto)+
  then have okq: "policy_ok H q" using ok(1) unfolding move(5) policy_ok_def changed_status_def by auto
  show ?thesis
  proof (rule replace_ok[OF inv move(1) _ okq])
    show "same_policy p q" using changed_status_same(1) move(5) by simp
    show "history_ok q (history s' i)" using history_same_rule[OF ok(2) changed_status_same] move(5,6) by (simp add: history_def)
    show "po_status p = PActive \<or> length (actives s (po_organizationId p)) < MAX_ACTIVE_POLICIES" if "po_status q = PActive"
      using that move(2,4,5) by (simp add: changed_status_def actives_def)
  qed (use move(2,6) in simp_all)
qed (use inv in simp)

lemma update_ok:
  assumes inv: "policies_ok (pe_hash env) s" and c: "pol_update env og i input s = Inr (q, s')"
  shows "policies_ok (pe_hash env) s'"
  using c
proof (cases rule: pol_update_cases)
  case (words p)
  have ok: "policy_ok (pe_hash env) p" "history_ok p (history s i)" using inv words(1) by (simp_all add: policies_ok_def)
  have okq: "policy_ok (pe_hash env) q" using ok(1) words(4-7) by (simp add: policy_ok_def same_policy_def same_rule_def)
  show ?thesis
  proof (rule replace_ok[OF inv words(1,6) okq])
    show "history_ok q (history s' i)" using history_same_rule[OF ok(2) words(6,7)] words(8) by (simp add: history_def)
  qed (use words(2,4,8) in simp_all)
next
  case (newrule p parsed r raw)
  have ok: "policy_ok (pe_hash env) p" "history_ok p (history s i)" using inv newrule(1) by (simp_all add: policies_ok_def)
  have "accepted (pe_hash env) (pp_definition parsed) (pp_hash parsed)" using newrule(7) by (auto simp: accepted_def)
  then have okq: "policy_ok (pe_hash env) q" using ok(1) newrule(4-6,9-13) by (simp add: policy_ok_def same_policy_def)
  have r: "pr_revision r = po_revision p + 1" "pr_definition r = pp_definition parsed" "pr_definitionHash r = pp_hash parsed"
    "pr_policyId r = po_id p" "pr_organizationId r = po_organizationId p"
    by (subst newrule(8), simp add: next_revision_def)+
  show ?thesis
  proof (rule replace_ok[OF inv newrule(1,6) okq])
    show "history_ok q (history s' i)"
      using ok(2) r newrule(6,9-11,14) by (auto simp: history_ok_def same_policy_def history_def)
  qed (use newrule(2,4,14) in simp_all)
qed (use inv in simp)

lemma delete_ok:
  assumes inv: "policies_ok H s" and c: "pol_delete env og i authorization s = Inr s'"
  shows "policies_ok H s'"
proof -
  note keyed = policies_ok_keyed[OF inv]
  obtain p where s': "s' = bump og (drop_policy i s)" using c by (rule pol_delete_cases)
  have rows: "inOrganization s' og' = filter (\<lambda>x. po_id x \<noteq> i) (inOrganization s og')" for og'
    using inOrganization_drop[OF keyed] s' by simp
  have "length (actives s' og') \<le> length (actives s og')" for og'
  proof -
    have "actives s' og' = filter (\<lambda>x. po_id x \<noteq> i) (actives s og')" unfolding actives_def rows by (simp add: conj_commute)
    then show ?thesis by simp
  qed
  then have act: "length (actives s' og') \<le> MAX_ACTIVE_POLICIES" for og' using inv by (auto simp: policies_ok_def intro: order.trans)
  have len: "length (inOrganization s' og') \<le> MAX_POLICIES_PER_ORGANIZATION" for og'
    using inv unfolding rows by (auto simp: policies_ok_def intro: order.trans[OF length_filter_le])
  have keys: "distinct (map po_key (inOrganization s' og'))" for og' using inv unfolding rows by (simp add: policies_ok_def distinct_map_filter)
  show ?thesis unfolding policies_ok_def
    using keyed_delete[OF keyed] keys len act set_revisions_ok[OF inv, of s' og] inv s' by (auto simp: policies_ok_def split: if_splits)
qed

lemma step_ok: "policy_step H s s' \<Longrightarrow> policies_ok H s \<Longrightarrow> policies_ok H s'"
  by (induction rule: policy_step.induct)
    (auto simp: pol_activate_def pol_disable_def pol_retire_def dest: policy_create_ok[rotated] update_ok[rotated] status_ok[rotated] delete_ok[rotated])

lemma steps_ok: "policy_steps H s s' \<Longrightarrow> policies_ok H s \<Longrightarrow> policies_ok H s'"
  by (induction rule: rtranclp_induct) (auto dest: step_ok)

section \<open>What a write leaves alone\<close>

text \<open>
  A write either changes nothing, or it gives its organization the next number and leaves the policies of every other
  organization as they were.
\<close>

definition numbered :: "string \<Rightarrow> policy_store \<Rightarrow> policy_store \<Rightarrow> bool" where
  "numbered og s s' \<longleftrightarrow> pm_lastRevision s' = pm_lastRevision s + 1 \<and>
     pm_setRevisions s' = mset_at og (pm_lastRevision s + 1) (pm_setRevisions s) \<and>
     (\<forall>og'. og' \<noteq> og \<longrightarrow> inOrganization s' og' = inOrganization s og')"

text \<open>A row that was there stays as it is, moves along the life cycle, or is a draft that is dropped.\<close>

definition row_moves :: "policy_store \<Rightarrow> policy_store \<Rightarrow> string \<Rightarrow> policy \<Rightarrow> bool" where
  "row_moves s s' i p \<longleftrightarrow>
     (mget (pm_policies s') i = Some p \<and> history s' i = history s i) \<or>
     (\<exists>q. mget (pm_policies s') i = Some q \<and> same_policy p q \<and> po_status p \<noteq> PRetired \<and>
        (po_status q = po_status p \<or> po_status q \<in> set (POLICY_TRANSITIONS (po_status p))) \<and>
        (po_activatedAt p \<noteq> None \<longrightarrow> po_activatedAt q = po_activatedAt p) \<and> prefix (history s i) (history s' i)) \<or>
     (mget (pm_policies s') i = None \<and> po_status p = PDraft)"

definition write_effect :: "policy_store \<Rightarrow> policy_store \<Rightarrow> bool" where
  "write_effect s s' \<longleftrightarrow> (s' = s \<or> (\<exists>og. numbered og s s')) \<and> (\<forall>i p. mget (pm_policies s) i = Some p \<longrightarrow> row_moves s s' i p)"

lemma replaced_numbered:
  assumes inv: "policies_ok H s" and p: "mget (pm_policies s) i = Some p" and same: "same_policy p q"
    and s': "pm_policies s' = mset_at i q (pm_policies s)" "pm_lastRevision s' = pm_lastRevision s + 1"
      "pm_setRevisions s' = mset_at (po_organizationId p) (pm_lastRevision s + 1) (pm_setRevisions s)"
  shows "numbered (po_organizationId p) s s'"
proof -
  note keyed = policies_ok_keyed[OF inv]
  have id: "po_id q = i" using policy_id[OF inv p] same by (simp add: same_policy_def)
  have "inOrganization s' og' = inOrganization s og'" if "og' \<noteq> po_organizationId p" for og'
  proof -
    have "inOrganization s' og' = map (\<lambda>x. if po_id x = i then q else x) (inOrganization s og')"
      using inOrganization_replace[OF keyed, of q p og'] p same id inOrganization_cong[of s' "put_policy q s" og'] s'(1) by (simp add: same_policy_def)
    also have "\<dots> = inOrganization s og'" by (rule map_idI) (use in_organization[OF keyed] p that in auto)
    finally show ?thesis .
  qed
  then show ?thesis using s'(2,3) by (simp add: numbered_def)
qed

lemma create_effect:
  assumes inv: "policies_ok H s" and c: "pol_create env input s = Inr (x, s')"
  shows "write_effect s s'"
proof -
  obtain v where v: "mget (pm_policies s) (po_id x) = None"
    "s' = bump (po_organizationId x) (put_revision (po_id x) [first_revision x input v] (put_policy x s))"
    using c by (rule pol_create_cases)
  have "inOrganization s' og = inOrganization s og" if "og \<noteq> po_organizationId x" for og using that inOrganization_new[OF v(1), of og] v(2) by simp
  then have "numbered (po_organizationId x) s s'" using v(2) by (simp add: numbered_def)
  moreover have "row_moves s s' i p" if "mget (pm_policies s) i = Some p" for i p using that v by (auto simp: row_moves_def)
  ultimately show ?thesis unfolding write_effect_def by blast
qed

lemma status_effect:
  assumes inv: "policies_ok H s" and c: "changeStatus env og i to operation input s = Inr (q, s')"
  shows "write_effect s s'"
  using c
proof (cases rule: changeStatus_cases)
  case (move p)
  have same: "same_policy p q" using changed_status_same(1) move(5) by simp
  have "numbered (po_organizationId p) s s'" by (rule replaced_numbered[OF inv move(1) same]) (use move(2,6) in simp_all)
  moreover have "row_moves s s' j x" if "mget (pm_policies s) j = Some x" for j x
  proof (cases "j = i")
    case True
    have "po_status p \<noteq> PRetired" using move(3) by auto
    then show ?thesis using that True move(1,3,5,6) same unfolding row_moves_def by (simp add: changed_status_def history_def)
  next
    case False
    then show ?thesis using that move(6) by (simp add: row_moves_def history_def)
  qed
  ultimately show ?thesis unfolding write_effect_def by blast
qed (simp add: row_moves_def write_effect_def)

lemma update_effect:
  assumes inv: "policies_ok H s" and c: "pol_update env og i input s = Inr (q, s')"
  shows "write_effect s s'"
  using c
proof (cases rule: pol_update_cases)
  case (words p)
  have "numbered (po_organizationId p) s s'" by (rule replaced_numbered[OF inv words(1,6)]) (use words(2,8) in simp_all)
  moreover have "row_moves s s' j x" if "mget (pm_policies s) j = Some x" for j x
    using that words unfolding row_moves_def by (cases "j = i") (simp_all add: history_def)
  ultimately show ?thesis unfolding write_effect_def by blast
next
  case (newrule p parsed r raw)
  have "numbered (po_organizationId p) s s'" by (rule replaced_numbered[OF inv newrule(1,6)]) (use newrule(2,14) in simp_all)
  moreover have "row_moves s s' j x" if "mget (pm_policies s) j = Some x" for j x
    using that newrule(1,3-6,14) unfolding row_moves_def by (cases "j = i") (simp_all add: history_def)
  ultimately show ?thesis unfolding write_effect_def by blast
qed (simp add: row_moves_def write_effect_def)

lemma delete_effect:
  assumes inv: "policies_ok H s" and c: "pol_delete env og i authorization s = Inr s'"
  shows "write_effect s s'"
proof -
  note keyed = policies_ok_keyed[OF inv]
  obtain p where p: "mget (pm_policies s) i = Some p" "po_organizationId p = og" "po_status p = PDraft" and s': "s' = bump og (drop_policy i s)"
    using c by (rule pol_delete_cases)
  have "inOrganization s' og' = inOrganization s og'" if "og' \<noteq> og" for og'
    using inOrganization_drop[OF keyed, of i og'] s' p(1,2) that in_organization[OF keyed] by (auto intro!: filter_True)
  then have "numbered og s s'" using s' by (simp add: numbered_def)
  moreover have "row_moves s s' j x" if "mget (pm_policies s) j = Some x" for j x
    using that p s' unfolding row_moves_def by (cases "j = i") simp_all
  ultimately show ?thesis unfolding write_effect_def by blast
qed

lemma step_effect:
  assumes "policy_step H s s'" "policies_ok H s"
  shows "write_effect s s'"
  using assms(1)
  by cases (auto simp only: pol_activate_def pol_disable_def pol_retire_def
    intro: create_effect[OF assms(2)] update_effect[OF assms(2)] status_effect[OF assms(2)] delete_effect[OF assms(2)])

section \<open>What a run of writes leaves alone\<close>

lemma setRevision_le: "policies_ok H s \<Longrightarrow> setRevision s og \<le> pm_lastRevision s"
  by (auto simp: setRevision_def policies_ok_def split: option.split)

lemma numbered_revision:
  "numbered og s s' \<Longrightarrow> setRevision s' og' = (if og' = og then pm_lastRevision s + 1 else setRevision s og')"
  by (simp add: numbered_def setRevision_def)

lemma run_revisions:
  assumes "policy_steps H s t" "policies_ok H s"
  shows "pm_lastRevision s \<le> pm_lastRevision t \<and>
    (\<forall>og. (inOrganization t og = inOrganization s og \<and> setRevision t og = setRevision s og) \<or> pm_lastRevision s < setRevision t og)"
  using assms(1)
proof (induction rule: rtranclp_induct)
  case (step t u)
  have ok: "policies_ok H t" using steps_ok[OF step(1) assms(2)] .
  consider "u = t" | og where "numbered og t u" using step_effect[OF step(2) ok] unfolding write_effect_def by blast
  then show ?case
  proof cases
    case (2 og)
    have "(inOrganization u og' = inOrganization s og' \<and> setRevision u og' = setRevision s og') \<or> pm_lastRevision s < setRevision u og'" for og'
    proof (cases "og' = og")
      case True
      then show ?thesis using step.IH numbered_revision[OF 2, of og'] by simp
    next
      case False
      then show ?thesis using step.IH 2 numbered_revision[OF 2, of og'] by (simp add: numbered_def)
    qed
    then show ?thesis using step.IH 2 by (simp add: numbered_def)
  qed (use step.IH in simp)
qed simp

text \<open>Once active, a policy is there for good, with the same handle and a history that only grows; retired, it does not change at all.\<close>

lemma run_row:
  assumes "policy_steps H s t" "policies_ok H s" "mget (pm_policies s) i = Some p" "po_status p \<noteq> PDraft"
  shows "\<exists>q. mget (pm_policies t) i = Some q \<and> po_key q = po_key p \<and> po_organizationId q = po_organizationId p \<and> po_createdAt q = po_createdAt p \<and>
    po_activatedAt q = po_activatedAt p \<and> po_version p \<le> po_version q \<and> po_status q \<noteq> PDraft \<and> prefix (history s i) (history t i) \<and>
    (po_status p = PRetired \<longrightarrow> q = p \<and> history t i = history s i)"
  using assms(1)
proof (induction rule: rtranclp_induct)
  case (step t u)
  have ok: "policies_ok H t" using steps_ok[OF step(1) assms(2)] .
  obtain q where q: "mget (pm_policies t) i = Some q" "po_key q = po_key p" "po_organizationId q = po_organizationId p" "po_createdAt q = po_createdAt p"
    "po_activatedAt q = po_activatedAt p" "po_version p \<le> po_version q" "po_status q \<noteq> PDraft" "prefix (history s i) (history t i)"
    "po_status p = PRetired \<longrightarrow> q = p \<and> history t i = history s i"
    using step.IH by blast
  have act: "po_activatedAt q \<noteq> None" using ok q(1,7) by (simp add: policies_ok_def policy_ok_def)
  have "row_moves t u i q" using step_effect[OF step(2) ok] q(1) unfolding write_effect_def by blast
  then consider "mget (pm_policies u) i = Some q" "history u i = history t i"
    | r where "mget (pm_policies u) i = Some r" "same_policy q r" "po_status q \<noteq> PRetired"
        "po_status r = po_status q \<or> po_status r \<in> set (POLICY_TRANSITIONS (po_status q))" "po_activatedAt r = po_activatedAt q" "prefix (history t i) (history u i)"
    using q(7) act unfolding row_moves_def by blast
  then show ?case
  proof cases
    case 1
    then show ?thesis using q by simp
  next
    case (2 r)
    have "po_status r \<noteq> PDraft" using 2(4) q(7) by (cases "po_status q") auto
    then show ?thesis using q 2 by (auto simp: same_policy_def intro: prefix_order.trans)
  qed
qed (use assms in simp)

lemma revision_tells:
  assumes "policies_ok H s" "policy_steps H s t" "setRevision t og = setRevision s og"
  shows "inOrganization t og = inOrganization s og"
  using run_revisions[OF assms(2,1)] setRevision_le[OF assms(1), of og] assms(3) by (metis not_less)

section \<open>Properties\<close>

text \<open>
  C24: every reachable repository is lawful: in an organization no two policies share a key, at most 1,000 exist and at
  most 200 are active; a stored definition is one the parser accepted, with its hash, its kind and its effect; a policy is
  a draft exactly until it is first activated; and the history of a policy is its revisions 1, 2, 3 up to the
  current definition.
\<close>

theorem policies_lawful:
  assumes "policy_steps H empty_policies s"
  shows "policies_ok H s"
  using steps_ok[OF assms policies_ok_empty] .

text \<open>
  C25: retired is for good.  Whatever is written afterwards, a retired policy and its history stay exactly as they are
  and no other policy of its organization gets its key.
\<close>

theorem retired_policy_frozen:
  assumes "policy_steps H empty_policies s" "policy_steps H s t" "mget (pm_policies s) i = Some p" "po_status p = PRetired"
  shows "mget (pm_policies t) i = Some p \<and> history t i = history s i \<and>
    (\<forall>q \<in> set (inOrganization t (po_organizationId p)). po_key q = po_key p \<longrightarrow> q = p)"
proof -
  have ok: "policies_ok H s" "policies_ok H t" using steps_ok[OF assms(1) policies_ok_empty] steps_ok[OF assms(2)] by blast+
  have t: "mget (pm_policies t) i = Some p" "history t i = history s i" using run_row[OF assms(2) ok(1) assms(3)] assms(4) by auto
  have "p \<in> set (inOrganization t (po_organizationId p))"
    using in_organization[OF policies_ok_keyed[OF ok(2)]] t(1) policy_id[OF ok(2) t(1)] by simp
  moreover have "inj_on po_key (set (inOrganization t (po_organizationId p)))" using ok(2) by (simp add: policies_ok_def distinct_map)
  ultimately show ?thesis using t by (auto dest: inj_onD)
qed

text \<open>
  A policy that has been active is never lost and its history is never rewritten: after any writes it is there, in the
  same organization under the same key, with its first activation and every revision it had, and its version has
  not gone down.
\<close>

theorem policy_history_kept:
  assumes "policy_steps H empty_policies s" "policy_steps H s t" "mget (pm_policies s) i = Some p" "po_activatedAt p \<noteq> None"
  shows "\<exists>q. mget (pm_policies t) i = Some q \<and> po_organizationId q = po_organizationId p \<and> po_key q = po_key p \<and>
    po_activatedAt q = po_activatedAt p \<and> po_version p \<le> po_version q \<and> prefix (history s i) (history t i)"
proof -
  have ok: "policies_ok H s" using steps_ok[OF assms(1) policies_ok_empty] .
  then have "po_status p \<noteq> PDraft" using assms(3,4) by (simp add: policies_ok_def policy_ok_def)
  then show ?thesis using run_row[OF assms(2) ok assms(3)] by blast
qed

text \<open>
  The policy-set revision of an organization tells when its policies are the same: if it is the same number at two moments
  of a run, the policies are the same.
\<close>

theorem same_revision_same_policies:
  assumes "policy_steps H empty_policies s" "policy_steps H s t" "setRevision t og = setRevision s og"
  shows "inOrganization t og = inOrganization s og"
  using revision_tells[OF steps_ok[OF assms(1) policies_ok_empty] assms(2,3)] .

subsection \<open>The properties at a concrete run\<close>

definition demo_admin :: identity where
  "demo_admin = \<lparr> provider = ''p'', subject = ''u'' \<rparr>"

definition all_operations :: "policy_operation list" where
  "all_operations = [PolicyCreate, PolicyUpdate, PolicyActivate, PolicyDisable, PolicyRetire, PolicyDelete]"

definition demo_env :: policy_env where
  "demo_env = \<lparr> pe_hash = (\<lambda>_. []), pe_zones = (\<lambda>_. None),
     pe_issued = issuePolicyAuthorization 1 ''x'' demo_admin all_operations False 0 (issuePolicyAuthorization 0 ''o'' demo_admin all_operations False 0 []),
     pe_now = 5, pe_organizationExists = (\<lambda>_. True) \<rparr>"

definition demo_create :: create_policy_input where
  "demo_create = \<lparr> cp_authorization = Some 0, cp_id = ''p1'', cp_organizationId = ''o'', cp_key = ''k'', cp_name = ''N'', cp_description = None,
     cp_definition = demo_raw, cp_createdBy = demo_admin, cp_note = None, cp_now = None \<rparr>"

definition demo_status :: status_input where
  "demo_status = \<lparr> si_authorization = Some 0, si_actor = demo_admin, si_reason = None, si_expectedVersion = None \<rparr>"

definition after :: "uerror + policy \<times> policy_store \<Rightarrow> policy_store" where
  "after r = (case r of Inl e \<Rightarrow> empty_policies | Inr (p, s) \<Rightarrow> s)"

definition demo_draft :: policy_store where
  "demo_draft = after (pol_create demo_env demo_create empty_policies)"

definition demo_live :: policy_store where
  "demo_live = after (pol_activate demo_env ''o'' ''p1'' demo_status demo_draft)"

definition demo_retired :: policy_store where
  "demo_retired = after (pol_retire demo_env ''o'' ''p1'' demo_status demo_live)"

text \<open>A policy of another organization.\<close>

definition demo_other :: policy_store where
  "demo_other = after (pol_create demo_env (demo_create \<lparr> cp_authorization := Some 1, cp_id := ''p2'', cp_organizationId := ''x'' \<rparr>) demo_retired)"

lemma demo_policy_valid: "assertValidCreatePolicy demo_env (demo_create \<lparr> cp_authorization := a, cp_id := i, cp_organizationId := og \<rparr>) =
    Inr \<lparr> vc_key = ''k'', vc_name = ''N'', vc_description = None, vc_parsed = demo_parsed, vc_note = None, vc_now = 5 \<rparr>"
  if "i \<in> {''p1'', ''p2''}" "og \<in> {''o'', ''x''}"
proof -
  have "assertPolicyId ''p1'' = Inr ''p1'' \<and> assertPolicyId ''p2'' = Inr ''p2'' \<and> assertPolicyId ''o'' = Inr ''o'' \<and> assertPolicyId ''x'' = Inr ''x'' \<and>
      assertValidPolicyKey ''k'' = Inr ''k'' \<and> sanitizePolicyName ''N'' = Inr ''N''"
    by code_simp
  then show ?thesis using that
    by (auto simp: assertValidCreatePolicy_def demo_create_def demo_env_def demo_parse sanitizePolicyDescription_def sanitizePolicyNote_def)
qed

lemma demo_reparse: "parse_stored (\<lambda>_. []) zones demo_definition = Inr demo_parsed"
proof -
  have "snapshot (raw_of (definition_json demo_definition)) 0 0 = Inr (definition_json demo_definition, 12)"
    by (simp add: definition_json_def demo_definition_def demo_condition_def opt_field_def snapshot.simps require_def
        SNAPSHOT_MAX_NODES_def SNAPSHOT_MAX_DEPTH_def)
  moreover have "policy_rules (\<lambda>_. []) zones (definition_json demo_definition) = Inr demo_parsed"
    using rules_again[OF demo_rules[of zones]] by (simp add: demo_parsed_def)
  ultimately show ?thesis by (simp add: parse_stored_def parsePolicyDefinition_def)
qed

lemma demo_tokens: "assertPolicyAuthorization (pe_issued demo_env) (pe_now demo_env) (Some 0) ''o'' operation (Some demo_admin) = Inr ()"
  "assertPolicyAuthorization (pe_issued demo_env) (pe_now demo_env) (Some 1) ''x'' operation (Some demo_admin) = Inr ()"
  by (cases operation; simp add: assertPolicyAuthorization_def demo_env_def issuePolicyAuthorization_def all_operations_def POLICY_TTL_MS_def)+

text \<open>The row of the run, from its draft to its end.\<close>

definition demo_row :: "string \<Rightarrow> string \<Rightarrow> policy" where
  "demo_row i og =
     \<lparr> po_id = i, po_organizationId = og, po_key = ''k'', po_name = ''N'', po_description = None, po_kind = KAccess, po_effect = EffectDeny,
       po_status = PDraft, po_revision = 1, po_definition = demo_definition, po_definitionHash = [], po_createdAt = 5, po_createdBy = demo_admin,
       po_updatedAt = 5, po_statusChange = None, po_activatedAt = None, po_version = 1 \<rparr>"

definition demo_revision :: "string \<Rightarrow> string \<Rightarrow> policy_revision" where
  "demo_revision i og =
     \<lparr> pr_policyId = i, pr_organizationId = og, pr_revision = 1, pr_definition = demo_definition, pr_definitionHash = [], pr_createdAt = 5,
       pr_createdBy = demo_admin, pr_note = None \<rparr>"

definition moved :: "policy_status \<Rightarrow> policy \<Rightarrow> policy" where
  "moved to p = changed_status 5 demo_status to p"

lemma demo_store_simps: "inOrganization \<lparr> pm_policies = [], pm_revisions = r, pm_setRevisions = n, pm_lastRevision = l \<rparr> og = []"
  "inOrganization \<lparr> pm_policies = (i, p) # ps, pm_revisions = r, pm_setRevisions = n, pm_lastRevision = l \<rparr> og =
     (if po_organizationId p = og then [p] else []) @ inOrganization \<lparr> pm_policies = ps, pm_revisions = r, pm_setRevisions = n, pm_lastRevision = l \<rparr> og"
  by (simp_all add: inOrganization_def mvals_def)

lemmas demo_policy_rows = demo_row_def demo_revision_def moved_def changed_status_def demo_status_def demo_store_simps

lemma demo_create_draft: "pol_create demo_env demo_create empty_policies = Inr (demo_row ''p1'' ''o'',
    \<lparr> pm_policies = [(''p1'', demo_row ''p1'' ''o'')], pm_revisions = [(''p1'', [demo_revision ''p1'' ''o''])], pm_setRevisions = [(''o'', 1)], pm_lastRevision = 1 \<rparr>)"
  using demo_policy_valid[of "''p1''" "''o''" "Some 0"] demo_tokens(1)[of PolicyCreate]
  by (simp add: pol_create_def demo_create_def demo_env_def empty_policies_def demo_policy_rows Let_def mhas_def MAX_POLICIES_PER_ORGANIZATION_def
      new_policy_def first_revision_def demo_parsed_def demo_definition_def bump_def)

lemma demo_draft: "demo_draft = \<lparr> pm_policies = [(''p1'', demo_row ''p1'' ''o'')], pm_revisions = [(''p1'', [demo_revision ''p1'' ''o''])],
    pm_setRevisions = [(''o'', 1)], pm_lastRevision = 1 \<rparr>"
  by (simp add: demo_draft_def after_def demo_create_draft)

lemma demo_activate: "pol_activate demo_env ''o'' ''p1'' demo_status demo_draft = Inr (moved PActive (demo_row ''p1'' ''o''),
    \<lparr> pm_policies = [(''p1'', moved PActive (demo_row ''p1'' ''o''))], pm_revisions = [(''p1'', [demo_revision ''p1'' ''o''])],
      pm_setRevisions = [(''o'', 2)], pm_lastRevision = 2 \<rparr>)"
  using demo_tokens(1)[of PolicyActivate] demo_reparse[of "\<lambda>_. None"]
  by (simp add: pol_activate_def changeStatus_def demo_draft demo_env_def demo_policy_rows pol_require_def pol_find_def pol_assertVersion_def version_ok_def
      assertPolicyTransition_def isPolicyTransitionAllowed_def MAX_ACTIVE_POLICIES_def Let_def bump_def)

lemma demo_live: "demo_live = \<lparr> pm_policies = [(''p1'', moved PActive (demo_row ''p1'' ''o''))], pm_revisions = [(''p1'', [demo_revision ''p1'' ''o''])],
      pm_setRevisions = [(''o'', 2)], pm_lastRevision = 2 \<rparr>"
  by (simp add: demo_live_def after_def demo_activate)

lemma demo_retire: "pol_retire demo_env ''o'' ''p1'' demo_status demo_live = Inr (moved PRetired (moved PActive (demo_row ''p1'' ''o'')),
    \<lparr> pm_policies = [(''p1'', moved PRetired (moved PActive (demo_row ''p1'' ''o'')))], pm_revisions = [(''p1'', [demo_revision ''p1'' ''o''])],
      pm_setRevisions = [(''o'', 3)], pm_lastRevision = 3 \<rparr>)"
  using demo_tokens(1)[of PolicyRetire]
  by (simp add: pol_retire_def changeStatus_def demo_live demo_env_def demo_policy_rows pol_require_def pol_find_def pol_assertVersion_def version_ok_def
      assertPolicyTransition_def isPolicyTransitionAllowed_def Let_def bump_def)

lemma demo_retired: "demo_retired = \<lparr> pm_policies = [(''p1'', moved PRetired (moved PActive (demo_row ''p1'' ''o'')))],
      pm_revisions = [(''p1'', [demo_revision ''p1'' ''o''])], pm_setRevisions = [(''o'', 3)], pm_lastRevision = 3 \<rparr>"
  by (simp add: demo_retired_def after_def demo_retire)

lemma demo_other_created: "\<exists>p. pol_create demo_env (demo_create \<lparr> cp_authorization := Some 1, cp_id := ''p2'', cp_organizationId := ''x'' \<rparr>) demo_retired =
    Inr (p, demo_other)"
  using demo_policy_valid[of "''p2''" "''x''" "Some 1"] demo_tokens(2)[of PolicyCreate]
  by (simp add: demo_other_def after_def pol_create_def demo_create_def demo_env_def demo_retired demo_policy_rows Let_def mhas_def MAX_POLICIES_PER_ORGANIZATION_def)

lemma demo_hash: "pe_hash demo_env = (\<lambda>_. [])"
  by (simp add: demo_env_def)

lemma demo_reached: "policy_steps (\<lambda>_. []) empty_policies demo_live" "policy_steps (\<lambda>_. []) demo_live demo_retired"
  "policy_steps (\<lambda>_. []) demo_retired demo_other"
proof -
  have "policy_step (\<lambda>_. []) empty_policies demo_draft" unfolding demo_draft by (rule created[OF demo_hash demo_create_draft])
  moreover have "policy_step (\<lambda>_. []) demo_draft demo_live" unfolding demo_live by (rule activated[OF demo_hash demo_activate])
  ultimately show "policy_steps (\<lambda>_. []) empty_policies demo_live" by (meson rtranclp.simps)
  have "policy_step (\<lambda>_. []) demo_live demo_retired" unfolding demo_retired by (rule retired[OF demo_hash demo_retire])
  then show "policy_steps (\<lambda>_. []) demo_live demo_retired" by blast
  obtain p where "pol_create demo_env (demo_create \<lparr> cp_authorization := Some 1, cp_id := ''p2'', cp_organizationId := ''x'' \<rparr>) demo_retired = Inr (p, demo_other)"
    using demo_other_created by blast
  then have "policy_step (\<lambda>_. []) demo_retired demo_other" by (rule created[OF demo_hash])
  then show "policy_steps (\<lambda>_. []) demo_retired demo_other" by blast
qed

theorem policies_lawful_witness: "policies_ok (\<lambda>_. []) demo_live"
  by (rule policies_lawful[OF demo_reached(1)])

theorem retired_policy_frozen_witness: "map_option po_status (mget (pm_policies demo_other) ''p1'') = Some PRetired"
  using retired_policy_frozen[OF rtranclp_trans[OF demo_reached(1,2)] demo_reached(3), of "''p1''" "moved PRetired (moved PActive (demo_row ''p1'' ''o''))"]
  by (simp add: demo_retired demo_policy_rows)

theorem policy_history_kept_witness: "\<exists>q. mget (pm_policies demo_retired) ''p1'' = Some q \<and> po_activatedAt q = Some 5 \<and>
    prefix [demo_revision ''p1'' ''o''] (history demo_retired ''p1'')"
  using policy_history_kept[OF demo_reached(1,2), of "''p1''" "moved PActive (demo_row ''p1'' ''o'')"]
  by (auto simp: demo_live demo_policy_rows history_def)

theorem same_revision_same_policies_witness: "inOrganization demo_other ''o'' = inOrganization demo_retired ''o'' \<and> setRevision demo_other ''o'' = 3"
proof -
  have "setRevision demo_other ''o'' = setRevision demo_retired ''o'' \<and> setRevision demo_retired ''o'' = 3"
    using demo_policy_valid[of "''p2''" "''x''" "Some 1"] demo_tokens(2)[of PolicyCreate]
    by (simp add: demo_other_def after_def pol_create_def demo_create_def demo_env_def demo_retired demo_policy_rows Let_def mhas_def
        MAX_POLICIES_PER_ORGANIZATION_def setRevision_def bump_def new_policy_def)
  then show ?thesis using same_revision_same_policies[OF rtranclp_trans[OF demo_reached(1,2)] demo_reached(3), of "''o''"] by simp
qed

end
