(* ===== verification/PolicyFacts.thy ===== *)
theory PolicyFacts
  imports PolicyLife Engine
begin

text \<open>
  What a decision of the policy layer reads: the session (\<open>packages/core/src/policy/session.ts\<close>), the facts the
  policies of a request need (\<open>requiredFacts\<close> of \<open>policy/evaluate.ts\<close>), and the readers of the resource, the signals and
  the storage in \<open>policy/decider.ts\<close>.

  A read of the storage that throws is a \<open>fault\<close>: which reads throw is an argument of a decision.
\<close>

section \<open>The session\<close>

definition MAX_SESSION_METHODS :: nat where
  "MAX_SESSION_METHODS = 16"

definition MAX_ASSURANCE_LEVEL :: int where
  "MAX_ASSURANCE_LEVEL = 100"

definition MAX_CLOCK_SKEW_MS :: int where
  "MAX_CLOCK_SKEW_MS = 60000"

text \<open>
  A field of the session is a date, something that claims to be one (an invalid or forged date), an accessor or any
  other value.  The object has a plain prototype or not, and symbol keys or not.
\<close>

datatype session_field = SDate int | SBadDate | SAccessor | SValue raw

datatype session_input = SessionOther | SessionObject bool bool "(string, session_field) jsmap"

definition SESSION_FIELDS :: "string list" where
  "SESSION_FIELDS = [''authenticatedAt'', ''startedAt'', ''mfa'', ''assuranceLevel'', ''methods'']"

text \<open>A reader refuses the session (\<open>None\<close>), leaves the attribute out (\<open>Some None\<close>) or finds its value.\<close>

fun session_age :: "int option \<Rightarrow> session_field option \<Rightarrow> host_value option option" where
  "session_age now None = Some None"
| "session_age now (Some (SValue v)) = (if v = RUndefined then Some None else None)"
| "session_age now (Some (SDate at)) =
     Some (case now of None \<Rightarrow> None
           | Some n \<Rightarrow> if at > n + MAX_CLOCK_SKEW_MS then None else Some (HNumber (max 0 ((n - at) div 1000))))"
| "session_age now (Some _) = None"

fun session_mfa :: "session_field option \<Rightarrow> host_value option option" where
  "session_mfa None = Some None"
| "session_mfa (Some (SValue RUndefined)) = Some None"
| "session_mfa (Some (SValue (RBool b))) = Some (Some (HBool b))"
| "session_mfa (Some _) = None"

fun session_level :: "session_field option \<Rightarrow> host_value option option" where
  "session_level None = Some None"
| "session_level (Some (SValue RUndefined)) = Some None"
| "session_level (Some (SValue (RNum n))) = (if 0 \<le> n \<and> n \<le> MAX_ASSURANCE_LEVEL then Some (Some (HNumber n)) else None)"
| "session_level (Some _) = None"

definition method_pattern :: "string \<Rightarrow> bool" where
  "method_pattern s \<longleftrightarrow> s \<noteq> [] \<and> length s \<le> 64 \<and>
     list_all (\<lambda>c. is_letter c \<or> is_digit09 c \<or> c \<in> {CHR ''_'', CHR ''.'', CHR '':'', CHR ''-''}) s"

fun session_method :: "raw option \<Rightarrow> string option" where
  "session_method (Some (RStr m)) = (if method_pattern m then Some m else None)"
| "session_method _ = None"

fun session_methods :: "session_field option \<Rightarrow> host_value option option" where
  "session_methods None = Some None"
| "session_methods (Some (SValue RUndefined)) = Some None"
| "session_methods (Some (SValue (RArr xs))) =
     (if length xs \<le> MAX_SESSION_METHODS \<and> list_all (\<lambda>x. session_method x \<noteq> None) xs
      then Some (Some (strings (uniq (map (\<lambda>x. the (session_method x)) xs)))) else None)"
| "session_methods (Some _) = None"

definition session_attribute :: "string \<Rightarrow> host_value option option \<Rightarrow> (string, host_value) jsmap option \<Rightarrow> (string, host_value) jsmap option" where
  "session_attribute name found rest =
     (case (found, rest) of (Some v, Some m) \<Rightarrow> Some ((case v of None \<Rightarrow> [] | Some x \<Rightarrow> [(name, x)]) @ m) | _ \<Rightarrow> None)"

definition readSession :: "session_input \<Rightarrow> int option \<Rightarrow> (string, host_value) jsmap option" where
  "readSession v now =
     (case v of SessionOther \<Rightarrow> None
      | SessionObject plain symbols given \<Rightarrow>
          if \<not> plain \<or> symbols \<or> \<not> list_all (\<lambda>k. k \<in> set SESSION_FIELDS) (map fst given) then None
          else session_attribute ''session.authAgeSeconds'' (session_age now (mget given ''authenticatedAt''))
              (session_attribute ''session.ageSeconds'' (session_age now (mget given ''startedAt''))
              (session_attribute ''session.mfa'' (session_mfa (mget given ''mfa''))
              (session_attribute ''session.assuranceLevel'' (session_level (mget given ''assuranceLevel''))
              (session_attribute ''session.methods'' (session_methods (mget given ''methods'')) (Some []))))))"

section \<open>What the host supplies\<close>

definition MAX_RESOURCE_ATTRIBUTES :: nat where
  "MAX_RESOURCE_ATTRIBUTES = 64"

definition isText :: "nat \<Rightarrow> string \<Rightarrow> bool" where
  "isText mx t \<longleftrightarrow> t \<noteq> [] \<and> length t \<le> mx"

text \<open>The evaluator tells neither \<open>undefined\<close> from \<open>null\<close> nor objects, functions and numbers that are not finite apart.\<close>

fun host_scalar :: "raw \<Rightarrow> host_value" where
  "host_scalar (RStr t) = HString t"
| "host_scalar (RNum n) = HNumber n"
| "host_scalar (RBool b) = HBool b"
| "host_scalar RNull = HNull"
| "host_scalar RUndefined = HNull"
| "host_scalar _ = HOther"

definition host_item :: "raw option \<Rightarrow> host_value" where
  "host_item x = (case x of None \<Rightarrow> HNull | Some v \<Rightarrow> host_scalar v)"

fun host_of :: "raw \<Rightarrow> host_value" where
  "host_of (RArr xs) = (if length xs \<le> MAX_RESOURCE_LIST_ITEMS then HList (map host_item xs) else HOther)"
| "host_of v = host_scalar v"

definition readable_field :: "string \<times> raw option \<Rightarrow> bool" where
  "readable_field f \<longleftrightarrow> code_pattern name_char (fst f) \<and> snd f \<noteq> None"

definition readValues :: "raw \<Rightarrow> (string, host_value) jsmap option" where
  "readValues v =
     (case v of RObj plain symbols props \<Rightarrow>
        if length props \<le> MAX_RESOURCE_ATTRIBUTES \<and> list_all readable_field props
        then Some (map (\<lambda>(name, x). (name, host_of (the x))) props) else None
      | _ \<Rightarrow> None)"

record resource_read =
  rr_type :: string
  rr_id :: string
  rr_organizationId :: string
  rr_teamIds :: "string list option"
  rr_attributes :: "(string, host_value) jsmap"

definition own_text :: "nat \<Rightarrow> (string, raw option) jsmap \<Rightarrow> string \<Rightarrow> string option" where
  "own_text mx props name = (case mget props name of Some (Some (RStr t)) \<Rightarrow> if isText mx t then Some t else None | _ \<Rightarrow> None)"

text \<open>An own property that is absent, an accessor or \<open>undefined\<close> reads as \<open>undefined\<close>.\<close>

definition own_value :: "(string, raw option) jsmap \<Rightarrow> string \<Rightarrow> raw option" where
  "own_value props name = (case mget props name of Some (Some v) \<Rightarrow> if v = RUndefined then None else Some v | _ \<Rightarrow> None)"

fun team_id_item :: "raw option \<Rightarrow> string option" where
  "team_id_item (Some (RStr t)) = (if isText 200 t then Some t else None)"
| "team_id_item _ = None"

text \<open>
  An array of team ids with a hole is refused here; the code skips the hole in its check, and what reads the list
  is undecided later.
\<close>

definition read_team_ids :: "raw option \<Rightarrow> string list option option" where
  "read_team_ids v =
     (case v of None \<Rightarrow> Some None
      | Some (RArr xs) \<Rightarrow>
          if length xs \<le> MAX_RESOURCE_LIST_ITEMS \<and> list_all (\<lambda>x. team_id_item x \<noteq> None) xs
          then Some (Some (map (\<lambda>x. the (team_id_item x)) xs)) else None
      | Some _ \<Rightarrow> None)"

definition read_attributes :: "raw option \<Rightarrow> (string, host_value) jsmap option" where
  "read_attributes v = (case v of None \<Rightarrow> Some [] | Some x \<Rightarrow> readValues x)"

definition readResource :: "raw \<Rightarrow> resource_read option" where
  "readResource v =
     (case v of RObj plain symbols props \<Rightarrow>
        (case (own_text 64 props ''type'', own_text 200 props ''id'', own_text 200 props ''organizationId'',
               read_team_ids (own_value props ''teamIds''), read_attributes (own_value props ''attributes'')) of
           (Some ty, Some i, Some og, Some teamIds, Some attributes) \<Rightarrow>
             if code_pattern code_char ty
             then Some \<lparr> rr_type = ty, rr_id = i, rr_organizationId = og, rr_teamIds = teamIds, rr_attributes = attributes \<rparr> else None
         | _ \<Rightarrow> None)
      | _ \<Rightarrow> None)"

definition pick :: "(string, host_value) jsmap \<Rightarrow> string list \<Rightarrow> (string, host_value) jsmap" where
  "pick vals names = filter (\<lambda>(name, v). name \<in> set names) vals"

section \<open>The facts a request needs\<close>

record required_facts =
  nd_features :: "string list"
  nd_permissions :: "string list"
  nd_subject :: "string list"
  nd_resource :: bool
  nd_resourceTeamPath :: bool
  nd_environment :: bool
  nd_context :: "string list"
  nd_session :: bool

definition all_sorted :: "(policy_analysis \<Rightarrow> string list) \<Rightarrow> policy_analysis list \<Rightarrow> string list" where
  "all_sorted f as = sort (uniq (concat (map f as)))"

definition requiredFacts :: "(policy_definition \<times> policy_analysis) list \<Rightarrow> policy_request \<Rightarrow> required_facts" where
  "requiredFacts policies request =
     (let as = map snd (filter (\<lambda>(d, a). applicability d request = Applies) policies) in
      \<lparr> nd_features = all_sorted an_features as, nd_permissions = all_sorted an_permissions as,
        nd_subject = all_sorted an_subjectRefs as,
        nd_resource = list_ex (\<lambda>a. an_resourceRefs a \<noteq> []) as,
        nd_resourceTeamPath = list_ex (\<lambda>a. ''resource.teamPathIds'' \<in> set (an_resourceRefs a)) as,
        nd_environment = list_ex (\<lambda>a. an_environmentRefs a \<noteq> []) as,
        nd_context = all_sorted (\<lambda>a. map (drop 8) (an_contextRefs a)) as,
        nd_session = list_ex (\<lambda>a. an_sessionRefs a \<noteq> []) as \<rparr>)"

section \<open>Reading the storage\<close>

datatype fault = FaultBase | FaultSetRevision | FaultActiveSet | FaultSubject string | FaultTeamPath
  | FaultFeature string | FaultPermission string

record decider_env =
  de_hash :: "string \<Rightarrow> string"
  de_zones :: zones
  de_options :: engine_options
  de_now :: timestamp
  de_clock :: "int option"
  de_maxSteps :: nat
  de_fails :: "fault \<Rightarrow> bool"

definition MAX_RESOURCE_PATH_TEAMS :: nat where
  "MAX_RESOURCE_PATH_TEAMS = 50"

definition MAX_RESOURCE_PATH_IDS :: nat where
  "MAX_RESOURCE_PATH_IDS = 500"

definition MAX_SUBJECT_TEAMS :: nat where
  "MAX_SUBJECT_TEAMS = 500"

definition MAX_FACT_LOOKUPS_PER_DECISION :: nat where
  "MAX_FACT_LOOKUPS_PER_DECISION = 64"

fun membership_status_text :: "mem_status \<Rightarrow> string" where
  "membership_status_text MActive = ''active''"
| "membership_status_text MSuspended = ''suspended''"
| "membership_status_text MBlocked = ''blocked''"

definition listed_teams :: "uerror + string list \<Rightarrow> host_value option" where
  "listed_teams r = (case r of Inl e \<Rightarrow> None | Inr ids \<Rightarrow> if length ids \<le> MAX_SUBJECT_TEAMS then Some (strings ids) else None)"

definition subject_value :: "store \<Rightarrow> string \<Rightarrow> membership \<Rightarrow> string \<Rightarrow> host_value option" where
  "subject_value s og m name =
     (if name = ''subject.membershipId'' then Some (HString (m_id m))
      else if name = ''subject.membershipStatus'' then Some (HString (membership_status_text (m_status m)))
      else if name = ''subject.identity'' then Some (HString (provider (m_identity m) @ '':'' @ subject (m_identity m)))
      else if name = ''subject.roleKeys'' then
        Some (strings (map r_key (filter (\<lambda>r. r_organizationId r = og) (role_findByIds s (m_roleIds m)))))
      else if name = ''subject.managedTeamIds'' then
        listed_teams (tm_activeTeamIds s og (m_id m) (Some (int (MAX_SUBJECT_TEAMS + 1))) (Some [''owner'', ''manager'']))
      else if name = ''subject.teamIds'' then
        listed_teams (tm_activeTeamIds s og (m_id m) (Some (int (MAX_SUBJECT_TEAMS + 1))) None)
      else None)"

definition subject_fails :: "decider_env \<Rightarrow> string \<Rightarrow> bool" where
  "subject_fails env name \<longleftrightarrow>
     name \<in> {''subject.roleKeys'', ''subject.managedTeamIds'', ''subject.teamIds''} \<and> de_fails env (FaultSubject name)"

definition subjectFacts :: "decider_env \<Rightarrow> store \<Rightarrow> membership option \<Rightarrow> string list \<Rightarrow> string \<Rightarrow> (string, host_value) jsmap" where
  "subjectFacts env s found needed og =
     (case found of None \<Rightarrow> []
      | Some m \<Rightarrow> List.map_filter (\<lambda>name. if subject_fails env name then None
                                          else map_option (Pair name) (subject_value s og m name)) needed)"

definition teamPath :: "decider_env \<Rightarrow> store \<Rightarrow> string \<Rightarrow> string list option \<Rightarrow> string list option" where
  "teamPath env s og teamIds =
     (case teamIds of None \<Rightarrow> None
      | Some ids \<Rightarrow>
          if ids = [] then Some []
          else if length (uniq ids) > MAX_RESOURCE_PATH_TEAMS \<or> de_fails env FaultTeamPath then None
          else case team_pathIds s og ids (Some (int (MAX_RESOURCE_PATH_IDS + 1))) of
                 Inl e \<Rightarrow> None
               | Inr found \<Rightarrow> if length found \<le> MAX_RESOURCE_PATH_IDS then Some found else None)"

text \<open>The lookups share a budget: the features take theirs first.\<close>

definition lookup_features :: "decider_env \<Rightarrow> store \<Rightarrow> string \<Rightarrow> string list \<Rightarrow> (string, bool option) jsmap" where
  "lookup_features env s og keys =
     map (\<lambda>(n, key). (key, if n \<ge> MAX_FACT_LOOKUPS_PER_DECISION \<or> de_fails env (FaultFeature key) then None
                           else Some (features_isEnabled s og key)))
       (enumerate 0 keys)"

definition ask_permission :: "decider_env \<Rightarrow> can_input \<Rightarrow> string \<Rightarrow> store \<Rightarrow> bool option \<times> store" where
  "ask_permission env q key s =
     (if de_fails env (FaultPermission key) then (None, s)
      else let (d, s1) = decideCan (de_options env) (de_now env) (q \<lparr> ci_permission := key \<rparr>) s in (Some (bd_allowed d), s1))"

fun lookup_permissions :: "decider_env \<Rightarrow> can_input \<Rightarrow> nat \<Rightarrow> string list \<Rightarrow> store \<Rightarrow> (string, bool option) jsmap \<times> store" where
  "lookup_permissions env q n [] s = ([], s)"
| "lookup_permissions env q n (key # keys) s =
     (let (answer, s1) = (if n \<ge> MAX_FACT_LOOKUPS_PER_DECISION then (None, s) else ask_permission env q key s);
          (rest, s2) = lookup_permissions env q (Suc n) keys s1
      in ((key, answer) # rest, s2))"

section \<open>Gathering\<close>

definition resource_facts_of :: "decider_env \<Rightarrow> store \<Rightarrow> string \<Rightarrow> bool \<Rightarrow> resource_read \<Rightarrow> resource_facts" where
  "resource_facts_of env s og teamPathNeeded r =
     \<lparr> rf_id = rr_id r, rf_teamIds = rr_teamIds r,
       rf_teamPathIds = (if teamPathNeeded then teamPath env s og (rr_teamIds r) else None), rf_attributes = rr_attributes r \<rparr>"

definition gather ::
  "decider_env \<Rightarrow> can_input \<Rightarrow> required_facts \<Rightarrow> membership option \<Rightarrow> resource_read option \<Rightarrow> (string, host_value) jsmap option \<Rightarrow>
   (string, host_value) jsmap option \<Rightarrow> store \<Rightarrow> evaluation_facts \<times> store" where
  "gather env q needs found resource ctx session s =
     (let og = ci_organizationId q;
          features = lookup_features env s og (nd_features needs);
          (permissions, s1) = lookup_permissions env q (length (nd_features needs)) (nd_permissions needs) s
      in (\<lparr> ef_subject = subjectFacts env s found (nd_subject needs) og,
            ef_resource = map_option (resource_facts_of env s og (nd_resourceTeamPath needs)) resource,
            ef_features = features, ef_permissions = permissions,
            ef_now = (if nd_environment needs \<or> nd_session needs then de_clock env else None),
            ef_context = (if nd_context needs = [] then None else map_option (\<lambda>m. pick m (nd_context needs)) ctx),
            ef_session = (if nd_session needs then session else None) \<rparr>, s1))"

end
