(* ===== verification/PolicyDecider.thy ===== *)
theory PolicyDecider
  imports PolicyFacts
begin

text \<open>
  The policy layer of the engine: \<open>authorize\<close>, \<open>packages/core/src/policy/decider.ts\<close>.  After the mandatory checks of the
  engine it evaluates the active policies of the organization, which it keeps compiled in a cache until their
  revision changes.

  The lemmas show that policies only ever restrict, that the cache is never seen in an answer, that the
  answer is the precedence rule over what the active policies say, and that a storage that fails never turns a no into a yes.
\<close>

section \<open>Questions and answers\<close>

text \<open>
  \<open>None\<close> stands for an identity that is not an object with two strings, and for an organization or permission that is
  not a string; the resource, the signals and the session are \<open>None\<close> when left out, and \<open>aq_teamId\<close> is \<open>Some None\<close> when
  it is not a string.
\<close>

record authorize_input =
  aq_identity :: "identity option"
  aq_organizationId :: "string option"
  aq_permission :: "string option"
  aq_teamId :: "string option option"
  aq_resource :: "raw option"
  aq_context :: "raw option"
  aq_session :: "session_input option"
  aq_requireApplicablePolicy :: bool

datatype authorization_reason = WhyAllowed | WhyMalformed | WhyCrossTenant | WhyOrganizationInactive | WhyMembershipInactive
  | WhyPermissionDenied | WhyPolicyDenied | WhyPolicyIndeterminate | WhyNoApplicablePolicy | WhyEvaluationError | WhySetTooLarge

record authorization_result =
  ar_decision :: verdict
  ar_allowed :: bool
  ar_reason :: authorization_reason
  ar_organizationId :: string
  ar_permission :: string
  ar_via :: "via option"
  ar_policyRevision :: "int option"
  ar_stepUp :: "string list option"
  ar_policies :: "policy_outcome list"
  ar_evaluatedAt :: timestamp

definition or_empty :: "string option \<Rightarrow> string" where
  "or_empty v = (case v of None \<Rightarrow> [] | Some t \<Rightarrow> t)"

definition finish :: "timestamp \<Rightarrow> authorize_input \<Rightarrow> verdict \<Rightarrow> authorization_reason \<Rightarrow> authorization_result" where
  "finish now input decision why =
     \<lparr> ar_decision = decision, ar_allowed = (decision = VAllow), ar_reason = why, ar_organizationId = or_empty (aq_organizationId input),
       ar_permission = or_empty (aq_permission input), ar_via = None, ar_policyRevision = None, ar_stepUp = None, ar_policies = [],
       ar_evaluatedAt = now \<rparr>"

definition isIdentity :: "identity \<Rightarrow> bool" where
  "isIdentity i \<longleftrightarrow> isText 500 (provider i) \<and> isText 500 (subject i)"

text \<open>The question the engine is asked, when the input is one.\<close>

definition question :: "authorize_input \<Rightarrow> can_input option" where
  "question input =
     (case (aq_identity input, aq_organizationId input, aq_permission input) of
        (Some i, Some og, Some p) \<Rightarrow>
          if isIdentity i \<and> isText 200 og \<and> (case aq_teamId input of None \<Rightarrow> True | Some None \<Rightarrow> False | Some (Some t) \<Rightarrow> isText 200 t)
          then Some \<lparr> ci_identity = i, ci_organizationId = og, ci_permission = p, ci_teamId = Option.bind (aq_teamId input) id \<rparr>
          else None
      | _ \<Rightarrow> None)"

text \<open>\<open>None\<close> is a resource that cannot be read.\<close>

definition target :: "authorize_input \<Rightarrow> resource_read option option" where
  "target input = (case aq_resource input of None \<Rightarrow> Some None | Some v \<Rightarrow> map_option Some (readResource v))"

section \<open>Compiled policies\<close>

datatype compiled = CValid evaluable_policy policy_analysis | CBroken policy "string list option" "string option"

text \<open>What can be read of a stored definition without trusting it: a stored row of the model always has the shape of one.\<close>

definition tolerantScope :: "policy \<Rightarrow> string list option \<times> string option" where
  "tolerantScope p = (Some (pd_actions (po_definition p)), pd_resourceType (po_definition p))"

definition evaluable :: "policy \<Rightarrow> parsed_definition \<Rightarrow> evaluable_policy" where
  "evaluable p parsed =
     \<lparr> ev_id = po_id p, ev_key = po_key p, ev_revision = po_revision p, ev_hash = po_definitionHash p, ev_definition = pp_definition parsed \<rparr>"

definition compile_policy :: "(string \<Rightarrow> string) \<Rightarrow> zones \<Rightarrow> policy \<Rightarrow> compiled" where
  "compile_policy H zones p =
     (case parse_stored H zones (po_definition p) of
        Inl e \<Rightarrow> CBroken p (fst (tolerantScope p)) (snd (tolerantScope p))
      | Inr parsed \<Rightarrow>
          if pp_hash parsed \<noteq> po_definitionHash p then CBroken p (fst (tolerantScope p)) (snd (tolerantScope p))
          else CValid (evaluable p parsed) (pp_analysis parsed))"

record cached_set =
  cs_revision :: int
  cs_compiled :: "compiled list"
  cs_tooLarge :: bool

type_synonym policy_cache = "(string, cached_set) jsmap"

definition MAX_CACHED_ORGANIZATIONS :: nat where
  "MAX_CACHED_ORGANIZATIONS = 1000"

definition compiled_set :: "(string \<Rightarrow> string) \<Rightarrow> zones \<Rightarrow> policy_store \<Rightarrow> string \<Rightarrow> cached_set" where
  "compiled_set H zones ps og =
     (let (revision, policies) = activeSet ps og in
      \<lparr> cs_revision = revision, cs_compiled = map (compile_policy H zones) (take MAX_ACTIVE_POLICIES policies),
        cs_tooLarge = (length policies > MAX_ACTIVE_POLICIES) \<rparr>)"

text \<open>The entry goes to the end, and the oldest one leaves when there are too many.\<close>

definition cache_put :: "string \<Rightarrow> cached_set \<Rightarrow> policy_cache \<Rightarrow> policy_cache" where
  "cache_put og entry cache =
     (let c = mset_at og entry (mdel og cache) in if length c > MAX_CACHED_ORGANIZATIONS then mdel (hd (mkeys c)) c else c)"

text \<open>The cache is \<open>None\<close> when caching is off; the result is \<open>None\<close> when a read of the storage throws.\<close>

definition loadSet :: "decider_env \<Rightarrow> policy_store \<Rightarrow> string \<Rightarrow> policy_cache option \<Rightarrow> (cached_set \<times> policy_cache option) option" where
  "loadSet env ps og cache =
     (let load = (if de_fails env FaultActiveSet then None
                  else let entry = compiled_set (de_hash env) (de_zones env) ps og
                       in Some (entry, map_option (cache_put og entry) cache))
      in case cache of None \<Rightarrow> load
         | Some c \<Rightarrow>
             if de_fails env FaultSetRevision then None
             else case mget c og of
                    Some hit \<Rightarrow> if cs_revision hit = setRevision ps og then Some (hit, cache) else load
                  | None \<Rightarrow> load)"

section \<open>Deciding\<close>

definition valid_policies :: "cached_set \<Rightarrow> (evaluable_policy \<times> policy_analysis) list" where
  "valid_policies loaded = List.map_filter (\<lambda>c. case c of CValid p a \<Rightarrow> Some (p, a) | _ \<Rightarrow> None) (cs_compiled loaded)"

definition broken_outcome :: "policy_request \<Rightarrow> compiled \<Rightarrow> policy_outcome option" where
  "broken_outcome request c =
     (case c of CValid p a \<Rightarrow> None
      | CBroken p actions resourceType \<Rightarrow>
          if (case actions of None \<Rightarrow> True
              | Some as \<Rightarrow> actionMatches as (rq_permission request) \<and>
                  (case (resourceType, rq_resourceType request) of (Some t, Some t') \<Rightarrow> t = t' | _ \<Rightarrow> True))
          then Some \<lparr> out_policyId = po_id p, out_key = po_key p, out_kind = None, out_revision = po_revision p,
                      out_hash = po_definitionHash p, out_effect = po_effect p, out_result = VIndeterminate,
                      out_reason = Some ''policy_definition_invalid'' \<rparr>
          else None)"

definition steppable :: "policy_outcome \<Rightarrow> bool" where
  "steppable x \<longleftrightarrow> out_kind x = Some KSensitive \<and>
     (out_result x = VDeny \<or> (out_result x = VIndeterminate \<and> out_reason x = Some ''session_unavailable''))"

definition stepUpFor :: "policy_outcome list \<Rightarrow> string list option" where
  "stepUpFor outcomes =
     (let failing = filter (\<lambda>x. out_result x \<noteq> VAllow) outcomes in
      if failing = [] then None else if list_all steppable failing then Some (map out_key failing) else None)"

definition set_outcomes :: "decider_env \<Rightarrow> policy_request \<Rightarrow> evaluation_facts \<Rightarrow> cached_set \<Rightarrow> policy_outcome list" where
  "set_outcomes env request facts loaded =
     sort_by (\<lambda>a b. out_key a < out_key b)
       (se_outcomes (evaluatePolicySet (de_zones env) (map fst (valid_policies loaded)) request facts False (de_maxSteps env))
        @ List.map_filter (broken_outcome request) (cs_compiled loaded))"

definition reason_of :: "verdict \<Rightarrow> authorization_reason" where
  "reason_of v = (case v of VAllow \<Rightarrow> WhyAllowed | VDeny \<Rightarrow> WhyPolicyDenied | VIndeterminate \<Rightarrow> WhyPolicyIndeterminate)"

definition conclude :: "decider_env \<Rightarrow> authorize_input \<Rightarrow> via option \<Rightarrow> int \<Rightarrow> policy_outcome list \<Rightarrow> authorization_result" where
  "conclude env input v revision outcomes =
     (if outcomes = [] \<and> aq_requireApplicablePolicy input
      then (finish (de_now env) input VDeny WhyNoApplicablePolicy) \<lparr> ar_via := v, ar_policyRevision := Some revision \<rparr>
      else
        let decision = combineVerdicts (map out_result outcomes) in
        (finish (de_now env) input decision (reason_of decision))
          \<lparr> ar_via := v, ar_policyRevision := Some revision, ar_policies := outcomes, ar_stepUp := stepUpFor outcomes \<rparr>)"

definition request_of :: "can_input \<Rightarrow> resource_read option \<Rightarrow> policy_request" where
  "request_of q resource = \<lparr> rq_permission = ci_permission q, rq_resourceType = map_option rr_type resource \<rparr>"

definition needs_of :: "cached_set \<Rightarrow> policy_request \<Rightarrow> required_facts" where
  "needs_of loaded request = requiredFacts (map (\<lambda>(p, a). (ev_definition p, a)) (valid_policies loaded)) request"

text \<open>The signals and the session, when they can be read.\<close>

definition read_context :: "authorize_input \<Rightarrow> (string, host_value) jsmap option option" where
  "read_context input = (case aq_context input of None \<Rightarrow> Some None | Some v \<Rightarrow> map_option Some (readValues v))"

definition read_session :: "decider_env \<Rightarrow> authorize_input \<Rightarrow> (string, host_value) jsmap option option" where
  "read_session env input =
     (case aq_session input of None \<Rightarrow> Some None | Some v \<Rightarrow> map_option Some (readSession v (de_clock env)))"

definition decide_policies ::
  "decider_env \<Rightarrow> authorize_input \<Rightarrow> can_input \<Rightarrow> resource_read option \<Rightarrow> base_decision \<Rightarrow> cached_set \<Rightarrow> store \<Rightarrow> authorization_result \<times> store" where
  "decide_policies env input q resource base loaded s =
     (if cs_tooLarge loaded
      then ((finish (de_now env) input VIndeterminate WhySetTooLarge) \<lparr> ar_via := bd_via base, ar_policyRevision := Some (cs_revision loaded) \<rparr>, s)
      else case (read_context input, read_session env input) of
        (Some ctx, Some session) \<Rightarrow>
          (let request = request_of q resource;
               (facts, s1) = gather env q (needs_of loaded request) (bd_membership base) resource ctx session s
           in (conclude env input (bd_via base) (cs_revision loaded) (set_outcomes env request facts loaded), s1))
      | _ \<Rightarrow> (finish (de_now env) input VDeny WhyMalformed, s))"

definition base_why :: "base_reason option \<Rightarrow> authorization_reason" where
  "base_why r = (case r of None \<Rightarrow> WhyPermissionDenied | Some MalformedInput \<Rightarrow> WhyMalformed
     | Some OrganizationInactive \<Rightarrow> WhyOrganizationInactive | Some MembershipInactive \<Rightarrow> WhyMembershipInactive
     | Some PermissionDenied \<Rightarrow> WhyPermissionDenied)"

definition decide ::
  "decider_env \<Rightarrow> authorize_input \<Rightarrow> store \<Rightarrow> policy_store \<Rightarrow> policy_cache option \<Rightarrow>
   authorization_result option \<times> store \<times> policy_cache option" where
  "decide env input s ps cache =
     (let no = (\<lambda>why. (Some (finish (de_now env) input VDeny why), s, cache)) in
      case (question input, target input) of
        (None, _) \<Rightarrow> no WhyMalformed
      | (_, None) \<Rightarrow> no WhyMalformed
      | (Some q, Some resource) \<Rightarrow>
          if (case resource of None \<Rightarrow> False | Some r \<Rightarrow> rr_organizationId r \<noteq> ci_organizationId q) then no WhyCrossTenant
          else if de_fails env FaultBase then (None, s, cache)
          else
            let (base, s1) = decideCan (de_options env) (de_now env) q s in
            if \<not> bd_allowed base then (Some (finish (de_now env) input VDeny (base_why (bd_reason base))), s1, cache)
            else if isProtectedPermission (ci_permission q) then
              (Some ((if aq_requireApplicablePolicy input then finish (de_now env) input VDeny WhyNoApplicablePolicy
                      else finish (de_now env) input VAllow WhyAllowed) \<lparr> ar_via := bd_via base \<rparr>), s1, cache)
            else case loadSet env ps (ci_organizationId q) cache of
                None \<Rightarrow> (None, s1, cache)
              | Some (loaded, cache') \<Rightarrow>
                  let (r, s2) = decide_policies env input q resource base loaded s1 in (Some r, s2, cache'))"

text \<open>Whatever was thrown, the answer is not an allow.\<close>

definition authorize ::
  "decider_env \<Rightarrow> authorize_input \<Rightarrow> store \<Rightarrow> policy_store \<Rightarrow> policy_cache option \<Rightarrow>
   authorization_result \<times> store \<times> policy_cache option" where
  "authorize env input s ps cache =
     (let (r, s', cache') = decide env input s ps cache in
      (case r of None \<Rightarrow> finish (de_now env) input VIndeterminate WhyEvaluationError | Some x \<Rightarrow> x, s', cache'))"

text \<open>
  What the hook \<open>onDecision\<close> of the engine is told about the question and its answer; a hook that throws changes nothing.  The type
  and the id of the resource are told when they are strings.
\<close>

record authorize_report =
  rp_identity :: "identity option"
  rp_organizationId :: string
  rp_permission :: "string option"
  rp_teamId :: "string option"
  rp_allowed :: bool
  rp_via :: "via option"
  rp_malformed :: bool
  rp_authorization :: authorization_result
  rp_resource :: "(string \<times> string) option"

definition told_resource :: "raw option \<Rightarrow> (string \<times> string) option" where
  "told_resource v =
     (case v of Some (RObj plain symbols props) \<Rightarrow>
        (case (own_value props ''type'', own_value props ''id'') of (Some (RStr ty), Some (RStr i)) \<Rightarrow> Some (ty, i) | _ \<Rightarrow> None)
      | _ \<Rightarrow> None)"

definition engine_authorize ::
  "decider_env \<Rightarrow> authorize_input \<Rightarrow> store \<Rightarrow> policy_store \<Rightarrow> policy_cache option \<Rightarrow>
   (authorization_result \<times> authorize_report) \<times> store \<times> policy_cache option" where
  "engine_authorize env input s ps cache =
     (let (r, s', cache') = authorize env input s ps cache in
      ((r, \<lparr> rp_identity = aq_identity input, rp_organizationId = ar_organizationId r, rp_permission = aq_permission input,
             rp_teamId = Option.bind (aq_teamId input) id, rp_allowed = ar_allowed r, rp_via = ar_via r,
             rp_malformed = (ar_reason r = WhyMalformed), rp_authorization = r, rp_resource = told_resource (aq_resource input) \<rparr>), s', cache'))"

section \<open>Policies only restrict\<close>

lemma finish_simps [simp]:
  "ar_allowed (finish now input v why) \<longleftrightarrow> v = VAllow" "ar_decision (finish now input v why) = v"
  by (simp_all add: finish_def)

text \<open>A result that was not allowed as such is not an allow with another detail.\<close>

lemma result_simps [simp]:
  "ar_allowed (r \<lparr> ar_via := v \<rparr>) = ar_allowed r" "ar_allowed (r \<lparr> ar_policyRevision := n \<rparr>) = ar_allowed r"
  "ar_allowed (r \<lparr> ar_policies := os \<rparr>) = ar_allowed r" "ar_allowed (r \<lparr> ar_stepUp := ks \<rparr>) = ar_allowed r"
  "ar_decision (r \<lparr> ar_via := v \<rparr>) = ar_decision r" "ar_decision (r \<lparr> ar_policyRevision := n \<rparr>) = ar_decision r"
  "ar_decision (r \<lparr> ar_policies := os \<rparr>) = ar_decision r" "ar_decision (r \<lparr> ar_stepUp := ks \<rparr>) = ar_decision r"
  by (cases r; simp)+

lemma conclude_decision:
  "ar_decision (conclude env input v n outcomes) =
     (if outcomes = [] \<and> aq_requireApplicablePolicy input then VDeny else combineVerdicts (map out_result outcomes))"
  "ar_allowed (conclude env input v n outcomes) \<longleftrightarrow> ar_decision (conclude env input v n outcomes) = VAllow"
  by (simp_all add: conclude_def Let_def)

definition own_resource :: "can_input \<Rightarrow> resource_read option \<Rightarrow> bool" where
  "own_resource q resource \<longleftrightarrow> (case resource of None \<Rightarrow> True | Some r \<Rightarrow> rr_organizationId r = ci_organizationId q)"

text \<open>The way to an allow: each step of \<open>decide\<close> went through.\<close>

lemma decide_allowed:
  assumes "ar_allowed (fst (authorize env input s ps cache))"
  obtains q resource base s1 where "question input = Some q" "target input = Some resource" "own_resource q resource"
    "decideCan (de_options env) (de_now env) q s = (base, s1)" "bd_allowed base"
    "isProtectedPermission (ci_permission q) \<and> \<not> aq_requireApplicablePolicy input \<or>
     \<not> isProtectedPermission (ci_permission q) \<and>
     (\<exists>loaded cache'. loadSet env ps (ci_organizationId q) cache = Some (loaded, cache') \<and>
        ar_allowed (fst (decide_policies env input q resource base loaded s1)))"
proof -
  obtain x where x: "fst (decide env input s ps cache) = Some x" "ar_allowed x"
    using assms by (cases "decide env input s ps cache") (auto simp: authorize_def split: option.splits)
  then obtain q resource where q: "question input = Some q" "target input = Some resource"
    by (cases "question input"; cases "target input") (auto simp: decide_def Let_def)
  note d = x(1)[unfolded decide_def Let_def q prod.case option.case]
  have own: "own_resource q resource" using d x(2) by (auto simp: own_resource_def split: option.splits if_splits)
  obtain base s1 where base: "decideCan (de_options env) (de_now env) q s = (base, s1)" by fastforce
  have r: "\<not> (case resource of None \<Rightarrow> False | Some r \<Rightarrow> rr_organizationId r \<noteq> ci_organizationId q)"
    using own by (simp add: own_resource_def split: option.splits)
  note d1 = d[unfolded if_not_P[OF r] base prod.case]
  have nf: "\<not> de_fails env FaultBase" using d1 by (auto split: if_splits)
  note d2 = d1[unfolded if_not_P[OF nf]]
  have b: "bd_allowed base" using d2 x(2) by (auto split: if_splits)
  then have nb: "\<not> \<not> bd_allowed base" by simp
  note d3 = d2[unfolded if_not_P[OF nb]]
  show thesis
  proof (rule that[OF q own base b], cases "isProtectedPermission (ci_permission q)")
    case True
    then show "isProtectedPermission (ci_permission q) \<and> \<not> aq_requireApplicablePolicy input \<or>
     \<not> isProtectedPermission (ci_permission q) \<and>
     (\<exists>loaded cache'. loadSet env ps (ci_organizationId q) cache = Some (loaded, cache') \<and>
        ar_allowed (fst (decide_policies env input q resource base loaded s1)))"
      using d3 x(2) by (auto split: if_splits)
  next
    case False
    note d4 = d3[unfolded if_not_P[OF False]]
    obtain loaded cache' where l: "loadSet env ps (ci_organizationId q) cache = Some (loaded, cache')"
      using d4 by (cases "loadSet env ps (ci_organizationId q) cache") auto
    show "isProtectedPermission (ci_permission q) \<and> \<not> aq_requireApplicablePolicy input \<or>
     \<not> isProtectedPermission (ci_permission q) \<and>
     (\<exists>loaded cache'. loadSet env ps (ci_organizationId q) cache = Some (loaded, cache') \<and>
        ar_allowed (fst (decide_policies env input q resource base loaded s1)))"
      using d4 x(2) False l by (auto simp: case_prod_unfold)
  qed
qed

section \<open>The cache\<close>

definition cache_ok :: "(string \<Rightarrow> string) \<Rightarrow> zones \<Rightarrow> policy_store \<Rightarrow> policy_cache \<Rightarrow> bool" where
  "cache_ok H zones ps cache \<longleftrightarrow>
     (\<forall>og entry. mget cache og = Some entry \<longrightarrow>
        (\<exists>t. policy_steps H empty_policies t \<and> policy_steps H t ps \<and> entry = compiled_set H zones t og))"

lemma compiled_set_revision: "cs_revision (compiled_set H zones ps og) = setRevision ps og"
  by (simp add: compiled_set_def activeSet_def)

lemma activeSet_cong: "setRevision t og = setRevision s og \<Longrightarrow> inOrganization t og = inOrganization s og \<Longrightarrow> activeSet t og = activeSet s og"
  by (simp add: activeSet_def)

lemma cache_hit:
  assumes "cache_ok H zones ps cache" "mget cache og = Some hit" "cs_revision hit = setRevision ps og"
  shows "hit = compiled_set H zones ps og"
proof -
  obtain t where t: "policy_steps H empty_policies t" "policy_steps H t ps" "hit = compiled_set H zones t og"
    using assms(1,2) by (auto simp: cache_ok_def)
  then have rev: "setRevision ps og = setRevision t og" using assms(3) compiled_set_revision by metis
  have "inOrganization ps og = inOrganization t og" using revision_tells[OF steps_ok[OF t(1) policies_ok_empty] t(2) rev] .
  then have "activeSet ps og = activeSet t og" using rev by (intro activeSet_cong) simp_all
  then show ?thesis using t(3) by (simp add: compiled_set_def)
qed

lemma mget_cache_put: "mget (cache_put og entry cache) og' = Some e \<Longrightarrow> e = entry \<and> og' = og \<or> mget cache og' = Some e"
  by (auto simp: cache_put_def Let_def split: if_splits)

lemma loadSet_cached:
  assumes "cache_ok (de_hash env) (de_zones env) ps cache" "loadSet env ps og (Some cache) = Some (loaded, cache')"
  shows "loaded = compiled_set (de_hash env) (de_zones env) ps og \<and>
    (\<exists>c. cache' = Some c \<and> (c = cache \<or> c = cache_put og loaded cache))"
proof (cases "\<exists>hit. mget cache og = Some hit \<and> cs_revision hit = setRevision ps og")
  case True
  then show ?thesis using assms cache_hit[OF assms(1), of og] by (auto simp: loadSet_def Let_def split: if_splits)
next
  case False
  then show ?thesis using assms(2) by (auto simp: loadSet_def Let_def split: if_splits option.splits)
qed

lemma cache_ok_put:
  assumes "cache_ok H zones ps cache" "policy_steps H empty_policies ps"
  shows "cache_ok H zones ps (cache_put og (compiled_set H zones ps og) cache)"
  unfolding cache_ok_def
proof (intro allI impI)
  fix og' entry assume e: "mget (cache_put og (compiled_set H zones ps og) cache) og' = Some entry"
  show "\<exists>t. policy_steps H empty_policies t \<and> policy_steps H t ps \<and> entry = compiled_set H zones t og'"
    using mget_cache_put[OF e] assms by (auto simp: cache_ok_def)
qed

lemma cache_ok_step:
  assumes "cache_ok H zones ps cache" "policy_steps H ps ps'"
  shows "cache_ok H zones ps' cache"
  using assms by (meson cache_ok_def rtranclp_trans)

text \<open>The writes of any client and the decisions of one process share the policies; the cache belongs to the process.\<close>

inductive decider_step :: "(string \<Rightarrow> string) \<Rightarrow> zones \<Rightarrow> policy_store \<times> policy_cache \<Rightarrow> policy_store \<times> policy_cache \<Rightarrow> bool" for H zones where
  wrote: "policy_step H ps ps' \<Longrightarrow> decider_step H zones (ps, cache) (ps', cache)"
| asked: "de_hash env = H \<Longrightarrow> de_zones env = zones \<Longrightarrow> authorize env input s ps (Some cache) = (r, s', Some cache') \<Longrightarrow>
    decider_step H zones (ps, cache) (ps, cache')"

abbreviation decider_steps :: "(string \<Rightarrow> string) \<Rightarrow> zones \<Rightarrow> policy_store \<times> policy_cache \<Rightarrow> policy_store \<times> policy_cache \<Rightarrow> bool" where
  "decider_steps H zones \<equiv> (decider_step H zones)\<^sup>*\<^sup>*"

lemma decide_cache_after:
  "snd (snd (decide env input s ps cache)) \<in>
     {cache} \<union> {c. \<exists>loaded q. question input = Some q \<and> loadSet env ps (ci_organizationId q) cache = Some (loaded, c)}"
  unfolding decide_def Let_def by (auto split: option.split prod.split if_split)

lemma cache_ok_ask:
  assumes "cache_ok (de_hash env) (de_zones env) ps cache" "policy_steps (de_hash env) empty_policies ps"
    and "authorize env input s ps (Some cache) = (r, s', Some cache')"
  shows "cache_ok (de_hash env) (de_zones env) ps cache'"
proof -
  have "snd (snd (decide env input s ps (Some cache))) = Some cache'"
    using assms(3) by (auto simp: authorize_def split: prod.splits)
  then consider "cache' = cache" | loaded og where "loadSet env ps og (Some cache) = Some (loaded, Some cache')"
    using decide_cache_after[of env input s ps "Some cache"] by auto
  then show ?thesis
  proof cases
    case 2
    then have "loaded = compiled_set (de_hash env) (de_zones env) ps og" "cache' = cache \<or> cache' = cache_put og loaded cache"
      using loadSet_cached[OF assms(1)] by auto
    then show ?thesis using assms(1) cache_ok_put[OF assms(1,2)] by auto
  qed (use assms(1) in simp)
qed

lemma decider_run:
  assumes "decider_steps H zones (empty_policies, []) (ps, cache)"
  shows "policy_steps H empty_policies ps \<and> cache_ok H zones ps cache"
  using assms
proof (induction "(ps, cache)" arbitrary: ps cache rule: rtranclp_induct)
  case base
  then show ?case by (simp add: cache_ok_def)
next
  case (step y)
  obtain ps0 c0 where y: "y = (ps0, c0)" by fastforce
  note ih = step.hyps(3)[OF y]
  from step.hyps(2)[unfolded y] show ?case
  proof cases
    case wrote
    have "policy_steps H ps0 ps" using wrote(2) by simp
    then show ?thesis using ih wrote(1) cache_ok_step[of H zones ps0 c0 ps] by (auto intro: rtranclp_trans)
  next
    case (asked env input s r s')
    then show ?thesis using ih cache_ok_ask[of env ps c0 input s r s' cache] by simp
  qed
qed

lemma decide_cached:
  assumes "cache_ok (de_hash env) (de_zones env) ps cache" "\<not> de_fails env FaultSetRevision" "\<not> de_fails env FaultActiveSet"
  shows "fst (decide env input s ps (Some cache)) = fst (decide env input s ps None) \<and>
    fst (snd (decide env input s ps (Some cache))) = fst (snd (decide env input s ps None))"
proof -
  have "\<exists>c. loadSet env ps og (Some cache) = Some (compiled_set (de_hash env) (de_zones env) ps og, c)" for og
  proof (cases "loadSet env ps og (Some cache)")
    case None
    then show ?thesis using assms(2,3) by (auto simp: loadSet_def Let_def split: option.splits if_splits)
  next
    case (Some x)
    then show ?thesis using loadSet_cached[OF assms(1)] by (cases x) blast
  qed
  then obtain c where c: "\<forall>og. loadSet env ps og (Some cache) = Some (compiled_set (de_hash env) (de_zones env) ps og, c og)" by metis
  have n: "loadSet env ps og None = Some (compiled_set (de_hash env) (de_zones env) ps og, None)" for og
    using assms(3) by (simp add: loadSet_def)
  show ?thesis unfolding decide_def Let_def n using c by (auto split: option.split prod.split if_split)
qed

section \<open>What the policies of a set say\<close>

fun compiled_says :: "decider_env \<Rightarrow> evaluation_facts \<Rightarrow> policy_request \<Rightarrow> compiled \<Rightarrow> verdict" where
  "compiled_says env facts request (CValid e a) = says (de_zones env) facts request e"
| "compiled_says env facts request c = (if broken_outcome request c = None then VAllow else VIndeterminate)"

fun compiled_concerns :: "policy_request \<Rightarrow> compiled \<Rightarrow> bool" where
  "compiled_concerns request (CValid e a) \<longleftrightarrow> applicability (ev_definition e) request \<noteq> AppliesNot"
| "compiled_concerns request c \<longleftrightarrow> broken_outcome request c \<noteq> None"

lemma set_map_filter: "set (List.map_filter f xs) = {y. \<exists>x \<in> set xs. f x = Some y}"
  by (induction xs) (auto simp: List.map_filter_simps split: option.split)

lemma valid_policies_set: "fst ` set (valid_policies loaded) = {e. \<exists>a. CValid e a \<in> set (cs_compiled loaded)}"
proof -
  have "set (valid_policies loaded) = {(e, a). CValid e a \<in> set (cs_compiled loaded)}"
    unfolding valid_policies_def set_map_filter by (auto split: compiled.splits) (metis compiled.exhaust)+
  then show ?thesis by force
qed

lemma set_outcomes_unprotected:
  assumes "\<not> isProtectedPermission (rq_permission request)"
  shows "set (set_outcomes env request facts loaded) =
    set (eval_each (de_zones env) request facts (sort_by (\<lambda>a b. ev_key a < ev_key b) (map fst (valid_policies loaded))) (de_maxSteps env)) \<union>
    set (List.map_filter (broken_outcome request) (cs_compiled loaded))"
  using assms by (auto simp: set_outcomes_def evaluatePolicySet_def Let_def)

lemma broken_result: "broken_outcome request c = Some x \<Longrightarrow> out_result x = VIndeterminate"
  by (auto simp: broken_outcome_def split: compiled.splits if_splits)

lemma broken_not_valid: "broken_outcome request c = Some x \<Longrightarrow> \<exists>p as t. c = CBroken p as t"
  by (auto simp: broken_outcome_def split: compiled.splits)

text \<open>An allow means that every policy allows, whatever the budget was.\<close>

lemma set_allows:
  assumes "\<not> isProtectedPermission (rq_permission request)"
    and "combineVerdicts (map out_result (set_outcomes env request facts loaded)) = VAllow" "c \<in> set (cs_compiled loaded)"
  shows "compiled_says env facts request c = VAllow"
proof -
  have all: "out_result x = VAllow" if "x \<in> set (set_outcomes env request facts loaded)" for x
    using assms(2) that unfolding combine_VAllow by auto
  show ?thesis
  proof (cases c)
    case (CValid e a)
    let ?es = "sort_by (\<lambda>a b. ev_key a < ev_key b) (map fst (valid_policies loaded))"
    have "e \<in> fst ` set (valid_policies loaded)" unfolding valid_policies_set using assms(3) CValid by blast
    then have "e \<in> set ?es" by simp
    show ?thesis
    proof (rule ccontr)
      assume "compiled_says env facts request c \<noteq> VAllow"
      then have n: "says (de_zones env) facts request e \<noteq> VAllow" using CValid by simp
      obtain x where "x \<in> set (eval_each (de_zones env) request facts ?es (de_maxSteps env))" "out_result x \<noteq> VAllow"
        using eval_each_covers[OF \<open>e \<in> set ?es\<close> n, of "de_maxSteps env"] n by auto
      then show False using all set_outcomes_unprotected[OF assms(1)] by blast
    qed
  next
    case (CBroken p as t)
    have "broken_outcome request c = None"
    proof (rule ccontr)
      assume "broken_outcome request c \<noteq> None"
      then obtain x where x: "broken_outcome request c = Some x" by blast
      then have "x \<in> set (set_outcomes env request facts loaded)"
        unfolding set_outcomes_unprotected[OF assms(1)] using assms(3) by (force simp: set_map_filter)
      then show False using all broken_result[OF x] by force
    qed
    then show ?thesis using CBroken by simp
  qed
qed

lemma eval_each_concerns: "eval_each zones request facts ps budget \<noteq> [] \<Longrightarrow> \<exists>p \<in> set ps. applicability (ev_definition p) request \<noteq> AppliesNot"
proof (induction ps arbitrary: budget)
  case (Cons p ps)
  show ?case
  proof (cases "applicability (ev_definition p) request = AppliesNot")
    case True
    then have "eval_each zones request facts ps budget \<noteq> []" using Cons.prems unfolding eval_each_Cons by (simp add: evaluatePolicy_def)
    then show ?thesis using Cons.IH by auto
  qed simp
qed simp

lemma set_concerns:
  assumes "\<not> isProtectedPermission (rq_permission request)" "set_outcomes env request facts loaded \<noteq> []"
  shows "\<exists>c \<in> set (cs_compiled loaded). compiled_concerns request c"
proof -
  let ?es = "sort_by (\<lambda>a b. ev_key a < ev_key b) (map fst (valid_policies loaded))"
  obtain x where "x \<in> set (set_outcomes env request facts loaded)" using assms(2) by (cases "set_outcomes env request facts loaded") auto
  then consider "eval_each (de_zones env) request facts ?es (de_maxSteps env) \<noteq> []"
    | "x \<in> set (List.map_filter (broken_outcome request) (cs_compiled loaded))"
    unfolding set_outcomes_unprotected[OF assms(1)] by (metis UnE empty_iff empty_set)
  then show ?thesis
  proof cases
    case 1
    from eval_each_concerns[OF this] obtain e where "e \<in> fst ` set (valid_policies loaded)" "applicability (ev_definition e) request \<noteq> AppliesNot"
      by auto
    then show ?thesis unfolding valid_policies_set using compiled_concerns.simps(1) by blast
  next
    case 2
    then obtain c where c: "c \<in> set (cs_compiled loaded)" "broken_outcome request c = Some x" by (auto simp: set_map_filter)
    obtain p as t where "c = CBroken p as t" using broken_not_valid[OF c(2)] by blast
    then have "compiled_concerns request c" using c(2) by simp
    then show ?thesis using c(1) by blast
  qed
qed

section \<open>With budget enough\<close>

lemma valid_policies_length: "length (valid_policies loaded) \<le> length (cs_compiled loaded)"
  by (simp add: valid_policies_def List.map_filter_def)

lemma valid_policies_size:
  assumes "e \<in> fst ` set (valid_policies (compiled_set H zones ps og))"
  shows "nodes (pd_condition (ev_definition e)) \<le> 64"
proof -
  obtain a where "CValid e a \<in> compile_policy H zones ` set (take MAX_ACTIVE_POLICIES (snd (activeSet ps og)))"
    using assms unfolding valid_policies_set by (auto simp: compiled_set_def case_prod_unfold Let_def)
  then obtain p where "compile_policy H zones p = CValid e a" by (metis imageE)
  then obtain parsed where p: "parse_stored H zones (po_definition p) = Inr parsed" "e = evaluable p parsed"
    by (auto simp: compile_policy_def split: sum.splits if_splits)
  show ?thesis using definition_size[OF p(1)[unfolded parse_stored_def]] by (simp add: p(2) evaluable_def)
qed

lemma enough_steps:
  assumes "MAX_EVALUATION_STEPS \<le> steps"
  shows "sum_list (map (\<lambda>e. nodes (pd_condition (ev_definition e)))
      (sort_by (\<lambda>a b. ev_key a < ev_key b) (map fst (valid_policies (compiled_set H zones ps og))))) \<le> steps"
proof -
  let ?l = "compiled_set H zones ps og" and ?n = "\<lambda>e. nodes (pd_condition (ev_definition e))"
  let ?es = "sort_by (\<lambda>a b. ev_key a < ev_key b) (map fst (valid_policies ?l))"
  have "length (cs_compiled ?l) \<le> MAX_ACTIVE_POLICIES" by (simp add: compiled_set_def case_prod_unfold Let_def)
  then have len: "length ?es \<le> MAX_ACTIVE_POLICIES" using valid_policies_length[of ?l] by simp
  have "sum_list (map ?n ?es) \<le> sum_list (map (\<lambda>e. 64) ?es)"
  proof (rule sum_list_mono)
    fix e assume "e \<in> set ?es"
    then show "?n e \<le> 64" by (intro valid_policies_size[of e H zones ps og]) simp
  qed
  also have "\<dots> \<le> steps" using len assms by (simp add: sum_list_triv MAX_ACTIVE_POLICIES_def MAX_EVALUATION_STEPS_def)
  finally show ?thesis .
qed

lemma says_something:
  assumes "v \<noteq> VAllow"
  shows "(\<exists>c \<in> set cs. v = compiled_says env facts request c) \<longleftrightarrow>
    (\<exists>e a. CValid e a \<in> set cs \<and> v = says (de_zones env) facts request e) \<or>
    (\<exists>p as t. v = VIndeterminate \<and> CBroken p as t \<in> set cs \<and> broken_outcome request (CBroken p as t) \<noteq> None)"
    (is "?l = ?r")
proof
  assume ?l
  then obtain c where c: "c \<in> set cs" "v = compiled_says env facts request c" by blast
  show ?r
  proof (cases c)
    case (CBroken p as t)
    then have "v = VIndeterminate \<and> broken_outcome request (CBroken p as t) \<noteq> None" using c(2) assms by (simp split: if_splits)
    then show ?thesis using c(1) CBroken by blast
  qed (use c in auto)
next
  assume ?r
  then show ?l
  proof (elim disjE exE conjE)
    fix p as t assume "v = VIndeterminate" "CBroken p as t \<in> set cs" "broken_outcome request (CBroken p as t) \<noteq> None"
    then show ?l by (intro bexI[of _ "CBroken p as t"]) simp_all
  qed (metis compiled_says.simps(1))
qed

lemma set_outcomes_exact:
  assumes "\<not> isProtectedPermission (rq_permission request)" "MAX_EVALUATION_STEPS \<le> de_maxSteps env"
  shows "combineVerdicts (map out_result (set_outcomes env request facts (compiled_set H (de_zones env) ps og))) =
      combineVerdicts (map (compiled_says env facts request) (cs_compiled (compiled_set H (de_zones env) ps og)))"
    and "set_outcomes env request facts (compiled_set H (de_zones env) ps og) = [] \<longleftrightarrow>
      \<not> list_ex (compiled_concerns request) (cs_compiled (compiled_set H (de_zones env) ps og))"
proof -
  let ?l = "compiled_set H (de_zones env) ps og"
  let ?es = "sort_by (\<lambda>a b. ev_key a < ev_key b) (map fst (valid_policies ?l))"
  let ?each = "eval_each (de_zones env) request facts ?es (de_maxSteps env)" and ?says = "says (de_zones env) facts request"
  let ?broken = "List.map_filter (broken_outcome request) (cs_compiled ?l)"
  have each: "map out_result ?each = map ?says (filter (\<lambda>p. applicability (ev_definition p) request \<noteq> AppliesNot) ?es)"
    by (rule eval_each_enough[OF enough_steps[OF assms(2)]])
  have es: "set ?es = {e. \<exists>a. CValid e a \<in> set (cs_compiled ?l)}" using valid_policies_set[of ?l] by simp
  have skip: "?says e = VAllow" if "applicability (ev_definition e) request = AppliesNot" for e using that by (simp add: says_def)
  have outs: "out_result ` set ?each = {?says e |e. e \<in> set ?es \<and> applicability (ev_definition e) request \<noteq> AppliesNot}"
    using arg_cong[OF each, of set] by auto
  have broken: "out_result ` set ?broken = {VIndeterminate |p as t. CBroken p as t \<in> set (cs_compiled ?l) \<and> broken_outcome request (CBroken p as t) \<noteq> None}"
    using broken_result broken_not_valid by (fastforce simp: set_map_filter image_iff)
  have "v \<in> set (map out_result (set_outcomes env request facts ?l)) \<union> {VAllow} \<longleftrightarrow>
      v \<in> set (map (compiled_says env facts request) (cs_compiled ?l)) \<union> {VAllow}" for v
  proof (cases "v = VAllow")
    case False
    have "v \<in> set (map out_result (set_outcomes env request facts ?l)) \<longleftrightarrow>
        (\<exists>e \<in> set ?es. v = ?says e) \<or>
        (\<exists>p as t. v = VIndeterminate \<and> CBroken p as t \<in> set (cs_compiled ?l) \<and> broken_outcome request (CBroken p as t) \<noteq> None)"
      unfolding set_map set_outcomes_unprotected[OF assms(1)] image_Un outs broken using skip False by auto
    also have "\<dots> \<longleftrightarrow> (\<exists>c \<in> set (cs_compiled ?l). v = compiled_says env facts request c)"
      unfolding says_something[OF False] es by blast
    finally show ?thesis using False by auto
  qed simp
  then show "combineVerdicts (map out_result (set_outcomes env request facts ?l)) =
      combineVerdicts (map (compiled_says env facts request) (cs_compiled ?l))" by (intro combine_cong) blast
  have "set_outcomes env request facts ?l = [] \<longleftrightarrow> ?each = [] \<and> ?broken = []"
    using set_outcomes_unprotected[OF assms(1), of env facts ?l] by (metis Un_empty set_empty)
  also have "?each = [] \<longleftrightarrow> (\<forall>e \<in> set ?es. applicability (ev_definition e) request = AppliesNot)"
    using arg_cong[OF each, of "\<lambda>xs. xs = []"] by (auto simp: filter_empty_conv)
  also have "?broken = [] \<longleftrightarrow> (\<forall>c \<in> set (cs_compiled ?l). broken_outcome request c = None)"
    using set_map_filter[of "broken_outcome request" "cs_compiled ?l"] by (auto simp flip: set_empty)
  finally have e: "set_outcomes env request facts ?l = [] \<longleftrightarrow>
      (\<forall>e \<in> set ?es. applicability (ev_definition e) request = AppliesNot) \<and> (\<forall>c \<in> set (cs_compiled ?l). broken_outcome request c = None)" .
  have "broken_outcome request (CValid e a) = None" for e a by (simp add: broken_outcome_def)
  then have "compiled_concerns request c \<longleftrightarrow> (\<exists>e a. c = CValid e a \<and> applicability (ev_definition e) request \<noteq> AppliesNot) \<or> broken_outcome request c \<noteq> None" for c
    by (cases c) simp_all
  then have "(\<exists>c \<in> set (cs_compiled ?l). compiled_concerns request c) \<longleftrightarrow>
      (\<exists>e a. CValid e a \<in> set (cs_compiled ?l) \<and> applicability (ev_definition e) request \<noteq> AppliesNot) \<or>
      (\<exists>c \<in> set (cs_compiled ?l). broken_outcome request c \<noteq> None)" by metis
  then show "set_outcomes env request facts ?l = [] \<longleftrightarrow> \<not> list_ex (compiled_concerns request) (cs_compiled ?l)"
    unfolding e es list_ex_iff by simp blast
qed

section \<open>The decision with nothing failing\<close>

text \<open>The active policies of an organization, compiled: what the cache holds for it, without the limits.\<close>

lemma compiled_set_actives:
  assumes "policies_ok H ps"
  shows "\<not> cs_tooLarge (compiled_set H' zones ps og)"
    and "set (cs_compiled (compiled_set H' zones ps og)) = compile_policy H' zones ` set (actives ps og)"
proof -
  have "length (actives ps og) \<le> MAX_ACTIVE_POLICIES" using assms by (simp add: policies_ok_def)
  then show "\<not> cs_tooLarge (compiled_set H' zones ps og)"
    "set (cs_compiled (compiled_set H' zones ps og)) = compile_policy H' zones ` set (actives ps og)"
    by (simp_all add: compiled_set_def activeSet_def Let_def actives_def)
qed

text \<open>The facts of a decision are those the active policies need.\<close>

definition decision_facts ::
  "decider_env \<Rightarrow> can_input \<Rightarrow> membership option \<Rightarrow> resource_read option \<Rightarrow> (string, host_value) jsmap option \<Rightarrow>
   (string, host_value) jsmap option \<Rightarrow> policy_store \<Rightarrow> store \<Rightarrow> evaluation_facts" where
  "decision_facts env q found resource ctx session ps s =
     fst (gather env q (needs_of (compiled_set (de_hash env) (de_zones env) ps (ci_organizationId q)) (request_of q resource))
       found resource ctx session s)"

definition policy_verdicts :: "decider_env \<Rightarrow> evaluation_facts \<Rightarrow> policy_request \<Rightarrow> policy list \<Rightarrow> verdict list" where
  "policy_verdicts env facts request policies = map (\<lambda>p. compiled_says env facts request (compile_policy (de_hash env) (de_zones env) p)) policies"

definition none_concerned :: "decider_env \<Rightarrow> policy_request \<Rightarrow> policy list \<Rightarrow> bool" where
  "none_concerned env request policies \<longleftrightarrow> \<not> list_ex (\<lambda>p. compiled_concerns request (compile_policy (de_hash env) (de_zones env) p)) policies"

lemma decide_steps:
  assumes "\<not> de_fails env FaultBase" "\<not> de_fails env FaultActiveSet"
    and "question input = Some q" "target input = Some resource" "own_resource q resource"
    and "decideCan (de_options env) (de_now env) q s = (base, s1)" "bd_allowed base" "\<not> isProtectedPermission (ci_permission q)"
  shows "fst (authorize env input s ps None) =
    fst (decide_policies env input q resource base (compiled_set (de_hash env) (de_zones env) ps (ci_organizationId q)) s1)"
proof -
  have r: "\<not> (case resource of None \<Rightarrow> False | Some r \<Rightarrow> rr_organizationId r \<noteq> ci_organizationId q)"
    using assms(5) by (simp add: own_resource_def split: option.splits)
  have b: "\<not> \<not> bd_allowed base" using assms(7) by simp
  have l: "loadSet env ps (ci_organizationId q) None = Some (compiled_set (de_hash env) (de_zones env) ps (ci_organizationId q), None)"
    using assms(2) by (simp add: loadSet_def)
  show ?thesis
    unfolding authorize_def decide_def Let_def assms(3,4,6) l prod.case option.case if_not_P[OF r] if_not_P[OF assms(1)] if_not_P[OF b]
      if_not_P[OF assms(8)]
    by (simp add: case_prod_unfold)
qed

lemma decide_policies_exact:
  assumes "policies_ok H ps" "MAX_EVALUATION_STEPS \<le> de_maxSteps env" "\<not> isProtectedPermission (ci_permission q)"
    and "read_context input = Some ctx" "read_session env input = Some session"
  shows "ar_decision (fst (decide_policies env input q resource base (compiled_set (de_hash env) (de_zones env) ps (ci_organizationId q)) s)) =
    (if aq_requireApplicablePolicy input \<and> none_concerned env (request_of q resource) (actives ps (ci_organizationId q)) then VDeny
     else combineVerdicts (policy_verdicts env (decision_facts env q (bd_membership base) resource ctx session ps s)
       (request_of q resource) (actives ps (ci_organizationId q))))"
proof -
  let ?l = "compiled_set (de_hash env) (de_zones env) ps (ci_organizationId q)" and ?rq = "request_of q resource"
  let ?facts = "decision_facts env q (bd_membership base) resource ctx session ps s"
  have p: "\<not> isProtectedPermission (rq_permission ?rq)" using assms(3) by (simp add: request_of_def)
  have "fst (decide_policies env input q resource base ?l s) =
      conclude env input (bd_via base) (cs_revision ?l) (set_outcomes env ?rq ?facts ?l)"
    using compiled_set_actives(1)[OF assms(1)] assms(4,5)
    by (simp add: decide_policies_def decision_facts_def case_prod_unfold Let_def)
  then have d: "ar_decision (fst (decide_policies env input q resource base ?l s)) =
      (if \<not> list_ex (compiled_concerns ?rq) (cs_compiled ?l) \<and> aq_requireApplicablePolicy input then VDeny
       else combineVerdicts (map (compiled_says env ?facts ?rq) (cs_compiled ?l)))"
    by (simp only: conclude_decision set_outcomes_exact[OF p assms(2)])
  have "list_ex (compiled_concerns ?rq) (cs_compiled ?l) \<longleftrightarrow> \<not> none_concerned env ?rq (actives ps (ci_organizationId q))"
    unfolding none_concerned_def list_ex_iff compiled_set_actives(2)[OF assms(1)] by simp
  moreover have "combineVerdicts (map (compiled_says env ?facts ?rq) (cs_compiled ?l)) =
      combineVerdicts (policy_verdicts env ?facts ?rq (actives ps (ci_organizationId q)))"
    by (rule combine_cong) (simp add: policy_verdicts_def compiled_set_actives(2)[OF assms(1)] image_image)
  ultimately show ?thesis
    unfolding d by (simp add: conj_commute)
qed

lemma decide_policies_allowed:
  "ar_allowed (fst (decide_policies env input q resource base loaded s)) \<longleftrightarrow>
     ar_decision (fst (decide_policies env input q resource base loaded s)) = VAllow"
  by (simp add: decide_policies_def case_prod_unfold Let_def conclude_decision split: option.split)

section \<open>Storage that fails\<close>

text \<open>Facts of which some are missing.\<close>

definition fewer_facts :: "evaluation_facts \<Rightarrow> evaluation_facts \<Rightarrow> bool" where
  "fewer_facts f g \<longleftrightarrow>
     (\<forall>k v. mget (ef_subject f) k = Some v \<longrightarrow> mget (ef_subject g) k = Some v) \<and>
     (case (ef_resource f, ef_resource g) of
        (None, None) \<Rightarrow> True
      | (Some r, Some r') \<Rightarrow> rf_id r = rf_id r' \<and> rf_teamIds r = rf_teamIds r' \<and> rf_attributes r = rf_attributes r' \<and>
          (rf_teamPathIds r = None \<or> rf_teamPathIds r = rf_teamPathIds r')
      | _ \<Rightarrow> False) \<and>
     (\<forall>k b. mget (ef_features f) k = Some (Some b) \<longrightarrow> mget (ef_features g) k = Some (Some b)) \<and>
     (\<forall>k b. mget (ef_permissions f) k = Some (Some b) \<longrightarrow> mget (ef_permissions g) k = Some (Some b)) \<and>
     ef_now f = ef_now g \<and> ef_context f = ef_context g \<and> ef_session f = ef_session g"

lemma builtin_resource_more:
  assumes "rf_id r = rf_id r'" "rf_teamIds r = rf_teamIds r'" "rf_teamPathIds r = None \<or> rf_teamPathIds r = rf_teamPathIds r'"
  shows "(\<exists>why. builtin_resource r ref = Unknowable why) \<or> builtin_resource r' ref = builtin_resource r ref"
  using assms by (auto simp: builtin_resource_def)

lemma resolve_more:
  assumes "fewer_facts f g"
  shows "(\<exists>why. resolveRef zones d f ref = Unknowable why) \<or> resolveRef zones d g ref = resolveRef zones d f ref"
proof (cases "mget SUBJECT_ATTRIBUTES ref")
  case (Some ty)
  then show ?thesis using assms by (auto simp: resolveRef_def fewer_facts_def split: option.splits)
next
  case None
  have same: "ef_now f = ef_now g" "ef_context f = ef_context g" "ef_session f = ef_session g" using assms by (simp_all add: fewer_facts_def)
  show ?thesis
  proof (cases "ef_resource f")
    case None
    then have g: "ef_resource g = None" using assms by (auto simp: fewer_facts_def split: option.splits)
    have "resolveRef zones d g ref = resolveRef zones d f ref"
      unfolding resolveRef_def \<open>mget SUBJECT_ATTRIBUTES ref = None\<close> same None g option.case by (rule refl)
    then show ?thesis ..
  next
    case (Some r)
    then obtain r' where r': "ef_resource g = Some r'" using assms by (auto simp: fewer_facts_def split: option.splits)
    have r: "rf_id r = rf_id r'" "rf_teamIds r = rf_teamIds r'" "rf_attributes r = rf_attributes r'"
      "rf_teamPathIds r = None \<or> rf_teamPathIds r = rf_teamPathIds r'"
      using assms Some r' by (simp_all add: fewer_facts_def)
    show ?thesis
      unfolding resolveRef_def \<open>mget SUBJECT_ATTRIBUTES ref = None\<close> same Some r' r(3) option.case
      using builtin_resource_more[OF r(1,2,4), of ref] by (cases "mhas RESOURCE_ATTRIBUTES ref") (simp_all split: option.split)
  qed
qed

lemma operand_more:
  assumes "fewer_facts f g" "operand_value zones d f x = Inl v"
  shows "operand_value zones d g x = Inl v"
proof (cases x)
  case (Ref ref)
  then show ?thesis using assms(2) resolve_more[OF assms(1), of zones d ref] by (auto split: resolved.splits)
qed (use assms(2) in simp)

lemma leaf_more:
  assumes "fewer_facts f g" "leaf (evaluator_of zones f p n) c = Inl b"
  shows "leaf (evaluator_of zones g p n) c = Inl b"
proof (cases c)
  case (Exists ref)
  then show ?thesis using assms(2) resolve_more[OF assms(1), of zones "ev_definition p" ref]
    by (auto simp: evaluator_of_def split: resolved.splits)
next
  case (FeatureOn key)
  have "mget (ef_features g) key = Some (Some b)" if "mget (ef_features f) key = Some (Some b)" for b
    using that assms(1) by (simp add: fewer_facts_def)
  then show ?thesis using assms(2) FeatureOn by (auto simp: evaluator_of_def looked_up_def split: option.splits)
next
  case (PermissionHeld key)
  have "mget (ef_permissions g) key = Some (Some b)" if "mget (ef_permissions f) key = Some (Some b)" for b
    using that assms(1) by (simp add: fewer_facts_def)
  then show ?thesis using assms(2) PermissionHeld by (auto simp: evaluator_of_def looked_up_def split: option.splits)
next
  case (Compare op l r)
  obtain v w where v: "operand_value zones (ev_definition p) f l = Inl v" "operand_value zones (ev_definition p) f r = Inl w"
    "b = compare_values op v w"
    using assms(2) Compare by (auto simp: evaluator_of_def split: sum.splits)
  show ?thesis using operand_more[OF assms(1) v(1)] operand_more[OF assms(1) v(2)] v(3) Compare by (simp add: evaluator_of_def)
qed (use assms(2) in simp_all)

lemma says_more:
  assumes "fewer_facts f g" "says zones f request p = VAllow"
  shows "says zones g request p = VAllow"
proof -
  let ?m = "\<lambda>h. meaning (evaluator_of zones h p 0) (pd_condition (ev_definition p))"
  have "?m f = TUnknown \<or> ?m g = ?m f" by (rule meaning_more_facts) (rule leaf_more[OF assms(1)])
  then show ?thesis using assms(2) by (auto simp: says_def split: applies.splits tri.splits if_splits)
qed

text \<open>What a decision with failing reads gathers is a part of what it gathers when nothing fails.\<close>

definition nothing_fails :: "decider_env \<Rightarrow> decider_env" where
  "nothing_fails env = env \<lparr> de_fails := (\<lambda>_. False), de_maxSteps := MAX_EVALUATION_STEPS \<rparr>"

lemma nothing_fails_simps [simp]:
  "de_hash (nothing_fails env) = de_hash env" "de_zones (nothing_fails env) = de_zones env" "de_options (nothing_fails env) = de_options env"
  "de_now (nothing_fails env) = de_now env" "de_clock (nothing_fails env) = de_clock env" "\<not> de_fails (nothing_fails env) x"
  "de_maxSteps (nothing_fails env) = MAX_EVALUATION_STEPS"
  by (simp_all add: nothing_fails_def)

lemma enumerated_more:
  assumes "\<And>n k b. f n k = Some b \<Longrightarrow> g n k = Some b"
    and "mget (map (\<lambda>(n, k). (k, f n k)) (enumerate i keys)) k = Some (Some b)"
  shows "mget (map (\<lambda>(n, k). (k, g n k)) (enumerate i keys)) k = Some (Some (b :: bool))"
  using assms(2) by (induction keys arbitrary: i) (auto simp: assms(1) split: if_splits)

lemma lookup_features_more:
  "mget (lookup_features env s og keys) k = Some (Some b) \<Longrightarrow> mget (lookup_features (nothing_fails env) s og keys) k = Some (Some b)"
  unfolding lookup_features_def
  by (rule enumerated_more[of "\<lambda>n key. if n \<ge> MAX_FACT_LOOKUPS_PER_DECISION \<or> de_fails env (FaultFeature key) then None else Some (features_isEnabled s og key)"])
    (auto split: if_splits)

definition asked_permission :: "decider_env \<Rightarrow> can_input \<Rightarrow> store \<Rightarrow> nat \<Rightarrow> string \<Rightarrow> bool option" where
  "asked_permission env q s n key =
     (if n \<ge> MAX_FACT_LOOKUPS_PER_DECISION \<or> de_fails env (FaultPermission key) then None
      else Some (bd_allowed (fst (decideCan (de_options env) (de_now env) (q \<lparr> ci_permission := key \<rparr>) s))))"

lemma lookup_permissions_settled:
  assumes "lapseBlocks (de_now env) s = s"
  shows "lookup_permissions env q n keys s = (map (\<lambda>(n, k). (k, asked_permission env q s n k)) (enumerate n keys), s)"
proof -
  have "snd (decideCan (de_options env) (de_now env) q' s) = s" for q' using assms decideCan_store by metis
  then have ask: "(if n \<ge> MAX_FACT_LOOKUPS_PER_DECISION then (None, s) else ask_permission env q k s) = (asked_permission env q s n k, s)" for n k
    by (simp add: ask_permission_def asked_permission_def case_prod_unfold)
  show ?thesis by (induction keys arbitrary: n) (simp_all add: ask)
qed

lemma mget_map_filter:
  "mget (List.map_filter (\<lambda>n. if P n then None else map_option (Pair n) (f n)) ks) k = (if k \<in> set ks \<and> \<not> P k then f k else None)"
  by (induction ks) (auto simp: List.map_filter_simps split: option.split)

lemma gather_more:
  assumes "lapseBlocks (de_now env) s = s"
  shows "fewer_facts (fst (gather env q needs found resource ctx session s)) (fst (gather (nothing_fails env) q needs found resource ctx session s))"
proof -
  let ?og = "ci_organizationId q"
  have sub: "mget (subjectFacts (nothing_fails env) s found keys ?og) k = Some v" if "mget (subjectFacts env s found keys ?og) k = Some v" for keys k v
  proof (cases found)
    case (Some m)
    show ?thesis using that unfolding subjectFacts_def Some option.case mget_map_filter
      by (auto simp: subject_fails_def split: if_splits)
  qed (use that in \<open>simp add: subjectFacts_def\<close>)
  have perm: "mget (fst (lookup_permissions (nothing_fails env) q n keys s)) k = Some (Some b)"
    if "mget (fst (lookup_permissions env q n keys s)) k = Some (Some b)" for n keys k b
  proof -
    have s: "lapseBlocks (de_now (nothing_fails env)) s = s" using assms by simp
    show ?thesis using that unfolding lookup_permissions_settled[OF assms] lookup_permissions_settled[OF s] fst_conv
      by (rule enumerated_more[rotated]) (auto simp: asked_permission_def split: if_splits)
  qed
  have team: "teamPath env s ?og ids = None \<or> teamPath env s ?og ids = teamPath (nothing_fails env) s ?og ids" for ids
    by (auto simp: teamPath_def split: option.split)
  show ?thesis
    using sub perm lookup_features_more[of env s ?og] team
    by (cases resource) (auto simp: fewer_facts_def gather_def case_prod_unfold Let_def resource_facts_of_def)
qed

lemma policies_allow:
  assumes "ar_allowed (fst (decide_policies env input q resource base loaded s))" "\<not> isProtectedPermission (ci_permission q)"
  obtains ctx session facts where "read_context input = Some ctx" "read_session env input = Some session"
    "facts = fst (gather env q (needs_of loaded (request_of q resource)) (bd_membership base) resource ctx session s)"
    "\<forall>c \<in> set (cs_compiled loaded). compiled_says env facts (request_of q resource) c = VAllow"
    "aq_requireApplicablePolicy input \<longrightarrow> (\<exists>c \<in> set (cs_compiled loaded). compiled_concerns (request_of q resource) c)"
proof -
  have t: "\<not> cs_tooLarge loaded" using assms(1) by (auto simp: decide_policies_def split: if_splits)
  obtain ctx session where read: "read_context input = Some ctx" "read_session env input = Some session"
    using assms(1) t by (cases "read_context input"; cases "read_session env input") (auto simp: decide_policies_def)
  let ?rq = "request_of q resource"
  let ?facts = "fst (gather env q (needs_of loaded ?rq) (bd_membership base) resource ctx session s)"
  have p: "\<not> isProtectedPermission (rq_permission ?rq)" using assms(2) by (simp add: request_of_def)
  have "ar_allowed (conclude env input (bd_via base) (cs_revision loaded) (set_outcomes env ?rq ?facts loaded))"
    using assms(1) t read by (simp add: decide_policies_def case_prod_unfold Let_def)
  then have c: "combineVerdicts (map out_result (set_outcomes env ?rq ?facts loaded)) = VAllow"
    "aq_requireApplicablePolicy input \<longrightarrow> set_outcomes env ?rq ?facts loaded \<noteq> []"
    by (auto simp: conclude_decision split: if_splits)
  show thesis using that[OF read refl] set_allows[OF p c(1)] set_concerns[OF p, of env ?facts loaded] c(2) by blast
qed

lemma compiled_says_more:
  "fewer_facts f g \<Longrightarrow> compiled_says env f request c = VAllow \<Longrightarrow> compiled_says (nothing_fails env) g request c = VAllow"
  using says_more by (cases c) simp_all

lemma decide_protected:
  assumes "\<not> de_fails env FaultBase" "question input = Some q" "target input = Some resource" "own_resource q resource"
    and "decideCan (de_options env) (de_now env) q s = (base, s1)" "bd_allowed base" "isProtectedPermission (ci_permission q)"
  shows "ar_allowed (fst (authorize env input s ps cache)) \<longleftrightarrow> \<not> aq_requireApplicablePolicy input"
proof -
  have r: "\<not> (case resource of None \<Rightarrow> False | Some r \<Rightarrow> rr_organizationId r \<noteq> ci_organizationId q)"
    using assms(4) by (simp add: own_resource_def split: option.splits)
  have b: "\<not> \<not> bd_allowed base" using assms(6) by simp
  show ?thesis
    unfolding authorize_def decide_def Let_def assms(2,3,5) prod.case option.case if_not_P[OF r] if_not_P[OF assms(1)] if_not_P[OF b]
      if_P[OF assms(7)]
    by simp
qed

lemma loadSet_compiled:
  assumes "cache_ok (de_hash env) (de_zones env) ps c" "cache = None \<or> cache = Some c" "loadSet env ps og cache = Some (loaded, cache')"
  shows "loaded = compiled_set (de_hash env) (de_zones env) ps og"
  using assms loadSet_cached[OF assms(1)] by (auto simp: loadSet_def Let_def split: if_splits)

lemma failing_reads_fresh:
  assumes "policy_steps (de_hash env) empty_policies ps" and "cache_ok (de_hash env) (de_zones env) ps c" and "cache = None \<or> cache = Some c"
    and "ar_allowed (fst (authorize env input s ps cache))"
  shows "ar_allowed (fst (authorize (nothing_fails env) input s ps None))"
proof -
  obtain q resource base s1 where q: "question input = Some q" "target input = Some resource" "own_resource q resource"
    and base: "decideCan (de_options env) (de_now env) q s = (base, s1)" "bd_allowed base"
    and how: "isProtectedPermission (ci_permission q) \<and> \<not> aq_requireApplicablePolicy input \<or>
     \<not> isProtectedPermission (ci_permission q) \<and>
     (\<exists>loaded cache'. loadSet env ps (ci_organizationId q) cache = Some (loaded, cache') \<and>
        ar_allowed (fst (decide_policies env input q resource base loaded s1)))"
    by (rule decide_allowed[OF assms(4)])
  have base': "decideCan (de_options (nothing_fails env)) (de_now (nothing_fails env)) q s = (base, s1)" using base(1) by simp
  show ?thesis
  proof (cases "isProtectedPermission (ci_permission q)")
    case True
    then show ?thesis using decide_protected[OF _ q base' base(2) True, of ps None] how by simp
  next
    case False
    let ?l = "compiled_set (de_hash env) (de_zones env) ps (ci_organizationId q)" and ?rq = "request_of q resource"
    note ok = steps_ok[OF assms(1) policies_ok_empty]
    have "ar_allowed (fst (decide_policies env input q resource base ?l s1))"
      using how False loadSet_compiled[OF assms(2,3)] by auto
    then obtain ctx session facts where read: "read_context input = Some ctx" "read_session env input = Some session"
      and facts: "facts = fst (gather env q (needs_of ?l ?rq) (bd_membership base) resource ctx session s1)"
      and says: "\<forall>c \<in> set (cs_compiled ?l). compiled_says env facts ?rq c = VAllow"
      and some: "aq_requireApplicablePolicy input \<longrightarrow> (\<exists>c \<in> set (cs_compiled ?l). compiled_concerns ?rq c)"
      using False by (rule policies_allow)
    have s1: "lapseBlocks (de_now env) s1 = s1"
      using decideCan_store[of "de_options env" "de_now env" q s] base
      by (cases "isWellFormedPermissionKey (ci_permission q)") (auto simp: decideCan_def)
    let ?env = "nothing_fails env"
    let ?facts = "decision_facts ?env q (bd_membership base) resource ctx session ps s1"
    have "fewer_facts facts ?facts" unfolding facts decision_facts_def nothing_fails_simps by (rule gather_more[OF s1])
    then have all: "compiled_says ?env ?facts ?rq c = VAllow" if "c \<in> set (cs_compiled ?l)" for c
      using says that compiled_says_more by blast
    have read': "read_session ?env input = Some session" using read(2) unfolding read_session_def nothing_fails_simps .
    have "combineVerdicts (policy_verdicts ?env ?facts ?rq (actives ps (ci_organizationId q))) = VAllow"
      unfolding combine_VAllow policy_verdicts_def using all compiled_set_actives(2)[OF ok] by fastforce
    moreover have "\<not> (aq_requireApplicablePolicy input \<and> none_concerned ?env ?rq (actives ps (ci_organizationId q)))"
      using some unfolding none_concerned_def list_ex_iff compiled_set_actives(2)[OF ok] by simp
    moreover have "MAX_EVALUATION_STEPS \<le> de_maxSteps ?env" "policies_ok (de_hash ?env) ps" using ok by simp_all
    ultimately show ?thesis
      using decide_steps[OF _ _ q base' base(2) False, of ps]
        decide_policies_exact[OF ok, of ?env, OF _ False read(1) read', where resource = resource and base = base and s = s1]
      by (simp add: decide_policies_allowed)
  qed
qed

section \<open>Properties\<close>

text \<open>
  C15: policies only restrict.  Whatever the policies, the cache, the budget and the reads that fail, what authorize allows
  the engine allows without any policy, and a resource in the question is one of that organization.
\<close>

theorem authorize_only_restricts:
  assumes "ar_allowed (fst (authorize env input s ps cache))"
  shows "\<exists>q resource. question input = Some q \<and> target input = Some resource \<and> own_resource q resource \<and>
    fst (fst (engine_can (de_options env) (de_now env) q s))"
  using decide_allowed[OF assms] by (fastforce simp: engine_can_def)

text \<open>
  C16: the cache is never seen.  Whatever was written and asked before, a decision that uses the cache of compiled policies, and whose
  reads of the revision and of the set do not fail, is the decision made without it: a changed policy is in force at once.
\<close>

theorem authorize_cache_transparent:
  assumes "decider_steps (de_hash env) (de_zones env) (empty_policies, []) (ps, cache)"
    and "\<not> de_fails env FaultSetRevision" "\<not> de_fails env FaultActiveSet"
  shows "fst (authorize env input s ps (Some cache)) = fst (authorize env input s ps None)"
  using decide_cached[OF conjunct2[OF decider_run[OF assms(1)]] assms(2,3), of input s]
  by (simp add: authorize_def case_prod_unfold Let_def)

text \<open>
  C14: the decision on a request the engine allows, without a cache, about no resource or one of the organization and with a readable
  context and session, is the precedence rule over all active policies of the organization, each by the three-valued meaning of
  its condition: deny when one denies, otherwise indeterminate when one is undecided or is stored broken,
  otherwise allow, and deny when a policy is required and none is concerned.  The limit on policies, their order, the step budget
  and the early stops do not show.
\<close>

theorem authorize_exact:
  assumes "policy_steps (de_hash env) empty_policies ps" "MAX_EVALUATION_STEPS \<le> de_maxSteps env"
    and "\<not> de_fails env FaultBase" "\<not> de_fails env FaultActiveSet"
    and "question input = Some q" "target input = Some resource" "own_resource q resource"
    and "decideCan (de_options env) (de_now env) q s = (base, s1)" "bd_allowed base" "\<not> isProtectedPermission (ci_permission q)"
    and "read_context input = Some ctx" "read_session env input = Some session"
  shows "ar_decision (fst (authorize env input s ps None)) =
    (if aq_requireApplicablePolicy input \<and> none_concerned env (request_of q resource) (actives ps (ci_organizationId q)) then VDeny
     else combineVerdicts (policy_verdicts env (decision_facts env q (bd_membership base) resource ctx session ps s1)
       (request_of q resource) (actives ps (ci_organizationId q))))"
  unfolding decide_steps[OF assms(3-10)]
  by (rule decide_policies_exact[OF steps_ok[OF assms(1) policies_ok_empty] assms(2,10-12)])

text \<open>
  C17: a storage that fails never turns a no into a yes, with the cache of compiled policies or without.  Whatever was written and asked
  before, what authorize allows while some reads throw (the base reads, the revision of the set, the set itself, features, permissions,
  facts of the member, teams) or with a small step budget, it allows when every read succeeds and the budget is the default one, both
  with that cache and when the policies are read afresh.  In particular a revision that cannot be read never leaves a cached set in force.
\<close>

theorem failing_reads_never_allow:
  assumes "decider_steps (de_hash env) (de_zones env) (empty_policies, []) (ps, c)" and "cache = None \<or> cache = Some c"
    and "ar_allowed (fst (authorize env input s ps cache))"
  shows "ar_allowed (fst (authorize (nothing_fails env) input s ps cache)) \<and> ar_allowed (fst (authorize (nothing_fails env) input s ps None))"
proof -
  note run = decider_run[OF assms(1)]
  have fresh: "ar_allowed (fst (authorize (nothing_fails env) input s ps None))"
    using failing_reads_fresh[OF conjunct1[OF run] conjunct2[OF run] assms(2,3)] .
  have "cache_ok (de_hash (nothing_fails env)) (de_zones (nothing_fails env)) ps c" using run by simp
  then have "fst (authorize (nothing_fails env) input s ps (Some c)) = fst (authorize (nothing_fails env) input s ps None)"
    using decide_cached[of "nothing_fails env" ps c input s] by (simp add: authorize_def case_prod_unfold Let_def)
  then show ?thesis using fresh assms(2) by auto
qed

subsection \<open>The properties at a concrete decision\<close>

text \<open>The clerk may write in the organization of the demonstration policy, which denies somebody else everything.\<close>

definition demo_desk :: store where
  "demo_desk = demo_engine_store \<lparr>
     organizations := [(''o'', demo_org \<lparr> o_id := ''o'' \<rparr>)],
     memberships := [(''m2'', demo_clerk \<lparr> m_organizationId := ''o'' \<rparr>)],
     roles := [(''r2'', demo_writer \<lparr> r_organizationId := ''o'' \<rparr>)] \<rparr>"

definition demo_request :: authorize_input where
  "demo_request = \<lparr> aq_identity = Some (ident ''clerk'' ''2''), aq_organizationId = Some ''o'', aq_permission = Some ''a.read'', aq_teamId = None,
     aq_resource = Some (RObj True False [(''type'', Some (RStr ''t'')), (''id'', Some (RStr ''1'')), (''organizationId'', Some (RStr ''o''))]),
     aq_context = None, aq_session = None, aq_requireApplicablePolicy = True \<rparr>"

definition demo_decider :: decider_env where
  "demo_decider = \<lparr> de_hash = (\<lambda>_. []), de_zones = demo_zones, de_options = demo_options, de_now = 9, de_clock = None,
     de_maxSteps = MAX_EVALUATION_STEPS, de_fails = (\<lambda>x. x = FaultTeamPath) \<rparr>"

definition demo_ask :: can_input where
  "demo_ask = demo_question \<lparr> ci_organizationId := ''o'' \<rparr>"

definition demo_resource :: resource_read where
  "demo_resource = \<lparr> rr_type = ''t'', rr_id = ''1'', rr_organizationId = ''o'', rr_teamIds = None, rr_attributes = [] \<rparr>"

definition demo_member :: membership where
  "demo_member = demo_clerk \<lparr> m_organizationId := ''o'' \<rparr>"

lemma demo_read: "question demo_request = Some demo_ask" "target demo_request = Some (Some demo_resource)"
  "read_context demo_request = Some None" "read_session demo_decider demo_request = Some None" "own_resource demo_ask (Some demo_resource)"
  "\<not> isProtectedPermission (ci_permission demo_ask)"
  by code_simp+

lemma demo_base: "fst (decideCan demo_options 9 demo_ask demo_desk) = by_membership demo_member"
  by code_simp

lemma demo_base_step: "decideCan (de_options demo_decider) (de_now demo_decider) demo_ask demo_desk =
    (by_membership demo_member, snd (decideCan demo_options 9 demo_ask demo_desk))"
  using demo_base by (simp add: demo_decider_def prod_eq_iff)

lemma demo_actives: "actives demo_live ''o'' = [moved PActive (demo_row ''p1'' ''o'')]"
  by (simp add: actives_def demo_live demo_policy_rows)

lemma demo_compiled: "compile_policy (\<lambda>_. []) demo_zones (moved PActive (demo_row ''p1'' ''o'')) =
    CValid (evaluable (moved PActive (demo_row ''p1'' ''o'')) demo_parsed) (pp_analysis demo_parsed)"
  using demo_reparse[of demo_zones] by (simp add: compile_policy_def demo_policy_rows demo_parsed_def)

lemma demo_set: "compiled_set (\<lambda>_. []) demo_zones demo_live ''o'' = \<lparr> cs_revision = 2,
    cs_compiled = [CValid (evaluable (moved PActive (demo_row ''p1'' ''o'')) demo_parsed) (pp_analysis demo_parsed)], cs_tooLarge = False \<rparr>"
  using demo_actives demo_compiled
  by (simp add: compiled_set_def activeSet_def actives_def Let_def setRevision_def demo_live sort_by_def MAX_ACTIVE_POLICIES_def)

lemma demo_decides: "fst (authorize demo_decider demo_request demo_desk demo_live None) =
    fst (decide_policies demo_decider demo_request demo_ask (Some demo_resource) (by_membership demo_member)
      (compiled_set (\<lambda>_. []) demo_zones demo_live ''o'') (snd (decideCan demo_options 9 demo_ask demo_desk)))"
proof -
  have d: "\<not> de_fails demo_decider FaultBase" "\<not> de_fails demo_decider FaultActiveSet" "de_hash demo_decider = (\<lambda>_. [])"
    "de_zones demo_decider = demo_zones" "ci_organizationId demo_ask = ''o''" "bd_allowed (by_membership demo_member)"
    by (simp_all add: demo_decider_def demo_ask_def)
  show ?thesis using decide_steps[OF d(1,2) demo_read(1,2,5) demo_base_step d(6) demo_read(6), of demo_live] d(3-5) by simp
qed

lemma demo_facts: "decision_facts demo_decider demo_ask (Some demo_member) (Some demo_resource) None None demo_live s =
    \<lparr> ef_subject = [(''subject.identity'', HString ''clerk:2'')],
      ef_resource = Some \<lparr> rf_id = ''1'', rf_teamIds = None, rf_teamPathIds = None, rf_attributes = [] \<rparr>, ef_features = [],
      ef_permissions = [], ef_now = None, ef_context = None, ef_session = None \<rparr>"
proof -
  have n: "needs_of (compiled_set (\<lambda>_. []) demo_zones demo_live ''o'') (request_of demo_ask (Some demo_resource)) =
      \<lparr> nd_features = [], nd_permissions = [], nd_subject = [''subject.identity''], nd_resource = False, nd_resourceTeamPath = False,
        nd_environment = False, nd_context = [], nd_session = False \<rparr>"
    unfolding demo_set by code_simp
  have d: "de_hash demo_decider = (\<lambda>_. [])" "de_zones demo_decider = demo_zones" "ci_organizationId demo_ask = ''o''"
    by (simp_all add: demo_decider_def demo_ask_def)
  show ?thesis unfolding decision_facts_def d n
    by (simp add: gather_def subjectFacts_def List.map_filter_simps subject_fails_def subject_value_def demo_member_def demo_clerk_def ident_def
        resource_facts_of_def demo_resource_def lookup_features_def)
qed

lemma demo_verdicts: "policy_verdicts demo_decider (decision_facts demo_decider demo_ask (Some demo_member) (Some demo_resource) None None demo_live s)
    (request_of demo_ask (Some demo_resource)) (actives demo_live ''o'') = [VAllow]"
  unfolding demo_facts demo_actives policy_verdicts_def by (simp add: demo_decider_def demo_compiled, code_simp)

lemma demo_allowed: "ar_allowed (fst (authorize demo_decider demo_request demo_desk demo_live None))"
proof -
  have d: "policies_ok (\<lambda>_. []) demo_live" "MAX_EVALUATION_STEPS \<le> de_maxSteps demo_decider"
    "bd_membership (by_membership demo_member) = Some demo_member" "de_hash demo_decider = (\<lambda>_. [])" "de_zones demo_decider = demo_zones"
    "ci_organizationId demo_ask = ''o''"
    using steps_ok[OF demo_reached(1) policies_ok_empty] by (simp_all add: demo_decider_def by_membership_def demo_ask_def)
  have "\<not> none_concerned demo_decider (request_of demo_ask (Some demo_resource)) (actives demo_live ''o'')"
    unfolding none_concerned_def d(4,5) demo_actives by (simp add: demo_compiled, code_simp)
  then show ?thesis
    unfolding demo_decides decide_policies_allowed
    using decide_policies_exact[OF d(1,2) demo_read(6,3,4), of "Some demo_resource" "by_membership demo_member", unfolded d(3-6) demo_verdicts]
    by (simp add: combine_VAllow)
qed

theorem authorize_only_restricts_witness:
  "fst (fst (engine_can (de_options demo_decider) (de_now demo_decider) demo_ask demo_desk)) \<and> question demo_request = Some demo_ask"
  using authorize_only_restricts[OF demo_allowed] demo_read(1) by auto

theorem authorize_exact_witness:
  "ar_decision (fst (authorize demo_decider demo_request demo_desk demo_live None)) = VAllow \<and>
   policy_verdicts demo_decider (decision_facts demo_decider demo_ask (Some demo_member) (Some demo_resource) None None demo_live
     (snd (decideCan demo_options 9 demo_ask demo_desk))) (request_of demo_ask (Some demo_resource)) (actives demo_live ''o'') = [VAllow]"
proof -
  have d: "\<not> de_fails demo_decider FaultBase" "\<not> de_fails demo_decider FaultActiveSet" "policy_steps (de_hash demo_decider) empty_policies demo_live"
    "MAX_EVALUATION_STEPS \<le> de_maxSteps demo_decider" "ci_organizationId demo_ask = ''o''" "bd_allowed (by_membership demo_member)"
    "bd_membership (by_membership demo_member) = Some demo_member"
    using demo_reached(1) by (simp_all add: demo_decider_def demo_ask_def by_membership_def)
  show ?thesis
    using authorize_exact[OF d(3,4,1,2) demo_read(1,2,5) demo_base_step d(6) demo_read(6,3,4)] demo_allowed
    by (auto simp: d(5,7) demo_verdicts combine_VAllow demo_decides decide_policies_allowed split: if_splits)
qed

text \<open>A process that asked once: its cache holds the organization's policies.\<close>

definition demo_cache :: policy_cache where
  "demo_cache = [(''o'', compiled_set (\<lambda>_. []) demo_zones demo_live ''o'')]"

lemma demo_cached: "snd (snd (authorize demo_decider demo_request demo_desk demo_live (Some []))) = Some demo_cache"
proof -
  have l: "loadSet demo_decider demo_live ''o'' (Some []) = Some (compiled_set (\<lambda>_. []) demo_zones demo_live ''o'', Some demo_cache)"
    by (simp add: loadSet_def demo_decider_def cache_put_def demo_cache_def MAX_CACHED_ORGANIZATIONS_def Let_def)
  have d: "\<not> de_fails demo_decider FaultBase" "ci_organizationId demo_ask = ''o''" "\<not> \<not> bd_allowed (by_membership demo_member)"
    "\<not> (case Some demo_resource of None \<Rightarrow> False | Some r \<Rightarrow> rr_organizationId r \<noteq> ci_organizationId demo_ask)"
    by (simp_all add: demo_decider_def demo_ask_def demo_resource_def)
  show ?thesis
    unfolding authorize_def decide_def Let_def demo_read(1,2) demo_base_step prod.case option.case if_not_P[OF d(4)[unfolded option.case]] if_not_P[OF d(1)]
      if_not_P[OF d(3)] if_not_P[OF demo_read(6)] d(2) l
    by (simp add: case_prod_unfold demo_resource_def)
qed

lemma demo_cache_reached:
  "decider_steps (de_hash demo_decider) (de_zones demo_decider) (empty_policies, []) (demo_live, demo_cache)"
proof -
  have e: "de_hash demo_decider = (\<lambda>_. [])" "de_zones demo_decider = demo_zones" by (simp_all add: demo_decider_def)
  have "decider_steps H zones (ps, c) (ps', c)" if "policy_steps H ps ps'" for H zones ps ps' c
    using that by (induction rule: rtranclp_induct) (auto intro: rtranclp.rtrancl_into_rtrancl wrote)
  then have "decider_steps (\<lambda>_. []) demo_zones (empty_policies, []) (demo_live, [])" using demo_reached(1) .
  moreover have "decider_step (\<lambda>_. []) demo_zones (demo_live, []) (demo_live, demo_cache)"
    using asked[OF e] demo_cached by (metis prod.collapse)
  ultimately show ?thesis unfolding e by (rule rtranclp.rtrancl_into_rtrancl)
qed

theorem authorize_cache_transparent_witness:
  "fst (authorize demo_decider demo_request demo_desk demo_live (Some demo_cache)) = fst (authorize demo_decider demo_request demo_desk demo_live None)"
  by (rule authorize_cache_transparent[OF demo_cache_reached]) (simp_all add: demo_decider_def)

text \<open>The same question in a process that already holds the policies; the path of a team cannot be read there.\<close>

lemma demo_allowed_cached: "ar_allowed (fst (authorize demo_decider demo_request demo_desk demo_live (Some demo_cache)))"
proof -
  have "cache_ok (de_hash demo_decider) (de_zones demo_decider) demo_live demo_cache" using decider_run[OF demo_cache_reached] by simp
  then show ?thesis
    using demo_allowed decide_cached[of demo_decider demo_live demo_cache demo_request demo_desk]
    by (simp add: authorize_def case_prod_unfold Let_def demo_decider_def)
qed

theorem failing_reads_never_allow_witness:
  "ar_allowed (fst (authorize (nothing_fails demo_decider) demo_request demo_desk demo_live (Some demo_cache)))"
  using failing_reads_never_allow[OF demo_cache_reached, of "Some demo_cache" demo_request demo_desk] demo_allowed_cached by simp

end
