(* ===== verification/AccessGuard.thy ===== *)
theory AccessGuard
  imports Memberships Invitations
begin

text \<open>
  The proof that a change of power was authorized, and the storage that demands it:
  \<open>packages/core/src/access/authorization.ts\<close> and \<open>access/guard.ts\<close>.

  The registry, a \<open>WeakMap\<close> from opaque objects, is a list: a token is its position, and a value that is no token of the
  registry is any other number, or none.  The lemmas show that whoever calls the guarded storage, a write happens at most
  as often as tokens for exactly that write were issued.
\<close>

section \<open>Tokens\<close>

datatype access_operation = OpMemberCreate | OpMemberRoleAssign | OpMemberRoleUnassign | OpMemberOwner | OpMemberStatus | OpMemberDelete
  | OpRoleCreate | OpRoleEdit | OpRolePermissions | OpRoleDelete | OpInvitationCreate | OpInvitationManage

record access_binding =
  ab_operation :: access_operation
  ab_target :: string
  ab_detail :: "string option"
  ab_organizationId :: "string option"

record access_token =
  ax_actor :: identity
  ax_operation :: access_operation
  ax_organizationId :: "string option"
  ax_target :: string
  ax_detail :: "string option"
  ax_expiresAt :: timestamp
  ax_trusted :: bool
  ax_used :: bool

type_synonym access_tokens = "access_token list"

definition ACCESS_TTL_MS :: int where
  "ACCESS_TTL_MS = 60000"

definition accessErr :: "string \<Rightarrow> uerror" where
  "accessErr c = UError EAccess c"

definition accessSet :: "string list option \<Rightarrow> string" where
  "accessSet values = stringify (JArr (map JStr (sort (uniq (case values of None \<Rightarrow> [] | Some vs \<Rightarrow> vs)))))"

definition issueAccessAuthorization :: "identity \<Rightarrow> access_binding \<Rightarrow> bool \<Rightarrow> timestamp \<Rightarrow> access_tokens \<Rightarrow> nat \<times> access_tokens" where
  "issueAccessAuthorization actor binding trusted now issued =
     (length issued, issued @
       [\<lparr> ax_actor = actor, ax_operation = ab_operation binding, ax_organizationId = ab_organizationId binding,
          ax_target = ab_target binding, ax_detail = ab_detail binding, ax_expiresAt = now + ACCESS_TTL_MS,
          ax_trusted = trusted, ax_used = False \<rparr>])"

definition text_or_empty :: "string option \<Rightarrow> string" where
  "text_or_empty v = (case v of None \<Rightarrow> [] | Some t \<Rightarrow> t)"

text \<open>\<open>expected.actor\<close> is the actor the call names, if it names one.\<close>

definition assertAccessAuthorization ::
  "access_tokens \<Rightarrow> timestamp \<Rightarrow> nat option \<Rightarrow> access_binding \<Rightarrow> identity option \<Rightarrow> uerror + access_tokens" where
  "assertAccessAuthorization issued now authorization expected actor =
     (let refuse = Inl (accessErr ''access_authorization_required'') in
      case authorization of
        None \<Rightarrow> refuse
      | Some n \<Rightarrow>
          if length issued \<le> n then refuse
          else
            let token = issued ! n in
            if ax_used token then refuse
            else if ax_expiresAt token < now then refuse
            else if ax_operation token \<noteq> ab_operation expected then refuse
            else if ax_target token \<noteq> ab_target expected then refuse
            else if text_or_empty (ax_detail token) \<noteq> text_or_empty (ab_detail expected) then refuse
            else if ab_organizationId expected \<noteq> None \<and> ax_organizationId token \<noteq> None \<and>
              ax_organizationId token \<noteq> ab_organizationId expected then refuse
            else if \<not> ax_trusted token \<and> (case actor of None \<Rightarrow> False | Some a \<Rightarrow> provider a \<noteq> provider (ax_actor token) \<or>
              subject a \<noteq> subject (ax_actor token)) then refuse
            else Inr (issued[n := token \<lparr> ax_used := True \<rparr>]))"

section \<open>The guarded writes\<close>

text \<open>The calls of the table \<open>GUARDED\<close>, with the arguments their repository takes.\<close>

datatype guarded_write =
    WMemberCreate create_membership
  | WAssignRole string string "int option"
  | WUnassignRole string string "int option"
  | WAssignOwnerRole string string
  | WUnassignOwnerRole string string
  | WBlock string block_input
  | WSuspend string block_input "date_in option"
  | WUnblock string identity "int option"
  | WMemberDelete string
  | WRoleCreate create_role
  | WRoleClone string clone_role
  | WRoleRename string string
  | WRoleUpdate string update_role
  | WGrantPermission string string
  | WRevokePermission string string
  | WSetPermissions string "string list" "int option"
  | WRoleDelete string members_policy
  | WInvitationCreate create_invitation
  | WRotateToken string string timestamp
  | WInvitationRevoke string timestamp

fun deleteMode :: "members_policy \<Rightarrow> string" where
  "deleteMode Detach = ''detach''"
| "deleteMode Reject = ''reject''"
| "deleteMode (ReassignTo heir) = ''reassign:'' @ heir"

definition bound :: "access_operation \<Rightarrow> string \<Rightarrow> string \<Rightarrow> access_binding" where
  "bound operation target detail =
     \<lparr> ab_operation = operation, ab_target = target, ab_detail = Some detail, ab_organizationId = None \<rparr>"

definition bound_in :: "access_operation \<Rightarrow> string \<Rightarrow> string \<Rightarrow> string \<Rightarrow> access_binding" where
  "bound_in operation target detail organizationId =
     \<lparr> ab_operation = operation, ab_target = target, ab_detail = Some detail, ab_organizationId = Some organizationId \<rparr>"

text \<open>A member without roles holds no power: its creation needs no token.\<close>

fun binding_of :: "guarded_write \<Rightarrow> access_binding option" where
  "binding_of (WMemberCreate i) =
     (if cm_roleIds i = [] then None
      else Some (bound_in OpMemberCreate (cm_id i) (accessSet (Some (cm_roleIds i))) (cm_organizationId i)))"
| "binding_of (WAssignRole m r v) = Some (bound OpMemberRoleAssign m r)"
| "binding_of (WUnassignRole m r v) = Some (bound OpMemberRoleUnassign m r)"
| "binding_of (WAssignOwnerRole m r) = Some (bound OpMemberOwner m (''assign:'' @ r))"
| "binding_of (WUnassignOwnerRole m r) = Some (bound OpMemberOwner m (''unassign:'' @ r))"
| "binding_of (WBlock m i) = Some (bound OpMemberStatus m ''block'')"
| "binding_of (WSuspend m i u) = Some (bound OpMemberStatus m ''suspend'')"
| "binding_of (WUnblock m a v) = Some (bound OpMemberStatus m ''unblock'')"
| "binding_of (WMemberDelete m) =
     Some \<lparr> ab_operation = OpMemberDelete, ab_target = m, ab_detail = None, ab_organizationId = None \<rparr>"
| "binding_of (WRoleCreate i) = Some (bound_in OpRoleCreate (cr_id i) (accessSet (cr_permissionKeys i)) (cr_organizationId i))"
| "binding_of (WRoleClone r i) =
     Some ((bound OpRoleCreate (cl_id i) (''clone:'' @ r)) \<lparr> ab_organizationId := cl_organizationId i \<rparr>)"
| "binding_of (WRoleRename r n) = Some (bound OpRoleEdit r ''rename'')"
| "binding_of (WRoleUpdate r i) = Some (bound OpRoleEdit r ''update'')"
| "binding_of (WGrantPermission r k) = Some (bound OpRolePermissions r (''grant:'' @ k))"
| "binding_of (WRevokePermission r k) = Some (bound OpRolePermissions r (''revoke:'' @ k))"
| "binding_of (WSetPermissions r ks v) = Some (bound OpRolePermissions r (''set:'' @ accessSet (Some ks)))"
| "binding_of (WRoleDelete r p) = Some (bound OpRoleDelete r (deleteMode p))"
| "binding_of (WInvitationCreate i) =
     Some (bound_in OpInvitationCreate (ci_id i) (accessSet (Some (ci_roleIds i))) (ci_organizationId i))"
| "binding_of (WRotateToken i h e) = Some (bound OpInvitationManage i ''rotate'')"
| "binding_of (WInvitationRevoke i t) = Some (bound OpInvitationManage i ''revoke'')"

fun named_actor :: "guarded_write \<Rightarrow> identity option" where
  "named_actor (WBlock m i) = Some (bi_actor i)"
| "named_actor (WSuspend m i u) = Some (bi_actor i)"
| "named_actor (WUnblock m a v) = Some a"
| "named_actor _ = None"

text \<open>The result of a write, when it is not thrown, is not looked at here.\<close>

definition quiet :: "'a op \<Rightarrow> unit op" where
  "quiet p = and_then p (\<lambda>_. returns ())"

definition always :: "(store \<Rightarrow> 'a \<times> store) \<Rightarrow> unit op" where
  "always p s = (Inr (), snd (p s))"

fun run_write :: "timestamp \<Rightarrow> guarded_write \<Rightarrow> unit op" where
  "run_write now (WMemberCreate i) = quiet (mem_create now i)"
| "run_write now (WAssignRole m r v) = mem_assignRole now m r v"
| "run_write now (WUnassignRole m r v) = mem_unassignRole now m r v"
| "run_write now (WAssignOwnerRole m r) = mem_assignOwnerRole now m r"
| "run_write now (WUnassignOwnerRole m r) = mem_unassignOwnerRole now m r"
| "run_write now (WBlock m i) = quiet (mem_block now m i)"
| "run_write now (WSuspend m i u) = quiet (mem_suspend now m i u)"
| "run_write now (WUnblock m a v) = quiet (mem_unblock now m v)"
| "run_write now (WMemberDelete m) = mem_delete now m"
| "run_write now (WRoleCreate i) = quiet (role_create i)"
| "run_write now (WRoleClone r i) = quiet (role_clone r i)"
| "run_write now (WRoleRename r n) = quiet (role_rename r n)"
| "run_write now (WRoleUpdate r i) = quiet (role_update r i)"
| "run_write now (WGrantPermission r k) = role_grantPermission r k"
| "run_write now (WRevokePermission r k) = role_revokePermission r k"
| "run_write now (WSetPermissions r ks v) = quiet (role_setPermissions r ks v)"
| "run_write now (WRoleDelete r p) = role_delete r p"
| "run_write now (WInvitationCreate i) = quiet (inv_create i)"
| "run_write now (WRotateToken i h e) = always (inv_rotateToken i h e)"
| "run_write now (WInvitationRevoke i t) = always (inv_revoke i t)"

text \<open>The verdict of the guard, and the registry after it looked at the token.\<close>

definition guard_verdict :: "timestamp \<Rightarrow> nat option \<Rightarrow> guarded_write \<Rightarrow> access_tokens \<Rightarrow> (uerror + unit) \<times> access_tokens" where
  "guard_verdict now authorization w issued =
     (case binding_of w of
        None \<Rightarrow> (Inr (), issued)
      | Some b \<Rightarrow>
          (case assertAccessAuthorization issued now authorization b (named_actor w) of
             Inl e \<Rightarrow> (Inl e, issued)
           | Inr issued' \<Rightarrow> (Inr (), issued')))"

record access_state =
  as_store :: store
  as_tokens :: access_tokens

type_synonym 'a access_op = "access_state \<Rightarrow> (uerror + 'a) \<times> access_state"

definition guarded_call :: "timestamp \<Rightarrow> nat option \<Rightarrow> guarded_write \<Rightarrow> unit access_op" where
  "guarded_call now authorization w st =
     (case guard_verdict now authorization w (as_tokens st) of
        (Inl e, issued) \<Rightarrow> (Inl e, st \<lparr> as_tokens := issued \<rparr>)
      | (Inr _, issued) \<Rightarrow>
          (let (r, s) = run_write now w (as_store st) in (r, st \<lparr> as_store := s, as_tokens := issued \<rparr>)))"

text \<open>\<open>createTrustedAccessStorage\<close>: each guarded call is stamped with a token of its own.\<close>

definition trusted_call :: "timestamp \<Rightarrow> identity \<Rightarrow> guarded_write \<Rightarrow> unit access_op" where
  "trusted_call now actor w st =
     (case binding_of w of
        None \<Rightarrow> guarded_call now None w st
      | Some b \<Rightarrow>
          (let (n, issued) = issueAccessAuthorization actor b True now (as_tokens st)
           in guarded_call now (Some n) w (st \<lparr> as_tokens := issued \<rparr>)))"

definition createTrustedAccessStorage :: "string \<Rightarrow> uerror + unit" where
  "createTrustedAccessStorage reason = (if trim reason = [] then Inl (accessErr ''access_invalid'') else Inr ())"

section \<open>Runs of the guarded storage\<close>

text \<open>
  Tokens are issued and writes attempted, in any order, with any value in place of the token.  The log holds the writes
  that reached the backend, each with the token it took, if it needed one.
\<close>

datatype guard_event = GIssue identity access_binding bool timestamp | GWrite timestamp "nat option" guarded_write

type_synonym write_log = "(nat option \<times> timestamp \<times> guarded_write) list"

fun guard_step :: "guard_event \<Rightarrow> access_state \<times> write_log \<Rightarrow> access_state \<times> write_log" where
  "guard_step (GIssue actor b trusted now) (st, done) =
     (st \<lparr> as_tokens := snd (issueAccessAuthorization actor b trusted now (as_tokens st)) \<rparr>, done)"
| "guard_step (GWrite now authorization w) (st, done) =
     (snd (guarded_call now authorization w st),
      if is_ok (fst (guard_verdict now authorization w (as_tokens st)))
      then done @ [(if binding_of w = None then None else authorization, now, w)] else done)"

definition guard_run :: "guard_event list \<Rightarrow> store \<Rightarrow> access_state \<times> write_log" where
  "guard_run evs s = fold guard_step evs (\<lparr> as_store = s, as_tokens = [] \<rparr>, [])"

fun issue_of :: "guard_event \<Rightarrow> (access_binding \<times> timestamp) list" where
  "issue_of (GIssue actor b trusted now) = [(b, now)]"
| "issue_of (GWrite now authorization w) = []"

definition issues :: "guard_event list \<Rightarrow> (access_binding \<times> timestamp) list" where
  "issues evs = concat (map issue_of evs)"

text \<open>The token names this very write: operation, target, detail and, where both say it, organization.\<close>

definition authorizes :: "access_binding \<Rightarrow> guarded_write \<Rightarrow> bool" where
  "authorizes b w \<longleftrightarrow> (case binding_of w of None \<Rightarrow> True
     | Some e \<Rightarrow> ab_operation b = ab_operation e \<and> ab_target b = ab_target e \<and> text_or_empty (ab_detail b) = text_or_empty (ab_detail e) \<and>
         (ab_organizationId e = None \<or> ab_organizationId b = None \<or> ab_organizationId b = ab_organizationId e))"

definition replay :: "write_log \<Rightarrow> store \<Rightarrow> store" where
  "replay done s = fold (\<lambda>(n, now, w) s. snd (run_write now w s)) done s"

definition taken :: "write_log \<Rightarrow> nat list" where
  "taken done = List.map_filter fst done"

definition paid :: "(access_binding \<times> timestamp) list \<Rightarrow> nat option \<times> timestamp \<times> guarded_write \<Rightarrow> bool" where
  "paid bs entry \<longleftrightarrow> (case entry of (None, now, w) \<Rightarrow> binding_of w = None
     | (Some n, now, w) \<Rightarrow> n < length bs \<and> authorizes (fst (bs ! n)) w \<and> now \<le> snd (bs ! n) + ACCESS_TTL_MS)"

text \<open>The registry knows the tokens that were issued, and which were taken.\<close>

definition registry_of :: "(access_binding \<times> timestamp) list \<Rightarrow> nat list \<Rightarrow> access_tokens \<Rightarrow> bool" where
  "registry_of bs used issued \<longleftrightarrow> length issued = length bs \<and>
     (\<forall>n < length bs. ax_operation (issued ! n) = ab_operation (fst (bs ! n)) \<and> ax_target (issued ! n) = ab_target (fst (bs ! n)) \<and>
        ax_detail (issued ! n) = ab_detail (fst (bs ! n)) \<and> ax_organizationId (issued ! n) = ab_organizationId (fst (bs ! n)) \<and>
        ax_expiresAt (issued ! n) = snd (bs ! n) + ACCESS_TTL_MS \<and> (n \<in> set used \<longrightarrow> ax_used (issued ! n)))"

lemma assert_Inr:
  assumes "assertAccessAuthorization issued now authorization e actor = Inr issued'"
  obtains n where "authorization = Some n" "n < length issued" "\<not> ax_used (issued ! n)" "now \<le> ax_expiresAt (issued ! n)"
    "ax_operation (issued ! n) = ab_operation e" "ax_target (issued ! n) = ab_target e"
    "text_or_empty (ax_detail (issued ! n)) = text_or_empty (ab_detail e)"
    "ab_organizationId e = None \<or> ax_organizationId (issued ! n) = None \<or> ax_organizationId (issued ! n) = ab_organizationId e"
    "issued' = issued[n := (issued ! n) \<lparr> ax_used := True \<rparr>]"
  using assms by (cases authorization) (auto simp: assertAccessAuthorization_def Let_def split: if_splits)

lemma registry_take:
  assumes r: "registry_of bs used issued" and a: "assertAccessAuthorization issued now authorization e actor = Inr issued'"
    and b: "binding_of w = Some e"
  obtains n where "authorization = Some n" "n \<notin> set used" "registry_of bs (used @ [n]) issued'" "paid bs (Some n, now, w)"
proof (rule assert_Inr[OF a])
  fix n
  assume n: "authorization = Some n" "n < length issued" "\<not> ax_used (issued ! n)" "now \<le> ax_expiresAt (issued ! n)"
    "ax_operation (issued ! n) = ab_operation e" "ax_target (issued ! n) = ab_target e"
    "text_or_empty (ax_detail (issued ! n)) = text_or_empty (ab_detail e)"
    "ab_organizationId e = None \<or> ax_organizationId (issued ! n) = None \<or> ax_organizationId (issued ! n) = ab_organizationId e"
    "issued' = issued[n := (issued ! n) \<lparr> ax_used := True \<rparr>]"
  have len: "length issued = length bs" using r by (simp add: registry_of_def)
  have at: "ax_operation (issued ! n) = ab_operation (fst (bs ! n))" "ax_target (issued ! n) = ab_target (fst (bs ! n))"
    "ax_detail (issued ! n) = ab_detail (fst (bs ! n))" "ax_organizationId (issued ! n) = ab_organizationId (fst (bs ! n))"
    "ax_expiresAt (issued ! n) = snd (bs ! n) + ACCESS_TTL_MS" "n \<in> set used \<longrightarrow> ax_used (issued ! n)"
    using r n(2) by (simp_all add: registry_of_def)
  show thesis
  proof (rule that[OF n(1)])
    show "n \<notin> set used" using at(6) n(3) by simp
    show "registry_of bs (used @ [n]) issued'" using r n(2) unfolding n(9) by (auto simp: registry_of_def nth_list_update)
    show "paid bs (Some n, now, w)" using n at len b by (simp add: paid_def authorizes_def)
  qed
qed

lemma registry_more: "registry_of bs used issued \<Longrightarrow> set used \<subseteq> {..<length bs} \<Longrightarrow>
    registry_of (bs @ [(b, now)]) used (snd (issueAccessAuthorization actor b trusted now issued))"
  by (auto simp: registry_of_def issueAccessAuthorization_def nth_append less_Suc_eq)

lemma paid_more: "paid bs entry \<Longrightarrow> paid (bs @ cs) entry"
  by (auto simp: paid_def nth_append split: option.splits prod.splits)

lemma taken_snoc [simp]: "taken (done @ [(None, now, w)]) = taken done" "taken (done @ [(Some n, now, w)]) = taken done @ [n]"
  by (simp_all add: taken_def List.map_filter_def)

lemma guard_run_inv:
  "guard_run evs s = (st, done) \<Longrightarrow>
     as_store st = replay done s \<and> distinct (taken done) \<and> set (taken done) \<subseteq> {..<length (issues evs)} \<and>
     list_all (paid (issues evs)) done \<and> registry_of (issues evs) (taken done) (as_tokens st)"
proof (induction evs arbitrary: st "done" rule: rev_induct)
  case Nil
  then show ?case by (auto simp: guard_run_def replay_def taken_def issues_def registry_of_def List.map_filter_def)
next
  case (snoc e evs)
  obtain st0 done0 where r: "guard_run evs s = (st0, done0)" by fastforce
  note IH = snoc.IH[OF r]
  have step: "guard_step e (st0, done0) = (st, done)" using snoc.prems r by (simp add: guard_run_def)
  show ?case
  proof (cases e)
    case (GIssue actor b trusted now)
    then have i: "issues (evs @ [e]) = issues evs @ [(b, now)]" by (simp add: issues_def)
    have "done = done0" "as_store st = as_store st0"
      "as_tokens st = snd (issueAccessAuthorization actor b trusted now (as_tokens st0))"
      using step GIssue by auto
    then show ?thesis using IH registry_more[of "issues evs" "taken done0" "as_tokens st0"] unfolding i
      by (auto simp: list_all_iff intro: paid_more)
  next
    case (GWrite now authorization w)
    then have i: "issues (evs @ [e]) = issues evs" by (simp add: issues_def)
    show ?thesis
    proof (cases "binding_of w")
      case None
      then have "done = done0 @ [(None, now, w)]" "as_store st = snd (run_write now w (as_store st0))" "as_tokens st = as_tokens st0"
        using step GWrite by (auto simp: guarded_call_def guard_verdict_def case_prod_unfold Let_def)
      then show ?thesis using IH None unfolding i by (simp add: replay_def paid_def)
    next
      case (Some b)
      show ?thesis
      proof (cases "assertAccessAuthorization (as_tokens st0) now authorization b (named_actor w)")
        case (Inl err)
        then have "done = done0" "as_store st = as_store st0" "as_tokens st = as_tokens st0"
          using step GWrite Some by (auto simp: guarded_call_def guard_verdict_def)
        then show ?thesis using IH unfolding i by simp
      next
        case (Inr issued')
        then have d: "done = done0 @ [(authorization, now, w)]" "as_store st = snd (run_write now w (as_store st0))" "as_tokens st = issued'"
          using step GWrite Some by (auto simp: guarded_call_def guard_verdict_def case_prod_unfold Let_def)
        obtain n where n: "authorization = Some n" "n \<notin> set (taken done0)" "registry_of (issues evs) (taken done0 @ [n]) issued'"
          "paid (issues evs) (Some n, now, w)"
          using registry_take[OF _ Inr Some] IH by blast
        have "taken done = taken done0 @ [n]" by (simp add: d(1) n(1))
        moreover have "n < length (issues evs)" using n(4) by (simp add: paid_def)
        ultimately show ?thesis using IH n d unfolding i by (simp add: replay_def)
      qed
    qed
  qed
qed

text \<open>
  C9: a guarded storage hands out no power on its own authority.  Whatever is tried on it, in any order and with any value in
  place of a token, its rows are what the logged writes made of them; each logged write that decides who holds which power
  took a token issued for exactly that write at most 60 seconds before; and no token was taken twice.
\<close>

theorem guarded_writes_authorized:
  assumes "guard_run evs s = (st, done)"
  shows "as_store st = replay done s \<and> distinct (taken done) \<and> list_all (paid (issues evs)) done"
  using guard_run_inv[OF assms] by simp

text \<open>The trusted wrapper passes the guard, always.\<close>

lemma trusted_passes: "fst (trusted_call now actor w st) = fst (run_write now w (as_store st)) \<and>
    as_store (snd (trusted_call now actor w st)) = snd (run_write now w (as_store st))"
proof (cases "binding_of w")
  case None
  then show ?thesis by (simp add: trusted_call_def guarded_call_def guard_verdict_def case_prod_unfold Let_def)
next
  case (Some b)
  have "\<exists>issued. assertAccessAuthorization (snd (issueAccessAuthorization actor b True now (as_tokens st))) now
      (Some (length (as_tokens st))) b (named_actor w) = Inr issued"
    by (simp add: assertAccessAuthorization_def issueAccessAuthorization_def Let_def nth_append ACCESS_TTL_MS_def)
  then show ?thesis using Some
    by (auto simp: trusted_call_def guarded_call_def guard_verdict_def issueAccessAuthorization_def case_prod_unfold Let_def)
qed

definition demo_role_of :: "string \<Rightarrow> create_role" where
  "demo_role_of i = \<lparr> cr_id = i, cr_organizationId = ''o1'', cr_name = ''Desk'', cr_key = Some ''desk'',
     cr_permissionKeys = Some [''a.b''], cr_description = None, cr_isSystem = False \<rparr>"

definition demo_binding :: access_binding where
  "demo_binding = bound_in OpRoleCreate ''r'' (accessSet (Some [''a.b''])) ''o1''"

text \<open>One token, tried for a role it is not for, then used, then tried again.\<close>

definition demo_events :: "guard_event list" where
  "demo_events = [GIssue (ident ''clerk'' ''1'') demo_binding False 0, GWrite 5 (Some 0) (WRoleCreate (demo_role_of ''q'')),
     GWrite 5 (Some 0) (WRoleCreate (demo_role_of ''r'')), GWrite 6 (Some 0) (WRoleDelete ''r'' Detach),
     GWrite 6 None (WRoleCreate (demo_role_of ''t''))]"

lemma demo_guard_log: "map fst (snd (guard_run demo_events empty_store)) = [Some 0]"
  by code_simp

theorem guarded_writes_authorized_witness:
  "list_all (paid (issues demo_events)) (snd (guard_run demo_events empty_store)) \<and> map fst (snd (guard_run demo_events empty_store)) = [Some (0::nat)]"
  using guarded_writes_authorized[of demo_events empty_store "fst (guard_run demo_events empty_store)" "snd (guard_run demo_events empty_store)"]
    demo_guard_log by simp

end
