(* ===== verification/Audited.thy ===== *)
theory Audited
  imports Organizations Permissions Entitlements SupportGrants TeamMembers Memberships Features Outbox PolicyStore
begin

text \<open>
  The audited view of a storage: \<open>packages/core/src/storage/audited.ts\<close>.  Every write also leaves an entry in the audit
  log (and, when asked, an outbox event) in the same transaction; a call that changes nothing leaves none.

  The random ids of the entry and the event, the clock, the digest of the chain and the acting person are the argument
  \<open>env\<close> of one call.  The in-memory transaction runs the callback and undoes nothing.

  The lemmas show that the view changes nothing but the audit log and the outbox: forgetting those two, each audited operation is the
  operation itself.  \<open>AuditTrail\<close> shows that every change leaves an entry.
\<close>

section \<open>Recording a change\<close>

record audit_env =
  au_hash :: "string \<Rightarrow> string"
  au_now :: timestamp
  au_actor :: identity
  au_auditId :: string
  au_eventId :: string
  au_outbox :: bool

record change =
  cg_action :: string
  cg_organization :: "string option"
  cg_type :: string
  cg_target :: string
  cg_metadata :: "json option"

definition requestedBy :: "identity \<Rightarrow> string \<times> json" where
  "requestedBy i = (''requestedBy'', JStr (provider i @ '':'' @ subject i))"

definition opt_meta :: "string \<Rightarrow> ('a \<Rightarrow> json) \<Rightarrow> 'a option \<Rightarrow> (string \<times> json) list" where
  "opt_meta name f v = (case v of None \<Rightarrow> [] | Some x \<Rightarrow> [(name, f x)])"

definition or_null :: "string option \<Rightarrow> json" where
  "or_null v = (case v of None \<Rightarrow> JNull | Some t \<Rightarrow> JStr t)"

definition from_to :: "json \<Rightarrow> json \<Rightarrow> json" where
  "from_to a b = JObj [(''from'', a), (''to'', b)]"

text \<open>An oversized change keeps the facts in the event and the detail in the log.  The size is that of the text, whatever the order of the keys.\<close>

definition event_payload :: "audit_env \<Rightarrow> change \<Rightarrow> json" where
  "event_payload env c =
     (let base = [(''actor'', identity_json (au_actor env)),
                  (''target'', JObj [(''type'', JStr (cg_type c)), (''id'', JStr (cg_target c))])];
          full = JObj (base @ opt_meta ''metadata'' id (cg_metadata c))
      in if utf8_length (canonicalJson full) \<le> MAX_OUTBOX_PAYLOAD_BYTES then full else JObj (base @ [(''metadataOmitted'', JBool True)]))"

definition record_change :: "audit_env \<Rightarrow> change \<Rightarrow> unit op" where
  "record_change env c =
     and_then (audit_record (au_hash env) (au_now env)
         \<lparr> ai_id = ''audit:'' @ au_auditId env, ai_organizationId = cg_organization c, ai_actor = au_actor env, ai_action = cg_action c,
           ai_target = Some \<lparr> at_type = cg_type c, at_id = cg_target c \<rparr>, ai_metadata = cg_metadata c \<rparr>)
       (\<lambda>_. if au_outbox env
             then and_then (ob_enqueue (au_now env)
                      \<lparr> eo_id = ''evt:'' @ au_eventId env, eo_type = cg_action c, eo_organizationId = cg_organization c,
                        eo_payload = Some (event_payload env c) \<rparr>) (\<lambda>_. returns ())
             else returns ())"

text \<open>A write and then the record of what it changed, if anything.\<close>

definition with_record :: "audit_env \<Rightarrow> 'a op \<Rightarrow> ('a \<Rightarrow> change option) \<Rightarrow> 'a op" where
  "with_record env p entry =
     and_then p (\<lambda>x. case entry x of None \<Rightarrow> returns x | Some c \<Rightarrow> and_then (record_change env c) (\<lambda>_. returns x))"

text \<open>
  The writes that decide who holds which power go to the storage below: a plain one runs them, a guarded one
  (\<open>AccessGuard\<close>) first says whether the call may go on.  Its verdict is the argument \<open>ok\<close>.
\<close>

type_synonym guard_result = "uerror + unit"

definition let_through :: "guard_result \<Rightarrow> 'a op \<Rightarrow> 'a op" where
  "let_through ok p = guard ok (\<lambda>_. p)"

definition change_of :: "string \<Rightarrow> string option \<Rightarrow> string \<Rightarrow> string \<Rightarrow> json option \<Rightarrow> change" where
  "change_of action og ty i metadata =
     \<lparr> cg_action = action, cg_organization = og, cg_type = ty, cg_target = i, cg_metadata = metadata \<rparr>"

section \<open>Organizations\<close>

fun org_status_text :: "org_status \<Rightarrow> string" where
  "org_status_text OActive = ''active''"
| "org_status_text OSuspended = ''suspended''"
| "org_status_text OArchived = ''archived''"

definition aud_org_create :: "audit_env \<Rightarrow> create_organization \<Rightarrow> organization op" where
  "aud_org_create env input = with_record env (org_create (au_now env) input)
     (\<lambda>o'. Some (change_of ''organization.created'' (Some (o_id o')) ''organization'' (o_id o') (Some (JObj [(''name'', JStr (o_name o'))]))))"

definition aud_org_rename :: "audit_env \<Rightarrow> string \<Rightarrow> string \<Rightarrow> organization option op" where
  "aud_org_rename env i name = with_record env (org_rename i name)
     (\<lambda>r. if r = None then None else Some (change_of ''organization.renamed'' (Some i) ''organization'' i (Some (JObj [(''name'', JStr name)]))))"

definition aud_org_update :: "audit_env \<Rightarrow> string \<Rightarrow> update_organization \<Rightarrow> organization option op" where
  "aud_org_update env i input s =
     (let before = org_findById s i in
      with_record env (org_update i input)
        (\<lambda>r. case (before, r) of
           (Some b, Some a) \<Rightarrow>
             let changed = (if o_name b \<noteq> o_name a then [(''name'', from_to (JStr (o_name b)) (JStr (o_name a)))] else []) @
                           (if o_slug b \<noteq> o_slug a then [(''slug'', from_to (JStr (o_slug b)) (JStr (o_slug a)))] else [])
             in if changed = [] then None
                else Some (change_of ''organization.updated'' (Some i) ''organization'' i (Some (JObj [(''changed'', JObj changed)])))
         | _ \<Rightarrow> None) s)"

definition aud_org_setStatus :: "audit_env \<Rightarrow> string \<Rightarrow> set_status \<Rightarrow> organization option op" where
  "aud_org_setStatus env i input s =
     (let before = org_findById s i in
      with_record env (org_setStatus (au_now env) i input)
        (\<lambda>r. case (before, r) of
           (Some b, Some a) \<Rightarrow>
             if o_status b = o_status a then None
             else Some (change_of ''organization.status_changed'' (Some i) ''organization'' i (Some (JObj (
               [(''from'', JStr (org_status_text (o_status b))), (''to'', JStr (org_status_text (o_status a)))]
               @ opt_meta ''reason'' JStr (Option.bind (o_statusChange a) ch_reason)
               @ [requestedBy (ss_actor input)]))))
         | _ \<Rightarrow> None) s)"

section \<open>Memberships\<close>

text \<open>Looking a member up first lifts ended suspensions.\<close>

definition about_member :: "audit_env \<Rightarrow> string \<Rightarrow> (membership option \<Rightarrow> 'a op) \<Rightarrow> 'a op" where
  "about_member env i p s = (let (found, s1) = mem_findById (au_now env) i s in p found s1)"

definition member_change :: "string \<Rightarrow> membership option \<Rightarrow> string \<Rightarrow> (string \<times> json) list \<Rightarrow> change" where
  "member_change action found i metadata =
     change_of action (map_option m_organizationId found) ''membership'' i (if metadata = [] then None else Some (JObj metadata))"

definition aud_mem_create :: "audit_env \<Rightarrow> guard_result \<Rightarrow> create_membership \<Rightarrow> membership op" where
  "aud_mem_create env ok input = with_record env (let_through ok (mem_create (au_now env) input)) (\<lambda>m. Some (member_change ''membership.created'' (Some m) (m_id m) []))"

definition aud_mem_assignRole :: "audit_env \<Rightarrow> guard_result \<Rightarrow> string \<Rightarrow> string \<Rightarrow> int option \<Rightarrow> unit op" where
  "aud_mem_assignRole env ok i roleId expected = about_member env i (\<lambda>found.
     with_record env (let_through ok (mem_assignRole (au_now env) i roleId expected))
       (\<lambda>_. Some (member_change ''membership.role_assigned'' found i [(''roleId'', JStr roleId)])))"

definition aud_mem_assignOwnerRole :: "audit_env \<Rightarrow> guard_result \<Rightarrow> string \<Rightarrow> string \<Rightarrow> unit op" where
  "aud_mem_assignOwnerRole env ok i roleId = about_member env i (\<lambda>found.
     with_record env (let_through ok (mem_assignOwnerRole (au_now env) i roleId))
       (\<lambda>_. Some (member_change ''membership.owner_role_assigned'' found i [(''roleId'', JStr roleId)])))"

definition aud_mem_unassignRole :: "audit_env \<Rightarrow> guard_result \<Rightarrow> string \<Rightarrow> string \<Rightarrow> int option \<Rightarrow> unit op" where
  "aud_mem_unassignRole env ok i roleId expected = about_member env i (\<lambda>found.
     with_record env (let_through ok (mem_unassignRole (au_now env) i roleId expected))
       (\<lambda>_. Some (member_change ''membership.role_unassigned'' found i [(''roleId'', JStr roleId)])))"

definition aud_mem_unassignOwnerRole :: "audit_env \<Rightarrow> guard_result \<Rightarrow> string \<Rightarrow> string \<Rightarrow> unit op" where
  "aud_mem_unassignOwnerRole env ok i roleId = about_member env i (\<lambda>found.
     with_record env (let_through ok (mem_unassignOwnerRole (au_now env) i roleId))
       (\<lambda>_. Some (member_change ''membership.owner_role_unassigned'' found i [(''roleId'', JStr roleId)])))"

text \<open>Only a call that moved the version is recorded.\<close>

definition moved_version :: "membership option \<Rightarrow> membership \<Rightarrow> bool" where
  "moved_version before after \<longleftrightarrow> map_option m_version before \<noteq> Some (m_version after)"

definition block_reason :: "membership \<Rightarrow> (string \<times> json) list" where
  "block_reason m = (case Option.bind (m_blocked m) b_reason of None \<Rightarrow> [] | Some r \<Rightarrow> if r = [] then [] else [(''reason'', JStr r)])"

definition aud_mem_block :: "audit_env \<Rightarrow> guard_result \<Rightarrow> string \<Rightarrow> block_input \<Rightarrow> membership op" where
  "aud_mem_block env ok i input = about_member env i (\<lambda>found.
     with_record env (let_through ok (mem_block (au_now env) i input))
       (\<lambda>m. if moved_version found m
            then Some (member_change ''membership.blocked'' (Some m) i
              (block_reason m @ (if map_option m_status found = Some MSuspended then [(''replacedSuspension'', JBool True)] else [])
               @ [requestedBy (bi_actor input)]))
            else None))"

definition aud_mem_suspend :: "audit_env \<Rightarrow> guard_result \<Rightarrow> string \<Rightarrow> block_input \<Rightarrow> date_in option \<Rightarrow> membership op" where
  "aud_mem_suspend env ok i input until = about_member env i (\<lambda>found.
     with_record env (let_through ok (mem_suspend (au_now env) i input until))
       (\<lambda>m. if moved_version found m
            then Some (member_change ''membership.suspended'' (Some m) i
              (block_reason m @ opt_meta ''until'' (\<lambda>t. JStr (toISOString t)) (Option.bind (m_blocked m) b_until) @ [requestedBy (bi_actor input)]))
            else None))"

definition aud_mem_unblock :: "audit_env \<Rightarrow> guard_result \<Rightarrow> string \<Rightarrow> identity \<Rightarrow> int option \<Rightarrow> membership op" where
  "aud_mem_unblock env ok i actor expected = about_member env i (\<lambda>found.
     with_record env (let_through ok (mem_unblock (au_now env) i expected))
       (\<lambda>m. if moved_version found m
            then Some (member_change ''membership.unblocked'' (Some m) i
              ((case found of None \<Rightarrow> []
                | Some b \<Rightarrow> if m_status b = MSuspended \<and> Option.bind (m_blocked b) b_until \<noteq> None then [(''endedSuspensionEarly'', JBool True)] else [])
               @ [requestedBy actor]))
            else None))"

definition aud_mem_delete :: "audit_env \<Rightarrow> guard_result \<Rightarrow> string \<Rightarrow> unit op" where
  "aud_mem_delete env ok i = about_member env i (\<lambda>found.
     with_record env (let_through ok (mem_delete (au_now env) i)) (\<lambda>_. Some (member_change ''membership.deleted'' found i [])))"

section \<open>Roles\<close>

definition find_role :: "store \<Rightarrow> string \<Rightarrow> role option" where
  "find_role s i = (case role_findByIds s [i] of [] \<Rightarrow> None | r # rs \<Rightarrow> Some r)"

definition role_change :: "string \<Rightarrow> role option \<Rightarrow> string \<Rightarrow> (string \<times> json) list \<Rightarrow> change" where
  "role_change action found i metadata =
     change_of action (map_option r_organizationId found) ''role'' i (if metadata = [] then None else Some (JObj metadata))"

definition aud_role_create :: "audit_env \<Rightarrow> guard_result \<Rightarrow> create_role \<Rightarrow> role op" where
  "aud_role_create env ok input = with_record env (let_through ok (role_create input))
     (\<lambda>r. Some (role_change ''role.created'' (Some r) (r_id r) [(''name'', JStr (r_name r))]))"

definition aud_role_createOwnerRole :: "audit_env \<Rightarrow> string \<Rightarrow> string \<Rightarrow> role op" where
  "aud_role_createOwnerRole env i og = with_record env (role_createOwnerRole i og) (\<lambda>r. Some (role_change ''role.owner_created'' (Some r) (r_id r) []))"

definition aud_role_grantPermission :: "audit_env \<Rightarrow> guard_result \<Rightarrow> string \<Rightarrow> string \<Rightarrow> unit op" where
  "aud_role_grantPermission env ok i key s = with_record env (let_through ok (role_grantPermission i key))
     (\<lambda>_. Some (role_change ''role.permission_granted'' (find_role s i) i [(''permission'', JStr key)])) s"

definition aud_role_revokePermission :: "audit_env \<Rightarrow> guard_result \<Rightarrow> string \<Rightarrow> string \<Rightarrow> unit op" where
  "aud_role_revokePermission env ok i key s = with_record env (let_through ok (role_revokePermission i key))
     (\<lambda>_. Some (role_change ''role.permission_revoked'' (find_role s i) i [(''permission'', JStr key)])) s"

definition aud_role_rename :: "audit_env \<Rightarrow> guard_result \<Rightarrow> string \<Rightarrow> string \<Rightarrow> role op" where
  "aud_role_rename env ok i name = with_record env (let_through ok (role_rename i name)) (\<lambda>r. Some (role_change ''role.renamed'' (Some r) i [(''name'', JStr name)]))"

definition aud_role_update :: "audit_env \<Rightarrow> guard_result \<Rightarrow> string \<Rightarrow> update_role \<Rightarrow> role op" where
  "aud_role_update env ok i input s = with_record env (let_through ok (role_update i input))
     (\<lambda>r. case find_role s i of None \<Rightarrow> None
          | Some b \<Rightarrow>
              let changed = (if r_name b \<noteq> r_name r then [(''name'', from_to (JStr (r_name b)) (JStr (r_name r)))] else []) @
                            (if r_description b \<noteq> r_description r then [(''description'', JBool True)] else [])
              in if changed = [] then None else Some (role_change ''role.updated'' (Some r) i [(''changed'', JObj changed)])) s"

definition aud_role_setPermissions :: "audit_env \<Rightarrow> guard_result \<Rightarrow> string \<Rightarrow> string list \<Rightarrow> int option \<Rightarrow> (string list \<times> string list) op" where
  "aud_role_setPermissions env ok i keys expected s = with_record env (let_through ok (role_setPermissions i keys expected))
     (\<lambda>(granted, revoked). if granted = [] \<and> revoked = [] then None
        else Some (role_change ''role.permissions_replaced'' (find_role s i) i
          [(''granted'', JArr (map JStr granted)), (''revoked'', JArr (map JStr revoked))])) s"

definition aud_role_clone :: "audit_env \<Rightarrow> guard_result \<Rightarrow> string \<Rightarrow> clone_role \<Rightarrow> role op" where
  "aud_role_clone env ok i input = with_record env (let_through ok (role_clone i input))
     (\<lambda>r. Some (role_change ''role.cloned'' (Some r) (r_id r) [(''from'', JStr i), (''name'', JStr (r_name r))]))"

fun members_json :: "members_policy \<Rightarrow> json" where
  "members_json Detach = JStr ''detach''"
| "members_json Reject = JStr ''reject''"
| "members_json (ReassignTo heir) = JObj [(''reassignTo'', JStr heir)]"

definition aud_role_delete :: "audit_env \<Rightarrow> guard_result \<Rightarrow> string \<Rightarrow> members_policy \<Rightarrow> unit op" where
  "aud_role_delete env ok i members s = with_record env (let_through ok (role_delete i members))
     (\<lambda>_. Some (role_change ''role.deleted'' (find_role s i) i [(''members'', members_json members)])) s"

section \<open>The catalogs, entitlements and support grants\<close>

definition aud_perm_register :: "audit_env \<Rightarrow> register_permission \<Rightarrow> permission op" where
  "aud_perm_register env input = with_record env (perm_register input)
     (\<lambda>p. Some (change_of ''permission.registered'' None ''permission'' (p_key p) None))"

definition aud_perm_unregister :: "audit_env \<Rightarrow> string \<Rightarrow> unit op" where
  "aud_perm_unregister env key = with_record env (perm_unregister key)
     (\<lambda>_. Some (change_of ''permission.unregistered'' None ''permission'' key None))"

fun period_text :: "period \<Rightarrow> string" where
  "period_text Lifetime = ''lifetime''"
| "period_text Daily = ''daily''"
| "period_text Monthly = ''monthly''"

definition limit_json :: "int option \<Rightarrow> json" where
  "limit_json l = (case l of None \<Rightarrow> JNull | Some n \<Rightarrow> JNum n)"

definition aud_ent_define :: "audit_env \<Rightarrow> define_entitlement \<Rightarrow> entitlement_def op" where
  "aud_ent_define env input = with_record env (ent_define input)
     (\<lambda>d. Some (change_of ''entitlement.defined'' None ''entitlement'' (e_key d)
        (Some (JObj [(''period'', JStr (period_text (e_period d))), (''defaultLimit'', limit_json (e_defaultLimit d))]))))"

definition aud_ent_undefine :: "audit_env \<Rightarrow> string \<Rightarrow> unit op" where
  "aud_ent_undefine env key = with_record env (ent_undefine key)
     (\<lambda>_. Some (change_of ''entitlement.removed'' None ''entitlement'' key None))"

text \<open>The limit before is read first; an unknown entitlement fails there.\<close>

definition aud_limit_change :: "audit_env \<Rightarrow> string \<Rightarrow> string \<Rightarrow> string \<Rightarrow> entitlement_status op \<Rightarrow> entitlement_status op" where
  "aud_limit_change env action og key p s =
     guard (ent_get (au_now env) og key s) (\<lambda>before. with_record env p
       (\<lambda>st. Some (change_of action (Some og) ''entitlement'' key (Some (from_to (limit_json (es_limit before)) (limit_json (es_limit st))))))) s"

definition aud_ent_setLimit :: "audit_env \<Rightarrow> string \<Rightarrow> string \<Rightarrow> int option \<Rightarrow> entitlement_status op" where
  "aud_ent_setLimit env og key limit = aud_limit_change env ''entitlement.limit_changed'' og key (ent_setLimit (au_now env) og key limit)"

definition aud_ent_clearLimit :: "audit_env \<Rightarrow> string \<Rightarrow> string \<Rightarrow> entitlement_status op" where
  "aud_ent_clearLimit env og key = aud_limit_change env ''entitlement.limit_cleared'' og key (ent_clearLimit (au_now env) og key)"

definition aud_sg_create :: "audit_env \<Rightarrow> create_support_grant \<Rightarrow> support_grant op" where
  "aud_sg_create env input = with_record env (sg_create (au_now env) input)
     (\<lambda>g. Some (change_of ''support_grant.created'' (Some (g_organizationId g)) ''support_grant'' (g_id g)
        (Some (JObj [(''operator'', identity_json (g_operator g)), (''grantedBy'', identity_json (g_grantedBy g)),
           (''permissions'', JArr (map JStr (g_permissions g))), (''expiresAt'', JStr (toISOString (g_expiresAt g))), (''reason'', JStr (g_reason g))]))))"

definition aud_sg_revoke :: "audit_env \<Rightarrow> string \<Rightarrow> identity \<Rightarrow> support_grant option op" where
  "aud_sg_revoke env i by' s =
     (let before = mget (supportGrants s) i in
      with_record env (\<lambda>s. case sg_revoke (au_now env) i by' s of (g, s') \<Rightarrow> (Inr g, s'))
        (\<lambda>g. case (before, g) of
           (Some b, Some a) \<Rightarrow>
             if g_revokedAt b = None
             then Some (change_of ''support_grant.revoked'' (Some (g_organizationId a)) ''support_grant'' i
               (Some (JObj [(''operator'', identity_json (g_operator a)), (''revokedBy'', identity_json by')])))
             else None
         | _ \<Rightarrow> None) s)"

section \<open>Teams\<close>

type_synonym team_auth = "token_registry \<times> nat option"

definition team_change :: "string \<Rightarrow> string \<Rightarrow> string \<Rightarrow> (string \<times> json) list \<Rightarrow> change" where
  "team_change action og i metadata = change_of action (Some og) ''team'' i (if metadata = [] then None else Some (JObj metadata))"

definition aud_team_create :: "audit_env \<Rightarrow> team_auth \<Rightarrow> create_team \<Rightarrow> team op" where
  "aud_team_create env auth input = with_record env (team_create (fst auth) (au_now env) (snd auth) input)
     (\<lambda>t. Some (team_change ''team.created'' (t_organizationId t) (t_id t)
        ([(''name'', JStr (t_name t)), (''slug'', JStr (t_slug t))] @ opt_meta ''parentId'' JStr (t_parentId t))))"

definition team_diff :: "team \<Rightarrow> team \<Rightarrow> (string \<times> json) list" where
  "team_diff b a =
     (if t_name b \<noteq> t_name a then [(''name'', from_to (JStr (t_name b)) (JStr (t_name a)))] else []) @
     (if t_slug b \<noteq> t_slug a then [(''slug'', from_to (JStr (t_slug b)) (JStr (t_slug a)))] else []) @
     (if t_externalId b \<noteq> t_externalId a then [(''externalId'', from_to (or_null (t_externalId b)) (or_null (t_externalId a)))] else []) @
     (if t_parentId b \<noteq> t_parentId a then [(''parentId'', from_to (or_null (t_parentId b)) (or_null (t_parentId a)))] else []) @
     (if \<not> sameTeamData (t_metadata b) (t_metadata a) then [(''metadata'', JBool True)] else []) @
     (if \<not> sameTeamData (t_settings b) (t_settings a) then [(''settings'', JBool True)] else [])"

definition aud_team_update :: "audit_env \<Rightarrow> team_auth \<Rightarrow> string \<Rightarrow> string \<Rightarrow> update_team \<Rightarrow> team op" where
  "aud_team_update env auth og i input s = with_record env (team_update (fst auth) (au_now env) (snd auth) og i input)
     (\<lambda>a. case team_findById s og i of None \<Rightarrow> None
          | Some b \<Rightarrow> if t_version b = t_version a then None
                      else Some (team_change ''team.updated'' og i [(''changed'', JObj (team_diff b a))])) s"

definition aud_team_archive :: "audit_env \<Rightarrow> team_auth \<Rightarrow> string \<Rightarrow> string \<Rightarrow> identity \<Rightarrow> string option \<Rightarrow> int option \<Rightarrow> team op" where
  "aud_team_archive env auth og i actor reason expected s =
     with_record env (team_archive (fst auth) (au_now env) (snd auth) og i actor reason expected)
     (\<lambda>a. case team_findById s og i of None \<Rightarrow> None
          | Some b \<Rightarrow> if t_status b = t_status a then None
                      else Some (team_change ''team.archived'' og i
                        ([requestedBy actor] @ opt_meta ''reason'' JStr (Option.bind (t_archived a) ch_reason)))) s"

definition aud_team_restore :: "audit_env \<Rightarrow> team_auth \<Rightarrow> string \<Rightarrow> string \<Rightarrow> identity \<Rightarrow> int option \<Rightarrow> team op" where
  "aud_team_restore env auth og i actor expected s =
     with_record env (team_restore (fst auth) (au_now env) (snd auth) og i actor expected)
     (\<lambda>a. case team_findById s og i of None \<Rightarrow> None
          | Some b \<Rightarrow> if t_status b = t_status a then None else Some (team_change ''team.restored'' og i [requestedBy actor])) s"

definition aud_team_delete :: "audit_env \<Rightarrow> team_auth \<Rightarrow> string \<Rightarrow> string \<Rightarrow> unit op" where
  "aud_team_delete env auth og i s =
     with_record env (team_delete (fst auth) (au_now env) (snd auth) og i)
     (\<lambda>_. Some (team_change ''team.deleted'' og i
        (case team_findById s og i of None \<Rightarrow> [] | Some b \<Rightarrow> [(''name'', JStr (t_name b)), (''slug'', JStr (t_slug b))]))) s"

section \<open>Team memberships\<close>

fun responsibility_text :: "responsibility \<Rightarrow> string" where
  "responsibility_text ROwner = ''owner''"
| "responsibility_text RManager = ''manager''"
| "responsibility_text RMember = ''member''"

fun tm_status_text :: "tm_status \<Rightarrow> string" where
  "tm_status_text TMPending = ''pending''"
| "tm_status_text TMActive = ''active''"
| "tm_status_text TMSuspended = ''suspended''"
| "tm_status_text TMRemoved = ''removed''"

definition tm_change_of :: "string \<Rightarrow> string \<Rightarrow> string \<Rightarrow> team_membership \<Rightarrow> (string \<times> json) list \<Rightarrow> change" where
  "tm_change_of action og i row extra =
     change_of action (Some og) ''team_member'' i
       (Some (JObj ([(''teamId'', JStr (tm_teamId row)), (''membershipId'', JStr (tm_membershipId row))] @ extra)))"

definition aud_tm_add :: "audit_env \<Rightarrow> team_auth \<Rightarrow> add_team_member \<Rightarrow> team_membership op" where
  "aud_tm_add env auth input s =
     (let before = tm_find s (am_organizationId input) (am_teamId input) (am_membershipId input) in
      with_record env (tm_add (fst auth) (au_now env) (snd auth) input)
        (\<lambda>row. Some (tm_change_of
           (if tm_status row = TMPending then ''team_member.invited'' else if before \<noteq> None then ''team_member.reactivated'' else ''team_member.added'')
           (tm_organizationId row) (tm_id row) row
           [(''responsibility'', JStr (responsibility_text (tm_responsibility row))), (''roleIds'', JArr (map JStr (tm_roleIds row)))])) s)"

text \<open>The changes of a row that exists: recorded when the row before and after differ in what the call is about.\<close>

definition aud_tm_row ::
  "audit_env \<Rightarrow> string \<Rightarrow> string \<Rightarrow> team_membership op \<Rightarrow> (team_membership \<Rightarrow> team_membership \<Rightarrow> (string \<times> (string \<times> json) list) option) \<Rightarrow> team_membership op" where
  "aud_tm_row env og i p entry s =
     with_record env p (\<lambda>row. Option.bind (tm_findById s og i) (\<lambda>before.
       map_option (\<lambda>(action, extra). tm_change_of action og i row extra) (entry before row))) s"

definition aud_tm_setStatus ::
  "audit_env \<Rightarrow> team_auth \<Rightarrow> string \<Rightarrow> string \<Rightarrow> string \<Rightarrow> identity \<Rightarrow> string option \<Rightarrow> int option \<Rightarrow> team_membership op" where
  "aud_tm_setStatus env auth og i st actor reason expected =
     aud_tm_row env og i (tm_setStatus (fst auth) (au_now env) (snd auth) og i st actor reason expected)
       (\<lambda>b row. if tm_status b = tm_status row then None
          else Some (if tm_status row = TMActive then ''team_member.reactivated''
                     else if tm_status row = TMSuspended then ''team_member.suspended'' else ''team_member.removed'',
                     [(''from'', JStr (tm_status_text (tm_status b))), requestedBy actor]
                     @ opt_meta ''reason'' JStr (Option.bind (tm_statusChange row) ch_reason)))"

definition aud_tm_accept :: "audit_env \<Rightarrow> team_auth \<Rightarrow> string \<Rightarrow> string \<Rightarrow> identity \<Rightarrow> int option \<Rightarrow> team_membership op" where
  "aud_tm_accept env auth og i actor expected =
     aud_tm_row env og i (tm_accept (fst auth) (au_now env) (snd auth) og i actor expected)
       (\<lambda>b row. if tm_status b = TMPending then Some (''team_member.accepted'', [(''from'', JStr ''pending'')]) else None)"

definition aud_tm_setResponsibility :: "audit_env \<Rightarrow> team_auth \<Rightarrow> string \<Rightarrow> string \<Rightarrow> string \<Rightarrow> int option \<Rightarrow> team_membership op" where
  "aud_tm_setResponsibility env auth og i responsibility expected =
     aud_tm_row env og i (tm_setResponsibility (fst auth) (au_now env) (snd auth) og i responsibility expected)
       (\<lambda>b row. if tm_responsibility b = tm_responsibility row then None
          else Some (if tm_responsibility b = ROwner \<or> tm_responsibility row = ROwner then ''team.owner_changed'' else ''team.manager_changed'',
                     [(''from'', JStr (responsibility_text (tm_responsibility b))), (''to'', JStr (responsibility_text (tm_responsibility row)))]))"

definition aud_tm_assignRole :: "audit_env \<Rightarrow> team_auth \<Rightarrow> string \<Rightarrow> string \<Rightarrow> string \<Rightarrow> int option \<Rightarrow> team_membership op" where
  "aud_tm_assignRole env auth og i roleId expected =
     aud_tm_row env og i (tm_assignRole (fst auth) (au_now env) (snd auth) og i roleId expected)
       (\<lambda>b row. if roleId \<in> set (tm_roleIds b) then None else Some (''team_member.role_assigned'', [(''roleId'', JStr roleId)]))"

definition aud_tm_unassignRole :: "audit_env \<Rightarrow> team_auth \<Rightarrow> string \<Rightarrow> string \<Rightarrow> string \<Rightarrow> int option \<Rightarrow> team_membership op" where
  "aud_tm_unassignRole env auth og i roleId expected =
     aud_tm_row env og i (tm_unassignRole (fst auth) (au_now env) (snd auth) og i roleId expected)
       (\<lambda>b row. if roleId \<in> set (tm_roleIds b) then Some (''team_member.role_unassigned'', [(''roleId'', JStr roleId)]) else None)"

section \<open>Policies\<close>

text \<open>The policy repository has a store of its own.  An update may leave two entries, the second with ids of its own (\<open>env2\<close>).\<close>

definition with_policy_record ::
  "(policy_store \<Rightarrow> uerror + 'a \<times> policy_store) \<Rightarrow> ('a \<Rightarrow> (audit_env \<times> change) list) \<Rightarrow> store \<times> policy_store \<Rightarrow> (uerror + 'a) \<times> store \<times> policy_store" where
  "with_policy_record p entries st =
     (case p (snd st) of
        Inl e \<Rightarrow> (Inl e, st)
      | Inr (x, ps) \<Rightarrow>
          (case foreach (\<lambda>(env, c). record_change env c) (entries x) (fst st) of
             (Inl e, s) \<Rightarrow> (Inl e, (s, ps))
           | (Inr _, s) \<Rightarrow> (Inr x, (s, ps))))"

fun policy_status_text :: "policy_status \<Rightarrow> string" where
  "policy_status_text PDraft = ''draft''"
| "policy_status_text PActive = ''active''"
| "policy_status_text PDisabled = ''disabled''"
| "policy_status_text PRetired = ''retired''"

definition policy_change :: "string \<Rightarrow> string \<Rightarrow> string \<Rightarrow> (string \<times> json) list \<Rightarrow> change" where
  "policy_change action og i metadata = change_of action (Some og) ''policy'' i (if metadata = [] then None else Some (JObj metadata))"

definition aud_pol_create :: "audit_env \<Rightarrow> policy_env \<Rightarrow> create_policy_input \<Rightarrow> store \<times> policy_store \<Rightarrow> (uerror + policy) \<times> store \<times> policy_store" where
  "aud_pol_create env penv input = with_policy_record (pol_create penv input)
     (\<lambda>p. [(env, policy_change ''policy.created'' (po_organizationId p) (po_id p)
        [(''key'', JStr (po_key p)), (''name'', JStr (po_name p)), (''kind'', JStr (kind_text (po_kind p))),
         (''effect'', JStr (effect_text (po_effect p))), (''revision'', JNum (po_revision p)), (''definitionHash'', JStr (po_definitionHash p))])])"

definition aud_pol_update ::
  "audit_env \<Rightarrow> audit_env \<Rightarrow> policy_env \<Rightarrow> string \<Rightarrow> string \<Rightarrow> update_policy_input \<Rightarrow> store \<times> policy_store \<Rightarrow> (uerror + policy) \<times> store \<times> policy_store" where
  "aud_pol_update env env2 penv og i input st = with_policy_record (pol_update penv og i input)
     (\<lambda>a. case pol_find (snd st) og i of None \<Rightarrow> []
          | Some b \<Rightarrow>
              if po_version b = po_version a then []
              else
                (if po_revision b \<noteq> po_revision a
                 then [(env, policy_change ''policy.revised'' og i
                   ([(''key'', JStr (po_key a)), (''from'', JNum (po_revision b)), (''revision'', JNum (po_revision a)),
                     (''definitionHash'', JStr (po_definitionHash a)), (''status'', JStr (policy_status_text (po_status a)))]
                    @ opt_meta ''note'' JStr (up_note input)))]
                 else []) @
                (if po_name b \<noteq> po_name a \<or> po_description b \<noteq> po_description a
                 then [(env2, policy_change ''policy.updated'' og i
                   ([(''key'', JStr (po_key a))] @
                    (if po_name b \<noteq> po_name a then [(''name'', from_to (JStr (po_name b)) (JStr (po_name a)))] else []) @
                    (if po_description b \<noteq> po_description a then [(''description'', JStr ''changed'')] else [])))]
                 else [])) st"

text \<open>\<open>activate\<close>, \<open>disable\<close> and \<open>retire\<close> record a status that changed.\<close>

definition aud_pol_status ::
  "audit_env \<Rightarrow> string \<Rightarrow> string \<Rightarrow> string \<Rightarrow> (policy \<Rightarrow> policy \<Rightarrow> (string \<times> json) list) \<Rightarrow> status_input \<Rightarrow>
   (policy_store \<Rightarrow> uerror + policy \<times> policy_store) \<Rightarrow> store \<times> policy_store \<Rightarrow> (uerror + policy) \<times> store \<times> policy_store" where
  "aud_pol_status env action og i facts input p st = with_policy_record p
     (\<lambda>a. case pol_find (snd st) og i of None \<Rightarrow> []
          | Some b \<Rightarrow>
              if po_status b = po_status a then []
              else [(env, policy_change action og i
                ([(''key'', JStr (po_key a)), (''revision'', JNum (po_revision a))] @ facts b a @ [requestedBy (si_actor input)]
                 @ opt_meta ''reason'' JStr (Option.bind (po_statusChange a) ch_reason)))]) st"

definition aud_pol_activate :: "audit_env \<Rightarrow> policy_env \<Rightarrow> string \<Rightarrow> string \<Rightarrow> status_input \<Rightarrow> store \<times> policy_store \<Rightarrow> (uerror + policy) \<times> store \<times> policy_store" where
  "aud_pol_activate env penv og i input = aud_pol_status env ''policy.activated'' og i
     (\<lambda>b a. [(''definitionHash'', JStr (po_definitionHash a)), (''from'', JStr (policy_status_text (po_status b)))]) input (pol_activate penv og i input)"

definition aud_pol_disable :: "audit_env \<Rightarrow> policy_env \<Rightarrow> string \<Rightarrow> string \<Rightarrow> status_input \<Rightarrow> store \<times> policy_store \<Rightarrow> (uerror + policy) \<times> store \<times> policy_store" where
  "aud_pol_disable env penv og i input = aud_pol_status env ''policy.disabled'' og i (\<lambda>b a. []) input (pol_disable penv og i input)"

definition aud_pol_retire :: "audit_env \<Rightarrow> policy_env \<Rightarrow> string \<Rightarrow> string \<Rightarrow> status_input \<Rightarrow> store \<times> policy_store \<Rightarrow> (uerror + policy) \<times> store \<times> policy_store" where
  "aud_pol_retire env penv og i input = aud_pol_status env ''policy.retired'' og i
     (\<lambda>b a. [(''from'', JStr (policy_status_text (po_status b)))]) input (pol_retire penv og i input)"

definition aud_pol_delete :: "audit_env \<Rightarrow> policy_env \<Rightarrow> string \<Rightarrow> string \<Rightarrow> nat option \<Rightarrow> store \<times> policy_store \<Rightarrow> (uerror + unit) \<times> store \<times> policy_store" where
  "aud_pol_delete env penv og i authorization st =
     with_policy_record (\<lambda>ps. bindr (pol_delete penv og i authorization ps) (\<lambda>ps'. Inr ((), ps')))
     (\<lambda>_. [(env, policy_change ''policy.deleted'' og i
        (case pol_find (snd st) og i of None \<Rightarrow> [] | Some b \<Rightarrow> [(''key'', JStr (po_key b)), (''name'', JStr (po_name b))]))]) st"

section \<open>Features\<close>

definition meta_fields :: "feature_meta \<Rightarrow> (string \<times> json) list" where
  "meta_fields meta =
     (case fm_reason meta of None \<Rightarrow> [] | Some r \<Rightarrow> if r = [] then [] else [(''reason'', JStr r)]) @
     (case fm_actor meta of None \<Rightarrow> [] | Some a \<Rightarrow> [requestedBy a])"

definition changeMetadata :: "feature_meta option \<Rightarrow> json option" where
  "changeMetadata meta = map_option (\<lambda>m. JObj (meta_fields m)) meta"

definition given :: "feature_meta option \<Rightarrow> feature_meta" where
  "given meta = (case meta of None \<Rightarrow> no_meta | Some m \<Rightarrow> m)"

definition aud_features_register :: "audit_env \<Rightarrow> register_feature \<Rightarrow> feature_def op" where
  "aud_features_register env input = with_record env (features_register input)
     (\<lambda>d. Some (change_of ''feature.registered'' None ''feature'' (fd_key d) None))"

definition aud_features_unregister :: "audit_env \<Rightarrow> string \<Rightarrow> unit op" where
  "aud_features_unregister env key = with_record env (features_unregister key)
     (\<lambda>_. Some (change_of ''feature.unregistered'' None ''feature'' key None))"

definition aud_features_enable :: "audit_env \<Rightarrow> string \<Rightarrow> string \<Rightarrow> feature_meta option \<Rightarrow> unit op" where
  "aud_features_enable env og key meta = with_record env (features_enable (au_now env) og key (given meta))
     (\<lambda>_. Some (change_of ''feature.enabled'' (Some og) ''feature'' key (changeMetadata meta)))"

definition aud_features_disable :: "audit_env \<Rightarrow> string \<Rightarrow> string \<Rightarrow> feature_meta option \<Rightarrow> unit op" where
  "aud_features_disable env og key meta = with_record env (features_disable (au_now env) og key (given meta))
     (\<lambda>_. Some (change_of ''feature.disabled'' (Some og) ''feature'' key (changeMetadata meta)))"

definition aud_features_setMany :: "audit_env \<Rightarrow> string \<Rightarrow> (string \<times> bool) list \<Rightarrow> feature_meta option \<Rightarrow> unit op" where
  "aud_features_setMany env og changes meta = with_record env (features_setMany (au_now env) og changes (given meta))
     (\<lambda>_. Some (change_of ''feature.bulk_changed'' (Some og) ''organization'' og
        (Some (JObj ([(''changes'', JArr (map (\<lambda>(k, on). JObj [(''key'', JStr k), (''enabled'', JBool on)]) changes))] @ meta_fields (given meta))))))"

definition aud_features_disableEverywhere :: "audit_env \<Rightarrow> string \<Rightarrow> feature_meta option \<Rightarrow> (nat \<times> bool) op" where
  "aud_features_disableEverywhere env key meta = with_record env (features_disableEverywhere (au_now env) key (given meta))
     (\<lambda>(n, changed). Some (change_of ''feature.disabled_everywhere'' None ''feature'' key
        (Some (JObj ([(''disabledOverrides'', JNum (int n)), (''defaultWasEnabled'', JBool changed)] @ meta_fields (given meta))))))"

section \<open>What an audited call does\<close>

text \<open>The store without the audit log and the outbox, and the entry a change leaves.\<close>

definition forget :: "store \<Rightarrow> store" where
  "forget s = s \<lparr> auditLogs := [], auditChain := [], outboxEvents := [], outboxSeq := 0 \<rparr>"

definition audit_of :: "audit_env \<Rightarrow> change \<Rightarrow> audit_entry" where
  "audit_of env c =
     \<lparr> al_id = ''audit:'' @ au_auditId env, al_organizationId = cg_organization c, al_actor = au_actor env, al_action = cg_action c,
       al_target = Some \<lparr> at_type = cg_type c, at_id = cg_target c \<rparr>, al_metadata = cg_metadata c, al_createdAt = au_now env \<rparr>"

definition event_of :: "audit_env \<Rightarrow> change \<Rightarrow> enqueue_outbox" where
  "event_of env c = \<lparr> eo_id = ''evt:'' @ au_eventId env, eo_type = cg_action c, eo_organizationId = cg_organization c,
     eo_payload = Some (event_payload env c) \<rparr>"

lemma record_change_cases:
  "record_change env c s =
     (case assertAuditInput (au_actor env) (cg_action c) of
        Inl e \<Rightarrow> (Inl e, s)
      | Inr _ \<Rightarrow> (if au_outbox env then and_then (ob_enqueue (au_now env) (event_of env c)) (\<lambda>_. returns ()) else returns ())
          (append_entry (au_hash env) (audit_of env c) s))"
  by (simp add: record_change_def and_then_def audit_record_def guard_def fails_def returns_def entry_of_def audit_of_def event_of_def Let_def
      split: sum.split)

lemma and_then_unit: "snd (and_then p (\<lambda>_. returns ()) t) = snd (p t)"
  by (cases "p t"; cases "fst (p t)") (simp_all add: and_then_def)

lemma enqueue_frame:
  "auditLogs (snd (ob_enqueue now input s)) = auditLogs s" "forget (snd (ob_enqueue now input s)) = forget s"
  by (cases "assertValidOutboxEvent input"; simp add: ob_enqueue_def Let_def forget_def)+

lemma append_frame: "auditLogs (append_entry H e s) = auditLogs s @ [e]" "forget (append_entry H e s) = forget s"
  by (simp_all add: append_entry_def Let_def forget_def)

lemma record_change_forget: "forget (snd (record_change env c s)) = forget s"
  by (simp add: record_change_cases and_then_unit enqueue_frame append_frame split: sum.split)

lemma record_change_entry:
  "fst (record_change env c s) = Inr () \<Longrightarrow> auditLogs (snd (record_change env c s)) = auditLogs s @ [audit_of env c]"
  by (simp add: record_change_cases and_then_unit enqueue_frame append_frame split: sum.splits if_splits)

text \<open>
  \<open>recorded env s s'\<close>: the call left the store \<open>s'\<close> where the operation left \<open>s\<close>: the same, or the same but for one more
  entry by the acting person.
\<close>

definition recorded :: "audit_env \<Rightarrow> store \<Rightarrow> store \<Rightarrow> bool" where
  "recorded env s s' \<longleftrightarrow> s' = s \<or> (forget s' = forget s \<and> (\<exists>c. auditLogs s' = auditLogs s @ [audit_of env c]))"

lemma with_record_Inr:
  assumes "with_record env p f s = (Inr x, s')"
  obtains s1 where "p s = (Inr x, s1)" "case f x of None \<Rightarrow> s' = s1
    | Some c \<Rightarrow> forget s' = forget s1 \<and> auditLogs s' = auditLogs s1 @ [audit_of env c]"
proof -
  obtain r s1 where p: "p s = (r, s1)" by fastforce
  show ?thesis
  proof (cases r)
    case (Inl e)
    then show ?thesis using assms p by (simp add: with_record_def and_then_def)
  next
    case (Inr y)
    show ?thesis
    proof (cases "f y")
      case None
      then show ?thesis using assms p Inr that by (simp add: with_record_def and_then_def returns_def)
    next
      case (Some c)
      obtain r2 s2 where q: "record_change env c s1 = (r2, s2)" by fastforce
      then have "r2 = Inr ()" "s2 = s'" "y = x"
        using assms p Inr Some by (auto simp: with_record_def and_then_def returns_def split: sum.splits)
      then show ?thesis
        using that[of s1] p Inr Some q record_change_entry[of env c s1] record_change_forget[of env c s1] by simp
    qed
  qed
qed

lemma with_record_Inl: "p s = (Inl e, s1) \<Longrightarrow> with_record env p f s = (Inl e, s1)"
  by (simp add: with_record_def and_then_def)

lemma with_record_forget: "forget (snd (with_record env p f s)) = forget (snd (p s))"
proof -
  obtain r s1 where p: "p s = (r, s1)" by fastforce
  show ?thesis
  proof (cases r)
    case (Inr y)
    show ?thesis
    proof (cases "f y")
      case (Some c)
      obtain r2 s2 where q: "record_change env c s1 = (r2, s2)" by fastforce
      show ?thesis using p Inr Some q record_change_forget[of env c s1] by (cases r2) (simp_all add: with_record_def and_then_def returns_def)
    qed (simp add: with_record_def and_then_def returns_def p Inr)
  qed (simp add: with_record_def and_then_def p)
qed

text \<open>
  \<open>mirrors env p q\<close>: the audited \<open>p\<close> does to the rows what \<open>q\<close> does, fails when \<open>q\<close> fails, with the same error, and when it succeeds
  returns what \<open>q\<close> returned and adds at most one entry.
\<close>

definition mirrors :: "audit_env \<Rightarrow> 'a op \<Rightarrow> 'a op \<Rightarrow> bool" where
  "mirrors env p q \<longleftrightarrow> (\<forall>s. forget (snd (p s)) = forget (snd (q s)) \<and> (\<forall>e. fst (q s) = Inl e \<longrightarrow> p s = q s) \<and>
     (\<forall>x. fst (p s) = Inr x \<longrightarrow> fst (q s) = Inr x \<and> recorded env (snd (q s)) (snd (p s))))"

lemma with_record_recorded:
  assumes "with_record env p f s = (Inr x, s')"
  shows "fst (p s) = Inr x \<and> recorded env (snd (p s)) s'"
proof (rule with_record_Inr[OF assms])
  fix s1 assume "p s = (Inr x, s1)" "case f x of None \<Rightarrow> s' = s1
    | Some c \<Rightarrow> forget s' = forget s1 \<and> auditLogs s' = auditLogs s1 @ [audit_of env c]"
  then show ?thesis by (cases "f x") (auto simp: recorded_def)
qed

lemma mirrorsI:
  assumes "\<And>s. P s = with_record env (\<lambda>_. q s) (f s) s"
  shows "mirrors env P q"
  unfolding mirrors_def
proof (intro allI conjI impI)
  fix s
  show "forget (snd (P s)) = forget (snd (q s))" unfolding assms by (simp add: with_record_forget)
  fix e assume "fst (q s) = Inl e"
  then show "P s = q s" unfolding assms by (cases "q s") (simp add: with_record_Inl)
next
  fix s x assume "fst (P s) = Inr x"
  then have "with_record env (\<lambda>_. q s) (f s) s = (Inr x, snd (P s))" unfolding assms by (cases "with_record env (\<lambda>_. q s) (f s) s") simp
  from with_record_recorded[OF this] show "fst (q s) = Inr x" "recorded env (snd (q s)) (snd (P s))" by simp_all
qed

text \<open>Looking a member up first lifts the suspensions that have ended.\<close>

definition refreshed :: "audit_env \<Rightarrow> 'a op \<Rightarrow> 'a op" where
  "refreshed env p s = p (lapseBlocks (au_now env) s)"

lemma with_record_const: "with_record env p f s = with_record env (\<lambda>_. p s) f s"
  by (simp add: with_record_def and_then_def)

lemma mirrors_read:
  assumes "\<And>s. P s = with_record env p (f s) s"
  shows "mirrors env P p"
  by (rule mirrorsI) (rule trans[OF assms with_record_const])

lemma mirrors_refreshed:
  assumes "\<And>s. P s = with_record env p (f s) (lapseBlocks (au_now env) s)"
  shows "mirrors env P (refreshed env p)"
proof (rule mirrorsI)
  show "P s = with_record env (\<lambda>_. refreshed env p s) (f s) s" for s
    unfolding assms refreshed_def by (simp add: with_record_def and_then_def)
qed

lemma about_member_lapse: "about_member env i p s = p (mget (memberships (lapseBlocks (au_now env) s)) i) (lapseBlocks (au_now env) s)"
  by (simp add: about_member_def mem_findById_def Let_def)

lemma organizations_mirrored:
  "mirrors env (aud_org_create env a) (org_create (au_now env) a)"
  "mirrors env (aud_org_rename env i t) (org_rename i t)"
  "mirrors env (aud_org_update env i b) (org_update i b)"
  "mirrors env (aud_org_setStatus env i st) (org_setStatus (au_now env) i st)"
  by (rule mirrors_read, simp add: Let_def aud_org_create_def aud_org_rename_def aud_org_update_def aud_org_setStatus_def; fail)+

lemma members_mirrored:
  "mirrors env (aud_mem_create env ok m) (let_through ok (mem_create (au_now env) m))"
  "mirrors env (aud_mem_assignRole env ok i t v) (refreshed env (let_through ok (mem_assignRole (au_now env) i t v)))"
  "mirrors env (aud_mem_assignOwnerRole env ok i t) (refreshed env (let_through ok (mem_assignOwnerRole (au_now env) i t)))"
  "mirrors env (aud_mem_unassignRole env ok i t v) (refreshed env (let_through ok (mem_unassignRole (au_now env) i t v)))"
  "mirrors env (aud_mem_unassignOwnerRole env ok i t) (refreshed env (let_through ok (mem_unassignOwnerRole (au_now env) i t)))"
  "mirrors env (aud_mem_block env ok i bl) (refreshed env (let_through ok (mem_block (au_now env) i bl)))"
  "mirrors env (aud_mem_suspend env ok i bl u) (refreshed env (let_through ok (mem_suspend (au_now env) i bl u)))"
  "mirrors env (aud_mem_unblock env ok i who v) (refreshed env (let_through ok (mem_unblock (au_now env) i v)))"
  "mirrors env (aud_mem_delete env ok i) (refreshed env (let_through ok (mem_delete (au_now env) i)))"
  by (rule mirrors_read mirrors_refreshed, simp add: about_member_lapse aud_mem_create_def aud_mem_assignRole_def aud_mem_assignOwnerRole_def aud_mem_unassignRole_def aud_mem_unassignOwnerRole_def aud_mem_block_def aud_mem_suspend_def aud_mem_unblock_def aud_mem_delete_def; fail)+

lemma roles_mirrored:
  "mirrors env (aud_role_createOwnerRole env i t) (role_createOwnerRole i t)"
  "mirrors env (aud_role_create env ok r) (let_through ok (role_create r))"
  "mirrors env (aud_role_grantPermission env ok i t) (let_through ok (role_grantPermission i t))"
  "mirrors env (aud_role_revokePermission env ok i t) (let_through ok (role_revokePermission i t))"
  "mirrors env (aud_role_rename env ok i t) (let_through ok (role_rename i t))"
  "mirrors env (aud_role_update env ok i ru) (let_through ok (role_update i ru))"
  "mirrors env (aud_role_setPermissions env ok i ts v) (let_through ok (role_setPermissions i ts v))"
  "mirrors env (aud_role_clone env ok i rc) (let_through ok (role_clone i rc))"
  "mirrors env (aud_role_delete env ok i d) (let_through ok (role_delete i d))"
  by (rule mirrors_read, simp add: Let_def aud_role_createOwnerRole_def aud_role_create_def aud_role_grantPermission_def aud_role_revokePermission_def aud_role_rename_def aud_role_update_def aud_role_setPermissions_def aud_role_clone_def aud_role_delete_def; fail)+

lemma catalogs_mirrored:
  "mirrors env (aud_perm_register env pe) (perm_register pe)"
  "mirrors env (aud_perm_unregister env i) (perm_unregister i)"
  "mirrors env (aud_ent_define env en) (ent_define en)"
  "mirrors env (aud_ent_undefine env i) (ent_undefine i)"
  "mirrors env (aud_sg_create env g) (sg_create (au_now env) g)"
  "mirrors env (aud_sg_revoke env i who) (\<lambda>s. case sg_revoke (au_now env) i who s of (r, s') \<Rightarrow> (Inr r, s'))"
  by (rule mirrors_read, simp add: Let_def aud_perm_register_def aud_perm_unregister_def aud_ent_define_def aud_ent_undefine_def aud_sg_create_def aud_sg_revoke_def; fail)+

lemma teams_mirrored:
  "mirrors env (aud_team_create env au tc) (team_create (fst au) (au_now env) (snd au) tc)"
  "mirrors env (aud_team_update env au og i tu) (team_update (fst au) (au_now env) (snd au) og i tu)"
  "mirrors env (aud_team_archive env au og i who w v) (team_archive (fst au) (au_now env) (snd au) og i who w v)"
  "mirrors env (aud_team_restore env au og i who v) (team_restore (fst au) (au_now env) (snd au) og i who v)"
  "mirrors env (aud_team_delete env au og i) (team_delete (fst au) (au_now env) (snd au) og i)"
  "mirrors env (aud_tm_add env au ta) (tm_add (fst au) (au_now env) (snd au) ta)"
  "mirrors env (aud_tm_setStatus env au og i t who w v) (tm_setStatus (fst au) (au_now env) (snd au) og i t who w v)"
  "mirrors env (aud_tm_accept env au og i who v) (tm_accept (fst au) (au_now env) (snd au) og i who v)"
  "mirrors env (aud_tm_setResponsibility env au og i t v) (tm_setResponsibility (fst au) (au_now env) (snd au) og i t v)"
  "mirrors env (aud_tm_assignRole env au og i t v) (tm_assignRole (fst au) (au_now env) (snd au) og i t v)"
  "mirrors env (aud_tm_unassignRole env au og i t v) (tm_unassignRole (fst au) (au_now env) (snd au) og i t v)"
  by (rule mirrors_read, simp add: Let_def aud_team_create_def aud_team_update_def aud_team_archive_def aud_team_restore_def aud_team_delete_def aud_tm_add_def aud_tm_setStatus_def aud_tm_accept_def aud_tm_setResponsibility_def aud_tm_assignRole_def aud_tm_unassignRole_def aud_tm_row_def; fail)+

lemma features_mirrored:
  "mirrors env (aud_features_register env f) (features_register f)"
  "mirrors env (aud_features_unregister env i) (features_unregister i)"
  "mirrors env (aud_features_enable env og i fm) (features_enable (au_now env) og i (given fm))"
  "mirrors env (aud_features_disable env og i fm) (features_disable (au_now env) og i (given fm))"
  "mirrors env (aud_features_setMany env og cs fm) (features_setMany (au_now env) og cs (given fm))"
  "mirrors env (aud_features_disableEverywhere env i fm) (features_disableEverywhere (au_now env) i (given fm))"
  by (rule mirrors_read, simp add: Let_def aud_features_register_def aud_features_unregister_def aud_features_enable_def aud_features_disable_def aud_features_setMany_def aud_features_disableEverywhere_def; fail)+

end
