(* ===== verification/AccessPower.thy ===== *)
theory AccessPower
  imports Engine
begin

text \<open>
  What a party holds, compared as sets of permissions: \<open>packages/core/src/access/power.ts\<close>.

  A JavaScript \<open>Set\<close> is a list without repeats in the order of insertion.  The lemmas show that holding a permission here is
  being allowed it by the engine, so the rules of the access service compare what the engine would answer.
\<close>

section \<open>Holdings and needs\<close>

record holdings =
  ho_owner :: bool
  ho_keys :: "string list"

record needs =
  ne_owner :: bool
  ne_keys :: "string list"

definition NO_HOLDINGS :: holdings where
  "NO_HOLDINGS = \<lparr> ho_owner = False, ho_keys = [] \<rparr>"

definition rolesOf :: "store \<Rightarrow> membership \<Rightarrow> role list" where
  "rolesOf s m =
     (if m_roleIds m = [] then []
      else filter (\<lambda>r. r_organizationId r = m_organizationId m) (role_findByIds s (m_roleIds m)))"

definition keys_of_roles :: "role list \<Rightarrow> string list" where
  "keys_of_roles rs = fold (\<lambda>r keys. fold set_add (r_permissionKeys r) keys) rs []"

definition needsOfRoles :: "role list \<Rightarrow> needs" where
  "needsOfRoles rs = \<lparr> ne_owner = list_ex r_isOwnerRole rs, ne_keys = keys_of_roles rs \<rparr>"

definition needsOfMembership :: "store \<Rightarrow> membership \<Rightarrow> needs" where
  "needsOfMembership s m = needsOfRoles (rolesOf s m)"

definition needsOfRole :: "role \<Rightarrow> needs" where
  "needsOfRole r = \<lparr> ne_owner = r_isOwnerRole r, ne_keys = r_permissionKeys r \<rparr>"

definition joinNeeds :: "needs \<Rightarrow> needs \<Rightarrow> needs" where
  "joinNeeds a b = \<lparr> ne_owner = (ne_owner a \<or> ne_owner b), ne_keys = uniq (ne_keys a @ ne_keys b) \<rparr>"

definition holdingsOf :: "timestamp \<Rightarrow> string \<Rightarrow> identity \<Rightarrow> store \<Rightarrow> holdings \<times> store" where
  "holdingsOf now og i s0 =
     (case org_findById s0 og of
        None \<Rightarrow> (NO_HOLDINGS, s0)
      | Some org \<Rightarrow>
          if o_status org \<noteq> OActive then (NO_HOLDINGS, s0)
          else
            let (found, s) = mem_findByIdentity now og i s0 in
            if (case found of None \<Rightarrow> False | Some m \<Rightarrow> m_status m \<noteq> MActive) then (NO_HOLDINGS, s)
            else
              let rs = (case found of None \<Rightarrow> [] | Some m \<Rightarrow> rolesOf s m);
                  keys = fold set_add (sg_activePermissions s og (grantIdentities s i) now) (keys_of_roles rs)
              in (if list_ex r_isOwnerRole rs then \<lparr> ho_owner = True, ho_keys = keys \<rparr>
                  else \<lparr> ho_owner = False, ho_keys = (if keys = [] then [] else perm_expand s keys) \<rparr>, s))"

definition covers :: "holdings \<Rightarrow> needs \<Rightarrow> bool" where
  "covers holder n \<longleftrightarrow> ho_owner holder \<or> (\<not> ne_owner n \<and> list_all (\<lambda>key. key \<in> set (ho_keys holder)) (ne_keys n))"

definition isSameMember :: "timestamp \<Rightarrow> identity \<Rightarrow> membership \<Rightarrow> store \<Rightarrow> bool \<times> store" where
  "isSameMember now i m s =
     (let (mine, s1) = mem_findByIdentity now (m_organizationId m) i s
      in (case mine of None \<Rightarrow> False | Some x \<Rightarrow> m_id x = m_id m, s1))"

section \<open>What holding means\<close>

text \<open>The question the engine is asked about the whole organization, and the engine without its stricter option for Owners.\<close>

definition ask :: "string \<Rightarrow> identity \<Rightarrow> string \<Rightarrow> can_input" where
  "ask og i p = \<lparr> ci_identity = i, ci_organizationId = og, ci_permission = p, ci_teamId = None \<rparr>"

definition plain :: engine_options where
  "plain = \<lparr> ownerRequiresRegisteredPermission = False \<rparr>"

lemma ask_simps [simp]:
  "ci_identity (ask og i p) = i" "ci_organizationId (ask og i p) = og" "ci_permission (ask og i p) = p" "ci_teamId (ask og i p) = None"
  by (simp_all add: ask_def)

lemma plain_simps [simp]: "\<not> ownerRequiresRegisteredPermission plain"
  by (simp add: plain_def)

definition has_key :: "holdings \<Rightarrow> string \<Rightarrow> bool" where
  "has_key h p \<longleftrightarrow> covers h \<lparr> ne_owner = False, ne_keys = [p] \<rparr>"

lemma has_key_iff: "has_key h p \<longleftrightarrow> ho_owner h \<or> p \<in> set (ho_keys h)"
  by (simp add: has_key_def covers_def)

lemma covers_iff: "covers h n \<longleftrightarrow> (ne_owner n \<longrightarrow> ho_owner h) \<and> (\<forall>p \<in> set (ne_keys n). has_key h p)"
  by (auto simp: covers_def has_key_iff list_all_iff)

lemma fold_keys: "set (fold (\<lambda>r keys. fold set_add (r_permissionKeys r) keys) rs acc) = (\<Union>r \<in> set rs. set (r_permissionKeys r)) \<union> set acc"
  by (induction rs arbitrary: acc) auto

lemma keys_of_roles_set [simp]: "set (keys_of_roles rs) = (\<Union>r \<in> set rs. set (r_permissionKeys r))"
  by (simp add: keys_of_roles_def fold_keys)

lemma rolesOf_set: "set (rolesOf s m) = {r. r_organizationId r = m_organizationId m \<and> (\<exists>rid \<in> set (m_roleIds m). mget (roles s) rid = Some r)}"
  by (auto simp: rolesOf_def role_findByIds_def List.map_filter_def intro: rev_image_eqI)

lemma holdingsOf_cases:
  assumes "mem_findByIdentity now og i s = (found, s1)"
  shows "holdingsOf now og i s =
    (if \<not> organizationIsActive s og then (NO_HOLDINGS, s)
     else if \<exists>m. found = Some m \<and> m_status m \<noteq> MActive then (NO_HOLDINGS, lapseBlocks now s)
     else
       (let rs = (case found of None \<Rightarrow> [] | Some m \<Rightarrow> rolesOf s m);
            keys = fold set_add (sg_activePermissions s og (grantIdentities s i) now) (keys_of_roles rs)
        in (if list_ex r_isOwnerRole rs then \<lparr> ho_owner = True, ho_keys = keys \<rparr>
            else \<lparr> ho_owner = False, ho_keys = (if keys = [] then [] else perm_expand s keys) \<rparr>, lapseBlocks now s)))"
proof -
  have s1: "s1 = lapseBlocks now s" using mem_find_store[of now og i s] assms by simp
  have v: "rolesOf (lapseBlocks now s) m = rolesOf s m" "perm_expand (lapseBlocks now s) ks = perm_expand s ks" for m ks
    by (simp_all add: rolesOf_def role_findByIds_def perm_expand_def)
  show ?thesis
    by (cases "org_findById s og"; cases found)
      (simp_all add: holdingsOf_def organizationIsActive_def assms s1 v Let_def cong: if_cong)
qed

lemma holdingsOf_store: "snd (holdingsOf now og i s) = (if organizationIsActive s og then lapseBlocks now s else s)"
  by (cases "mem_findByIdentity now og i s") (simp add: holdingsOf_cases Let_def)

text \<open>What somebody may do according to roles and support grants, whatever the syntax of the key.\<close>

definition may_hold :: "timestamp \<Rightarrow> string \<Rightarrow> identity \<Rightarrow> store \<Rightarrow> string \<Rightarrow> bool" where
  "may_hold now og i s p \<longleftrightarrow>
     (let found = fst (mem_findByIdentity now og i s) in
      organizationIsActive s og \<and> (\<forall>m. found = Some m \<longrightarrow> m_status m = MActive) \<and>
      ((\<exists>m rid. found = Some m \<and> rid \<in> set (m_roleIds m) \<and> grants plain s og p rid) \<or>
       (\<exists>g \<in> set (mvals (supportGrants s)). gives og [i, resolve s i] now g \<and> (\<exists>k \<in> set (g_permissions g). (k, p) \<in> (implied s)\<^sup>*))))"

lemma may_iff_hold: "may plain now (ask og i p) s \<longleftrightarrow> is_ok (assertValidPermissionKey p) \<and> may_hold now og i s p"
  by (simp add: may_def may_hold_def Let_def organizationIsActive_iff valid_key_self)

lemma expand_image: "perms_wf s \<Longrightarrow> set (perm_expand s keys) = (implied s)\<^sup>* `` set keys"
  by (simp add: perms_wf_def perm_expand_def expandClosure_set graph_edges)

lemma grants_plain:
  "grants plain s og p rid \<longleftrightarrow> (\<exists>r. mget (roles s) rid = Some r \<and> r_organizationId r = og \<and>
     (r_isOwnerRole r \<or> (\<exists>k \<in> set (r_permissionKeys r). (k, p) \<in> (implied s)\<^sup>*)))"
  by (auto simp: grants_def)

lemma grant_keys: "set (sg_activePermissions s og (grantIdentities s i) now) =
    (\<Union>g \<in> {g \<in> set (mvals (supportGrants s)). gives og [i, resolve s i] now g}. set (g_permissions g))"
proof -
  have ids: "set (grantIdentities s i) = {i, resolve s i}"
    by (auto simp: grantIdentities_def Let_def intro: identity.equality)
  have "gives og (grantIdentities s i) now = gives og [i, resolve s i] now"
    by (rule ext) (simp add: gives_def ids)
  then show ?thesis by (simp add: activePermissions_set)
qed

text \<open>The keys of the Owner are not expanded: covering is decided by the flag.\<close>

lemma holdings_held:
  assumes wf: "perms_wf s"
  shows "has_key (fst (holdingsOf now og i s)) p \<longleftrightarrow> may_hold now og i s p"
proof -
  obtain found s1 where f: "mem_findByIdentity now og i s = (found, s1)" by fastforce
  show ?thesis
  proof (cases "organizationIsActive s og \<and> (\<forall>m. found = Some m \<longrightarrow> m_status m = MActive)")
    case False
    then show ?thesis by (auto simp: holdingsOf_cases[OF f] may_hold_def f has_key_iff NO_HOLDINGS_def)
  next
    case True
    define rs where "rs = (case found of None \<Rightarrow> [] | Some m \<Rightarrow> rolesOf s m)"
    define keys where "keys = fold set_add (sg_activePermissions s og (grantIdentities s i) now) (keys_of_roles rs)"
    have "m_organizationId m = og" if "found = Some m" for m
      using f that by (auto simp: mem_findByIdentity_def Let_def find_Some_iff)
    then have rs: "r \<in> set rs \<longleftrightarrow> (\<exists>m rid. found = Some m \<and> rid \<in> set (m_roleIds m) \<and> mget (roles s) rid = Some r \<and> r_organizationId r = og)" for r
      by (cases found) (auto simp: rs_def rolesOf_set)
    have keys: "set keys = (\<Union>r \<in> set rs. set (r_permissionKeys r)) \<union>
        (\<Union>g \<in> {g \<in> set (mvals (supportGrants s)). gives og [i, resolve s i] now g}. set (g_permissions g))"
      by (auto simp: keys_def grant_keys)
    have "set (if keys = [] then [] else perm_expand s keys) = (implied s)\<^sup>* `` set keys"
      using expand_image[OF wf, of keys] by (cases "keys = []") simp_all
    then have key: "p \<in> set (if keys = [] then [] else perm_expand s keys) \<longleftrightarrow> (\<exists>k \<in> set keys. (k, p) \<in> (implied s)\<^sup>*)"
      by auto
    have "fst (holdingsOf now og i s) = (if list_ex r_isOwnerRole rs then \<lparr> ho_owner = True, ho_keys = keys \<rparr>
        else \<lparr> ho_owner = False, ho_keys = (if keys = [] then [] else perm_expand s keys) \<rparr>)"
      using True unfolding holdingsOf_cases[OF f] Let_def rs_def[symmetric] keys_def[symmetric] by auto
    then have "has_key (fst (holdingsOf now og i s)) p \<longleftrightarrow> (\<exists>r \<in> set rs. r_isOwnerRole r) \<or> (\<exists>k \<in> set keys. (k, p) \<in> (implied s)\<^sup>*)"
      using key by (cases "list_ex r_isOwnerRole rs") (auto simp: has_key_iff list_ex_iff)
    also have "\<dots> \<longleftrightarrow> (\<exists>r \<in> set rs. r_isOwnerRole r \<or> (\<exists>k \<in> set (r_permissionKeys r). (k, p) \<in> (implied s)\<^sup>*)) \<or>
        (\<exists>g \<in> set (mvals (supportGrants s)). gives og [i, resolve s i] now g \<and> (\<exists>k \<in> set (g_permissions g). (k, p) \<in> (implied s)\<^sup>*))"
      unfolding keys by blast
    also have "(\<exists>r \<in> set rs. r_isOwnerRole r \<or> (\<exists>k \<in> set (r_permissionKeys r). (k, p) \<in> (implied s)\<^sup>*)) \<longleftrightarrow>
        (\<exists>m rid. found = Some m \<and> rid \<in> set (m_roleIds m) \<and> grants plain s og p rid)"
      unfolding grants_plain Bex_def rs by blast
    also have "((\<exists>m rid. found = Some m \<and> rid \<in> set (m_roleIds m) \<and> grants plain s og p rid) \<or>
        (\<exists>g \<in> set (mvals (supportGrants s)). gives og [i, resolve s i] now g \<and> (\<exists>k \<in> set (g_permissions g). (k, p) \<in> (implied s)\<^sup>*))) \<longleftrightarrow>
        may_hold now og i s p"
      unfolding may_hold_def f fst_conv Let_def using True by simp
    finally show ?thesis .
  qed
qed

text \<open>
  C11: what somebody holds is what the engine allows them.  The holdings the rules of the access service compare contain a
  well-formed permission key exactly when the engine (without its stricter option for Owners) allows it in that organization.
\<close>

theorem holdings_exact:
  assumes "perms_wf s" "isWellFormedPermissionKey p"
  shows "covers (fst (holdingsOf now og i s)) \<lparr> ne_owner = False, ne_keys = [p] \<rparr> = fst (fst (engine_can plain now (ask og i p) s))"
proof -
  have "is_ok (assertValidPermissionKey p)" using assms(2) by (simp add: isWellFormedPermissionKey_def)
  then have "fst (fst (engine_can plain now (ask og i p) s)) = may_hold now og i s p"
    using decideCan_spec[OF assms(1), of plain now "ask og i p"] may_iff_hold by (simp add: engine_can_def case_prod_unfold Let_def)
  then show ?thesis using holdings_held[OF assms(1), of now og i p] by (simp add: has_key_def)
qed

theorem holdings_exact_witness:
  "covers (fst (holdingsOf 9 ''o1'' (ident ''clerk'' ''2'') demo_engine_store)) \<lparr> ne_owner = False, ne_keys = [''a.read''] \<rparr> =
    fst (fst (engine_can plain 9 (ask ''o1'' (ident ''clerk'' ''2'') ''a.read'') demo_engine_store))"
proof (rule holdings_exact[OF demo_engine_wf(1)])
  show "isWellFormedPermissionKey ''a.read''" by code_simp
qed

end
