(* ===== verification/AccessService.thy ===== *)
theory AccessService
  imports AccessGuard Audited AccessPower
begin

text \<open>
  Who may give which power to whom: \<open>packages/core/src/access/service.ts\<close> with \<open>access/permissions.ts\<close>,
  \<open>access/errors.ts\<close> and \<open>access/refusal.ts\<close>.

  A command is one step over the rows and the registry of tokens: the advisory lock queues the commands of an
  organization, and the in-memory transaction undoes nothing.  The clock is read once.  The holdings of the actor are
  computed at the first rule that needs them and remembered, as the code does.
\<close>

section \<open>Settings\<close>

record access_permission_keys =
  ak_membersRoles :: string
  ak_membersInvite :: string
  ak_membersBlock :: string
  ak_membersRemove :: string
  ak_rolesManage :: string

definition ACCESS_PERMISSIONS :: access_permission_keys where
  "ACCESS_PERMISSIONS = \<lparr> ak_membersRoles = ''members.roles.manage'', ak_membersInvite = ''members.invite'',
     ak_membersBlock = ''members.block'', ak_membersRemove = ''members.remove'', ak_rolesManage = ''roles.manage'' \<rparr>"

definition ACCESS_RULE_REFUSALS :: "string list" where
  "ACCESS_RULE_REFUSALS = [''access_self_change'', ''access_escalation'', ''access_target_stronger'', ''access_owner_protected'']"

text \<open>The clock, the digest, the random ids of one command, the options of the service, and whether its storage is guarded.\<close>

record access_env =
  ae_hash :: "string \<Rightarrow> string"
  ae_now :: timestamp
  ae_auditId :: string
  ae_eventId :: string
  ae_refusalId :: string
  ae_randomId :: string
  ae_outbox :: bool
  ae_engine :: engine_options
  ae_keys :: access_permission_keys
  ae_guarded :: bool

record access_actor =
  aa_actor :: identity
  aa_organizationId :: string

definition audit_env_of :: "access_env \<Rightarrow> identity \<Rightarrow> audit_env" where
  "audit_env_of env actor = \<lparr> au_hash = ae_hash env, au_now = ae_now env, au_actor = actor, au_auditId = ae_auditId env,
     au_eventId = ae_eventId env, au_outbox = ae_outbox env \<rparr>"

definition createAccessAdminService :: "access_env \<Rightarrow> bool \<Rightarrow> uerror + unit" where
  "createAccessAdminService env allowUnguardedStorage =
     (if \<not> ae_guarded env \<and> \<not> allowUnguardedStorage then Inl (accessErr ''access_storage_not_guarded'') else Inr ())"

definition assertText :: "string \<Rightarrow> uerror + string" where
  "assertText v = (if v = [] \<or> length v > 2000 then Inl (accessErr ''access_invalid'') else Inr v)"

definition assertActor :: "access_actor \<Rightarrow> uerror + unit" where
  "assertActor who =
     bindr (assertText (aa_organizationId who)) (\<lambda>_.
       if provider (aa_actor who) = [] \<or> subject (aa_actor who) = [] then Inl (accessErr ''access_invalid'') else Inr ())"

section \<open>Steps of a command\<close>

definition a_then :: "'a access_op \<Rightarrow> ('a \<Rightarrow> 'b access_op) \<Rightarrow> 'b access_op" where
  "a_then p k st = (case p st of (Inl e, st') \<Rightarrow> (Inl e, st') | (Inr x, st') \<Rightarrow> k x st')"

definition a_check :: "uerror + 'a \<Rightarrow> 'a access_op" where
  "a_check r st = (r, st)"

definition a_store :: "'a op \<Rightarrow> 'a access_op" where
  "a_store p st = (let (r, s) = p (as_store st) in (r, st \<lparr> as_store := s \<rparr>))"

definition a_read :: "(store \<Rightarrow> 'a \<times> store) \<Rightarrow> 'a access_op" where
  "a_read p = a_store (\<lambda>s. let (x, s') = p s in (Inr x, s'))"

text \<open>A guarded write through the audited view, with a token for \<open>binding\<close> (the service's own idea of the write).\<close>

definition a_guarded :: "access_env \<Rightarrow> access_actor \<Rightarrow> access_binding \<Rightarrow> guarded_write \<Rightarrow> (guard_result \<Rightarrow> 'a op) \<Rightarrow> 'a access_op" where
  "a_guarded env who binding w call st =
     (let (n, issued) = issueAccessAuthorization (aa_actor who) binding False (ae_now env) (as_tokens st);
          (ok, issued') = (if ae_guarded env then guard_verdict (ae_now env) (Some n) w issued else (Inr (), issued));
          (r, s) = call ok (as_store st)
      in (r, \<lparr> as_store = s, as_tokens = issued' \<rparr>))"

definition recordAccessRefusal :: "access_env \<Rightarrow> uerror \<Rightarrow> access_actor \<Rightarrow> string \<Rightarrow> string \<times> string \<Rightarrow> store \<Rightarrow> store" where
  "recordAccessRefusal env e who operation target s =
     (case e of
        UError EAccess c \<Rightarrow>
          if c \<in> set ACCESS_RULE_REFUSALS
          then snd (audit_record (ae_hash env) (ae_now env)
            \<lparr> ai_id = ''audit:'' @ ae_refusalId env, ai_organizationId = Some (aa_organizationId who), ai_actor = aa_actor who,
              ai_action = ''access.change_refused'', ai_target = Some \<lparr> at_type = fst target, at_id = snd target \<rparr>,
              ai_metadata = Some (JObj [(''operation'', JStr operation), (''code'', JStr c)]) \<rparr> s)
          else s
      | _ \<Rightarrow> s)"

definition access_write :: "access_env \<Rightarrow> access_actor \<Rightarrow> string \<Rightarrow> string \<Rightarrow> string \<times> string \<Rightarrow> 'a access_op \<Rightarrow> 'a access_op" where
  "access_write env who permission operation target work st =
     (case assertActor who of
        Inl e \<Rightarrow> (Inl e, st)
      | Inr _ \<Rightarrow>
          (let ((allowed, _), s1) = engine_can (ae_engine env) (ae_now env) (ask (aa_organizationId who) (aa_actor who) permission) (as_store st);
               (r, st2) = (if allowed then work (st \<lparr> as_store := s1 \<rparr>) else (Inl (accessErr ''access_forbidden''), st \<lparr> as_store := s1 \<rparr>))
           in case r of
                Inr x \<Rightarrow> (Inr x, st2)
              | Inl e \<Rightarrow> (Inl e, st2 \<lparr> as_store := recordAccessRefusal env e who operation target (as_store st2) \<rparr>)))"

definition memberOf :: "access_env \<Rightarrow> access_actor \<Rightarrow> string \<Rightarrow> membership access_op" where
  "memberOf env who membershipId =
     a_then (a_check (assertText membershipId)) (\<lambda>i.
     a_then (a_read (mem_findById (ae_now env) i)) (\<lambda>found.
       a_check (case found of
          None \<Rightarrow> Inl (UError EMembership ''membership_not_found'')
        | Some m \<Rightarrow> if m_organizationId m \<noteq> aa_organizationId who then Inl (UError EMembership ''membership_not_found'') else Inr m)))"

definition roleOf :: "access_actor \<Rightarrow> string \<Rightarrow> role access_op" where
  "roleOf who roleId =
     a_then (a_check (assertText roleId)) (\<lambda>i.
     a_then (a_read (\<lambda>s. (role_findByIds s [i], s))) (\<lambda>found.
       a_check (case found of
          [] \<Rightarrow> Inl (UError ERole ''role_not_found'')
        | r # _ \<Rightarrow> if r_organizationId r \<noteq> aa_organizationId who then Inl (UError ERole ''role_not_found'') else Inr r)))"

definition assertRegistered :: "string list \<Rightarrow> unit access_op" where
  "assertRegistered keys =
     a_then (a_read (\<lambda>s. (list_all (\<lambda>key. key = [] \<or> perm_findByKey s key \<noteq> None) (uniq keys), s))) (\<lambda>known.
       a_check (if known then Inr () else Inl (UError EPermission ''permission_not_found'')))"

definition a_holdings :: "access_env \<Rightarrow> access_actor \<Rightarrow> holdings access_op" where
  "a_holdings env who = a_read (holdingsOf (ae_now env) (aa_organizationId who) (aa_actor who))"

definition assertHolds :: "holdings \<Rightarrow> needs \<Rightarrow> unit access_op" where
  "assertHolds mine n = a_check (if covers mine n then Inr () else Inl (accessErr ''access_escalation''))"

definition assertCanTouchMember :: "access_env \<Rightarrow> access_actor \<Rightarrow> membership \<Rightarrow> holdings access_op" where
  "assertCanTouchMember env who target =
     a_then (a_read (isSameMember (ae_now env) (aa_actor who) target)) (\<lambda>same.
     a_then (a_check (if same then Inl (accessErr ''access_self_change'') else Inr ())) (\<lambda>_.
     a_then (a_holdings env who) (\<lambda>mine.
     a_then (a_read (\<lambda>s. (needsOfMembership s target, s))) (\<lambda>n.
       a_check (if covers mine n then Inr mine else Inl (accessErr ''access_target_stronger''))))))"

definition assertCanTouchRole :: "access_env \<Rightarrow> access_actor \<Rightarrow> role \<Rightarrow> holdings access_op" where
  "assertCanTouchRole env who r =
     a_then (a_holdings env who) (\<lambda>mine.
       a_check (if covers mine (needsOfRole r) then Inr mine else Inl (accessErr ''access_target_stronger'')))"

definition assertRegular :: "role \<Rightarrow> unit access_op" where
  "assertRegular r = a_check (if r_isOwnerRole r then Inl (accessErr ''access_owner_protected'') else Inr ())"

definition reload :: "access_env \<Rightarrow> string \<Rightarrow> membership option access_op" where
  "reload env i = a_read (mem_findById (ae_now env) i)"

definition reloadRole :: "string \<Rightarrow> role option access_op" where
  "reloadRole i = a_read (\<lambda>s. (case role_findByIds s [i] of [] \<Rightarrow> None | r # _ \<Rightarrow> Some r, s))"

section \<open>Commands about members\<close>

definition member_target :: "string \<Rightarrow> string \<times> string" where
  "member_target i = (''membership'', i)"

definition role_target :: "string \<Rightarrow> string \<times> string" where
  "role_target i = (''role'', i)"

definition ac_assignRole :: "access_env \<Rightarrow> access_actor \<Rightarrow> string \<Rightarrow> string \<Rightarrow> int option \<Rightarrow> membership option access_op" where
  "ac_assignRole env who membershipId roleId expected =
     access_write env who (ak_membersRoles (ae_keys env)) ''assignRole'' (member_target membershipId)
       (a_then (memberOf env who membershipId) (\<lambda>target.
        a_then (roleOf who roleId) (\<lambda>r.
        a_then (assertRegular r) (\<lambda>_.
        a_then (assertCanTouchMember env who target) (\<lambda>mine.
        a_then (assertHolds mine (needsOfRole r)) (\<lambda>_.
        a_then (a_guarded env who (bound OpMemberRoleAssign (m_id target) (r_id r)) (WAssignRole (m_id target) (r_id r) expected)
          (\<lambda>ok. aud_mem_assignRole (audit_env_of env (aa_actor who)) ok (m_id target) (r_id r) expected)) (\<lambda>_.
          reload env (m_id target))))))))"

definition ac_unassignRole :: "access_env \<Rightarrow> access_actor \<Rightarrow> string \<Rightarrow> string \<Rightarrow> int option \<Rightarrow> membership option access_op" where
  "ac_unassignRole env who membershipId roleId expected =
     access_write env who (ak_membersRoles (ae_keys env)) ''unassignRole'' (member_target membershipId)
       (a_then (memberOf env who membershipId) (\<lambda>target.
        a_then (roleOf who roleId) (\<lambda>r.
        a_then (assertRegular r) (\<lambda>_.
        a_then (assertCanTouchMember env who target) (\<lambda>_.
        a_then (a_guarded env who (bound OpMemberRoleUnassign (m_id target) (r_id r)) (WUnassignRole (m_id target) (r_id r) expected)
          (\<lambda>ok. aud_mem_unassignRole (audit_env_of env (aa_actor who)) ok (m_id target) (r_id r) expected)) (\<lambda>_.
          reload env (m_id target)))))))"

definition block_of :: "access_actor \<Rightarrow> string option \<Rightarrow> int option \<Rightarrow> block_input" where
  "block_of who reason expected = \<lparr> bi_actor = aa_actor who, bi_reason = reason, bi_expectedVersion = expected \<rparr>"

definition ac_blockMember :: "access_env \<Rightarrow> access_actor \<Rightarrow> string \<Rightarrow> string option \<Rightarrow> int option \<Rightarrow> membership access_op" where
  "ac_blockMember env who membershipId reason expected =
     access_write env who (ak_membersBlock (ae_keys env)) ''blockMember'' (member_target membershipId)
       (a_then (memberOf env who membershipId) (\<lambda>target.
        a_then (assertCanTouchMember env who target) (\<lambda>_.
          a_guarded env who (bound OpMemberStatus (m_id target) ''block'') (WBlock (m_id target) (block_of who reason expected))
            (\<lambda>ok. aud_mem_block (audit_env_of env (aa_actor who)) ok (m_id target) (block_of who reason expected)))))"

definition ac_suspendMember ::
  "access_env \<Rightarrow> access_actor \<Rightarrow> string \<Rightarrow> date_in \<Rightarrow> string option \<Rightarrow> int option \<Rightarrow> membership access_op" where
  "ac_suspendMember env who membershipId until reason expected =
     access_write env who (ak_membersBlock (ae_keys env)) ''suspendMember'' (member_target membershipId)
       (a_then (memberOf env who membershipId) (\<lambda>target.
        a_then (assertCanTouchMember env who target) (\<lambda>_.
          a_guarded env who (bound OpMemberStatus (m_id target) ''suspend'') (WSuspend (m_id target) (block_of who reason expected) (Some until))
            (\<lambda>ok. aud_mem_suspend (audit_env_of env (aa_actor who)) ok (m_id target) (block_of who reason expected) (Some until)))))"

definition ac_unblockMember :: "access_env \<Rightarrow> access_actor \<Rightarrow> string \<Rightarrow> int option \<Rightarrow> membership access_op" where
  "ac_unblockMember env who membershipId expected =
     access_write env who (ak_membersBlock (ae_keys env)) ''unblockMember'' (member_target membershipId)
       (a_then (memberOf env who membershipId) (\<lambda>target.
        a_then (assertCanTouchMember env who target) (\<lambda>_.
          a_guarded env who (bound OpMemberStatus (m_id target) ''unblock'') (WUnblock (m_id target) (aa_actor who) expected)
            (\<lambda>ok. aud_mem_unblock (audit_env_of env (aa_actor who)) ok (m_id target) (aa_actor who) expected))))"

definition ac_removeMember :: "access_env \<Rightarrow> access_actor \<Rightarrow> string \<Rightarrow> unit access_op" where
  "ac_removeMember env who membershipId =
     access_write env who (ak_membersRemove (ae_keys env)) ''removeMember'' (member_target membershipId)
       (a_then (memberOf env who membershipId) (\<lambda>target.
        a_then (assertCanTouchMember env who target) (\<lambda>_.
          a_guarded env who \<lparr> ab_operation = OpMemberDelete, ab_target = m_id target, ab_detail = None, ab_organizationId = None \<rparr>
            (WMemberDelete (m_id target))
            (\<lambda>ok. aud_mem_delete (audit_env_of env (aa_actor who)) ok (m_id target)))))"

section \<open>Commands about roles\<close>

record create_role_command =
  kr_id :: "string option"
  kr_name :: string
  kr_key :: "string option"
  kr_description :: "string option"
  kr_permissionKeys :: "string list option"

definition keys_needed :: "string list \<Rightarrow> needs" where
  "keys_needed keys = \<lparr> ne_owner = False, ne_keys = keys \<rparr>"

definition ac_createRole :: "access_env \<Rightarrow> access_actor \<Rightarrow> create_role_command \<Rightarrow> role access_op" where
  "ac_createRole env who input =
     (let i = (case kr_id input of None \<Rightarrow> ae_randomId env | Some i \<Rightarrow> i);
          keys = (case kr_permissionKeys input of None \<Rightarrow> [] | Some ks \<Rightarrow> ks);
          row = \<lparr> cr_id = i, cr_organizationId = aa_organizationId who, cr_name = kr_name input, cr_key = kr_key input,
                  cr_permissionKeys = kr_permissionKeys input, cr_description = kr_description input, cr_isSystem = False \<rparr>
      in access_write env who (ak_rolesManage (ae_keys env)) ''createRole'' (role_target i)
           (a_then (assertRegistered keys) (\<lambda>_.
            a_then (a_holdings env who) (\<lambda>mine.
            a_then (assertHolds mine (keys_needed keys)) (\<lambda>_.
              a_guarded env who (bound_in OpRoleCreate i (accessSet (kr_permissionKeys input)) (aa_organizationId who)) (WRoleCreate row)
                (\<lambda>ok. aud_role_create (audit_env_of env (aa_actor who)) ok row))))))"

definition ac_updateRole :: "access_env \<Rightarrow> access_actor \<Rightarrow> string \<Rightarrow> update_role \<Rightarrow> role access_op" where
  "ac_updateRole env who roleId input =
     access_write env who (ak_rolesManage (ae_keys env)) ''updateRole'' (role_target roleId)
       (a_then (roleOf who roleId) (\<lambda>r.
        a_then (assertRegular r) (\<lambda>_.
        a_then (assertCanTouchRole env who r) (\<lambda>_.
          a_guarded env who (bound OpRoleEdit (r_id r) ''update'') (WRoleUpdate (r_id r) input)
            (\<lambda>ok. aud_role_update (audit_env_of env (aa_actor who)) ok (r_id r) input)))))"

definition ac_setRolePermissions ::
  "access_env \<Rightarrow> access_actor \<Rightarrow> string \<Rightarrow> string list \<Rightarrow> int option \<Rightarrow> (string list \<times> string list) access_op" where
  "ac_setRolePermissions env who roleId keys expected =
     access_write env who (ak_rolesManage (ae_keys env)) ''setRolePermissions'' (role_target roleId)
       (a_then (roleOf who roleId) (\<lambda>r.
        a_then (assertRegular r) (\<lambda>_.
        a_then (assertCanTouchRole env who r) (\<lambda>mine.
        a_then (assertRegistered keys) (\<lambda>_.
        a_then (assertHolds mine (joinNeeds (needsOfRole r) (keys_needed keys))) (\<lambda>_.
          a_guarded env who (bound OpRolePermissions (r_id r) (''set:'' @ accessSet (Some keys))) (WSetPermissions (r_id r) keys expected)
            (\<lambda>ok. aud_role_setPermissions (audit_env_of env (aa_actor who)) ok (r_id r) keys expected)))))))"

definition ac_grantRolePermission :: "access_env \<Rightarrow> access_actor \<Rightarrow> string \<Rightarrow> string \<Rightarrow> role option access_op" where
  "ac_grantRolePermission env who roleId key =
     access_write env who (ak_rolesManage (ae_keys env)) ''grantRolePermission'' (role_target roleId)
       (a_then (roleOf who roleId) (\<lambda>r.
        a_then (assertRegular r) (\<lambda>_.
        a_then (assertCanTouchRole env who r) (\<lambda>mine.
        a_then (assertRegistered [key]) (\<lambda>_.
        a_then (assertHolds mine (keys_needed [key])) (\<lambda>_.
        a_then (a_guarded env who (bound OpRolePermissions (r_id r) (''grant:'' @ key)) (WGrantPermission (r_id r) key)
          (\<lambda>ok. aud_role_grantPermission (audit_env_of env (aa_actor who)) ok (r_id r) key)) (\<lambda>_.
          reloadRole (r_id r))))))))"

definition ac_revokeRolePermission :: "access_env \<Rightarrow> access_actor \<Rightarrow> string \<Rightarrow> string \<Rightarrow> role option access_op" where
  "ac_revokeRolePermission env who roleId key =
     access_write env who (ak_rolesManage (ae_keys env)) ''revokeRolePermission'' (role_target roleId)
       (a_then (roleOf who roleId) (\<lambda>r.
        a_then (assertRegular r) (\<lambda>_.
        a_then (assertCanTouchRole env who r) (\<lambda>_.
        a_then (a_guarded env who (bound OpRolePermissions (r_id r) (''revoke:'' @ key)) (WRevokePermission (r_id r) key)
          (\<lambda>ok. aud_role_revokePermission (audit_env_of env (aa_actor who)) ok (r_id r) key)) (\<lambda>_.
          reloadRole (r_id r))))))"

record clone_role_command =
  kc_id :: "string option"
  kc_name :: string
  kc_key :: "string option"
  kc_description :: "string option"

definition ac_cloneRole :: "access_env \<Rightarrow> access_actor \<Rightarrow> string \<Rightarrow> clone_role_command \<Rightarrow> role access_op" where
  "ac_cloneRole env who roleId input =
     (let i = (case kc_id input of None \<Rightarrow> ae_randomId env | Some i \<Rightarrow> i);
          row = \<lparr> cl_id = i, cl_name = kc_name input, cl_key = kc_key input, cl_organizationId = Some (aa_organizationId who),
                  cl_description = kc_description input \<rparr>
      in access_write env who (ak_rolesManage (ae_keys env)) ''cloneRole'' (role_target i)
           (a_then (roleOf who roleId) (\<lambda>source.
            a_then (assertRegular source) (\<lambda>_.
            a_then (a_holdings env who) (\<lambda>mine.
            a_then (assertHolds mine (needsOfRole source)) (\<lambda>_.
              a_guarded env who (bound_in OpRoleCreate i (''clone:'' @ r_id source) (aa_organizationId who)) (WRoleClone (r_id source) row)
                (\<lambda>ok. aud_role_clone (audit_env_of env (aa_actor who)) ok (r_id source) row)))))))"

text \<open>\<open>reassignTo\<close>: the holders of the role get another one, which must be one the actor could give.\<close>

definition assertHeir :: "access_actor \<Rightarrow> holdings \<Rightarrow> members_policy \<Rightarrow> unit access_op" where
  "assertHeir who mine members =
     (case members of
        ReassignTo i \<Rightarrow>
          a_then (roleOf who i) (\<lambda>heir.
          a_then (assertRegular heir) (\<lambda>_.
            assertHolds mine (needsOfRole heir)))
      | _ \<Rightarrow> a_check (Inr ()))"

definition ac_deleteRole :: "access_env \<Rightarrow> access_actor \<Rightarrow> string \<Rightarrow> members_policy \<Rightarrow> unit access_op" where
  "ac_deleteRole env who roleId members =
     access_write env who (ak_rolesManage (ae_keys env)) ''deleteRole'' (role_target roleId)
       (a_then (roleOf who roleId) (\<lambda>r.
        a_then (assertRegular r) (\<lambda>_.
        a_then (assertCanTouchRole env who r) (\<lambda>mine.
        a_then (assertHeir who mine members) (\<lambda>_.
          a_guarded env who (bound OpRoleDelete (r_id r) (deleteMode members)) (WRoleDelete (r_id r) members)
            (\<lambda>ok. aud_role_delete (audit_env_of env (aa_actor who)) ok (r_id r) members))))))"

end
