(* ===== verification/AccessTame.thy ===== *)
theory AccessTame
  imports AccessService
begin

text \<open>
  Writes that hand out no more than the actor holds: the common ground of the rules of \<open>packages/core/src/access/service.ts\<close>.

  \<open>tame\<close> describes what a guarded write may do to roles, members and rows of teams when everything it gives is within reach of
  the actor.  Nobody gains a permission over a tame write that the actor does not hold, except what a member who comes back had
  been given otherwise; and the repository operations the service calls are tame.
\<close>

section \<open>Tame writes\<close>

text \<open>\<open>K p\<close>: the actor holds \<open>p\<close>.  A role within reach is one of the organization whose permissions the actor holds.\<close>

definition within_reach :: "string \<Rightarrow> (string \<Rightarrow> bool) \<Rightarrow> store \<Rightarrow> string \<Rightarrow> bool" where
  "within_reach og K s rid \<longleftrightarrow> (\<exists>r. mget (roles s) rid = Some r \<and> r_organizationId r = og \<and>
     (r_isOwnerRole r \<longrightarrow> (\<forall>p. K p)) \<and> (\<forall>p \<in> set (r_permissionKeys r). K p))"

definition reachable_member :: "string \<Rightarrow> (string \<Rightarrow> bool) \<Rightarrow> store \<Rightarrow> membership \<Rightarrow> bool" where
  "reachable_member og K s x \<longleftrightarrow> m_organizationId x = og \<and>
     (\<forall>rid \<in> set (m_roleIds x). \<forall>r. mget (roles s) rid = Some r \<longrightarrow> r_organizationId r = og \<longrightarrow> within_reach og K s rid)"

definition tame_roles :: "string \<Rightarrow> (string \<Rightarrow> bool) \<Rightarrow> store \<Rightarrow> store \<Rightarrow> bool" where
  "tame_roles og K s s' \<longleftrightarrow> (\<forall>k r'. mget (roles s') k = Some r' \<longrightarrow> mget (roles s) k = Some r' \<or>
     (r_organizationId r' = og \<and> \<not> r_isOwnerRole r' \<and>
      (\<forall>p \<in> set (r_permissionKeys r'). K p \<or> (\<exists>r. mget (roles s) k = Some r \<and> r_organizationId r = og \<and> p \<in> set (r_permissionKeys r)))))"

definition came_from :: "timestamp \<Rightarrow> string \<Rightarrow> (string \<Rightarrow> bool) \<Rightarrow> store \<Rightarrow> string option \<Rightarrow> membership \<Rightarrow> membership \<Rightarrow> bool" where
  "came_from now og K s lifts x x' \<longleftrightarrow> m_id x' = m_id x \<and> m_organizationId x' = m_organizationId x \<and> m_identity x' = m_identity x \<and>
     (m_status (lapse now x') = MActive \<longrightarrow> m_status x = MActive \<or> (lifts = Some (m_id x) \<and> reachable_member og K s x)) \<and>
     (\<forall>rid \<in> set (m_roleIds x'). rid \<in> set (m_roleIds x) \<or> within_reach og K s rid)"

text \<open>\<open>lifts\<close> is the member whose suspension or block the command lifts, \<open>drops\<close> the one it removes.\<close>

definition tame_members :: "timestamp \<Rightarrow> string \<Rightarrow> (string \<Rightarrow> bool) \<Rightarrow> store \<Rightarrow> string option \<Rightarrow> string option \<Rightarrow> store \<Rightarrow> bool" where
  "tame_members now og K s lifts drops s' \<longleftrightarrow>
     (\<forall>x' \<in> set (mvals (memberships s')). \<exists>x \<in> set (mvals (memberships s)). came_from now og K s lifts x x') \<and>
     (\<forall>x \<in> set (mvals (memberships s)). (\<exists>x' \<in> set (mvals (memberships s')). m_id x' = m_id x) \<or>
        (drops = Some (m_id x) \<and> m_organizationId x = og))"

definition tame_teams :: "store \<Rightarrow> store \<Rightarrow> bool" where
  "tame_teams s s' \<longleftrightarrow> teams s' = teams s \<and>
     (\<forall>t' \<in> set (mvals (teamMemberships s')). \<exists>t \<in> set (mvals (teamMemberships s)).
        tm_id t' = tm_id t \<and> tm_organizationId t' = tm_organizationId t \<and> tm_teamId t' = tm_teamId t \<and> tm_membershipId t' = tm_membershipId t \<and>
        tm_status t' = tm_status t \<and> set (tm_roleIds t') \<subseteq> set (tm_roleIds t))"

definition same_rest :: "store \<Rightarrow> store \<Rightarrow> bool" where
  "same_rest s s' \<longleftrightarrow> organizations s' = organizations s \<and> permissions s' = permissions s \<and> supportGrants s' = supportGrants s \<and>
     identityLinksByFromKey s' = identityLinksByFromKey s"

definition tame :: "timestamp \<Rightarrow> string \<Rightarrow> (string \<Rightarrow> bool) \<Rightarrow> string option \<Rightarrow> string option \<Rightarrow> store \<Rightarrow> store \<Rightarrow> bool" where
  "tame now og K lifts drops s s' \<longleftrightarrow> same_rest s s' \<and> tame_roles og K s s' \<and> tame_members now og K s lifts drops s' \<and> tame_teams s s'"

text \<open>The rows a decision reads, after ended suspensions were lifted.\<close>

definition settled :: "timestamp \<Rightarrow> store \<Rightarrow> bool" where
  "settled now s \<longleftrightarrow> (\<forall>x \<in> set (mvals (memberships s)). lapse now x = x)"

lemma settled_lapse: "settled now (lapseBlocks now s)"
  by (auto simp: settled_def)

text \<open>The audit log, the outbox and lifting ended suspensions again make no difference.\<close>

lemma forget_eq:
  assumes "forget s' = forget s"
  shows "organizations s' = organizations s" "memberships s' = memberships s" "roles s' = roles s" "permissions s' = permissions s"
    "supportGrants s' = supportGrants s" "teams s' = teams s" "teamMemberships s' = teamMemberships s"
    "identityLinksByFromKey s' = identityLinksByFromKey s"
  using arg_cong[OF assms, of organizations] arg_cong[OF assms, of memberships] arg_cong[OF assms, of roles]
    arg_cong[OF assms, of permissions] arg_cong[OF assms, of supportGrants] arg_cong[OF assms, of teams]
    arg_cong[OF assms, of teamMemberships] arg_cong[OF assms, of identityLinksByFromKey]
  by (simp_all add: forget_def)

lemma tame_forget: "tame now og K lifts drops s s1 \<Longrightarrow> forget s' = forget s1 \<Longrightarrow> tame now og K lifts drops s s'"
  by (simp add: tame_def same_rest_def tame_roles_def tame_members_def tame_teams_def forget_eq[of s' s1])

lemma tame_lapse: "tame now og K lifts drops s s1 \<Longrightarrow> tame now og K lifts drops s (lapseBlocks now s1)"
  by (auto simp: tame_def same_rest_def tame_roles_def tame_members_def tame_teams_def came_from_def)

section \<open>What a tame write gives\<close>

text \<open>The two ways to a permission the rules do not compare: a support grant, and a role held inside the team asked about.\<close>

definition given_otherwise :: "engine_options \<Rightarrow> timestamp \<Rightarrow> can_input \<Rightarrow> store \<Rightarrow> bool" where
  "given_otherwise options now input s \<longleftrightarrow>
     (let og = can_input.ci_organizationId input; p = ci_permission input; i = ci_identity input in
      case ci_teamId input of
        None \<Rightarrow> (\<exists>g \<in> set (mvals (supportGrants s)). gives og [i, resolve s i] now g \<and> (\<exists>k \<in> set (g_permissions g). (k, p) \<in> (implied s)\<^sup>*))
      | Some t \<Rightarrow> (\<exists>x row rid. fst (mem_findByIdentity now og i s) = Some x \<and> map_option t_status (teamOf s og t) = Some TActive \<and>
          tm_find s og t (m_id x) = Some row \<and> tm_status row = TMActive \<and> rid \<in> set (tm_roleIds row) \<and> grants options s og p rid))"

definition regained :: "engine_options \<Rightarrow> timestamp \<Rightarrow> string option \<Rightarrow> can_input \<Rightarrow> store \<Rightarrow> bool" where
  "regained options now who input s \<longleftrightarrow>
     (\<exists>x. fst (mem_findByIdentity now (can_input.ci_organizationId input) (ci_identity input) s) = Some x \<and> m_status x \<noteq> MActive \<and> who = Some (m_id x)) \<and>
     given_otherwise options now input s"

text \<open>Holding a permission is holding what it implies.\<close>

definition closed :: "store \<Rightarrow> (string \<Rightarrow> bool) \<Rightarrow> bool" where
  "closed s K \<longleftrightarrow> (\<forall>k p. K k \<longrightarrow> (k, p) \<in> (implied s)\<^sup>* \<longrightarrow> K p)"

lemma closedD: "closed s K \<Longrightarrow> K k \<Longrightarrow> (k, p) \<in> (implied s)\<^sup>* \<Longrightarrow> K p"
  unfolding closed_def by blast

lemma grantsI: "mget (roles s) rid = Some r \<Longrightarrow> r_organizationId r = og \<Longrightarrow> k \<in> set (r_permissionKeys r) \<Longrightarrow> (k, p) \<in> (implied s)\<^sup>* \<Longrightarrow>
    grants options s og p rid"
  unfolding grants_def by blast

lemma tame_grants:
  assumes "tame_roles og K s s'" "same_rest s s'" and closed: "closed s K"
    and "grants options s' cog p rid"
  shows "grants options s cog p rid \<or> (cog = og \<and> K p)"
proof -
  have i: "implied s' = implied s" "permissions s' = permissions s" using assms(2) by (simp_all add: same_rest_def implied_def)
  obtain r' where r': "mget (roles s') rid = Some r'" "r_organizationId r' = cog"
    "(\<exists>k \<in> set (r_permissionKeys r'). (k, p) \<in> (implied s)\<^sup>*) \<or> (r_isOwnerRole r' \<and> (\<not> ownerRequiresRegisteredPermission options \<or> mhas (permissions s) p))"
    using assms(4) unfolding grants_def i by blast
  show ?thesis
  proof (cases "mget (roles s) rid = Some r'")
    case True
    then show ?thesis using r' unfolding grants_def by blast
  next
    case False
    then have w: "r_organizationId r' = og" "\<not> r_isOwnerRole r'"
      "\<And>k. k \<in> set (r_permissionKeys r') \<Longrightarrow> K k \<or> (\<exists>r. mget (roles s) rid = Some r \<and> r_organizationId r = og \<and> k \<in> set (r_permissionKeys r))"
      using assms(1) r'(1) unfolding tame_roles_def by blast+
    then obtain k where k: "k \<in> set (r_permissionKeys r')" "(k, p) \<in> (implied s)\<^sup>*" using r'(3) by blast
    show ?thesis using w(3)[OF k(1)]
    proof (elim disjE exE conjE)
      assume "K k"
      then show ?thesis using closedD[OF closed _ k(2)] w(1) r'(2) by simp
    next
      fix r assume "mget (roles s) rid = Some r" "r_organizationId r = og" "k \<in> set (r_permissionKeys r)"
      then have "grants options s og p rid" by (rule grantsI) (rule k(2))
      then show ?thesis using w(1) r'(2) by simp
    qed
  qed
qed

lemma reach_grants:
  assumes "within_reach og K s rid" "tame_roles og K s s'" "same_rest s s'" and closed: "closed s K"
    and "grants options s' cog p rid"
  shows "cog = og \<and> K p"
proof -
  obtain r where r: "mget (roles s) rid = Some r" "r_organizationId r = og" "r_isOwnerRole r \<Longrightarrow> K q" "k \<in> set (r_permissionKeys r) \<Longrightarrow> K k" for q k
    using assms(1) unfolding within_reach_def by blast
  show ?thesis using tame_grants[OF assms(2,3) closed assms(5)]
  proof (elim disjE)
    assume "grants options s cog p rid"
    then have o: "cog = og" and p: "(\<exists>k \<in> set (r_permissionKeys r). (k, p) \<in> (implied s)\<^sup>*) \<or> r_isOwnerRole r"
      using r(1,2) by (auto simp: grants_def)
    show ?thesis using p
    proof (elim disjE bexE)
      fix k assume "k \<in> set (r_permissionKeys r)" "(k, p) \<in> (implied s)\<^sup>*"
      then show ?thesis using closedD[OF closed] r(4) o by blast
    qed (use r(3) o in simp)
  qed simp
qed

lemma found_props:
  assumes "fst (mem_findByIdentity now cog i s) = Some y"
  obtains x where "x \<in> set (mvals (memberships s))" "y = lapse now x" "m_organizationId x = cog" "m_identity x = resolve s i"
  using assms by (auto simp: mem_findByIdentity_def Let_def find_Some_iff)
    (metis (no_types, lifting) lapse_simps(2,3) length_map nth_map nth_mem)

lemma found_member:
  assumes "members_ok s" "x \<in> set (mvals (memberships s))" "m_organizationId x = cog" "m_identity x = resolve s i"
  shows "fst (mem_findByIdentity now cog i s) = Some (lapse now x)"
proof -
  have "resolve s (m_identity x) = m_identity x" using assms(1,2) by (simp add: members_ok_def resolve_def)
  then have "mem_findByIdentity now cog i s = mem_findByIdentity now (m_organizationId x) (m_identity x) s"
    using assms(3,4) by (simp add: mem_findByIdentity_def)
  then show ?thesis using members_ok_find[OF assms(1,2)] by simp
qed

lemma tame_found:
  assumes t: "tame now og K lifts drops s s'" and ok: "members_ok s" and st: "settled now s"
    and f: "fst (mem_findByIdentity now cog i s') = Some y"
  obtains x x' where "fst (mem_findByIdentity now cog i s) = Some x" "y = lapse now x'" "came_from now og K s lifts x x'"
    "x \<in> set (mvals (memberships s))"
proof (rule found_props[OF f])
  fix x' assume x': "x' \<in> set (mvals (memberships s'))" "y = lapse now x'" "m_organizationId x' = cog" "m_identity x' = resolve s' i"
  have res: "resolve s' i = resolve s i" using t by (simp add: tame_def same_rest_def resolve_def)
  obtain x where x: "x \<in> set (mvals (memberships s))" "came_from now og K s lifts x x'"
    using t x'(1) unfolding tame_def tame_members_def by blast
  have "m_organizationId x = cog" "m_identity x = resolve s i" using x(2) x'(3,4) res by (simp_all add: came_from_def)
  then have "fst (mem_findByIdentity now cog i s) = Some x"
    using found_member[OF ok x(1), of cog i now] st x(1) by (simp add: settled_def)
  then show thesis using that x x'(2) by blast
qed

lemma tame_lost:
  assumes t: "tame now og K lifts drops s s'" and ok: "members_ok s" and st: "settled now s" and ok': "members_ok s'"
    and f: "fst (mem_findByIdentity now cog i s') = None" and g: "fst (mem_findByIdentity now cog i s) = Some x"
  shows "drops = Some (m_id x) \<and> m_organizationId x = og"
proof (rule found_props[OF g])
  fix x0 assume x0: "x0 \<in> set (mvals (memberships s))" "x = lapse now x0" "m_organizationId x0 = cog" "m_identity x0 = resolve s i"
  then have x: "x \<in> set (mvals (memberships s))" "m_organizationId x = cog" "m_identity x = resolve s i" using st by (simp_all add: settled_def)
  have res: "resolve s' i = resolve s i" using t by (simp add: tame_def same_rest_def resolve_def)
  show ?thesis
  proof (rule ccontr)
    assume "\<not> ?thesis"
    then obtain x' where x': "x' \<in> set (mvals (memberships s'))" "m_id x' = m_id x" using t x(1) unfolding tame_def tame_members_def by blast
    then obtain x2 where x2: "x2 \<in> set (mvals (memberships s))" "came_from now og K s lifts x2 x'"
      using t unfolding tame_def tame_members_def by blast
    have "keyed m_id (memberships s)" using ok by (simp add: members_ok_def people_def mem_keyed_def)
    moreover have "m_id x2 = m_id x" using x2(2) x'(2) by (simp add: came_from_def)
    ultimately have "x2 = x" using keyed_vals[of m_id "memberships s" x2] keyed_vals[of m_id "memberships s" x] x2(1) x(1) by simp
    then have "fst (mem_findByIdentity now cog i s') = Some (lapse now x')"
      using found_member[OF ok' x'(1), of cog i now] x2(2) x(2,3) res by (simp add: came_from_def)
    then show False using f by simp
  qed
qed

lemma tame_row:
  assumes t: "tame now og K lifts drops s s'" and ok: "tm_ok s" and f: "tm_find s' cog tid mid = Some row'"
  obtains row where "tm_find s cog tid mid = Some row" "tm_status row = tm_status row'" "set (tm_roleIds row') \<subseteq> set (tm_roleIds row)"
proof -
  have row': "row' \<in> set (mvals (teamMemberships s'))" "tm_organizationId row' = cog" "tm_teamId row' = tid" "tm_membershipId row' = mid"
    using f by (auto simp: tm_find_def find_Some_iff)
  obtain row where row: "row \<in> set (mvals (teamMemberships s))" "tm_organizationId row' = tm_organizationId row" "tm_teamId row' = tm_teamId row"
    "tm_membershipId row' = tm_membershipId row" "tm_status row' = tm_status row" "set (tm_roleIds row') \<subseteq> set (tm_roleIds row)"
    using t row'(1) unfolding tame_def tame_teams_def by metis
  have k: "keyed tm_id (teamMemberships s)" using ok by (simp add: tm_ok_def)
  have u: "y = row" if "y \<in> set (mvals (teamMemberships s))" "tm_organizationId y = cog \<and> tm_teamId y = tid \<and> tm_membershipId y = mid" for y
  proof -
    have "tm_teamId y = tm_teamId row \<and> tm_membershipId y = tm_membershipId row" using that(2) row row' by simp
    then have "tm_id y = tm_id row" using ok that(1) row(1) unfolding tm_ok_def by blast
    then show ?thesis using keyed_vals[OF k, of y] keyed_vals[OF k, of row] that(1) row(1) by simp
  qed
  have "tm_organizationId row = cog \<and> tm_teamId row = tid \<and> tm_membershipId row = mid" using row(2,3,4) row'(2,3,4) by simp
  then have "tm_find s cog tid mid = Some row" unfolding tm_find_def by (rule find_unique[OF row(1)]) (rule u)
  then show thesis by (rule that) (use row(5,6) in simp_all)
qed

text \<open>What is given otherwise stays what it was.\<close>

lemma tame_otherwise:
  assumes t: "tame now og K lifts drops s s'" and ok: "members_ok s" "tm_ok s" and st: "settled now s" and cl: "closed s K"
    and g: "given_otherwise options now input s'"
  shows "given_otherwise options now input s \<or> (can_input.ci_organizationId input = og \<and> K (ci_permission input))"
proof -
  have rest: "same_rest s s'" and roles: "tame_roles og K s s'" and tm: "teams s' = teams s" using t by (simp_all add: tame_def tame_teams_def)
  have same: "supportGrants s' = supportGrants s" "implied s' = implied s" "resolve s' i = resolve s i" "teamOf s' cog tid = teamOf s cog tid" for i cog tid
    using rest tm by (simp_all add: same_rest_def implied_def resolve_def teamOf_def)
  show ?thesis
  proof (cases "ci_teamId input")
    case None
    then show ?thesis using g by (simp add: given_otherwise_def same Let_def)
  next
    case (Some tid)
    obtain y row' rid where y: "fst (mem_findByIdentity now (can_input.ci_organizationId input) (ci_identity input) s') = Some y"
      "map_option t_status (teamOf s (can_input.ci_organizationId input) tid) = Some TActive"
      "tm_find s' (can_input.ci_organizationId input) tid (m_id y) = Some row'" "tm_status row' = TMActive" "rid \<in> set (tm_roleIds row')"
      "grants options s' (can_input.ci_organizationId input) (ci_permission input) rid"
      using g Some by (auto simp: given_otherwise_def same Let_def)
    obtain x x' where x: "fst (mem_findByIdentity now (can_input.ci_organizationId input) (ci_identity input) s) = Some x" "y = lapse now x'"
      "came_from now og K s lifts x x'"
      using tame_found[OF t ok(1) st y(1)] by blast
    have id: "m_id y = m_id x" using x(2,3) by (simp add: came_from_def)
    obtain row where row: "tm_find s (can_input.ci_organizationId input) tid (m_id x) = Some row" "tm_status row = tm_status row'"
      "set (tm_roleIds row') \<subseteq> set (tm_roleIds row)"
      using tame_row[OF t ok(2) y(3)[unfolded id]] by blast
    have "rid \<in> set (tm_roleIds row)" "tm_status row = TMActive" using row y(4,5) by auto
    then show ?thesis using tame_grants[OF roles rest cl y(6)] x(1) y(2) row(1) Some
      unfolding given_otherwise_def Let_def by auto
  qed
qed

text \<open>May, in terms of the ways a permission is given.\<close>

definition given_by_roles :: "engine_options \<Rightarrow> timestamp \<Rightarrow> can_input \<Rightarrow> store \<Rightarrow> bool" where
  "given_by_roles options now input s \<longleftrightarrow>
     (\<exists>x rid. fst (mem_findByIdentity now (can_input.ci_organizationId input) (ci_identity input) s) = Some x \<and> rid \<in> set (m_roleIds x) \<and>
        grants options s (can_input.ci_organizationId input) (ci_permission input) rid \<and>
        (case ci_teamId input of None \<Rightarrow> True
         | Some t \<Rightarrow> \<exists>row. map_option t_status (teamOf s (can_input.ci_organizationId input) t) = Some TActive \<and>
             tm_find s (can_input.ci_organizationId input) t (m_id x) = Some row \<and> tm_status row = TMActive))"

definition open_to :: "timestamp \<Rightarrow> can_input \<Rightarrow> store \<Rightarrow> bool" where
  "open_to now input s \<longleftrightarrow> assertValidPermissionKey (ci_permission input) = Inr (ci_permission input) \<and>
     organizationIsActive s (can_input.ci_organizationId input) \<and>
     (\<forall>x. fst (mem_findByIdentity now (can_input.ci_organizationId input) (ci_identity input) s) = Some x \<longrightarrow> m_status x = MActive)"

lemma may_split: "may options now input s \<longleftrightarrow> open_to now input s \<and> (given_by_roles options now input s \<or> given_otherwise options now input s)"
  by (cases "ci_teamId input") (auto simp: may_def open_to_def given_by_roles_def given_otherwise_def organizationIsActive_iff Let_def)

lemma tame_roles_given:
  assumes t: "tame now og K lifts drops s s'" and ok: "members_ok s" "tm_ok s" and st: "settled now s" and cl: "closed s K"
    and g: "given_by_roles options now input s'"
  shows "given_by_roles options now input s \<or> (can_input.ci_organizationId input = og \<and> K (ci_permission input))"
proof -
  let ?og = "can_input.ci_organizationId input" and ?p = "ci_permission input"
  have rest: "same_rest s s'" and roles: "tame_roles og K s s'" and tm: "teams s' = teams s" using t by (simp_all add: tame_def tame_teams_def)
  obtain y rid where y: "fst (mem_findByIdentity now ?og (ci_identity input) s') = Some y" "rid \<in> set (m_roleIds y)" "grants options s' ?og ?p rid"
    "case ci_teamId input of None \<Rightarrow> True | Some t \<Rightarrow> \<exists>row. map_option t_status (teamOf s' ?og t) = Some TActive \<and>
       tm_find s' ?og t (m_id y) = Some row \<and> tm_status row = TMActive"
    using g unfolding given_by_roles_def by blast
  obtain x x' where x: "fst (mem_findByIdentity now ?og (ci_identity input) s) = Some x" "y = lapse now x'" "came_from now og K s lifts x x'"
    using tame_found[OF t ok(1) st y(1)] by blast
  have id: "m_id y = m_id x" using x(2,3) by (simp add: came_from_def)
  have "rid \<in> set (m_roleIds x')" using y(2) x(2) by simp
  then consider "rid \<in> set (m_roleIds x)" | "within_reach og K s rid" using x(3) unfolding came_from_def by blast
  then show ?thesis
  proof cases
    case 1
    have "case ci_teamId input of None \<Rightarrow> True | Some t \<Rightarrow> \<exists>row. map_option t_status (teamOf s ?og t) = Some TActive \<and>
        tm_find s ?og t (m_id x) = Some row \<and> tm_status row = TMActive"
    proof (cases "ci_teamId input")
      case (Some tid)
      then obtain row' where row': "map_option t_status (teamOf s' ?og tid) = Some TActive" "tm_find s' ?og tid (m_id x) = Some row'" "tm_status row' = TMActive"
        using y(4) id by auto
      obtain row where "tm_find s ?og tid (m_id x) = Some row" "tm_status row = tm_status row'" using tame_row[OF t ok(2) row'(2)] by blast
      then show ?thesis using Some row' tm by (simp add: teamOf_def)
    qed simp
    then show ?thesis using tame_grants[OF roles rest cl y(3)] 1 x(1) unfolding given_by_roles_def by blast
  next
    case 2
    then show ?thesis using reach_grants[OF _ roles rest cl y(3)] by blast
  qed
qed

text \<open>Nobody may more after a tame write than before, except what the actor holds, and what a member who comes back had been given otherwise.\<close>

lemma tame_may:
  assumes t: "tame now og K lifts drops s s'" and ok: "members_ok s" "tm_ok s" "members_ok s'" and st: "settled now s" and cl: "closed s K"
    and m: "may options now input s'"
  shows "may options now input s \<or> (can_input.ci_organizationId input = og \<and> K (ci_permission input)) \<or>
    regained options now lifts input s \<or> regained options now drops input s"
proof -
  let ?og = "can_input.ci_organizationId input" and ?p = "ci_permission input"
  have rest: "same_rest s s'" using t by (simp add: tame_def)
  have op: "assertValidPermissionKey ?p = Inr ?p" "organizationIsActive s ?og"
    using m rest by (simp_all add: may_split open_to_def same_rest_def organizationIsActive_iff)
  have given: "given_by_roles options now input s \<or> given_otherwise options now input s \<or> (?og = og \<and> K ?p)"
    using m tame_roles_given[OF t ok(1,2) st cl] tame_otherwise[OF t ok(1,2) st cl] unfolding may_split by blast
  show ?thesis
  proof (cases "\<exists>x. fst (mem_findByIdentity now ?og (ci_identity input) s) = Some x \<and> m_status x \<noteq> MActive")
    case False
    then have "open_to now input s" using op by (auto simp: open_to_def)
    then show ?thesis using given unfolding may_split by blast
  next
    case True
    then obtain x where x: "fst (mem_findByIdentity now ?og (ci_identity input) s) = Some x" "m_status x \<noteq> MActive" by blast
    show ?thesis
    proof (cases "fst (mem_findByIdentity now ?og (ci_identity input) s')")
      case None
      then have "drops = Some (m_id x)" using tame_lost[OF t ok(1) st ok(3) None x(1)] by simp
      moreover have "given_otherwise options now input s'" using m None by (simp add: may_split given_by_roles_def)
      ultimately show ?thesis using tame_otherwise[OF t ok(1,2) st cl] x unfolding regained_def by blast
    next
      case (Some y)
      obtain x2 x' where x2: "fst (mem_findByIdentity now ?og (ci_identity input) s) = Some x2" "y = lapse now x'" "came_from now og K s lifts x2 x'"
        using tame_found[OF t ok(1) st Some] by blast
      have "m_status y = MActive" using m Some by (simp add: may_split open_to_def)
      then have l: "lifts = Some (m_id x)" "reachable_member og K s x" using x2 x by (auto simp: came_from_def)
      from given show ?thesis
      proof (elim disjE)
        assume "given_by_roles options now input s"
        then obtain rid where rid: "rid \<in> set (m_roleIds x)" "grants options s ?og ?p rid" using x(1) by (auto simp: given_by_roles_def)
        then obtain r where r: "mget (roles s) rid = Some r" "r_organizationId r = ?og" unfolding grants_def by blast
        have "?og = og" using l(2) x(1) by (auto simp: reachable_member_def elim: found_props)
        then have reach: "within_reach og K s rid" using l(2) rid(1) r unfolding reachable_member_def by blast
        have "tame_roles og K s s" "same_rest s s" by (simp_all add: tame_roles_def same_rest_def)
        then show ?thesis using reach_grants[OF reach _ _ cl rid(2)] by blast
      next
        assume "given_otherwise options now input s"
        then show ?thesis using l(1) x unfolding regained_def by blast
      qed simp
    qed
  qed
qed

section \<open>The guarded operations are tame\<close>

lemma came_from_refl: "settled now s \<Longrightarrow> x \<in> set (mvals (memberships s)) \<Longrightarrow> came_from now og K s lifts x x"
  by (simp add: came_from_def settled_def)

lemma tame_parts_refl: "tame_roles og K s s" "tame_teams s s" "same_rest s s"
  by (auto simp: tame_roles_def tame_teams_def same_rest_def)

lemma tame_teams_same: "teams s' = teams s \<Longrightarrow> teamMemberships s' = teamMemberships s \<Longrightarrow> tame_teams s s'"
  unfolding tame_teams_def by auto

lemma tame_roles_same: "roles s' = roles s \<Longrightarrow> tame_roles og K s s'"
  by (simp add: tame_roles_def)

lemma tame_members_same: "memberships s' = memberships s1 \<Longrightarrow> tame_members now og K s lifts drops s' = tame_members now og K s lifts drops s1"
  by (simp only: tame_members_def)

lemma tame_members_refl: "settled now s \<Longrightarrow> tame_members now og K s lifts drops s"
  unfolding tame_members_def using came_from_refl by blast

lemma tame_refl: "settled now s \<Longrightarrow> tame now og K lifts drops s s"
  by (simp add: tame_def tame_parts_refl tame_members_refl)

lemma tame_put_member:
  assumes k: "mem_keyed s" and st: "settled now s" and x: "mget (memberships s) i = Some x" "came_from now og K s lifts x x'"
  shows "tame now og K lifts drops s (put_membership i x' s)"
proof -
  have mem: "x \<in> set (mvals (memberships s))" using x(1) by (rule mget_in_mvals)
  have id: "m_id x = i" "m_id x' = i" using x(2) mem_keyed_get[OF k x(1)] by (simp_all add: came_from_def)
  note vals = put_vals[OF k id(2)]
  have "tame_members now og K s lifts drops (put_membership i x' s)"
    unfolding tame_members_def put_membership_simps(3)
  proof (intro conjI ballI)
    fix y assume y: "y \<in> set (mvals (mset_at i x' (memberships s)))"
    show "\<exists>z \<in> set (mvals (memberships s)). came_from now og K s lifts z y"
    proof (cases "y = x'")
      case True
      then show ?thesis using mem x(2) by blast
    next
      case False
      then have "y \<in> set (mvals (memberships s))" using y by (simp add: vals)
      then show ?thesis using came_from_refl[OF st] by blast
    qed
  next
    fix z assume z: "z \<in> set (mvals (memberships s))"
    have "\<exists>y \<in> set (mvals (mset_at i x' (memberships s))). m_id y = m_id z"
    proof (cases "m_id z = i")
      case True
      then show ?thesis using id(2) by (intro bexI[of _ x']) (simp_all add: vals)
    next
      case False
      then show ?thesis using z by (intro bexI[of _ z]) (simp_all add: vals)
    qed
    then show "(\<exists>y \<in> set (mvals (mset_at i x' (memberships s))). m_id y = m_id z) \<or> (drops = Some (m_id z) \<and> m_organizationId z = og)" ..
  qed
  then show ?thesis
    by (simp add: tame_def tame_roles_same tame_teams_same same_rest_def put_membership_def)
qed

lemma put_role_rest:
  "memberships (put_role r s) = memberships s" "teamMemberships (put_role r s) = teamMemberships s" "teams (put_role r s) = teams s"
  "organizations (put_role r s) = organizations s" "permissions (put_role r s) = permissions s" "supportGrants (put_role r s) = supportGrants s"
  "identityLinksByFromKey (put_role r s) = identityLinksByFromKey s" "roles (put_role r s) = mset_at (r_id r) r (roles s)"
  by (simp_all add: put_role_def)

lemma tame_put_role:
  assumes "settled now s" "r_organizationId r' = og" "\<not> r_isOwnerRole r'"
    "\<And>p. p \<in> set (r_permissionKeys r') \<Longrightarrow> K p \<or> (\<exists>r. mget (roles s) (r_id r') = Some r \<and> r_organizationId r = og \<and> p \<in> set (r_permissionKeys r))"
  shows "tame now og K lifts drops s (put_role r' s)"
proof -
  have "tame_members now og K s lifts drops (put_role r' s)"
    using tame_members_refl[OF assms(1)] tame_members_same[OF put_role_rest(1)] by blast
  moreover have "tame_teams s (put_role r' s)" "same_rest s (put_role r' s)" by (simp_all add: tame_teams_same same_rest_def put_role_rest)
  moreover have "tame_roles og K s (put_role r' s)"
    unfolding tame_roles_def put_role_rest using assms(2-4) by simp
  ultimately show ?thesis by (simp add: tame_def)
qed

lemma lapsed_cong: "m_status x' = m_status x \<Longrightarrow> m_blocked x' = m_blocked x \<Longrightarrow> lapsed now x' = lapsed now x"
  by (simp add: lapsed_def)

lemma settled_not_lapsed: "settled now s \<Longrightarrow> x \<in> set (mvals (memberships s)) \<Longrightarrow> \<not> lapsed now x"
  by (cases "lapsed now x") (auto simp: settled_def lapse_def lapsed_def dest!: bspec dest: arg_cong[of _ _ m_status])

lemma came_from_same:
  assumes "settled now s" "x \<in> set (mvals (memberships s))" "m_id x' = m_id x" "m_organizationId x' = m_organizationId x" "m_identity x' = m_identity x"
    "m_status x' = m_status x" "m_blocked x' = m_blocked x"
    "\<And>rid. rid \<in> set (m_roleIds x') \<Longrightarrow> rid \<in> set (m_roleIds x) \<or> within_reach og K s rid"
  shows "came_from now og K s lifts x x'"
proof -
  have "\<not> lapsed now x'" using settled_not_lapsed[OF assms(1,2)] lapsed_cong[OF assms(6,7)] by simp
  then show ?thesis using assms(3-8) by (simp add: came_from_def lapse_not_lapsed)
qed

lemma assign_tame:
  assumes k: "mem_keyed s" and st: "settled now s" and r: "mem_assignRole now i rid v s = (Inr u, s1)" and w: "within_reach og K s rid"
  shows "tame now og K lifts drops s s1"
proof -
  obtain x where x: "mget (memberships s) i = Some x" "s1 = put_membership i (add_role now rid x) s"
    using r by (auto simp: mem_assignRole_def guard_def fails_def returns_def split: option.splits sum.splits if_splits)
  have "came_from now og K s lifts x (add_role now rid x)"
    by (rule came_from_same[OF st mget_in_mvals[OF x(1)]]) (use w in \<open>auto simp: add_role_def touch_def split: if_splits\<close>)
  then show ?thesis unfolding x(2) by (rule tame_put_member[OF k st x(1)])
qed

lemma unassign_tame:
  assumes k: "mem_keyed s" and st: "settled now s" and r: "mem_unassignRole now i rid v s = (Inr u, s1)"
  shows "tame now og K lifts drops s s1"
proof -
  obtain x where x: "mget (memberships s) i = Some x" "s1 = s \<or> s1 = put_membership i (touch now (drop_role rid x)) s"
    using r by (auto simp: mem_unassignRole_def guard_def fails_def returns_def split: option.splits sum.splits if_splits)
  have "came_from now og K s lifts x (touch now (drop_role rid x))"
    by (rule came_from_same[OF st mget_in_mvals[OF x(1)]]) (use set_remove1_subset[of rid "m_roleIds x"] in \<open>auto simp: touch_def drop_role_def\<close>)
  then show ?thesis using x(2) tame_refl[OF st] tame_put_member[OF k st x(1)] by blast
qed

text \<open>\<open>calm\<close>: no suspension has ended since the rows were read.\<close>

definition calm :: "timestamp \<Rightarrow> store \<Rightarrow> bool" where
  "calm now s \<longleftrightarrow> lapseBlocks now s = s"

lemma calm_lapse: "calm now (lapseBlocks now s)"
  by (simp add: calm_def)

lemma calm_settled: "calm now s \<Longrightarrow> settled now s"
  using settled_lapse[of now s] by (simp add: calm_def)

lemma blockWithin_tame:
  assumes k: "mem_keyed s" and c: "calm now s" and r: "blockWithin now i b until s = (Inr y, s1)" and u: "\<And>t. until = Some t \<Longrightarrow> now < t"
  shows "tame now og K lifts drops s s1"
proof -
  have st: "settled now s" by (rule calm_settled[OF c])
  obtain x where x: "mget (memberships s) i = Some x" "s1 = s \<or> (\<exists>a rs. s1 = put_membership i (set_block now a rs until x) s)"
    using r c by (auto simp: blockWithin_def calm_def Let_def guard_def fails_def returns_def simp del: lapseBlocks_simps(3)
        split: option.splits sum.splits if_splits)
  have "came_from now og K s lifts x (set_block now a rs until x)" for a rs
  proof -
    have "m_status (lapse now (set_block now a rs until x)) \<noteq> MActive"
      using u by (cases until) (auto simp: set_block_def lapse_def lapsed_def)
    then show ?thesis by (simp add: came_from_def)
  qed
  then show ?thesis using x(2) tame_refl[OF st] tame_put_member[OF k st x(1)] by blast
qed

lemma block_tame: "mem_keyed s \<Longrightarrow> calm now s \<Longrightarrow> mem_block now i b s = (Inr y, s1) \<Longrightarrow> tame now og K lifts drops s s1"
  unfolding mem_block_def by (erule (2) blockWithin_tame) simp

lemma suspend_tame:
  assumes "mem_keyed s" "calm now s" "mem_suspend now i b until s = (Inr y, s1)"
  shows "tame now og K lifts drops s s1"
proof -
  obtain t where "assertBlockUntil until now = Inr (Some t)" "blockWithin now i b (Some t) s = (Inr y, s1)"
    using assms(3) by (auto simp: mem_suspend_def guard_def fails_def split: sum.splits option.splits)
  moreover from this(1) have "now < t" by (auto simp: assertBlockUntil_def split: option.splits date_in.splits if_splits)
  ultimately show ?thesis using blockWithin_tame[OF assms(1,2), of i b "Some t"] by simp
qed

lemma unblock_tame:
  assumes k: "mem_keyed s" and c: "calm now s" and r: "mem_unblock now i v s = (Inr y, s1)"
    and w: "\<And>x. mget (memberships s) i = Some x \<Longrightarrow> reachable_member og K s x"
  shows "tame now og K (Some i) drops s s1"
proof -
  have st: "settled now s" by (rule calm_settled[OF c])
  obtain x where x: "mget (memberships s) i = Some x"
    "s1 = s \<or> s1 = put_membership i ((touch now x) \<lparr> m_blocked := None, m_status := MActive \<rparr>) s"
    using r by (auto simp: mem_unblock_def guard_def fails_def returns_def Let_def split: option.splits sum.splits if_splits)
  have "came_from now og K s (Some i) x ((touch now x) \<lparr> m_blocked := None, m_status := MActive \<rparr>)"
    using w[OF x(1)] mem_keyed_get[OF k x(1)] by (simp add: came_from_def touch_def)
  then show ?thesis using x(2) tame_refl[OF st] tame_put_member[OF k st x(1)] by blast
qed

lemma drop_member_rest:
  "roles (drop_member i s) = roles s" "teams (drop_member i s) = teams s" "organizations (drop_member i s) = organizations s"
  "permissions (drop_member i s) = permissions s" "supportGrants (drop_member i s) = supportGrants s"
  "identityLinksByFromKey (drop_member i s) = identityLinksByFromKey s" "memberships (drop_member i s) = mdel i (memberships s)"
  by (simp_all add: drop_member_def)

lemma tame_teams_fewer:
  "teams s' = teams s \<Longrightarrow> set (mvals (teamMemberships s')) \<subseteq> set (mvals (teamMemberships s)) \<Longrightarrow> tame_teams s s'"
  unfolding tame_teams_def by blast

lemma delete_tame:
  assumes k: "mem_keyed s" and tk: "keyed tm_id (teamMemberships s)" and c: "calm now s"
    and o: "\<And>x. mget (memberships s) i = Some x \<Longrightarrow> m_organizationId x = og"
  shows "tame now og K lifts (Some i) s (snd (mem_delete now i s))"
proof -
  have st: "settled now s" by (rule calm_settled[OF c])
  have lapse: "lapseBlocks now s = s" using c by (simp add: calm_def)
  show ?thesis
  proof (cases rule: mem_delete_cases[of now i s])
    case (removed s1 x)
    then have s1: "s1 = s" using lapse by blast
    note vals = keyed_vals_delete[OF k[unfolded mem_keyed_def]]
    have "tame_members now og K s lifts (Some i) (drop_member i s)"
      unfolding tame_members_def drop_member_rest
    proof (intro conjI ballI)
      fix y assume "y \<in> set (mvals (mdel i (memberships s)))"
      then have "y \<in> set (mvals (memberships s))" by (simp add: vals)
      then show "\<exists>z \<in> set (mvals (memberships s)). came_from now og K s lifts z y" using came_from_refl[OF st] by blast
    next
      fix z assume z: "z \<in> set (mvals (memberships s))"
      show "(\<exists>y \<in> set (mvals (mdel i (memberships s))). m_id y = m_id z) \<or> (Some i = Some (m_id z) \<and> m_organizationId z = og)"
      proof (cases "m_id z = i")
        case True
        then have "mget (memberships s) i = Some z" using z k keyed_vals[of m_id "memberships s" z] by (simp add: mem_keyed_def)
        then show ?thesis using True o by simp
      next
        case False
        then show ?thesis using z by (intro disjI1 bexI[of _ z]) (simp_all add: vals)
      qed
    qed
    moreover have "tame_teams s (drop_member i s)"
      using mem_delete_team[OF tk, of now i] removed(3) s1 by (intro tame_teams_fewer) (simp_all add: drop_member_rest)
    ultimately show ?thesis unfolding removed(3) s1
      by (simp add: tame_def tame_roles_same same_rest_def drop_member_rest)
  qed (use lapse tame_refl[OF st] in simp_all)
qed

lemma sanitized_keys:
  assumes "sanitizeRolePermissionKeys v = Inr ks"
  shows "set ks \<subseteq> set (case v of None \<Rightarrow> [] | Some xs \<Rightarrow> xs)"
proof -
  have same: "assertNonEmptyPermissionKey k = Inr q \<Longrightarrow> q = k" for k q by (auto simp: assertNonEmptyPermissionKey_def split: if_splits)
  have sub: "mapr assertNonEmptyPermissionKey xs = Inr ys \<Longrightarrow> set ys \<subseteq> set xs" for xs ys
    using same mapr_Inr_set[of assertNonEmptyPermissionKey xs ys] by blast
  then show ?thesis using assms by (auto simp: sanitizeRolePermissionKeys_def dest: sub[THEN subsetD] split: option.splits sum.splits)
qed

lemma role_create_tame:
  assumes "settled now s" "role_create input s = (Inr r, s1)" "cr_organizationId input = og"
    "\<And>p. p \<in> set (case cr_permissionKeys input of None \<Rightarrow> [] | Some ks \<Rightarrow> ks) \<Longrightarrow> K p"
  shows "tame now og K lifts drops s s1"
proof -
  obtain ks where r: "s1 = put_role r s" "r_organizationId r = og" "\<not> r_isOwnerRole r" "sanitizeRolePermissionKeys (cr_permissionKeys input) = Inr ks"
    "r_permissionKeys r = ks"
    using assms(2,3) by (auto simp: role_create_def guard_def fails_def returns_def Let_def split: sum.splits if_splits)
  have "K p" if "p \<in> set (r_permissionKeys r)" for p
    using that r(5) sanitized_keys[OF r(4)] assms(4) by blast
  then show ?thesis unfolding r(1) using r(2,3) by (intro tame_put_role[OF assms(1)]) blast+
qed

lemma role_clone_tame:
  assumes "settled now s" "role_clone i input s = (Inr r, s1)" "cl_organizationId input = Some og" "within_reach og K s i"
  shows "tame now og K lifts drops s s1"
proof -
  obtain source where x: "mget (roles s) i = Some source" "\<And>p. p \<in> set (r_permissionKeys source) \<Longrightarrow> K p"
    using assms(4) unfolding within_reach_def by blast
  show ?thesis
    by (rule role_create_tame[OF assms(1)]) (use assms(2,3) x in \<open>auto simp: role_clone_def fails_def split: if_splits\<close>)
qed

text \<open>An edit of a role of the organization, other than its Owner role.\<close>

lemma tame_edit_role:
  assumes st: "settled now s" and k: "roles_wf s" and r: "mget (roles s) i = Some r" "r_organizationId r = og" "\<not> r_isOwnerRole r"
    and r': "r_id r' = r_id r" "r_organizationId r' = r_organizationId r" "r_isOwnerRole r' = r_isOwnerRole r"
    "\<And>p. p \<in> set (r_permissionKeys r') \<Longrightarrow> K p \<or> p \<in> set (r_permissionKeys r)"
  shows "tame now og K lifts drops s (put_role r' s)"
proof -
  have "r_id r = i" using keyed_get[OF roles_keyed[OF k] r(1)] .
  then show ?thesis using r r' by (intro tame_put_role[OF st]) auto
qed

lemma role_update_tame:
  assumes st: "settled now s" and k: "roles_wf s" and r: "mget (roles s) i = Some r" "r_organizationId r = og" "\<not> r_isOwnerRole r"
    and u: "role_update i input s = (Inr y, s1)"
  shows "tame now og K lifts drops s s1"
proof -
  obtain r' where r': "s1 = put_role r' s" "r_id r' = r_id r" "r_organizationId r' = r_organizationId r" "r_isOwnerRole r' = r_isOwnerRole r"
    "r_permissionKeys r' = r_permissionKeys r"
    using u r(1) by (auto simp: role_update_def role_apply_update_def guard_def fails_def returns_def Let_def split: sum.splits option.splits if_splits)
  show ?thesis unfolding r'(1) by (rule tame_edit_role[OF st k r]) (simp_all add: r')
qed

lemma setPermissions_tame:
  assumes st: "settled now s" and k: "roles_wf s" and r: "mget (roles s) i = Some r" "r_organizationId r = og" "\<not> r_isOwnerRole r"
    and u: "role_setPermissions i ks v s = (Inr y, s1)" and h: "\<And>p. p \<in> set ks \<Longrightarrow> K p"
  shows "tame now og K lifts drops s s1"
proof -
  obtain wanted r' where r': "s1 = put_role r' s" "sanitizeRolePermissionKeys (Some ks) = Inr wanted" "r_permissionKeys r' = wanted"
    "r_id r' = r_id r" "r_organizationId r' = r_organizationId r" "r_isOwnerRole r' = r_isOwnerRole r"
    using u r(1) by (auto simp: role_setPermissions_def guard_def fails_def returns_def Let_def split: sum.splits option.splits if_splits)
  have "set (r_permissionKeys r') \<subseteq> set ks" using sanitized_keys[OF r'(2)] r'(3) by simp
  then show ?thesis unfolding r'(1) using h r'(4-6) by (intro tame_edit_role[OF st k r]) auto
qed

lemma grantPermission_tame:
  assumes st: "settled now s" and k: "roles_wf s" and r: "mget (roles s) i = Some r" "r_organizationId r = og" "\<not> r_isOwnerRole r"
    and u: "role_grantPermission i p s = (Inr y, s1)" and h: "K p"
  shows "tame now og K lifts drops s s1"
proof -
  have "s1 = s \<or> s1 = put_role (r \<lparr> r_permissionKeys := r_permissionKeys r @ [p], r_version := r_version r + 1 \<rparr>) s"
    using u r(1) by (auto simp: role_grantPermission_def guard_def fails_def returns_def split: sum.splits if_splits)
  moreover have "tame now og K lifts drops s (put_role (r \<lparr> r_permissionKeys := r_permissionKeys r @ [p], r_version := r_version r + 1 \<rparr>) s)"
    using h by (intro tame_edit_role[OF st k r]) auto
  ultimately show ?thesis using tame_refl[OF st] by blast
qed

lemma revokePermission_tame:
  assumes st: "settled now s" and k: "roles_wf s" and r: "mget (roles s) i = Some r" "r_organizationId r = og" "\<not> r_isOwnerRole r"
    and u: "role_revokePermission i p s = (Inr y, s1)"
  shows "tame now og K lifts drops s s1"
proof -
  have "s1 = s \<or> s1 = put_role (r \<lparr> r_permissionKeys := splice_out p (r_permissionKeys r), r_version := r_version r + 1 \<rparr>) s"
    using u r(1) by (auto simp: role_revokePermission_def fails_def returns_def split: if_splits)
  moreover have "tame now og K lifts drops s (put_role (r \<lparr> r_permissionKeys := splice_out p (r_permissionKeys r), r_version := r_version r + 1 \<rparr>) s)"
    using set_remove1_subset[of p "r_permissionKeys r"] by (intro tame_edit_role[OF st k r]) auto
  ultimately show ?thesis using tame_refl[OF st] by blast
qed

text \<open>Deleting a role takes it from everybody who holds it; \<open>reassignTo\<close> gives them the heir.\<close>

lemma detach_rest:
  "teams (detach_role i s) = teams s" "organizations (detach_role i s) = organizations s"
  "permissions (detach_role i s) = permissions s" "supportGrants (detach_role i s) = supportGrants s"
  "identityLinksByFromKey (detach_role i s) = identityLinksByFromKey s" "roles (detach_role i s) = mdel i (roles s)"
  "memberships (detach_role i s) = mmap (\<lambda>m. m \<lparr> m_roleIds := splice_out i (m_roleIds m) \<rparr>) (memberships s)"
  "teamMemberships (detach_role i s) = mmap (\<lambda>t. t \<lparr> tm_roleIds := filter (\<lambda>c. c \<noteq> i) (tm_roleIds t) \<rparr>) (teamMemberships s)"
  by (simp_all add: detach_role_def)

lemma tame_members_recast:
  assumes "\<And>x. x \<in> set (mvals (memberships s)) \<Longrightarrow> came_from now og K s lifts x (g x)" "memberships s' = mmap g (memberships s)"
  shows "tame_members now og K s lifts drops s'"
  unfolding tame_members_def assms(2) using assms(1) by (auto simp: came_from_def)

lemma tame_detach:
  assumes st: "settled now s" and g: "memberships s1 = mmap g (memberships s)"
    and same: "roles s1 = roles s" "teams s1 = teams s" "teamMemberships s1 = teamMemberships s" "same_rest s s1"
    and x: "\<And>x. x \<in> set (mvals (memberships s)) \<Longrightarrow> m_id (g x) = m_id x \<and> m_organizationId (g x) = m_organizationId x \<and> m_identity (g x) = m_identity x \<and>
      m_status (g x) = m_status x \<and> m_blocked (g x) = m_blocked x \<and>
      (\<forall>rid \<in> set (m_roleIds (g x)). rid \<in> set (m_roleIds x) \<or> within_reach og K s rid)"
  shows "tame now og K lifts drops s (detach_role i s1)"
proof -
  have "tame_members now og K s lifts drops (detach_role i s1)"
  proof (rule tame_members_recast)
    show "memberships (detach_role i s1) = mmap (\<lambda>m. (g m) \<lparr> m_roleIds := splice_out i (m_roleIds (g m)) \<rparr>) (memberships s)"
      by (simp add: detach_rest g mmap_mmap)
    fix x0 assume x0: "x0 \<in> set (mvals (memberships s))"
    show "came_from now og K s lifts x0 ((g x0) \<lparr> m_roleIds := splice_out i (m_roleIds (g x0)) \<rparr>)"
      by (rule came_from_same[OF st x0]) (use x[OF x0] set_remove1_subset[of i "m_roleIds (g x0)"] in auto)
  qed
  moreover have "tame_roles og K s (detach_role i s1)" by (auto simp: tame_roles_def detach_rest same split: if_splits)
  moreover have "tame_teams s (detach_role i s1)" by (auto simp: tame_teams_def detach_rest same intro: bexI)
  moreover have "same_rest s (detach_role i s1)" using same(4) by (simp add: same_rest_def detach_rest)
  ultimately show ?thesis by (simp add: tame_def)
qed

lemma role_delete_tame:
  assumes st: "settled now s" and k: "roles_wf s" and u: "role_delete i members s = (Inr y, s1)"
    and h: "\<And>t. members = ReassignTo t \<Longrightarrow> within_reach og K s t"
  shows "tame now og K lifts drops s s1"
proof -
  have plain: "tame now og K lifts drops s (detach_role i s)"
    by (rule tame_detach[OF st, where g = "\<lambda>m. m"]) (simp_all add: mmap_ident tame_parts_refl)
  show ?thesis
  proof (cases members)
    case (ReassignTo t)
    define g :: "membership \<Rightarrow> membership" where "g = (\<lambda>m. if i \<in> set (m_roleIds m) \<and> t \<notin> set (m_roleIds m) then m \<lparr> m_roleIds := m_roleIds m @ [t] \<rparr> else m)"
    obtain r where r: "mget (roles s) t = Some r" using h[OF ReassignTo] unfolding within_reach_def by blast
    have "r_id r = t" using keyed_get[OF roles_keyed[OF k] r] .
    then have s1: "s1 = detach_role i (s \<lparr> memberships := mmap g (memberships s) \<rparr>)"
      using u ReassignTo r unfolding g_def by (auto simp: role_delete_def fails_def returns_def split: option.splits if_splits)
    show ?thesis unfolding s1
      by (rule tame_detach[OF st, where g = g]) (use h[OF ReassignTo] in \<open>auto simp: g_def same_rest_def\<close>)
  qed (use u plain in \<open>auto simp: role_delete_def fails_def returns_def split: option.splits if_splits\<close>)
qed

end
