(* ===== verification/AccessRules.thy ===== *)
theory AccessRules
  imports AccessTame
begin

text \<open>
  What the access service guarantees: the rules of \<open>packages/core/src/access/service.ts\<close>, proved of the commands of
  \<open>AccessService\<close>.  A command that succeeds passed its checks on one store and took one guarded write on it; the lemmas read off
  what was checked and apply \<open>AccessTame\<close>.
\<close>

section \<open>Commands that succeed\<close>

lemma a_then_Inr: "a_then p k st = (Inr y, st') \<longleftrightarrow> (\<exists>x st1. p st = (Inr x, st1) \<and> k x st1 = (Inr y, st'))"
  by (auto simp: a_then_def split: prod.splits sum.splits)

lemma a_check_Inr: "a_check r st = (Inr x, st') \<longleftrightarrow> r = Inr x \<and> st' = st"
  by (auto simp: a_check_def)

lemma a_read_Inr: "a_read p st = (Inr x, st') \<longleftrightarrow> x = fst (p (as_store st)) \<and> st' = st \<lparr> as_store := snd (p (as_store st)) \<rparr>"
  by (auto simp: a_read_def a_store_def case_prod_unfold Let_def)

lemma same_store: "st \<lparr> as_store := as_store st \<rparr> = (st :: access_state)"
  by simp

text \<open>Reads of a calm store change nothing.\<close>

lemma memberOf_Inr:
  assumes "memberOf env who i st = (Inr m, st')" "calm (ae_now env) (as_store st)"
  shows "st' = st \<and> mget (memberships (as_store st)) i = Some m \<and> m_organizationId m = aa_organizationId who"
proof -
  have l: "lapseBlocks (ae_now env) (as_store st) = as_store st" using assms(2) by (simp add: calm_def)
  have "assertText i = Inr x \<Longrightarrow> x = i" for x by (simp add: assertText_def split: if_splits)
  then show ?thesis using assms(1)
    by (auto simp: memberOf_def a_then_Inr a_check_Inr a_read_Inr mem_findById_def Let_def l simp del: lapseBlocks_simps(3)
        split: option.splits if_splits)
qed

lemma roleOf_Inr:
  assumes "roleOf who i st = (Inr r, st')"
  shows "st' = st \<and> mget (roles (as_store st)) i = Some r \<and> r_organizationId r = aa_organizationId who"
proof -
  have "assertText i = Inr x \<Longrightarrow> x = i" for x by (simp add: assertText_def split: if_splits)
  then show ?thesis using assms
    by (auto simp: roleOf_def a_then_Inr a_check_Inr a_read_Inr role_findByIds_def List.map_filter_def split: option.splits if_splits)
qed

lemma assertRegular_Inr: "assertRegular r st = (Inr u, st') \<Longrightarrow> st' = st \<and> \<not> r_isOwnerRole r"
  by (auto simp: assertRegular_def a_check_Inr split: if_splits)

lemma assertRegistered_Inr: "assertRegistered keys st = (Inr u, st') \<Longrightarrow> st' = st"
  by (auto simp: assertRegistered_def a_then_Inr a_check_Inr a_read_Inr split: if_splits)

lemma assertHolds_Inr: "assertHolds mine n st = (Inr u, st') \<Longrightarrow> st' = st \<and> covers mine n"
  by (auto simp: assertHolds_def a_check_Inr split: if_splits)

text \<open>What the actor holds on a store.\<close>

definition power_of :: "access_env \<Rightarrow> access_actor \<Rightarrow> store \<Rightarrow> holdings" where
  "power_of env who s = fst (holdingsOf (ae_now env) (aa_organizationId who) (aa_actor who) s)"

lemma a_holdings_Inr:
  assumes "a_holdings env who st = (Inr h, st')" "calm (ae_now env) (as_store st)"
  shows "st' = st \<and> h = power_of env who (as_store st)"
  using assms by (auto simp: a_holdings_def a_read_Inr holdingsOf_store power_of_def calm_def)

lemma assertCanTouchMember_Inr:
  assumes "assertCanTouchMember env who m st = (Inr h, st')" "calm (ae_now env) (as_store st)"
  shows "st' = st \<and> h = power_of env who (as_store st) \<and> covers h (needsOfMembership (as_store st) m) \<and>
    \<not> fst (isSameMember (ae_now env) (aa_actor who) m (as_store st))"
proof -
  have "snd (isSameMember (ae_now env) (aa_actor who) m (as_store st)) = as_store st"
    using assms(2) by (simp add: isSameMember_def calm_def case_prod_unfold)
  then show ?thesis using assms
    by (auto simp: assertCanTouchMember_def a_then_Inr a_check_Inr a_read_Inr dest!: a_holdings_Inr split: if_splits)
qed

lemma assertCanTouchRole_Inr:
  assumes "assertCanTouchRole env who r st = (Inr h, st')" "calm (ae_now env) (as_store st)"
  shows "st' = st \<and> h = power_of env who (as_store st) \<and> covers h (needsOfRole r)"
  using assms by (auto simp: assertCanTouchRole_def a_then_Inr a_check_Inr dest!: a_holdings_Inr split: if_splits)

lemma assertHeir_Inr:
  assumes "assertHeir who mine members st = (Inr u, st')"
  shows "st' = st \<and> (\<forall>t. members = ReassignTo t \<longrightarrow>
    (\<exists>r. mget (roles (as_store st)) t = Some r \<and> r_organizationId r = aa_organizationId who \<and> \<not> r_isOwnerRole r \<and> covers mine (needsOfRole r)))"
  using assms
  by (auto simp: assertHeir_def a_then_Inr a_check_Inr dest!: roleOf_Inr assertRegular_Inr assertHolds_Inr split: members_policy.splits)

lemmas access_steps = memberOf_Inr roleOf_Inr assertRegular_Inr assertRegistered_Inr assertHolds_Inr a_holdings_Inr
  assertCanTouchMember_Inr assertCanTouchRole_Inr assertHeir_Inr

text \<open>The gate, and the store the rules are checked on.\<close>

lemma access_write_Inr:
  assumes "access_write env who permission operation target work st = (Inr x, st')"
  shows "work (st \<lparr> as_store := lapseBlocks (ae_now env) (as_store st) \<rparr>) = (Inr x, st') \<and>
    fst (fst (engine_can (ae_engine env) (ae_now env) (ask (aa_organizationId who) (aa_actor who) permission) (as_store st)))"
proof -
  obtain d s1 where d: "decideCan (ae_engine env) (ae_now env) (ask (aa_organizationId who) (aa_actor who) permission) (as_store st) = (d, s1)"
    by fastforce
  obtain r st2 where w: "work (st \<lparr> as_store := s1 \<rparr>) = (r, st2)" by fastforce
  have a: "bd_allowed d" "work (st \<lparr> as_store := s1 \<rparr>) = (Inr x, st')"
    using assms d w by (auto simp: access_write_def engine_can_def Let_def case_prod_unfold split: sum.splits if_splits)
  have "isWellFormedPermissionKey permission"
    using a(1) d by (cases "isWellFormedPermissionKey permission") (auto simp: decideCan_def)
  then have "s1 = lapseBlocks (ae_now env) (as_store st)"
    using decideCan_store[of "ae_engine env" "ae_now env" "ask (aa_organizationId who) (aa_actor who) permission" "as_store st"] d by simp
  then show ?thesis using a d by (simp add: engine_can_def)
qed

text \<open>The write itself: what the plain operation does, but for the log and the outbox.\<close>

lemma checked_Inr: "let_through ok p s = (Inr x, s') \<longleftrightarrow> is_ok ok \<and> p s = (Inr x, s')"
  by (cases ok) (auto simp: let_through_def fails_def)

lemma a_guarded_Inr:
  assumes w: "a_guarded env who b w call st = (Inr x, st')" and m: "\<And>ok. mirrors ae (call ok) (let_through ok p)"
  obtains s1 where "p (as_store st) = (Inr x, s1)" "forget (as_store st') = forget s1"
proof -
  obtain ok where c: "call ok (as_store st) = (Inr x, as_store st')"
    using w by (auto simp: a_guarded_def Let_def case_prod_unfold prod_eq_iff)
  have q: "fst (let_through ok p (as_store st)) = Inr x" "forget (as_store st') = forget (snd (let_through ok p (as_store st)))"
    using m[of ok] c unfolding mirrors_def by (metis fst_conv, metis snd_conv)
  then have "p (as_store st) = (Inr x, snd (let_through ok p (as_store st)))"
    using checked_Inr[of ok p "as_store st" x "snd (let_through ok p (as_store st))"] by (metis prod.collapse)
  then show thesis using that q(2) by blast
qed

lemma a_guarded_refreshed_Inr:
  assumes w: "a_guarded env who b w call st = (Inr x, st')" and m: "\<And>ok. mirrors ae (call ok) (refreshed ae (let_through ok p))"
    and c: "calm (au_now ae) (as_store st)"
  obtains s1 where "p (as_store st) = (Inr x, s1)" "forget (as_store st') = forget s1"
proof -
  obtain ok where c': "call ok (as_store st) = (Inr x, as_store st')"
    using w by (auto simp: a_guarded_def Let_def case_prod_unfold prod_eq_iff)
  have r: "refreshed ae (let_through ok p) (as_store st) = let_through ok p (as_store st)" using c by (simp add: refreshed_def calm_def)
  have q: "fst (let_through ok p (as_store st)) = Inr x" "forget (as_store st') = forget (snd (let_through ok p (as_store st)))"
    using m[of ok] c' r unfolding mirrors_def by (metis fst_conv, metis snd_conv)
  then have "p (as_store st) = (Inr x, snd (let_through ok p (as_store st)))"
    using checked_Inr[of ok p "as_store st" x "snd (let_through ok p (as_store st))"] by (metis prod.collapse)
  then show thesis using that q(2) by blast
qed

section \<open>All commands\<close>

datatype access_command =
    AAssignRole string string "int option"
  | AUnassignRole string string "int option"
  | ABlockMember string "string option" "int option"
  | ASuspendMember string date_in "string option" "int option"
  | AUnblockMember string "int option"
  | ARemoveMember string
  | ACreateRole create_role_command
  | AUpdateRole string update_role
  | ASetRolePermissions string "string list" "int option"
  | AGrantRolePermission string string
  | ARevokeRolePermission string string
  | ACloneRole string clone_role_command
  | ADeleteRole string members_policy

definition a_quiet :: "'a access_op \<Rightarrow> unit access_op" where
  "a_quiet p = a_then p (\<lambda>_. a_check (Inr ()))"

fun access_exec :: "access_env \<Rightarrow> access_actor \<Rightarrow> access_command \<Rightarrow> unit access_op" where
  "access_exec env who (AAssignRole m r v) = a_quiet (ac_assignRole env who m r v)"
| "access_exec env who (AUnassignRole m r v) = a_quiet (ac_unassignRole env who m r v)"
| "access_exec env who (ABlockMember m reason v) = a_quiet (ac_blockMember env who m reason v)"
| "access_exec env who (ASuspendMember m until reason v) = a_quiet (ac_suspendMember env who m until reason v)"
| "access_exec env who (AUnblockMember m v) = a_quiet (ac_unblockMember env who m v)"
| "access_exec env who (ARemoveMember m) = ac_removeMember env who m"
| "access_exec env who (ACreateRole i) = a_quiet (ac_createRole env who i)"
| "access_exec env who (AUpdateRole r i) = a_quiet (ac_updateRole env who r i)"
| "access_exec env who (ASetRolePermissions r ks v) = a_quiet (ac_setRolePermissions env who r ks v)"
| "access_exec env who (AGrantRolePermission r k) = a_quiet (ac_grantRolePermission env who r k)"
| "access_exec env who (ARevokeRolePermission r k) = a_quiet (ac_revokeRolePermission env who r k)"
| "access_exec env who (ACloneRole r i) = a_quiet (ac_cloneRole env who r i)"
| "access_exec env who (ADeleteRole r members) = ac_deleteRole env who r members"

text \<open>The member a command lets back in, and the one it removes.\<close>

fun lifted_by :: "access_command \<Rightarrow> string option" where
  "lifted_by (AUnblockMember m v) = Some m"
| "lifted_by _ = None"

fun removed_by :: "access_command \<Rightarrow> string option" where
  "removed_by (ARemoveMember m) = Some m"
| "removed_by _ = None"

lemma a_quiet_Inr: "a_quiet p st = (Inr u, st') \<longleftrightarrow> (\<exists>x. p st = (Inr x, st'))"
  by (auto simp: a_quiet_def a_then_Inr a_check_Inr)

lemma covers_role: "mget (roles s) i = Some r \<Longrightarrow> r_organizationId r = og \<Longrightarrow> covers h (needsOfRole r) \<Longrightarrow> within_reach og (has_key h) s i"
  by (auto simp: within_reach_def covers_iff needsOfRole_def has_key_iff)

lemma covers_member:
  assumes "covers h (needsOfMembership s m)" "m_organizationId m = og"
  shows "reachable_member og (has_key h) s m"
  unfolding reachable_member_def
proof (intro conjI ballI allI impI)
  fix rid r assume r: "rid \<in> set (m_roleIds m)" "mget (roles s) rid = Some r" "r_organizationId r = og"
  then have "r \<in> set (rolesOf s m)" using assms(2) by (auto simp: rolesOf_set)
  then have "covers h (needsOfRole r)"
    using assms(1) by (auto simp: covers_iff needsOfMembership_def needsOfRoles_def needsOfRole_def list_ex_iff)
  then show "within_reach og (has_key h) s rid" by (rule covers_role[OF r(2,3)])
qed (rule assms(2))

lemma grants_trans: "grants plain s og k rid \<Longrightarrow> (k, p) \<in> (implied s)\<^sup>* \<Longrightarrow> grants plain s og p rid"
  unfolding grants_plain by (blast intro: rtrancl_trans)

lemma may_hold_trans:
  assumes "may_hold now og i s k" "(k, p) \<in> (implied s)\<^sup>*"
  shows "may_hold now og i s p"
proof -
  let ?found = "fst (mem_findByIdentity now og i s)"
  have base: "organizationIsActive s og" "\<forall>m. ?found = Some m \<longrightarrow> m_status m = MActive"
    using assms(1) by (simp_all add: may_hold_def Let_def)
  consider m rid where "?found = Some m" "rid \<in> set (m_roleIds m)" "grants plain s og k rid"
    | g q where "g \<in> set (mvals (supportGrants s))" "gives og [i, resolve s i] now g" "q \<in> set (g_permissions g)" "(q, k) \<in> (implied s)\<^sup>*"
    using assms(1) unfolding may_hold_def Let_def by blast
  then show ?thesis
  proof cases
    case 1
    have "grants plain s og p rid" by (rule grants_trans[OF 1(3) assms(2)])
    then show ?thesis using 1(1,2) base unfolding may_hold_def Let_def by blast
  next
    case 2
    have "(q, p) \<in> (implied s)\<^sup>*" by (rule rtrancl_trans[OF 2(4) assms(2)])
    then have "\<exists>g \<in> set (mvals (supportGrants s)). gives og [i, resolve s i] now g \<and> (\<exists>k \<in> set (g_permissions g). (k, p) \<in> (implied s)\<^sup>*)"
      using 2(1-3) by (intro bexI[of _ g] conjI bexI[of _ q])
    then show ?thesis using base unfolding may_hold_def Let_def by (intro conjI disjI2)
  qed
qed

lemma power_closed:
  assumes "perms_wf s"
  shows "closed s (has_key (power_of env who s))"
  unfolding closed_def power_of_def holdings_held[OF assms] by (blast intro: may_hold_trans)

text \<open>Facts about the store the rules are checked on.\<close>

lemma refreshed_store:
  assumes "members_ok s" "tm_ok s" "perms_wf s"
  shows "members_ok (lapseBlocks now s)" "tm_ok (lapseBlocks now s)" "perms_wf (lapseBlocks now s)"
    "mem_keyed (lapseBlocks now s)" "roles_wf (lapseBlocks now s)" "keyed tm_id (teamMemberships (lapseBlocks now s))"
proof -
  have "mem_step id clean_identity s (lapseBlocks now s)" by (rule mem_step.reads)
  then show m: "members_ok (lapseBlocks now s)" using mem_step_ok assms(1) by blast
  have t: "team_role (lapseBlocks now s) = team_role s" by (intro ext) (simp add: team_role_def)
  have r: "roles_wf (lapseBlocks now s) = roles_wf s" by (simp add: roles_wf_def)
  have "tm_ok (lapseBlocks now s) = tm_ok s" unfolding tm_ok_def lapsed_views(5) t r ..
  then show "tm_ok (lapseBlocks now s)" using assms(2) by blast
  then show "keyed tm_id (teamMemberships (lapseBlocks now s))" by (simp add: tm_ok_def)
  show "perms_wf (lapseBlocks now s)" using assms(3) by (simp add: perms_wf_def implied_def)
  show "mem_keyed (lapseBlocks now s)" "roles_wf (lapseBlocks now s)" using m by (simp_all add: members_ok_def people_def)
qed

lemma access_success:
  assumes "access_write env who permission operation target work st = (Inr x, st')"
  obtains st0 where "work st0 = (Inr x, st')" "as_store st0 = lapseBlocks (ae_now env) (as_store st)" "calm (ae_now env) (as_store st0)"
  using access_write_Inr[OF assms] calm_lapse by (metis access_state.select_convs(1) access_state.surjective access_state.update_convs(1))

text \<open>Each guarded call of the service, when it succeeds, did what the repository operation does.\<close>

lemma audit_env_now [simp]: "au_now (audit_env_of env a) = ae_now env"
  by (simp add: audit_env_of_def)

lemma guarded_assign:
  assumes "a_guarded env who b w (\<lambda>ok. aud_mem_assignRole (audit_env_of env a) ok i rid v) st = (Inr x, st')" "calm (ae_now env) (as_store st)"
  shows "\<exists>s1. mem_assignRole (ae_now env) i rid v (as_store st) = (Inr x, s1) \<and> forget (as_store st') = forget s1"
  using a_guarded_refreshed_Inr[OF assms(1) members_mirrored(2)] assms(2) by (metis audit_env_now)

lemma guarded_unassign:
  assumes "a_guarded env who b w (\<lambda>ok. aud_mem_unassignRole (audit_env_of env a) ok i rid v) st = (Inr x, st')" "calm (ae_now env) (as_store st)"
  shows "\<exists>s1. mem_unassignRole (ae_now env) i rid v (as_store st) = (Inr x, s1) \<and> forget (as_store st') = forget s1"
  using a_guarded_refreshed_Inr[OF assms(1) members_mirrored(4)] assms(2) by (metis audit_env_now)

lemma guarded_block:
  assumes "a_guarded env who b w (\<lambda>ok. aud_mem_block (audit_env_of env a) ok i bl) st = (Inr x, st')" "calm (ae_now env) (as_store st)"
  shows "\<exists>s1. mem_block (ae_now env) i bl (as_store st) = (Inr x, s1) \<and> forget (as_store st') = forget s1"
  using a_guarded_refreshed_Inr[OF assms(1) members_mirrored(6)] assms(2) by (metis audit_env_now)

lemma guarded_suspend:
  assumes "a_guarded env who b w (\<lambda>ok. aud_mem_suspend (audit_env_of env a) ok i bl u) st = (Inr x, st')" "calm (ae_now env) (as_store st)"
  shows "\<exists>s1. mem_suspend (ae_now env) i bl u (as_store st) = (Inr x, s1) \<and> forget (as_store st') = forget s1"
  using a_guarded_refreshed_Inr[OF assms(1) members_mirrored(7)] assms(2) by (metis audit_env_now)

lemma guarded_unblock:
  assumes "a_guarded env who b w (\<lambda>ok. aud_mem_unblock (audit_env_of env a) ok i a2 v) st = (Inr x, st')" "calm (ae_now env) (as_store st)"
  shows "\<exists>s1. mem_unblock (ae_now env) i v (as_store st) = (Inr x, s1) \<and> forget (as_store st') = forget s1"
  using a_guarded_refreshed_Inr[OF assms(1) members_mirrored(8)] assms(2) by (metis audit_env_now)

lemma guarded_delete:
  assumes "a_guarded env who b w (\<lambda>ok. aud_mem_delete (audit_env_of env a) ok i) st = (Inr x, st')" "calm (ae_now env) (as_store st)"
  shows "\<exists>s1. mem_delete (ae_now env) i (as_store st) = (Inr x, s1) \<and> forget (as_store st') = forget s1"
  using a_guarded_refreshed_Inr[OF assms(1) members_mirrored(9)] assms(2) by (metis audit_env_now)

lemma guarded_create_role:
  assumes "a_guarded env who b w (\<lambda>ok. aud_role_create (audit_env_of env a) ok inp) st = (Inr x, st')"
  shows "\<exists>s1. role_create inp (as_store st) = (Inr x, s1) \<and> forget (as_store st') = forget s1"
  using a_guarded_Inr[OF assms roles_mirrored(2)] by metis

lemma guarded_update_role:
  assumes "a_guarded env who b w (\<lambda>ok. aud_role_update (audit_env_of env a) ok i inp) st = (Inr x, st')"
  shows "\<exists>s1. role_update i inp (as_store st) = (Inr x, s1) \<and> forget (as_store st') = forget s1"
  using a_guarded_Inr[OF assms roles_mirrored(6)] by metis

lemma guarded_set_permissions:
  assumes "a_guarded env who b w (\<lambda>ok. aud_role_setPermissions (audit_env_of env a) ok i ks v) st = (Inr x, st')"
  shows "\<exists>s1. role_setPermissions i ks v (as_store st) = (Inr x, s1) \<and> forget (as_store st') = forget s1"
  using a_guarded_Inr[OF assms roles_mirrored(7)] by metis

lemma guarded_grant_permission:
  assumes "a_guarded env who b w (\<lambda>ok. aud_role_grantPermission (audit_env_of env a) ok i p) st = (Inr x, st')"
  shows "\<exists>s1. role_grantPermission i p (as_store st) = (Inr x, s1) \<and> forget (as_store st') = forget s1"
  using a_guarded_Inr[OF assms roles_mirrored(3)] by metis

lemma guarded_revoke_permission:
  assumes "a_guarded env who b w (\<lambda>ok. aud_role_revokePermission (audit_env_of env a) ok i p) st = (Inr x, st')"
  shows "\<exists>s1. role_revokePermission i p (as_store st) = (Inr x, s1) \<and> forget (as_store st') = forget s1"
  using a_guarded_Inr[OF assms roles_mirrored(4)] by metis

lemma guarded_clone_role:
  assumes "a_guarded env who b w (\<lambda>ok. aud_role_clone (audit_env_of env a) ok i inp) st = (Inr x, st')"
  shows "\<exists>s1. role_clone i inp (as_store st) = (Inr x, s1) \<and> forget (as_store st') = forget s1"
  using a_guarded_Inr[OF assms roles_mirrored(8)] by metis

lemma guarded_delete_role:
  assumes "a_guarded env who b w (\<lambda>ok. aud_role_delete (audit_env_of env a) ok i members) st = (Inr x, st')"
  shows "\<exists>s1. role_delete i members (as_store st) = (Inr x, s1) \<and> forget (as_store st') = forget s1"
  using a_guarded_Inr[OF assms roles_mirrored(9)] by metis

section \<open>Every command is tame\<close>

definition own :: "access_env \<Rightarrow> access_actor \<Rightarrow> store \<Rightarrow> string \<Rightarrow> bool" where
  "own env who s = has_key (power_of env who s)"

text \<open>The store reached: one operation of the repositories, perhaps a later read, and entries of the log and the outbox.\<close>

definition reached :: "store \<Rightarrow> store \<Rightarrow> bool" where
  "reached s s' \<longleftrightarrow> (\<exists>s1. (mem_step id clean_identity)\<^sup>*\<^sup>* s s1 \<and> forget s' = forget s1)"

definition harmless :: "access_env \<Rightarrow> access_actor \<Rightarrow> string option \<Rightarrow> string option \<Rightarrow> store \<Rightarrow> store \<Rightarrow> bool" where
  "harmless env who lifts drops s s' \<longleftrightarrow> tame (ae_now env) (aa_organizationId who) (own env who s) lifts drops s s' \<and> reached s s'"

lemma harmlessI:
  "mem_step id clean_identity s s1 \<Longrightarrow> tame (ae_now env) (aa_organizationId who) (own env who s) lifts drops s s1 \<Longrightarrow> harmless env who lifts drops s s1"
  unfolding harmless_def reached_def by blast

lemma harmless_forget: "harmless env who lifts drops s s1 \<Longrightarrow> forget s' = forget s1 \<Longrightarrow> harmless env who lifts drops s s'"
  unfolding harmless_def reached_def using tame_forget[of _ _ _ _ _ s s1 s'] by simp

lemma forget_lapse:
  assumes "forget s' = forget s"
  shows "forget (lapseBlocks now s') = forget (lapseBlocks now s)"
proof -
  have "forget (lapseBlocks now r) = (forget r) \<lparr> memberships := mmap (lapse now) (memberships r) \<rparr>" for r
    by (simp add: forget_def lapseBlocks_def)
  then show ?thesis using assms by (simp add: forget_eq[OF assms])
qed

lemma harmless_reload:
  assumes "harmless env who lifts drops s s1" "forget s' = forget s1"
  shows "harmless env who lifts drops s (lapseBlocks (ae_now env) s')"
proof -
  obtain s2 where s2: "(mem_step id clean_identity)\<^sup>*\<^sup>* s s2" "forget s1 = forget s2" using assms(1) unfolding harmless_def reached_def by blast
  have "(mem_step id clean_identity)\<^sup>*\<^sup>* s (lapseBlocks (ae_now env) s2)"
    using s2(1) mem_step.reads by (rule rtranclp.rtrancl_into_rtrancl)
  moreover have "forget (lapseBlocks (ae_now env) s') = forget (lapseBlocks (ae_now env) s2)"
    using assms(2) s2(2) by (intro forget_lapse) simp
  ultimately show ?thesis using assms unfolding harmless_def reached_def by (blast intro: tame_lapse tame_forget)
qed

lemma step_assign: "mem_assignRole now i rid v s = (Inr x, s1) \<Longrightarrow> mem_step H ok s s1"
  using mem_step.assigns[of H ok s now i rid v] by simp

lemma step_unassign: "mem_unassignRole now i rid v s = (Inr x, s1) \<Longrightarrow> mem_step H ok s s1"
  using mem_step.unassigns[of H ok s now i rid v] by simp

lemma step_block: "mem_block now i b s = (Inr x, s1) \<Longrightarrow> mem_step H ok s s1"
  using mem_step.blocks[of H ok s now i b] by simp

lemma step_suspend: "mem_suspend now i b until s = (Inr x, s1) \<Longrightarrow> mem_step H ok s s1"
  using mem_step.suspends[of H ok s now i b until] by simp

lemma step_unblock: "mem_unblock now i v s = (Inr x, s1) \<Longrightarrow> mem_step H ok s s1"
  using mem_step.unblocks[of H ok s now i v] by simp

lemma step_delete: "mem_delete now i s = (Inr x, s1) \<Longrightarrow> mem_step H ok s s1"
  using mem_step.deletes[of H ok s now i] by simp

lemma step_role:
  "role_create inp s = (Inr r, s1) \<Longrightarrow> mem_step H ok s s1"
  "role_update i u s = (Inr r, s1) \<Longrightarrow> mem_step H ok s s1"
  "role_setPermissions i ks v s = (Inr q, s1) \<Longrightarrow> mem_step H ok s s1"
  "role_grantPermission i p s = (Inr y, s1) \<Longrightarrow> mem_step H ok s s1"
  "role_revokePermission i p s = (Inr y, s1) \<Longrightarrow> mem_step H ok s s1"
  "role_clone i c s = (Inr r, s1) \<Longrightarrow> mem_step H ok s s1"
  "role_delete i m s = (Inr y, s1) \<Longrightarrow> mem_step H ok s s1"
  using mem_step.roles[of H ok s "RCreate inp"] mem_step.roles[of H ok s "RUpdate i u"] mem_step.roles[of H ok s "RSetPermissions i ks v"]
    mem_step.roles[of H ok s "RGrant i p"] mem_step.roles[of H ok s "RRevoke i p"] mem_step.roles[of H ok s "RClone i c"]
    mem_step.roles[of H ok s "RDelete i m"]
  by simp_all

text \<open>The rows are well formed and no suspension has ended.\<close>

definition ready :: "access_env \<Rightarrow> store \<Rightarrow> bool" where
  "ready env s \<longleftrightarrow> calm (ae_now env) s \<and> mem_keyed s \<and> roles_wf s \<and> keyed tm_id (teamMemberships s)"

lemma role_in_reach:
  "mget (roles s) i = Some r \<Longrightarrow> r_organizationId r = aa_organizationId who \<Longrightarrow> covers (power_of env who s) (needsOfRole r) \<Longrightarrow>
    within_reach (aa_organizationId who) (own env who s) s i"
  unfolding own_def by (rule covers_role)

lemma member_in_reach:
  "m_organizationId m = aa_organizationId who \<Longrightarrow> covers (power_of env who s) (needsOfMembership s m) \<Longrightarrow>
    reachable_member (aa_organizationId who) (own env who s) s m"
  unfolding own_def by (rule covers_member)

lemma covers_keys: "covers h (keys_needed ks) \<longleftrightarrow> (\<forall>p \<in> set ks. has_key h p)"
  by (simp add: covers_iff keys_needed_def)

lemma covers_join: "covers h (joinNeeds a b) \<longleftrightarrow> covers h a \<and> covers h b"
  by (auto simp: covers_iff joinNeeds_def)

lemmas success_simps = a_then_Inr reload_def reloadRole_def a_read_Inr mem_findById_def Let_def

lemma ids_of_rows:
  "ready env s \<Longrightarrow> mget (memberships s) i = Some m \<Longrightarrow> m_id m = i"
  "ready env s \<Longrightarrow> mget (roles s) j = Some r \<Longrightarrow> r_id r = j"
  by (auto simp: ready_def mem_keyed_get keyed_get[OF roles_keyed])

lemma assignRole_tame:
  assumes "ac_assignRole env who i rid v st = (Inr x, st')" "ready env (lapseBlocks (ae_now env) (as_store st))"
  shows "harmless env who None None (lapseBlocks (ae_now env) (as_store st)) (as_store st')"
proof (rule access_success[OF assms(1)[unfolded ac_assignRole_def]], goal_cases)
  case (1 st0)
  let ?s = "as_store st0"
  have r: "ready env ?s" using assms(2) 1(2) by simp
  obtain m role s1 s2 where a: "mget (memberships ?s) i = Some m" "mget (roles ?s) rid = Some role" "r_organizationId role = aa_organizationId who"
    "covers (power_of env who ?s) (needsOfRole role)" "mem_assignRole (ae_now env) (m_id m) (r_id role) v ?s = (Inr (), s1)"
    "forget s2 = forget s1" "as_store st' = lapseBlocks (ae_now env) s2"
    using 1(1,3) by (fastforce simp: success_simps dest!: access_steps guarded_assign)
  have "harmless env who None None ?s s1"
    by (rule harmlessI[OF step_assign[OF a(5)]], rule assign_tame[OF _ _ a(5)])
      (use r a role_in_reach[OF a(2-4)] ids_of_rows[OF r] in \<open>simp_all add: ready_def calm_settled\<close>)
  then show ?case using harmless_reload[OF _ a(6)] a(7) 1(2) by simp
qed

lemma unassignRole_tame:
  assumes "ac_unassignRole env who i rid v st = (Inr x, st')" "ready env (lapseBlocks (ae_now env) (as_store st))"
  shows "harmless env who None None (lapseBlocks (ae_now env) (as_store st)) (as_store st')"
proof (rule access_success[OF assms(1)[unfolded ac_unassignRole_def]], goal_cases)
  case (1 st0)
  let ?s = "as_store st0"
  have r: "ready env ?s" using assms(2) 1(2) by simp
  obtain m role s1 s2 where a: "mget (memberships ?s) i = Some m" "mget (roles ?s) rid = Some role"
    "mem_unassignRole (ae_now env) (m_id m) (r_id role) v ?s = (Inr (), s1)"
    "forget s2 = forget s1" "as_store st' = lapseBlocks (ae_now env) s2"
    using 1(1,3) by (fastforce simp: success_simps dest!: access_steps guarded_unassign)
  have "harmless env who None None ?s s1"
    by (rule harmlessI[OF step_unassign[OF a(3)]], rule unassign_tame[OF _ _ a(3)])
      (use r a  ids_of_rows[OF r] in \<open>simp_all add: ready_def calm_settled\<close>)
  then show ?case using harmless_reload[OF _ a(4)] a(5) 1(2) by simp
qed

lemma blockMember_tame:
  assumes "ac_blockMember env who i reason v st = (Inr x, st')" "ready env (lapseBlocks (ae_now env) (as_store st))"
  shows "harmless env who None None (lapseBlocks (ae_now env) (as_store st)) (as_store st')"
proof (rule access_success[OF assms(1)[unfolded ac_blockMember_def]], goal_cases)
  case (1 st0)
  let ?s = "as_store st0"
  have r: "ready env ?s" using assms(2) 1(2) by simp
  obtain m s1 where a: "mget (memberships ?s) i = Some m" "mem_block (ae_now env) (m_id m) (block_of who reason v) ?s = (Inr x, s1)"
    "forget (as_store st') = forget s1"
    using 1(1,3) by (fastforce simp: success_simps dest!: access_steps guarded_block)
  have "harmless env who None None ?s s1"
    by (rule harmlessI[OF step_block[OF a(2)]], rule block_tame[OF _ _ a(2)])
      (use r a  ids_of_rows[OF r] in \<open>simp_all add: ready_def calm_settled\<close>)
  then show ?case using harmless_forget[OF _ a(3)] 1(2) by simp
qed

lemma suspendMember_tame:
  assumes "ac_suspendMember env who i until reason v st = (Inr x, st')" "ready env (lapseBlocks (ae_now env) (as_store st))"
  shows "harmless env who None None (lapseBlocks (ae_now env) (as_store st)) (as_store st')"
proof (rule access_success[OF assms(1)[unfolded ac_suspendMember_def]], goal_cases)
  case (1 st0)
  let ?s = "as_store st0"
  have r: "ready env ?s" using assms(2) 1(2) by simp
  obtain m s1 where a: "mget (memberships ?s) i = Some m" "mem_suspend (ae_now env) (m_id m) (block_of who reason v) (Some until) ?s = (Inr x, s1)"
    "forget (as_store st') = forget s1"
    using 1(1,3) by (fastforce simp: success_simps dest!: access_steps guarded_suspend)
  have "harmless env who None None ?s s1"
    by (rule harmlessI[OF step_suspend[OF a(2)]], rule suspend_tame[OF _ _ a(2)])
      (use r a  ids_of_rows[OF r] in \<open>simp_all add: ready_def calm_settled\<close>)
  then show ?case using harmless_forget[OF _ a(3)] 1(2) by simp
qed

lemma unblockMember_tame:
  assumes "ac_unblockMember env who i v st = (Inr x, st')" "ready env (lapseBlocks (ae_now env) (as_store st))"
  shows "harmless env who (Some i) None (lapseBlocks (ae_now env) (as_store st)) (as_store st')"
proof (rule access_success[OF assms(1)[unfolded ac_unblockMember_def]], goal_cases)
  case (1 st0)
  let ?s = "as_store st0"
  have r: "ready env ?s" using assms(2) 1(2) by simp
  obtain m s1 where a: "mget (memberships ?s) i = Some m" "m_organizationId m = aa_organizationId who"
    "covers (power_of env who ?s) (needsOfMembership ?s m)" "mem_unblock (ae_now env) i v ?s = (Inr x, s1)"
    "forget (as_store st') = forget s1"
    using 1(1,3) ids_of_rows[OF r] by (fastforce simp: success_simps dest!: access_steps guarded_unblock)
  have "harmless env who (Some i) None ?s s1"
    by (rule harmlessI[OF step_unblock[OF a(4)]], rule unblock_tame[OF _ _ a(4)])
      (use r a member_in_reach[OF a(2,3)] ids_of_rows[OF r] in \<open>simp_all add: ready_def calm_settled\<close>)
  then show ?case using harmless_forget[OF _ a(5)] 1(2) by simp
qed

lemma removeMember_tame:
  assumes "ac_removeMember env who i st = (Inr x, st')" "ready env (lapseBlocks (ae_now env) (as_store st))"
  shows "harmless env who None (Some i) (lapseBlocks (ae_now env) (as_store st)) (as_store st')"
proof (rule access_success[OF assms(1)[unfolded ac_removeMember_def]], goal_cases)
  case (1 st0)
  let ?s = "as_store st0"
  have r: "ready env ?s" using assms(2) 1(2) by simp
  obtain m s1 where a: "mget (memberships ?s) i = Some m" "m_organizationId m = aa_organizationId who"
    "mem_delete (ae_now env) i ?s = (Inr x, s1)" "forget (as_store st') = forget s1"
    using 1(1,3) ids_of_rows[OF r] by (fastforce simp: success_simps dest!: access_steps guarded_delete)
  have "harmless env who None (Some i) ?s s1"
    by (rule harmlessI[OF step_delete[OF a(3)]], rule delete_tame[of ?s "ae_now env" i, unfolded a(3) snd_conv])
      (use r a  ids_of_rows[OF r] in \<open>simp_all add: ready_def\<close>)
  then show ?case using harmless_forget[OF _ a(4)] 1(2) by simp
qed

lemma createRole_tame:
  assumes "ac_createRole env who input st = (Inr x, st')" "ready env (lapseBlocks (ae_now env) (as_store st))"
  shows "harmless env who None None (lapseBlocks (ae_now env) (as_store st)) (as_store st')"
proof (rule access_success[OF assms(1)[unfolded ac_createRole_def Let_def]], goal_cases)
  case (1 st0)
  let ?s = "as_store st0"
  have r: "ready env ?s" using assms(2) 1(2) by simp
  obtain s1 where a: "covers (power_of env who ?s) (keys_needed (case kr_permissionKeys input of None \<Rightarrow> [] | Some ks \<Rightarrow> ks))"
    "role_create \<lparr> cr_id = (case kr_id input of None \<Rightarrow> ae_randomId env | Some i \<Rightarrow> i), cr_organizationId = aa_organizationId who,
       cr_name = kr_name input, cr_key = kr_key input, cr_permissionKeys = kr_permissionKeys input,
       cr_description = kr_description input, cr_isSystem = False \<rparr> ?s = (Inr x, s1)" "forget (as_store st') = forget s1"
    using 1(1,3) ids_of_rows(2)[OF r] by (fastforce simp: success_simps dest!: access_steps guarded_create_role)
  have "harmless env who None None ?s s1"
    by (rule harmlessI[OF step_role(1)[OF a(2)]], rule role_create_tame[OF _ a(2)]) (use r a  in \<open>auto simp: ready_def calm_settled covers_keys own_def\<close>)
  then show ?case using harmless_forget[OF _ a(3)] 1(2) by simp
qed

lemma updateRole_tame:
  assumes "ac_updateRole env who i input st = (Inr x, st')" "ready env (lapseBlocks (ae_now env) (as_store st))"
  shows "harmless env who None None (lapseBlocks (ae_now env) (as_store st)) (as_store st')"
proof (rule access_success[OF assms(1)[unfolded ac_updateRole_def]], goal_cases)
  case (1 st0)
  let ?s = "as_store st0"
  have r: "ready env ?s" using assms(2) 1(2) by simp
  obtain role s1 where a: "mget (roles ?s) i = Some role" "r_organizationId role = aa_organizationId who" "\<not> r_isOwnerRole role" "role_update i input ?s = (Inr x, s1)" "forget (as_store st') = forget s1"
    using 1(1,3) ids_of_rows(2)[OF r] by (fastforce simp: success_simps dest!: access_steps guarded_update_role)
  have "harmless env who None None ?s s1"
    by (rule harmlessI[OF step_role(2)[OF a(4)]], rule role_update_tame[OF _ _ a(1-4)]) (use r a  in \<open>auto simp: ready_def calm_settled\<close>)
  then show ?case using harmless_forget[OF _ a(5)] 1(2) by simp
qed

lemma setRolePermissions_tame:
  assumes "ac_setRolePermissions env who i ks v st = (Inr x, st')" "ready env (lapseBlocks (ae_now env) (as_store st))"
  shows "harmless env who None None (lapseBlocks (ae_now env) (as_store st)) (as_store st')"
proof (rule access_success[OF assms(1)[unfolded ac_setRolePermissions_def]], goal_cases)
  case (1 st0)
  let ?s = "as_store st0"
  have r: "ready env ?s" using assms(2) 1(2) by simp
  obtain role s1 where a: "mget (roles ?s) i = Some role" "r_organizationId role = aa_organizationId who" "\<not> r_isOwnerRole role" "role_setPermissions i ks v ?s = (Inr x, s1)" "forget (as_store st') = forget s1"
    "covers (power_of env who ?s) (joinNeeds (needsOfRole role) (keys_needed ks))"
    using 1(1,3) ids_of_rows(2)[OF r] by (fastforce simp: success_simps dest!: access_steps guarded_set_permissions)
  have "harmless env who None None ?s s1"
    by (rule harmlessI[OF step_role(3)[OF a(4)]], rule setPermissions_tame[OF _ _ a(1-4)]) (use r a  in \<open>auto simp: ready_def calm_settled covers_join covers_keys own_def\<close>)
  then show ?case using harmless_forget[OF _ a(5)] 1(2) by simp
qed

lemma grantRolePermission_tame:
  assumes "ac_grantRolePermission env who i p st = (Inr x, st')" "ready env (lapseBlocks (ae_now env) (as_store st))"
  shows "harmless env who None None (lapseBlocks (ae_now env) (as_store st)) (as_store st')"
proof (rule access_success[OF assms(1)[unfolded ac_grantRolePermission_def]], goal_cases)
  case (1 st0)
  let ?s = "as_store st0"
  have r: "ready env ?s" using assms(2) 1(2) by simp
  obtain role s1 where a: "mget (roles ?s) i = Some role" "r_organizationId role = aa_organizationId who" "\<not> r_isOwnerRole role" "role_grantPermission i p ?s = (Inr (), s1)" "forget (as_store st') = forget s1"
    "covers (power_of env who ?s) (keys_needed [p])"
    using 1(1,3) ids_of_rows(2)[OF r] by (fastforce simp: success_simps dest!: access_steps guarded_grant_permission)
  have "harmless env who None None ?s s1"
    by (rule harmlessI[OF step_role(4)[OF a(4)]], rule grantPermission_tame[OF _ _ a(1-4)]) (use r a  in \<open>auto simp: ready_def calm_settled covers_keys own_def\<close>)
  then show ?case using harmless_forget[OF _ a(5)] 1(2) by simp
qed

lemma revokeRolePermission_tame:
  assumes "ac_revokeRolePermission env who i p st = (Inr x, st')" "ready env (lapseBlocks (ae_now env) (as_store st))"
  shows "harmless env who None None (lapseBlocks (ae_now env) (as_store st)) (as_store st')"
proof (rule access_success[OF assms(1)[unfolded ac_revokeRolePermission_def]], goal_cases)
  case (1 st0)
  let ?s = "as_store st0"
  have r: "ready env ?s" using assms(2) 1(2) by simp
  obtain role s1 where a: "mget (roles ?s) i = Some role" "r_organizationId role = aa_organizationId who" "\<not> r_isOwnerRole role" "role_revokePermission i p ?s = (Inr (), s1)" "forget (as_store st') = forget s1"
    using 1(1,3) ids_of_rows(2)[OF r] by (fastforce simp: success_simps dest!: access_steps guarded_revoke_permission)
  have "harmless env who None None ?s s1"
    by (rule harmlessI[OF step_role(5)[OF a(4)]], rule revokePermission_tame[OF _ _ a(1-4)]) (use r a  in \<open>auto simp: ready_def calm_settled\<close>)
  then show ?case using harmless_forget[OF _ a(5)] 1(2) by simp
qed

lemma cloneRole_tame:
  assumes "ac_cloneRole env who i input st = (Inr x, st')" "ready env (lapseBlocks (ae_now env) (as_store st))"
  shows "harmless env who None None (lapseBlocks (ae_now env) (as_store st)) (as_store st')"
proof (rule access_success[OF assms(1)[unfolded ac_cloneRole_def Let_def]], goal_cases)
  case (1 st0)
  let ?s = "as_store st0"
  have r: "ready env ?s" using assms(2) 1(2) by simp
  obtain role s1 where a: "mget (roles ?s) i = Some role" "r_organizationId role = aa_organizationId who" "\<not> r_isOwnerRole role" "covers (power_of env who ?s) (needsOfRole role)"
    "role_clone i \<lparr> cl_id = (case kc_id input of None \<Rightarrow> ae_randomId env | Some i \<Rightarrow> i), cl_name = kc_name input, cl_key = kc_key input,
       cl_organizationId = Some (aa_organizationId who), cl_description = kc_description input \<rparr> ?s = (Inr x, s1)" "forget (as_store st') = forget s1"
    using 1(1,3) ids_of_rows(2)[OF r] by (fastforce simp: success_simps dest!: access_steps guarded_clone_role)
  have "harmless env who None None ?s s1"
    by (rule harmlessI[OF step_role(6)[OF a(5)]], rule role_clone_tame[OF _ a(5)]) (use r a role_in_reach[OF a(1,2,4)] in \<open>auto simp: ready_def calm_settled\<close>)
  then show ?case using harmless_forget[OF _ a(6)] 1(2) by simp
qed

lemma deleteRole_tame:
  assumes "ac_deleteRole env who i members st = (Inr x, st')" "ready env (lapseBlocks (ae_now env) (as_store st))"
  shows "harmless env who None None (lapseBlocks (ae_now env) (as_store st)) (as_store st')"
proof (rule access_success[OF assms(1)[unfolded ac_deleteRole_def]], goal_cases)
  case (1 st0)
  let ?s = "as_store st0"
  have r: "ready env ?s" using assms(2) 1(2) by simp
  obtain s1 where a: "role_delete i members ?s = (Inr (), s1)" "forget (as_store st') = forget s1"
    "\<And>t. members = ReassignTo t \<Longrightarrow> \<exists>h. mget (roles ?s) t = Some h \<and> r_organizationId h = aa_organizationId who \<and>
       covers (power_of env who ?s) (needsOfRole h)"
    using 1(1,3) ids_of_rows(2)[OF r] by (fastforce simp: success_simps dest!: access_steps guarded_delete_role)
  have "harmless env who None None ?s s1"
    by (rule harmlessI[OF step_role(7)[OF a(1)]], rule role_delete_tame[OF _ _ a(1)]) (use r a  in \<open>auto simp: ready_def calm_settled intro: role_in_reach dest!: a(3)\<close>)
  then show ?case using harmless_forget[OF _ a(2)] 1(2) by simp
qed

end
