(* ===== verification/AccessSafety.thy ===== *)
theory AccessSafety
  imports AccessRules
begin

text \<open>
  The promises of the access service (\<open>packages/core/src/access/service.ts\<close>) over all its commands: no escalation, nobody
  changes their own membership, the Owner stays, and a refusal changes nothing.
\<close>

section \<open>No escalation\<close>

lemma access_tame:
  assumes "access_exec env who c st = (Inr (), st')" "ready env (lapseBlocks (ae_now env) (as_store st))"
  shows "harmless env who (lifted_by c) (removed_by c) (lapseBlocks (ae_now env) (as_store st)) (as_store st')"
  using assms
  by (cases c)
    (auto simp: a_quiet_Inr intro: assignRole_tame unassignRole_tame blockMember_tame suspendMember_tame unblockMember_tame
      removeMember_tame createRole_tame updateRole_tame setRolePermissions_tame grantRolePermission_tame revokeRolePermission_tame
      cloneRole_tame deleteRole_tame)

lemma members_ok_forget: "forget s' = forget s \<Longrightarrow> members_ok s' = members_ok s"
  by (simp add: members_ok_def people_def mem_keyed_def roles_wf_def links_wf_def forget_eq[of s' s])

lemma mem_steps_ok: "(mem_step H clean_identity)\<^sup>*\<^sup>* s s' \<Longrightarrow> members_ok s \<Longrightarrow> members_ok s'"
  by (induction rule: rtranclp_induct) (use mem_step_ok in blast)+

lemma reached_ok: "reached s s' \<Longrightarrow> members_ok s \<Longrightarrow> members_ok s'"
  unfolding reached_def using mem_steps_ok members_ok_forget by blast

lemma can_may: "perms_wf s \<Longrightarrow> fst (fst (engine_can options now input s)) = may options now input s"
  using decideCan_spec[of s options now input] by (simp add: engine_can_def case_prod_unfold Let_def)

lemma can_again: "fst (engine_can options now input (lapseBlocks now s)) = fst (engine_can options now input s)"
  using decide_again[of options now input s] by (simp add: engine_can_def case_prod_unfold Let_def)

lemma given_again: "given_otherwise options now input (lapseBlocks now s) = given_otherwise options now input s"
  by (simp add: given_otherwise_def Let_def found_again resolve_def implied_def grants_def cong: option.case_cong)

lemma regained_again: "regained options now w input (lapseBlocks now s) = regained options now w input s"
  unfolding regained_def found_again given_again ..

text \<open>
  C3: no escalation.  Whatever somebody is allowed after a command of the access service that succeeded, the engine already
  allowed them before, or, with its default option for Owners, allowed the actor in the actor's organization; except what a member the command lets back in
  (\<open>unblockMember\<close>, or the outsider \<open>removeMember\<close> leaves) was given by a support grant or by a role inside a team, which the rules do
  not compare.
\<close>

theorem no_escalation:
  assumes "access_exec env who c st = (Inr (), st')"
    and "members_ok (as_store st)" "tm_ok (as_store st)" "perms_wf (as_store st)"
    and "fst (fst (engine_can options (ae_now env) input (as_store st')))"
  shows "fst (fst (engine_can options (ae_now env) input (as_store st))) \<or>
    (can_input.ci_organizationId input = aa_organizationId who \<and>
     fst (fst (engine_can plain (ae_now env) (ask (aa_organizationId who) (aa_actor who) (ci_permission input)) (as_store st)))) \<or>
    regained options (ae_now env) (lifted_by c) input (as_store st) \<or> regained options (ae_now env) (removed_by c) input (as_store st)"
proof -
  let ?L = "lapseBlocks (ae_now env) (as_store st)"
  note L = refreshed_store[OF assms(2-4), of "ae_now env"]
  have "ready env ?L" using L calm_lapse by (simp add: ready_def)
  then have h: "tame (ae_now env) (aa_organizationId who) (own env who ?L) (lifted_by c) (removed_by c) ?L (as_store st')" "reached ?L (as_store st')"
    using access_tame[OF assms(1)] by (simp_all add: harmless_def)
  have "perms_wf (as_store st')" using h(1) L(3) by (simp add: tame_def same_rest_def perms_wf_def implied_def)
  then have m: "may options (ae_now env) input (as_store st')" using assms(5) can_may by simp
  have "closed ?L (own env who ?L)" unfolding own_def by (rule power_closed[OF L(3)])
  then have "may options (ae_now env) input ?L \<or> (can_input.ci_organizationId input = aa_organizationId who \<and> own env who ?L (ci_permission input)) \<or>
      regained options (ae_now env) (lifted_by c) input ?L \<or> regained options (ae_now env) (removed_by c) input ?L"
    by (rule tame_may[OF h(1) L(1,2) reached_ok[OF h(2) L(1)] settled_lapse _ m])
  moreover have "fst (fst (engine_can o2 (ae_now env) q (as_store st))) = may o2 (ae_now env) q ?L" for o2 q
    using can_may[OF L(3), of o2 "ae_now env" q] can_again[of o2 "ae_now env" q "as_store st"] by simp
  moreover have "is_ok (assertValidPermissionKey (ci_permission input))" using m by (simp add: may_def Let_def)
  then have "own env who ?L (ci_permission input) \<longleftrightarrow> may plain (ae_now env) (ask (aa_organizationId who) (aa_actor who) (ci_permission input)) ?L"
    unfolding may_iff_hold own_def power_of_def holdings_held[OF L(3)] by blast
  ultimately show ?thesis unfolding regained_again by simp
qed

text \<open>An Owner gives the new member the role of the clerks.\<close>

definition demo_guest :: membership where
  "demo_guest = demo_owner_member \<lparr> m_id := ''m3'', m_identity := ident ''guest'' ''3'', m_roleIds := [] \<rparr>"

definition demo_access_store :: store where
  "demo_access_store = demo_engine_store \<lparr> memberships := [(''m1'', demo_owner_member), (''m2'', demo_clerk), (''m3'', demo_guest)] \<rparr>"

definition demo_env :: access_env where
  "demo_env = \<lparr> ae_hash = id, ae_now = 5, ae_auditId = ''a'', ae_eventId = ''e'', ae_refusalId = ''f'', ae_randomId = ''r'',
     ae_outbox = False, ae_engine = plain, ae_keys = ACCESS_PERMISSIONS, ae_guarded = True \<rparr>"

definition demo_admin :: access_actor where
  "demo_admin = \<lparr> aa_actor = m_identity demo_owner_member, aa_organizationId = ''o1'' \<rparr>"

definition demo_access :: access_state where
  "demo_access = \<lparr> as_store = demo_access_store, as_tokens = [] \<rparr>"

definition demo_guest_asks :: can_input where
  "demo_guest_asks = ask ''o1'' (ident ''guest'' ''3'') ''a.write''"

lemma demo_access_ok: "members_ok demo_access_store" "tm_ok demo_access_store" "perms_wf demo_access_store"
proof -
  show "members_ok demo_access_store" "tm_ok demo_access_store"
    by (simp_all add: demo_access_store_def members_ok_def people_def roles_wf_def mem_keyed_def links_wf_def keyed_def tm_ok_def
        clean_identity_def ident_def demo_rows demo_guest_def)
  show "perms_wf demo_access_store" using demo_engine_wf(1) by (simp add: demo_access_store_def perms_wf_def implied_def)
qed

lemma demo_assign_runs:
  "fst (access_exec demo_env demo_admin (AAssignRole ''m3'' ''r2'' None) demo_access) = Inr ()"
  "fst (fst (engine_can plain 5 demo_guest_asks (as_store (snd (access_exec demo_env demo_admin (AAssignRole ''m3'' ''r2'' None) demo_access)))))"
  by code_simp+

theorem no_escalation_witness:
  "fst (fst (engine_can plain 5 demo_guest_asks (as_store demo_access))) \<or>
    (can_input.ci_organizationId demo_guest_asks = ''o1'' \<and>
     fst (fst (engine_can plain 5 (ask ''o1'' (aa_actor demo_admin) ''a.write'') (as_store demo_access)))) \<or>
    regained plain 5 None demo_guest_asks (as_store demo_access) \<or> regained plain 5 None demo_guest_asks (as_store demo_access)"
proof -
  let ?c = "AAssignRole ''m3'' ''r2'' None"
  have "access_exec demo_env demo_admin ?c demo_access = (Inr (), snd (access_exec demo_env demo_admin ?c demo_access))"
    using demo_assign_runs(1) by (metis prod.collapse)
  note n = no_escalation[OF this, of plain demo_guest_asks]
  have "ae_now demo_env = 5" "aa_organizationId demo_admin = ''o1''" "as_store demo_access = demo_access_store"
    "ci_permission demo_guest_asks = ''a.write''" "lifted_by ?c = None" "removed_by ?c = None"
    by (simp_all add: demo_env_def demo_admin_def demo_access_def demo_guest_asks_def)
  with n show ?thesis using demo_access_ok demo_assign_runs(2) by simp
qed

section \<open>What every command keeps\<close>

text \<open>Commands one after the other, each with its own clock and actor, whether they succeed or not.\<close>

definition access_run :: "(access_env \<times> access_actor \<times> access_command) list \<Rightarrow> access_state \<Rightarrow> access_state" where
  "access_run cmds st = fold (\<lambda>(env, who, c) st. snd (access_exec env who c st)) cmds st"

definition keeps :: "(store \<Rightarrow> bool) \<Rightarrow> 'a access_op \<Rightarrow> bool" where
  "keeps Q p \<longleftrightarrow> (\<forall>st. Q (as_store st) \<longrightarrow> Q (as_store (snd (p st))))"

lemma keepsD: "keeps Q p \<Longrightarrow> Q (as_store st) \<Longrightarrow> Q (as_store (snd (p st)))"
  by (simp add: keeps_def)

lemma keeps_then:
  assumes "keeps Q p" "\<And>x. keeps Q (k x)"
  shows "keeps Q (a_then p k)"
  unfolding keeps_def
proof (intro allI impI)
  fix st :: access_state assume q: "Q (as_store st)"
  obtain r st1 where p: "p st = (r, st1)" by fastforce
  have "Q (as_store st1)" using keepsD[OF assms(1) q] p by simp
  then show "Q (as_store (snd (a_then p k st)))" using keepsD[OF assms(2)] p by (cases r) (simp_all add: a_then_def)
qed

lemma keeps_check: "keeps Q (a_check r)"
  by (simp add: keeps_def a_check_def)

lemma a_read_store: "as_store (snd (a_read p st)) = snd (p (as_store st))"
  by (simp add: a_read_def a_store_def case_prod_unfold Let_def)

lemma checked_store: "snd (let_through ok p s) = s \<or> snd (let_through ok p s) = snd (p s)"
  by (cases ok) (simp_all add: let_through_def fails_def)

lemma a_guarded_store: "\<exists>ok. as_store (snd (a_guarded env who b w call st)) = snd (call ok (as_store st))"
  by (auto simp: a_guarded_def Let_def case_prod_unfold)

lemma record_frame: "forget (snd (audit_record H now i s)) = forget s"
  by (cases "assertAuditInput (ai_actor i) (ai_action i)") (simp_all add: audit_record_def guard_def fails_def returns_def append_frame Let_def)

lemma refusal_frame: "forget (recordAccessRefusal env e who operation target s) = forget s"
  by (simp add: recordAccessRefusal_def record_frame split: uerror.split err_class.split)

text \<open>A property of the rows that every operation of the repositories keeps, and that does not look at the log or the outbox.\<close>

locale access_invariant =
  fixes Q :: "store \<Rightarrow> bool"
  assumes step: "mem_step id clean_identity s s' \<Longrightarrow> Q s \<Longrightarrow> Q s'"
    and log: "forget s' = forget s \<Longrightarrow> Q s \<Longrightarrow> Q s'"
begin

lemma keeps_read: "(\<And>s. snd (p s) = s \<or> (\<exists>now. snd (p s) = lapseBlocks now s)) \<Longrightarrow> keeps Q (a_read p)"
  unfolding keeps_def a_read_store using step[OF mem_step.reads] by metis

lemma keeps_guarded:
  assumes "\<And>ok. mirrors ae (call ok) (let_through ok p)" "\<And>s. mem_step id clean_identity s (snd (p s))"
  shows "keeps Q (a_guarded env who b w call)"
  unfolding keeps_def
proof (intro allI impI)
  fix st :: access_state assume q: "Q (as_store st)"
  obtain ok where ok: "as_store (snd (a_guarded env who b w call st)) = snd (call ok (as_store st))" using a_guarded_store by blast
  have "Q (snd (let_through ok p (as_store st)))" using checked_store[of ok p "as_store st"] step[OF assms(2) q] q by metis
  then show "Q (as_store (snd (a_guarded env who b w call st)))"
    unfolding ok by (rule log[rotated]) (use assms(1)[of ok] in \<open>simp add: mirrors_def\<close>)
qed

lemma keeps_guarded_refreshed:
  assumes "\<And>ok. mirrors ae (call ok) (refreshed ae (let_through ok p))" "\<And>s. mem_step id clean_identity s (snd (p s))"
  shows "keeps Q (a_guarded env who b w call)"
  unfolding keeps_def
proof (intro allI impI)
  fix st :: access_state assume "Q (as_store st)"
  then have q: "Q (lapseBlocks (au_now ae) (as_store st))" by (rule step[OF mem_step.reads])
  obtain ok where ok: "as_store (snd (a_guarded env who b w call st)) = snd (call ok (as_store st))" using a_guarded_store by blast
  have "Q (snd (let_through ok p (lapseBlocks (au_now ae) (as_store st))))"
    using checked_store[of ok p "lapseBlocks (au_now ae) (as_store st)"] step[OF assms(2) q] q by metis
  then show "Q (as_store (snd (a_guarded env who b w call st)))"
    unfolding ok by (rule log[rotated]) (use assms(1)[of ok] in \<open>simp add: mirrors_def refreshed_def\<close>)
qed

lemma keeps_write:
  assumes "keeps Q work"
  shows "keeps Q (access_write env who permission operation target work)"
  unfolding keeps_def
proof (intro allI impI)
  fix st :: access_state assume q: "Q (as_store st)"
  let ?in = "ask (aa_organizationId who) (aa_actor who) permission"
  obtain d s1 where d: "decideCan (ae_engine env) (ae_now env) ?in (as_store st) = (d, s1)" by fastforce
  have "s1 = as_store st \<or> s1 = lapseBlocks (ae_now env) (as_store st)"
    using decideCan_store[of "ae_engine env" "ae_now env" ?in "as_store st"] d
    by (cases "isWellFormedPermissionKey permission") (auto simp: decideCan_def split: if_splits)
  then have q1: "Q s1" using q step[OF mem_step.reads] by blast
  have q2: "Q (as_store (snd (work (st \<lparr> as_store := s1 \<rparr>))))" by (rule keepsD[OF assms]) (simp add: q1)
  have q3: "Q (recordAccessRefusal env e who operation target s)" if "Q s" for e s using log[OF refusal_frame that] .
  show "Q (as_store (snd (access_write env who permission operation target work st)))"
    using q q1 q2 q3 d by (auto simp: access_write_def engine_can_def Let_def case_prod_unfold split: sum.split)
qed

lemma keeps_reads:
  "keeps Q (memberOf env who i)" "keeps Q (roleOf who j)" "keeps Q (assertRegistered ks)" "keeps Q (a_holdings env who)"
  "keeps Q (assertHolds h n)" "keeps Q (assertCanTouchMember env who m)" "keeps Q (assertCanTouchRole env who r)"
  "keeps Q (assertRegular r)" "keeps Q (reload env i)" "keeps Q (reloadRole j)" "keeps Q (assertHeir who h p)"
proof -
  have h: "keeps Q (a_holdings env who)" for env who
    unfolding a_holdings_def by (rule keeps_read) (auto simp: holdingsOf_store)
  have m: "keeps Q (a_read (mem_findById now i))" for now i
    by (rule keeps_read) (auto simp: mem_findById_def Let_def)
  have s: "keeps Q (a_read (isSameMember now i m))" for now i m
    by (rule keeps_read) (auto simp: isSameMember_def case_prod_unfold mem_find_store)
  have p: "keeps Q (a_read (\<lambda>s. (f s, s)))" for f :: "store \<Rightarrow> 'x"
    by (rule keeps_read) simp
  have r: "keeps Q (roleOf who j)" for j
    unfolding roleOf_def by (intro keeps_then keeps_check p)
  show "keeps Q (memberOf env who i)" unfolding memberOf_def by (intro keeps_then keeps_check m)
  show "keeps Q (roleOf who j)" by (rule r)
  show "keeps Q (assertRegistered ks)" unfolding assertRegistered_def by (intro keeps_then keeps_check p)
  show "keeps Q (a_holdings env who)" by (rule h)
  show "keeps Q (assertHolds h n)" "keeps Q (assertRegular r)" unfolding assertHolds_def assertRegular_def by (rule keeps_check)+
  show "keeps Q (assertCanTouchMember env who m)" unfolding assertCanTouchMember_def by (intro keeps_then keeps_check p s h)
  show "keeps Q (assertCanTouchRole env who r)" unfolding assertCanTouchRole_def by (intro keeps_then keeps_check h)
  show "keeps Q (reload env i)" unfolding reload_def by (rule m)
  show "keeps Q (reloadRole j)" unfolding reloadRole_def
    by (rule keeps_read) simp
  show "keeps Q (assertHeir who h p)"
    by (cases p) (auto simp: assertHeir_def assertHolds_def assertRegular_def intro!: keeps_then keeps_check r)
qed

lemma keeps_writes:
  "keeps Q (a_guarded env who b w (\<lambda>ok. aud_mem_assignRole ae ok i rid v))"
  "keeps Q (a_guarded env who b w (\<lambda>ok. aud_mem_unassignRole ae ok i rid v))"
  "keeps Q (a_guarded env who b w (\<lambda>ok. aud_mem_block ae ok i bl))"
  "keeps Q (a_guarded env who b w (\<lambda>ok. aud_mem_suspend ae ok i bl u))"
  "keeps Q (a_guarded env who b w (\<lambda>ok. aud_mem_unblock ae ok i by v))"
  "keeps Q (a_guarded env who b w (\<lambda>ok. aud_mem_delete ae ok i))"
  "keeps Q (a_guarded env who b w (\<lambda>ok. aud_role_create ae ok cr))"
  "keeps Q (a_guarded env who b w (\<lambda>ok. aud_role_update ae ok i ru))"
  "keeps Q (a_guarded env who b w (\<lambda>ok. aud_role_setPermissions ae ok i ks v))"
  "keeps Q (a_guarded env who b w (\<lambda>ok. aud_role_grantPermission ae ok i k))"
  "keeps Q (a_guarded env who b w (\<lambda>ok. aud_role_revokePermission ae ok i k))"
  "keeps Q (a_guarded env who b w (\<lambda>ok. aud_role_clone ae ok i cl))"
  "keeps Q (a_guarded env who b w (\<lambda>ok. aud_role_delete ae ok i mp))"
proof -
  note role = mem_step.roles[of id clean_identity]
  show "keeps Q (a_guarded env who b w (\<lambda>ok. aud_mem_assignRole ae ok i rid v))"
    by (rule keeps_guarded_refreshed[OF members_mirrored(2) mem_step.assigns])
  show "keeps Q (a_guarded env who b w (\<lambda>ok. aud_mem_unassignRole ae ok i rid v))"
    by (rule keeps_guarded_refreshed[OF members_mirrored(4) mem_step.unassigns])
  show "keeps Q (a_guarded env who b w (\<lambda>ok. aud_mem_block ae ok i bl))"
    by (rule keeps_guarded_refreshed[OF members_mirrored(6) mem_step.blocks])
  show "keeps Q (a_guarded env who b w (\<lambda>ok. aud_mem_suspend ae ok i bl u))"
    by (rule keeps_guarded_refreshed[OF members_mirrored(7) mem_step.suspends])
  show "keeps Q (a_guarded env who b w (\<lambda>ok. aud_mem_unblock ae ok i by v))"
    by (rule keeps_guarded_refreshed[OF members_mirrored(8) mem_step.unblocks])
  show "keeps Q (a_guarded env who b w (\<lambda>ok. aud_mem_delete ae ok i))"
    by (rule keeps_guarded_refreshed[OF members_mirrored(9) mem_step.deletes])
  show "keeps Q (a_guarded env who b w (\<lambda>ok. aud_role_create ae ok cr))"
    by (rule keeps_guarded[OF roles_mirrored(2)]) (use role[of _ "RCreate cr"] in simp)
  show "keeps Q (a_guarded env who b w (\<lambda>ok. aud_role_update ae ok i ru))"
    by (rule keeps_guarded[OF roles_mirrored(6)]) (use role[of _ "RUpdate i ru"] in simp)
  show "keeps Q (a_guarded env who b w (\<lambda>ok. aud_role_setPermissions ae ok i ks v))"
    by (rule keeps_guarded[OF roles_mirrored(7)]) (use role[of _ "RSetPermissions i ks v"] in simp)
  show "keeps Q (a_guarded env who b w (\<lambda>ok. aud_role_grantPermission ae ok i k))"
    by (rule keeps_guarded[OF roles_mirrored(3)]) (use role[of _ "RGrant i k"] in simp)
  show "keeps Q (a_guarded env who b w (\<lambda>ok. aud_role_revokePermission ae ok i k))"
    by (rule keeps_guarded[OF roles_mirrored(4)]) (use role[of _ "RRevoke i k"] in simp)
  show "keeps Q (a_guarded env who b w (\<lambda>ok. aud_role_clone ae ok i cl))"
    by (rule keeps_guarded[OF roles_mirrored(8)]) (use role[of _ "RClone i cl"] in simp)
  show "keeps Q (a_guarded env who b w (\<lambda>ok. aud_role_delete ae ok i mp))"
    by (rule keeps_guarded[OF roles_mirrored(9)]) (use role[of _ "RDelete i mp"] in simp)
qed

lemmas keeps_commands = keeps_write keeps_then keeps_check keeps_reads keeps_writes

lemma exec_keeps: "keeps Q (access_exec env who c)"
  by (cases c)
    (auto simp: a_quiet_def ac_assignRole_def ac_unassignRole_def ac_blockMember_def ac_suspendMember_def ac_unblockMember_def
      ac_removeMember_def ac_createRole_def ac_updateRole_def ac_setRolePermissions_def ac_grantRolePermission_def
      ac_revokeRolePermission_def ac_cloneRole_def ac_deleteRole_def Let_def intro!: keeps_commands)

lemma run_keeps: "Q (as_store st) \<Longrightarrow> Q (as_store (access_run cmds st))"
proof (induction cmds arbitrary: st)
  case (Cons a cmds)
  obtain env who c where a: "a = (env, who, c)" by (cases a)
  have "Q (as_store (snd (access_exec env who c st)))" by (rule keepsD[OF exec_keeps Cons.prems])
  from Cons.IH[OF this] show ?case by (simp add: access_run_def a)
qed (simp add: access_run_def)

end

text \<open>Two such properties: the members are well formed, and the Owner role is held by an active member.\<close>

interpretation people_kept: access_invariant members_ok
  by unfold_locales (use mem_step_ok members_ok_forget in blast)+

definition owner_held :: "string \<Rightarrow> role \<Rightarrow> store \<Rightarrow> bool" where
  "owner_held rid r s \<longleftrightarrow> r_isOwnerRole r \<and> people s \<and> mget (roles s) rid = Some r \<and> owned s rid (r_organizationId r)"

interpretation owner_kept: access_invariant "owner_held rid r" for rid r
proof unfold_locales
  show "mem_step id clean_identity s s' \<Longrightarrow> owner_held rid r s \<Longrightarrow> owner_held rid r s'" for s s'
    unfolding owner_held_def using mem_step_people mem_step_owned by blast
  show "forget s' = forget s \<Longrightarrow> owner_held rid r s \<Longrightarrow> owner_held rid r s'" for s s'
    by (simp add: owner_held_def people_def mem_keyed_def roles_wf_def owned_def forget_eq[of s' s])
qed

text \<open>
  C8: the Owner does not move through the access service.  Whatever commands anybody runs on it, in any order, at any times,
  whether they succeed or not, an organization whose Owner role is held by an active member keeps an identity the engine allows
  everything.
\<close>

theorem access_keeps_owner:
  assumes "members_ok (as_store st)" "mget (roles (as_store st)) rid = Some r" "r_isOwnerRole r" "owned (as_store st) rid (r_organizationId r)"
    and "organizationIsActive (as_store (access_run cmds st)) (r_organizationId r)"
  shows "\<exists>i. \<forall>p now. fst (fst (engine_can plain now (ask (r_organizationId r) i p) (as_store (access_run cmds st)))) = isWellFormedPermissionKey p"
proof -
  have "owner_held rid r (as_store st)" using assms(1-4) by (simp add: owner_held_def members_ok_def)
  then have "owner_held rid r (as_store (access_run cmds st))" by (rule owner_kept.run_keeps)
  moreover have "members_ok (as_store (access_run cmds st))" using assms(1) by (rule people_kept.run_keeps)
  ultimately show ?thesis using owned_access[OF _ _ assms(3) _ assms(5)] unfolding owner_held_def plain_def ask_def by blast
qed

text \<open>The Owner hires a guest as a clerk, and the clerk tries to remove the Owner.\<close>

definition demo_commands :: "(access_env \<times> access_actor \<times> access_command) list" where
  "demo_commands = [(demo_env, demo_admin, AAssignRole ''m3'' ''r2'' None),
     (demo_env, demo_admin \<lparr> aa_actor := ident ''guest'' ''3'' \<rparr>, ARemoveMember ''m1'')]"

lemma demo_commands_active: "organizationIsActive (as_store (access_run demo_commands demo_access)) ''o1''"
  by code_simp

theorem access_keeps_owner_witness:
  "\<exists>i. \<forall>p now. fst (fst (engine_can plain now (ask ''o1'' i p) (as_store (access_run demo_commands demo_access)))) = isWellFormedPermissionKey p"
proof -
  have "mget (roles (as_store demo_access)) ''r1'' = Some demo_owner" "r_isOwnerRole demo_owner" "r_organizationId demo_owner = ''o1''"
    "owned (as_store demo_access) ''r1'' ''o1''"
    by (simp_all add: demo_access_def demo_access_store_def demo_rows owned_def holds_def demo_guest_def)
  then show ?thesis
    using access_keeps_owner[of demo_access "''r1''" demo_owner demo_commands] demo_access_ok(1) demo_commands_active by (simp add: demo_access_def)
qed

end
