(* ===== verification/AccessRefusals.thy ===== *)
theory AccessRefusals
  imports AccessSafety
begin

text \<open>
  What a refused command of the access service leaves behind: nothing but, for a refusal by one of the four rules, one entry of the
  log.  A refusal is an \<open>AccessError\<close>; the errors of the repositories have classes of their own.
\<close>

section \<open>Errors of the access service\<close>

definition refuses :: "'a op \<Rightarrow> bool" where
  "refuses p \<longleftrightarrow> (\<exists>s c. fst (p s) = Inl (UError EAccess c))"

lemma record_not_refuses: "fst (record_change env c s) \<noteq> Inl (UError EAccess k)"
  by (auto simp: record_change_cases and_then_def returns_def ob_enqueue_def guard_def fails_def assertAuditInput_def
      assertValidOutboxEvent_def outErr_def Let_def split: sum.splits if_splits prod.splits option.splits json.splits)

lemma with_record_not_refuses:
  assumes "\<not> refuses p"
  shows "fst (with_record env p f s) \<noteq> Inl (UError EAccess k)"
proof -
  obtain r s1 where p: "p s = (r, s1)" by fastforce
  show ?thesis
  proof (cases r)
    case (Inl e)
    then show ?thesis using assms p with_record_Inl[of p s e s1] unfolding refuses_def by (metis fst_conv)
  next
    case (Inr y)
    show ?thesis
    proof (cases "f y")
      case (Some c)
      obtain r2 s2 where q: "record_change env c s1 = (r2, s2)" by fastforce
      show ?thesis using p Inr Some q record_not_refuses[of env c s1 k]
        by (cases r2) (simp_all add: with_record_def and_then_def returns_def)
    qed (simp add: with_record_def and_then_def returns_def p Inr)
  qed
qed

text \<open>The checks of the repositories never refuse with an \<open>AccessError\<close>.\<close>

definition foreign :: "uerror + 'a \<Rightarrow> bool" where
  "foreign r \<longleftrightarrow> (\<forall>c. r \<noteq> Inl (UError EAccess c))"

lemma foreign_simps [simp]:
  "foreign (Inr x)" "foreign (Inl TypeErr)" "foreign (Inl (UError k c)) \<longleftrightarrow> k \<noteq> EAccess" "foreign (Inl (memErr m))" "foreign (Inl (roleErr m))"
  by (auto simp: foreign_def memErr_def roleErr_def)

lemma foreign_bindr: "foreign r \<Longrightarrow> (\<And>x. foreign (k x)) \<Longrightarrow> foreign (bindr r k)"
  by (cases r) (auto simp: foreign_def)

lemma foreign_mapr: "(\<And>x. foreign (f x)) \<Longrightarrow> foreign (mapr f xs)"
  by (induction xs) (auto intro!: foreign_bindr)

lemma foreign_anyr: "(\<And>x. foreign (f x)) \<Longrightarrow> foreign (anyr f xs)"
  by (induction xs) (auto intro!: foreign_bindr)

lemma foreign_checks:
  "foreign (assertExpectedVersion v d)" "foreign (assertMembershipVersion m v)" "foreign (assertBlockUntil u now)"
  "foreign (sanitizeRoleName n)" "foreign (sanitizeRoleDescription de)" "foreign (resolveRoleKey n key)"
  "foreign (assertNonEmptyPermissionKey k)" "foreign (sanitizeRolePermissionKeys ks)" "foreign (roleNameTaken s og n x)"
proof -
  show v: "foreign (assertExpectedVersion v d)" for v d
    by (simp add: assertExpectedVersion_def split: option.split)
  show "foreign (assertMembershipVersion m v)"
    unfolding assertMembershipVersion_def by (rule foreign_bindr[OF v]) simp
  show "foreign (assertBlockUntil u now)"
    by (simp add: assertBlockUntil_def split: option.split date_in.split)
  show "foreign (sanitizeRoleName n)" "foreign (sanitizeRoleDescription de)" "foreign (resolveRoleKey n key)"
    by (simp_all add: sanitizeRoleName_def sanitizeRoleDescription_def resolveRoleKey_def assertValidRoleKey_def Let_def split: option.split)
  show k: "foreign (assertNonEmptyPermissionKey k)" for k
    by (simp add: assertNonEmptyPermissionKey_def)
  show "foreign (sanitizeRolePermissionKeys ks)"
    by (auto simp: sanitizeRolePermissionKeys_def split: option.split intro!: foreign_bindr foreign_mapr k)
  have "foreign (normalizeRoleName q)" for q
    by (simp add: normalizeRoleName_def sanitizeRoleName_def Let_def)
  then show "foreign (roleNameTaken s og n x)"
    unfolding roleNameTaken_def by (intro foreign_anyr) (auto intro!: foreign_bindr)
qed

text \<open>So do their operations.\<close>

lemma not_refusesI: "(\<And>s. foreign (fst (p s))) \<Longrightarrow> \<not> refuses p"
  by (simp add: refuses_def foreign_def)

lemma foreign_guard: "foreign r \<Longrightarrow> (\<And>x. foreign (fst (k x s))) \<Longrightarrow> foreign (fst (guard r k s))"
  by (cases r) (simp_all add: guard_def fails_def foreign_def)

lemma foreign_ends: "foreign (fst (returns x s))" "foreign (Inl e :: uerror + 'b) \<Longrightarrow> foreign (fst (fails e s) :: uerror + 'b)"
  by (simp_all add: returns_def fails_def)

lemmas foreign_intros = foreign_guard foreign_ends foreign_checks

lemma members_not_refuse:
  "\<not> refuses (mem_assignRole now i rid v)" "\<not> refuses (mem_unassignRole now i rid v)" "\<not> refuses (mem_block now i b)"
  "\<not> refuses (mem_suspend now i b u)" "\<not> refuses (mem_unblock now i v)" "\<not> refuses (mem_delete now i)"
proof -
  have c: "role_check s og th i rid = Some e \<Longrightarrow> foreign (Inl e)" for s og th i rid e
    by (auto simp: role_check_def split: option.splits if_splits)
  show "\<not> refuses (mem_assignRole now i rid v)"
    by (rule not_refusesI) (auto simp: mem_assignRole_def intro!: foreign_intros split: option.split dest: c)
  show "\<not> refuses (mem_unassignRole now i rid v)"
    by (rule not_refusesI) (auto simp: mem_unassignRole_def intro!: foreign_intros split: option.split)
  have b: "foreign (fst (blockWithin now i b t s))" for t s
    by (auto simp: blockWithin_def Let_def intro!: foreign_intros split: option.split)
  show "\<not> refuses (mem_block now i b)"
    by (rule not_refusesI) (simp add: mem_block_def b)
  show "\<not> refuses (mem_suspend now i b u)"
    by (rule not_refusesI) (auto simp: mem_suspend_def intro!: foreign_intros b split: option.split)
  show "\<not> refuses (mem_unblock now i v)"
    by (rule not_refusesI) (auto simp: mem_unblock_def Let_def intro!: foreign_intros split: option.split)
  show "\<not> refuses (mem_delete now i)"
    by (rule not_refusesI) (auto simp: mem_delete_def intro!: foreign_intros split: option.split prod.split bool.split)
qed

lemma roles_not_refuse:
  "\<not> refuses (role_create cr)" "\<not> refuses (role_update i ru)" "\<not> refuses (role_setPermissions i ks v)"
  "\<not> refuses (role_grantPermission i k)" "\<not> refuses (role_revokePermission i k)" "\<not> refuses (role_clone i cl)" "\<not> refuses (role_delete i mp)"
proof -
  have c: "foreign (fst (role_create cr s))" for cr s
    unfolding role_create_def Let_def by (auto intro!: foreign_intros)
  show "\<not> refuses (role_create cr)" by (rule not_refusesI) (rule c)
  have o: "foreign (opt_check f v)" if "\<And>x. foreign (f x)" for f :: "'x \<Rightarrow> uerror + 'y" and v
    using that by (cases v) (auto intro!: foreign_bindr)
  show "\<not> refuses (role_update i ru)"
    by (rule not_refusesI)
      (auto simp: role_update_def role_apply_update_def Let_def intro!: foreign_intros o split: option.split)
  show "\<not> refuses (role_setPermissions i ks v)"
    by (rule not_refusesI) (auto simp: role_setPermissions_def Let_def intro!: foreign_intros split: option.split)
  show "\<not> refuses (role_grantPermission i k)"
    by (rule not_refusesI) (auto simp: role_grantPermission_def intro!: foreign_intros split: option.split)
  show "\<not> refuses (role_revokePermission i k)"
    by (rule not_refusesI) (auto simp: role_revokePermission_def intro!: foreign_intros split: option.split)
  show "\<not> refuses (role_clone i cl)"
    by (rule not_refusesI) (auto simp: role_clone_def intro!: foreign_intros c split: option.split)
  show "\<not> refuses (role_delete i mp)"
    by (rule not_refusesI) (auto simp: role_delete_def intro!: foreign_intros split: option.split members_policy.split)
qed

text \<open>The audited calls the service makes, once the guard let them pass.\<close>

lemma checked_pass [simp]: "let_through (Inr ()) p = p"
  by (rule ext) (simp add: let_through_def guard_def)

lemma with_record_foreign: "\<not> refuses p \<Longrightarrow> foreign (fst (with_record ae p f s))"
  using with_record_not_refuses unfolding foreign_def by blast

lemma about_foreign: "\<not> refuses p \<Longrightarrow> foreign (fst (about_member ae i (\<lambda>found. with_record ae p (f found)) s))"
  unfolding about_member_lapse by (rule with_record_foreign)

lemma passed_members:
  "foreign (fst (aud_mem_assignRole ae (Inr ()) i rid v s))" "foreign (fst (aud_mem_unassignRole ae (Inr ()) i rid v s))"
  "foreign (fst (aud_mem_block ae (Inr ()) i bl s))" "foreign (fst (aud_mem_suspend ae (Inr ()) i bl u s))"
  "foreign (fst (aud_mem_unblock ae (Inr ()) i by v s))" "foreign (fst (aud_mem_delete ae (Inr ()) i s))"
  unfolding aud_mem_assignRole_def aud_mem_unassignRole_def aud_mem_block_def aud_mem_suspend_def aud_mem_unblock_def aud_mem_delete_def checked_pass
  by (rule about_foreign members_not_refuse)+

lemma passed_roles:
  "foreign (fst (aud_role_create ae (Inr ()) cr s))" "foreign (fst (aud_role_update ae (Inr ()) i ru s))"
  "foreign (fst (aud_role_setPermissions ae (Inr ()) i ks v s))" "foreign (fst (aud_role_grantPermission ae (Inr ()) i k s))"
  "foreign (fst (aud_role_revokePermission ae (Inr ()) i k s))" "foreign (fst (aud_role_clone ae (Inr ()) i cl s))"
  "foreign (fst (aud_role_delete ae (Inr ()) i mp s))"
  unfolding aud_role_create_def aud_role_update_def aud_role_setPermissions_def aud_role_grantPermission_def aud_role_revokePermission_def
    aud_role_clone_def aud_role_delete_def checked_pass Let_def
  by (rule with_record_foreign roles_not_refuse)+

text \<open>The guard never refuses the service: the token is new, and it names the very write it is shown for.\<close>

lemma service_passes:
  assumes "binding_of w = Some b" "named_actor w = None \<or> named_actor w = Some (aa_actor who)"
  shows "fst (a_guarded env who b w call st) = fst (call (Inr ()) (as_store st))"
proof -
  have "\<exists>issued. guard_verdict (ae_now env) (Some (length (as_tokens st))) w
      (snd (issueAccessAuthorization (aa_actor who) b False (ae_now env) (as_tokens st))) = (Inr (), issued)"
    using assms
    by (auto simp: guard_verdict_def assertAccessAuthorization_def issueAccessAuthorization_def Let_def nth_append ACCESS_TTL_MS_def split: option.split)
  then show ?thesis
    by (auto simp: a_guarded_def issueAccessAuthorization_def Let_def case_prod_unfold)
qed

section \<open>Nothing changes\<close>

definition only_read :: "timestamp \<Rightarrow> access_state \<Rightarrow> access_state \<Rightarrow> bool" where
  "only_read now st st' \<longleftrightarrow> as_tokens st' = as_tokens st \<and> as_store st' \<in> {as_store st, lapseBlocks now (as_store st)}"

definition reading :: "timestamp \<Rightarrow> 'a access_op \<Rightarrow> bool" where
  "reading now p \<longleftrightarrow> (\<forall>st. only_read now st (snd (p st)))"

definition clean :: "timestamp \<Rightarrow> 'a access_op \<Rightarrow> bool" where
  "clean now p \<longleftrightarrow> (\<forall>st. foreign (fst (p st)) \<or> only_read now st (snd (p st)))"

lemma only_read_trans: "only_read now st st1 \<Longrightarrow> only_read now st1 st2 \<Longrightarrow> only_read now st st2"
  using calm_lapse[of now "as_store st"] by (auto simp: only_read_def calm_def)

lemma reading_clean: "reading now p \<Longrightarrow> clean now p"
  by (simp add: reading_def clean_def)

lemma reading_check: "reading now (a_check r)"
  by (simp add: reading_def a_check_def only_read_def)

lemma reading_read: "(\<And>s. snd (p s) \<in> {s, lapseBlocks now s}) \<Longrightarrow> reading now (a_read p)"
  by (simp add: reading_def a_read_def a_store_def only_read_def case_prod_unfold Let_def)

lemma then_cases:
  obtains e st1 where "p st = (Inl e, st1)" "a_then p k st = (Inl e, st1)"
  | x st1 where "p st = (Inr x, st1)" "a_then p k st = k x st1"
  by (cases "p st"; cases "fst (p st)") (auto simp: a_then_def)

lemma reading_then:
  assumes "reading now p" "\<And>x. reading now (k x)"
  shows "reading now (a_then p k)"
  unfolding reading_def
proof
  fix st
  show "only_read now st (snd (a_then p k st))"
    using assms only_read_trans unfolding reading_def by (cases rule: then_cases[of p st k]) (metis snd_conv)+
qed

lemma clean_then:
  assumes "reading now p" "\<And>x. clean now (k x)"
  shows "clean now (a_then p k)"
  unfolding clean_def
proof
  fix st
  show "foreign (fst (a_then p k st)) \<or> only_read now st (snd (a_then p k st))"
    using assms only_read_trans unfolding reading_def clean_def by (cases rule: then_cases[of p st k]) (metis snd_conv)+
qed

lemma clean_last:
  assumes "\<And>st. foreign (fst (p st))" "\<And>x st. foreign (fst (k x st))"
  shows "clean now (a_then p k)"
  unfolding clean_def
proof
  fix st
  show "foreign (fst (a_then p k st)) \<or> only_read now st (snd (a_then p k st))"
    using assms(1)[of st] assms(2) by (cases rule: then_cases[of p st k]) (auto simp: foreign_def)
qed

lemma clean_write: "(\<And>st. foreign (fst (p st))) \<Longrightarrow> clean now p"
  by (simp add: clean_def)

lemma clean_gate:
  assumes "clean (ae_now env) work" "access_write env who permission operation target work st = (Inl (UError EAccess k), st')"
  shows "\<exists>st1. only_read (ae_now env) st st1 \<and> as_tokens st' = as_tokens st1 \<and>
    (as_store st' = as_store st1 \<or> as_store st' = recordAccessRefusal env (UError EAccess k) who operation target (as_store st1))"
proof (cases "assertActor who")
  case (Inl e)
  then show ?thesis using assms(2) by (intro exI[of _ st]) (simp add: access_write_def only_read_def)
next
  case (Inr u)
  let ?in = "ask (aa_organizationId who) (aa_actor who) permission"
  obtain d s1 where d: "decideCan (ae_engine env) (ae_now env) ?in (as_store st) = (d, s1)" by fastforce
  have "s1 = as_store st \<or> s1 = lapseBlocks (ae_now env) (as_store st)"
    using decideCan_store[of "ae_engine env" "ae_now env" ?in "as_store st"] d
    by (cases "isWellFormedPermissionKey permission") (auto simp: decideCan_def split: if_splits)
  then have r1: "only_read (ae_now env) st (st \<lparr> as_store := s1 \<rparr>)" by (auto simp: only_read_def)
  obtain r st2 where w: "work (st \<lparr> as_store := s1 \<rparr>) = (r, st2)" by fastforce
  show ?thesis
  proof (cases "bd_allowed d")
    case False
    then show ?thesis using assms(2) d Inr r1
      by (intro exI[of _ "st \<lparr> as_store := s1 \<rparr>"]) (auto simp: access_write_def engine_can_def Let_def)
  next
    case True
    then have r: "r = Inl (UError EAccess k)" and st': "st' = st2 \<lparr> as_store := recordAccessRefusal env (UError EAccess k) who operation target (as_store st2) \<rparr>"
      using assms(2) d Inr w by (auto simp: access_write_def engine_can_def Let_def split: sum.splits)
    have "only_read (ae_now env) (st \<lparr> as_store := s1 \<rparr>) st2"
      using assms(1) w r unfolding clean_def foreign_def by (metis fst_conv snd_conv)
    from only_read_trans[OF r1 this] st' show ?thesis by (intro exI[of _ st2]) simp
  qed
qed

lemma reading_steps:
  "reading (ae_now env) (memberOf env who i)" "reading (ae_now env) (roleOf who j)" "reading (ae_now env) (assertRegistered ks)"
  "reading (ae_now env) (a_holdings env who)" "reading (ae_now env) (assertHolds h n)" "reading (ae_now env) (assertCanTouchMember env who m)"
  "reading (ae_now env) (assertCanTouchRole env who r)" "reading (ae_now env) (assertRegular r)" "reading (ae_now env) (assertHeir who h p)"
proof -
  let ?now = "ae_now env"
  have h: "reading ?now (a_holdings env who)"
    unfolding a_holdings_def by (rule reading_read) (auto simp: holdingsOf_store)
  have p: "reading ?now (a_read (\<lambda>s. (f s, s)))" for f :: "store \<Rightarrow> 'x"
    by (rule reading_read) simp
  have m: "reading ?now (a_read (mem_findById ?now i))" for i
    by (rule reading_read) (simp add: mem_findById_def Let_def)
  have s: "reading ?now (a_read (isSameMember ?now i m))" for i m
    by (rule reading_read) (simp add: isSameMember_def case_prod_unfold mem_find_store)
  have r: "reading ?now (roleOf who j)" for j
    unfolding roleOf_def by (intro reading_then reading_check p)
  show "reading ?now (memberOf env who i)" unfolding memberOf_def by (intro reading_then reading_check m)
  show "reading ?now (roleOf who j)" by (rule r)
  show "reading ?now (assertRegistered ks)" unfolding assertRegistered_def by (intro reading_then reading_check p)
  show "reading ?now (a_holdings env who)" by (rule h)
  show "reading ?now (assertHolds h n)" "reading ?now (assertRegular r)" unfolding assertHolds_def assertRegular_def by (rule reading_check)+
  show "reading ?now (assertCanTouchMember env who m)" unfolding assertCanTouchMember_def by (intro reading_then reading_check p s h)
  show "reading ?now (assertCanTouchRole env who r)" unfolding assertCanTouchRole_def by (intro reading_then reading_check h)
  show "reading ?now (assertHeir who h p)"
    by (cases p) (auto simp: assertHeir_def assertHolds_def assertRegular_def intro!: reading_then reading_check r)
qed

lemma reload_foreign: "foreign (fst (reload env i st))" "foreign (fst (reloadRole j st))"
  by (simp_all add: reload_def reloadRole_def a_read_def a_store_def case_prod_unfold Let_def)

lemmas passed = passed_members passed_roles

lemma guarded_foreign:
  "binding_of w = Some b \<Longrightarrow> named_actor w = None \<or> named_actor w = Some (aa_actor who) \<Longrightarrow> (\<And>s. foreign (fst (call (Inr ()) s))) \<Longrightarrow>
    foreign (fst (a_guarded env who b w call st))"
  by (simp add: service_passes)

text \<open>Each command through the gate.\<close>

definition gated :: "access_env \<Rightarrow> access_actor \<Rightarrow> 'a access_op \<Rightarrow> bool" where
  "gated env who p \<longleftrightarrow> (\<exists>permission operation target work. p = access_write env who permission operation target work \<and> clean (ae_now env) work)"

lemma gatedI: "clean (ae_now env) work \<Longrightarrow> gated env who (access_write env who permission operation target work)"
  unfolding gated_def by blast

lemmas clean_steps = reading_steps[THEN clean_then]

lemma members_gated:
  "gated env who (ac_assignRole env who i rid v)" "gated env who (ac_unassignRole env who i rid v)" "gated env who (ac_blockMember env who i reason v)"
  "gated env who (ac_suspendMember env who i until reason v)" "gated env who (ac_unblockMember env who i v)" "gated env who (ac_removeMember env who i)"
  unfolding ac_assignRole_def ac_unassignRole_def ac_blockMember_def ac_suspendMember_def ac_unblockMember_def ac_removeMember_def
  by (rule gatedI; (rule clean_steps)+;
      (rule clean_last clean_write; (rule reload_foreign)?; rule guarded_foreign; simp add: passed block_of_def))+

lemma roles_gated:
  "gated env who (ac_createRole env who kr)" "gated env who (ac_updateRole env who i ru)" "gated env who (ac_setRolePermissions env who i ks v)"
  "gated env who (ac_grantRolePermission env who i k)" "gated env who (ac_revokeRolePermission env who i k)"
  "gated env who (ac_cloneRole env who i kc)" "gated env who (ac_deleteRole env who i mp)"
  unfolding ac_createRole_def ac_updateRole_def ac_setRolePermissions_def ac_grantRolePermission_def ac_revokeRolePermission_def
    ac_cloneRole_def ac_deleteRole_def Let_def
  by (rule gatedI; (rule clean_steps)+;
      (rule clean_last clean_write; (rule reload_foreign)?; rule guarded_foreign; simp add: passed bound_def bound_in_def))+

text \<open>What is left of a refused command.\<close>

definition noted :: "access_actor \<Rightarrow> string \<Rightarrow> store \<Rightarrow> store \<Rightarrow> bool" where
  "noted who k s s' \<longleftrightarrow> s' = s \<or>
     (k \<in> set ACCESS_RULE_REFUSALS \<and> forget s' = forget s \<and> outboxEvents s' = outboxEvents s \<and>
      (\<exists>e. auditLogs s' = auditLogs s @ [e] \<and> al_action e = ''access.change_refused'' \<and> al_actor e = aa_actor who \<and>
         al_organizationId e = Some (aa_organizationId who)))"

definition untouched :: "access_env \<Rightarrow> access_actor \<Rightarrow> string \<Rightarrow> access_state \<Rightarrow> access_state \<Rightarrow> bool" where
  "untouched env who k st st' \<longleftrightarrow> as_tokens st' = as_tokens st \<and>
     (\<exists>s \<in> {as_store st, lapseBlocks (ae_now env) (as_store st)}. noted who k s (as_store st'))"

lemma refusal_record: "noted who k s (recordAccessRefusal env (UError EAccess k) who operation target s)"
proof (cases "k \<in> set ACCESS_RULE_REFUSALS \<and> is_ok (assertAuditInput (aa_actor who) ''access.change_refused'')")
  case True
  then obtain u where "assertAuditInput (aa_actor who) ''access.change_refused'' = Inr u"
    by (cases "assertAuditInput (aa_actor who) ''access.change_refused''") auto
  moreover have "outboxEvents (append_entry H e s) = outboxEvents s" for H e
    by (simp add: append_entry_def Let_def)
  ultimately show ?thesis using True
    by (simp add: noted_def recordAccessRefusal_def audit_record_def guard_def returns_def append_frame entry_of_def Let_def)
next
  case False
  then show ?thesis
    by (cases "assertAuditInput (aa_actor who) ''access.change_refused''")
      (auto simp: noted_def recordAccessRefusal_def audit_record_def guard_def fails_def)
qed

lemma gated_untouched:
  assumes "gated env who p" "p st = (Inl (UError EAccess k), st')"
  shows "untouched env who k st st'"
proof -
  obtain st1 operation target where a: "only_read (ae_now env) st st1" "as_tokens st' = as_tokens st1"
    "as_store st' = as_store st1 \<or> as_store st' = recordAccessRefusal env (UError EAccess k) who operation target (as_store st1)"
    using assms clean_gate unfolding gated_def by blast
  then have "noted who k (as_store st1) (as_store st')" using refusal_record[of who k "as_store st1" env operation target] by (auto simp: noted_def)
  then show ?thesis using a(1,2) unfolding untouched_def only_read_def by (intro conjI bexI[of _ "as_store st1"]) simp_all
qed

lemma quiet_error: "a_quiet p st = (Inl e, st') \<longleftrightarrow> p st = (Inl e, st')"
  by (cases "p st"; cases "fst (p st)") (auto simp: a_quiet_def a_then_def a_check_def)

text \<open>
  C10: a refusal changes nothing.  When a command of the access service is refused with an \<open>AccessError\<close>, every row is as
  it was (suspensions that have ended are lifted, if they were looked at), no token was left behind and no event was queued; a
  refusal by one of the four rules adds at most one entry \<open>access.change_refused\<close> of that actor and organization, and
  any other refusal adds none.
\<close>

theorem refusals_change_nothing:
  assumes "access_exec env who c st = (Inl (UError EAccess k), st')"
  shows "untouched env who k st st'"
  using assms
  by (cases c) (simp_all add: quiet_error gated_untouched[OF members_gated(1)] gated_untouched[OF members_gated(2)]
      gated_untouched[OF members_gated(3)] gated_untouched[OF members_gated(4)] gated_untouched[OF members_gated(5)]
      gated_untouched[OF members_gated(6)] gated_untouched[OF roles_gated(1)] gated_untouched[OF roles_gated(2)]
      gated_untouched[OF roles_gated(3)] gated_untouched[OF roles_gated(4)] gated_untouched[OF roles_gated(5)]
      gated_untouched[OF roles_gated(6)] gated_untouched[OF roles_gated(7)])

text \<open>The Owner tries to block themselves.\<close>

lemma demo_refused: "fst (access_exec demo_env demo_admin (ABlockMember ''m1'' None None) demo_access) = Inl (UError EAccess ''access_self_change'')"
  by code_simp

theorem refusals_change_nothing_witness:
  "untouched demo_env demo_admin ''access_self_change'' demo_access (snd (access_exec demo_env demo_admin (ABlockMember ''m1'' None None) demo_access))"
  by (rule refusals_change_nothing[of _ _ "ABlockMember ''m1'' None None"]) (use demo_refused in \<open>metis prod.collapse\<close>)

end
