(* ===== verification/TeamService.thy ===== *)
theory TeamService
  imports Audited AccessPower
begin

text \<open>
  Who may change which team: \<open>packages/core/src/team/service.ts\<close>.  Every command asks the authorization engine in the transaction of
  the change and writes through the audited view with a token for that one operation.

  The token a call shows is one just issued for it: it is not kept, since tokens for teams are not used up.  The advisory lock queues
  the commands, and the clock is read once.
\<close>

section \<open>Settings\<close>

record team_permission_keys =
  tp_manage :: string
  tp_membersAdd :: string
  tp_membersRemove :: string
  tp_membersManage :: string

definition TEAM_PERMISSIONS :: team_permission_keys where
  "TEAM_PERMISSIONS = \<lparr> tp_manage = ''teams.manage'', tp_membersAdd = ''teams.members.add'',
     tp_membersRemove = ''teams.members.remove'', tp_membersManage = ''teams.members.manage'' \<rparr>"

text \<open>The clock, the digest, the random ids of the entries of one command (\<open>moveMember\<close> makes two), the options and the tokens issued so far.\<close>

record team_env =
  te_hash :: "string \<Rightarrow> string"
  te_now :: timestamp
  te_auditIds :: "string \<times> string"
  te_eventIds :: "string \<times> string"
  te_outbox :: bool
  te_engine :: engine_options
  te_keys :: team_permission_keys
  te_issued :: token_registry
  te_ref :: nat

definition team_audit :: "team_env \<Rightarrow> identity \<Rightarrow> audit_env" where
  "team_audit env actor = \<lparr> au_hash = te_hash env, au_now = te_now env, au_actor = actor, au_auditId = fst (te_auditIds env),
     au_eventId = fst (te_eventIds env), au_outbox = te_outbox env \<rparr>"

definition team_audit_next :: "team_env \<Rightarrow> identity \<Rightarrow> audit_env" where
  "team_audit_next env actor = (team_audit env actor) \<lparr> au_auditId := snd (te_auditIds env), au_eventId := snd (te_eventIds env) \<rparr>"

definition ts_grant :: "team_env \<Rightarrow> identity \<Rightarrow> string \<Rightarrow> team_operation \<Rightarrow> team_auth" where
  "ts_grant env actor og operation =
     (issueTeamAuthorization (te_ref env) og actor [operation] False (te_now env) (te_issued env), Some (te_ref env))"

section \<open>Checks\<close>

definition ts_read :: "(store \<Rightarrow> 'a \<times> store) \<Rightarrow> 'a op" where
  "ts_read p s = (let (x, s') = p s in (Inr x, s'))"

definition ts_check :: "uerror + 'a \<Rightarrow> 'a op" where
  "ts_check r s = (r, s)"

definition ts_can :: "team_env \<Rightarrow> identity \<Rightarrow> string \<Rightarrow> string \<Rightarrow> string option \<Rightarrow> store \<Rightarrow> bool \<times> store" where
  "ts_can env actor og permission team s =
     (let ((ok, _), s') = engine_can (te_engine env) (te_now env) ((ask og actor permission) \<lparr> ci_teamId := team \<rparr>) s in (ok, s'))"

text \<open>\<open>allowed\<close>: a grant for the whole organization, or inside that very team.\<close>

definition ts_allowed :: "team_env \<Rightarrow> identity \<Rightarrow> string \<Rightarrow> string \<Rightarrow> string option \<Rightarrow> store \<Rightarrow> bool \<times> store" where
  "ts_allowed env actor og permission team s =
     (let (ok, s1) = ts_can env actor og permission None s in
      if ok then (True, s1)
      else case team of None \<Rightarrow> (False, s1) | Some t \<Rightarrow> ts_can env actor og permission (Some t) s1)"

definition ts_require :: "team_env \<Rightarrow> identity \<Rightarrow> string \<Rightarrow> string \<Rightarrow> string option \<Rightarrow> unit op" where
  "ts_require env actor og permission team =
     and_then (ts_read (ts_allowed env actor og permission team)) (\<lambda>ok.
       ts_check (if ok then Inr () else Inl (teamErr ''team_forbidden'')))"

definition actorMembership :: "team_env \<Rightarrow> identity \<Rightarrow> string \<Rightarrow> membership option op" where
  "actorMembership env actor og = ts_read (mem_findByIdentity (te_now env) og actor)"

definition loadRow :: "string \<Rightarrow> string \<Rightarrow> team_membership op" where
  "loadRow og i s =
     (case tm_findById s og i of
        None \<Rightarrow> fails (teamErr ''team_membership_not_found'') s
      | Some row \<Rightarrow> returns row s)"

definition isOwnRow :: "team_env \<Rightarrow> identity \<Rightarrow> team_membership \<Rightarrow> bool op" where
  "isOwnRow env actor row =
     and_then (actorMembership env actor (tm_organizationId row)) (\<lambda>mine.
       ts_check (Inr (case mine of None \<Rightarrow> False | Some m \<Rightarrow> m_id m = tm_membershipId row)))"

text \<open>What a member can do inside a team: the roles of the organization and those held in the team, if active there.\<close>

definition teamPower :: "team_env \<Rightarrow> string \<Rightarrow> string \<Rightarrow> string \<Rightarrow> store \<Rightarrow> holdings \<times> store" where
  "teamPower env og team membershipId s0 =
     (let (found, s) = mem_findById (te_now env) membershipId s0;
          orgRoles = (case found of None \<Rightarrow> [] | Some m \<Rightarrow> if m_organizationId m = og then role_findByIds s (m_roleIds m) else []);
          teamRoles = (case tm_find s og team membershipId of None \<Rightarrow> []
                       | Some row \<Rightarrow> if tm_status row = TMActive then role_findByIds s (tm_roleIds row) else []);
          rs = filter (\<lambda>r. r_organizationId r = og) (orgRoles @ teamRoles);
          owner = list_ex r_isOwnerRole rs;
          keys = keys_of_roles rs
      in (\<lparr> ho_owner = owner, ho_keys = (if owner \<or> keys = [] then keys else perm_expand s keys) \<rparr>, s))"

definition team_covers :: "holdings \<Rightarrow> holdings \<Rightarrow> bool" where
  "team_covers holder n \<longleftrightarrow> ho_owner holder \<or> (\<not> ho_owner n \<and> list_all (\<lambda>key. key \<in> set (ho_keys holder)) (ho_keys n))"

definition assertCanTouchTeamMember :: "team_env \<Rightarrow> identity \<Rightarrow> string \<Rightarrow> team_membership \<Rightarrow> unit op" where
  "assertCanTouchTeamMember env actor og row =
     and_then (actorMembership env actor og) (\<lambda>mine.
     and_then (case mine of None \<Rightarrow> ts_check (Inr NO_HOLDINGS) | Some m \<Rightarrow> ts_read (teamPower env og (tm_teamId row) (m_id m))) (\<lambda>actorPower.
     and_then (ts_read (teamPower env og (tm_teamId row) (tm_membershipId row))) (\<lambda>targetPower.
       ts_check (if team_covers actorPower targetPower then Inr () else Inl (teamErr ''team_target_stronger'')))))"

definition assertCanGrant :: "team_env \<Rightarrow> identity \<Rightarrow> string \<Rightarrow> string \<Rightarrow> string list \<Rightarrow> unit op" where
  "assertCanGrant env actor og team roleIds s =
     foreach (\<lambda>r.
       if r_organizationId r \<noteq> og then ts_check (Inl (teamErr ''team_role_invalid''))
       else if r_isOwnerRole r then ts_check (Inl (teamErr ''team_role_owner_protected''))
       else foreach (\<lambda>permission. ts_require env actor og permission (Some team)) (r_permissionKeys r))
       (role_findByIds s roleIds) s"

section \<open>Commands about teams\<close>

definition ts_createTeam :: "team_env \<Rightarrow> identity \<Rightarrow> create_team \<Rightarrow> team op" where
  "ts_createTeam env actor input =
     and_then (ts_require env actor (ct_organizationId input) (tp_manage (te_keys env)) (ct_parentId input)) (\<lambda>_.
       aud_team_create (team_audit env actor) (ts_grant env actor (ct_organizationId input) TeamCreate) input)"

definition ts_updateTeam :: "team_env \<Rightarrow> identity \<Rightarrow> string \<Rightarrow> string \<Rightarrow> update_team \<Rightarrow> team op" where
  "ts_updateTeam env actor og team change =
     and_then (ts_require env actor og (tp_manage (te_keys env)) (Some team)) (\<lambda>_.
     and_then (case ut_parentId change of
         None \<Rightarrow> returns ()
       | Some parent \<Rightarrow> (\<lambda>s.
           case team_findById s og team of
             None \<Rightarrow> returns () s
           | Some current \<Rightarrow>
               if t_parentId current = parent then returns () s
               else ts_require env actor og (tp_manage (te_keys env)) parent s)) (\<lambda>_.
       aud_team_update (team_audit env actor) (ts_grant env actor og TeamUpdate) og team change))"

definition ts_archiveTeam :: "team_env \<Rightarrow> identity \<Rightarrow> string \<Rightarrow> string \<Rightarrow> string option \<Rightarrow> int option \<Rightarrow> team op" where
  "ts_archiveTeam env actor og team reason expected =
     and_then (ts_require env actor og (tp_manage (te_keys env)) (Some team)) (\<lambda>_.
       aud_team_archive (team_audit env actor) (ts_grant env actor og TeamArchive) og team actor reason expected)"

definition ts_restoreTeam :: "team_env \<Rightarrow> identity \<Rightarrow> string \<Rightarrow> string \<Rightarrow> int option \<Rightarrow> team op" where
  "ts_restoreTeam env actor og team expected =
     and_then (ts_require env actor og (tp_manage (te_keys env)) (Some team)) (\<lambda>_.
       aud_team_restore (team_audit env actor) (ts_grant env actor og TeamRestore) og team actor expected)"

definition ts_deleteTeam :: "team_env \<Rightarrow> identity \<Rightarrow> string \<Rightarrow> string \<Rightarrow> unit op" where
  "ts_deleteTeam env actor og team =
     and_then (ts_require env actor og (tp_manage (te_keys env)) None) (\<lambda>_.
       aud_team_delete (team_audit env actor) (ts_grant env actor og TeamDelete) og team)"

section \<open>Commands about the people of a team\<close>

definition ts_addMember :: "team_env \<Rightarrow> identity \<Rightarrow> add_team_member \<Rightarrow> team_membership op" where
  "ts_addMember env actor input =
     (let og = am_organizationId input; team = am_teamId input in
      and_then (ts_require env actor og (tp_membersAdd (te_keys env)) (Some team)) (\<lambda>_.
      and_then (if am_responsibility input = Some ''owner'' then ts_require env actor og (tp_manage (te_keys env)) (Some team) else returns ()) (\<lambda>_.
      and_then (assertCanGrant env actor og team (case am_roleIds input of None \<Rightarrow> [] | Some rs \<Rightarrow> rs)) (\<lambda>_.
        aud_tm_add (team_audit env actor) (ts_grant env actor og MemberAdd) (input \<lparr> am_invitedBy := Some actor \<rparr>)))))"

definition ts_acceptInvitation :: "team_env \<Rightarrow> identity \<Rightarrow> string \<Rightarrow> string \<Rightarrow> team_membership op" where
  "ts_acceptInvitation env actor og i =
     and_then (loadRow og i) (\<lambda>row.
       aud_tm_accept (team_audit env actor) (ts_grant env actor og MemberAccept) og (tm_id row) actor None)"

definition ts_setStatus :: "team_env \<Rightarrow> identity \<Rightarrow> string \<Rightarrow> team_membership \<Rightarrow> string \<Rightarrow> string option \<Rightarrow> team_membership op" where
  "ts_setStatus env actor og row st reason =
     aud_tm_setStatus (team_audit env actor) (ts_grant env actor og MemberStatus) og (tm_id row) st actor reason None"

definition ts_leaveTeam :: "team_env \<Rightarrow> identity \<Rightarrow> string \<Rightarrow> string \<Rightarrow> team_membership op" where
  "ts_leaveTeam env actor og team =
     and_then (actorMembership env actor og) (\<lambda>mine s.
       case (case mine of None \<Rightarrow> None | Some m \<Rightarrow> tm_find s og team (m_id m)) of
         None \<Rightarrow> fails (teamErr ''team_membership_not_found'') s
       | Some row \<Rightarrow> ts_setStatus env actor og row ''removed'' (Some ''left'') s)"

definition ts_removeMember :: "team_env \<Rightarrow> identity \<Rightarrow> string \<Rightarrow> string \<Rightarrow> string option \<Rightarrow> team_membership op" where
  "ts_removeMember env actor og i reason =
     and_then (loadRow og i) (\<lambda>row.
     and_then (isOwnRow env actor row) (\<lambda>own.
     and_then (if own then returns () else
       and_then (ts_require env actor og (tp_membersRemove (te_keys env)) (Some (tm_teamId row))) (\<lambda>_.
         assertCanTouchTeamMember env actor og row)) (\<lambda>_.
       ts_setStatus env actor og row ''removed'' reason)))"

definition ts_suspendMember :: "team_env \<Rightarrow> identity \<Rightarrow> string \<Rightarrow> string \<Rightarrow> string option \<Rightarrow> team_membership op" where
  "ts_suspendMember env actor og i reason =
     and_then (loadRow og i) (\<lambda>row.
     and_then (ts_require env actor og (tp_membersManage (te_keys env)) (Some (tm_teamId row))) (\<lambda>_.
     and_then (assertCanTouchTeamMember env actor og row) (\<lambda>_.
       ts_setStatus env actor og row ''suspended'' reason)))"

text \<open>The changes nobody makes to their own row.\<close>

definition not_own :: "team_env \<Rightarrow> identity \<Rightarrow> team_membership \<Rightarrow> unit op" where
  "not_own env actor row =
     and_then (isOwnRow env actor row) (\<lambda>own. ts_check (if own then Inl (teamErr ''team_forbidden'') else Inr ()))"

definition ts_reactivateMember :: "team_env \<Rightarrow> identity \<Rightarrow> string \<Rightarrow> string \<Rightarrow> team_membership op" where
  "ts_reactivateMember env actor og i =
     and_then (loadRow og i) (\<lambda>row.
     and_then (not_own env actor row) (\<lambda>_.
     and_then (ts_require env actor og (tp_membersManage (te_keys env)) (Some (tm_teamId row))) (\<lambda>_.
     and_then (assertCanTouchTeamMember env actor og row) (\<lambda>_.
       ts_setStatus env actor og row ''active'' None))))"

definition ts_setResponsibility :: "team_env \<Rightarrow> identity \<Rightarrow> string \<Rightarrow> string \<Rightarrow> string \<Rightarrow> team_membership op" where
  "ts_setResponsibility env actor og i responsibility =
     and_then (loadRow og i) (\<lambda>row.
     and_then (not_own env actor row) (\<lambda>_.
     and_then (ts_require env actor og (tp_membersManage (te_keys env)) (Some (tm_teamId row))) (\<lambda>_.
     and_then (if responsibility = ''owner'' \<or> tm_responsibility row = ROwner
               then ts_require env actor og (tp_manage (te_keys env)) (Some (tm_teamId row)) else returns ()) (\<lambda>_.
     and_then (assertCanTouchTeamMember env actor og row) (\<lambda>_.
       aud_tm_setResponsibility (team_audit env actor) (ts_grant env actor og MemberResponsibility) og (tm_id row) responsibility None)))))"

definition ts_assignRole :: "team_env \<Rightarrow> identity \<Rightarrow> string \<Rightarrow> string \<Rightarrow> string \<Rightarrow> team_membership op" where
  "ts_assignRole env actor og i roleId =
     and_then (loadRow og i) (\<lambda>row.
     and_then (not_own env actor row) (\<lambda>_.
     and_then (ts_require env actor og (tp_membersManage (te_keys env)) (Some (tm_teamId row))) (\<lambda>_.
     and_then (assertCanTouchTeamMember env actor og row) (\<lambda>_.
     and_then (assertCanGrant env actor og (tm_teamId row) [roleId]) (\<lambda>_.
       aud_tm_assignRole (team_audit env actor) (ts_grant env actor og MemberRole) og (tm_id row) roleId None)))))"

definition ts_unassignRole :: "team_env \<Rightarrow> identity \<Rightarrow> string \<Rightarrow> string \<Rightarrow> string \<Rightarrow> team_membership op" where
  "ts_unassignRole env actor og i roleId =
     and_then (loadRow og i) (\<lambda>row.
     and_then (ts_require env actor og (tp_membersManage (te_keys env)) (Some (tm_teamId row))) (\<lambda>_.
     and_then (assertCanTouchTeamMember env actor og row) (\<lambda>_.
       aud_tm_unassignRole (team_audit env actor) (ts_grant env actor og MemberRole) og (tm_id row) roleId None)))"

record move_team_member =
  mv_organizationId :: string
  mv_membershipId :: string
  mv_fromTeamId :: string
  mv_toTeamId :: string
  mv_id :: string
  mv_reason :: "string option"

definition moved_in :: "move_team_member \<Rightarrow> identity \<Rightarrow> add_team_member" where
  "moved_in input actor = \<lparr> am_id = mv_id input, am_organizationId = mv_organizationId input, am_teamId = mv_toTeamId input,
     am_membershipId = mv_membershipId input, am_status = None, am_responsibility = None, am_roleIds = None,
     am_invitedBy = Some actor, am_now = None \<rparr>"

definition ts_moveMember :: "team_env \<Rightarrow> identity \<Rightarrow> move_team_member \<Rightarrow> team_membership op" where
  "ts_moveMember env actor input =
     (let og = mv_organizationId input in
      if mv_fromTeamId input = mv_toTeamId input then fails (teamErr ''team_membership_invalid'')
      else
        and_then (ts_require env actor og (tp_membersRemove (te_keys env)) (Some (mv_fromTeamId input))) (\<lambda>_.
        and_then (ts_require env actor og (tp_membersAdd (te_keys env)) (Some (mv_toTeamId input))) (\<lambda>_ s.
          case tm_find s og (mv_fromTeamId input) (mv_membershipId input) of
            None \<Rightarrow> fails (teamErr ''team_membership_not_found'') s
          | Some row \<Rightarrow>
              if tm_status row = TMRemoved then fails (teamErr ''team_membership_not_found'') s
              else
                and_then (ts_read (mem_findById (te_now env) (mv_membershipId input))) (\<lambda>target.
                and_then (ts_check (case target of
                    None \<Rightarrow> Inl (teamErr ''team_member_unknown'')
                  | Some m \<Rightarrow> if m_organizationId m \<noteq> og then Inl (teamErr ''team_member_unknown'')
                              else if sameIdentity (m_identity m) actor then Inl (teamErr ''team_forbidden'') else Inr ())) (\<lambda>_.
                and_then (aud_tm_add (team_audit env actor) (ts_grant env actor og MemberAdd) (moved_in input actor)) (\<lambda>joined.
                and_then (aud_tm_setStatus (team_audit_next env actor) (ts_grant env actor og MemberStatus) og (tm_id row) ''removed'' actor
                    (Some (case mv_reason input of None \<Rightarrow> ''moved'' | Some r \<Rightarrow> r)) None) (\<lambda>_.
                  returns joined)))) s)))"

end
