(* ===== verification/TeamSafety.thy ===== *)
theory TeamSafety
  imports TeamService AccessGuard
begin

text \<open>
  What the team service guarantees (\<open>packages/core/src/team/service.ts\<close>): a command that changes anything was authorized, and gives
  no role inside a team that holds a permission the actor does not.

  A check only reads.  Each step rule says what a check that passed has found, on the store the command started from.
\<close>

section \<open>What may be done\<close>

definition ts_may :: "team_env \<Rightarrow> identity \<Rightarrow> string \<Rightarrow> string \<Rightarrow> string option \<Rightarrow> store \<Rightarrow> bool" where
  "ts_may env actor og permission team s \<longleftrightarrow>
     fst (fst (engine_can (te_engine env) (te_now env) (ask og actor permission) s)) \<or>
     (\<exists>t. team = Some t \<and> fst (fst (engine_can (te_engine env) (te_now env) ((ask og actor permission) \<lparr> ci_teamId := Some t \<rparr>) s)))"

definition own_row :: "team_env \<Rightarrow> identity \<Rightarrow> team_membership \<Rightarrow> store \<Rightarrow> bool" where
  "own_row env actor row s \<longleftrightarrow>
     (case fst (mem_findByIdentity (te_now env) (tm_organizationId row) actor s) of None \<Rightarrow> False | Some m \<Rightarrow> m_id m = tm_membershipId row)"

text \<open>Nothing the target holds in that team is beyond the actor.\<close>

definition touchable :: "team_env \<Rightarrow> identity \<Rightarrow> string \<Rightarrow> team_membership \<Rightarrow> store \<Rightarrow> bool" where
  "touchable env actor og row s \<longleftrightarrow>
     team_covers
       (case fst (mem_findByIdentity (te_now env) og actor s) of None \<Rightarrow> NO_HOLDINGS | Some m \<Rightarrow> fst (teamPower env og (tm_teamId row) (m_id m) s))
       (fst (teamPower env og (tm_teamId row) (tm_membershipId row) s))"

text \<open>A role that may be given: one of the organization, not its Owner role, with only permissions the actor is allowed there.\<close>

definition giveable :: "team_env \<Rightarrow> identity \<Rightarrow> string \<Rightarrow> string \<Rightarrow> store \<Rightarrow> role \<Rightarrow> bool" where
  "giveable env actor og team s r \<longleftrightarrow> r_organizationId r = og \<and> \<not> r_isOwnerRole r \<and>
     (\<forall>p \<in> set (r_permissionKeys r). ts_may env actor og p (Some team) s)"

definition can_give :: "team_env \<Rightarrow> identity \<Rightarrow> string \<Rightarrow> string \<Rightarrow> string list \<Rightarrow> store \<Rightarrow> bool" where
  "can_give env actor og team roleIds s \<longleftrightarrow>
     (\<forall>rid \<in> set roleIds. case mget (roles s) rid of None \<Rightarrow> True | Some r \<Rightarrow> giveable env actor og team s r)"

section \<open>Checks only read\<close>

definition same :: "timestamp \<Rightarrow> store \<Rightarrow> store \<Rightarrow> bool" where
  "same now s s' \<longleftrightarrow> s' = s \<or> s' = lapseBlocks now s"

lemma lapse_again: "lapseBlocks now (lapseBlocks now s) = lapseBlocks now s"
proof -
  have "lapse now (lapse now m) = lapse now m" for m
    by (simp add: lapse_def lapsed_def)
  then have "map (\<lambda>x. (fst x, lapse now (lapse now (snd x)))) xs = map (\<lambda>x. (fst x, lapse now (snd x))) xs" for xs :: "(string \<times> membership) list"
    by simp
  then show ?thesis by (simp add: lapseBlocks_def mmap_mmap o_def)
qed

lemma same_refl [simp]: "same now s s"
  by (simp add: same_def)

lemma same_lapse [simp]: "same now s (lapseBlocks now s)"
  by (simp add: same_def)

lemma same_trans: "same now s s1 \<Longrightarrow> same now s1 s2 \<Longrightarrow> same now s s2"
  by (auto simp: same_def lapse_again)

lemma same_found: "same now s s1 \<Longrightarrow> fst (mem_findByIdentity now og i s1) = fst (mem_findByIdentity now og i s)"
  by (auto simp: same_def found_again)

lemma same_rows:
  assumes "same now s s1"
  shows "teamMemberships s1 = teamMemberships s" "teams s1 = teams s" "roles s1 = roles s" "tm_findById s1 og i = tm_findById s og i"
    "tm_find s1 og t m = tm_find s og t m" "team_findById s1 og t = team_findById s og t"
  using assms by (auto simp: same_def tm_findById_def tm_find_def team_findById_def teamOf_def)

lemma same_can: "same now s s1 \<Longrightarrow> fst (engine_can options now input s1) = fst (engine_can options now input s)"
  using decide_again[of options now input s] by (auto simp: same_def engine_can_def case_prod_unfold Let_def)

lemma same_may: "same (te_now env) s s1 \<Longrightarrow> ts_may env actor og p team s1 = ts_may env actor og p team s"
  by (simp add: ts_may_def same_can)

lemma can_same: "same now s (snd (engine_can options now input s))"
  using decideCan_store[of options now input s]
  by (cases "isWellFormedPermissionKey (ci_permission input)") (auto simp: same_def engine_can_def case_prod_unfold Let_def decideCan_def split: if_splits)

lemma ask_whole: "(ask og i p) \<lparr> ci_teamId := None \<rparr> = ask og i p"
  by (simp add: ask_def)

lemma ts_can_whole: "ts_can env actor og p None s = (fst (fst (engine_can (te_engine env) (te_now env) (ask og actor p) s)),
    snd (engine_can (te_engine env) (te_now env) (ask og actor p) s))"
  by (simp add: ts_can_def ask_whole case_prod_unfold Let_def)

lemma allowed_spec: "fst (ts_allowed env actor og p team s) = ts_may env actor og p team s \<and> same (te_now env) s (snd (ts_allowed env actor og p team s))"
proof -
  let ?c = "\<lambda>team. (ask og actor p) \<lparr> ci_teamId := team \<rparr>"
  obtain a d s1 where c: "engine_can (te_engine env) (te_now env) (ask og actor p) s = ((a, d), s1)" by (metis prod.collapse)
  have s1: "same (te_now env) s s1" using can_same[of "te_now env" s "te_engine env" "ask og actor p"] c by simp
  show ?thesis
  proof (cases a)
    case True
    then show ?thesis using c s1 by (simp add: ts_allowed_def ts_can_whole ts_may_def)
  next
    case False
    show ?thesis
    proof (cases team)
      case None
      then show ?thesis using c s1 False by (simp add: ts_allowed_def ts_can_whole ts_may_def)
    next
      case (Some t)
      obtain b e s2 where t: "engine_can (te_engine env) (te_now env) (?c (Some t)) s1 = ((b, e), s2)" by (metis prod.collapse)
      have "same (te_now env) s s2"
        using can_same[of "te_now env" s1 "te_engine env" "?c (Some t)"] t s1 same_trans by simp
      moreover have "b = fst (fst (engine_can (te_engine env) (te_now env) (?c (Some t)) s))"
        using same_can[OF s1, of "te_engine env" "?c (Some t)"] t by (metis fst_conv)
      ultimately show ?thesis using Some c False t by (simp add: ts_allowed_def ts_can_whole ts_can_def[of _ _ _ _ "Some t"] ts_may_def)
    qed
  qed
qed

section \<open>Steps\<close>

text \<open>\<open>stays now s0 P s\<close>: a command that started on \<open>s0\<close> and left \<open>s\<close> changed nothing, or \<open>P\<close> holds of what it left.\<close>

definition stays :: "timestamp \<Rightarrow> store \<Rightarrow> (store \<Rightarrow> bool) \<Rightarrow> store \<Rightarrow> bool" where
  "stays now s0 P s \<longleftrightarrow> same now s0 s \<or> P s"

lemma staysI: "P s \<Longrightarrow> stays now s0 P s" and stays_same: "same now s0 s \<Longrightarrow> stays now s0 P s"
  by (simp_all add: stays_def)

lemma step_read:
  assumes "same now s0 s" "same now s (snd (p s))" "\<And>x s1. p s = (Inr x, s1) \<Longrightarrow> same now s0 s1 \<Longrightarrow> stays now s0 P (snd (k x s1))"
  shows "stays now s0 P (snd (and_then p k s))"
proof -
  obtain r s1 where p: "p s = (r, s1)" by fastforce
  have s1: "same now s0 s1" using assms(1,2) p same_trans by simp
  then show ?thesis using p assms(3) by (cases r) (simp_all add: and_then_def stays_def)
qed

lemma require_cases:
  assumes "same (te_now env) s0 s"
  shows "(ts_may env actor og p team s0 \<and> (\<exists>s1. ts_require env actor og p team s = (Inr (), s1) \<and> same (te_now env) s0 s1)) \<or>
    (\<not> ts_may env actor og p team s0 \<and> (\<exists>s1. ts_require env actor og p team s = (Inl (teamErr ''team_forbidden''), s1) \<and> same (te_now env) s0 s1))"
proof -
  obtain a s1 where a: "ts_allowed env actor og p team s = (a, s1)" by fastforce
  have "a = ts_may env actor og p team s0" "same (te_now env) s0 s1"
    using allowed_spec[of env actor og p team s] a same_may[OF assms, of actor og p team] same_trans[OF assms] by auto
  then show ?thesis by (cases a) (auto simp: ts_require_def ts_read_def ts_check_def and_then_def a)
qed

lemma step_require:
  assumes "same (te_now env) s0 s"
    "\<And>s1. ts_may env actor og p team s0 \<Longrightarrow> same (te_now env) s0 s1 \<Longrightarrow> stays (te_now env) s0 P (snd (k () s1))"
  shows "stays (te_now env) s0 P (snd (and_then (ts_require env actor og p team) k s))"
  using require_cases[OF assms(1), of actor og p team] assms(2) by (auto simp: and_then_def intro: stays_same)

lemma step_load:
  assumes "same now s0 s" "\<And>row. tm_findById s0 og i = Some row \<Longrightarrow> stays now s0 P (snd (k row s))"
  shows "stays now s0 P (snd (and_then (loadRow og i) k s))"
  using assms same_rows(4)[OF assms(1), of og i]
  by (cases "tm_findById s0 og i") (auto simp: loadRow_def and_then_def fails_def returns_def stays_def)

lemma step_actor:
  assumes "same (te_now env) s0 s"
    "\<And>s1. same (te_now env) s0 s1 \<Longrightarrow> stays (te_now env) s0 P (snd (k (fst (mem_findByIdentity (te_now env) og actor s0)) s1))"
  shows "stays (te_now env) s0 P (snd (and_then (actorMembership env actor og) k s))"
proof -
  obtain x s1 where f: "mem_findByIdentity (te_now env) og actor s = (x, s1)" by fastforce
  have "x = fst (mem_findByIdentity (te_now env) og actor s0)" "same (te_now env) s0 s1"
    using same_found[OF assms(1), of og actor] f mem_find_store[of "te_now env" og actor s] same_trans[OF assms(1)] by auto
  then show ?thesis using assms(2) f by (simp add: actorMembership_def ts_read_def and_then_def)
qed

lemma own_result:
  assumes "same (te_now env) s0 s"
  shows "\<exists>s1. isOwnRow env actor row s = (Inr (own_row env actor row s0), s1) \<and> same (te_now env) s0 s1"
proof -
  obtain x s1 where f: "mem_findByIdentity (te_now env) (tm_organizationId row) actor s = (x, s1)" by fastforce
  have "x = fst (mem_findByIdentity (te_now env) (tm_organizationId row) actor s0)" "same (te_now env) s0 s1"
    using same_found[OF assms, of "tm_organizationId row" actor] f mem_find_store[of "te_now env" "tm_organizationId row" actor s] same_trans[OF assms] by auto
  then show ?thesis using f by (simp add: isOwnRow_def actorMembership_def ts_read_def ts_check_def and_then_def own_row_def)
qed

lemma step_own:
  assumes "same (te_now env) s0 s" "\<And>s1. same (te_now env) s0 s1 \<Longrightarrow> stays (te_now env) s0 P (snd (k (own_row env actor row s0) s1))"
  shows "stays (te_now env) s0 P (snd (and_then (isOwnRow env actor row) k s))"
  using own_result[OF assms(1), of actor row] assms(2) by (auto simp: and_then_def)

lemma step_not_own:
  assumes "same (te_now env) s0 s" "\<And>s1. \<not> own_row env actor row s0 \<Longrightarrow> same (te_now env) s0 s1 \<Longrightarrow> stays (te_now env) s0 P (snd (k () s1))"
  shows "stays (te_now env) s0 P (snd (and_then (not_own env actor row) k s))"
  using own_result[OF assms(1), of actor row] assms(2) by (auto simp: not_own_def ts_check_def and_then_def intro: stays_same)

lemma power_same:
  assumes "same (te_now env) s0 s"
  shows "fst (teamPower env og team i s) = fst (teamPower env og team i s0)" "same (te_now env) s0 (snd (teamPower env og team i s))"
proof -
  have l: "lapseBlocks (te_now env) s = lapseBlocks (te_now env) s0" using assms by (auto simp: same_def lapse_again)
  have v: "role_findByIds s' ids = role_findByIds s0 ids" "tm_find s' og team i = tm_find s0 og team i" "perm_expand s' ks = perm_expand s0 ks"
    if "s' = lapseBlocks (te_now env) s0" for s' ids ks
    using that by (simp_all add: role_findByIds_def perm_expand_def)
  show "fst (teamPower env og team i s) = fst (teamPower env og team i s0)"
    by (simp add: teamPower_def mem_findById_def Let_def l)
  show "same (te_now env) s0 (snd (teamPower env og team i s))"
    by (simp add: teamPower_def mem_findById_def Let_def l)
qed

lemma step_touch:
  assumes "same (te_now env) s0 s"
    "\<And>s1. touchable env actor og row s0 \<Longrightarrow> same (te_now env) s0 s1 \<Longrightarrow> stays (te_now env) s0 P (snd (k () s1))"
  shows "stays (te_now env) s0 P (snd (and_then (assertCanTouchTeamMember env actor og row) k s))"
proof -
  let ?f = "fst (mem_findByIdentity (te_now env) og actor s0)"
  let ?mine = "case ?f of None \<Rightarrow> NO_HOLDINGS | Some m \<Rightarrow> fst (teamPower env og (tm_teamId row) (m_id m) s0)"
  obtain x s1 where f: "mem_findByIdentity (te_now env) og actor s = (x, s1)" by fastforce
  have x: "x = ?f" "same (te_now env) s0 s1"
    using same_found[OF assms(1), of og actor] f mem_find_store[of "te_now env" og actor s] same_trans[OF assms(1)] by auto
  obtain s2 where m: "(case x of None \<Rightarrow> ts_check (Inr NO_HOLDINGS) | Some m \<Rightarrow> ts_read (teamPower env og (tm_teamId row) (m_id m))) s1 = (Inr ?mine, s2)"
    and s2: "same (te_now env) s0 s2"
  proof (cases x)
    case None
    then show thesis using that[of s1] x by (simp add: ts_check_def)
  next
    case (Some m)
    obtain h s3 where h: "teamPower env og (tm_teamId row) (m_id m) s1 = (h, s3)" by fastforce
    show thesis
      using that[of s3] power_same[OF x(2), of og "tm_teamId row" "m_id m"] h Some x(1) by (simp add: ts_read_def)
  qed
  obtain h s3 where h: "teamPower env og (tm_teamId row) (tm_membershipId row) s2 = (h, s3)" by fastforce
  have h': "h = fst (teamPower env og (tm_teamId row) (tm_membershipId row) s0)" "same (te_now env) s0 s3"
    using power_same[OF s2, of og "tm_teamId row" "tm_membershipId row"] h by simp_all
  have "assertCanTouchTeamMember env actor og row s =
      (if touchable env actor og row s0 then Inr () else Inl (teamErr ''team_target_stronger''), s3)"
    using f m h h'(1) by (simp add: assertCanTouchTeamMember_def actorMembership_def ts_read_def[of "mem_findByIdentity (te_now env) og actor"]
        ts_read_def[of "teamPower env og (tm_teamId row) (tm_membershipId row)"] and_then_def ts_check_def[of "if _ then _ else _"] touchable_def)
  then show ?thesis using assms(2)[OF _ h'(2)] h'(2) by (auto simp: and_then_def stays_def)
qed

text \<open>Every role is looked at, and every permission of it asked about.\<close>

definition asks :: "team_env \<Rightarrow> store \<Rightarrow> bool \<Rightarrow> unit op \<Rightarrow> bool" where
  "asks env s0 P p \<longleftrightarrow> (\<forall>s. same (te_now env) s0 s \<longrightarrow> same (te_now env) s0 (snd (p s)) \<and> (\<forall>u. fst (p s) = Inr u \<longrightarrow> P))"

lemma asks_foreach:
  assumes "\<And>x. x \<in> set xs \<Longrightarrow> asks env s0 (Q x) (f x)"
  shows "asks env s0 (\<forall>x \<in> set xs. Q x) (foreach f xs)"
  unfolding asks_def
proof (intro allI impI)
  fix s assume "same (te_now env) s0 s"
  then show "same (te_now env) s0 (snd (foreach f xs s)) \<and> (\<forall>u. fst (foreach f xs s) = Inr u \<longrightarrow> (\<forall>x \<in> set xs. Q x))"
    using assms
  proof (induction xs arbitrary: s)
    case (Cons a xs)
    obtain r s1 where r: "f a s = (r, s1)" by fastforce
    have a: "same (te_now env) s0 s1" "\<And>u. r = Inr u \<Longrightarrow> Q a"
      using Cons.prems(2)[of a] Cons.prems(1) r by (auto simp: asks_def)
    show ?case using r a Cons.IH[OF a(1)] Cons.prems(2) by (cases r) (simp_all add: and_then_def)
  qed (simp add: returns_def)
qed

lemma asks_require: "asks env s0 (ts_may env actor og p team s0) (ts_require env actor og p team)"
  unfolding asks_def
proof (intro allI impI)
  fix s assume "same (te_now env) s0 s"
  from require_cases[OF this, of actor og p team]
  show "same (te_now env) s0 (snd (ts_require env actor og p team s)) \<and> (\<forall>u. fst (ts_require env actor og p team s) = Inr u \<longrightarrow> ts_may env actor og p team s0)"
    by auto
qed

lemma asks_grant: "asks env s0 (can_give env actor og team roleIds s0) (assertCanGrant env actor og team roleIds)"
proof -
  let ?f = "\<lambda>r. if r_organizationId r \<noteq> og then ts_check (Inl (teamErr ''team_role_invalid''))
       else if r_isOwnerRole r then ts_check (Inl (teamErr ''team_role_owner_protected''))
       else foreach (\<lambda>permission. ts_require env actor og permission (Some team)) (r_permissionKeys r)"
  have one: "asks env s0 (giveable env actor og team s0 r) (?f r)" for r
  proof (cases "r_organizationId r = og \<and> \<not> r_isOwnerRole r")
    case True
    have "asks env s0 (\<forall>p \<in> set (r_permissionKeys r). ts_may env actor og p (Some team) s0)
        (foreach (\<lambda>permission. ts_require env actor og permission (Some team)) (r_permissionKeys r))"
      by (rule asks_foreach) (rule asks_require)
    then show ?thesis using True by (simp add: giveable_def)
  qed (auto simp: asks_def ts_check_def)
  have all: "asks env s0 (\<forall>r \<in> set (role_findByIds s0 roleIds). giveable env actor og team s0 r) (foreach ?f (role_findByIds s0 roleIds))"
    by (rule asks_foreach) (rule one)
  have "(\<forall>r \<in> set (role_findByIds s0 roleIds). giveable env actor og team s0 r) \<Longrightarrow> can_give env actor og team roleIds s0"
    by (auto simp: can_give_def role_findByIds_def List.map_filter_def split: option.split)
  moreover have "role_findByIds s roleIds = role_findByIds s0 roleIds" if "same (te_now env) s0 s" for s
    using same_rows(3)[OF that] by (simp add: role_findByIds_def)
  ultimately show ?thesis using all unfolding asks_def assertCanGrant_def by (metis (no_types, lifting))
qed

lemma step_asks:
  assumes "same (te_now env) s0 s" "asks env s0 Q p"
    "\<And>x s1. Q \<Longrightarrow> same (te_now env) s0 s1 \<Longrightarrow> stays (te_now env) s0 P (snd (k x s1))"
  shows "stays (te_now env) s0 P (snd (and_then p k s))"
proof -
  obtain r s1 where p: "p s = (r, s1)" by fastforce
  then have "same (te_now env) s0 s1" "\<And>u. r = Inr u \<Longrightarrow> Q" using assms(1,2) by (auto simp: asks_def)
  then show ?thesis using p assms(3) by (cases r) (simp_all add: and_then_def stays_def)
qed

lemma asks_returns: "asks env s0 True (returns ())"
  by (simp add: asks_def returns_def)

lemma asks_if: "asks env s0 Q p \<Longrightarrow> asks env s0 (b \<longrightarrow> Q) (if b then p else returns ())"
  by (simp add: asks_def returns_def)

section \<open>The commands\<close>

datatype team_command =
    SCreateTeam create_team
  | SUpdateTeam string string update_team
  | SArchiveTeam string string "string option" "int option"
  | SRestoreTeam string string "int option"
  | SDeleteTeam string string
  | SAddMember add_team_member
  | SAcceptInvitation string string
  | SLeaveTeam string string
  | SRemoveMember string string "string option"
  | SSuspendMember string string "string option"
  | SReactivateMember string string
  | SSetResponsibility string string string
  | SAssignRole string string string
  | SUnassignRole string string string
  | SMoveMember move_team_member

fun service_exec :: "team_env \<Rightarrow> identity \<Rightarrow> team_command \<Rightarrow> unit op" where
  "service_exec env actor (SCreateTeam input) = quiet (ts_createTeam env actor input)"
| "service_exec env actor (SUpdateTeam og team change) = quiet (ts_updateTeam env actor og team change)"
| "service_exec env actor (SArchiveTeam og team reason v) = quiet (ts_archiveTeam env actor og team reason v)"
| "service_exec env actor (SRestoreTeam og team v) = quiet (ts_restoreTeam env actor og team v)"
| "service_exec env actor (SDeleteTeam og team) = quiet (ts_deleteTeam env actor og team)"
| "service_exec env actor (SAddMember input) = quiet (ts_addMember env actor input)"
| "service_exec env actor (SAcceptInvitation og i) = quiet (ts_acceptInvitation env actor og i)"
| "service_exec env actor (SLeaveTeam og team) = quiet (ts_leaveTeam env actor og team)"
| "service_exec env actor (SRemoveMember og i reason) = quiet (ts_removeMember env actor og i reason)"
| "service_exec env actor (SSuspendMember og i reason) = quiet (ts_suspendMember env actor og i reason)"
| "service_exec env actor (SReactivateMember og i) = quiet (ts_reactivateMember env actor og i)"
| "service_exec env actor (SSetResponsibility og i r) = quiet (ts_setResponsibility env actor og i r)"
| "service_exec env actor (SAssignRole og i r) = quiet (ts_assignRole env actor og i r)"
| "service_exec env actor (SUnassignRole og i r) = quiet (ts_unassignRole env actor og i r)"
| "service_exec env actor (SMoveMember input) = quiet (ts_moveMember env actor input)"

text \<open>The row a command names, as it is before the command.\<close>

definition about :: "store \<Rightarrow> string \<Rightarrow> string \<Rightarrow> (team_membership \<Rightarrow> bool) \<Rightarrow> bool" where
  "about s og i P \<longleftrightarrow> (case tm_findById s og i of None \<Rightarrow> False | Some row \<Rightarrow> P row)"

text \<open>Somebody else's row, within reach of the actor, in a team where the actor holds the permission.\<close>

definition managed :: "team_env \<Rightarrow> identity \<Rightarrow> string \<Rightarrow> string \<Rightarrow> store \<Rightarrow> team_membership \<Rightarrow> bool" where
  "managed env actor og permission s row \<longleftrightarrow>
     ts_may env actor og permission (Some (tm_teamId row)) s \<and> touchable env actor og row s"

definition invited :: "identity \<Rightarrow> store \<Rightarrow> team_membership \<Rightarrow> bool" where
  "invited actor s row \<longleftrightarrow>
     (case mget (memberships s) (tm_membershipId row) of None \<Rightarrow> False | Some m \<Rightarrow> sameIdentity (m_identity m) actor)"

text \<open>What the code asks for before each command.  Moving a member is not asked who has more power (\<open>service.ts:340\<close>).\<close>

fun permitted :: "team_env \<Rightarrow> identity \<Rightarrow> team_command \<Rightarrow> store \<Rightarrow> bool" where
  "permitted env actor (SCreateTeam input) s \<longleftrightarrow>
     ts_may env actor (ct_organizationId input) (tp_manage (te_keys env)) (ct_parentId input) s"
| "permitted env actor (SUpdateTeam og team change) s \<longleftrightarrow>
     ts_may env actor og (tp_manage (te_keys env)) (Some team) s \<and>
     (case (ut_parentId change, team_findById s og team) of
        (Some parent, Some current) \<Rightarrow> parent = t_parentId current \<or> ts_may env actor og (tp_manage (te_keys env)) parent s
      | _ \<Rightarrow> True)"
| "permitted env actor (SArchiveTeam og team reason v) s \<longleftrightarrow> ts_may env actor og (tp_manage (te_keys env)) (Some team) s"
| "permitted env actor (SRestoreTeam og team v) s \<longleftrightarrow> ts_may env actor og (tp_manage (te_keys env)) (Some team) s"
| "permitted env actor (SDeleteTeam og team) s \<longleftrightarrow> ts_may env actor og (tp_manage (te_keys env)) None s"
| "permitted env actor (SAddMember input) s \<longleftrightarrow>
     ts_may env actor (am_organizationId input) (tp_membersAdd (te_keys env)) (Some (am_teamId input)) s \<and>
     (am_responsibility input \<noteq> Some ''owner'' \<or> ts_may env actor (am_organizationId input) (tp_manage (te_keys env)) (Some (am_teamId input)) s) \<and>
     can_give env actor (am_organizationId input) (am_teamId input) (case am_roleIds input of None \<Rightarrow> [] | Some rs \<Rightarrow> rs) s"
| "permitted env actor (SAcceptInvitation og i) s \<longleftrightarrow> about s og i (\<lambda>row. about s og (tm_id row) (invited actor s))"
| "permitted env actor (SLeaveTeam og team) s \<longleftrightarrow>
     (\<exists>m. fst (mem_findByIdentity (te_now env) og actor s) = Some m \<and> tm_find s og team (m_id m) \<noteq> None)"
| "permitted env actor (SRemoveMember og i reason) s \<longleftrightarrow>
     about s og i (\<lambda>row. own_row env actor row s \<or> managed env actor og (tp_membersRemove (te_keys env)) s row)"
| "permitted env actor (SSuspendMember og i reason) s \<longleftrightarrow> about s og i (managed env actor og (tp_membersManage (te_keys env)) s)"
| "permitted env actor (SReactivateMember og i) s \<longleftrightarrow>
     about s og i (\<lambda>row. \<not> own_row env actor row s \<and> managed env actor og (tp_membersManage (te_keys env)) s row)"
| "permitted env actor (SSetResponsibility og i responsibility) s \<longleftrightarrow>
     about s og i (\<lambda>row. \<not> own_row env actor row s \<and> managed env actor og (tp_membersManage (te_keys env)) s row \<and>
       (responsibility \<noteq> ''owner'' \<and> tm_responsibility row \<noteq> ROwner \<or>
        ts_may env actor og (tp_manage (te_keys env)) (Some (tm_teamId row)) s))"
| "permitted env actor (SAssignRole og i r) s \<longleftrightarrow>
     about s og i (\<lambda>row. \<not> own_row env actor row s \<and> managed env actor og (tp_membersManage (te_keys env)) s row \<and>
       can_give env actor og (tm_teamId row) [r] s)"
| "permitted env actor (SUnassignRole og i r) s \<longleftrightarrow> about s og i (managed env actor og (tp_membersManage (te_keys env)) s)"
| "permitted env actor (SMoveMember input) s \<longleftrightarrow>
     mv_fromTeamId input \<noteq> mv_toTeamId input \<and>
     ts_may env actor (mv_organizationId input) (tp_membersRemove (te_keys env)) (Some (mv_fromTeamId input)) s \<and>
     ts_may env actor (mv_organizationId input) (tp_membersAdd (te_keys env)) (Some (mv_toTeamId input)) s \<and>
     (case fst (mem_findById (te_now env) (mv_membershipId input) s) of
        None \<Rightarrow> False
      | Some m \<Rightarrow> m_organizationId m = mv_organizationId input \<and> \<not> sameIdentity (m_identity m) actor) \<and>
     (case tm_find s (mv_organizationId input) (mv_fromTeamId input) (mv_membershipId input) of
        None \<Rightarrow> False | Some row \<Rightarrow> tm_status row \<noteq> TMRemoved)"

lemma then_assoc: "and_then (and_then p k) l = and_then p (\<lambda>x. and_then (k x) l)"
  by (auto simp: and_then_def fun_eq_iff split: prod.split sum.split)

lemma quiet_store: "snd (quiet p s) = snd (p s)"
  by (auto simp: quiet_def and_then_def returns_def split: prod.split sum.split)

section \<open>Roles inside a team\<close>

text \<open>The roles of the rows after, against the rows before: held already in that team by that member, or one that may be given there.\<close>

definition same_place :: "team_membership \<Rightarrow> team_membership \<Rightarrow> bool" where
  "same_place a b \<longleftrightarrow> tm_organizationId a = tm_organizationId b \<and> tm_teamId a = tm_teamId b \<and> tm_membershipId a = tm_membershipId b"

definition earns :: "(string \<Rightarrow> string \<Rightarrow> string \<Rightarrow> bool) \<Rightarrow> store \<Rightarrow> store \<Rightarrow> bool" where
  "earns G s s' \<longleftrightarrow> (\<forall>b \<in> set (mvals (teamMemberships s')). \<forall>rid \<in> set (tm_roleIds b).
     G (tm_organizationId b) (tm_teamId b) rid \<or>
     (\<exists>a \<in> set (mvals (teamMemberships s)). same_place a b \<and> rid \<in> set (tm_roleIds a)))"

definition gives :: "team_env \<Rightarrow> identity \<Rightarrow> store \<Rightarrow> string \<Rightarrow> string \<Rightarrow> string \<Rightarrow> bool" where
  "gives env actor s og team rid \<longleftrightarrow> (\<exists>r. mget (roles s) rid = Some r \<and> giveable env actor og team s r)"

lemma earns_refl [simp]: "earns G s s"
  by (auto simp: earns_def same_place_def)

lemma earns_trans: "earns G s s1 \<Longrightarrow> earns G s1 s2 \<Longrightarrow> earns G s s2"
  unfolding earns_def same_place_def by metis

lemma earns_rows: "teamMemberships s1 = teamMemberships s \<Longrightarrow> earns G s1 s2 = earns G s s2"
  and earns_rows_after: "teamMemberships s1 = teamMemberships s \<Longrightarrow> earns G s2 s1 = earns G s2 s"
  by (simp_all add: earns_def)

lemma earns_fewer: "set (mvals (teamMemberships s')) \<subseteq> set (mvals (teamMemberships s)) \<Longrightarrow> earns G s s'"
  by (auto simp: earns_def same_place_def)

lemma vals_set_at: "set (mvals (mset_at k v m)) \<subseteq> insert v (set (mvals m))"
  by (induction m) (auto simp: mvals_def)

lemma earns_put:
  assumes "teamMemberships s' = mset_at i b (teamMemberships s)"
    and "\<And>rid. rid \<in> set (tm_roleIds b) \<Longrightarrow> G (tm_organizationId b) (tm_teamId b) rid \<or>
      (\<exists>a \<in> set (mvals (teamMemberships s)). same_place a b \<and> rid \<in> set (tm_roleIds a))"
  shows "earns G s s'"
  unfolding earns_def assms(1)
proof (intro ballI)
  fix c rid assume "c \<in> set (mvals (mset_at i b (teamMemberships s)))" and rid: "rid \<in> set (tm_roleIds c)"
  then consider "c = b" | "c \<in> set (mvals (teamMemberships s))" using vals_set_at[of i b "teamMemberships s"] by blast
  then show "G (tm_organizationId c) (tm_teamId c) rid \<or> (\<exists>a \<in> set (mvals (teamMemberships s)). same_place a c \<and> rid \<in> set (tm_roleIds a))"
    using assms(2) rid by cases (auto simp: same_place_def)
qed

definition row_earns :: "(string \<Rightarrow> string \<Rightarrow> string \<Rightarrow> bool) \<Rightarrow> team_membership \<Rightarrow> team_membership \<Rightarrow> bool" where
  "row_earns G a b \<longleftrightarrow> same_place a b \<and>
     (\<forall>rid \<in> set (tm_roleIds b). rid \<in> set (tm_roleIds a) \<or> G (tm_organizationId a) (tm_teamId a) rid)"

lemma earns_save: "mget (teamMemberships s) i = Some a \<Longrightarrow> row_earns G a b \<Longrightarrow> earns G s (snd (save_tm i b s))"
  by (rule earns_put[of _ i b]) (use mget_in_mvals in \<open>fastforce simp: save_tm_def row_earns_def same_place_def\<close>)+

lemma mirrored_rows: "mirrors env p q \<Longrightarrow> teamMemberships (snd (p s)) = teamMemberships (snd (q s))"
proof -
  assume "mirrors env p q"
  then have "forget (snd (p s)) = forget (snd (q s))" by (simp add: mirrors_def)
  from arg_cong[OF this, of teamMemberships] show ?thesis by (simp add: forget_def)
qed

lemma plain_create: "earns G s (snd (team_create issued now auth tc s))"
  by (rule earns_fewer) (simp add: team_create_def put_team_def Let_def split: guard_split)

lemma plain_update: "earns G s (snd (team_update issued now auth og i tu s))"
  by (rule earns_fewer) (simp add: team_update_def Let_def split: guard_split)

lemma plain_archive: "earns G s (snd (team_archive issued now auth og i who w v s))"
  by (rule earns_fewer) (simp add: team_archive_def Let_def split: guard_split)

lemma plain_restore: "earns G s (snd (team_restore issued now auth og i who v s))"
  by (rule earns_fewer) (simp add: team_restore_def Let_def split: guard_split)

lemma plain_delete: "earns G s (snd (team_delete issued now auth og i s))"
  by (rule earns_fewer) (auto simp: team_delete_def mvals_mfilter split: guard_split)

lemma plain_setStatus: "earns G s (snd (tm_setStatus issued now auth og i t who w v s))"
  unfolding tm_setStatus_def
  by (rule tm_change_cases) (auto simp: row_earns_def same_place_def intro!: earns_save split: guard_split)

lemma plain_accept: "earns G s (snd (tm_accept issued now auth og i who v s))"
  unfolding tm_accept_def
  by (rule tm_change_cases) (auto simp: row_earns_def same_place_def intro!: earns_save split: option.split)

lemma plain_setResponsibility: "earns G s (snd (tm_setResponsibility issued now auth og i t v s))"
  unfolding tm_setResponsibility_def
  by (rule tm_change_cases) (auto simp: row_earns_def same_place_def intro!: earns_save split: guard_split)

lemma plain_unassign: "earns G s (snd (tm_unassignRole issued now auth og i rid v s))"
  unfolding tm_unassignRole_def
  by (rule tm_change_cases) (auto simp: row_earns_def same_place_def intro!: earns_save)

lemma plain_assign:
  assumes "\<And>row. mget (teamMemberships s) i = Some row \<Longrightarrow> tm_organizationId row = og \<Longrightarrow> team_role s og rid \<Longrightarrow> G og (tm_teamId row) rid"
  shows "earns G s (snd (tm_assignRole issued now auth og i rid v s))"
  unfolding tm_assignRole_def
proof (rule tm_change_cases)
  fix row assume r: "mget (teamMemberships s) i = Some row" "tm_organizationId row = og"
  show "earns G s (snd (guard (assertTeamRoles s og [rid]) (\<lambda>_. if rid \<in> set (tm_roleIds row) then returns row
      else save_tm i (row \<lparr> tm_roleIds := tm_roleIds row @ [rid], tm_updatedAt := now, tm_version := tm_version row + 1 \<rparr>)) s))"
  proof (cases "assertTeamRoles s og [rid]")
    case (Inr u)
    then have "G og (tm_teamId row) rid" using assms[OF r] assertTeamRoles_Inr[OF Inr, of rid] by simp
    then show ?thesis using r Inr by (auto simp: row_earns_def same_place_def intro!: earns_save)
  qed simp
qed simp

lemma assertValidAdd_roles:
  "assertValidAddTeamMember input = Inr valid \<Longrightarrow> set (snd (snd valid)) = set (case am_roleIds input of None \<Rightarrow> [] | Some rs \<Rightarrow> rs)"
  by (auto simp: assertValidAddTeamMember_def Let_def split: if_splits)

lemma plain_add:
  assumes "\<And>rid. rid \<in> set (case am_roleIds input of None \<Rightarrow> [] | Some rs \<Rightarrow> rs) \<Longrightarrow> team_role s (am_organizationId input) rid \<Longrightarrow>
      G (am_organizationId input) (am_teamId input) rid"
  shows "earns G s (snd (tm_add issued now auth input s))"
proof (rule tm_add_row[of issued now auth input s])
  fix valid :: "tm_status \<times> responsibility \<times> string list" and at existing
  assume put: "snd (tm_add issued now auth input s) = put_tm (team_row at input
      (find (\<lambda>r. tm_teamId r = am_teamId input \<and> tm_membershipId r = am_membershipId input) (mvals (teamMemberships s))) valid) s" (is "_ = put_tm ?row s")
    and valid: "assertValidAddTeamMember input = Inr valid" and ok: "assertTeamRoles s (am_organizationId input) (snd (snd valid)) = Inr ()"
  have "tm_organizationId ?row = am_organizationId input" "tm_teamId ?row = am_teamId input" "tm_roleIds ?row = snd (snd valid)"
    by (simp_all add: team_row_def split: prod.split)
  then show ?thesis
    using assms assertTeamRoles_Inr[OF ok] assertValidAdd_roles[OF valid]
    by (intro earns_put[of _ "tm_id ?row" ?row]) (auto simp: put put_tm_def)
qed simp

text \<open>Through the audited view, on what the checks of a command left.\<close>

lemma earns_audited:
  assumes "mirrors env p q" "same now s s1" "earns G s1 (snd (q s1))"
  shows "earns G s (snd (p s1))"
  using assms(3) earns_rows[OF same_rows(1)[OF assms(2)]] earns_rows_after[OF mirrored_rows[OF assms(1), of s1]] by metis

lemma kept_roles:
  assumes "same now s s1"
  shows "earns G s (snd (aud_team_create env auth tc s1))" "earns G s (snd (aud_team_update env auth og i tu s1))"
    "earns G s (snd (aud_team_archive env auth og i who w v s1))" "earns G s (snd (aud_team_restore env auth og i who v s1))"
    "earns G s (snd (aud_team_delete env auth og i s1))" "earns G s (snd (aud_tm_setStatus env auth og i t who w v s1))"
    "earns G s (snd (aud_tm_accept env auth og i who v s1))" "earns G s (snd (aud_tm_setResponsibility env auth og i t v s1))"
    "earns G s (snd (aud_tm_unassignRole env auth og i rid v s1))"
  by (rule earns_audited[OF teams_mirrored(1) assms plain_create] earns_audited[OF teams_mirrored(2) assms plain_update]
      earns_audited[OF teams_mirrored(3) assms plain_archive] earns_audited[OF teams_mirrored(4) assms plain_restore]
      earns_audited[OF teams_mirrored(5) assms plain_delete] earns_audited[OF teams_mirrored(7) assms plain_setStatus]
      earns_audited[OF teams_mirrored(8) assms plain_accept] earns_audited[OF teams_mirrored(9) assms plain_setResponsibility]
      earns_audited[OF teams_mirrored(11) assms plain_unassign])+

lemma can_give_gives:
  assumes "can_give env actor og team rs s" "rid \<in> set rs" "same now s s1" "team_role s1 og rid"
  shows "gives env actor s og team rid"
  using assms same_rows(3)[OF assms(3)] by (auto simp: can_give_def gives_def team_role_def split: option.splits)

lemma kept_add:
  assumes "same now s s1"
    "can_give env actor (am_organizationId input) (am_teamId input) (case am_roleIds input of None \<Rightarrow> [] | Some rs \<Rightarrow> rs) s"
  shows "earns (gives env actor s) s (snd (aud_tm_add aenv auth input s1))"
  by (rule earns_audited[OF teams_mirrored(6) assms(1) plain_add]) (rule can_give_gives[OF assms(2) _ assms(1)])

lemma kept_assign:
  assumes "same now s s1" "tm_findById s og i = Some row" "can_give env actor og (tm_teamId row) [rid] s"
  shows "earns (gives env actor s) s (snd (aud_tm_assignRole aenv auth og i rid v s1))"
proof (rule earns_audited[OF teams_mirrored(10) assms(1) plain_assign])
  fix b assume "mget (teamMemberships s1) i = Some b" "tm_organizationId b = og" and r: "team_role s1 og rid"
  then have "b = row" using assms(2) same_rows(1)[OF assms(1)] by (simp add: tm_findById_def)
  then show "gives env actor s og (tm_teamId b) rid" using can_give_gives[OF assms(3) _ assms(1) r] by simp
qed

text \<open>What a command may leave.\<close>

definition ruled :: "team_env \<Rightarrow> identity \<Rightarrow> team_command \<Rightarrow> store \<Rightarrow> store \<Rightarrow> bool" where
  "ruled env actor c s s' \<longleftrightarrow> permitted env actor c s \<and> (keyed tm_id (teamMemberships s) \<longrightarrow> earns (gives env actor s) s s')"

lemma ruledI: "permitted env actor c s \<Longrightarrow> earns (gives env actor s) s s' \<Longrightarrow> stays now s (ruled env actor c s) s'"
  by (simp add: stays_def ruled_def)

lemma found_id: "tm_findById s og i = Some row \<Longrightarrow> keyed tm_id (teamMemberships s) \<Longrightarrow> tm_id row = i"
  by (auto simp: tm_findById_def keyed_def split: option.splits if_splits dest!: map_of_SomeD)

section \<open>Every change was authorized\<close>

lemma create_authorized: "stays (te_now env) s (ruled env actor (SCreateTeam input) s) (snd (ts_createTeam env actor input s))"
  unfolding ts_createTeam_def by (rule step_require[OF same_refl]) (auto intro!: ruledI kept_roles)

lemma update_authorized: "stays (te_now env) s (ruled env actor (SUpdateTeam og team change) s) (snd (ts_updateTeam env actor og team change s))"
  unfolding ts_updateTeam_def
proof (rule step_require[OF same_refl])
  fix s1 assume may: "ts_may env actor og (tp_manage (te_keys env)) (Some team) s" and s1: "same (te_now env) s s1"
  note find = same_rows(6)[OF s1, of og team]
  let ?c = "SUpdateTeam og team change"
  let ?place = "case ut_parentId change of
         None \<Rightarrow> returns ()
       | Some parent \<Rightarrow> (\<lambda>s.
           case team_findById s og team of
             None \<Rightarrow> returns () s
           | Some current \<Rightarrow>
               if t_parentId current = parent then returns () s
               else ts_require env actor og (tp_manage (te_keys env)) parent s)"
  have "(\<exists>s2. ?place s1 = (Inr (), s2) \<and> same (te_now env) s s2 \<and> permitted env actor ?c s) \<or>
      (\<exists>e s2. ?place s1 = (Inl e, s2) \<and> same (te_now env) s s2)"
  proof (cases "permitted env actor ?c s")
    case True
    then show ?thesis
      using s1 find require_cases[OF s1, of actor og "tp_manage (te_keys env)" "the (ut_parentId change)"]
      by (auto simp: returns_def split: option.splits)
  next
    case False
    with may show ?thesis
      using find require_cases[OF s1, of actor og "tp_manage (te_keys env)" "the (ut_parentId change)"] by (auto split: option.splits)
  qed
  then show "stays (te_now env) s (ruled env actor ?c s)
      (snd (and_then ?place (\<lambda>_. aud_team_update (team_audit env actor) (ts_grant env actor og TeamUpdate) og team change) s1))"
    by (elim disjE exE conjE) (simp_all only: and_then_def prod.case sum.case snd_conv ruledI kept_roles stays_same)
qed

lemma tree_authorized:
  "stays (te_now env) s (ruled env actor (SArchiveTeam og team reason v) s) (snd (ts_archiveTeam env actor og team reason v s))"
  "stays (te_now env) s (ruled env actor (SRestoreTeam og team v) s) (snd (ts_restoreTeam env actor og team v s))"
  "stays (te_now env) s (ruled env actor (SDeleteTeam og team) s) (snd (ts_deleteTeam env actor og team s))"
  unfolding ts_archiveTeam_def ts_restoreTeam_def ts_deleteTeam_def by (rule step_require[OF same_refl]; auto intro!: ruledI kept_roles)+

lemma add_authorized: "stays (te_now env) s (ruled env actor (SAddMember input) s) (snd (ts_addMember env actor input s))"
  unfolding ts_addMember_def Let_def
  apply (rule step_require[OF same_refl])
  apply (erule step_asks[OF _ asks_if[OF asks_require]])
  apply (erule step_asks[OF _ asks_grant])
  apply (rule ruledI)
   apply auto[1]
  apply (erule kept_add)
  apply simp
  done

lemma accept_foreign:
  assumes "\<not> about s og i (invited actor s)"
  shows "snd (aud_tm_accept env auth og i actor v s) = s"
proof -
  let ?q = "tm_accept (fst auth) (au_now env) (snd auth) og i actor v"
  have "\<exists>e. ?q s = (Inl e, s)"
    using assms unfolding tm_accept_def tm_change_def
    by (auto simp: about_def invited_def requireTeamMembership_def tm_findById_def guard_def fails_def split: sum.splits option.splits if_splits)
  moreover have "mirrors env (aud_tm_accept env auth og i actor v) ?q" by (rule teams_mirrored)
  ultimately show ?thesis by (auto simp: mirrors_def)
qed

lemma accept_authorized: "stays (te_now env) s (ruled env actor (SAcceptInvitation og i) s) (snd (ts_acceptInvitation env actor og i s))"
  unfolding ts_acceptInvitation_def
proof (rule step_load[OF same_refl])
  fix row assume r: "tm_findById s og i = Some row"
  show "stays (te_now env) s (ruled env actor (SAcceptInvitation og i) s)
      (snd (aud_tm_accept (team_audit env actor) (ts_grant env actor og MemberAccept) og (tm_id row) actor None s))"
  proof (cases "about s og (tm_id row) (invited actor s)")
    case True
    then show ?thesis by (intro ruledI kept_roles(7)[of "te_now env"] same_refl) (simp add: about_def[of s og i] r)
  qed (simp add: stays_def accept_foreign)
qed

lemma leave_authorized: "stays (te_now env) s (ruled env actor (SLeaveTeam og team) s) (snd (ts_leaveTeam env actor og team s))"
  unfolding ts_leaveTeam_def
proof (rule step_actor[OF same_refl])
  fix s1 assume s1: "same (te_now env) s s1"
  let ?mine = "fst (mem_findByIdentity (te_now env) og actor s)"
  show "stays (te_now env) s (ruled env actor (SLeaveTeam og team) s)
      (snd (case case ?mine of None \<Rightarrow> None | Some m \<Rightarrow> tm_find s1 og team (m_id m) of
         None \<Rightarrow> fails (teamErr ''team_membership_not_found'') s1
       | Some row \<Rightarrow> ts_setStatus env actor og row ''removed'' (Some ''left'') s1))"
  proof (cases "case ?mine of None \<Rightarrow> None | Some m \<Rightarrow> tm_find s1 og team (m_id m)")
    case (Some row)
    then have "permitted env actor (SLeaveTeam og team) s" using same_rows(5)[OF s1] by (auto split: option.splits)
    then show ?thesis unfolding Some by (simp add: ts_setStatus_def ruledI kept_roles(6)[OF s1])
  qed (simp add: stays_same s1)
qed

text \<open>The commands about a row of somebody else.\<close>

lemma manage_row:
  assumes "tm_findById s og i = Some row" "same (te_now env) s s1"
    and "\<And>s2. managed env actor og permission s row \<Longrightarrow> same (te_now env) s s2 \<Longrightarrow> stays (te_now env) s P (snd (k s2))"
  shows "stays (te_now env) s P (snd (and_then (ts_require env actor og permission (Some (tm_teamId row)))
    (\<lambda>_. and_then (assertCanTouchTeamMember env actor og row) (\<lambda>_. k)) s1))"
  by (rule step_require[OF assms(2)], erule step_touch, rule assms(3)) (simp_all add: managed_def)

lemma status_ruled:
  assumes "permitted env actor c s" "same (te_now env) s s1"
  shows "stays (te_now env) s (ruled env actor c s) (snd (ts_setStatus env actor og row st reason s1))"
  unfolding ts_setStatus_def by (rule ruledI[OF assms(1) kept_roles(6)[OF assms(2)]])

lemma remove_authorized: "stays (te_now env) s (ruled env actor (SRemoveMember og i reason) s) (snd (ts_removeMember env actor og i reason s))"
  unfolding ts_removeMember_def
proof (rule step_load[OF same_refl], rule step_own[OF same_refl])
  fix row s1 assume r: "tm_findById s og i = Some row" and s1: "same (te_now env) s s1"
  let ?P = "ruled env actor (SRemoveMember og i reason) s"
  show "stays (te_now env) s ?P (snd (and_then (if own_row env actor row s then returns () else
       and_then (ts_require env actor og (tp_membersRemove (te_keys env)) (Some (tm_teamId row))) (\<lambda>_.
         assertCanTouchTeamMember env actor og row)) (\<lambda>_. ts_setStatus env actor og row ''removed'' reason) s1))"
  proof (cases "own_row env actor row s")
    case True
    then show ?thesis by (simp add: and_then_def returns_def status_ruled[OF _ s1] about_def r)
  next
    case False
    have "stays (te_now env) s ?P (snd (and_then (ts_require env actor og (tp_membersRemove (te_keys env)) (Some (tm_teamId row)))
        (\<lambda>_. and_then (assertCanTouchTeamMember env actor og row) (\<lambda>_. ts_setStatus env actor og row ''removed'' reason)) s1))"
      by (rule manage_row[OF r s1]) (simp add: status_ruled about_def r)
    then show ?thesis using False by (simp add: then_assoc)
  qed
qed

lemma manage_authorized:
  "stays (te_now env) s (ruled env actor (SSuspendMember og i reason) s) (snd (ts_suspendMember env actor og i reason s))"
  "stays (te_now env) s (ruled env actor (SUnassignRole og i r) s) (snd (ts_unassignRole env actor og i r s))"
  unfolding ts_suspendMember_def ts_unassignRole_def
proof (rule_tac [!] step_load[OF same_refl])
  fix row assume row: "tm_findById s og i = Some row"
  note m = manage_row[OF row same_refl, where permission = "tp_membersManage (te_keys env)" and actor = actor]
  show "stays (te_now env) s (ruled env actor (SSuspendMember og i reason) s)
      (snd (and_then (ts_require env actor og (tp_membersManage (te_keys env)) (Some (tm_teamId row)))
        (\<lambda>_. and_then (assertCanTouchTeamMember env actor og row) (\<lambda>_. ts_setStatus env actor og row ''suspended'' reason)) s))"
    by (rule m) (simp add: status_ruled about_def row)
  show "stays (te_now env) s (ruled env actor (SUnassignRole og i r) s)
      (snd (and_then (ts_require env actor og (tp_membersManage (te_keys env)) (Some (tm_teamId row)))
        (\<lambda>_. and_then (assertCanTouchTeamMember env actor og row)
          (\<lambda>_. aud_tm_unassignRole (team_audit env actor) (ts_grant env actor og MemberRole) og (tm_id row) r None)) s))"
    by (rule m) (simp add: ruledI kept_roles(9) about_def row)
qed

lemma reactivate_authorized:
  "stays (te_now env) s (ruled env actor (SReactivateMember og i) s) (snd (ts_reactivateMember env actor og i s))"
  unfolding ts_reactivateMember_def
proof (rule step_load[OF same_refl], rule step_not_own[OF same_refl])
  fix row s1 assume r: "tm_findById s og i = Some row" and own: "\<not> own_row env actor row s" and s1: "same (te_now env) s s1"
  show "stays (te_now env) s (ruled env actor (SReactivateMember og i) s)
      (snd (and_then (ts_require env actor og (tp_membersManage (te_keys env)) (Some (tm_teamId row)))
        (\<lambda>_. and_then (assertCanTouchTeamMember env actor og row) (\<lambda>_. ts_setStatus env actor og row ''active'' None)) s1))"
    by (rule manage_row[OF r s1]) (simp add: status_ruled about_def r own)
qed

lemma responsibility_authorized:
  "stays (te_now env) s (ruled env actor (SSetResponsibility og i t) s) (snd (ts_setResponsibility env actor og i t s))"
  unfolding ts_setResponsibility_def
  apply (rule step_load[OF same_refl], rule step_not_own[OF same_refl])
  apply (erule step_require)
  apply (erule step_asks[OF _ asks_if[OF asks_require]])
  apply (erule step_touch)
  apply (rule ruledI)
   apply (auto simp: about_def managed_def)[1]
  apply (erule kept_roles)
  done

lemma assign_authorized: "stays (te_now env) s (ruled env actor (SAssignRole og i r) s) (snd (ts_assignRole env actor og i r s))"
  unfolding ts_assignRole_def
proof (rule step_load[OF same_refl], rule step_not_own[OF same_refl])
  fix row s1 assume r: "tm_findById s og i = Some row" and own: "\<not> own_row env actor row s" and s1: "same (te_now env) s s1"
  show "stays (te_now env) s (ruled env actor (SAssignRole og i r) s)
      (snd (and_then (ts_require env actor og (tp_membersManage (te_keys env)) (Some (tm_teamId row)))
        (\<lambda>_. and_then (assertCanTouchTeamMember env actor og row) (\<lambda>_. and_then (assertCanGrant env actor og (tm_teamId row) [r])
          (\<lambda>_. aud_tm_assignRole (team_audit env actor) (ts_grant env actor og MemberRole) og (tm_id row) r None))) s1))"
  proof (rule manage_row[OF r s1])
    fix s2 assume m: "managed env actor og (tp_membersManage (te_keys env)) s row" and s2: "same (te_now env) s s2"
    show "stays (te_now env) s (ruled env actor (SAssignRole og i r) s)
        (snd (and_then (assertCanGrant env actor og (tm_teamId row) [r])
          (\<lambda>_. aud_tm_assignRole (team_audit env actor) (ts_grant env actor og MemberRole) og (tm_id row) r None) s2))"
    proof (rule step_asks[OF s2 asks_grant])
      fix s3 assume g: "can_give env actor og (tm_teamId row) [r] s" and s3: "same (te_now env) s s3"
      let ?s' = "snd (aud_tm_assignRole (team_audit env actor) (ts_grant env actor og MemberRole) og (tm_id row) r None s3)"
      have "earns (gives env actor s) s ?s'" if "keyed tm_id (teamMemberships s)"
        using kept_assign[OF s3 _ g] r found_id[OF r that] by simp
      then show "stays (te_now env) s (ruled env actor (SAssignRole og i r) s) ?s'"
        by (simp add: stays_def ruled_def about_def r own m g)
    qed
  qed
qed

lemma found_by_id:
  fixes s :: store
  assumes "same now s s1"
  shows "fst (mem_findById now i s1) = fst (mem_findById now i s)" "same now s (snd (mem_findById now i s1))"
proof -
  have "lapseBlocks now s1 = lapseBlocks now s" using assms by (auto simp: same_def lapse_again)
  then show "fst (mem_findById now i s1) = fst (mem_findById now i s)" "same now s (snd (mem_findById now i s1))"
    by (simp_all only: mem_findById_def Let_def fst_conv snd_conv same_lapse)
qed

lemma moved_roles:
  assumes "same now s s1"
  shows "earns (gives env actor s) s (snd (and_then (aud_tm_add aenv auth (moved_in input who)) (\<lambda>joined.
    and_then (aud_tm_setStatus aenv2 auth2 og i st by reason v) (\<lambda>_. returns joined)) s1))"
proof -
  obtain r s2 where add: "aud_tm_add aenv auth (moved_in input who) s1 = (r, s2)" by fastforce
  have "earns (gives env actor s) s s2"
    using kept_add[OF assms, of env actor "moved_in input who" aenv auth] add by (simp add: moved_in_def can_give_def)
  moreover obtain r3 s3 where st: "aud_tm_setStatus aenv2 auth2 og i st by reason v s2 = (r3, s3)" by fastforce
  moreover have "earns (gives env actor s) s2 s3"
    using kept_roles(6)[OF same_refl, of _ s2 aenv2 auth2 og i st "by" reason v] st by simp
  ultimately show ?thesis
    using earns_trans by (cases r; cases r3) (auto simp: and_then_def returns_def add)
qed

lemma move_authorized: "stays (te_now env) s (ruled env actor (SMoveMember input) s) (snd (ts_moveMember env actor input s))"
proof (cases "mv_fromTeamId input = mv_toTeamId input")
  case True
  then show ?thesis by (simp add: stays_def ts_moveMember_def)
next
  case False
  let ?og = "mv_organizationId input"
  show ?thesis
    unfolding ts_moveMember_def Let_def if_not_P[OF False]
  proof (rule step_require[OF same_refl], erule step_require)
    fix s1
    assume may: "ts_may env actor ?og (tp_membersRemove (te_keys env)) (Some (mv_fromTeamId input)) s"
      "ts_may env actor ?og (tp_membersAdd (te_keys env)) (Some (mv_toTeamId input)) s" and s1: "same (te_now env) s s1"
    note row = same_rows(5)[OF s1, of ?og "mv_fromTeamId input" "mv_membershipId input"]
    obtain x s2 where m: "mem_findById (te_now env) (mv_membershipId input) s1 = (x, s2)" by fastforce
    have x: "x = fst (mem_findById (te_now env) (mv_membershipId input) s)" "same (te_now env) s s2"
      using found_by_id[OF s1, of "mv_membershipId input"] m by simp_all
    let ?go = "\<lambda>row. and_then (aud_tm_add (team_audit env actor) (ts_grant env actor ?og MemberAdd) (moved_in input actor)) (\<lambda>joined.
                and_then (aud_tm_setStatus (team_audit_next env actor) (ts_grant env actor ?og MemberStatus) ?og (tm_id row) ''removed'' actor
                    (Some (case mv_reason input of None \<Rightarrow> ''moved'' | Some r \<Rightarrow> r)) None) (\<lambda>_.
                  returns joined))"
    have go: "earns (gives env actor s) s (snd (?go row s2))" for row by (rule moved_roles[OF x(2)])
    show "stays (te_now env) s (ruled env actor (SMoveMember input) s)
      (snd (case tm_find s1 ?og (mv_fromTeamId input) (mv_membershipId input) of
            None \<Rightarrow> fails (teamErr ''team_membership_not_found'') s1
          | Some row \<Rightarrow>
              if tm_status row = TMRemoved then fails (teamErr ''team_membership_not_found'') s1
              else
                and_then (ts_read (mem_findById (te_now env) (mv_membershipId input))) (\<lambda>target.
                and_then (ts_check (case target of
                    None \<Rightarrow> Inl (teamErr ''team_member_unknown'')
                  | Some m \<Rightarrow> if m_organizationId m \<noteq> ?og then Inl (teamErr ''team_member_unknown'')
                              else if sameIdentity (m_identity m) actor then Inl (teamErr ''team_forbidden'') else Inr ())) (\<lambda>_. ?go row)) s1))"
    proof (cases "tm_find s1 ?og (mv_fromTeamId input) (mv_membershipId input)")
      case None
      then show ?thesis by (simp add: stays_same s1)
    next
      case (Some row)
      show ?thesis
      proof (cases "tm_status row = TMRemoved \<or> x = None \<or> m_organizationId (the x) \<noteq> ?og \<or> sameIdentity (m_identity (the x)) actor")
        case True
        then show ?thesis unfolding Some
          by (auto simp: and_then_def ts_read_def ts_check_def m intro!: stays_same s1 x(2) split: option.splits)
      next
        case f: False
        then have "permitted env actor (SMoveMember input) s" using may False Some row x(1) by (auto split: option.splits)
        note r = ruledI[OF this go[of row]]
        have e: "and_then (ts_read (mem_findById (te_now env) (mv_membershipId input))) (\<lambda>target.
                and_then (ts_check (case target of
                    None \<Rightarrow> Inl (teamErr ''team_member_unknown'')
                  | Some m \<Rightarrow> if m_organizationId m \<noteq> ?og then Inl (teamErr ''team_member_unknown'')
                              else if sameIdentity (m_identity m) actor then Inl (teamErr ''team_forbidden'') else Inr ())) (\<lambda>_. ?go row)) s1 = ?go row s2"
          using f by (auto simp: and_then_def[of "ts_read _"] and_then_def[of "ts_check _"] ts_read_def ts_check_def m)
        from f have "tm_status row \<noteq> TMRemoved" by simp
        from r show ?thesis unfolding Some by (simp only: option.case if_not_P[OF \<open>tm_status row \<noteq> TMRemoved\<close>] e)
      qed
    qed
  qed
qed

lemmas service_stays = create_authorized update_authorized tree_authorized add_authorized accept_authorized leave_authorized
  remove_authorized manage_authorized reactivate_authorized responsibility_authorized assign_authorized move_authorized

lemma service_ruled: "stays (te_now env) s (ruled env actor c s) (snd (service_exec env actor c s))"
  by (cases c; simp only: service_exec.simps quiet_store; rule service_stays)

text \<open>
  C26: every change was authorized.  A command of the team service that leaves the storage different (ended suspensions
  aside) was permitted to the actor as the code checks it (\<open>permitted\<close>), on the storage as it was before the command: the permission the
  rule names, held in the organization or inside that very team; no row of the actor's own where the rule says so; no role given
  with a permission the actor is not allowed; and for removing somebody else, suspending, reactivating and changing the responsibility or
  the roles, a member of the team with no more power there than the actor.  Moving is the exception to that last rule: \<open>moveMember\<close> takes a
  member out of a team, the roles held there included, whatever their power, and asks only for the two permissions, that it is not the
  actor's own membership, and that it is in the team; the comment on the service promises otherwise.
\<close>

theorem team_commands_authorized:
  "same (te_now env) s (snd (service_exec env actor c s)) \<or> permitted env actor c s"
proof -
  show ?thesis using service_ruled[of env s actor c] by (auto simp: stays_def ruled_def)
qed

text \<open>
  C27: no escalation through team roles.  After a command of the team service, a role held by a member inside a team was already held
  by that member in that team, or is a role of that organization, not the Owner role, with no permission the engine did not allow
  the actor in the organization or in that very team.
\<close>

theorem team_roles_given:
  assumes "keyed tm_id (teamMemberships s)" "row \<in> set (mvals (teamMemberships (snd (service_exec env actor c s))))" "rid \<in> set (tm_roleIds row)"
  shows "(\<exists>before \<in> set (mvals (teamMemberships s)). same_place before row \<and> rid \<in> set (tm_roleIds before)) \<or>
    (\<exists>r. mget (roles s) rid = Some r \<and> giveable env actor (tm_organizationId row) (tm_teamId row) s r)"
proof (cases "same (te_now env) s (snd (service_exec env actor c s))")
  case True
  then show ?thesis using assms(2,3) same_rows(1)[OF True] by (auto simp: same_place_def)
next
  case False
  then have "earns (gives env actor s) s (snd (service_exec env actor c s))"
    using service_ruled[of env s actor c] assms(1) by (simp add: stays_def ruled_def)
  then show ?thesis using assms(2,3) unfolding earns_def gives_def by blast
qed

text \<open>The Owner puts the clerk in a team, with the role of the clerks.\<close>

definition demo_service_store :: store where
  "demo_service_store = demo_engine_store \<lparr> teams := [(''t1'', demo_t1)] \<rparr>"

definition demo_service :: team_env where
  "demo_service = \<lparr> te_hash = id, te_now = 5, te_auditIds = (''a'', ''b''), te_eventIds = (''e'', ''f''), te_outbox = False,
     te_engine = \<lparr> ownerRequiresRegisteredPermission = False \<rparr>, te_keys = TEAM_PERMISSIONS, te_issued = [], te_ref = 0 \<rparr>"

definition demo_joins :: team_command where
  "demo_joins = SAddMember \<lparr> am_id = ''x1'', am_organizationId = ''o1'', am_teamId = ''t1'', am_membershipId = ''m2'', am_status = None,
     am_responsibility = None, am_roleIds = Some [''r2''], am_invitedBy = None, am_now = None \<rparr>"

definition demo_after :: store where
  "demo_after = snd (service_exec demo_service (m_identity demo_owner_member) demo_joins demo_service_store)"

lemma demo_joined: "map (\<lambda>row. (tm_teamId row, tm_roleIds row)) (mvals (teamMemberships demo_after)) = [(''t1'', [''r2''])]"
  by code_simp

theorem team_roles_given_witness:
  "\<exists>r. mget (roles demo_service_store) ''r2'' = Some r \<and> giveable demo_service (m_identity demo_owner_member)
     (tm_organizationId (hd (mvals (teamMemberships demo_after)))) ''t1'' demo_service_store r"
proof -
  obtain row where rows: "mvals (teamMemberships demo_after) = [row]" and row: "tm_teamId row = ''t1''" "tm_roleIds row = [''r2'']"
    using demo_joined by (auto simp: map_eq_Cons_conv)
  have t: "teamMemberships demo_service_store = []"
    by (simp add: demo_service_store_def demo_engine_store_def demo_perm_store_def empty_store_def)
  have "row \<in> set (mvals (teamMemberships (snd (service_exec demo_service (m_identity demo_owner_member) demo_joins demo_service_store))))"
    using rows by (simp add: demo_after_def)
  then show ?thesis using team_roles_given[of demo_service_store row demo_service "m_identity demo_owner_member" demo_joins "''r2''"] t row rows
    by (simp add: mvals_def)
qed

end
