(* ===== verification/AuditTrail.thy ===== *)
theory AuditTrail
  imports Audited
begin

text \<open>
  What the audited view of a storage (\<open>packages/core/src/storage/audited.ts\<close>) is for: every call that changes a row leaves an
  entry of the acting person that names the kind of change and the row.

  The calls of the wrapped repositories are the constructors of \<open>audited_op\<close>, one datatype per repository.  \<open>audited_exec\<close> runs a
  call on the audited view, \<open>plain_exec\<close> on the storage below.
\<close>

section \<open>The storage below writes no entries\<close>





lemma row_writes [simp]:
  "auditLogs (lapseBlocks now s) = auditLogs s" "auditLogs (put_membership i m s) = auditLogs s" "auditLogs (put_role r s) = auditLogs s"
  "auditLogs (drop_member i s) = auditLogs s" "auditLogs (detach_role i s) = auditLogs s"
  "auditLogs (put_team t s) = auditLogs s" "auditLogs (put_tm row s) = auditLogs s"
  by (simp_all add: lapseBlocks_def put_membership_def put_role_def drop_member_def detach_role_def put_team_def put_tm_def)



























section \<open>Entries and silent calls\<close>











section \<open>The calls of each repository\<close>






























section \<open>Policies\<close>










section \<open>Every call of the audited view\<close>













































section \<open>Every change is recorded\<close>








subsection \<open>A suspended organization\<close>






end
