(* ===== verification/Spec2Isabelle.thy ===== *)
theory Spec2Isabelle
  imports Entitlements Invitations Dispatch Ownership PolicyDecider AccessRefusals TeamSafety AuditTrail
begin

text \<open>
  Uniora, a library for multi-tenant authorization (\<open>packages/core\<close>): who belongs to an organization, which roles and permissions
  they hold there, and what they may therefore do.  This development models its core: the storage contract as the in-memory backend
  \<open>storage/memory.ts\<close> implements it, the validation its repositories share, the authorization engine, and the policy layer on top.
  All file names below are relative to \<open>src/packages/core/src\<close>.

  \<^bold>\<open>How the program is put together.\<close>  \<open>createMemoryStorage\<close> closes over one map per kind of row; each repository is a group of functions
  over those maps.  Organizations own memberships, roles, teams, invitations and support grants by \<open>organizationId\<close>; a
  membership and a row of a team list ids of roles; a role lists keys of the permission catalog, whose entries imply others.  Deleting a
  role edits memberships and rows of teams, deleting a member edits rows of teams, linking identities changes which member an identity is,
  and reading a member first lifts suspensions that have ended.  The engine reads all of these to decide; policies can only restrict what it
  allows.  The audit log chains its entries by digest; the outbox hands events to workers under leases.

  \<^bold>\<open>Shared theories.\<close>
  \<^item> \<open>Prelude\<close>: insertion-ordered maps (a JavaScript \<open>Map\<close> is an association list), sums as results, sorting, pages, and the
    graph search the catalog uses.
  \<^item> \<open>Text\<close>, \<open>Errors\<close>, \<open>Json\<close>, \<open>Calendar\<close>: \<open>shared/slug.ts\<close>, \<open>shared/errors.ts\<close> and \<open>shared/version.ts\<close>,
    \<open>JSON.stringify\<close> and \<open>shared/canonical-json.ts\<close>, the UTC calendar of \<open>Date\<close>.  The locale \<open>composite_key\<close> (keys joined
    of two texts) is interpreted in \<open>Entitlements\<close>, \<open>Features\<close> and \<open>Identity\<close>.
  \<^item> \<open>State\<close>: the row types of \<open>types.ts\<close> files as records and the maps as one record \<open>store\<close>; an operation is a function
    from a store to a result or thrown error and the store it leaves.
  \<^item> \<open>Hierarchy\<close>: forests of bounded depth and the locale \<open>bounded_forest\<close>, interpreted by the feature catalog and by the teams.
  \<^item> \<open>Versioned\<close>: the locale of optimistic concurrency, interpreted by organizations, memberships and teams.

  \<^bold>\<open>Components.\<close>
  \<^item> \<open>AuditLog\<close>: \<open>audit-log/chain.ts\<close>, \<open>audit-log/repository.ts\<close>.  Every run keeps the chain verifiable, exported
    heads stay valid, and a chain that verifies up to a known head has the same content.
  \<^item> \<open>Organizations\<close>, \<open>Identity\<close>, \<open>Memberships\<close>, \<open>Roles\<close>, \<open>Permissions\<close>: the directories of the same names and
    \<open>identity-link\<close>.  Slugs and role names stay unique, the implication graph stays acyclic and shallow, the
    searches compute its closure, and the last active Owner is never lost as long as new members get new ids (step relation
    \<open>mem_step\<close>, by rule induction).
  \<^item> \<open>FeatureEffective\<close>, \<open>Features\<close>: \<open>feature/\<close>.  The catalog is a forest; effective resolution equals the
    requirements the SQL backends query.
  \<^item> \<open>Entitlements\<close>, \<open>SupportGrants\<close>, \<open>Invitations\<close>: their directories; limits and usage windows, temporary access, and
    the life of an invitation and its token.
  \<^item> \<open>Delivery\<close>: \<open>invitation/delivery.ts\<close>.  \<open>Outbox\<close>, \<open>Dispatch\<close>: \<open>outbox/\<close>; leases exclude, delivered events
    are final, a pass settles what it claimed.
  \<^item> \<open>TeamAuth\<close>, \<open>Teams\<close>, \<open>TeamMembers\<close>: \<open>team/authorization.ts\<close>, \<open>team/repository.ts\<close>; the tree of teams, the tokens
    that changes need, the life cycle and the roles of the rows inside a team.
  \<^item> \<open>Engine\<close>: \<open>authorization/engine.ts\<close>, \<open>authorization/snapshot.ts\<close>.  A decision is exactly the documented rule; tenants are
    isolated; the snapshot agrees with the engine.
  \<^item> \<open>Ownership\<close>: \<open>organization/create-with-owner.ts\<close>, \<open>membership/ownership.ts\<close>, compositions of operations.
  \<^item> \<open>PolicyTypes\<close>, \<open>PolicyEvaluate\<close>, \<open>PolicyDefinition\<close>: \<open>policy/types.ts\<close>, \<open>attributes.ts\<close>, \<open>environment.ts\<close>,
    \<open>evaluate.ts\<close>, \<open>definition.ts\<close>.  The counted evaluator that stops early agrees with plain three-valued logic.
    \<open>PolicyParsed\<close>: what the parser guarantees (types, sizes, read back, errors).
  \<^item> \<open>PolicyStore\<close>, \<open>PolicyLife\<close>: \<open>policy/authorization.ts\<close>, \<open>repository.ts\<close>, \<open>memory.ts\<close>, and what every run
    of them keeps (step relation \<open>policy_step\<close>).
  \<^item> \<open>PolicyFacts\<close>, \<open>PolicyDecider\<close>: \<open>policy/session.ts\<close>, \<open>decider.ts\<close> and the engine's \<open>authorize\<close>; policies only
    restrict, the cache is invisible, failing reads never allow, with the cache or without.

  \<^item> \<open>Audited\<close>: \<open>storage/audited.ts\<close>, every write with its entry of the log and its event.  Forgetting those, an audited call is the
    call (\<open>mirrors\<close>).  \<open>AuditTrail\<close>: its 53 calls as a datatype; each that changes a row leaves an entry that says so.
  \<^item> \<open>AccessPower\<close>, \<open>AccessGuard\<close>, \<open>AccessService\<close>: \<open>access/power.ts\<close>, \<open>authorization.ts\<close> and \<open>guard.ts\<close>, \<open>service.ts\<close> with
    \<open>permissions.ts\<close>, \<open>errors.ts\<close>, \<open>refusal.ts\<close>.  Holdings are what the engine allows; a guarded write takes a token of its own.
    \<open>AccessTame\<close>, \<open>AccessRules\<close>: writes that give no more than the actor holds, and that every command is one.
    \<open>AccessSafety\<close>: nobody gains what the actor does not hold, and the Owner stays (locale \<open>access_invariant\<close>, interpreted for both);
    \<open>AccessRefusals\<close>: a refused command changes nothing.
  \<^item> \<open>TeamService\<close>: \<open>team/service.ts\<close>, every command with its checks and audited writes.  \<open>TeamSafety\<close>: the rules as one table
    (\<open>permitted\<close>, which compares no power for a move, as the code), that a command that changes anything obeys it, and that a role inside a team is only given by who holds its permissions.

  \<^bold>\<open>Conventions.\<close>  A text is a HOL string, so a character is one of Latin-1; a \<open>Date\<close> is its milliseconds, and \<open>now\<close> is an
  argument; numbers are unbounded integers.  SHA-256, random ids, locales and time zones, host callbacks and mail
  providers are arguments.  The registry of issued tokens (a \<open>WeakMap\<close> from objects) is a map from numbers.  The in-memory
  \<open>transaction\<close> runs its callback and undoes nothing.  A stored record that is handed out is copied by the code and
  is a value here; the one place where two live objects share an array is written out (\<open>mem_unassignOwnerRole\<close>).

  \<^bold>\<open>Bounds.\<close>  Loops that the code bounds have the code's bound: \<open>MAX_FEATURE_DEPTH\<close>, \<open>MAX_TEAM_DEPTH * 4\<close> levels of a walk over
  teams, 20,000 steps of a policy evaluation (at most 200 active policies of at most 64 conditions each need fewer, which
  \<open>policies_always_decided\<close> proves).  The graph searches terminate by a measure; no other fuel is used.

  \<^bold>\<open>Not modelled.\<close>  The services and HTTP front ends around the repositories other than the access and team services (platform,
  invitations, policies, API keys, webhooks, profiles, role templates), the checks of untyped command objects (\<open>access/commands.ts\<close>,
  \<open>team/commands.ts\<close>), the trusted team storage and
  the context and retention of the audit log; the PostgreSQL and SQLite backends, whose behaviour is that of SQL
  text run by a database that is not under \<open>src\<close>, and the suite that tests them; the server, the client, the
  command line, the framework bindings, the identity adapters and the applications, which are input, output and glue.
\<close>

end
